(* ===== verification/Prelude.thy ===== *)
theory Prelude
  imports Main
begin

text \<open>
  Data structures shared by every component: Python dictionaries as association
  lists (insertion order matters to the code, which iterates over them), the
  order-preserving removal of duplicates \<open>list(dict.fromkeys(keys))\<close>, and the
  chunking helpers of \<open>src/kvtsjl/batching.py\<close>.
\<close>

named_theorems dict_simps \<open>lookups and key sets of the dictionary operations\<close>

declare map_of_eq_Some_iff [simp del]

section \<open>Duplicates removed in order\<close>

text \<open>\<open>list(dict.fromkeys(xs))\<close>: every element once, where it first occurred.\<close>

primrec fromkeys :: "'a list \<Rightarrow> 'a list" where
  "fromkeys [] = []"
| "fromkeys (x # xs) = x # filter (\<lambda>y. y \<noteq> x) (fromkeys xs)"

lemma set_fromkeys [simp]: "set (fromkeys xs) = set xs"
  by (induction xs) auto

lemma distinct_fromkeys [simp]: "distinct (fromkeys xs)"
  by (induction xs) auto

lemma fromkeys_distinct [simp]: "distinct xs \<Longrightarrow> fromkeys xs = xs"
  by (induction xs) (auto simp: filter_id_conv)

lemma fromkeys_eq_Nil [simp]: "fromkeys xs = [] \<longleftrightarrow> xs = []"
  by (cases xs) auto

section \<open>Dictionaries\<close>

type_synonym ('k, 'v) dict = "('k \<times> 'v) list"

abbreviation dget :: "('k, 'v) dict \<Rightarrow> 'k \<Rightarrow> 'v option" where
  "dget \<equiv> map_of"

abbreviation dkeys :: "('k, 'v) dict \<Rightarrow> 'k list" where
  "dkeys d \<equiv> map fst d"

text \<open>\<open>d[k] = v\<close>: an existing key keeps its position, a new one goes last.\<close>

fun dput :: "'k \<Rightarrow> 'v \<Rightarrow> ('k, 'v) dict \<Rightarrow> ('k, 'v) dict" where
  "dput k v [] = [(k, v)]"
| "dput k v ((k', v') # d) = (if k = k' then (k, v) # d else (k', v') # dput k v d)"

text \<open>\<open>del d[k]\<close> / \<open>d.pop(k, None)\<close>.\<close>

definition ddel :: "'k \<Rightarrow> ('k, 'v) dict \<Rightarrow> ('k, 'v) dict" where
  "ddel k d = filter (\<lambda>p. fst p \<noteq> k) d"

text \<open>\<open>d.update(d')\<close>.\<close>

fun dmerge :: "('k, 'v) dict \<Rightarrow> ('k, 'v) dict \<Rightarrow> ('k, 'v) dict" where
  "dmerge d [] = d"
| "dmerge d ((k, v) # d') = dmerge (dput k v d) d'"

text \<open>\<open>{k: f k for k in ks}\<close>, and its conditional form \<open>{k: v for k in ks if f k is not None}\<close>.\<close>

definition dict_of :: "('k \<Rightarrow> 'v) \<Rightarrow> 'k list \<Rightarrow> ('k, 'v) dict" where
  "dict_of f ks = map (\<lambda>k. (k, f k)) (fromkeys ks)"

definition dict_some :: "('k \<Rightarrow> 'v option) \<Rightarrow> 'k list \<Rightarrow> ('k, 'v) dict" where
  "dict_some f ks = map (\<lambda>k. (k, the (f k))) (filter (\<lambda>k. f k \<noteq> None) (fromkeys ks))"

text \<open>\<open>{k: g v for k, v in d.items()}\<close> and its filtering form.\<close>

definition dmap :: "('k \<Rightarrow> 'v \<Rightarrow> 'u) \<Rightarrow> ('k, 'v) dict \<Rightarrow> ('k, 'u) dict" where
  "dmap g d = map (\<lambda>(k, v). (k, g k v)) d"

definition dfilter :: "('k \<Rightarrow> 'v \<Rightarrow> bool) \<Rightarrow> ('k, 'v) dict \<Rightarrow> ('k, 'v) dict" where
  "dfilter p d = filter (\<lambda>(k, v). p k v) d"

abbreviation dict_ok :: "('k, 'v) dict \<Rightarrow> bool" where
  "dict_ok d \<equiv> distinct (dkeys d)"

lemma dget_dput [simp, dict_simps]: "dget (dput k v d) = (dget d)(k \<mapsto> v)"
  by (induction k v d rule: dput.induct) auto

lemma set_dkeys_dput [simp]: "fst ` set (dput k v d) = insert k (fst ` set d)"
  by (induction k v d rule: dput.induct) auto

lemma dict_ok_dput [simp]: "dict_ok (dput k v d) = dict_ok d"
  by (induction k v d rule: dput.induct) auto

lemma dget_ddel [simp, dict_simps]: "dget (ddel k d) = (dget d)(k := None)"
  by (induction d) (auto simp: ddel_def fun_eq_iff)

lemma dict_ok_ddel [simp]: "dict_ok d \<Longrightarrow> dict_ok (ddel k d)"
  by (simp add: ddel_def distinct_map_filter)

lemma set_dkeys_ddel [simp]: "fst ` set (ddel k d) = fst ` set d - {k}"
  by (auto simp: ddel_def)

lemma dget_dmerge [simp, dict_simps]:
  "dict_ok d' \<Longrightarrow> dget (dmerge d d') = dget d ++ dget d'"
proof (induction d d' rule: dmerge.induct)
  case (2 d k v d')
  then have "k \<notin> dom (dget d')" by (auto simp: dom_map_of_conv_image_fst)
  with 2 show ?case by (auto simp: map_add_def fun_eq_iff split: option.splits)
qed simp

lemma dict_ok_dmerge [simp]: "dict_ok (dmerge d d') = dict_ok d"
  by (induction d d' rule: dmerge.induct) auto

lemma dkeys_dict_of [simp]: "dkeys (dict_of f ks) = fromkeys ks"
  by (simp add: dict_of_def comp_def)

lemma dget_map_pair: "dget (map (\<lambda>k. (k, f k)) ks) k = (if k \<in> set ks then Some (f k) else None)"
  by (induction ks) auto

lemma dget_dict_of [simp, dict_simps]:
  "dget (dict_of f ks) k = (if k \<in> set ks then Some (f k) else None)"
  by (simp add: dict_of_def dget_map_pair)

lemma dkeys_dict_some: "dkeys (dict_some f ks) = filter (\<lambda>k. f k \<noteq> None) (fromkeys ks)"
  by (simp add: dict_some_def comp_def)

lemma dict_ok_dict_some [simp]: "dict_ok (dict_some f ks)"
  by (simp add: dkeys_dict_some)

lemma dget_dict_some [simp, dict_simps]:
  "dget (dict_some f ks) k = (if k \<in> set ks then f k else None)"
  by (auto simp: dict_some_def dget_map_pair)

lemma dkeys_dmap [simp]: "dkeys (dmap g d) = dkeys d"
  by (simp add: dmap_def comp_def case_prod_beta)

lemma dget_dmap [simp, dict_simps]: "dget (dmap g d) k = map_option (g k) (dget d k)"
  by (induction d) (auto simp: dmap_def)

lemma dict_ok_dfilter [simp]: "dict_ok d \<Longrightarrow> dict_ok (dfilter p d)"
  by (simp add: dfilter_def distinct_map_filter)

lemma dget_dfilter [dict_simps]:
  "dict_ok d \<Longrightarrow> dget (dfilter p d) k =
    (case dget d k of None \<Rightarrow> None | Some v \<Rightarrow> if p k v then Some v else None)"
proof (induction d)
  case (Cons a d)
  then have "dget d (fst a) = None"
    by (cases a) (auto simp: map_of_eq_None_iff)
  with Cons show ?case by (cases a) (auto simp: dfilter_def)
qed (simp add: dfilter_def)

lemma set_dfilter: "set (dfilter p d) = {(k, v) \<in> set d. p k v}"
  by (auto simp: dfilter_def)

lemma dkeys_dom: "set (dkeys d) = dom (dget d)"
  by (simp add: dom_map_of_conv_image_fst)

lemma dget_eq_None_iff: "dget d k = None \<longleftrightarrow> k \<notin> set (dkeys d)"
  by (auto simp: map_of_eq_None_iff)

lemma dget_Some_key: "dget d k = Some v \<Longrightarrow> k \<in> set (dkeys d)"
  by (metis dget_eq_None_iff option.distinct(1))

text \<open>Merging entries whose keys are all new appends them.\<close>

lemma dput_new: "k \<notin> set (dkeys d) \<Longrightarrow> dput k v d = d @ [(k, v)]"
  by (induction k v d rule: dput.induct) auto

lemma dmerge_append: "dmerge d (xs @ ys) = dmerge (dmerge d xs) ys"
  by (induction d xs rule: dmerge.induct) auto

lemma dmerge_new: "dict_ok (d @ d') \<Longrightarrow> dmerge d d' = d @ d'"
proof (induction d d' rule: dmerge.induct)
  case (2 d k v d')
  then have "k \<notin> set (dkeys d)" "dict_ok ((d @ [(k, v)]) @ d')" by auto
  with 2 show ?case by (simp add: dput_new)
qed simp

section \<open>Decimal text\<close>

text \<open>\<open>str(n)\<close> / \<open>f"{n}"\<close> of a natural number.\<close>

fun nat_string :: "nat \<Rightarrow> string" where
  "nat_string n = (if n < 10 then [char_of (48 + n)] else nat_string (n div 10) @ [char_of (48 + n mod 10)])"

declare nat_string.simps [simp del]

lemma nat_string_nonempty [simp]: "nat_string n \<noteq> []"
  by (subst nat_string.simps) simp

lemma digit_eq_iff: "m < 10 \<Longrightarrow> n < 10 \<Longrightarrow> (char_of (48 + m) :: char) = char_of (48 + n) \<longleftrightarrow> m = (n :: nat)"
  by (auto dest!: arg_cong [where f = "of_char :: char \<Rightarrow> nat"])

lemma nat_string_digits: "c \<in> set (nat_string n) \<Longrightarrow> \<exists>d < 10 :: nat. c = char_of (48 + d)"
proof (induction n rule: nat_string.induct)
  case (1 n)
  show ?case
  proof (cases "n < 10")
    case True
    with "1.prems" show ?thesis by (subst (asm) nat_string.simps) auto
  next
    case False
    with "1.prems" have "c \<in> set (nat_string (n div 10)) \<or> c = char_of (48 + n mod 10)"
      by (subst (asm) nat_string.simps) auto
    with "1.IH" [OF False] show ?thesis by (metis mod_less_divisor zero_less_numeral)
  qed
qed

lemma nat_string_eq_iff [simp]: "nat_string m = nat_string n \<longleftrightarrow> m = n"
proof
  assume "nat_string m = nat_string n"
  then show "m = n"
  proof (induction m arbitrary: n rule: nat_string.induct)
    case (1 m)
    have *: "nat_string x = (if x < 10 then [] else nat_string (x div 10)) @ [char_of (48 + x mod 10)]" for x
      by (subst nat_string.simps) simp
    from "1.prems" have init: "(if m < 10 then [] else nat_string (m div 10)) = (if n < 10 then [] else nat_string (n div 10))"
      and last: "(char_of (48 + m mod 10) :: char) = char_of (48 + n mod 10)"
      by (simp_all add: * [of m] * [of n])
    from last have mods: "m mod 10 = n mod 10" by (simp add: digit_eq_iff)
    from init have "m < 10 \<longleftrightarrow> n < 10" using nat_string_nonempty by metis
    moreover have "m div 10 = n div 10" if "\<not> m < 10" using "1.IH" [OF that, of "n div 10"] init that calculation by simp
    ultimately show ?case using mods by (metis div_less div_mult_mod_eq)
  qed
qed simp

lemma nat_string_no_colon [simp]: "CHR '':'' \<notin> set (nat_string n)"
proof
  assume "CHR '':'' \<in> set (nat_string n)"
  then obtain d :: nat where d: "d < 10" "CHR '':'' = (char_of (48 + d) :: char)" using nat_string_digits by blast
  from d(2) have "of_char (CHR '':'') = (of_char (char_of (48 + d) :: char) :: nat)" by simp
  with d(1) show False by simp
qed

text \<open>Text up to a separator it does not contain is determined.\<close>

lemma append_separator_eq:
  "sep \<notin> set xs \<Longrightarrow> sep \<notin> set ys \<Longrightarrow> xs @ sep # r = ys @ sep # r' \<longleftrightarrow> xs = ys \<and> r = r'"
proof (induction xs arbitrary: ys)
  case Nil
  then show ?case by (cases ys) auto
next
  case (Cons x xs)
  then show ?case by (cases ys) auto
qed

section \<open>Chunks (\<open>batching.py\<close>)\<close>

text \<open>
  \<open>chunk_sequence(items, sz)\<close> with \<open>sz \<ge> 1\<close>: \<open>items[i : i + sz]\<close> for \<open>i\<close> in
  \<open>range(0, len(items), sz)\<close>. \<open>None\<close> is the \<open>ValueError\<close> of a sz below 1.
\<close>

function chunks_from :: "nat \<Rightarrow> 'a list \<Rightarrow> nat \<Rightarrow> 'a list list" where
  "chunks_from sz items i =
     (if sz < 1 \<or> i \<ge> length items then []
      else take sz (drop i items) # chunks_from sz items (i + sz))"
  by pat_completeness auto
termination by (relation "measure (\<lambda>(sz, items, i). length items - i)") auto

declare chunks_from.simps [simp del]

definition chunk_sequence :: "'a list \<Rightarrow> int \<Rightarrow> 'a list list option" where
  "chunk_sequence items sz =
     (if sz < 1 then None else Some (chunks_from (nat sz) items 0))"

text \<open>
  \<open>iter_chunks(iterable, sz)\<close>: the open chunk is the accumulator; it is yielded when
  it reaches \<open>sz\<close>, and once more at the end if it is not empty.
\<close>

fun chunks_acc :: "nat \<Rightarrow> 'a list \<Rightarrow> 'a list \<Rightarrow> 'a list list" where
  "chunks_acc sz chunk [] = (if chunk = [] then [] else [chunk])"
| "chunks_acc sz chunk (x # xs) =
     (if length (chunk @ [x]) \<ge> sz then (chunk @ [x]) # chunks_acc sz [] xs
      else chunks_acc sz (chunk @ [x]) xs)"

definition iter_chunks :: "'a list \<Rightarrow> int \<Rightarrow> 'a list list option" where
  "iter_chunks items sz = (if sz < 1 then None else Some (chunks_acc (nat sz) [] items))"

lemma concat_chunks_from: "0 < sz \<Longrightarrow> concat (chunks_from sz items i) = drop i items"
proof (induction sz items i rule: chunks_from.induct)
  case (1 sz items i)
  show ?case
  proof (cases "i \<ge> length items")
    case True
    then show ?thesis by (subst chunks_from.simps) simp
  next
    case False
    with 1 have "concat (chunks_from sz items (i + sz)) = drop (i + sz) items" by simp
    moreover have "take sz (drop i items) @ drop (i + sz) items = drop i items"
      by (metis add.commute append_take_drop_id drop_drop)
    ultimately show ?thesis
      using 1(2) False by (subst chunks_from.simps) simp
  qed
qed

lemma chunks_from_length:
  "c \<in> set (chunks_from sz items i) \<Longrightarrow> 0 < length c \<and> length c \<le> sz"
proof (induction sz items i rule: chunks_from.induct)
  case (1 sz items i)
  show ?case
  proof (cases "sz < 1 \<or> i \<ge> length items")
    case True
    with 1(2) show ?thesis by (simp add: chunks_from.simps [of sz items i])
  next
    case False
    with 1(2) have "c = take sz (drop i items) \<or> c \<in> set (chunks_from sz items (i + sz))"
      by (simp add: chunks_from.simps [of sz items i])
    with 1(1) False show ?thesis by auto
  qed
qed

lemma concat_chunks_acc: "concat (chunks_acc sz chunk xs) = chunk @ xs"
  by (induction sz chunk xs rule: chunks_acc.induct) auto

lemma chunks_acc_length:
  "\<lbrakk>c \<in> set (chunks_acc sz chunk xs); length chunk < sz\<rbrakk>
   \<Longrightarrow> 0 < length c \<and> length c \<le> sz"
  by (induction sz chunk xs rule: chunks_acc.induct) (auto split: if_splits)

end
