(* ===== verification/Effects.thy ===== *)
theory Effects
  imports Prelude
begin

text \<open>
  Effects of the program: the exception classes of \<open>src/kvtsjl/exceptions.py\<close> as a
  datatype, and computations that read and change the media (the world \<open>'w\<close>) and may
  raise. A computation that raises keeps the changes made before the exception, as the
  Python does.
\<close>

section \<open>Exceptions\<close>

text \<open>
  One constructor per exception class the modelled code raises or distinguishes;
  \<open>MediumFailure\<close> stands for any other exception a medium raises. Messages are not
  modelled. \<open>RecordWriteError\<close>s carry their \<open>failures\<close>, in insertion order.
  \<open>KvStoreConflict\<close> carries keys and values and is the \<open>Conflicted\<close> outcome of
  \<open>batch_update\<close> (theory \<open>Keymap\<close>).
\<close>

datatype exn =
    KvStoreError
  | SerDeError
  | ReadOnlyError
  | KvStoreUnsupported
  | ScanUnsupported
  | TtlUnsupported
  | IndexUnsupported
  | ScopeError
  | ComposeError
  | IndexError
  | UncommittedWriteError "(string \<times> exn) list"
  | PartialSyncError "(string \<times> exn) list"
  | ValueError
  | PyTypeError
  | KeyError
  | NotImplementedError
  | AssertionError
  | MediumFailure nat

text \<open>\<open>isinstance(exc, KvStoreUnsupported)\<close>.\<close>

fun is_unsupported :: "exn \<Rightarrow> bool" where
  "is_unsupported KvStoreUnsupported = True"
| "is_unsupported ScanUnsupported = True"
| "is_unsupported TtlUnsupported = True"
| "is_unsupported IndexUnsupported = True"
| "is_unsupported _ = False"

text \<open>\<open>isinstance(exc, RecordWriteError)\<close> and its \<open>committed\<close> flag.\<close>

fun is_record_write :: "exn \<Rightarrow> bool" where
  "is_record_write (UncommittedWriteError _) = True"
| "is_record_write (PartialSyncError _) = True"
| "is_record_write _ = False"

fun is_uncommitted :: "exn \<Rightarrow> bool" where
  "is_uncommitted (UncommittedWriteError _) = True"
| "is_uncommitted _ = False"

fun is_partial_sync :: "exn \<Rightarrow> bool" where
  "is_partial_sync (PartialSyncError _) = True"
| "is_partial_sync _ = False"

fun committed_flag :: "exn \<Rightarrow> bool option" where
  "committed_flag (UncommittedWriteError _) = Some False"
| "committed_flag (PartialSyncError _) = Some True"
| "committed_flag _ = None"

fun failures_of :: "exn \<Rightarrow> (string \<times> exn) list" where
  "failures_of (UncommittedWriteError fs) = fs"
| "failures_of (PartialSyncError fs) = fs"
| "failures_of _ = []"

lemma is_record_write_iff: "is_record_write e \<longleftrightarrow> is_uncommitted e \<or> is_partial_sync e"
  by (cases e) auto

lemma committed_flag_iff:
  "committed_flag e = Some False \<longleftrightarrow> is_uncommitted e"
  "committed_flag e = Some True \<longleftrightarrow> is_partial_sync e"
  by (cases e; simp)+

lemma not_uncommitted_partial [simp]: "is_uncommitted e \<Longrightarrow> \<not> is_partial_sync e"
  by (cases e) auto

section \<open>Computations over the media\<close>

type_synonym ('w, 'a) prog = "'w \<Rightarrow> (exn + 'a) \<times> 'w"

named_theorems prog_simps \<open>running a computation\<close>

definition returnP :: "'a \<Rightarrow> ('w, 'a) prog" where
  "returnP a = (\<lambda>w. (Inr a, w))"

definition raiseP :: "exn \<Rightarrow> ('w, 'a) prog" where
  "raiseP e = (\<lambda>w. (Inl e, w))"

definition bindP :: "('w, 'a) prog \<Rightarrow> ('a \<Rightarrow> ('w, 'b) prog) \<Rightarrow> ('w, 'b) prog" where
  "bindP m f = (\<lambda>w. case m w of (r, w') \<Rightarrow>
     (case r of Inl e \<Rightarrow> (Inl e, w') | Inr a \<Rightarrow> f a w'))"

text \<open>\<open>try: m except Exception as exc: h exc\<close>.\<close>

definition catchP :: "('w, 'a) prog \<Rightarrow> (exn \<Rightarrow> ('w, 'a) prog) \<Rightarrow> ('w, 'a) prog" where
  "catchP m h = (\<lambda>w. case m w of (r, w') \<Rightarrow>
     (case r of Inl e \<Rightarrow> h e w' | Inr a \<Rightarrow> (Inr a, w')))"

definition thenP :: "('w, 'a) prog \<Rightarrow> ('w, 'b) prog \<Rightarrow> ('w, 'b) prog" where
  "thenP m m' = bindP m (\<lambda>_. m')"

definition mapP :: "('a \<Rightarrow> 'b) \<Rightarrow> ('w, 'a) prog \<Rightarrow> ('w, 'b) prog" where
  "mapP f m = bindP m (\<lambda>a. returnP (f a))"

text \<open>\<open>for x in xs: f x\<close>, collecting nothing; \<open>[f x for x in xs]\<close>; a loop with an accumulator.\<close>

fun iterP :: "('a \<Rightarrow> ('w, 'b) prog) \<Rightarrow> 'a list \<Rightarrow> ('w, unit) prog" where
  "iterP f [] = returnP ()"
| "iterP f (x # xs) = thenP (f x) (iterP f xs)"

fun foldP :: "('a \<Rightarrow> 's \<Rightarrow> ('w, 's) prog) \<Rightarrow> 'a list \<Rightarrow> 's \<Rightarrow> ('w, 's) prog" where
  "foldP f [] s = returnP s"
| "foldP f (x # xs) s = bindP (f x s) (\<lambda>s'. foldP f xs s')"

fun collectP :: "('a \<Rightarrow> ('w, 'b) prog) \<Rightarrow> 'a list \<Rightarrow> ('w, 'b list) prog" where
  "collectP f [] = returnP []"
| "collectP f (x # xs) = bindP (f x) (\<lambda>y. mapP (\<lambda>ys. y # ys) (collectP f xs))"

lemma returnP_run [simp, prog_simps]: "returnP a w = (Inr a, w)"
  by (simp add: returnP_def)

lemma raiseP_run [simp, prog_simps]: "raiseP e w = (Inl e, w)"
  by (simp add: raiseP_def)

lemma bindP_run [prog_simps]:
  "bindP m f w = (case m w of (r, w') \<Rightarrow> (case r of Inl e \<Rightarrow> (Inl e, w') | Inr a \<Rightarrow> f a w'))"
  by (simp add: bindP_def)

lemma catchP_run [prog_simps]:
  "catchP m h w = (case m w of (r, w') \<Rightarrow> (case r of Inl e \<Rightarrow> h e w' | Inr a \<Rightarrow> (Inr a, w')))"
  by (simp add: catchP_def)

lemma thenP_run [prog_simps]:
  "thenP m m' w = (case m w of (r, w') \<Rightarrow> (case r of Inl e \<Rightarrow> (Inl e, w') | Inr a \<Rightarrow> m' w'))"
  by (simp add: thenP_def bindP_def)

lemma mapP_run [prog_simps]:
  "mapP f m w = (case m w of (r, w') \<Rightarrow> (case r of Inl e \<Rightarrow> (Inl e, w') | Inr a \<Rightarrow> (Inr (f a), w')))"
  by (simp add: mapP_def bindP_def split: prod.splits sum.splits)

text \<open>The forms used when the first step's outcome is known.\<close>

lemma bindP_Inr [simp]: "m w = (Inr a, w') \<Longrightarrow> bindP m f w = f a w'"
  and bindP_Inl [simp]: "m w = (Inl e, w') \<Longrightarrow> bindP m f w = (Inl e, w')"
  and thenP_Inr [simp]: "m w = (Inr a, w') \<Longrightarrow> thenP m m' w = m' w'"
  and thenP_Inl [simp]: "m w = (Inl e, w') \<Longrightarrow> thenP m m' w = (Inl e, w')"
  and mapP_Inr [simp]: "m w = (Inr a, w') \<Longrightarrow> mapP g m w = (Inr (g a), w')"
  and mapP_Inl [simp]: "m w = (Inl e, w') \<Longrightarrow> mapP g m w = (Inl e, w')"
  by (simp_all add: prog_simps)

lemma bindP_assoc: "bindP (bindP m f) g = bindP m (\<lambda>x. bindP (f x) g)"
  by (auto simp: bindP_def fun_eq_iff split: prod.splits sum.splits)

lemma iterP_append: "iterP f (xs @ ys) = thenP (iterP f xs) (iterP f ys)"
  by (induction xs) (auto simp: fun_eq_iff prog_simps split: prod.splits sum.splits)

text \<open>
  A computation on one medium as a computation on a pair of media; it neither sees nor
  changes the other.
\<close>

definition on_fst :: "('w, 'a) prog \<Rightarrow> ('w \<times> 'u, 'a) prog" where
  "on_fst m = (\<lambda>(w, u). case m w of (r, w') \<Rightarrow> (r, (w', u)))"

definition on_snd :: "('u, 'a) prog \<Rightarrow> ('w \<times> 'u, 'a) prog" where
  "on_snd m = (\<lambda>(w, u). case m u of (r, u') \<Rightarrow> (r, (w, u')))"

lemma on_fst_run [simp, prog_simps]: "on_fst m (w, u) = (case m w of (r, w') \<Rightarrow> (r, (w', u)))"
  by (simp add: on_fst_def)

lemma on_snd_run [simp, prog_simps]: "on_snd m (w, u) = (case m u of (r, u') \<Rightarrow> (r, (w, u')))"
  by (simp add: on_snd_def)

end
