(* ===== verification/Store_Schema.thy ===== *)
theory Store_Schema
  imports Effects
begin

text \<open>
  The small value types of \<open>src/kvtsjl/store/schema/\<close>: TTL policies (\<open>ttl.py\<close>),
  record statistics (\<open>stat.py\<close>) and the fan-out policy (\<open>policy.py\<close>).

  A \<open>datetime\<close> is an integer number of microseconds since the epoch and a
  \<open>timedelta\<close> an integer number of microseconds, their resolution in Python; the float
  seconds some media keep are the same integers, so rounding of floats is not modelled.
\<close>

type_synonym time = int

abbreviation (input) microseconds :: int where
  "microseconds \<equiv> 1000000"

section \<open>TTL policies (\<open>ttl.py\<close>)\<close>

datatype expiry_gc = LazyDelete | Hide

datatype ttl_policy = TtlPolicy (ttl_duration: "int option")

definition ttl_none :: ttl_policy where
  "ttl_none = TtlPolicy None"

definition ttl_hourly :: ttl_policy where
  "ttl_hourly = TtlPolicy (Some (3600 * microseconds))"

definition ttl_daily :: ttl_policy where
  "ttl_daily = TtlPolicy (Some (86400 * microseconds))"

definition ttl_weekly :: ttl_policy where
  "ttl_weekly = TtlPolicy (Some (7 * 86400 * microseconds))"

definition ttl_monthly :: ttl_policy where
  "ttl_monthly = TtlPolicy (Some (30 * 86400 * microseconds))"

text \<open>\<open>int(x)\<close> of the quotient truncates toward zero, unlike \<open>div\<close>.\<close>

definition int_trunc :: "int \<Rightarrow> int \<Rightarrow> int" where
  "int_trunc a b = sgn a * (\<bar>a\<bar> div b)"

definition ttl_seconds :: "ttl_policy \<Rightarrow> int option" where
  "ttl_seconds p = (case ttl_duration p of
     None \<Rightarrow> None
   | Some d \<Rightarrow> Some (max 1 (int_trunc d microseconds)))"

text \<open>\<open>require_explicit_ttl_supported\<close> and \<open>require_write_clock_supported\<close>: the error raised, if any.\<close>

definition require_explicit_ttl_supported :: "ttl_policy option \<Rightarrow> bool \<Rightarrow> exn option" where
  "require_explicit_ttl_supported ttl allowed =
     (if ttl \<noteq> None \<and> \<not> allowed then Some TtlUnsupported else None)"

definition require_write_clock_supported :: "time option \<Rightarrow> bool \<Rightarrow> exn option" where
  "require_write_clock_supported created_at allowed =
     (if created_at \<noteq> None \<and> \<not> allowed then Some TtlUnsupported else None)"

lemma ttl_seconds_pos: "ttl_seconds p = Some s \<Longrightarrow> 1 \<le> s"
  by (auto simp: ttl_seconds_def split: option.splits)

section \<open>Record statistics (\<open>stat.py\<close>)\<close>

record record_stat =
  rs_created_at :: "time option"
  rs_modified_at :: "time option"
  rs_expires_at :: "time option"
  rs_size :: "int option"
  rs_etag :: "string option"
  rs_persistent :: bool

definition empty_stat :: record_stat where
  "empty_stat = \<lparr>rs_created_at = None, rs_modified_at = None, rs_expires_at = None,
                rs_size = None, rs_etag = None, rs_persistent = False\<rparr>"

text \<open>\<open>self.created_at or self.modified_at\<close> (a \<open>datetime\<close> is always true).\<close>

definition write_clock :: "record_stat \<Rightarrow> time option" where
  "write_clock s = (case rs_created_at s of None \<Rightarrow> rs_modified_at s | Some t \<Rightarrow> Some t)"

section \<open>Fan-out policy (\<open>policy.py\<close>)\<close>

datatype sync_policy = Required | BestEffort

end
