(* ===== verification/Keymap.thy ===== *)
theory Keymap
  imports Store_Schema
begin

text \<open>
  \<open>src/kvtsjl/keymap.py\<close>: versioned reads, conditional writes, the \<open>KeyMap\<close> interface as
  a record of operations with the defaults of the abstract classes, and the compare and
  write loop of \<open>batch_update\<close> / \<open>update\<close>.

  Versions are opaque to every caller and compared for identity only, so a token is a
  natural number; a set of keys is a HOL set, a dictionary an association list.
\<close>

section \<open>Versions, changes, conditional writes\<close>

type_synonym token = nat

datatype 'v versioned = Versioned (seen_value: "'v option") (seen_version: "token option")

definition absent :: "'v versioned" where
  "absent = Versioned None None"

datatype 'v change = Put 'v | Remove

datatype 'v decision = Keep | Change "'v change"

datatype 'v cond_write =
  ConditionalWrite (cw_seen: "'v versioned") (cw_change: "'v change") (cw_created_at: "time option")

record write_options =
  wo_ttl :: "ttl_policy option"
  wo_created_at :: "time option"

definition no_options :: write_options where
  "no_options = \<lparr>wo_ttl = None, wo_created_at = None\<rparr>"

section \<open>The interface\<close>

text \<open>
  What a composition calls on a keymap. The fields are the methods of \<open>KeyMap\<close>; each is
  a computation on the media.
\<close>

record ('w, 'k, 'v) keymap =
  km_get :: "'k \<Rightarrow> ('w, 'v option) prog"
  km_batch_get :: "'k list \<Rightarrow> ('w, ('k, 'v) dict) prog"
  km_exists :: "'k \<Rightarrow> ('w, bool) prog"
  km_batch_exists :: "'k list \<Rightarrow> ('w, 'k set) prog"
  km_stat :: "'k \<Rightarrow> ('w, record_stat option) prog"
  km_batch_stat :: "'k list \<Rightarrow> ('w, ('k, record_stat) dict) prog"
  km_batch_read_versioned :: "'k list \<Rightarrow> ('w, ('k, 'v versioned) dict) prog"
  km_batch_write_if_unchanged ::
    "('k, 'v cond_write) dict \<Rightarrow> ttl_policy option \<Rightarrow> ('w, 'k set) prog"
  km_set :: "'k \<Rightarrow> 'v \<Rightarrow> write_options \<Rightarrow> ('w, unit) prog"
  km_batch_set :: "('k, 'v) dict \<Rightarrow> write_options \<Rightarrow> ('w, unit) prog"
  km_delete :: "'k \<Rightarrow> ('w, bool) prog"
  km_batch_delete :: "'k list \<Rightarrow> ('w, int) prog"
  km_unset :: "'k \<Rightarrow> ('w, bool) prog"
  km_batch_unset :: "'k list \<Rightarrow> ('w, int) prog"
  km_creates_entries :: bool

section \<open>Defaults of \<open>ReadableKeyMap\<close> and \<open>KeyMap\<close>\<close>

definition default_batch_get ::
  "('k \<Rightarrow> ('w, 'v option) prog) \<Rightarrow> 'k list \<Rightarrow> ('w, ('k, 'v) dict) prog" where
  "default_batch_get get keys = foldP (\<lambda>key out. bindP (get key) (\<lambda>value.
     returnP (case value of None \<Rightarrow> out | Some v \<Rightarrow> dput key v out))) keys []"

definition default_exists :: "('k \<Rightarrow> ('w, 'v option) prog) \<Rightarrow> 'k \<Rightarrow> ('w, bool) prog" where
  "default_exists get key = mapP (\<lambda>value. value \<noteq> None) (get key)"

definition default_batch_exists ::
  "('k list \<Rightarrow> ('w, ('k, 'v) dict) prog) \<Rightarrow> 'k list \<Rightarrow> ('w, 'k set) prog" where
  "default_batch_exists batch_get keys = mapP (\<lambda>d. set (dkeys d)) (batch_get keys)"

definition default_stat :: "('k \<Rightarrow> ('w, bool) prog) \<Rightarrow> 'k \<Rightarrow> ('w, record_stat option) prog" where
  "default_stat exists' key = mapP (\<lambda>b. if \<not> b then None else Some empty_stat) (exists' key)"

text \<open>
  \<open>{key: RecordStat() for key in self.batch_exists(keys)}\<close> iterates over a set, whose
  order Python does not define; the model lists it in the order of \<open>keys\<close>.
\<close>

definition default_batch_stat ::
  "('k list \<Rightarrow> ('w, 'k set) prog) \<Rightarrow> 'k list \<Rightarrow> ('w, ('k, record_stat) dict) prog" where
  "default_batch_stat batch_exists keys =
     mapP (\<lambda>s. dict_of (\<lambda>_. empty_stat) (filter (\<lambda>k. k \<in> s) keys)) (batch_exists keys)"

definition default_batch_set ::
  "('k \<Rightarrow> 'v \<Rightarrow> write_options \<Rightarrow> ('w, unit) prog) \<Rightarrow> ('k, 'v) dict \<Rightarrow> write_options \<Rightarrow> ('w, unit) prog"
where
  "default_batch_set set' items o' = iterP (\<lambda>(k, v). set' k v o') items"

text \<open>\<open>batch_delete\<close> and \<open>batch_unset\<close>: how many of the point operations answered \<open>True\<close>.\<close>

definition count_true :: "('k \<Rightarrow> ('w, bool) prog) \<Rightarrow> 'k list \<Rightarrow> ('w, int) prog" where
  "count_true op' keys = foldP (\<lambda>key n. mapP (\<lambda>b. if b then n + 1 else n) (op' key)) keys 0"

definition get_with_stat ::
  "('w, 'k, 'v) keymap \<Rightarrow> 'k \<Rightarrow> ('w, ('v \<times> record_stat) option) prog" where
  "get_with_stat km key = bindP (km_get km key) (\<lambda>value. case value of
      None \<Rightarrow> returnP None
    | Some v \<Rightarrow> mapP (\<lambda>meta. Some (v, case meta of None \<Rightarrow> empty_stat | Some m \<Rightarrow> m)) (km_stat km key))"

definition batch_get_with_stat ::
  "('w, 'k, 'v) keymap \<Rightarrow> 'k list \<Rightarrow> ('w, ('k, 'v \<times> record_stat) dict) prog" where
  "batch_get_with_stat km keys = bindP (km_batch_get km keys) (\<lambda>values.
     mapP (\<lambda>stats. dmap (\<lambda>k v. (v, case dget stats k of None \<Rightarrow> empty_stat | Some m \<Rightarrow> m)) values)
       (km_batch_stat km (dkeys values)))"

section \<open>Point forms of the conditional primitives\<close>

definition read_versioned :: "('w, 'k, 'v) keymap \<Rightarrow> 'k \<Rightarrow> ('w, 'v versioned) prog" where
  "read_versioned km key = bindP (km_batch_read_versioned km [key]) (\<lambda>d.
     case dget d key of None \<Rightarrow> raiseP KeyError | Some s \<Rightarrow> returnP s)"

definition write_if_unchanged ::
  "('w, 'k, 'v) keymap \<Rightarrow> 'k \<Rightarrow> 'v versioned \<Rightarrow> 'v change \<Rightarrow> write_options \<Rightarrow> ('w, bool) prog" where
  "write_if_unchanged km key seen change o' =
     mapP (\<lambda>written. key \<in> written)
       (km_batch_write_if_unchanged km [(key, ConditionalWrite seen change (wo_created_at o'))] (wo_ttl o'))"

definition set_if_absent :: "('w, 'k, 'v) keymap \<Rightarrow> 'k \<Rightarrow> 'v \<Rightarrow> write_options \<Rightarrow> ('w, bool) prog" where
  "set_if_absent km key value o' = write_if_unchanged km key absent (Put value) o'"

section \<open>\<open>batch_update\<close>\<close>

text \<open>
  What \<open>batch_update\<close> comes to: the mapping it returns, or \<open>KvStoreConflict\<close> with its
  \<open>lost\<close> keys and what the others hold. Every other exception is raised.
\<close>

datatype ('k, 'v) update_outcome =
    Held "('k, 'v) dict"
  | Conflicted "'k list" "('k, 'v) dict"

text \<open>
  The loop over \<open>pending\<close> of one round: a \<open>Keep\<close> (or a key \<open>decide\<close> leaves out) records
  what is held, a \<open>Remove\<close> of what is not stored does nothing, any other decision is a
  conditional write against what was read.
\<close>

fun sort_decisions ::
  "('k, 'v versioned) dict \<Rightarrow> ('k, 'v decision) dict \<Rightarrow> time option \<Rightarrow> 'k list
   \<Rightarrow> ('k, 'v) dict \<Rightarrow> ('k, 'v cond_write) dict \<Rightarrow> ('k, 'v) dict \<times> ('k, 'v cond_write) dict" where
  "sort_decisions seen decisions clock [] held writes = (held, writes)"
| "sort_decisions seen decisions clock (k # ks) held writes =
     (let current = the (dget seen k) in
      case (case dget decisions k of None \<Rightarrow> Keep | Some d \<Rightarrow> d) of
        Keep \<Rightarrow> sort_decisions seen decisions clock ks
          (case seen_value current of None \<Rightarrow> held | Some v \<Rightarrow> dput k v held) writes
      | Change change \<Rightarrow>
          (if change = Remove \<and> seen_version current = None
           then sort_decisions seen decisions clock ks held writes
           else sort_decisions seen decisions clock ks held
             (dput k (ConditionalWrite current change clock) writes)))"

text \<open>\<open>for k in written\<close>: the values put become what the entries hold.\<close>

fun record_written :: "'k set \<Rightarrow> ('k, 'v cond_write) dict \<Rightarrow> ('k, 'v) dict \<Rightarrow> ('k, 'v) dict" where
  "record_written written [] held = held"
| "record_written written ((k, w) # ws) held =
     record_written written ws
       (if k \<in> written then (case cw_change w of Put v \<Rightarrow> dput k v held | Remove \<Rightarrow> held) else held)"

text \<open>
  The rounds. A key \<open>decide\<close> is to be shown but the read did not answer is a \<open>KeyError\<close>,
  as is a key reported written that was not asked for.
\<close>

fun update_rounds ::
  "('w, 'k, 'v) keymap \<Rightarrow> (('k, 'v option) dict \<Rightarrow> ('k, 'v decision) dict) \<Rightarrow> write_options
   \<Rightarrow> nat \<Rightarrow> 'k list \<Rightarrow> ('k, 'v) dict \<Rightarrow> ('w, ('k, 'v) update_outcome) prog" where
  "update_rounds km decide o' 0 pending held = returnP (Conflicted pending held)"
| "update_rounds km decide o' (Suc n) pending held =
     bindP (km_batch_read_versioned km pending) (\<lambda>seen.
       if \<exists>k \<in> set pending. dget seen k = None then raiseP KeyError else
       let decisions = decide (dict_of (\<lambda>k. seen_value (the (dget seen k))) pending);
           (held, writes) = sort_decisions seen decisions (wo_created_at o') pending held []
       in bindP (if writes = [] then returnP {}
                 else km_batch_write_if_unchanged km writes (wo_ttl o')) (\<lambda>written.
            if \<not> written \<subseteq> set (dkeys writes) then raiseP KeyError else
            let held = record_written written writes held;
                pending = filter (\<lambda>k. k \<notin> written) (dkeys writes)
            in if pending = [] then returnP (Held held)
               else update_rounds km decide o' n pending held))"

definition batch_update ::
  "('w, 'k, 'v) keymap \<Rightarrow> 'k list \<Rightarrow> (('k, 'v option) dict \<Rightarrow> ('k, 'v decision) dict)
   \<Rightarrow> write_options \<Rightarrow> int \<Rightarrow> ('w, ('k, 'v) update_outcome) prog" where
  "batch_update km keys decide o' attempts =
     (if attempts < 1 then raiseP ValueError
      else update_rounds km decide o' (nat attempts) (fromkeys keys) [])"

text \<open>\<open>update\<close>: what the entry holds afterwards, or the conflict.\<close>

datatype 'v update_result = Holds "'v option" | Conflict

text \<open>The function \<open>update\<close> passes to \<open>batch_update\<close>: \<open>lambda seen: {key: decide(seen[key])}\<close>.\<close>

definition decide_one ::
  "'k \<Rightarrow> ('v option \<Rightarrow> 'v decision) \<Rightarrow> ('k, 'v option) dict \<Rightarrow> ('k, 'v decision) dict" where
  "decide_one key decide seen = [(key, decide (the (dget seen key)))]"

definition update ::
  "('w, 'k, 'v) keymap \<Rightarrow> 'k \<Rightarrow> ('v option \<Rightarrow> 'v decision) \<Rightarrow> write_options \<Rightarrow> int
   \<Rightarrow> ('w, 'v update_result) prog" where
  "update km key decide o' attempts =
     mapP (\<lambda>r. case r of Held held \<Rightarrow> Holds (dget held key) | Conflicted _ _ \<Rightarrow> Conflict)
       (batch_update km [key] (decide_one key decide) o' attempts)"

end
