(* ===== verification/Keymap_Spec.thy ===== *)
theory Keymap_Spec
  imports Keymap
begin

text \<open>
  What a keymap promises its clients, as locales, and what follows for every client:
  the abstract classes' defaults meet the batch contracts, and \<open>batch_update\<close> /
  \<open>update\<close> apply a decision exactly once, to the value they were decided from, whoever
  else writes in between. The providers (\<open>Dict_Map\<close>, \<open>Memory_Backend\<close>, the views and
  the compositions) interpret the locales on their own definitions.

  \<open>holds w k\<close> is what a read of \<open>k\<close> answers in the world \<open>w\<close>, \<open>inv\<close> the provider's
  invariant.
\<close>

section \<open>Reading\<close>

text \<open>The inherited \<open>batch_exists\<close> answers what the \<open>batch_get\<close> it calls does.\<close>

lemma default_batch_exists_of:
  assumes "\<exists>d w'. batch_get ks w = (Inr d, w') \<and> P w' \<and> (\<forall>k. dget d k = (if k \<in> set ks then h k else None))"
  shows "\<exists>w'. default_batch_exists batch_get ks w = (Inr {k \<in> set ks. h k \<noteq> None}, w') \<and> P w'"
proof -
  from assms obtain d w' where d: "batch_get ks w = (Inr d, w')" "P w'"
    "\<And>k. dget d k = (if k \<in> set ks then h k else None)" by blast
  have "set (dkeys d) = {k \<in> set ks. h k \<noteq> None}"
    unfolding dkeys_dom using d(3) by (auto split: if_splits)
  with d show ?thesis by (simp add: default_batch_exists_def prog_simps)
qed

locale point_reads =
  fixes get :: "'k \<Rightarrow> ('w, 'v option) prog"
    and holds :: "'w \<Rightarrow> 'k \<Rightarrow> 'v option"
    and inv :: "'w \<Rightarrow> bool"
  assumes get_law: "inv w \<Longrightarrow> \<exists>w'. get k w = (Inr (holds w k), w') \<and> inv w' \<and> holds w' = holds w"
begin

lemma batch_get_acc:
  assumes "inv w"
  shows "\<exists>d w'. foldP (\<lambda>key out. bindP (get key) (\<lambda>value.
      returnP (case value of None \<Rightarrow> out | Some v \<Rightarrow> dput key v out))) ks out w = (Inr d, w')
    \<and> inv w' \<and> holds w' = holds w \<and> (dict_ok out \<longrightarrow> dict_ok d)
    \<and> (\<forall>k. dget d k = (if k \<in> set ks \<and> holds w k \<noteq> None then holds w k else dget out k))"
  using assms
proof (induction ks arbitrary: w out)
  case Nil
  then show ?case by simp
next
  case (Cons k ks)
  from get_law [OF Cons.prems, of k] obtain w1 where
    w1: "get k w = (Inr (holds w k), w1)" "inv w1" "holds w1 = holds w" by blast
  let ?out = "case holds w k of None \<Rightarrow> out | Some v \<Rightarrow> dput k v out"
  from Cons.IH [OF w1(2), of ?out] w1 show ?case
    by (cases "holds w k") (fastforce simp: bindP_def split: if_splits)+
qed

lemma default_batch_get_law:
  assumes "inv w"
  shows "\<exists>d w'. default_batch_get get ks w = (Inr d, w') \<and> inv w' \<and> holds w' = holds w
    \<and> dict_ok d \<and> (\<forall>k. dget d k = (if k \<in> set ks then holds w k else None))"
  using batch_get_acc [OF assms, of ks "[]"] unfolding default_batch_get_def by fastforce

lemma default_exists_law:
  "inv w \<Longrightarrow> \<exists>w'. default_exists get k w = (Inr (holds w k \<noteq> None), w') \<and> inv w' \<and> holds w' = holds w"
  using get_law [of w k] by (auto simp: default_exists_def prog_simps)

end

locale readable_keymap = point_reads "km_get km" holds inv
  for km :: "('w, 'k, 'v) keymap"
    and holds :: "'w \<Rightarrow> 'k \<Rightarrow> 'v option"
    and inv :: "'w \<Rightarrow> bool" +
  assumes batch_get_law: "inv w \<Longrightarrow> \<exists>d w'. km_batch_get km ks w = (Inr d, w') \<and> inv w' \<and> holds w' = holds w
      \<and> dict_ok d \<and> (\<forall>k. dget d k = (if k \<in> set ks then holds w k else None))"
    and exists_law: "inv w \<Longrightarrow> \<exists>w'. km_exists km k w = (Inr (holds w k \<noteq> None), w') \<and> inv w' \<and> holds w' = holds w"
    and batch_exists_law: "inv w \<Longrightarrow>
      \<exists>w'. km_batch_exists km ks w = (Inr {k \<in> set ks. holds w k \<noteq> None}, w') \<and> inv w' \<and> holds w' = holds w"

context readable_keymap
begin

lemma default_batch_stat_law:
  assumes "inv w"
  shows "\<exists>d w'. default_batch_stat (km_batch_exists km) ks w = (Inr d, w') \<and> inv w' \<and> holds w' = holds w"
  using batch_exists_law [OF assms, of ks] by (auto simp: default_batch_stat_def mapP_run)

end

text \<open>A keymap that answers \<open>batch_stat\<close>.\<close>

locale stat_keymap = readable_keymap km holds inv
  for km :: "('w, 'k, 'v) keymap" and holds and inv +
  assumes batch_stat_law: "inv w \<Longrightarrow> \<exists>d w'. km_batch_stat km ks w = (Inr d, w') \<and> inv w' \<and> holds w' = holds w"

section \<open>Writing and removing\<close>

text \<open>
  \<open>live w o\<close>: an entry written in \<open>w\<close> with the options \<open>o\<close> has not expired already.
\<close>

locale writable_keymap = readable_keymap km holds inv
  for km :: "('w, 'k, 'v) keymap" and holds and inv +
  fixes live :: "'w \<Rightarrow> ttl_policy option \<Rightarrow> time option \<Rightarrow> bool"
  assumes set_law: "\<lbrakk>inv w; live w (wo_ttl opts) (wo_created_at opts)\<rbrakk> \<Longrightarrow>
      \<exists>w'. km_set km k v opts w = (Inr (), w') \<and> inv w' \<and> holds w' = (holds w)(k \<mapsto> v)"
    and delete_law: "inv w \<Longrightarrow> \<exists>b w'. km_delete km k w = (Inr b, w') \<and> inv w'
      \<and> holds w' = (holds w)(k := None) \<and> (holds w k \<noteq> None \<longrightarrow> b)"

section \<open>Conditional writes\<close>

text \<open>
  \<open>ver w k\<close> is the token of what is stored under \<open>k\<close>. \<open>evolves w w'\<close> says that \<open>w'\<close> can
  be reached from \<open>w\<close> by writes, of anyone: a token then names one entry for good
  (\<open>token_names_entry\<close>). The conditional batch writes exactly the keys whose token is
  the one seen.
\<close>

definition cas_wins :: "('k \<Rightarrow> token option) \<Rightarrow> ('k, 'v cond_write) dict \<Rightarrow> 'k set" where
  "cas_wins ver writes = {k. \<exists>cw. dget writes k = Some cw \<and> seen_version (cw_seen cw) = ver k
      \<and> (cw_change cw = Remove \<longrightarrow> ver k \<noteq> None)}"

locale conditional_keymap = readable_keymap km holds inv
  for km :: "('w, 'k, 'v) keymap" and holds and inv +
  fixes live :: "'w \<Rightarrow> ttl_policy option \<Rightarrow> time option \<Rightarrow> bool"
    and ver :: "'w \<Rightarrow> 'k \<Rightarrow> token option"
    and evolves :: "'w \<Rightarrow> 'w \<Rightarrow> bool"
  assumes evolves_refl: "evolves w w"
    and evolves_trans: "evolves w1 w2 \<Longrightarrow> evolves w2 w3 \<Longrightarrow> evolves w1 w3"
    and live_evolves: "evolves w w' \<Longrightarrow> live w ttl clock \<Longrightarrow> live w' ttl clock"
    and token_names_entry: "\<lbrakk>inv w; inv w'; evolves w w'; ver w' k = ver w k\<rbrakk> \<Longrightarrow> holds w' k = holds w k"
    and nothing_stored: "inv w \<Longrightarrow> ver w k = None \<Longrightarrow> holds w k = None"
    and read_versioned_law: "inv w \<Longrightarrow> \<exists>d w'. km_batch_read_versioned km ks w = (Inr d, w') \<and> inv w'
      \<and> evolves w w' \<and> holds w' = holds w \<and> ver w' = ver w
      \<and> (\<forall>k \<in> set ks. dget d k = Some (Versioned (holds w k) (ver w k)))"
    and cas_law: "\<lbrakk>inv w; dict_ok writes\<rbrakk> \<Longrightarrow>
      \<exists>w'. km_batch_write_if_unchanged km writes ttl w = (Inr (cas_wins (ver w) writes), w') \<and> inv w'
      \<and> evolves w w'
      \<and> (\<forall>k. k \<notin> cas_wins (ver w) writes \<longrightarrow> holds w' k = holds w k \<and> ver w' k = ver w k)
      \<and> (\<forall>k cw v. k \<in> cas_wins (ver w) writes \<longrightarrow> dget writes k = Some cw \<longrightarrow> cw_change cw = Put v
           \<longrightarrow> live w ttl (cw_created_at cw) \<longrightarrow> holds w' k = Some v)
      \<and> (\<forall>k cw. k \<in> cas_wins (ver w) writes \<longrightarrow> dget writes k = Some cw \<longrightarrow> cw_change cw = Remove
           \<longrightarrow> holds w' k = None)
      \<and> (\<forall>k cw v. k \<in> cas_wins (ver w) writes \<longrightarrow> dget writes k = Some cw \<longrightarrow> cw_change cw = Put v
           \<longrightarrow> holds w' k = None \<or> holds w' k = Some v)"

section \<open>Other writers\<close>

text \<open>
  Interference made explicit: the world carries a schedule of what other writers do
  just before each conditional write, and a ghost log of what each conditional write
  replaced. \<open>contended\<close> runs a keymap in that world.
\<close>

type_synonym ('w, 'k, 'v) contention = "'w \<times> ('w \<Rightarrow> 'w) list \<times> ('k \<times> 'v option \<times> 'v change) list"

definition replaced_by ::
  "('k \<Rightarrow> 'v option) \<Rightarrow> ('k, 'v cond_write) dict \<Rightarrow> 'k set \<Rightarrow> ('k \<times> 'v option \<times> 'v change) list" where
  "replaced_by before writes written =
     map (\<lambda>(k, w). (k, before k, cw_change w)) (filter (\<lambda>(k, w). k \<in> written) writes)"

definition contended ::
  "('w \<Rightarrow> 'k \<Rightarrow> 'v option) \<Rightarrow> ('w, 'k, 'v) keymap \<Rightarrow> (('w, 'k, 'v) contention, 'k, 'v) keymap" where
  "contended holds km = \<lparr>
     km_get = \<lambda>k. on_fst (km_get km k),
     km_batch_get = \<lambda>ks. on_fst (km_batch_get km ks),
     km_exists = \<lambda>k. on_fst (km_exists km k),
     km_batch_exists = \<lambda>ks. on_fst (km_batch_exists km ks),
     km_stat = \<lambda>k. on_fst (km_stat km k),
     km_batch_stat = \<lambda>ks. on_fst (km_batch_stat km ks),
     km_batch_read_versioned = \<lambda>ks. on_fst (km_batch_read_versioned km ks),
     km_batch_write_if_unchanged = (\<lambda>writes ttl (w, sched, log).
       let w1 = (case sched of [] \<Rightarrow> w | e # _ \<Rightarrow> e w) in
       case km_batch_write_if_unchanged km writes ttl w1 of
         (r, w2) \<Rightarrow> (r, w2, tl sched,
           log @ (case r of Inl _ \<Rightarrow> [] | Inr written \<Rightarrow> replaced_by (holds w1) writes written))),
     km_set = \<lambda>k v o'. on_fst (km_set km k v o'),
     km_batch_set = \<lambda>items o'. on_fst (km_batch_set km items o'),
     km_delete = \<lambda>k. on_fst (km_delete km k),
     km_batch_delete = \<lambda>ks. on_fst (km_batch_delete km ks),
     km_unset = \<lambda>k. on_fst (km_unset km k),
     km_batch_unset = \<lambda>ks. on_fst (km_batch_unset km ks),
     km_creates_entries = km_creates_entries km\<rparr>"

section \<open>Two media side by side\<close>

text \<open>A keymap on one of two media, neither seeing nor changing the other.\<close>

definition left_keymap :: "('w, 'k, 'v) keymap \<Rightarrow> ('w \<times> 'u, 'k, 'v) keymap" where
  "left_keymap km = \<lparr>
     km_get = \<lambda>k. on_fst (km_get km k), km_batch_get = \<lambda>ks. on_fst (km_batch_get km ks),
     km_exists = \<lambda>k. on_fst (km_exists km k), km_batch_exists = \<lambda>ks. on_fst (km_batch_exists km ks),
     km_stat = \<lambda>k. on_fst (km_stat km k), km_batch_stat = \<lambda>ks. on_fst (km_batch_stat km ks),
     km_batch_read_versioned = \<lambda>ks. on_fst (km_batch_read_versioned km ks),
     km_batch_write_if_unchanged = \<lambda>ws ttl. on_fst (km_batch_write_if_unchanged km ws ttl),
     km_set = \<lambda>k v o'. on_fst (km_set km k v o'), km_batch_set = \<lambda>items o'. on_fst (km_batch_set km items o'),
     km_delete = \<lambda>k. on_fst (km_delete km k), km_batch_delete = \<lambda>ks. on_fst (km_batch_delete km ks),
     km_unset = \<lambda>k. on_fst (km_unset km k), km_batch_unset = \<lambda>ks. on_fst (km_batch_unset km ks),
     km_creates_entries = km_creates_entries km\<rparr>"

definition right_keymap :: "('u, 'k, 'v) keymap \<Rightarrow> ('w \<times> 'u, 'k, 'v) keymap" where
  "right_keymap km = \<lparr>
     km_get = \<lambda>k. on_snd (km_get km k), km_batch_get = \<lambda>ks. on_snd (km_batch_get km ks),
     km_exists = \<lambda>k. on_snd (km_exists km k), km_batch_exists = \<lambda>ks. on_snd (km_batch_exists km ks),
     km_stat = \<lambda>k. on_snd (km_stat km k), km_batch_stat = \<lambda>ks. on_snd (km_batch_stat km ks),
     km_batch_read_versioned = \<lambda>ks. on_snd (km_batch_read_versioned km ks),
     km_batch_write_if_unchanged = \<lambda>ws ttl. on_snd (km_batch_write_if_unchanged km ws ttl),
     km_set = \<lambda>k v o'. on_snd (km_set km k v o'), km_batch_set = \<lambda>items o'. on_snd (km_batch_set km items o'),
     km_delete = \<lambda>k. on_snd (km_delete km k), km_batch_delete = \<lambda>ks. on_snd (km_batch_delete km ks),
     km_unset = \<lambda>k. on_snd (km_unset km k), km_batch_unset = \<lambda>ks. on_snd (km_batch_unset km ks),
     km_creates_entries = km_creates_entries km\<rparr>"

section \<open>One round of \<open>batch_update\<close>\<close>

abbreviation decision_on :: "('k, 'v decision) dict \<Rightarrow> 'k \<Rightarrow> 'v decision" where
  "decision_on decisions k \<equiv> (case dget decisions k of None \<Rightarrow> Keep | Some d \<Rightarrow> d)"

text \<open>The writes a round makes, and what it holds without a write.\<close>

definition write_of ::
  "('k, 'v versioned) dict \<Rightarrow> ('k, 'v decision) dict \<Rightarrow> time option \<Rightarrow> 'k \<Rightarrow> 'v cond_write option" where
  "write_of seen decisions clock k = (case decision_on decisions k of
      Keep \<Rightarrow> None
    | Change ch \<Rightarrow> if ch = Remove \<and> seen_version (the (dget seen k)) = None then None
        else Some (ConditionalWrite (the (dget seen k)) ch clock))"

lemma sort_decisions_spec:
  "\<lbrakk>sort_decisions seen decisions clock ks held writes = (h, ws); distinct ks\<rbrakk> \<Longrightarrow>
     (\<forall>k. dget ws k = (if k \<in> set ks \<and> write_of seen decisions clock k \<noteq> None
                       then write_of seen decisions clock k else dget writes k))
   \<and> (\<forall>k. dget h k = (if k \<in> set ks \<and> decision_on decisions k = Keep
                         \<and> seen_value (the (dget seen k)) \<noteq> None
                      then seen_value (the (dget seen k)) else dget held k))
   \<and> (dict_ok writes \<longrightarrow> dict_ok ws) \<and> (dict_ok held \<longrightarrow> dict_ok h)"
proof (induction seen decisions clock ks held writes arbitrary: h ws rule: sort_decisions.induct)
  case (2 seen decisions clock k ks held writes)
  show ?case
  proof (cases "decision_on decisions k")
    case Keep
    with 2 show ?thesis
      by (cases "seen_value (the (dget seen k))")
        (fastforce simp: write_of_def Let_def split: if_splits)+
  next
    case (Change ch)
    with 2 show ?thesis
      by (cases "ch = Remove \<and> seen_version (the (dget seen k)) = None")
        (fastforce simp: write_of_def Let_def split: if_splits)+
  qed
qed simp

lemma record_written_spec:
  "dict_ok ws \<Longrightarrow> dget (record_written S ws held) k =
     (case dget ws k of
        Some w \<Rightarrow> (case cw_change w of Put v \<Rightarrow> if k \<in> S then Some v else dget held k | Remove \<Rightarrow> dget held k)
      | None \<Rightarrow> dget held k)"
proof (induction S ws held rule: record_written.induct)
  case (2 S k' w ws held)
  then have "dget ws k' = None" by (simp add: dget_eq_None_iff)
  with 2 show ?case by (auto split: change.splits option.splits if_splits)
qed simp

lemma cas_wins_Cons:
  "dict_ok ((k, w) # ws) \<Longrightarrow> cas_wins ver ((k, w) # ws) = cas_wins ver [(k, w)] \<union> cas_wins ver ws"
  by (auto simp: cas_wins_def dget_eq_None_iff [symmetric] simp del: set_map split: if_splits)

lemma cas_wins_keys: "cas_wins ver ws \<subseteq> set (dkeys ws)"
  unfolding dkeys_dom by (auto simp: cas_wins_def)

lemma cas_wins_cong: "(\<And>k. k \<in> set (dkeys ws) \<Longrightarrow> ver k = ver' k) \<Longrightarrow> cas_wins ver ws = cas_wins ver' ws"
  unfolding dkeys_dom by (auto simp: cas_wins_def dom_def)

section \<open>What \<open>batch_update\<close> and \<open>update\<close> guarantee\<close>

abbreviation decided :: "'v decision \<Rightarrow> 'v option \<Rightarrow> 'v option" where
  "decided d old \<equiv> (case d of Keep \<Rightarrow> old | Change (Put v) \<Rightarrow> Some v | Change Remove \<Rightarrow> None)"

text \<open>Writers that keep the provider's invariant and only ever write forward.\<close>

definition other_writers :: "('w \<Rightarrow> bool) \<Rightarrow> ('w \<Rightarrow> 'w \<Rightarrow> bool) \<Rightarrow> ('w \<Rightarrow> 'w) list \<Rightarrow> bool" where
  "other_writers I evolves sched \<longleftrightarrow> (\<forall>e \<in> set sched. \<forall>w. I w \<longrightarrow> I (e w) \<and> evolves w (e w))"

text \<open>What one \<open>update\<close> of \<open>k\<close> may end in, given the writes \<open>l\<close> it made.\<close>

definition atomic_outcome ::
  "('w \<Rightarrow> 'k \<Rightarrow> 'v option) \<Rightarrow> 'k \<Rightarrow> ('v option \<Rightarrow> 'v decision) \<Rightarrow> 'w \<Rightarrow> ('k \<times> 'v option \<times> 'v change) list \<Rightarrow> ('k, 'v) update_outcome \<Rightarrow> bool" where
  "atomic_outcome holds k decide w' l r \<longleftrightarrow> (case r of
      Conflicted lost held \<Rightarrow> lost = [k] \<and> held = [] \<and> l = []
    | Held d \<Rightarrow> holds w' k = dget d k \<and>
        (l = [] \<and> decide (dget d k) = Keep
         \<or> l = [] \<and> dget d k = None \<and> decide None = Change Remove
         \<or> (\<exists>old ch. l = [(k, old, ch)] \<and> decide old = Change ch
              \<and> dget d k = (case ch of Put v \<Rightarrow> Some v | Remove \<Rightarrow> None))))"

declare update_rounds.simps(2) [simp del]

context conditional_keymap
begin

text \<open>A sequential \<open>batch_update\<close> with no other writer takes one round and applies every decision.\<close>

lemma cas_wins_fresh:
  assumes "dict_ok writes"
    and "\<And>k. dget writes k = (if k \<in> set ks then write_of seen decisions clock k else None)"
    and "\<And>k. k \<in> set ks \<Longrightarrow> dget seen k = Some (Versioned (holds w k) (ver w k))"
  shows "cas_wins (ver w) writes = set (dkeys writes)"
  unfolding cas_wins_def dkeys_dom using assms
  by (auto simp: write_of_def split: decision.splits if_splits)

lemma update_rounds_alone:
  assumes inv: "inv w" and ks: "distinct ks" and live: "live w (wo_ttl opts) (wo_created_at opts)"
    and dec: "decisions = decide (dict_of (holds w) ks)"
  shows "\<exists>d w'. update_rounds km decide opts (Suc n) ks [] w = (Inr (Held d), w') \<and> inv w' \<and> evolves w w'
    \<and> (\<forall>k. holds w' k = (if k \<in> set ks then decided (decision_on decisions k) (holds w k) else holds w k))
    \<and> (\<forall>k. dget d k = (if k \<in> set ks then holds w' k else None))"
proof -
  from read_versioned_law [OF inv, of ks] obtain seen w1 where
    r: "km_batch_read_versioned km ks w = (Inr seen, w1)" "inv w1" "evolves w w1"
       "holds w1 = holds w" "ver w1 = ver w"
    and seen: "\<And>k. k \<in> set ks \<Longrightarrow> dget seen k = Some (Versioned (holds w k) (ver w k))" by blast
  have live1: "live w1 (wo_ttl opts) (wo_created_at opts)" using r(3) live live_evolves by blast
  have dict: "dict_of (\<lambda>k. seen_value (the (dget seen k))) ks = dict_of (holds w) ks"
    using seen by (simp add: dict_of_def)
  obtain h ws where hw: "sort_decisions seen decisions (wo_created_at opts) ks [] [] = (h, ws)" by fastforce
  from sort_decisions_spec [OF hw ks] have
    ws: "\<And>k. dget ws k = (if k \<in> set ks then write_of seen decisions (wo_created_at opts) k else None)"
    and h: "\<And>k. dget h k = (if k \<in> set ks \<and> decision_on decisions k = Keep then seen_value (the (dget seen k)) else None)"
    and ok: "dict_ok ws" by (auto split: if_splits)
  have wins: "cas_wins (ver w1) ws = set (dkeys ws)"
    using cas_wins_fresh [OF ok ws, of w1] seen r(4,5) by simp
  have step: "\<exists>w2. (if ws = [] then returnP {} else km_batch_write_if_unchanged km ws (wo_ttl opts)) w1
      = (Inr (set (dkeys ws)), w2) \<and> inv w2 \<and> evolves w1 w2
    \<and> (\<forall>k. k \<notin> set (dkeys ws) \<longrightarrow> holds w2 k = holds w k)
    \<and> (\<forall>k cw v. dget ws k = Some cw \<longrightarrow> cw_change cw = Put v \<longrightarrow> holds w2 k = Some v)
    \<and> (\<forall>k cw. dget ws k = Some cw \<longrightarrow> cw_change cw = Remove \<longrightarrow> holds w2 k = None)"
  proof (cases "ws = []")
    case True
    with r show ?thesis by (auto simp: evolves_refl)
  next
    case False
    from cas_law [OF r(2) ok, of "wo_ttl opts"] wins obtain w2 where
      "km_batch_write_if_unchanged km ws (wo_ttl opts) w1 = (Inr (set (dkeys ws)), w2)" "inv w2" "evolves w1 w2"
      "\<forall>k. k \<notin> set (dkeys ws) \<longrightarrow> holds w2 k = holds w k"
      "\<forall>k cw v. k \<in> set (dkeys ws) \<longrightarrow> dget ws k = Some cw \<longrightarrow> cw_change cw = Put v
         \<longrightarrow> live w1 (wo_ttl opts) (cw_created_at cw) \<longrightarrow> holds w2 k = Some v"
      "\<forall>k cw. k \<in> set (dkeys ws) \<longrightarrow> dget ws k = Some cw \<longrightarrow> cw_change cw = Remove \<longrightarrow> holds w2 k = None"
      unfolding r(4) by auto
    moreover have "cw_created_at cw = wo_created_at opts" if "dget ws k = Some cw" for k cw
      using that ws [of k] by (auto simp: write_of_def split: if_splits decision.splits)
    ultimately show ?thesis using False live1 unfolding dkeys_dom by auto
  qed
  then obtain w2 where w2: "(if ws = [] then returnP {} else km_batch_write_if_unchanged km ws (wo_ttl opts)) w1
      = (Inr (set (dkeys ws)), w2)" "inv w2" "evolves w1 w2"
    "\<And>k. k \<notin> set (dkeys ws) \<Longrightarrow> holds w2 k = holds w k"
    "\<And>k cw v. dget ws k = Some cw \<Longrightarrow> cw_change cw = Put v \<Longrightarrow> holds w2 k = Some v"
    "\<And>k cw. dget ws k = Some cw \<Longrightarrow> cw_change cw = Remove \<Longrightarrow> holds w2 k = None" by blast
  let ?d = "record_written (set (dkeys ws)) ws h"
  have run: "update_rounds km decide opts (Suc n) ks [] w = (Inr (Held ?d), w2)"
    using seen r(1) w2(1) by (simp add: update_rounds.simps(2) dict hw dec [symmetric] bindP_run)
  have after: "holds w2 k = (if k \<in> set ks then decided (decision_on decisions k) (holds w k) else holds w k)" for k
  proof (cases "dget ws k")
    case None
    then have "k \<notin> set (dkeys ws)" by (simp add: dget_eq_None_iff)
    then have "holds w2 k = holds w k" by (rule w2(4))
    with None ws [of k] seen [of k] nothing_stored [OF inv, of k] show ?thesis
      by (auto simp: write_of_def split: decision.splits if_splits)
  next
    case (Some cw)
    with ws [of k] have "k \<in> set ks" "write_of seen decisions (wo_created_at opts) k = Some cw"
      by (auto split: if_splits)
    with w2(5,6) [OF Some] show ?thesis
      by (auto simp: write_of_def split: decision.splits if_splits change.splits)
  qed
  have held: "dget ?d k = (if k \<in> set ks then holds w2 k else None)" for k
  proof (cases "dget ws k")
    case None
    with ws [of k] h [of k] after [of k] seen [of k] nothing_stored [OF inv, of k] show ?thesis
      by (auto simp: record_written_spec [OF ok] write_of_def split: decision.splits if_splits)
  next
    case (Some cw)
    then have "k \<in> set (dkeys ws)" by (rule dget_Some_key)
    with Some w2(5,6) [OF Some] ws [of k] h [of k] show ?thesis
      by (auto simp: record_written_spec [OF ok] write_of_def split: decision.splits if_splits change.splits)
  qed
  from run after held w2(2,3) r(3) show ?thesis using evolves_trans by blast
qed


lemma contended_read [simp]:
  "km_batch_read_versioned (contended holds km) ks = on_fst (km_batch_read_versioned km ks)"
  by (simp add: contended_def)

lemma contended_cas:
  assumes "inv w" "dict_ok writes"
    and "w1 = (case sched of [] \<Rightarrow> w | e # _ \<Rightarrow> e w)" "inv w1"
  shows "\<exists>w2. km_batch_write_if_unchanged (contended holds km) writes ttl (w, sched, log)
    = (Inr (cas_wins (ver w1) writes), w2, tl sched, log @ replaced_by (holds w1) writes (cas_wins (ver w1) writes))
    \<and> inv w2 \<and> evolves w1 w2
    \<and> (\<forall>k cw v. k \<in> cas_wins (ver w1) writes \<longrightarrow> dget writes k = Some cw \<longrightarrow> cw_change cw = Put v
         \<longrightarrow> live w1 ttl (cw_created_at cw) \<longrightarrow> holds w2 k = Some v)
    \<and> (\<forall>k cw. k \<in> cas_wins (ver w1) writes \<longrightarrow> dget writes k = Some cw \<longrightarrow> cw_change cw = Remove
         \<longrightarrow> holds w2 k = None)"
  using cas_law [OF assms(4,2), of ttl] assms(3) by (auto simp: contended_def Let_def)

text \<open>The write a single-key round makes, and the round as that write and what follows it.\<close>

abbreviation one_write :: "'k \<Rightarrow> 'w \<Rightarrow> 'v change \<Rightarrow> write_options \<Rightarrow> ('k, 'v cond_write) dict" where
  "one_write k w ch opts \<equiv> [(k, ConditionalWrite (Versioned (holds w k) (ver w k)) ch (wo_created_at opts))]"

lemma one_key_round:
  assumes inv: "inv w"
  shows "\<exists>w1. inv w1 \<and> evolves w w1 \<and> holds w1 = holds w \<and> ver w1 = ver w
    \<and> update_rounds (contended holds km) (decide_one k decide) opts (Suc n) [k] [] (w, sched, log) =
      (case decide (holds w k) of
         Keep \<Rightarrow> (Inr (Held (case holds w k of None \<Rightarrow> [] | Some v \<Rightarrow> [(k, v)])), w1, sched, log)
       | Change ch \<Rightarrow>
           if ch = Remove \<and> ver w k = None then (Inr (Held []), w1, sched, log)
           else bindP (km_batch_write_if_unchanged (contended holds km) (one_write k w ch opts) (wo_ttl opts)) (\<lambda>written.
              if \<not> written \<subseteq> {k} then raiseP KeyError else
              if k \<in> written then returnP (Held (record_written written (one_write k w ch opts) []))
              else update_rounds (contended holds km) (decide_one k decide) opts n [k]
                     (record_written written (one_write k w ch opts) [])) (w1, sched, log))"
proof -
  from read_versioned_law [OF inv, of "[k]"] obtain seen w1 where
    r: "km_batch_read_versioned km [k] w = (Inr seen, w1)" "inv w1" "evolves w w1"
       "holds w1 = holds w" "ver w1 = ver w"
    and seen: "dget seen k = Some (Versioned (holds w k) (ver w k))" by auto
  have dec: "decide_one k decide (dict_of (\<lambda>k. seen_value (the (dget seen k))) [k]) = [(k, decide (holds w k))]"
    by (simp add: decide_one_def dict_of_def seen)
  show ?thesis
    by (intro exI [of _ w1])
      (auto simp: update_rounds.simps(2) r seen dec bindP_run split: decision.splits prod.splits sum.splits option.splits)
qed

text \<open>
  The write of a round against whatever the others left: it wins exactly when the token
  is still the one read, and then replaces the very value the decision was made from.
\<close>

lemma contended_write:
  assumes inv: "inv w1" and env: "other_writers inv evolves sched" and same: "holds w1 = holds w" "ver w1 = ver w"
    and live: "live w1 (wo_ttl opts) (wo_created_at opts)" and stored: "\<not> (ch = Remove \<and> ver w k = None)"
  shows "\<exists>won w3. inv w3 \<and> evolves w1 w3
    \<and> km_batch_write_if_unchanged (contended holds km) (one_write k w ch opts) (wo_ttl opts) (w1, sched, log)
      = (Inr (if won then {k} else {}), w3, tl sched, log @ (if won then [(k, holds w k, ch)] else []))
    \<and> (won \<longrightarrow> holds w3 k = (case ch of Put v \<Rightarrow> Some v | Remove \<Rightarrow> None))
    \<and> (\<not> won \<longrightarrow> sched \<noteq> [])"
proof -
  define w2 where w2: "w2 = (case sched of [] \<Rightarrow> w1 | e # _ \<Rightarrow> e w1)"
  have w2': "inv w2" "evolves w1 w2"
    using env inv by (auto simp: w2 other_writers_def evolves_refl split: list.splits)
  have ok: "dict_ok (one_write k w ch opts)" by simp
  have wins: "cas_wins (ver w2) (one_write k w ch opts) = (if ver w2 k = ver w k then {k} else {})"
    using stored by (auto simp: cas_wins_def)
  have live2: "live w2 (wo_ttl opts) (wo_created_at opts)" using w2'(2) live by (rule live_evolves)
  from contended_cas [OF inv ok w2 w2'(1), of "wo_ttl opts" log] obtain w3 where
    w3: "km_batch_write_if_unchanged (contended holds km) (one_write k w ch opts) (wo_ttl opts) (w1, sched, log)
         = (Inr (cas_wins (ver w2) (one_write k w ch opts)), w3, tl sched,
            log @ replaced_by (holds w2) (one_write k w ch opts) (cas_wins (ver w2) (one_write k w ch opts)))"
      "inv w3" "evolves w2 w3"
    and after: "ver w2 k = ver w k \<Longrightarrow> holds w3 k = (case ch of Put v \<Rightarrow> Some v | Remove \<Rightarrow> None)"
    unfolding wins using live2 by (cases ch) (fastforce split: if_splits)+
  have "holds w2 k = holds w k" if "ver w2 k = ver w k"
    using token_names_entry [OF inv w2'(1,2)] that same by simp
  moreover have "sched \<noteq> []" if "ver w2 k \<noteq> ver w k"
    using that same by (auto simp: w2)
  ultimately show ?thesis using w3 w2'(2) after evolves_trans [of w1 w2 w3]
    by (intro exI [of _ "ver w2 k = ver w k"] exI [of _ w3]) (simp add: wins replaced_by_def)
qed

lemma contended_round:
  assumes inv: "inv w" and env: "other_writers inv evolves sched" and live: "live w (wo_ttl opts) (wo_created_at opts)"
  shows "\<exists>w' r l. inv w' \<and> evolves w w' \<and>
    (update_rounds (contended holds km) (decide_one k decide) opts (Suc n) [k] [] (w, sched, log)
        = (Inr r, w', (if l = [] then sched else tl sched), log @ l) \<and> atomic_outcome holds k decide w' l r
        \<and> (\<exists>d. r = Held d)
     \<or> sched \<noteq> [] \<and>
       update_rounds (contended holds km) (decide_one k decide) opts (Suc n) [k] [] (w, sched, log)
         = update_rounds (contended holds km) (decide_one k decide) opts n [k] [] (w', tl sched, log))"
proof -
  let ?run = "update_rounds (contended holds km) (decide_one k decide) opts (Suc n) [k] [] (w, sched, log)"
  from one_key_round [OF inv, of k decide opts n sched log] obtain w1 where
    w1: "inv w1" "evolves w w1" "holds w1 = holds w" "ver w1 = ver w"
    and run: "?run = (case decide (holds w k) of
         Keep \<Rightarrow> (Inr (Held (case holds w k of None \<Rightarrow> [] | Some v \<Rightarrow> [(k, v)])), w1, sched, log)
       | Change ch \<Rightarrow>
           if ch = Remove \<and> ver w k = None then (Inr (Held []), w1, sched, log)
           else bindP (km_batch_write_if_unchanged (contended holds km) (one_write k w ch opts) (wo_ttl opts)) (\<lambda>written.
              if \<not> written \<subseteq> {k} then raiseP KeyError else
              if k \<in> written then returnP (Held (record_written written (one_write k w ch opts) []))
              else update_rounds (contended holds km) (decide_one k decide) opts n [k]
                     (record_written written (one_write k w ch opts) [])) (w1, sched, log))"
    by blast
  show ?thesis
  proof (cases "decide (holds w k)")
    case Keep
    with run w1 show ?thesis
      by (intro exI [of _ w1] exI [of _ "Held (case holds w k of None \<Rightarrow> [] | Some v \<Rightarrow> [(k, v)])"] exI [of _ "[]"])
        (simp add: atomic_outcome_def split: option.splits)
  next
    case (Change ch)
    show ?thesis
    proof (cases "ch = Remove \<and> ver w k = None")
      case True
      with nothing_stored [OF inv] have "holds w k = None" by blast
      with True Change run w1 show ?thesis
        by (intro exI [of _ w1] exI [of _ "Held []"] exI [of _ "[]"]) (simp add: atomic_outcome_def)
    next
      case False
      have "live w1 (wo_ttl opts) (wo_created_at opts)" using w1(2) live by (rule live_evolves)
      from contended_write [OF w1(1) env w1(3,4) this False, of log] obtain won w3 where
        w3: "inv w3" "evolves w1 w3"
          "km_batch_write_if_unchanged (contended holds km) (one_write k w ch opts) (wo_ttl opts) (w1, sched, log)
           = (Inr (if won then {k} else {}), w3, tl sched, log @ (if won then [(k, holds w k, ch)] else []))"
          "won \<longrightarrow> holds w3 k = (case ch of Put v \<Rightarrow> Some v | Remove \<Rightarrow> None)" "\<not> won \<longrightarrow> sched \<noteq> []"
        by blast
      show ?thesis
      proof (cases won)
        case True
        with w3 Change False run evolves_trans [OF w1(2) w3(2)] show ?thesis
          by (intro exI [of _ w3] exI [of _ "Held (record_written {k} (one_write k w ch opts) [])"]
              exI [of _ "[(k, holds w k, ch)]"]) (auto simp: atomic_outcome_def split: change.splits)
      next
        case lost: False
        with w3 Change False run evolves_trans [OF w1(2) w3(2)] show ?thesis
          by (intro exI [of _ w3] exI [of _ "Held []"] exI [of _ "[]"]) auto
      qed
    qed
  qed
qed

lemma update_rounds_contended:
  assumes "inv w" "other_writers inv evolves sched" "live w (wo_ttl opts) (wo_created_at opts)"
  shows "\<exists>r w' sched' l. update_rounds (contended holds km) (decide_one k decide) opts n [k] [] (w, sched, log)
      = (Inr r, w', sched', log @ l) \<and> inv w' \<and> evolves w w' \<and> atomic_outcome holds k decide w' l r
      \<and> (length sched < n \<longrightarrow> (\<exists>d. r = Held d))"
  using assms
proof (induction n arbitrary: w sched)
  case 0
  then show ?case by (auto simp: atomic_outcome_def evolves_refl intro!: exI [of _ "[]"])
next
  case (Suc n)
  from contended_round [OF Suc.prems, of k decide n log] obtain w' r l where
    w': "inv w'" "evolves w w'" and
    cases: "update_rounds (contended holds km) (decide_one k decide) opts (Suc n) [k] [] (w, sched, log)
        = (Inr r, w', (if l = [] then sched else tl sched), log @ l) \<and> atomic_outcome holds k decide w' l r
        \<and> (\<exists>d. r = Held d)
     \<or> sched \<noteq> [] \<and>
       update_rounds (contended holds km) (decide_one k decide) opts (Suc n) [k] [] (w, sched, log)
         = update_rounds (contended holds km) (decide_one k decide) opts n [k] [] (w', tl sched, log)"
    by blast
  from cases show ?case
  proof
    assume "update_rounds (contended holds km) (decide_one k decide) opts (Suc n) [k] [] (w, sched, log)
        = (Inr r, w', (if l = [] then sched else tl sched), log @ l) \<and> atomic_outcome holds k decide w' l r
        \<and> (\<exists>d. r = Held d)"
    with w' show ?thesis by blast
  next
    assume lost: "sched \<noteq> [] \<and>
       update_rounds (contended holds km) (decide_one k decide) opts (Suc n) [k] [] (w, sched, log)
         = update_rounds (contended holds km) (decide_one k decide) opts n [k] [] (w', tl sched, log)"
    have "other_writers inv evolves (tl sched)" using Suc.prems(2) by (cases sched) (auto simp: other_writers_def)
    moreover have "live w' (wo_ttl opts) (wo_created_at opts)" using w'(2) Suc.prems(3) live_evolves by blast
    ultimately obtain r' w'' sched' l' where
      "update_rounds (contended holds km) (decide_one k decide) opts n [k] [] (w', tl sched, log)
        = (Inr r', w'', sched', log @ l')" "inv w''" "evolves w' w''" "atomic_outcome holds k decide w'' l' r'"
        "length (tl sched) < n \<longrightarrow> (\<exists>d. r' = Held d)"
      using Suc.IH [OF w'(1)] by blast
    with lost w'(2) evolves_trans [of w w' w''] show ?thesis
      by (intro exI [of _ r'] exI [of _ w''] exI [of _ sched'] exI [of _ l']) (cases sched; simp)
  qed
qed

theorem batch_update_alone:
  assumes "inv w" "live w (wo_ttl opts) (wo_created_at opts)" "1 \<le> attempts"
  shows "\<exists>d w'. batch_update km ks decide opts attempts w = (Inr (Held d), w') \<and> inv w'
    \<and> (\<forall>k. holds w' k = (if k \<in> set ks
          then decided (decision_on (decide (dict_of (holds w) ks)) k) (holds w k) else holds w k))
    \<and> (\<forall>k. dget d k = (if k \<in> set ks then holds w' k else None))"
proof -
  have n: "Suc (nat attempts - 1) = nat attempts" using assms(3) by simp
  have eq: "dict_of (holds w) (fromkeys ks) = dict_of (holds w) ks" by (simp add: dict_of_def)
  from update_rounds_alone [where ks = "fromkeys ks" and n = "nat attempts - 1",
      OF assms(1) distinct_fromkeys assms(2) refl, of decide, unfolded n eq set_fromkeys]
  obtain d w' where rounds: "update_rounds km decide opts (nat attempts) (fromkeys ks) [] w = (Inr (Held d), w')"
    and after: "inv w'"
      "\<forall>k. holds w' k = (if k \<in> set ks
          then decided (decision_on (decide (dict_of (holds w) ks)) k) (holds w k) else holds w k)"
      "\<forall>k. dget d k = (if k \<in> set ks then holds w' k else None)"
    by blast
  have "batch_update km ks decide opts attempts w = (Inr (Held d), w')"
    using rounds assms(3) by (simp add: batch_update_def)
  with after show ?thesis by (intro exI [of _ d] exI [of _ w'] conjI)
qed

theorem update_contended:
  assumes "inv w" "other_writers inv evolves sched" "live w (wo_ttl opts) (wo_created_at opts)" "1 \<le> attempts"
  shows "\<exists>r w' sched' l. batch_update (contended holds km) [k] (decide_one k decide) opts attempts (w, sched, log)
      = (Inr r, w', sched', log @ l) \<and> inv w' \<and> atomic_outcome holds k decide w' l r
      \<and> (int (length sched) < attempts \<longrightarrow> (\<exists>d. r = Held d))"
  using update_rounds_contended [OF assms(1-3), of k decide "nat attempts" log] assms(4)
  unfolding batch_update_def by fastforce

end

section \<open>A conditional batch, one write after another\<close>

text \<open>
  When each write is decided on the version stored when its turn comes, and touches its
  own key only, the batch is decided on the versions stored when it began. \<open>after m w\<close> is
  what the write \<open>w\<close> leaves.
\<close>

lemma cas_fold:
  fixes I :: "'w \<Rightarrow> bool" and ver :: "'w \<Rightarrow> 'k \<Rightarrow> token option" and holds :: "'w \<Rightarrow> 'k \<Rightarrow> 'v option"
  assumes step: "\<And>m k w written. I m \<Longrightarrow> \<exists>m'. f (k, w) written m
        = (Inr (if k \<in> cas_wins (ver m) [(k, w)] then insert k written else written), m')
      \<and> I m' \<and> evolves m m'
      \<and> (\<forall>j. j \<noteq> k \<or> k \<notin> cas_wins (ver m) [(k, w)] \<longrightarrow> holds m' j = holds m j \<and> ver m' j = ver m j)
      \<and> (k \<in> cas_wins (ver m) [(k, w)] \<longrightarrow> holds m' k = after m w)"
    and refl: "\<And>m. evolves m m" and trans: "\<And>m1 m2 m3. evolves m1 m2 \<Longrightarrow> evolves m2 m3 \<Longrightarrow> evolves m1 m3"
    and after: "\<And>m m' w. evolves m m' \<Longrightarrow> after m' w = after m w"
    and prems: "I m" "dict_ok ws"
  shows "\<exists>m'. foldP f ws written m = (Inr (written \<union> cas_wins (ver m) ws), m')
    \<and> I m' \<and> evolves m m'
    \<and> (\<forall>k. k \<notin> cas_wins (ver m) ws \<longrightarrow> holds m' k = holds m k \<and> ver m' k = ver m k)
    \<and> (\<forall>k w. k \<in> cas_wins (ver m) ws \<longrightarrow> dget ws k = Some w \<longrightarrow>
         holds m' k = after m w)"
  using prems
proof (induction ws arbitrary: m written)
  case Nil
  then show ?case by (auto simp: cas_wins_def refl)
next
  case (Cons kw ws)
  obtain k w where kw: "kw = (k, w)" by fastforce
  from step [OF Cons.prems(1), of k w written] obtain m1 where
    m1: "f (k, w) written m
      = (Inr (if k \<in> cas_wins (ver m) [(k, w)] then insert k written else written), m1)"
      "I m1" "evolves m m1"
      "\<And>j. j \<noteq> k \<or> k \<notin> cas_wins (ver m) [(k, w)] \<Longrightarrow> holds m1 j = holds m j \<and> ver m1 j = ver m j"
      "k \<in> cas_wins (ver m) [(k, w)] \<Longrightarrow> holds m1 k = after m w"
    by blast
  have k: "k \<notin> set (dkeys ws)" and ok: "dict_ok ws" using Cons.prems(2) kw by auto
  have rest: "cas_wins (ver m1) ws = cas_wins (ver m) ws"
    using k m1(4) by (intro cas_wins_cong) metis
  let ?written = "if k \<in> cas_wins (ver m) [(k, w)] then insert k written else written"
  from Cons.IH [OF m1(2) ok, of ?written] rest after [OF m1(3)] obtain m2 where
    m2: "foldP f ws ?written m1 = (Inr (?written \<union> cas_wins (ver m) ws), m2)"
      "I m2" "evolves m1 m2"
      "\<And>k. k \<notin> cas_wins (ver m) ws \<Longrightarrow> holds m2 k = holds m1 k \<and> ver m2 k = ver m1 k"
      "\<And>k w. \<lbrakk>k \<in> cas_wins (ver m) ws; dget ws k = Some w\<rbrakk> \<Longrightarrow>
         holds m2 k = after m w"
    by auto
  have one: "cas_wins (ver m) [(k, w)] \<subseteq> {k}" by (auto simp: cas_wins_def)
  have k': "k \<notin> cas_wins (ver m) ws" using k cas_wins_keys [of "ver m" ws] by blast
  have wins: "cas_wins (ver m) (kw # ws) = cas_wins (ver m) [(k, w)] \<union> cas_wins (ver m) ws"
    unfolding kw by (rule cas_wins_Cons) (use Cons.prems(2) kw in simp)
  have "?written \<union> cas_wins (ver m) ws = written \<union> cas_wins (ver m) (kw # ws)"
    using one wins by auto
  moreover have "evolves m m2" using m1(3) m2(3) by (rule trans)
  moreover have "holds m2 j = holds m j \<and> ver m2 j = ver m j"
    if "j \<notin> cas_wins (ver m) (kw # ws)" for j
    using that wins m1(4) [of j] m2(4) [of j] by auto
  moreover have "holds m2 j = after m u"
    if "j \<in> cas_wins (ver m) (kw # ws)" "dget (kw # ws) j = Some u" for j u
  proof (cases "j = k")
    case True
    with that wins k' m1(5) m2(4) [of k] kw show ?thesis by simp
  next
    case False
    with that wins one m2(5) [of j u] kw show ?thesis by auto
  qed
  moreover have "foldP f (kw # ws) written m = (Inr (?written \<union> cas_wins (ver m) ws), m2)"
    using m1(1) m2(1) by (simp add: kw)
  ultimately show ?case using m2(2) by (intro exI [of _ m2]) simp
qed

end
