(* ===== verification/Targets.thy ===== *)
theory Targets
  imports Keymap_Spec
begin

text \<open>
  The places a record lives, \<open>src/kvtsjl/keymap_algebra/topology.py\<close>: roles, lookup
  places, \<open>Target\<close> with its neutral defaults, \<open>KeyMapTarget\<close>, the classification of
  failures around the commit point (\<open>_committing\<close>, \<open>_settle\<close>, \<open>_try_fill\<close>) and the
  queue of work that waits for a deferred commit (\<open>DependentSyncs\<close>).

  A target is the record of its operations over the media \<open>'w\<close>. The records a target is
  handed and what it reads back have one type \<open>'v\<close>, as the code erases parts to
  \<open>object\<close>; \<open>t_id\<close> stands for \<open>id(target)\<close>.
\<close>

section \<open>What a target is to the record\<close>

datatype role = Component | Authority | Dependent | Fallback

datatype lookup = BeforeAuthority | AfterAuthority | Never

fun default_lookup :: "role \<Rightarrow> lookup option" where
  "default_lookup Dependent = Some Never"
| "default_lookup Fallback = Some AfterAuthority"
| "default_lookup _ = None"

section \<open>Pages of what a record lacks\<close>

record ('w, 'k, 'v) missing_page =
  mp_listed :: "'k list"
  mp_missing :: "'k list"
  mp_read :: "'k list \<Rightarrow> ('w, ('k, 'v) dict) prog"
  mp_stat :: "'k list \<Rightarrow> ('w, ('k, record_stat) dict) prog"

definition map_values :: "('v \<Rightarrow> 'u option) \<Rightarrow> ('w, 'k, 'v) missing_page \<Rightarrow> ('w, 'k, 'u) missing_page" where
  "map_values forward p = \<lparr>mp_listed = mp_listed p, mp_missing = mp_missing p,
     mp_read = (\<lambda>keys. mapP (\<lambda>d. dmap (\<lambda>k v. the (forward v)) (dfilter (\<lambda>k v. forward v \<noteq> None) d)) (mp_read p keys)),
     mp_stat = mp_stat p\<rparr>"

text \<open>
  \<open>shown\<close> and \<open>stored\<close> are dictionaries over the listed keys: where two stored keys are
  shown as one, the later wins in \<open>stored\<close>. A key that was not listed is a \<open>KeyError\<close>;
  the missing keys of a page are among its listed ones, so showing them never is.
\<close>

definition shown_keys :: "('k \<Rightarrow> 'j) \<Rightarrow> ('w, 'k, 'v) missing_page \<Rightarrow> ('k, 'j) dict" where
  "shown_keys outward p = dict_of outward (mp_listed p)"

definition stored_keys :: "('k \<Rightarrow> 'j) \<Rightarrow> ('w, 'k, 'v) missing_page \<Rightarrow> ('j, 'k) dict" where
  "stored_keys outward p = dmerge [] (map (\<lambda>(k, j). (j, k)) (shown_keys outward p))"

definition through_keys ::
  "('k, 'j) dict \<Rightarrow> ('j, 'k) dict \<Rightarrow> ('k list \<Rightarrow> ('w, ('k, 'a) dict) prog) \<Rightarrow> 'j list \<Rightarrow> ('w, ('j, 'a) dict) prog" where
  "through_keys shown stored read keys =
     (if \<exists>j \<in> set keys. dget stored j = None then raiseP KeyError
      else bindP (read (map (\<lambda>j. the (dget stored j)) keys)) (\<lambda>d.
        if \<exists>k \<in> set (dkeys d). dget shown k = None then raiseP KeyError
        else returnP (dmerge [] (map (\<lambda>(k, v). (the (dget shown k), v)) d))))"

definition map_keys :: "('k \<Rightarrow> 'j) \<Rightarrow> ('w, 'k, 'v) missing_page \<Rightarrow> ('w, 'j, 'v) missing_page" where
  "map_keys outward p = (let shown = shown_keys outward p; stored = stored_keys outward p in
     \<lparr>mp_listed = map outward (mp_listed p),
      mp_missing = map outward (mp_missing p),
      mp_read = through_keys shown stored (mp_read p),
      mp_stat = through_keys shown stored (mp_stat p)\<rparr>)"

text \<open>
  A generator of pages is the list of its steps: what a page says is missing is asked
  only when the page is reached, so it sees what was written for earlier pages. The keys
  the fallbacks hold are listed when the generator is made.
\<close>

type_synonym ('w, 'k, 'v) missing_pages = "('w, ('w, 'k, 'v) missing_page) prog list"

section \<open>Targets\<close>

record ('w, 'k, 'v) target =
  t_id :: nat
  t_name :: string
  t_role :: role
  t_lookup :: "lookup option"
  t_fill :: bool
  t_policy :: sync_policy
  t_write :: "'k \<Rightarrow> 'v \<Rightarrow> write_options \<Rightarrow> ('w, unit) prog"
  t_batch_read_versioned :: "'k list \<Rightarrow> ('w, ('k, 'v versioned) dict) prog"
  t_batch_write_if_unchanged :: "('k, 'v cond_write) dict \<Rightarrow> write_options \<Rightarrow> ('w, 'k set) prog"
  t_holds_same :: "'v \<Rightarrow> 'v \<Rightarrow> bool"
  t_batch_write :: "('k, 'v) dict \<Rightarrow> write_options \<Rightarrow> ('w, unit) prog"
  t_delete :: "'k \<Rightarrow> ('w, bool) prog"
  t_batch_delete :: "'k list \<Rightarrow> ('w, int) prog"
  t_unset :: "'k \<Rightarrow> ('w, bool) prog"
  t_batch_unset :: "'k list \<Rightarrow> ('w, int) prog"
  t_read :: "'k \<Rightarrow> ('w, 'v option) prog"
  t_batch_read :: "'k list \<Rightarrow> ('w, ('k, 'v) dict) prog"
  t_exists :: "'k \<Rightarrow> ('w, bool) prog"
  t_batch_exists :: "'k list \<Rightarrow> ('w, 'k set) prog"
  t_stat :: "'k \<Rightarrow> ('w, record_stat option) prog"
  t_batch_stat :: "'k list \<Rightarrow> ('w, ('k, record_stat) dict) prog"
  t_keys :: "int \<Rightarrow> ('w, 'k list) prog"
  t_missing_pages :: "int \<Rightarrow> ('w, ('w, 'k, 'v) missing_pages) prog"
  t_supports_write_clock :: bool
  t_expires :: bool
  t_gc :: "int \<Rightarrow> ('w, 'k list) prog"
  t_writes_are_deferred :: bool
  t_creates_entries :: bool

text \<open>
  \<open>Target.__init__\<close> and the neutral defaults. \<open>batch_delete\<close>, \<open>unset\<close>, the batch reads
  and the stats loop over the point operations of the same target, which here all
  refuse; a subclass gives its own.
\<close>

definition default_batch_read :: "('k \<Rightarrow> ('w, 'v option) prog) \<Rightarrow> 'k list \<Rightarrow> ('w, ('k, 'v) dict) prog" where
  "default_batch_read read keys = mapP (\<lambda>found. dmap (\<lambda>_. the) (dfilter (\<lambda>_ v. v \<noteq> None) found))
     (foldP (\<lambda>key found. mapP (\<lambda>v. dput key v found) (read key)) keys [])"

definition new_target ::
  "nat \<Rightarrow> string \<Rightarrow> role \<Rightarrow> lookup option \<Rightarrow> bool \<Rightarrow> sync_policy \<Rightarrow> exn + ('w, 'k, 'v) target" where
  "new_target ident name role lookup fill policy =
     (if lookup \<noteq> None \<and> role \<in> {Authority, Component} then Inl ValueError
      else if fill \<and> role \<in> {Component, Fallback} then Inl ValueError
      else
        let write = (\<lambda>_ _ _. raiseP KvStoreError);
            read = (\<lambda>_. raiseP KvStoreError); delete = (\<lambda>_. raiseP KvStoreError);
            batch_read = default_batch_read read;
            exists' = (\<lambda>key. mapP (\<lambda>v. v \<noteq> None) (read key));
            batch_exists = (\<lambda>keys. mapP (\<lambda>d. set (dkeys d)) (batch_read keys))
        in Inr \<lparr>t_id = ident, t_name = name, t_role = role,
          t_lookup = (case lookup of Some l \<Rightarrow> Some l | None \<Rightarrow> default_lookup role),
          t_fill = fill, t_policy = policy,
          t_write = write,
          t_batch_read_versioned = \<lambda>_. raiseP KvStoreUnsupported,
          t_batch_write_if_unchanged = \<lambda>_ _. raiseP KvStoreUnsupported,
          t_holds_same = \<lambda>_ _. False,
          t_batch_write = \<lambda>items o'. iterP (\<lambda>(key, value). write key value o') items,
          t_delete = delete, t_batch_delete = count_true delete,
          t_unset = delete, t_batch_unset = count_true delete,
          t_read = read, t_batch_read = batch_read,
          t_exists = exists', t_batch_exists = batch_exists,
          t_stat = \<lambda>key. mapP (\<lambda>b. if b then Some empty_stat else None) (exists' key),
          t_batch_stat = default_batch_stat batch_exists,
          t_keys = \<lambda>_. raiseP KvStoreUnsupported,
          t_missing_pages = \<lambda>_. returnP [],
          t_supports_write_clock = False, t_expires = False, t_gc = \<lambda>_. returnP [],
          t_writes_are_deferred = False, t_creates_entries = True\<rparr>)"

definition receives :: "('w, 'k, 'v) target \<Rightarrow> write_options \<Rightarrow> write_options" where
  "receives t o' = (if wo_created_at o' = None \<or> t_supports_write_clock t then o'
     else o'\<lparr>wo_created_at := None\<rparr>)"

section \<open>A keymap as a target\<close>

text \<open>\<open>_put\<close>: what decides existence cannot be absent.\<close>

fun slot_change :: "('v \<Rightarrow> 'v option) \<Rightarrow> 'v change \<Rightarrow> exn + 'v change" where
  "slot_change slot Remove = Inr Remove"
| "slot_change slot (Put v) = (case slot v of None \<Rightarrow> Inl KvStoreError | Some item \<Rightarrow> Inr (Put item))"

fun slot_writes :: "('v \<Rightarrow> 'v option) \<Rightarrow> ('k, 'v cond_write) dict \<Rightarrow> exn + ('k, 'v cond_write) dict" where
  "slot_writes slot [] = Inr []"
| "slot_writes slot ((key, w) # ws) = (case slot_change slot (cw_change w) of
      Inl e \<Rightarrow> Inl e
    | Inr change \<Rightarrow> (case slot_writes slot ws of
          Inl e \<Rightarrow> Inl e
        | Inr slotted \<Rightarrow> Inr ((key, ConditionalWrite (Versioned None (seen_version (cw_seen w))) change (cw_created_at w)) # slotted)))"

definition kmt_write ::
  "('w, 'k, 'v) keymap \<Rightarrow> ('v \<Rightarrow> 'v option) \<Rightarrow> 'k \<Rightarrow> 'v \<Rightarrow> write_options \<Rightarrow> ('w, unit) prog" where
  "kmt_write km slot key value o' = (case slot value of
      None \<Rightarrow> thenP (km_unset km key) (returnP ())
    | Some item \<Rightarrow> km_set km key item o')"

definition kmt_batch_write ::
  "('w, 'k, 'v) keymap \<Rightarrow> ('v \<Rightarrow> 'v option) \<Rightarrow> ('k, 'v) dict \<Rightarrow> write_options \<Rightarrow> ('w, unit) prog" where
  "kmt_batch_write km slot items o' =
     (let to_set = dmap (\<lambda>_ v. the (slot v)) (dfilter (\<lambda>_ v. slot v \<noteq> None) items);
          to_clear = dkeys (dfilter (\<lambda>_ v. slot v = None) items)
      in thenP (if to_set \<noteq> [] then km_batch_set km to_set o' else returnP ())
           (if to_clear \<noteq> [] then thenP (km_batch_unset km to_clear) (returnP ()) else returnP ()))"

definition kmt_batch_write_if_unchanged ::
  "('w, 'k, 'v) keymap \<Rightarrow> ('v \<Rightarrow> 'v option) \<Rightarrow> ('k, 'v cond_write) dict \<Rightarrow> write_options \<Rightarrow> ('w, 'k set) prog" where
  "kmt_batch_write_if_unchanged km slot writes o' = (case slot_writes slot writes of
      Inl e \<Rightarrow> raiseP e
    | Inr slotted \<Rightarrow> km_batch_write_if_unchanged km slotted (wo_ttl o'))"

definition keymap_target ::
  "nat \<Rightarrow> string \<Rightarrow> role \<Rightarrow> ('w, 'k, 'v) keymap \<Rightarrow> ('v \<Rightarrow> 'v option) \<Rightarrow> lookup option \<Rightarrow> bool \<Rightarrow> sync_policy
   \<Rightarrow> exn + ('w, 'k, 'v) target" where
  "keymap_target ident name role km slot lookup fill policy =
     (case new_target ident name role lookup fill policy of
        Inl e \<Rightarrow> Inl e
      | Inr t \<Rightarrow> Inr (t\<lparr>
          t_write := kmt_write km slot,
          t_batch_read_versioned := km_batch_read_versioned km,
          t_batch_write_if_unchanged := kmt_batch_write_if_unchanged km slot,
          t_holds_same := \<lambda>before after. slot before = slot after,
          t_batch_write := kmt_batch_write km slot,
          t_delete := km_delete km, t_batch_delete := km_batch_delete km,
          t_unset := km_unset km, t_batch_unset := km_batch_unset km,
          t_read := km_get km, t_batch_read := km_batch_get km,
          t_exists := km_exists km, t_batch_exists := km_batch_exists km,
          t_stat := km_stat km, t_batch_stat := km_batch_stat km,
          t_creates_entries := km_creates_entries km\<rparr>))"

text \<open>\<open>whole\<close>: the slot of a target that holds the record itself.\<close>

definition whole :: "'v \<Rightarrow> 'v option" where
  "whole v = Some v"

section \<open>Failures and the commit point\<close>

text \<open>\<open>_committing\<close>: a write on or before the commit point.\<close>

definition committing_failure :: "string \<Rightarrow> role \<Rightarrow> exn \<Rightarrow> exn" where
  "committing_failure name role e =
     (if role = Authority \<and> is_record_write e then e else UncommittedWriteError [(name, e)])"

definition committing :: "string \<Rightarrow> role \<Rightarrow> ('w, 'a) prog \<Rightarrow> ('w, 'a) prog" where
  "committing name role run = catchP run (\<lambda>e. raiseP (committing_failure name role e))"

lemma committing_run:
  "committing name role m w = (case m w of (r, w') \<Rightarrow>
     (case r of Inl e \<Rightarrow> (Inl (committing_failure name role e), w') | Inr a \<Rightarrow> (Inr a, w')))"
  by (simp add: committing_def catchP_run split: prod.splits sum.splits)

text \<open>\<open>_settle\<close>: an operation that follows the authority's write. \<open>None\<close> is the failure logged.\<close>

definition settle_failure :: "string \<Rightarrow> sync_policy \<Rightarrow> bool \<Rightarrow> exn \<Rightarrow> exn option" where
  "settle_failure name policy before_commit e =
     (if policy = BestEffort \<and> \<not> is_unsupported e then None
      else if before_commit then
        Some (if is_uncommitted e then e else UncommittedWriteError [(name, e)])
      else Some (if is_partial_sync e then e else PartialSyncError [(name, e)]))"

definition settle_into :: "string \<Rightarrow> sync_policy \<Rightarrow> ('w, 'a) prog \<Rightarrow> bool \<Rightarrow> 'a \<Rightarrow> ('w, 'a) prog" where
  "settle_into name policy run before_commit tolerated =
     catchP run (\<lambda>e. case settle_failure name policy before_commit e of
        None \<Rightarrow> returnP tolerated
      | Some e' \<Rightarrow> raiseP e')"

definition settle :: "string \<Rightarrow> sync_policy \<Rightarrow> ('w, 'a) prog \<Rightarrow> bool \<Rightarrow> ('w, unit) prog" where
  "settle name policy run before_commit = settle_into name policy (thenP run (returnP ())) before_commit ()"

lemma settle_run:
  "settle name policy m before_commit w = (case m w of (r, w') \<Rightarrow>
     (case r of Inr _ \<Rightarrow> (Inr (), w')
      | Inl e \<Rightarrow> (case settle_failure name policy before_commit e of None \<Rightarrow> (Inr (), w') | Some e' \<Rightarrow> (Inl e', w'))))"
  by (simp add: settle_def settle_into_def prog_simps split: prod.splits sum.splits option.splits)

text \<open>\<open>_try_fill\<close>.\<close>

definition try_fill :: "('w, 'a) prog \<Rightarrow> ('w, unit) prog" where
  "try_fill run = catchP (thenP run (returnP ())) (\<lambda>e. if is_unsupported e then raiseP e else returnP ())"

section \<open>Work that waits for a deferred commit\<close>

record 'w queued =
  q_name :: string
  q_what :: string
  q_policy :: sync_policy
  q_run :: "('w, unit) prog"

text \<open>
  A composed node is its media together with its own queue. The queued operations act
  on the media below the node, never on its queue.
\<close>

type_synonym 'w node = "'w \<times> 'w queued list"

definition syncs_run ::
  "string \<Rightarrow> string \<Rightarrow> sync_policy \<Rightarrow> ('w, unit) prog \<Rightarrow> bool \<Rightarrow> bool \<Rightarrow> ('w node, unit) prog" where
  "syncs_run name what policy op defer before_commit =
     (if defer then (\<lambda>(w, q). (Inr (), w, q @ [\<lparr>q_name = name, q_what = what, q_policy = policy, q_run = op\<rparr>]))
      else on_fst (settle name policy op before_commit))"

definition syncs_pending :: "'w node \<Rightarrow> nat" where
  "syncs_pending n = length (snd n)"

text \<open>\<open>f"{item.what}#{position}:{label}"\<close>.\<close>

definition failure_label :: "string \<Rightarrow> nat \<Rightarrow> string \<Rightarrow> string" where
  "failure_label what position label = what @ ''#'' @ nat_string position @ '':'' @ label"

fun flush_items :: "'w queued list \<Rightarrow> nat \<Rightarrow> (string \<times> exn) list \<Rightarrow> ('w, (string \<times> exn) list) prog" where
  "flush_items [] position failures = returnP failures"
| "flush_items (item # queued) position failures =
     bindP (catchP (mapP (\<lambda>_. failures) (settle (q_name item) (q_policy item) (q_run item) False))
       (\<lambda>e. if is_partial_sync e
            then returnP (dmerge failures (map (\<lambda>(label, e'). (failure_label (q_what item) position label, e')) (failures_of e)))
            else raiseP e))
       (flush_items queued (Suc position))"

definition flush :: "('w node, unit) prog" where
  "flush = (\<lambda>(w, q). case flush_items q 0 [] w of
      (Inl e, w') \<Rightarrow> (Inl e, w', [])
    | (Inr failures, w') \<Rightarrow> (if failures \<noteq> [] then Inl (PartialSyncError failures) else Inr (), w', []))"

definition discard :: "('w node, unit) prog" where
  "discard = (\<lambda>(w, q). (Inr (), w, []))"

end
