(* ===== verification/Topology.thy ===== *)
theory Topology
  imports Targets
begin

text \<open>
  \<open>Topology\<close> of \<open>src/kvtsjl/keymap_algebra/topology.py\<close>: a record's targets, the
  traversals their roles imply, and every operation over them; and the keymap that
  \<open>RecordTopologyMixin\<close> makes of a topology. Operations that may queue work for the
  caller's commit run on a node (the media with the node's own queue), reads on the media.
\<close>

section \<open>Declaration and shape\<close>

record ('w, 'k, 'v) topology =
  tp_targets :: "('w, 'k, 'v) target list"
  tp_parts :: "('w, 'k, 'v) target list"
  tp_assemble :: "((nat \<Rightarrow> 'v option) \<Rightarrow> 'v option) option"

definition all_targets :: "('w, 'k, 'v) topology \<Rightarrow> ('w, 'k, 'v) target list" where
  "all_targets tp = tp_targets tp @ tp_parts tp"

definition by_role :: "('w, 'k, 'v) topology \<Rightarrow> role list \<Rightarrow> ('w, 'k, 'v) target list" where
  "by_role tp roles = concat (map (\<lambda>r. filter (\<lambda>t. t_role t = r) (all_targets tp)) roles)"

definition authority :: "('w, 'k, 'v) topology \<Rightarrow> ('w, 'k, 'v) target option" where
  "authority tp = find (\<lambda>t. t_role t = Authority) (all_targets tp)"

definition whole_authority :: "('w, 'k, 'v) topology \<Rightarrow> ('w, 'k, 'v) target option" where
  "whole_authority tp = find (\<lambda>t. t_role t = Authority) (tp_targets tp)"

definition components :: "('w, 'k, 'v) topology \<Rightarrow> ('w, 'k, 'v) target list" where
  "components tp = filter (\<lambda>t. t_role t = Component) (tp_parts tp)"

definition unanchored_parts :: "('w, 'k, 'v) topology \<Rightarrow> ('w, 'k, 'v) target list" where
  "unanchored_parts tp = filter (\<lambda>t. t_role t \<noteq> Authority) (tp_parts tp)"

definition assembled :: "('w, 'k, 'v) topology \<Rightarrow> bool" where
  "assembled tp \<longleftrightarrow> tp_parts tp \<noteq> []"

definition committing_targets :: "('w, 'k, 'v) topology \<Rightarrow> ('w, 'k, 'v) target list" where
  "committing_targets tp = by_role tp [Component, Authority]"

definition dependents :: "('w, 'k, 'v) topology \<Rightarrow> ('w, 'k, 'v) target list" where
  "dependents tp = by_role tp [Dependent]"

definition anchor :: "('w, 'k, 'v) topology \<Rightarrow> ('w, 'k, 'v) target option" where
  "anchor tp = (case authority tp of Some a \<Rightarrow> Some a
     | None \<Rightarrow> (case components tp of [] \<Rightarrow> None | c # _ \<Rightarrow> Some c))"

definition tp_creates_entries :: "('w, 'k, 'v) topology \<Rightarrow> bool" where
  "tp_creates_entries tp = list_all t_creates_entries (committing_targets tp)"

definition tp_supports_write_clock :: "('w, 'k, 'v) topology \<Rightarrow> bool" where
  "tp_supports_write_clock tp = list_all t_supports_write_clock (committing_targets tp)"

definition deferred :: "('w, 'k, 'v) topology \<Rightarrow> bool" where
  "deferred tp = list_ex t_writes_are_deferred (committing_targets tp)"

definition lookups :: "('w, 'k, 'v) topology \<Rightarrow> ('w, 'k, 'v) target list" where
  "lookups tp = filter (\<lambda>t. t_lookup t = Some BeforeAuthority) (tp_targets tp)
     @ (case whole_authority tp of None \<Rightarrow> [] | Some a \<Rightarrow> [a])
     @ filter (\<lambda>t. t_lookup t = Some AfterAuthority) (tp_targets tp)"

text \<open>\<open>__post_init__\<close>: the declarations that are refused.\<close>

definition new_topology ::
  "('w, 'k, 'v) target list \<Rightarrow> ('w, 'k, 'v) target list \<Rightarrow> ((nat \<Rightarrow> 'v option) \<Rightarrow> 'v option) option
   \<Rightarrow> exn + ('w, 'k, 'v) topology" where
  "new_topology targets parts assemble =
     (let tp = \<lparr>tp_targets = targets, tp_parts = parts, tp_assemble = assemble\<rparr>;
          authorities = filter (\<lambda>t. t_role t = Authority) (all_targets tp);
          uncreating = filter (\<lambda>t. \<not> t_creates_entries t) (committing_targets tp)
      in if length authorities > 1 then Inl ValueError
         else if list_ex (\<lambda>t. t_role t = Component) targets then Inl ValueError
         else if list_ex (\<lambda>t. t_role t = Fallback) parts then Inl ValueError
         else if authorities = [] \<and> list_ex (\<lambda>t. t_role t = Dependent) parts then Inl ValueError
         else if authorities = [] \<and> parts = [] then Inl ValueError
         else if authorities = [] \<and> list_ex (\<lambda>t. t_role t = Fallback) targets then Inl ValueError
         else if uncreating \<noteq> [] \<and> length uncreating < length (committing_targets tp) then Inl ValueError
         else if (parts \<noteq> []) \<noteq> (assemble \<noteq> None) then Inl ValueError
         else if parts \<noteq> [] \<and> list_ex (\<lambda>t. t_lookup t \<notin> {None, Some Never}) targets then Inl ValueError
         else Inr tp)"

definition require_authority :: "('w, 'k, 'v) topology \<Rightarrow> ('u, ('w, 'k, 'v) target) prog" where
  "require_authority tp = (case authority tp of None \<Rightarrow> raiseP KvStoreUnsupported | Some a \<Rightarrow> returnP a)"

definition require_whole :: "('w, 'k, 'v) topology \<Rightarrow> ('u, ('w, 'k, 'v) target) prog" where
  "require_whole tp = (case whole_authority tp of None \<Rightarrow> raiseP NotImplementedError | Some a \<Rightarrow> returnP a)"

section \<open>After the commit point\<close>

definition sync_one ::
  "('w, 'k, 'v) topology \<Rightarrow> ('w, 'k, 'v) target \<Rightarrow> string \<Rightarrow> ('w, 'a) prog \<Rightarrow> sync_policy option \<Rightarrow> ('w node, unit) prog" where
  "sync_one tp t what run policy = syncs_run (t_name t) what (case policy of None \<Rightarrow> t_policy t | Some p \<Rightarrow> p)
     (thenP run (returnP ())) (deferred tp \<and> \<not> t_writes_are_deferred t) (deferred tp)"

definition to_dependents ::
  "('w, 'k, 'v) topology \<Rightarrow> string \<Rightarrow> (('w, 'k, 'v) target \<Rightarrow> ('w, 'a) prog) \<Rightarrow> sync_policy option \<Rightarrow> ('w node, unit) prog" where
  "to_dependents tp what op' policy = iterP (\<lambda>t. sync_one tp t what (op' t) policy) (dependents tp)"

section \<open>Writes\<close>

definition topo_write :: "('w, 'k, 'v) topology \<Rightarrow> 'k \<Rightarrow> 'v \<Rightarrow> write_options \<Rightarrow> ('w node, unit) prog" where
  "topo_write tp key value o' =
     thenP (iterP (\<lambda>t. on_fst (committing (t_name t) (t_role t) (t_write t key value (receives t o')))) (committing_targets tp))
       (to_dependents tp ''set'' (\<lambda>t. t_write t key value (receives t o')) None)"

definition topo_batch_write :: "('w, 'k, 'v) topology \<Rightarrow> ('k, 'v) dict \<Rightarrow> write_options \<Rightarrow> ('w node, unit) prog" where
  "topo_batch_write tp items o' = (if items = [] then returnP () else
     thenP (iterP (\<lambda>t. on_fst (committing (t_name t) (t_role t) (t_batch_write t items (receives t o')))) (committing_targets tp))
       (to_dependents tp ''batch set'' (\<lambda>t. t_batch_write t items (receives t o')) None))"

text \<open>\<open>_by_clock\<close>, \<open>_changed\<close>, \<open>_received\<close>, \<open>_clock\<close>.\<close>

fun by_clock ::
  "('k, 'v) dict \<Rightarrow> ('k, 'v cond_write) dict \<Rightarrow> (time option, ('k, 'v) dict) dict \<Rightarrow> (time option, ('k, 'v) dict) dict" where
  "by_clock [] writes groups = groups"
| "by_clock ((k, v) # values) writes groups =
     (let clock = cw_created_at (the (dget writes k));
          group = (case dget groups clock of None \<Rightarrow> [] | Some g \<Rightarrow> g)
      in by_clock values writes (dput clock (dput k v group) groups))"

definition changed :: "('w, 'k, 'v) target \<Rightarrow> ('k, 'v) dict \<Rightarrow> ('k, 'v cond_write) dict \<Rightarrow> ('k, 'v) dict" where
  "changed t puts writes = dfilter (\<lambda>k v. let seen = cw_seen (the (dget writes k)) in
     seen_value seen = None \<or> seen_version seen = None \<or> \<not> t_holds_same t (the (seen_value seen)) v) puts"

definition received :: "('w, 'k, 'v) target \<Rightarrow> ('k, 'v cond_write) dict \<Rightarrow> ('k, 'v cond_write) dict" where
  "received t writes = (if t_supports_write_clock t then writes
     else dmap (\<lambda>_ w. ConditionalWrite (cw_seen w) (cw_change w) None) writes)"

definition clock_of :: "record_stat option \<Rightarrow> time option" where
  "clock_of meta = (case meta of None \<Rightarrow> None | Some m \<Rightarrow> write_clock m)"

text \<open>\<open>{k: w.change.value for k, w in writes.items() if isinstance(w.change, Put)}\<close>.\<close>

fun put_value :: "'v change \<Rightarrow> 'v option" where
  "put_value (Put v) = Some v"
| "put_value Remove = None"

definition puts_of :: "('k, 'v cond_write) dict \<Rightarrow> ('k, 'v) dict" where
  "puts_of writes = dmap (\<lambda>_ w. the (put_value (cw_change w)))
     (dfilter (\<lambda>_ w. put_value (cw_change w) \<noteq> None) writes)"

definition removed_now :: "('w, 'k, 'v) topology \<Rightarrow> ('w, 'k, 'v) target list" where
  "removed_now tp = (case authority tp of Some a \<Rightarrow> [a] | None \<Rightarrow> components tp)"

definition removed_after_commit :: "('w, 'k, 'v) topology \<Rightarrow> ('w, 'k, 'v) target list" where
  "removed_after_commit tp = (if authority tp = None then dependents tp else components tp @ dependents tp)"

text \<open>The batches of one target, one per write clock.\<close>

definition clocked_batches ::
  "('w, 'k, 'v) target \<Rightarrow> ('k, 'v) dict \<Rightarrow> ('k, 'v cond_write) dict \<Rightarrow> write_options \<Rightarrow> ('w, unit) prog list" where
  "clocked_batches t values writes o' = map (\<lambda>(clock, items).
     t_batch_write t items (receives t \<lparr>wo_ttl = wo_ttl o', wo_created_at = clock\<rparr>)) (by_clock values writes [])"

definition topo_batch_write_if_unchanged ::
  "('w, 'k, 'v) topology \<Rightarrow> ('k, 'v cond_write) dict \<Rightarrow> write_options \<Rightarrow> ('w node, 'k set) prog" where
  "topo_batch_write_if_unchanged tp writes o' = bindP (require_authority tp) (\<lambda>auth.
     let puts = puts_of writes in
     if list_ex (\<lambda>t. list_ex (\<lambda>k. seen_version (cw_seen (the (dget writes k))) \<noteq> None) (dkeys (changed t puts writes))) (components tp)
     then raiseP KvStoreUnsupported
     else thenP (iterP (\<lambda>t. iterP (\<lambda>run. on_fst (committing (t_name t) (t_role t) run))
                   (clocked_batches t (changed t puts writes) writes o')) (components tp))
       (bindP (on_fst (committing (t_name auth) (t_role auth)
                 (t_batch_write_if_unchanged auth (received auth writes) o'))) (\<lambda>written.
          let removed = filter (\<lambda>k. k \<in> written \<and> dget puts k = None) (dkeys writes);
              stored = dfilter (\<lambda>k _. k \<in> written) puts
          in thenP (if removed \<noteq> []
                 then iterP (\<lambda>t. sync_one tp t ''batch delete'' (t_batch_delete t removed) None) (removed_after_commit tp)
                 else returnP ())
            (thenP (iterP (\<lambda>t. iterP (\<lambda>run. sync_one tp t ''batch set'' run None)
                   (clocked_batches t (changed t stored writes) writes o')) (dependents tp))
               (returnP written)))))"

section \<open>Removals\<close>

definition topo_remove ::
  "('w, 'k, 'v) topology \<Rightarrow> 'k \<Rightarrow> string \<Rightarrow> (('w, 'k, 'v) target \<Rightarrow> 'k \<Rightarrow> ('w, bool) prog) \<Rightarrow> ('w node, bool) prog" where
  "topo_remove tp key what op' =
     bindP (collectP (\<lambda>t. on_fst (op' t key)) (removed_now tp)) (\<lambda>removed.
       thenP (iterP (\<lambda>t. sync_one tp t what (op' t key) None) (removed_after_commit tp))
         (returnP (if authority tp \<noteq> None then hd removed else list_ex id removed)))"

definition topo_delete :: "('w, 'k, 'v) topology \<Rightarrow> 'k \<Rightarrow> ('w node, bool) prog" where
  "topo_delete tp key = topo_remove tp key ''delete'' t_delete"

definition topo_unset :: "('w, 'k, 'v) topology \<Rightarrow> 'k \<Rightarrow> ('w node, bool) prog" where
  "topo_unset tp key = topo_remove tp key ''unset'' t_unset"

definition topo_batch_remove ::
  "('w, 'k, 'v) topology \<Rightarrow> 'k list \<Rightarrow> string \<Rightarrow> (('w, 'k, 'v) target \<Rightarrow> 'k list \<Rightarrow> ('w, int) prog)
   \<Rightarrow> sync_policy option \<Rightarrow> ('w node, int) prog" where
  "topo_batch_remove tp keys what op' policy = (if keys = [] then returnP 0 else
     let unique = fromkeys keys in
     bindP (if authority tp = None
            then foldP (\<lambda>t held. mapP (\<lambda>s. held \<union> s) (on_fst (t_batch_exists t unique))) (components tp) {}
            else returnP {}) (\<lambda>held.
       bindP (collectP (\<lambda>t. on_fst (op' t unique)) (removed_now tp)) (\<lambda>counts.
         thenP (iterP (\<lambda>t. sync_one tp t what (op' t unique) policy) (removed_after_commit tp))
           (returnP (if authority tp \<noteq> None then hd counts else int (card held))))))"

definition topo_batch_delete ::
  "('w, 'k, 'v) topology \<Rightarrow> 'k list \<Rightarrow> sync_policy option \<Rightarrow> ('w node, int) prog" where
  "topo_batch_delete tp keys policy = topo_batch_remove tp keys ''batch delete'' t_batch_delete policy"

definition topo_batch_unset :: "('w, 'k, 'v) topology \<Rightarrow> 'k list \<Rightarrow> ('w node, int) prog" where
  "topo_batch_unset tp keys = topo_batch_remove tp keys ''batch unset'' t_batch_unset None"

text \<open>
  \<open>gc\<close>: what the authority and each component collect, then what each dependent that
  expires on its own collects.
\<close>

fun gc_committing ::
  "int \<Rightarrow> ('w, 'k, 'v) target list \<Rightarrow> 'k list \<Rightarrow> 'k list \<Rightarrow> ('w node, 'k list \<times> 'k list) prog" where
  "gc_committing max_entries [] expired collected = returnP (expired, collected)"
| "gc_committing max_entries (t # ts) expired collected =
     bindP (on_fst (t_gc t max_entries)) (\<lambda>keys.
       gc_committing max_entries ts (if t_role t = Authority then keys else expired) (fromkeys (collected @ keys)))"

fun gc_dependents :: "int \<Rightarrow> ('w, 'k, 'v) target list \<Rightarrow> 'k list \<Rightarrow> ('w node, 'k list) prog" where
  "gc_dependents max_entries [] collected = returnP collected"
| "gc_dependents max_entries (t # ts) collected =
     (if t_expires t
      then bindP (on_fst (settle_into (t_name t) BestEffort (t_gc t max_entries) False [])) (\<lambda>own.
             gc_dependents max_entries ts (fromkeys (collected @ own)))
      else gc_dependents max_entries ts collected)"

definition topo_gc :: "('w, 'k, 'v) topology \<Rightarrow> int \<Rightarrow> sync_policy \<Rightarrow> ('w node, 'k list) prog" where
  "topo_gc tp max_entries policy = (if max_entries < 1 then raiseP ValueError else
     bindP (gc_committing max_entries (by_role tp [Authority, Component]) [] []) (\<lambda>(expired, collected).
       thenP (if expired \<noteq> [] then to_dependents tp ''gc'' (\<lambda>t. t_batch_delete t expired) (Some policy) else returnP ())
         (gc_dependents max_entries (dependents tp) collected)))"

section \<open>Fills\<close>

text \<open>\<open>_STREAM_ORDER\<close>: values flow downstream only.\<close>

fun stream_order :: "role \<Rightarrow> nat" where
  "stream_order Fallback = 0"
| "stream_order Authority = 1"
| "stream_order Component = 1"
| "stream_order Dependent = 2"

definition fillable :: "('w, 'k, 'v) target \<Rightarrow> ('w, 'k, 'v) target list \<Rightarrow> ('w, 'k, 'v) target list" where
  "fillable source consulted =
     filter (\<lambda>t. t_fill t \<and> stream_order (t_role t) > stream_order (t_role source)) consulted"

definition batch_fill ::
  "('k, 'v) dict \<Rightarrow> ('w, 'k, 'v) target \<Rightarrow> ('w, 'k, 'v) target list \<Rightarrow> ('w, unit) prog" where
  "batch_fill hits source consulted = (let into = fillable source consulted in
     if into = [] then returnP ()
     else bindP (if list_ex t_supports_write_clock into then t_batch_stat source (dkeys hits) else returnP []) (\<lambda>stats.
       let writes = dmap (\<lambda>k v. ConditionalWrite absent (Put v) (clock_of (dget stats k))) hits
       in iterP (\<lambda>t. try_fill (t_batch_write_if_unchanged t (received t writes) no_options)) into))"

section \<open>Reads\<close>

definition assemble_record :: "('w, 'k, 'v) topology \<Rightarrow> (nat \<Rightarrow> 'v option) \<Rightarrow> ('u, 'v option) prog" where
  "assemble_record tp held = (case tp_assemble tp of None \<Rightarrow> raiseP AssertionError | Some f \<Rightarrow> returnP (f held))"

fun read_parts :: "('w, 'k, 'v) target list \<Rightarrow> 'k \<Rightarrow> (nat \<Rightarrow> 'v option) \<Rightarrow> ('w, nat \<Rightarrow> 'v option) prog" where
  "read_parts [] key held = returnP held"
| "read_parts (t # ts) key held = bindP (t_read t key) (\<lambda>v. read_parts ts key (held(t_id t := v)))"

definition assemble_one :: "('w, 'k, 'v) topology \<Rightarrow> 'k \<Rightarrow> ('w, 'v option) prog" where
  "assemble_one tp key = (if tp_assemble tp = None then raiseP AssertionError else
     case authority tp of
       None \<Rightarrow> bindP (read_parts (unanchored_parts tp) key (\<lambda>_. None)) (assemble_record tp)
     | Some a \<Rightarrow> bindP (t_read a key) (\<lambda>value. case value of
           None \<Rightarrow> returnP None
         | Some v \<Rightarrow> bindP (read_parts (unanchored_parts tp) key ((\<lambda>_. None)(t_id a \<mapsto> v))) (assemble_record tp)))"

fun batch_read_parts ::
  "('w, 'k, 'v) target list \<Rightarrow> 'k list \<Rightarrow> (nat \<Rightarrow> ('k, 'v) dict) \<Rightarrow> ('w, nat \<Rightarrow> ('k, 'v) dict) prog" where
  "batch_read_parts [] wanted found = returnP found"
| "batch_read_parts (t # ts) wanted found =
     bindP (if wanted \<noteq> [] then t_batch_read t wanted else returnP []) (\<lambda>hits.
       batch_read_parts ts wanted (found(t_id t := hits)))"

definition assemble_all ::
  "((nat \<Rightarrow> 'v option) \<Rightarrow> 'v option) \<Rightarrow> (nat \<Rightarrow> ('k, 'v) dict) \<Rightarrow> 'k list \<Rightarrow> ('k, 'v) dict" where
  "assemble_all assemble found wanted = dict_some (\<lambda>key. assemble (\<lambda>ident. dget (found ident) key)) wanted"

definition assemble_many ::
  "('w, 'k, 'v) topology \<Rightarrow> 'k list \<Rightarrow> ('k, 'v) dict option \<Rightarrow> ('w, ('k, 'v) dict) prog" where
  "assemble_many tp keys anchors = (case tp_assemble tp of None \<Rightarrow> raiseP AssertionError | Some assemble \<Rightarrow>
     if keys = [] then returnP [] else
     let wanted = fromkeys keys in
     case authority tp of
       None \<Rightarrow> bindP (batch_read_parts (unanchored_parts tp) wanted (\<lambda>_. [])) (\<lambda>found.
         returnP (assemble_all assemble found wanted))
     | Some a \<Rightarrow> bindP (case anchors of Some d \<Rightarrow> returnP d | None \<Rightarrow> t_batch_read a wanted) (\<lambda>hits.
         let wanted = filter (\<lambda>k. dget hits k \<noteq> None) wanted in
         bindP (batch_read_parts (unanchored_parts tp) wanted ((\<lambda>_. [])(t_id a := hits))) (\<lambda>found.
           returnP (assemble_all assemble found wanted))))"

fun read_lookups :: "'k \<Rightarrow> ('w, 'k, 'v) target list \<Rightarrow> ('w, 'k, 'v) target list \<Rightarrow> ('w, 'v option) prog" where
  "read_lookups key consulted [] = returnP None"
| "read_lookups key consulted (t # ts) = bindP (t_read t key) (\<lambda>value. case value of
      Some v \<Rightarrow> thenP (batch_fill [(key, v)] t consulted) (returnP (Some v))
    | None \<Rightarrow> read_lookups key (consulted @ [t]) ts)"

definition topo_read :: "('w, 'k, 'v) topology \<Rightarrow> 'k \<Rightarrow> ('w, 'v option) prog" where
  "topo_read tp key = (if assembled tp then assemble_one tp key else read_lookups key [] (lookups tp))"

fun batch_read_lookups ::
  "'k list \<Rightarrow> ('w, 'k, 'v) target list \<Rightarrow> ('w, 'k, 'v) target list \<Rightarrow> ('k, 'v) dict \<Rightarrow> ('w, ('k, 'v) dict) prog" where
  "batch_read_lookups keys consulted [] found = returnP found"
| "batch_read_lookups keys consulted (t # ts) found =
     (let missing = filter (\<lambda>k. dget found k = None) keys in
      if missing = [] then returnP found
      else bindP (t_batch_read t missing) (\<lambda>hits.
        thenP (if hits \<noteq> [] then batch_fill hits t consulted else returnP ())
          (batch_read_lookups keys (consulted @ [t]) ts (dmerge found hits))))"

definition topo_batch_read :: "('w, 'k, 'v) topology \<Rightarrow> 'k list \<Rightarrow> ('w, ('k, 'v) dict) prog" where
  "topo_batch_read tp keys = (if assembled tp then assemble_many tp keys None else batch_read_lookups keys [] (lookups tp) [])"

fun any_exists :: "'k \<Rightarrow> ('w, 'k, 'v) target list \<Rightarrow> ('w, bool) prog" where
  "any_exists key [] = returnP False"
| "any_exists key (t # ts) = bindP (t_exists t key) (\<lambda>b. if b then returnP True else any_exists key ts)"

definition topo_exists :: "('w, 'k, 'v) topology \<Rightarrow> 'k \<Rightarrow> ('w, bool) prog" where
  "topo_exists tp key = (if assembled tp then mapP (\<lambda>v. v \<noteq> None) (topo_read tp key) else any_exists key (lookups tp))"

fun batch_exists_lookups :: "'k list \<Rightarrow> ('w, 'k, 'v) target list \<Rightarrow> 'k set \<Rightarrow> ('w, 'k set) prog" where
  "batch_exists_lookups keys [] found = returnP found"
| "batch_exists_lookups keys (t # ts) found =
     (let missing = filter (\<lambda>k. k \<notin> found) keys in
      if missing = [] then returnP found
      else bindP (t_batch_exists t missing) (\<lambda>s. batch_exists_lookups keys ts (found \<union> s)))"

definition topo_batch_exists :: "('w, 'k, 'v) topology \<Rightarrow> 'k list \<Rightarrow> ('w, 'k set) prog" where
  "topo_batch_exists tp keys = (if assembled tp then mapP (\<lambda>d. set (dkeys d)) (topo_batch_read tp keys)
     else batch_exists_lookups keys (lookups tp) {})"

fun stat_lookups :: "'k \<Rightarrow> ('w, 'k, 'v) target list \<Rightarrow> ('w, record_stat option) prog" where
  "stat_lookups key [] = returnP None"
| "stat_lookups key (t # ts) = bindP (t_stat t key) (\<lambda>meta. case meta of
      Some m \<Rightarrow> returnP (Some m) | None \<Rightarrow> stat_lookups key ts)"

definition topo_stat :: "('w, 'k, 'v) topology \<Rightarrow> 'k \<Rightarrow> ('w, record_stat option) prog" where
  "topo_stat tp key = stat_lookups key (lookups tp)"

fun batch_stat_lookups ::
  "'k list \<Rightarrow> ('w, 'k, 'v) target list \<Rightarrow> ('k, record_stat) dict \<Rightarrow> ('w, ('k, record_stat) dict) prog" where
  "batch_stat_lookups keys [] found = returnP found"
| "batch_stat_lookups keys (t # ts) found =
     (let missing = filter (\<lambda>k. dget found k = None) keys in
      if missing = [] then returnP found
      else bindP (t_batch_stat t missing) (\<lambda>d. batch_stat_lookups keys ts (dmerge found d)))"

definition topo_batch_stat :: "('w, 'k, 'v) topology \<Rightarrow> 'k list \<Rightarrow> ('w, ('k, record_stat) dict) prog" where
  "topo_batch_stat tp keys = batch_stat_lookups keys (lookups tp) []"

section \<open>Versioned reads\<close>

fun fallback_values :: "'k list \<Rightarrow> ('w, 'k, 'v) target list \<Rightarrow> ('k, 'v) dict \<Rightarrow> ('w, ('k, 'v) dict) prog" where
  "fallback_values unique [] values = returnP values"
| "fallback_values unique (t # ts) values =
     (let missing = filter (\<lambda>k. dget values k = None) unique in
      if missing = [] then returnP values
      else bindP (t_batch_read t missing) (\<lambda>d. fallback_values unique ts (dmerge values d)))"

definition present_values :: "('k, 'v versioned) dict \<Rightarrow> ('k, 'v) dict" where
  "present_values seen = dmap (\<lambda>_ s. the (seen_value s)) (dfilter (\<lambda>_ s. seen_value s \<noteq> None) seen)"

definition versioned_as :: "'k list \<Rightarrow> ('k, 'v) dict \<Rightarrow> ('k, 'v versioned) dict \<Rightarrow> ('u, ('k, 'v versioned) dict) prog" where
  "versioned_as unique values seen = (if \<exists>k \<in> set unique. dget seen k = None then raiseP KeyError
     else returnP (dict_of (\<lambda>k. Versioned (dget values k) (seen_version (the (dget seen k)))) unique))"

definition topo_batch_read_versioned ::
  "('w, 'k, 'v) topology \<Rightarrow> 'k list \<Rightarrow> ('w, ('k, 'v versioned) dict) prog" where
  "topo_batch_read_versioned tp keys = (let unique = fromkeys keys in
     if assembled tp then
       bindP (require_authority tp) (\<lambda>a. bindP (t_batch_read_versioned a unique) (\<lambda>seen.
         let anchors = present_values seen in
         bindP (assemble_many tp (dkeys anchors) (Some anchors)) (\<lambda>records. versioned_as unique records seen)))
     else bindP (require_whole tp) (\<lambda>a. bindP (t_batch_read_versioned a unique) (\<lambda>seen.
       bindP (fallback_values unique (filter (\<lambda>t. t_role t = Fallback) (lookups tp)) (present_values seen)) (\<lambda>values.
         versioned_as unique values seen))))"

section \<open>What the fallbacks hold\<close>

fun absent_ahead :: "('w, 'k, 'v) target list \<Rightarrow> 'k list \<Rightarrow> ('w, 'k list) prog" where
  "absent_ahead [] lacking = returnP lacking"
| "absent_ahead (t # ts) lacking = (if lacking = [] then returnP lacking
     else bindP (t_batch_exists t lacking) (\<lambda>held. absent_ahead ts (filter (\<lambda>k. k \<notin> held) lacking)))"

definition fallback_pages ::
  "('w, 'k, 'v) target \<Rightarrow> ('w, 'k, 'v) target list \<Rightarrow> int \<Rightarrow> ('w, ('w, 'k, 'v) missing_pages) prog" where
  "fallback_pages fallback ahead page_size = bindP (t_keys fallback page_size) (\<lambda>keys.
     case iter_chunks keys page_size of None \<Rightarrow> raiseP ValueError
     | Some pages \<Rightarrow> returnP (map (\<lambda>page. mapP (\<lambda>lacking. \<lparr>mp_listed = page, mp_missing = lacking,
         mp_read = t_batch_read fallback, mp_stat = t_batch_stat fallback\<rparr>) (absent_ahead ahead page)) pages))"

fun all_fallback_pages ::
  "('w, 'k, 'v) target list \<Rightarrow> ('w, 'k, 'v) target list \<Rightarrow> int \<Rightarrow> ('w, ('w, 'k, 'v) missing_pages) prog" where
  "all_fallback_pages ahead [] page_size = returnP []"
| "all_fallback_pages ahead (f # fs) page_size = bindP (fallback_pages f ahead page_size) (\<lambda>pages.
     mapP (\<lambda>rest. pages @ rest) (all_fallback_pages (ahead @ [f]) fs page_size))"

definition topo_missing_pages :: "('w, 'k, 'v) topology \<Rightarrow> int \<Rightarrow> ('w, ('w, 'k, 'v) missing_pages) prog" where
  "topo_missing_pages tp page_size = (case whole_authority tp of
      None \<Rightarrow> returnP []
    | Some a \<Rightarrow> bindP (t_missing_pages a page_size) (\<lambda>own.
        mapP (\<lambda>pages. own @ pages)
          (all_fallback_pages [a] (filter (\<lambda>t. t_role t = Fallback) (lookups tp)) page_size)))"

section \<open>A composition as a keymap\<close>

text \<open>\<open>RecordTopologyMixin\<close>; \<open>_admit\<close> is a keymap's, which lets every write pass.\<close>

definition record_keymap :: "('w, 'k, 'v) topology \<Rightarrow> ('w node, 'k, 'v) keymap" where
  "record_keymap tp = \<lparr>
     km_get = \<lambda>k. on_fst (topo_read tp k),
     km_batch_get = \<lambda>ks. on_fst (topo_batch_read tp ks),
     km_exists = \<lambda>k. on_fst (topo_exists tp k),
     km_batch_exists = \<lambda>ks. on_fst (topo_batch_exists tp ks),
     km_stat = default_stat (\<lambda>k. on_fst (topo_exists tp k)),
     km_batch_stat = default_batch_stat (\<lambda>ks. on_fst (topo_batch_exists tp ks)),
     km_batch_read_versioned = \<lambda>ks. on_fst (topo_batch_read_versioned tp ks),
     km_batch_write_if_unchanged = \<lambda>writes ttl. if writes = [] then returnP {}
       else topo_batch_write_if_unchanged tp writes \<lparr>wo_ttl = ttl, wo_created_at = None\<rparr>,
     km_set = topo_write tp,
     km_batch_set = topo_batch_write tp,
     km_delete = topo_delete tp,
     km_batch_delete = \<lambda>ks. topo_batch_delete tp ks None,
     km_unset = topo_unset tp,
     km_batch_unset = topo_batch_unset tp,
     km_creates_entries = tp_creates_entries tp\<rparr>"

end
