(* ===== verification/Topology_Order.thy ===== *)
theory Topology_Order
  imports Topology "HOL-Library.Sublist"
begin

text \<open>
  The order of every operation over a topology, and what a failure says about the
  commit point: laws 1, 2, 8, 9 and 12 of the module docstring of \<open>topology.py\<close>.

  \<open>traced_topology tp\<close> is \<open>tp\<close> over media that also keep a journal: each write,
  conditional write, removal and collection of a target appends one event with the keys
  it was asked about and how it ended. The theorems read the journal of an operation.
\<close>

section \<open>Journals\<close>

datatype op_kind = Wrote | WroteIf | Deleted | Unset | Collected int

datatype 'k event = Event (ev_op: op_kind) (ev_target: nat) (ev_keys: "'k list") (ev_failure: "exn option")

type_synonym ('w, 'k) traced = "'w \<times> 'k event list"

definition failure :: "exn + 'a \<Rightarrow> exn option" where
  "failure r = (case r of Inl e \<Rightarrow> Some e | Inr _ \<Rightarrow> None)"

definition traced_op :: "op_kind \<Rightarrow> nat \<Rightarrow> 'k list \<Rightarrow> ('w, 'a) prog \<Rightarrow> (('w, 'k) traced, 'a) prog" where
  "traced_op kind ident keys m = (\<lambda>(w, log). case m w of
     (r, w') \<Rightarrow> (r, w', log @ [Event kind ident keys (failure r)]))"

definition traced_page :: "('w, 'k, 'v) missing_page \<Rightarrow> (('w, 'k) traced, 'k, 'v) missing_page" where
  "traced_page p = \<lparr>mp_listed = mp_listed p, mp_missing = mp_missing p,
     mp_read = \<lambda>ks. on_fst (mp_read p ks), mp_stat = \<lambda>ks. on_fst (mp_stat p ks)\<rparr>"

definition traced_target :: "('w, 'k, 'v) target \<Rightarrow> (('w, 'k) traced, 'k, 'v) target" where
  "traced_target t = \<lparr>t_id = t_id t, t_name = t_name t, t_role = t_role t, t_lookup = t_lookup t,
     t_fill = t_fill t, t_policy = t_policy t,
     t_write = \<lambda>k v o'. traced_op Wrote (t_id t) [k] (t_write t k v o'),
     t_batch_read_versioned = \<lambda>ks. on_fst (t_batch_read_versioned t ks),
     t_batch_write_if_unchanged = \<lambda>writes o'.
       traced_op WroteIf (t_id t) (dkeys writes) (t_batch_write_if_unchanged t writes o'),
     t_holds_same = t_holds_same t,
     t_batch_write = \<lambda>items o'. traced_op Wrote (t_id t) (dkeys items) (t_batch_write t items o'),
     t_delete = \<lambda>k. traced_op Deleted (t_id t) [k] (t_delete t k),
     t_batch_delete = \<lambda>ks. traced_op Deleted (t_id t) ks (t_batch_delete t ks),
     t_unset = \<lambda>k. traced_op Unset (t_id t) [k] (t_unset t k),
     t_batch_unset = \<lambda>ks. traced_op Unset (t_id t) ks (t_batch_unset t ks),
     t_read = \<lambda>k. on_fst (t_read t k), t_batch_read = \<lambda>ks. on_fst (t_batch_read t ks),
     t_exists = \<lambda>k. on_fst (t_exists t k), t_batch_exists = \<lambda>ks. on_fst (t_batch_exists t ks),
     t_stat = \<lambda>k. on_fst (t_stat t k), t_batch_stat = \<lambda>ks. on_fst (t_batch_stat t ks),
     t_keys = \<lambda>n. on_fst (t_keys t n),
     t_missing_pages = \<lambda>n. mapP (map (\<lambda>m. mapP traced_page (on_fst m))) (on_fst (t_missing_pages t n)),
     t_supports_write_clock = t_supports_write_clock t, t_expires = t_expires t,
     t_gc = \<lambda>n. traced_op (Collected n) (t_id t) [] (t_gc t n),
     t_writes_are_deferred = t_writes_are_deferred t, t_creates_entries = t_creates_entries t\<rparr>"

definition traced_topology :: "('w, 'k, 'v) topology \<Rightarrow> (('w, 'k) traced, 'k, 'v) topology" where
  "traced_topology tp = \<lparr>tp_targets = map traced_target (tp_targets tp),
     tp_parts = map traced_target (tp_parts tp), tp_assemble = tp_assemble tp\<rparr>"

lemma traced_target_simps [simp]:
  "t_id (traced_target t) = t_id t" "t_name (traced_target t) = t_name t"
  "t_role (traced_target t) = t_role t" "t_lookup (traced_target t) = t_lookup t"
  "t_policy (traced_target t) = t_policy t" "t_fill (traced_target t) = t_fill t"
  "t_supports_write_clock (traced_target t) = t_supports_write_clock t"
  "t_writes_are_deferred (traced_target t) = t_writes_are_deferred t"
  "t_holds_same (traced_target t) = t_holds_same t" "t_expires (traced_target t) = t_expires t"
  "t_write (traced_target t) k v o' = traced_op Wrote (t_id t) [k] (t_write t k v o')"
  "t_batch_write (traced_target t) items o' = traced_op Wrote (t_id t) (dkeys items) (t_batch_write t items o')"
  "t_batch_write_if_unchanged (traced_target t) writes o' =
     traced_op WroteIf (t_id t) (dkeys writes) (t_batch_write_if_unchanged t writes o')"
  "t_delete (traced_target t) k = traced_op Deleted (t_id t) [k] (t_delete t k)"
  "t_batch_delete (traced_target t) ks = traced_op Deleted (t_id t) ks (t_batch_delete t ks)"
  "t_unset (traced_target t) k = traced_op Unset (t_id t) [k] (t_unset t k)"
  "t_batch_unset (traced_target t) ks = traced_op Unset (t_id t) ks (t_batch_unset t ks)"
  "t_gc (traced_target t) n = traced_op (Collected n) (t_id t) [] (t_gc t n)"
  "receives (traced_target t) o' = receives t o'"
  by (simp_all add: traced_target_def receives_def)

lemma all_targets_traced [simp]: "all_targets (traced_topology tp) = map traced_target (all_targets tp)"
  by (simp add: all_targets_def traced_topology_def)

lemma filter_map_traced: "filter P (map traced_target ts) = map traced_target (filter (\<lambda>t. P (traced_target t)) ts)"
  by (simp add: filter_map comp_def)

lemma by_role_traced [simp]: "by_role (traced_topology tp) roles = map traced_target (by_role tp roles)"
  by (simp add: by_role_def filter_map_traced map_concat comp_def)

lemma find_map_traced: "find P (map traced_target ts) = map_option traced_target (find (\<lambda>t. P (traced_target t)) ts)"
  by (induction ts) auto

lemma components_traced [simp]: "components (traced_topology tp) = map traced_target (components tp)"
  by (simp add: components_def traced_topology_def filter_map_traced)

lemma committing_targets_traced [simp]:
  "committing_targets (traced_topology tp) = map traced_target (committing_targets tp)"
  by (simp add: committing_targets_def)

lemma dependents_traced [simp]: "dependents (traced_topology tp) = map traced_target (dependents tp)"
  by (simp add: dependents_def)

lemma authority_traced [simp]: "authority (traced_topology tp) = map_option traced_target (authority tp)"
  by (simp only: authority_def all_targets_traced find_map_traced traced_target_simps)

lemma deferred_traced [simp]: "deferred (traced_topology tp) = deferred tp"
  by (simp add: deferred_def list_ex_iff)

lemma removed_traced [simp]:
  "removed_now (traced_topology tp) = map traced_target (removed_now tp)"
  "removed_after_commit (traced_topology tp) = map traced_target (removed_after_commit tp)"
  by (simp_all add: removed_now_def removed_after_commit_def split: option.splits)

lemma traced_op_run:
  "traced_op kind ident keys m (w, log) = (case m w of (r, w') \<Rightarrow> (r, w', log @ [Event kind ident keys (failure r)]))"
  by (simp add: traced_op_def)

lemma failure_simps [simp]: "failure (Inl e) = Some e" "failure (Inr a) = None"
  by (simp_all add: failure_def)

lemma iterP_map: "iterP f (map g xs) = iterP (\<lambda>x. f (g x)) xs"
  by (induction xs) simp_all

lemma collectP_map: "collectP f (map g xs) = collectP (\<lambda>x. f (g x)) xs"
  by (induction xs) simp_all

lemma iterP_nested:
  "iterP (\<lambda>t. iterP (g t) (h t)) ts = iterP (\<lambda>(t, y). g t y) (concat (map (\<lambda>t. map (Pair t) (h t)) ts))"
  by (induction ts) (simp_all add: iterP_append iterP_map)

section \<open>The two phases\<close>

text \<open>
  Before and at the commit point: the items in order, up to the first that fails. An
  item \<open>x\<close> is a call on the target \<open>tg x\<close> about the keys \<open>ks x\<close>.
\<close>

lemma commit_phase:
  assumes "iterP (\<lambda>x. on_fst (committing (t_name (tg x)) (t_role (tg x)) (traced_op kind (t_id (tg x)) (ks x) (op' x))))
      xs ((w, log), q) = (r, (w', log'), q')"
  shows "q' = q \<and>
    ((r = Inr () \<and> log' = log @ map (\<lambda>x. Event kind (t_id (tg x)) (ks x) None) xs)
     \<or> (\<exists>pre x post e. xs = pre @ x # post \<and> r = Inl (committing_failure (t_name (tg x)) (t_role (tg x)) e)
        \<and> log' = log @ map (\<lambda>x. Event kind (t_id (tg x)) (ks x) None) pre @ [Event kind (t_id (tg x)) (ks x) (Some e)]))"
  using assms
proof (induction xs arbitrary: w log)
  case (Cons x xs)
  obtain a w1 where run: "op' x w = (a, w1)" by fastforce
  show ?case
  proof (cases a)
    case (Inl e)
    with run Cons.prems show ?thesis
      by (auto simp: committing_run traced_op_run thenP_run intro!: exI [of _ "[]"])
  next
    case (Inr b)
    let ?f = "\<lambda>x. on_fst (committing (t_name (tg x)) (t_role (tg x)) (traced_op kind (t_id (tg x)) (ks x) (op' x)))"
    have "?f x ((w, log), q) = (Inr b, ((w1, log @ [Event kind (t_id (tg x)) (ks x) None]), q))"
      using run Inr by (simp add: committing_run traced_op_run)
    with Cons.prems have "iterP ?f xs ((w1, log @ [Event kind (t_id (tg x)) (ks x) None]), q) = (r, (w', log'), q')"
      by (simp only: iterP.simps thenP_Inr)
    from Cons.IH [OF this] show ?thesis
    proof (elim conjE disjE exE)
      fix pre y post e
      assume "q' = q" and *: "xs = pre @ y # post" "r = Inl (committing_failure (t_name (tg y)) (t_role (tg y)) e)"
        "log' = (log @ [Event kind (t_id (tg x)) (ks x) None]) @
           map (\<lambda>x. Event kind (t_id (tg x)) (ks x) None) pre @ [Event kind (t_id (tg y)) (ks y) (Some e)]"
      then show ?thesis
        by (intro conjI disjI2 exI [of _ "x # pre"] exI [of _ y] exI [of _ post] exI [of _ e]) simp_all
    qed simp
  qed
qed simp

text \<open>
  After it: an item waits in the queue when the commit is the caller's and its target is
  durable at once, and otherwise runs now. A failure is tolerated under \<open>BestEffort\<close>
  unless it is an \<open>Unsupported\<close>; any other stops the operation.
\<close>

definition waits :: "('w, 'k, 'v) topology \<Rightarrow> ('w, 'k, 'v) target \<Rightarrow> bool" where
  "waits tp t \<longleftrightarrow> deferred tp \<and> \<not> t_writes_are_deferred t"

definition policy_for :: "sync_policy option \<Rightarrow> ('w, 'k, 'v) target \<Rightarrow> sync_policy" where
  "policy_for policy t = (case policy of None \<Rightarrow> t_policy t | Some p \<Rightarrow> p)"

definition tolerated :: "sync_policy \<Rightarrow> 'k event \<Rightarrow> bool" where
  "tolerated policy ev \<longleftrightarrow> (\<forall>e. ev_failure ev = Some e \<longrightarrow> policy = BestEffort \<and> \<not> is_unsupported e)"

definition settled ::
  "op_kind \<Rightarrow> ('x \<Rightarrow> ('w, 'k, 'v) target) \<Rightarrow> ('x \<Rightarrow> 'k list) \<Rightarrow> sync_policy option \<Rightarrow> 'x \<Rightarrow> 'k event \<Rightarrow> bool" where
  "settled kind tg ks policy x ev \<longleftrightarrow> ev_op ev = kind \<and> ev_target ev = t_id (tg x) \<and> ev_keys ev = ks x
     \<and> tolerated (policy_for policy (tg x)) ev"

lemma sync_one_now:
  assumes "\<not> waits tp t" "m w = (a, w1)"
  shows "sync_one tp t what m policy (w, q) = (case a of Inr _ \<Rightarrow> (Inr (), w1, q)
     | Inl e \<Rightarrow> (case settle_failure (t_name t) (policy_for policy t) (deferred tp) e of
          None \<Rightarrow> (Inr (), w1, q) | Some e' \<Rightarrow> (Inl e', w1, q)))"
  using assms
  by (auto simp: sync_one_def syncs_run_def waits_def policy_for_def settle_run thenP_run
      split: sum.splits option.splits)

lemma sync_one_waits:
  "waits tp t \<Longrightarrow> \<exists>item. q_name item = t_name t \<and> sync_one tp t what m policy (w, q) = (Inr (), w, q @ [item])"
  by (simp add: sync_one_def syncs_run_def waits_def)

lemma after_phase:
  assumes "iterP (\<lambda>x. sync_one (traced_topology tp) (traced_target (tg x)) what
        (traced_op kind (t_id (tg x)) (ks x) (op' x)) policy) xs ((w, log), q) = (r, (w', log'), q')"
  shows "\<exists>evs items.
    (r = Inr () \<and> log' = log @ evs \<and> list_all2 (settled kind tg ks policy) (filter (\<lambda>x. \<not> waits tp (tg x)) xs) evs
       \<and> q' = q @ items \<and> map q_name items = map (t_name \<circ> tg) (filter (\<lambda>x. waits tp (tg x)) xs))
    \<or> (\<exists>pre x post e e'. xs = pre @ x # post \<and> \<not> waits tp (tg x)
       \<and> log' = log @ evs @ [Event kind (t_id (tg x)) (ks x) (Some e)]
       \<and> list_all2 (settled kind tg ks policy) (filter (\<lambda>x. \<not> waits tp (tg x)) pre) evs
       \<and> settle_failure (t_name (tg x)) (policy_for policy (tg x)) (deferred tp) e = Some e' \<and> r = Inl e'
       \<and> q' = q @ items \<and> map q_name items = map (t_name \<circ> tg) (filter (\<lambda>x. waits tp (tg x)) pre))"
  using assms
proof (induction xs arbitrary: w log q)
  case Nil
  then show ?case by (intro exI [of _ "[]"]) simp
next
  case (Cons x xs)
  let ?f = "\<lambda>x. sync_one (traced_topology tp) (traced_target (tg x)) what (traced_op kind (t_id (tg x)) (ks x) (op' x)) policy"
  have waits_traced: "waits (traced_topology tp) (traced_target t) = waits tp t"
    and policy_traced: "policy_for policy (traced_target t) = policy_for policy t" for t
    by (simp_all add: waits_def policy_for_def split: option.splits)
  show ?case
  proof (cases "waits tp (tg x)")
    case True
    with waits_traced obtain item where item: "q_name item = t_name (tg x)" "?f x ((w, log), q) = (Inr (), (w, log), q @ [item])"
      using sync_one_waits [of "traced_topology tp" "traced_target (tg x)"] by (metis traced_target_simps(2))
    with Cons.prems have "iterP ?f xs ((w, log), q @ [item]) = (r, (w', log'), q')" by simp
    from Cons.IH [OF this] show ?thesis
    proof (elim exE disjE conjE)
      fix evs items
      assume "r = Inr ()" "log' = log @ evs"
        "list_all2 (settled kind tg ks policy) (filter (\<lambda>x. \<not> waits tp (tg x)) xs) evs"
        "q' = (q @ [item]) @ items" "map q_name items = map (t_name \<circ> tg) (filter (\<lambda>x. waits tp (tg x)) xs)"
      with True item show ?thesis by (intro exI [of _ evs] exI [of _ "item # items"]) simp
    next
      fix evs items pre y post e e'
      assume "xs = pre @ y # post" "\<not> waits tp (tg y)" "log' = log @ evs @ [Event kind (t_id (tg y)) (ks y) (Some e)]"
        "list_all2 (settled kind tg ks policy) (filter (\<lambda>x. \<not> waits tp (tg x)) pre) evs"
        "settle_failure (t_name (tg y)) (policy_for policy (tg y)) (deferred tp) e = Some e'" "r = Inl e'"
        "q' = (q @ [item]) @ items" "map q_name items = map (t_name \<circ> tg) (filter (\<lambda>x. waits tp (tg x)) pre)"
      with True item show ?thesis
        by (intro exI [of _ evs] exI [of _ "item # items"] disjI2 exI [of _ "x # pre"] exI [of _ y] exI [of _ post]
            exI [of _ e] exI [of _ e']) simp
    qed
  next
    case False
    obtain a w1 where run: "op' x w = (a, w1)" by fastforce
    let ?ev = "Event kind (t_id (tg x)) (ks x) (failure a)"
    have tr: "traced_op kind (t_id (tg x)) (ks x) (op' x) (w, log) = (a, w1, log @ [?ev])"
      using run by (simp add: traced_op_run)
    have step: "?f x ((w, log), q) = (case a of Inr _ \<Rightarrow> (Inr (), (w1, log @ [?ev]), q)
       | Inl e \<Rightarrow> (case settle_failure (t_name (tg x)) (policy_for policy (tg x)) (deferred tp) e of
            None \<Rightarrow> (Inr (), (w1, log @ [?ev]), q) | Some e' \<Rightarrow> (Inl e', (w1, log @ [?ev]), q)))"
      using sync_one_now [where tp = "traced_topology tp" and t = "traced_target (tg x)" and w = "(w, log)" and a = a
          and m = "traced_op kind (t_id (tg x)) (ks x) (op' x)" and ?w1.0 = "(w1, log @ [?ev])" and policy = policy
          and what = what and q = q, unfolded waits_traced policy_traced traced_target_simps deferred_traced, OF False tr] .
    show ?thesis
    proof (cases "\<exists>e e'. a = Inl e \<and> settle_failure (t_name (tg x)) (policy_for policy (tg x)) (deferred tp) e = Some e'")
      case True
      then obtain e e' where e: "a = Inl e" "settle_failure (t_name (tg x)) (policy_for policy (tg x)) (deferred tp) e = Some e'"
        by blast
      with step Cons.prems have "r = Inl e'" "log' = log @ [Event kind (t_id (tg x)) (ks x) (Some e)]" "q' = q" by auto
      with e False show ?thesis
        by (intro exI [of _ "[]"] disjI2 exI [of _ "[]"] exI [of _ x] exI [of _ xs] exI [of _ e] exI [of _ e']) simp
    next
      case tol: False
      then have st: "?f x ((w, log), q) = (Inr (), (w1, log @ [?ev]), q)"
        using step by (auto split: sum.splits option.splits)
      have settled: "settled kind tg ks policy x ?ev"
        using tol by (cases a) (auto simp: settled_def tolerated_def settle_failure_def split: if_splits)
      from st Cons.prems have "iterP ?f xs ((w1, log @ [?ev]), q) = (r, (w', log'), q')" by simp
      from Cons.IH [OF this] show ?thesis
      proof (elim exE disjE conjE)
        fix evs items
        assume "r = Inr ()" "log' = (log @ [?ev]) @ evs"
          "list_all2 (settled kind tg ks policy) (filter (\<lambda>x. \<not> waits tp (tg x)) xs) evs"
          "q' = q @ items" "map q_name items = map (t_name \<circ> tg) (filter (\<lambda>x. waits tp (tg x)) xs)"
        with False settled show ?thesis by (intro exI [of _ "?ev # evs"] exI [of _ items]) simp
      next
        fix evs items pre y post e e'
        assume "xs = pre @ y # post" "\<not> waits tp (tg y)" "log' = (log @ [?ev]) @ evs @ [Event kind (t_id (tg y)) (ks y) (Some e)]"
          "list_all2 (settled kind tg ks policy) (filter (\<lambda>x. \<not> waits tp (tg x)) pre) evs"
          "settle_failure (t_name (tg y)) (policy_for policy (tg y)) (deferred tp) e = Some e'" "r = Inl e'"
          "q' = q @ items" "map q_name items = map (t_name \<circ> tg) (filter (\<lambda>x. waits tp (tg x)) pre)"
        with False settled show ?thesis
          by (intro exI [of _ "?ev # evs"] exI [of _ items] disjI2 exI [of _ "x # pre"] exI [of _ y] exI [of _ post]
              exI [of _ e] exI [of _ e']) simp
      qed
    qed
  qed
qed

section \<open>Valid declarations\<close>

definition valid_topology :: "('w, 'k, 'v) topology \<Rightarrow> bool" where
  "valid_topology tp \<longleftrightarrow> new_topology (tp_targets tp) (tp_parts tp) (tp_assemble tp) = Inr tp"

lemma new_topology_is:
  "new_topology targets parts assemble = Inr tp \<Longrightarrow> tp = \<lparr>tp_targets = targets, tp_parts = parts, tp_assemble = assemble\<rparr>"
  unfolding new_topology_def Let_def by (simp split: if_split_asm)

lemma new_topology_valid: "new_topology targets parts assemble = Inr tp \<Longrightarrow> valid_topology tp"
  using new_topology_is [of targets parts assemble tp] by (simp add: valid_topology_def)

lemma one_authority: "valid_topology tp \<Longrightarrow> length (filter (\<lambda>t. t_role t = Authority) (all_targets tp)) \<le> 1"
  by (rule ccontr) (simp add: valid_topology_def new_topology_def Let_def all_targets_def)

lemma committing_roles:
  "committing_targets tp = filter (\<lambda>t. t_role t = Component) (all_targets tp) @ filter (\<lambda>t. t_role t = Authority) (all_targets tp)"
  by (simp add: committing_targets_def by_role_def)

text \<open>The commit point is the last of the committing targets.\<close>

lemma authority_last:
  assumes "valid_topology tp" "committing_targets tp = pre @ t # post" "t_role t = Authority"
  shows "post = []"
proof (rule ccontr)
  let ?A = "filter (\<lambda>t. t_role t = Authority) (all_targets tp)"
  assume "post \<noteq> []"
  have "filter (\<lambda>t. t_role t = Authority) (committing_targets tp) = ?A"
    by (simp add: committing_roles filter_empty_conv)
  with assms(2,3) have A: "?A = filter (\<lambda>t. t_role t = Authority) pre @ t # filter (\<lambda>t. t_role t = Authority) post" by simp
  have "last (committing_targets tp) = last post" using assms(2) \<open>post \<noteq> []\<close> by simp
  moreover have "?A \<noteq> []" using A by simp
  moreover from this have "last (committing_targets tp) = last ?A" by (simp add: committing_roles)
  moreover have "last ?A \<in> set ?A" using \<open>?A \<noteq> []\<close> by (rule last_in_set)
  ultimately have "t_role (last post) = Authority" by simp
  with \<open>post \<noteq> []\<close> have "filter (\<lambda>t. t_role t = Authority) post \<noteq> []" using last_in_set by (fastforce simp: filter_empty_conv)
  with A have "length ?A > 1" by (cases "filter (\<lambda>t. t_role t = Authority) post") auto
  with one_authority [OF assms(1)] show False by simp
qed

section \<open>Which side of the commit point\<close>

text \<open>
  The journal shows the commit point passed: every committing target was written, or is
  the authority and itself reported that its record is committed.
\<close>

definition commit_reached :: "('w, 'k, 'v) topology \<Rightarrow> 'k event list \<Rightarrow> bool" where
  "commit_reached tp log \<longleftrightarrow> length (committing_targets tp) \<le> length log \<and>
     list_all (\<lambda>(t, ev). case ev_failure ev of None \<Rightarrow> True | Some e \<Rightarrow> t_role t = Authority \<and> is_partial_sync e)
       (zip (committing_targets tp) log)"

text \<open>
  What the laws say of an operation that writes the committing targets and then the
  dependents: the calls follow the traversal; nothing is derived, and nothing queued,
  unless every committing write succeeded; when it returns, every target was visited or
  waits in the queue, and what failed was tolerated; when it raises, the exception is a
  \<open>RecordWriteError\<close> on the right side of the commit point, which is never the far side
  when the commit is still the caller's to make.
\<close>

definition commit_ordered ::
  "('w, 'k, 'v) topology \<Rightarrow> op_kind \<Rightarrow> 'k list \<Rightarrow> exn + unit \<Rightarrow> 'k event list \<Rightarrow> 'm queued list \<Rightarrow> bool" where
  "commit_ordered tp kind keys r log items \<longleftrightarrow>
     (let c = committing_targets tp; now = filter (\<lambda>t. \<not> waits tp t) (dependents tp) in
      list_all (\<lambda>ev. ev_op ev = kind \<and> ev_keys ev = keys) log
      \<and> prefix (map ev_target log) (map t_id (c @ now))
      \<and> (length c < length log \<or> items \<noteq> [] \<longrightarrow> list_all (\<lambda>ev. ev_failure ev = None) (take (length c) log))
      \<and> (case r of
           Inr _ \<Rightarrow> map ev_target log = map t_id (c @ now)
             \<and> map q_name items = map t_name (filter (waits tp) (dependents tp))
             \<and> list_all2 (\<lambda>t. tolerated (t_policy t)) now (drop (length c) log)
         | Inl e \<Rightarrow> is_record_write e
             \<and> (is_partial_sync e \<longrightarrow> commit_reached tp log)
             \<and> (is_uncommitted e \<longrightarrow> deferred tp \<or> \<not> commit_reached tp log)))"

lemma committing_failure_side:
  "is_record_write (committing_failure name role e)"
  "is_partial_sync (committing_failure name role e) \<longleftrightarrow> role = Authority \<and> is_partial_sync e"
  by (auto simp: committing_failure_def is_record_write_iff)

lemma settle_failure_side:
  "settle_failure name policy before e = Some e' \<Longrightarrow> if before then is_uncommitted e' else is_partial_sync e'"
  by (auto simp: settle_failure_def split: if_splits)

lemma settled_targets: "list_all2 (settled kind tg ks policy) xs evs \<Longrightarrow> map ev_target evs = map (t_id \<circ> tg) xs"
  by (induction rule: list_all2_induct) (simp_all add: settled_def)

lemma settled_events:
  "list_all2 (settled kind tg (\<lambda>_. keys) policy) xs evs \<Longrightarrow> list_all (\<lambda>ev. ev_op ev = kind \<and> ev_keys ev = keys) evs"
  by (induction rule: list_all2_induct) (simp_all add: settled_def)

lemma commit_failed:
  assumes "valid_topology tp" "committing_targets tp = pre @ x # post"
    and log: "log = map (\<lambda>t. Event kind (t_id t) keys None) pre @ [Event kind (t_id x) keys (Some e)]"
  shows "commit_ordered tp kind keys (Inl (committing_failure (t_name x) (t_role x) e)) log []"
proof -
  have reached: "commit_reached tp log \<longleftrightarrow> post = [] \<and> t_role x = Authority \<and> is_partial_sync e"
    by (auto simp: commit_reached_def assms(2) log zip_append1 list_all_iff set_zip)
  have "post = []" if "t_role x = Authority" using authority_last [OF assms(1,2) that] .
  moreover have "prefix (map ev_target log) (map t_id (committing_targets tp @ now))" for now
    by (rule prefixI [of _ _ "map t_id (post @ now)"]) (simp add: assms(2) log comp_def)
  moreover note reached committing_failure_side [of "t_name x" "t_role x" e]
  moreover have "is_uncommitted (committing_failure (t_name x) (t_role x) e) \<Longrightarrow> \<not> (t_role x = Authority \<and> is_partial_sync e)"
    using committing_failure_side(2) not_uncommitted_partial by blast
  moreover have "length log \<le> length (committing_targets tp)" by (simp add: assms(2) log)
  ultimately show ?thesis
    by (simp add: commit_ordered_def Let_def) (auto simp add: log list_all_iff)
qed

lemma commit_then_dependents:
  assumes valid: "valid_topology tp"
    and run: "thenP (iterP (\<lambda>t. on_fst (committing (t_name t) (t_role t) (traced_op kind (t_id t) keys (op' t)))) (committing_targets tp))
        (iterP (\<lambda>t. sync_one (traced_topology tp) (traced_target t) what (traced_op kind (t_id t) keys (op' t)) None) (dependents tp))
      ((w, []), q) = (r, (w', log), q')"
  shows "\<exists>items. q' = q @ items \<and> commit_ordered tp kind keys r log items"
proof -
  let ?c = "committing_targets tp"
  let ?ok = "map (\<lambda>t. Event kind (t_id t) keys None) ?c"
  let ?first = "iterP (\<lambda>t. on_fst (committing (t_name t) (t_role t) (traced_op kind (t_id t) keys (op' t)))) ?c ((w, []), q)"
  obtain r1 w1 log1 q1 where first: "?first = (r1, (w1, log1), q1)" by (cases ?first) auto
  from commit_phase [where tg = "\<lambda>t. t" and ks = "\<lambda>_. keys" and op' = op', OF first]
  consider (failed) pre x post e where "?c = pre @ x # post" "r1 = Inl (committing_failure (t_name x) (t_role x) e)"
      "log1 = map (\<lambda>t. Event kind (t_id t) keys None) pre @ [Event kind (t_id x) keys (Some e)]" "q1 = q"
    | (ok) "r1 = Inr ()" "log1 = ?ok" "q1 = q" unfolding append_Nil by blast
  then show ?thesis
  proof cases
    case failed
    with run first have "r = r1" "log = log1" "q' = q" by simp_all
    with commit_failed [OF valid failed(1,3)] failed(2) show ?thesis by simp
  next
    case ok
    let ?now = "filter (\<lambda>t. \<not> waits tp t)"
    have take: "take (length ?c) (?ok @ evs) = ?ok" "drop (length ?c) (?ok @ evs) = evs" for evs by simp_all
    have reached: "commit_reached tp (?ok @ evs)" for evs
      by (auto simp: commit_reached_def zip_append2 list_all_iff set_zip)
    from run first ok have "iterP (\<lambda>t. sync_one (traced_topology tp) (traced_target t) what
        (traced_op kind (t_id t) keys (op' t)) None) (dependents tp) ((w1, ?ok), q) = (r, (w', log), q')" by simp
    from after_phase [where tg = "\<lambda>t. t" and ks = "\<lambda>_. keys" and op' = op', OF this]
    consider (all) evs items where "r = Inr ()" "log = ?ok @ evs"
        "list_all2 (settled kind (\<lambda>t. t) (\<lambda>_. keys) None) (?now (dependents tp)) evs"
        "q' = q @ items" "map q_name items = map t_name (filter (waits tp) (dependents tp))"
      | (stopped) evs items pre x post e e' where "dependents tp = pre @ x # post" "\<not> waits tp x"
        "log = ?ok @ evs @ [Event kind (t_id x) keys (Some e)]"
        "list_all2 (settled kind (\<lambda>t. t) (\<lambda>_. keys) None) (?now pre) evs"
        "settle_failure (t_name x) (policy_for None x) (deferred tp) e = Some e'" "r = Inl e'"
        "q' = q @ items" "map q_name items = map t_name (filter (waits tp) pre)"
      unfolding comp_def by blast
    then show ?thesis
    proof cases
      case all
      have "list_all2 (\<lambda>t. tolerated (t_policy t)) (?now (dependents tp)) evs"
        using all(3) by (rule list_all2_mono) (simp add: settled_def policy_for_def)
      with all settled_targets [OF all(3)] settled_events [OF all(3)] show ?thesis
        by (intro exI [of _ items]) (simp add: commit_ordered_def Let_def take list_all_iff comp_def ball_Un)
    next
      case stopped
      from settle_failure_side [OF stopped(5)] have
        "is_record_write e' \<and> (is_uncommitted e' \<longrightarrow> deferred tp)" by (auto simp: is_record_write_iff split: if_splits dest: not_uncommitted_partial)
      with stopped settled_targets [OF stopped(4)] settled_events [OF stopped(4)] reached [of "evs @ [Event kind (t_id x) keys (Some e)]"]
      show ?thesis
        by (intro exI [of _ items]) (auto simp: commit_ordered_def Let_def take list_all_iff comp_def)
    qed
  qed
qed

section \<open>Properties: writes\<close>

lemma topo_write_ordered:
  assumes "valid_topology tp" "topo_write (traced_topology tp) key value opts ((w, []), q) = (r, (w', log), q')"
  shows "\<exists>items. q' = q @ items \<and> commit_ordered tp Wrote [key] r log items"
  using commit_then_dependents [where kind = Wrote and keys = "[key]" and what = "''set''"
      and op' = "\<lambda>t. t_write t key value (receives t opts)", OF assms(1)] assms(2)
  by (simp add: topo_write_def to_dependents_def iterP_map)

lemma topo_batch_write_ordered:
  assumes "valid_topology tp" "topo_batch_write (traced_topology tp) items opts ((w, []), q) = (r, (w', log), q')" "items \<noteq> []"
  shows "\<exists>queued. q' = q @ queued \<and> commit_ordered tp Wrote (dkeys items) r log queued"
  using commit_then_dependents [where kind = Wrote and keys = "dkeys items" and what = "''batch set''"
      and op' = "\<lambda>t. t_batch_write t items (receives t opts)", OF assms(1)] assms(2,3)
  by (simp add: topo_batch_write_def to_dependents_def iterP_map)

section \<open>Removals\<close>

lemma collect_phase:
  assumes "collectP (\<lambda>t. on_fst (traced_op kind (t_id t) keys (op' t))) ts ((w, log), q) = (r, (w', log'), q')"
  shows "q' = q \<and>
    ((\<exists>rs. r = Inr rs \<and> length rs = length ts \<and> log' = log @ map (\<lambda>t. Event kind (t_id t) keys None) ts
        \<and> (ts \<noteq> [] \<longrightarrow> (\<exists>w1. op' (hd ts) w = (Inr (hd rs), w1))))
     \<or> (\<exists>pre t post e. ts = pre @ t # post \<and> r = Inl e
        \<and> log' = log @ map (\<lambda>t. Event kind (t_id t) keys None) pre @ [Event kind (t_id t) keys (Some e)]))"
  using assms
proof (induction ts arbitrary: w log r w' log' q')
  case (Cons t ts)
  let ?f = "\<lambda>t. on_fst (traced_op kind (t_id t) keys (op' t))"
  obtain a w1 where run: "op' t w = (a, w1)" by fastforce
  show ?case
  proof (cases a)
    case (Inl e)
    with run have "?f t ((w, log), q) = (Inl e, (w1, log @ [Event kind (t_id t) keys (Some e)]), q)"
      by (simp add: traced_op_run)
    with Cons.prems have "r = Inl e" "log' = log @ [Event kind (t_id t) keys (Some e)]" "q' = q" by simp_all
    then show ?thesis by (intro conjI disjI2 exI [of _ "[]"]) simp_all
  next
    case (Inr b)
    let ?log = "log @ [Event kind (t_id t) keys None]"
    have step: "?f t ((w, log), q) = (Inr b, (w1, ?log), q)" using run Inr by (simp add: traced_op_run)
    obtain r1 w2 log2 q2 where rest: "collectP ?f ts ((w1, ?log), q) = (r1, (w2, log2), q2)"
      by (cases "collectP ?f ts ((w1, ?log), q)") auto
    from Cons.prems step rest have r: "r = (case r1 of Inl e \<Rightarrow> Inl e | Inr ys \<Rightarrow> Inr (b # ys))"
      "w' = w2" "log' = log2" "q' = q2" by (auto simp: mapP_run split: sum.splits)
    from Cons.IH [OF rest] show ?thesis
    proof (elim conjE disjE exE)
      fix rs assume "q2 = q" "r1 = Inr rs" "length rs = length ts" "log2 = ?log @ map (\<lambda>t. Event kind (t_id t) keys None) ts"
      with r run Inr show ?thesis by (intro conjI disjI1 exI [of _ "b # rs"]) simp_all
    next
      fix pre y post e
      assume "q2 = q" "ts = pre @ y # post" "r1 = Inl e"
        "log2 = ?log @ map (\<lambda>t. Event kind (t_id t) keys None) pre @ [Event kind (t_id y) keys (Some e)]"
      with r show ?thesis by (intro conjI disjI2 exI [of _ "t # pre"] exI [of _ y] exI [of _ post] exI [of _ e]) simp_all
    qed
  qed
qed simp

text \<open>
  What the laws say of a removal: the authority first (without one, every component),
  then the components, then the dependents, all with the same keys; nothing after the
  authority unless it was removed; when it returns every target was visited or waits;
  a failure is the medium's own before the record is gone, and after it a
  \<open>RecordWriteError\<close> that says so, or, inside a commit the caller has not made, asks for
  the roll back.
\<close>

definition removal_order :: "('w, 'k, 'v) topology \<Rightarrow> ('w, 'k, 'v) target list" where
  "removal_order tp = by_role tp [Authority, Component, Dependent]"

definition removal_ordered ::
  "('w, 'k, 'v) topology \<Rightarrow> op_kind \<Rightarrow> 'k list \<Rightarrow> sync_policy option \<Rightarrow> exn + 'a \<Rightarrow> 'k event list \<Rightarrow> 'm queued list \<Rightarrow> bool" where
  "removal_ordered tp kind keys policy r log items \<longleftrightarrow>
     (let n = length (removed_now tp);
          order = removed_now tp @ filter (\<lambda>t. \<not> waits tp t) (removed_after_commit tp) in
      list_all (\<lambda>ev. ev_op ev = kind \<and> ev_keys ev = keys) log
      \<and> prefix (map ev_target log) (map t_id order)
      \<and> (n < length log \<or> items \<noteq> [] \<longrightarrow> list_all (\<lambda>ev. ev_failure ev = None) (take n log))
      \<and> (case r of
           Inr _ \<Rightarrow> map ev_target log = map t_id order
             \<and> map q_name items = map t_name (filter (waits tp) (removed_after_commit tp))
             \<and> list_all2 (\<lambda>t. tolerated (policy_for policy t)) (filter (\<lambda>t. \<not> waits tp t) (removed_after_commit tp)) (drop n log)
         | Inl e \<Rightarrow> (length log \<le> n \<and> log \<noteq> [] \<and> ev_failure (last log) = Some e)
             \<or> (n < length log \<and> (if deferred tp then is_uncommitted e else is_partial_sync e))))"

lemma after_removal:
  assumes run: "iterP (\<lambda>t. sync_one (traced_topology tp) (traced_target t) what (traced_op kind (t_id t) keys (op' t)) policy)
      (removed_after_commit tp) ((w1, ok), q) = (r, (w', log), q')"
    and ok: "ok = map (\<lambda>t. Event kind (t_id t) keys None) (removed_now tp)"
  shows "\<exists>items. q' = q @ items \<and> removal_ordered tp kind keys policy r log items"
proof -
  let ?n = "length (removed_now tp)"
  let ?now = "filter (\<lambda>t. \<not> waits tp t)"
  have take: "take ?n (ok @ evs) = ok" "drop ?n (ok @ evs) = evs" "length ok = ?n" for evs by (simp_all add: ok)
  have okt: "map ev_target ok = map t_id (removed_now tp)" by (simp add: ok comp_def)
  have okf: "list_all (\<lambda>ev. ev_failure ev = None) ok" "list_all (\<lambda>ev. ev_op ev = kind \<and> ev_keys ev = keys) ok"
    by (simp_all add: ok list_all_iff)
  from after_phase [where tg = "\<lambda>t. t" and ks = "\<lambda>_. keys" and op' = op', OF run]
  consider (all) evs items where "r = Inr ()" "log = ok @ evs"
      "list_all2 (settled kind (\<lambda>t. t) (\<lambda>_. keys) policy) (?now (removed_after_commit tp)) evs"
      "q' = q @ items" "map q_name items = map t_name (filter (waits tp) (removed_after_commit tp))"
    | (stopped) evs items pre x post e e' where "removed_after_commit tp = pre @ x # post" "\<not> waits tp x"
      "log = ok @ evs @ [Event kind (t_id x) keys (Some e)]"
      "list_all2 (settled kind (\<lambda>t. t) (\<lambda>_. keys) policy) (?now pre) evs"
      "settle_failure (t_name x) (policy_for policy x) (deferred tp) e = Some e'" "r = Inl e'"
      "q' = q @ items" "map q_name items = map t_name (filter (waits tp) pre)"
    unfolding comp_def by blast
  then show ?thesis
  proof cases
    case all
    have "list_all2 (\<lambda>t. tolerated (policy_for policy t)) (?now (removed_after_commit tp)) evs"
      using all(3) by (rule list_all2_mono) (simp add: settled_def)
    with all settled_targets [OF all(3)] settled_events [OF all(3)] okt okf show ?thesis
      by (intro exI [of _ items]) (simp add: removal_ordered_def Let_def take comp_def)
  next
    case stopped
    have pre: "prefix (map ev_target log) (map t_id (removed_now tp @ ?now (removed_after_commit tp)))"
      by (rule prefixI [of _ _ "map t_id (?now post)"])
        (use stopped settled_targets [OF stopped(4)] okt in \<open>simp add: comp_def\<close>)
    from settle_failure_side [OF stopped(5)] pre stopped(3,6,7) settled_events [OF stopped(4)] okf take show ?thesis
      by (intro exI [of _ items]) (simp add: removal_ordered_def Let_def)
  qed
qed

lemma removal_phases:
  assumes run: "bindP (collectP (\<lambda>t. on_fst (traced_op kind (t_id t) keys (op' t))) (removed_now tp)) (\<lambda>rs.
      thenP (iterP (\<lambda>t. sync_one (traced_topology tp) (traced_target t) what (traced_op kind (t_id t) keys (op' t)) policy)
        (removed_after_commit tp)) (returnP (f rs))) ((w, []), q) = (r, (w', log), q')"
  shows "\<exists>items. q' = q @ items \<and> removal_ordered tp kind keys policy r log items
    \<and> (\<forall>b. r = Inr b \<longrightarrow> (\<exists>rs. b = f rs \<and> length rs = length (removed_now tp)
        \<and> (removed_now tp \<noteq> [] \<longrightarrow> (\<exists>w1. op' (hd (removed_now tp)) w = (Inr (hd rs), w1)))))"
proof -
  let ?first = "collectP (\<lambda>t. on_fst (traced_op kind (t_id t) keys (op' t))) (removed_now tp) ((w, []), q)"
  let ?ok = "map (\<lambda>t. Event kind (t_id t) keys None) (removed_now tp)"
  obtain r1 w1 log1 q1 where first: "?first = (r1, (w1, log1), q1)" by (cases ?first) auto
  from collect_phase [OF first] consider (ok) rs where "r1 = Inr rs" "log1 = ?ok" "q1 = q" "length rs = length (removed_now tp)"
      "removed_now tp \<noteq> [] \<longrightarrow> (\<exists>w1. op' (hd (removed_now tp)) w = (Inr (hd rs), w1))"
    | (failed) pre t post e where "removed_now tp = pre @ t # post" "r1 = Inl e" "q1 = q"
      "log1 = map (\<lambda>t. Event kind (t_id t) keys None) pre @ [Event kind (t_id t) keys (Some e)]"
    unfolding append_Nil by blast
  then show ?thesis
  proof cases
    case failed
    with run first have r: "r = Inl e" "log = log1" "q' = q" by simp_all
    have "prefix (map ev_target log) (map t_id (removed_now tp @ ts))" for ts
      by (rule prefixI [of _ _ "map t_id (post @ ts)"]) (simp add: r failed comp_def)
    with failed(1,4) r show ?thesis
      by (intro exI [of _ "[]"]) (simp add: removal_ordered_def Let_def list_all_iff)
  next
    case ok
    let ?rest = "iterP (\<lambda>t. sync_one (traced_topology tp) (traced_target t) what (traced_op kind (t_id t) keys (op' t)) policy)
        (removed_after_commit tp) ((w1, ?ok), q)"
    obtain r2 w2 log2 q2 where rest: "?rest = (r2, (w2, log2), q2)" by (cases ?rest) auto
    from after_removal [OF rest refl] obtain items where items: "q2 = q @ items" "removal_ordered tp kind keys policy r2 log2 items"
      by blast
    from run first ok(1-3) rest have eq: "log = log2" "q' = q2" "r = (case r2 of Inl e \<Rightarrow> Inl e | Inr _ \<Rightarrow> Inr (f rs))"
      by (auto simp: thenP_run split: sum.splits)
    with items have "removal_ordered tp kind keys policy r log items"
      by (auto simp: removal_ordered_def Let_def split: sum.splits)
    with eq items ok(4,5) show ?thesis by (intro exI [of _ items]) (auto split: sum.splits)
  qed
qed

text \<open>For a record with an authority the removal visits it first, then components, then dependents.\<close>

lemma removal_order_is:
  assumes "valid_topology tp" "authority tp = Some a"
  shows "removed_now tp @ removed_after_commit tp = removal_order tp"
proof -
  let ?A = "filter (\<lambda>t. t_role t = Authority) (all_targets tp)"
  have a: "a \<in> set ?A" using assms(2) by (auto simp: authority_def find_Some_iff in_set_conv_nth)
  have "?A = [a]"
  proof (cases ?A)
    case (Cons x xs)
    with one_authority [OF assms(1)] a show ?thesis by simp
  qed (use a in simp)
  moreover have "filter (\<lambda>t. t_role t = Component) (tp_targets tp) = []"
    using assms(1) by (rule_tac ccontr) (auto simp: valid_topology_def new_topology_def Let_def list_ex_iff filter_empty_conv split: if_split_asm)
  ultimately show ?thesis
    using assms(2) by (simp add: removal_order_def by_role_def removed_now_def removed_after_commit_def components_def
        dependents_def) (simp add: all_targets_def)
qed

lemma topo_remove_ordered:
  assumes "topo_remove (traced_topology tp) key what op' ((w, []), q) = (r, (w', log), q')"
    and "\<And>t. op' (traced_target t) key = traced_op kind (t_id t) [key] (op'' t)"
  shows "\<exists>items. q' = q @ items \<and> removal_ordered tp kind [key] None r log items
    \<and> (\<forall>b a. r = Inr b \<longrightarrow> authority tp = Some a \<longrightarrow> (\<exists>w1. op'' a w = (Inr b, w1)))"
proof -
  let ?f = "\<lambda>rs. if authority tp \<noteq> None then hd rs else list_ex id rs"
  from assms(1) have "bindP (collectP (\<lambda>t. on_fst (traced_op kind (t_id t) [key] (op'' t))) (removed_now tp)) (\<lambda>rs.
      thenP (iterP (\<lambda>t. sync_one (traced_topology tp) (traced_target t) what (traced_op kind (t_id t) [key] (op'' t)) None)
        (removed_after_commit tp)) (returnP (?f rs))) ((w, []), q) = (r, (w', log), q')"
    by (simp add: topo_remove_def assms(2) iterP_map collectP_map)
  from removal_phases [OF this] show ?thesis by (fastforce simp: removed_now_def)
qed

lemma topo_batch_remove_ordered:
  assumes "topo_batch_remove (traced_topology tp) keys what op' policy ((w, []), q) = (r, (w', log), q')"
    and "\<And>t. op' (traced_target t) (fromkeys keys) = traced_op kind (t_id t) (fromkeys keys) (op'' t)"
    and "keys \<noteq> []" "authority tp = Some a"
  shows "\<exists>items. q' = q @ items \<and> removal_ordered tp kind (fromkeys keys) policy r log items
    \<and> (\<forall>n. r = Inr n \<longrightarrow> (\<exists>w1. op'' a w = (Inr n, w1)))"
proof -
  from assms have "bindP (collectP (\<lambda>t. on_fst (traced_op kind (t_id t) (fromkeys keys) (op'' t))) (removed_now tp)) (\<lambda>rs.
      thenP (iterP (\<lambda>t. sync_one (traced_topology tp) (traced_target t) what (traced_op kind (t_id t) (fromkeys keys) (op'' t)) policy)
        (removed_after_commit tp)) (returnP (hd rs))) ((w, []), q) = (r, (w', log), q')"
    by (simp add: topo_batch_remove_def Let_def iterP_map collectP_map bindP_run [of "returnP _"])
  from removal_phases [OF this] assms(4) show ?thesis by (fastforce simp: removed_now_def)
qed

section \<open>Conditional writes\<close>

lemma settled_items:
  "list_all2 (settled kind tg ks policy) xs evs \<Longrightarrow>
     \<forall>ev \<in> set evs. ev_op ev = kind \<and> (\<exists>x \<in> set xs. ev_target ev = t_id (tg x) \<and> ev_keys ev = ks x)"
  by (induction rule: list_all2_induct) (auto simp: settled_def)

text \<open>\<open>commit_phase\<close> and \<open>after_phase\<close> without the details a conditional write does not need.\<close>

lemma commit_summary:
  assumes "iterP (\<lambda>x. on_fst (committing (t_name (tg x)) (t_role (tg x)) (traced_op kind (t_id (tg x)) (ks x) (op' x))))
      xs ((w, log), q) = (r, (w', log'), q')"
  shows "q' = q \<and> (\<exists>evs. log' = log @ evs
      \<and> (\<forall>ev \<in> set evs. ev_op ev = kind \<and> (\<exists>x \<in> set xs. ev_target ev = t_id (tg x) \<and> ev_keys ev = ks x))
      \<and> (case r of Inr _ \<Rightarrow> list_all (\<lambda>ev. ev_failure ev = None) evs
         | Inl e \<Rightarrow> \<exists>x \<in> set xs. \<exists>e'. e = committing_failure (t_name (tg x)) (t_role (tg x)) e'))"
  using commit_phase [OF assms]
proof (elim conjE disjE exE)
  assume *: "q' = q" "r = Inr ()" "log' = log @ map (\<lambda>x. Event kind (t_id (tg x)) (ks x) None) xs"
  then show ?thesis
    by (intro conjI exI [of _ "map (\<lambda>x. Event kind (t_id (tg x)) (ks x) None) xs"]) (auto simp: list_all_iff)
next
  fix pre x post e
  assume *: "q' = q" "xs = pre @ x # post" "r = Inl (committing_failure (t_name (tg x)) (t_role (tg x)) e)"
    "log' = log @ map (\<lambda>x. Event kind (t_id (tg x)) (ks x) None) pre @ [Event kind (t_id (tg x)) (ks x) (Some e)]"
  then show ?thesis
    by (intro conjI exI [of _ "map (\<lambda>x. Event kind (t_id (tg x)) (ks x) None) pre @ [Event kind (t_id (tg x)) (ks x) (Some e)]"])
      auto
qed

lemma after_summary:
  assumes "iterP (\<lambda>x. sync_one (traced_topology tp) (traced_target (tg x)) what
        (traced_op kind (t_id (tg x)) (ks x) (op' x)) policy) xs ((w, log), q) = (r, (w', log'), q')"
  shows "\<exists>evs items. log' = log @ evs \<and> q' = q @ items
      \<and> (\<forall>ev \<in> set evs. ev_op ev = kind \<and> (\<exists>x \<in> set xs. ev_target ev = t_id (tg x) \<and> ev_keys ev = ks x))
      \<and> (xs = [] \<longrightarrow> evs = [] \<and> items = [])
      \<and> (case r of Inr _ \<Rightarrow> True | Inl e \<Rightarrow> if deferred tp then is_uncommitted e else is_partial_sync e)"
  using after_phase [OF assms]
proof (elim exE disjE conjE)
  fix evs items
  assume "r = Inr ()" "log' = log @ evs"
    and evs: "list_all2 (settled kind tg ks policy) (filter (\<lambda>x. \<not> waits tp (tg x)) xs) evs"
    and "q' = q @ items" "map q_name items = map (t_name \<circ> tg) (filter (\<lambda>x. waits tp (tg x)) xs)"
  then show ?thesis using settled_items [OF evs] by (intro exI [of _ evs] exI [of _ items]) auto
next
  fix evs items pre x post e e'
  assume "xs = pre @ x # post" "log' = log @ evs @ [Event kind (t_id (tg x)) (ks x) (Some e)]"
    and evs: "list_all2 (settled kind tg ks policy) (filter (\<lambda>x. \<not> waits tp (tg x)) pre) evs"
    and side: "settle_failure (t_name (tg x)) (policy_for policy (tg x)) (deferred tp) e = Some e'" and "r = Inl e'"
    and "q' = q @ items"
  then show ?thesis using settled_items [OF evs] settle_failure_side [OF side]
    by (intro exI [of _ "evs @ [Event kind (t_id (tg x)) (ks x) (Some e)]"] exI [of _ items]) auto
qed

text \<open>Each batch of \<open>by_clock\<close> is about keys of the values it groups.\<close>

lemma by_clock_keys:
  "(clock, items) \<in> set (by_clock values writes groups) \<Longrightarrow>
     set (dkeys items) \<subseteq> set (dkeys values) \<union> (\<Union>(c, g) \<in> set groups. set (dkeys g))"
proof (induction "values" writes groups rule: by_clock.induct)
  case (2 k v "values" writes groups)
  define clock' where "clock' = cw_created_at (the (dget writes k))"
  define group where "group = (case dget groups clock' of None \<Rightarrow> [] | Some g \<Rightarrow> g)"
  define G where "G = (\<Union>(c, g) \<in> set groups. set (dkeys g))"
  have put: "set (dput c g d) \<subseteq> insert (c, g) (set d)" for c :: "time option" and g :: "('a, 'b) dict" and d
    by (induction c g d rule: dput.induct) auto
  have group: "set (dkeys group) \<subseteq> G"
  proof (cases "dget groups clock'")
    case (Some g)
    then have "(clock', g) \<in> set groups" by (rule map_of_SomeD)
    with Some show ?thesis by (force simp: group_def G_def)
  qed (simp add: group_def)
  have "(\<Union>(c, g) \<in> set (dput clock' (dput k v group) groups). set (dkeys g))
      \<subseteq> (\<Union>(c, g) \<in> insert (clock', dput k v group) (set groups). set (dkeys g))"
    using put by (rule UN_mono) simp
  also have "\<dots> = insert k (set (dkeys group)) \<union> G" by (simp add: G_def)
  also have "\<dots> \<subseteq> insert k G" using group by blast
  finally have new: "(\<Union>(c, g) \<in> set (dput clock' (dput k v group) groups). set (dkeys g)) \<subseteq> insert k G" .
  have "(clock, items) \<in> set (by_clock values writes (dput clock' (dput k v group) groups))"
    using "2.prems" by (simp add: Let_def clock'_def group_def)
  with "2.IH" new have "set (dkeys items) \<subseteq> set (dkeys values) \<union> insert k G"
    unfolding clock'_def group_def by blast
  then show ?case by (simp add: G_def)
qed auto

lemma clocked_batches_traced:
  "clocked_batches (traced_target t) values writes opts = map (\<lambda>(clock, items). traced_op Wrote (t_id t) (dkeys items)
     (t_batch_write t items (receives t \<lparr>wo_ttl = wo_ttl opts, wo_created_at = clock\<rparr>))) (by_clock values writes [])"
  by (simp add: clocked_batches_def case_prod_beta')

lemma changed_keys: "set (dkeys (changed t puts writes)) \<subseteq> set (dkeys puts)"
  by (auto simp: changed_def dfilter_def)

lemma changed_traced [simp]: "changed (traced_target t) puts writes = changed t puts writes"
  and received_traced [simp]: "received (traced_target t) writes = received t writes"
  by (simp_all add: changed_def received_def)

lemma dkeys_received [simp]: "dkeys (received t writes) = dkeys writes"
  by (simp add: received_def)

lemma changed_set: "set (changed t puts writes) \<subseteq> set puts"
  by (auto simp: changed_def dfilter_def)

text \<open>The calls a conditional write makes on the components, and on the dependents.\<close>

definition batches_of ::
  "('w, 'k, 'v) target list \<Rightarrow> ('k, 'v) dict \<Rightarrow> ('k, 'v cond_write) dict \<Rightarrow> (('w, 'k, 'v) target \<times> time option \<times> ('k, 'v) dict) list" where
  "batches_of ts values writes = concat (map (\<lambda>t. map (Pair t) (by_clock (changed t values writes) writes [])) ts)"

lemma batches_of_keys:
  assumes "(t, clock, items) \<in> set (batches_of ts values writes)"
  shows "t \<in> set ts \<and> set (dkeys items) \<subseteq> set (dkeys (changed t values writes))"
  using assms by_clock_keys [of clock items "changed t values writes" writes "[]"]
  by (auto simp: batches_of_def)

lemma changed_Nil [simp]: "changed t [] writes = []"
  by (simp add: changed_def dfilter_def)

lemma batches_of_Nil [simp]: "batches_of ts [] writes = []"
  by (induction ts) (simp_all add: batches_of_def)

lemma component_phase:
  "iterP (\<lambda>t. iterP (\<lambda>run. on_fst (committing (t_name t) (t_role t) run))
       (clocked_batches t (changed t puts writes) writes opts)) (map traced_target ts)
   = iterP (\<lambda>x. on_fst (committing (t_name (fst x)) (t_role (fst x)) (traced_op Wrote (t_id (fst x)) (dkeys (snd (snd x)))
       (t_batch_write (fst x) (snd (snd x)) (receives (fst x) \<lparr>wo_ttl = wo_ttl opts, wo_created_at = fst (snd x)\<rparr>)))))
     (batches_of ts puts writes)"
  by (induction ts) (simp_all add: batches_of_def iterP_append iterP_map clocked_batches_traced case_prod_beta')

lemma dependent_phase:
  "iterP (\<lambda>t. iterP (\<lambda>run. sync_one (traced_topology tp) t ''batch set'' run None)
       (clocked_batches t (changed t stored writes) writes opts)) (map traced_target ts)
   = iterP (\<lambda>x. sync_one (traced_topology tp) (traced_target (fst x)) ''batch set'' (traced_op Wrote (t_id (fst x)) (dkeys (snd (snd x)))
       (t_batch_write (fst x) (snd (snd x)) (receives (fst x) \<lparr>wo_ttl = wo_ttl opts, wo_created_at = fst (snd x)\<rparr>))) None)
     (batches_of ts stored writes)"
  by (induction ts) (simp_all add: batches_of_def iterP_append iterP_map clocked_batches_traced case_prod_beta')

text \<open>
  What follows the authority's conditional write, given the keys it wrote: removals and
  batches about those keys only, and failures on the far side of the commit point.
\<close>

lemma after_condition:
  assumes run: "thenP (if removed \<noteq> []
        then iterP (\<lambda>t. sync_one (traced_topology tp) t ''batch delete'' (t_batch_delete t removed) None)
               (removed_after_commit (traced_topology tp))
        else returnP ())
      (thenP (iterP (\<lambda>t. iterP (\<lambda>run. sync_one (traced_topology tp) t ''batch set'' run None)
          (clocked_batches t (changed t stored writes) writes opts)) (dependents (traced_topology tp)))
        (returnP written)) ((w, log), q) = (r, (w', log'), q')"
    and keys: "set removed \<subseteq> written" "set (dkeys stored) \<subseteq> written"
  shows "\<exists>evs items. log' = log @ evs \<and> q' = q @ items
    \<and> list_all (\<lambda>ev. ev_op ev \<in> {Deleted, Wrote} \<and> set (ev_keys ev) \<subseteq> written) evs
    \<and> (removed = [] \<and> stored = [] \<longrightarrow> evs = [] \<and> items = [])
    \<and> (case r of Inr s \<Rightarrow> s = written | Inl e \<Rightarrow> if deferred tp then is_uncommitted e else is_partial_sync e)"
proof -
  let ?rem = "if removed \<noteq> []
        then iterP (\<lambda>t. sync_one (traced_topology tp) (traced_target t) ''batch delete''
          (traced_op Deleted (t_id t) removed (t_batch_delete t removed)) None) (removed_after_commit tp)
        else returnP ()"
  obtain r1 w1 log1 q1 where r1: "?rem ((w, log), q) = (r1, (w1, log1), q1)" by (cases "?rem ((w, log), q)") auto
  have "\<exists>evs items. log1 = log @ evs \<and> q1 = q @ items
    \<and> list_all (\<lambda>ev. ev_op ev \<in> {Deleted, Wrote} \<and> set (ev_keys ev) \<subseteq> written) evs
    \<and> (removed = [] \<longrightarrow> evs = [] \<and> items = [])
    \<and> (case r1 of Inr _ \<Rightarrow> True | Inl e \<Rightarrow> if deferred tp then is_uncommitted e else is_partial_sync e)"
  proof (cases "removed = []")
    case True
    with r1 show ?thesis by (intro exI [of _ "[]"]) auto
  next
    case False
    with r1 have "iterP (\<lambda>t. sync_one (traced_topology tp) (traced_target t) ''batch delete''
          (traced_op Deleted (t_id t) removed (t_batch_delete t removed)) None) (removed_after_commit tp) ((w, log), q)
        = (r1, (w1, log1), q1)" by simp
    from after_summary [where tg = "\<lambda>t. t" and ks = "\<lambda>_. removed" and op' = "\<lambda>t. t_batch_delete t removed", OF this]
      keys(1) False
    show ?thesis unfolding list_all_iff by (elim exE conjE) (intro exI conjI; (assumption | force))
  qed
  then obtain evs1 items1 where 1: "log1 = log @ evs1" "q1 = q @ items1"
    "list_all (\<lambda>ev. ev_op ev \<in> {Deleted, Wrote} \<and> set (ev_keys ev) \<subseteq> written) evs1"
    "removed = [] \<longrightarrow> evs1 = [] \<and> items1 = []"
    "case r1 of Inr _ \<Rightarrow> True | Inl e \<Rightarrow> if deferred tp then is_uncommitted e else is_partial_sync e" by blast
  have whole_run: "thenP ?rem (thenP (iterP (\<lambda>t. iterP (\<lambda>run. sync_one (traced_topology tp) t ''batch set'' run None)
          (clocked_batches t (changed t stored writes) writes opts)) (dependents (traced_topology tp)))
        (returnP written)) ((w, log), q) = (r, (w', log'), q')"
    using run by (simp only: removed_traced iterP_map traced_target_simps)
  show ?thesis
  proof (cases r1)
    case (Inl e)
    with whole_run r1 have "r = Inl e" "log' = log1" "q' = q1" by simp_all
    with 1 Inl show ?thesis by (intro exI [of _ evs1] exI [of _ items1]) simp
  next
    case (Inr u)
    let ?deps = "iterP (\<lambda>t. iterP (\<lambda>run. sync_one (traced_topology tp) t ''batch set'' run None)
          (clocked_batches t (changed t stored writes) writes opts)) (dependents (traced_topology tp))"
    obtain r2 w2 log2 q2 where r2: "?deps ((w1, log1), q1) = (r2, (w2, log2), q2)"
      by (cases "?deps ((w1, log1), q1)") auto
    from whole_run r1 Inr r2 have r: "log' = log2" "q' = q2" "r = (case r2 of Inl e \<Rightarrow> Inl e | Inr _ \<Rightarrow> Inr written)"
      by (auto simp: thenP_run split: sum.splits)
    from after_summary [where tg = fst and ks = "\<lambda>x. dkeys (snd (snd x))" and op' = "\<lambda>x. t_batch_write (fst x) (snd (snd x))
          (receives (fst x) \<lparr>wo_ttl = wo_ttl opts, wo_created_at = fst (snd x)\<rparr>)", OF r2 [unfolded dependents_traced dependent_phase]]
    obtain evs2 items2 where 2: "log2 = log1 @ evs2" "q2 = q1 @ items2"
      "\<forall>ev \<in> set evs2. ev_op ev = Wrote \<and> (\<exists>x \<in> set (batches_of (dependents tp) stored writes).
          ev_target ev = t_id (fst x) \<and> ev_keys ev = dkeys (snd (snd x)))"
      "batches_of (dependents tp) stored writes = [] \<longrightarrow> evs2 = [] \<and> items2 = []"
      "case r2 of Inr _ \<Rightarrow> True | Inl e \<Rightarrow> if deferred tp then is_uncommitted e else is_partial_sync e" by blast
    have "set (ev_keys ev) \<subseteq> written" if ev: "ev \<in> set evs2" for ev
    proof -
      from 2(3) ev obtain t c i where "(t, c, i) \<in> set (batches_of (dependents tp) stored writes)" "ev_keys ev = dkeys i"
        by fastforce
      moreover have "set (dkeys i) \<subseteq> set (dkeys (changed t stored writes))" using batches_of_keys [OF calculation(1)] ..
      ultimately show ?thesis using subset_trans [OF changed_keys [of t stored writes] keys(2)] by simp
    qed
    with 2(3) have "list_all (\<lambda>ev. ev_op ev \<in> {Deleted, Wrote} \<and> set (ev_keys ev) \<subseteq> written) evs2" by (simp add: list_all_iff)
    moreover have "stored = [] \<longrightarrow> evs2 = [] \<and> items2 = []" using 2(4) by simp
    ultimately show ?thesis using 1 2 r
      by (intro exI [of _ "evs1 @ evs2"] exI [of _ "items1 @ items2"]) (simp split: sum.splits)
  qed
qed

end
