(* ===== verification/Topology_Laws.thy ===== *)
theory Topology_Laws
  imports Topology_Order
begin

text \<open>
  The laws of \<open>topology.py\<close> as properties of its operations: writes, conditional writes,
  removals, collection, and the work that waits for a deferred commit.
\<close>

section \<open>Conditional writes in order\<close>

text \<open>
  What the laws say of a conditional write: the components first, and only for keys
  against which nothing is stored; then the authority's own conditional write of every
  key; then, about the keys the authority reports written and no other, the removals
  and the dependents. A refusal is raised before anything is touched, a failure before
  the authority is an \<open>UncommittedWriteError\<close>, the authority's keeps a composition's own
  answer, and one after it says that the record is committed.
\<close>

definition conditional_ordered ::
  "('w, 'k, 'v) topology \<Rightarrow> ('w, 'k, 'v) target \<Rightarrow> ('k, 'v cond_write) dict \<Rightarrow> write_options
   \<Rightarrow> exn + 'k set \<Rightarrow> 'k event list \<Rightarrow> 'm queued list \<Rightarrow> bool" where
  "conditional_ordered tp a writes opts r log items \<longleftrightarrow> (\<exists>before rest. log = before @ rest
     \<and> list_all (\<lambda>ev. ev_op ev = Wrote \<and> ev_target ev \<in> t_id ` set (components tp)
          \<and> list_all (\<lambda>k. seen_version (cw_seen (the (dget writes k))) = None) (ev_keys ev)) before
     \<and> (case rest of
          [] \<Rightarrow> items = [] \<and> (\<exists>e. r = Inl e \<and> (before = [] \<and> e = KvStoreUnsupported \<or> is_uncommitted e))
        | cas # after \<Rightarrow> list_all (\<lambda>ev. ev_failure ev = None) before
            \<and> (\<exists>w1 out w2. t_batch_write_if_unchanged a (received a writes) opts w1 = (out, w2)
                 \<and> cas = Event WroteIf (t_id a) (dkeys writes) (failure out)
                 \<and> (case out of
                      Inl e \<Rightarrow> after = [] \<and> items = [] \<and> r = Inl (committing_failure (t_name a) Authority e)
                    | Inr written \<Rightarrow>
                        list_all (\<lambda>ev. ev_op ev \<in> {Deleted, Wrote} \<and> set (ev_keys ev) \<subseteq> written) after
                        \<and> (written \<inter> set (dkeys writes) = {} \<longrightarrow> after = [] \<and> items = [])
                        \<and> (case r of Inr s \<Rightarrow> s = written
                           | Inl e \<Rightarrow> if deferred tp then is_uncommitted e else is_partial_sync e)))))"

lemma conditional_ordered_after:
  assumes "log = before @ Event WroteIf (t_id a) (dkeys writes) (failure out) # after"
    and "list_all (\<lambda>ev. ev_op ev = Wrote \<and> ev_target ev \<in> t_id ` set (components tp)
          \<and> list_all (\<lambda>k. seen_version (cw_seen (the (dget writes k))) = None) (ev_keys ev)) before"
    and "list_all (\<lambda>ev. ev_failure ev = None) before"
    and "t_batch_write_if_unchanged a (received a writes) opts w1 = (out, w2)"
    and "case out of
           Inl e \<Rightarrow> after = [] \<and> items = [] \<and> r = Inl (committing_failure (t_name a) Authority e)
         | Inr written \<Rightarrow>
             list_all (\<lambda>ev. ev_op ev \<in> {Deleted, Wrote} \<and> set (ev_keys ev) \<subseteq> written) after
             \<and> (written \<inter> set (dkeys writes) = {} \<longrightarrow> after = [] \<and> items = [])
             \<and> (case r of Inr s \<Rightarrow> s = written
                | Inl e \<Rightarrow> if deferred tp then is_uncommitted e else is_partial_sync e)"
  shows "conditional_ordered tp a writes opts r log items"
  unfolding conditional_ordered_def
  by (rule exI [of _ before], rule exI [of _ "Event WroteIf (t_id a) (dkeys writes) (failure out) # after"],
      rule conjI [OF assms(1)], rule conjI [OF assms(2)], unfold list.case, rule conjI [OF assms(3)],
      rule exI [of _ w1], rule exI [of _ out], rule exI [of _ w2], intro conjI assms(4) refl assms(5))

lemma conditional_ordered_before:
  assumes "list_all (\<lambda>ev. ev_op ev = Wrote \<and> ev_target ev \<in> t_id ` set (components tp)
          \<and> list_all (\<lambda>k. seen_version (cw_seen (the (dget writes k))) = None) (ev_keys ev)) log"
    and "log = [] \<and> e = KvStoreUnsupported \<or> is_uncommitted e"
  shows "conditional_ordered tp a writes opts (Inl e) log []"
  unfolding conditional_ordered_def
  by (rule exI [of _ log], rule exI [of _ "[]"], intro conjI assms(1), simp, unfold list.case, use assms(2) in simp)

lemma dkeys_puts_of: "set (dkeys (puts_of writes)) \<subseteq> set (dkeys writes)"
  by (auto simp: puts_of_def dfilter_def)

lemma filter_empty_keys: "S \<inter> set (dkeys d) = {} \<Longrightarrow> dfilter (\<lambda>k _. k \<in> S) d = []"
  by (force simp: dfilter_def filter_empty_conv)

lemma filter_is_subset_written: "set (filter (\<lambda>k. k \<in> S \<and> P k) ks) \<subseteq> S"
  and written_keys_subset: "set (dkeys (dfilter (\<lambda>k _. k \<in> S) d)) \<subseteq> S"
  by (auto simp: dfilter_def)

lemma topo_conditional_ordered:
  assumes auth: "authority tp = Some a"
    and run: "topo_batch_write_if_unchanged (traced_topology tp) writes opts ((w, []), q) = (r, (w', log), q')"
  shows "\<exists>items. q' = q @ items \<and> conditional_ordered tp a writes opts r log items"
proof -
  let ?puts = "puts_of writes"
  let ?v = "\<lambda>k. seen_version (cw_seen (the (dget writes k)))"
  let ?refused = "list_ex (\<lambda>t. list_ex (\<lambda>k. ?v k \<noteq> None) (dkeys (changed t ?puts writes))) (components tp)"
  have role: "t_role a = Authority" using auth by (auto simp: authority_def find_Some_iff)
  show ?thesis
  proof (cases ?refused)
    case True
    with run auth have "r = Inl KvStoreUnsupported" "log = []" "q' = q"
      by (simp_all add: topo_batch_write_if_unchanged_def require_authority_def Let_def list_ex_iff bindP_run)
    then show ?thesis using conditional_ordered_before [of tp writes "[]" KvStoreUnsupported a opts] by simp
  next
    case False
    let ?comp = "iterP (\<lambda>t. iterP (\<lambda>run. on_fst (committing (t_name t) (t_role t) run))
         (clocked_batches t (changed t ?puts writes) writes opts)) (components (traced_topology tp))"
    obtain r1 w1 log1 q1 where first: "?comp ((w, []), q) = (r1, (w1, log1), q1)" by (cases "?comp ((w, []), q)") auto
    from commit_summary [where tg = fst and ks = "\<lambda>x. dkeys (snd (snd x))" and op' = "\<lambda>x. t_batch_write (fst x) (snd (snd x))
          (receives (fst x) \<lparr>wo_ttl = wo_ttl opts, wo_created_at = fst (snd x)\<rparr>)",
        OF first [unfolded components_traced component_phase]]
    have q1: "q1 = q" and before: "\<forall>ev \<in> set log1. ev_op ev = Wrote \<and> (\<exists>x \<in> set (batches_of (components tp) ?puts writes).
          ev_target ev = t_id (fst x) \<and> ev_keys ev = dkeys (snd (snd x)))"
      and r1: "case r1 of Inr _ \<Rightarrow> list_all (\<lambda>ev. ev_failure ev = None) log1
         | Inl e \<Rightarrow> \<exists>x \<in> set (batches_of (components tp) ?puts writes). \<exists>e'. e = committing_failure (t_name (fst x)) (t_role (fst x)) e'"
      by auto
    have inserts: "list_all (\<lambda>ev. ev_op ev = Wrote \<and> ev_target ev \<in> t_id ` set (components tp)
          \<and> list_all (\<lambda>k. ?v k = None) (ev_keys ev)) log1"
      unfolding list_all_iff
    proof (intro ballI)
      fix ev assume "ev \<in> set log1"
      with before obtain t c i where x: "(t, c, i) \<in> set (batches_of (components tp) ?puts writes)"
        "ev_op ev = Wrote" "ev_target ev = t_id t" "ev_keys ev = dkeys i" by fastforce
      from batches_of_keys [OF x(1)] False x
      show "ev_op ev = Wrote \<and> ev_target ev \<in> t_id ` set (components tp) \<and> (\<forall>k\<in>set (ev_keys ev). ?v k = None)"
        unfolding list_ex_iff by fastforce
    qed
    from run auth False have rest: "thenP ?comp (bindP (on_fst (committing (t_name a) Authority
           (traced_op WroteIf (t_id a) (dkeys writes) (t_batch_write_if_unchanged a (received a writes) opts)))) (\<lambda>written.
          let removed = filter (\<lambda>k. k \<in> written \<and> dget ?puts k = None) (dkeys writes);
              stored = dfilter (\<lambda>k _. k \<in> written) ?puts
          in thenP (if removed \<noteq> []
                 then iterP (\<lambda>t. sync_one (traced_topology tp) t ''batch delete'' (t_batch_delete t removed) None)
                        (removed_after_commit (traced_topology tp))
                 else returnP ())
            (thenP (iterP (\<lambda>t. iterP (\<lambda>run. sync_one (traced_topology tp) t ''batch set'' run None)
                   (clocked_batches t (changed t stored writes) writes opts)) (dependents (traced_topology tp)))
               (returnP written)))) ((w, []), q) = (r, (w', log), q')"
      by (simp add: topo_batch_write_if_unchanged_def require_authority_def Let_def list_ex_iff bindP_run [of "returnP _"] role
          del: bindP_Inr)
    show ?thesis
    proof (cases r1)
      case (Inl e)
      with rest first q1 have eq: "r = Inl e" "log = log1" "q' = q" by simp_all
      from r1 Inl obtain t c i e' where "(t, c, i) \<in> set (batches_of (components tp) ?puts writes)"
        "e = committing_failure (t_name t) (t_role t) e'" by fastforce
      with batches_of_keys [OF this(1)] have "is_uncommitted e" by (auto simp: components_def committing_failure_def)
      with eq conditional_ordered_before [OF inserts, of e] show ?thesis by simp
    next
      case (Inr u)
      obtain out w2 where cas: "t_batch_write_if_unchanged a (received a writes) opts w1 = (out, w2)" by fastforce
      let ?cas = "Event WroteIf (t_id a) (dkeys writes) (failure out)"
      have ok: "list_all (\<lambda>ev. ev_failure ev = None) log1" using r1 Inr by simp
      have commit: "on_fst (committing (t_name a) Authority
           (traced_op WroteIf (t_id a) (dkeys writes) (t_batch_write_if_unchanged a (received a writes) opts))) ((w1, log1), q)
         = (case out of Inl e \<Rightarrow> Inl (committing_failure (t_name a) Authority e) | Inr s \<Rightarrow> Inr s, (w2, log1 @ [?cas]), q)"
        using cas by (auto simp: committing_run traced_op_run split: sum.splits)
      show ?thesis
      proof (cases out)
        case (Inl e)
        with rest first Inr q1 commit have "r = Inl (committing_failure (t_name a) Authority e)" "log = log1 @ [?cas]" "q' = q"
          by simp_all
        with Inl conditional_ordered_after [OF _ inserts ok cas, of log "[]" "[]" r] show ?thesis
          by (intro exI [of _ "[]"]) simp
      next
        case out: (Inr written)
        let ?removed = "filter (\<lambda>k. k \<in> written \<and> dget ?puts k = None) (dkeys writes)"
        let ?stored = "dfilter (\<lambda>k _. k \<in> written) ?puts"
        from rest first Inr q1 commit out have "thenP (if ?removed \<noteq> []
              then iterP (\<lambda>t. sync_one (traced_topology tp) t ''batch delete'' (t_batch_delete t ?removed) None)
                     (removed_after_commit (traced_topology tp))
              else returnP ())
            (thenP (iterP (\<lambda>t. iterP (\<lambda>run. sync_one (traced_topology tp) t ''batch set'' run None)
                (clocked_batches t (changed t ?stored writes) writes opts)) (dependents (traced_topology tp)))
              (returnP written)) ((w2, log1 @ [?cas]), q) = (r, (w', log), q')"
          by (simp only: thenP_Inr bindP_Inr sum.case Let_def)
        from after_condition [OF this filter_is_subset_written written_keys_subset] obtain evs items where
          after: "log = (log1 @ [?cas]) @ evs" "q' = q @ items"
            "list_all (\<lambda>ev. ev_op ev \<in> {Deleted, Wrote} \<and> set (ev_keys ev) \<subseteq> written) evs"
            "?removed = [] \<and> ?stored = [] \<longrightarrow> evs = [] \<and> items = []"
            "case r of Inr s \<Rightarrow> s = written | Inl e \<Rightarrow> if deferred tp then is_uncommitted e else is_partial_sync e"
          by blast
        have "?removed = [] \<and> ?stored = []" if none: "written \<inter> set (dkeys writes) = {}"
        proof
          show "?removed = []" using none by (auto simp: filter_empty_conv)
          have "written \<inter> set (dkeys ?puts) = {}" using none dkeys_puts_of [of writes] by blast
          then show "?stored = []" by (rule filter_empty_keys)
        qed
        with after out conditional_ordered_after [OF _ inserts ok cas, of log evs items r] show ?thesis
          by (intro exI [of _ items]) simp
      qed
    qed
  qed
qed

section \<open>Work that waited for the commit\<close>

text \<open>What each queued operation raised that its policy does not tolerate, as it ran in its turn.\<close>

fun flush_failures :: "'w queued list \<Rightarrow> 'w \<Rightarrow> exn list" where
  "flush_failures [] w = []"
| "flush_failures (item # q) w = (case q_run item w of (r, w') \<Rightarrow>
     (case r of Inl e \<Rightarrow> (case settle_failure (q_name item) (q_policy item) False e of None \<Rightarrow> [] | Some e' \<Rightarrow> [e'])
      | Inr _ \<Rightarrow> []) @ flush_failures q w')"

lemma dmerge_eq_Nil [simp]: "dmerge d d' = [] \<longleftrightarrow> d = [] \<and> d' = []"
proof (induction d d' rule: dmerge.induct)
  case (2 d k v d')
  have "dput k v d \<noteq> []" by (cases d) (auto split: if_splits)
  with 2 show ?case by simp
qed simp

lemma flush_items_all:
  "\<exists>fs. flush_items q n failures w = (Inr fs, foldl (\<lambda>w item. snd (q_run item w)) w q)
     \<and> (fs = [] \<longleftrightarrow> failures = [] \<and> list_all (\<lambda>e. failures_of e = []) (flush_failures q w))"
proof (induction q arbitrary: n failures w)
  case (Cons item q)
  obtain r w1 where run: "q_run item w = (r, w1)" by fastforce
  let ?new = "case r of Inl e \<Rightarrow> (case settle_failure (q_name item) (q_policy item) False e of None \<Rightarrow> failures
      | Some e' \<Rightarrow> dmerge failures (map (\<lambda>(label, e'). (failure_label (q_what item) n label, e')) (failures_of e')))
    | Inr _ \<Rightarrow> failures"
  have step: "catchP (mapP (\<lambda>_. failures) (settle (q_name item) (q_policy item) (q_run item) False))
       (\<lambda>e. if is_partial_sync e
            then returnP (dmerge failures (map (\<lambda>(label, e'). (failure_label (q_what item) n label, e')) (failures_of e)))
            else raiseP e) w = (Inr ?new, w1)"
    using run settle_failure_side [of "q_name item" "q_policy item" False]
    by (auto simp: catchP_run mapP_run settle_run split: sum.splits option.splits)
  from Cons.IH [of "Suc n" ?new w1] obtain fs where
    fs: "flush_items q (Suc n) ?new w1 = (Inr fs, foldl (\<lambda>w item. snd (q_run item w)) w1 q)"
        "fs = [] \<longleftrightarrow> ?new = [] \<and> list_all (\<lambda>e. failures_of e = []) (flush_failures q w1)" by blast
  have "flush_items (item # q) n failures w = (Inr fs, foldl (\<lambda>w item. snd (q_run item w)) w (item # q))"
    using step fs(1) run by simp
  moreover have "?new = [] \<longleftrightarrow> failures = [] \<and> list_all (\<lambda>e. failures_of e = [])
      (case r of Inl e \<Rightarrow> (case settle_failure (q_name item) (q_policy item) False e of None \<Rightarrow> [] | Some e' \<Rightarrow> [e']) | Inr _ \<Rightarrow> [])"
    by (auto split: sum.splits option.splits)
  ultimately show ?case using fs(2) run by auto
qed simp

section \<open>Collection\<close>

lemma gc_committing_traced:
  assumes "gc_committing n (map traced_target ts) expired collected ((w, log), q) = (Inr (expired', collected'), (w', log'), q')"
  shows "q' = q \<and> log' = log @ map (\<lambda>t. Event (Collected n) (t_id t) [] None) ts
    \<and> (\<exists>kss. list_all2 (\<lambda>t ks. \<exists>w1 w2. t_gc t n w1 = (Inr ks, w2)) ts kss
         \<and> set collected' = set collected \<union> \<Union> (set ` set kss)
         \<and> expired' = fold (\<lambda>(t, ks) e. if t_role t = Authority then ks else e) (zip ts kss) expired)
    \<and> (distinct collected \<longrightarrow> distinct collected')"
  using assms
proof (induction ts arbitrary: expired collected w log)
  case (Cons t ts)
  obtain r w1 where run: "t_gc t n w = (r, w1)" by fastforce
  with Cons.prems obtain keys where r: "r = Inr keys"
    by (cases r) (auto simp: traced_op_run bindP_run)
  have step: "on_fst (t_gc (traced_target t) n) ((w, log), q) = (Inr keys, (w1, log @ [Event (Collected n) (t_id t) [] None]), q)"
    using run r by (simp add: traced_op_run)
  from Cons.prems step have "gc_committing n (map traced_target ts) (if t_role t = Authority then keys else expired)
      (fromkeys (collected @ keys)) ((w1, log @ [Event (Collected n) (t_id t) [] None]), q) = (Inr (expired', collected'), (w', log'), q')"
    by (simp only: list.map gc_committing.simps bindP_Inr traced_target_simps)
  from Cons.IH [OF this] obtain kss where
    "q' = q" "log' = (log @ [Event (Collected n) (t_id t) [] None]) @ map (\<lambda>t. Event (Collected n) (t_id t) [] None) ts"
    "list_all2 (\<lambda>t ks. \<exists>w1 w2. t_gc t n w1 = (Inr ks, w2)) ts kss"
    "set collected' = set (fromkeys (collected @ keys)) \<union> \<Union> (set ` set kss)"
    "expired' = fold (\<lambda>(t, ks) e. if t_role t = Authority then ks else e) (zip ts kss) (if t_role t = Authority then keys else expired)"
    "distinct collected'" by auto
  with run r show ?case by (intro conjI exI [of _ "keys # kss"]) auto
qed auto

lemma gc_dependents_traced:
  assumes "gc_dependents n (map traced_target ts) collected ((w, log), q) = (r, (w', log'), q')"
  shows "q' = q \<and> (\<exists>evs. log' = log @ evs \<and> list_all (\<lambda>ev. ev_op ev = Collected n) evs
    \<and> (\<forall>ks. r = Inr ks \<longrightarrow> set collected \<subseteq> set ks \<and> (distinct collected \<longrightarrow> distinct ks)
        \<and> map ev_target evs = map t_id (filter t_expires ts)))"
  using assms
proof (induction ts arbitrary: collected w log)
  case (Cons t ts)
  show ?case
  proof (cases "t_expires t")
    case False
    with Cons.prems have "gc_dependents n (map traced_target ts) collected ((w, log), q) = (r, (w', log'), q')" by simp
    from Cons.IH [OF this] False show ?thesis by simp
  next
    case True
    obtain a w1 where run: "t_gc t n w = (a, w1)" by fastforce
    let ?ev = "Event (Collected n) (t_id t) [] (failure a)"
    let ?own = "settle_into (t_name t) BestEffort (t_gc (traced_target t) n) False []"
    have own: "on_fst ?own ((w, log), q) = (case a of Inr ks \<Rightarrow> Inr ks
        | Inl e \<Rightarrow> (case settle_failure (t_name t) BestEffort False e of None \<Rightarrow> Inr [] | Some e' \<Rightarrow> Inl e'), (w1, log @ [?ev]), q)"
      using run by (auto simp: settle_into_def catchP_run traced_op_run split: sum.splits option.splits)
    show ?thesis
    proof (cases "\<exists>e e'. a = Inl e \<and> settle_failure (t_name t) BestEffort False e = Some e'")
      case True': True
      with own have "\<exists>e'. on_fst ?own ((w, log), q) = (Inl e', (w1, log @ [?ev]), q)" by auto
      with Cons.prems True have "log' = log @ [?ev]" "q' = q" "\<exists>e'. r = Inl e'" by (auto simp: bindP_Inl)
      then show ?thesis by (intro conjI exI [of _ "[?ev]"]) auto
    next
      case False
      with own obtain ks where ks: "on_fst ?own ((w, log), q) = (Inr ks, (w1, log @ [?ev]), q)"
        by (cases a) (auto split: option.splits)
      with Cons.prems True have "gc_dependents n (map traced_target ts) (fromkeys (collected @ ks)) ((w1, log @ [?ev]), q) = (r, (w', log'), q')"
        by (simp only: list.map gc_dependents.simps traced_target_simps if_True bindP_Inr)
      from Cons.IH [OF this] obtain evs where "q' = q" "log' = (log @ [?ev]) @ evs" "list_all (\<lambda>ev. ev_op ev = Collected n) evs"
        "\<forall>ks'. r = Inr ks' \<longrightarrow> set (fromkeys (collected @ ks)) \<subseteq> set ks' \<and> distinct ks' \<and> map ev_target evs = map t_id (filter t_expires ts)"
        by auto
      with True show ?thesis by (intro conjI exI [of _ "?ev # evs"]) auto
    qed
  qed
qed auto

end
