(* ===== verification/Topology_Trace.thy ===== *)
theory Topology_Trace
  imports Topology_Laws
begin

text \<open>
  The journal of \<open>traced_topology\<close> only watches: an operation on the traced topology
  returns and does to the media what the same operation on the topology itself does.
  So what the journal shows of the order is what the program does.
\<close>

section \<open>The same outcome, journal aside\<close>

definition same_on_media :: "(('w, 'k) traced, 'a) prog \<Rightarrow> ('w, 'a) prog \<Rightarrow> bool" where
  "same_on_media m m' \<longleftrightarrow> (\<forall>w log. \<exists>log'. m (w, log) = (fst (m' w), (snd (m' w), log')))"

definition same_on_node :: "(('w, 'k) traced \<times> 'm, 'a) prog \<Rightarrow> ('w \<times> 'n, 'a) prog \<Rightarrow> bool" where
  "same_on_node m m' \<longleftrightarrow> (\<forall>w log q q'. \<exists>log1 q1 q1'. m ((w, log), q) = (fst (m' (w, q')), ((fst (snd (m' (w, q'))), log1), q1))
     \<and> snd (m' (w, q')) = (fst (snd (m' (w, q'))), q1'))"

lemma same_on_nodeI:
  assumes "\<And>w log q q'. \<exists>r w1 log1 q1 q1'. m ((w, log), q) = (r, ((w1, log1), q1)) \<and> m' (w, q') = (r, (w1, q1'))"
  shows "same_on_node m m'"
  unfolding same_on_node_def
proof (intro allI)
  fix w log q q'
  from assms [of w log q q'] show "\<exists>log1 q1 q1'. m ((w, log), q) = (fst (m' (w, q')), ((fst (snd (m' (w, q'))), log1), q1))
     \<and> snd (m' (w, q')) = (fst (snd (m' (w, q'))), q1')" by auto
qed

lemma same_on_nodeD:
  assumes "same_on_node m m'"
  obtains r w1 log1 q1 q1' where "m ((w, log), q) = (r, ((w1, log1), q1))" "m' (w, q') = (r, (w1, q1'))"
proof -
  from assms obtain log1 q1 where "m ((w, log), q) = (fst (m' (w, q')), ((fst (snd (m' (w, q'))), log1), q1))"
    unfolding same_on_node_def by blast
  moreover obtain r w1 q1' where "m' (w, q') = (r, (w1, q1'))" by (cases "m' (w, q')") auto
  ultimately show thesis using that by simp
qed

lemma same_traced_op [intro]: "same_on_media (traced_op kind i ks m) m"
  by (auto simp: same_on_media_def traced_op_run split: prod.splits)

lemma same_on_fst_media [intro]: "same_on_media (on_fst m) m"
  by (auto simp: same_on_media_def split: prod.splits)

lemma same_committing: "same_on_media m m' \<Longrightarrow> same_on_media (committing name role m) (committing name role m')"
  unfolding same_on_media_def
proof (intro allI)
  fix w log
  assume "\<forall>w log. \<exists>log'. m (w, log) = (fst (m' w), (snd (m' w), log'))"
  then obtain log' where "m (w, log) = (fst (m' w), (snd (m' w), log'))" by blast
  then show "\<exists>log'. committing name role m (w, log)
      = (fst (committing name role m' w), (snd (committing name role m' w), log'))"
    by (cases "m' w") (auto simp: committing_run split: sum.splits)
qed

lemma same_settle: "same_on_media m m' \<Longrightarrow> same_on_media (settle name policy m before) (settle name policy m' before)"
  unfolding same_on_media_def
proof (intro allI)
  fix w log
  assume "\<forall>w log. \<exists>log'. m (w, log) = (fst (m' w), (snd (m' w), log'))"
  then obtain log' where "m (w, log) = (fst (m' w), (snd (m' w), log'))" by blast
  then show "\<exists>log'. settle name policy m before (w, log)
      = (fst (settle name policy m' before w), (snd (settle name policy m' before w), log'))"
    by (cases "m' w") (auto simp: settle_run split: sum.splits option.splits)
qed

lemma same_settle_into:
  "same_on_media m m' \<Longrightarrow> same_on_media (settle_into name policy m before a) (settle_into name policy m' before a)"
  unfolding same_on_media_def
proof (intro allI)
  fix w log
  assume "\<forall>w log. \<exists>log'. m (w, log) = (fst (m' w), (snd (m' w), log'))"
  then obtain log' where "m (w, log) = (fst (m' w), (snd (m' w), log'))" by blast
  then show "\<exists>log'. settle_into name policy m before a (w, log)
      = (fst (settle_into name policy m' before a w), (snd (settle_into name policy m' before a w), log'))"
    by (cases "m' w") (auto simp: settle_into_def catchP_run split: sum.splits option.splits)
qed

lemma same_thenP_unit: "same_on_media m m' \<Longrightarrow> same_on_media (thenP m (returnP a)) (thenP m' (returnP a))"
  unfolding same_on_media_def
proof (intro allI)
  fix w log
  assume "\<forall>w log. \<exists>log'. m (w, log) = (fst (m' w), (snd (m' w), log'))"
  then obtain log' where "m (w, log) = (fst (m' w), (snd (m' w), log'))" by blast
  then show "\<exists>log'. thenP m (returnP a) (w, log) = (fst (thenP m' (returnP a) w), (snd (thenP m' (returnP a) w), log'))"
    by (cases "m' w") (auto simp: thenP_run split: sum.splits)
qed

section \<open>Composed computations\<close>

lemma same_return [intro]: "same_on_node (returnP a) (returnP a)"
  by (auto simp: same_on_node_def)

lemma same_raise [intro]: "same_on_node (raiseP e) (raiseP e)"
  by (auto simp: same_on_node_def)

lemma same_on_fst:
  assumes "same_on_media m m'"
  shows "same_on_node (on_fst m) (on_fst m')"
proof (rule same_on_nodeI)
  fix w log q q'
  from assms obtain log' where "m (w, log) = (fst (m' w), (snd (m' w), log'))" unfolding same_on_media_def by blast
  then show "\<exists>r w1 log1 q1 q1'. on_fst m ((w, log), q) = (r, ((w1, log1), q1)) \<and> on_fst m' (w, q') = (r, (w1, q1'))"
    by (cases "m' w") simp
qed

lemma same_bind:
  assumes "same_on_node m m'" "\<And>a. same_on_node (f a) (f' a)"
  shows "same_on_node (bindP m f) (bindP m' f')"
proof (rule same_on_nodeI)
  fix w log q q'
  obtain r w1 log1 q1 q1' where m: "m ((w, log), q) = (r, ((w1, log1), q1))" "m' (w, q') = (r, (w1, q1'))"
    by (rule same_on_nodeD [OF assms(1)])
  show "\<exists>r w1 log1 q1 q1'. bindP m f ((w, log), q) = (r, ((w1, log1), q1)) \<and> bindP m' f' (w, q') = (r, (w1, q1'))"
  proof (cases r)
    case (Inl e)
    with m show ?thesis by simp
  next
    case (Inr a)
    obtain r2 w2 log2 q2 q2' where "f a ((w1, log1), q1) = (r2, ((w2, log2), q2))" "f' a (w1, q1') = (r2, (w2, q2'))"
      by (rule same_on_nodeD [OF assms(2)])
    with m Inr show ?thesis by (simp add: bindP_run)
  qed
qed

lemma same_then: "same_on_node m m' \<Longrightarrow> same_on_node n n' \<Longrightarrow> same_on_node (thenP m n) (thenP m' n')"
  unfolding thenP_def by (rule same_bind)

lemma same_map: "same_on_node m m' \<Longrightarrow> same_on_node (mapP f m) (mapP f m')"
  unfolding mapP_def by (rule same_bind) (auto intro: same_return)

lemma same_iter: "(\<And>x. same_on_node (f x) (f' x)) \<Longrightarrow> same_on_node (iterP f xs) (iterP f' xs)"
  by (induction xs) (auto intro: same_then)

lemma same_fold: "(\<And>x s. same_on_node (f x s) (f' x s)) \<Longrightarrow> same_on_node (foldP f xs s) (foldP f' xs s)"
  by (induction xs arbitrary: s) (auto intro: same_bind)

lemma same_collect: "(\<And>x. same_on_node (f x) (f' x)) \<Longrightarrow> same_on_node (collectP f xs) (collectP f' xs)"
  by (induction xs) (auto intro: same_bind same_map)

lemma foldP_map: "foldP f (map g xs) = foldP (\<lambda>x. f (g x)) xs"
proof (induction xs)
  case (Cons x xs)
  show ?case by (rule ext) (simp add: Cons.IH)
qed (simp add: fun_eq_iff)

lemma receives_traced [simp]: "receives (traced_target t) opts = receives t opts"
  by (simp add: receives_def)

lemma received_traced: "received (traced_target t) writes = received t writes"
  by (simp add: received_def)

lemma same_sync_one:
  assumes "same_on_media m m'"
  shows "same_on_node (sync_one (traced_topology tp) (traced_target t) what m policy) (sync_one tp t what m' policy)"
proof (rule same_on_nodeI)
  fix w log q q'
  let ?p = "case policy of None \<Rightarrow> t_policy t | Some p \<Rightarrow> p"
  have "same_on_media (settle (t_name t) ?p (thenP m (returnP ())) (deferred tp)) (settle (t_name t) ?p (thenP m' (returnP ())) (deferred tp))"
    by (intro same_settle same_thenP_unit assms)
  then obtain log' where "settle (t_name t) ?p (thenP m (returnP ())) (deferred tp) (w, log)
      = (fst (settle (t_name t) ?p (thenP m' (returnP ())) (deferred tp) w),
         (snd (settle (t_name t) ?p (thenP m' (returnP ())) (deferred tp) w), log'))"
    unfolding same_on_media_def by blast
  then show "\<exists>r w1 log1 q1 q1'. sync_one (traced_topology tp) (traced_target t) what m policy ((w, log), q) = (r, ((w1, log1), q1))
      \<and> sync_one tp t what m' policy (w, q') = (r, (w1, q1'))"
    by (cases "settle (t_name t) ?p (thenP m' (returnP ())) (deferred tp) w"; cases policy) (auto simp: sync_one_def syncs_run_def)
qed

section \<open>The operations\<close>

lemma topo_write_same: "same_on_node (topo_write (traced_topology tp) k v opts) (topo_write tp k v opts)"
  unfolding topo_write_def to_dependents_def
  by (simp add: iterP_map) (intro same_then same_iter same_on_fst same_committing same_sync_one same_traced_op)

lemma topo_batch_write_same: "same_on_node (topo_batch_write (traced_topology tp) items opts) (topo_batch_write tp items opts)"
  unfolding topo_batch_write_def to_dependents_def
  by (simp add: iterP_map same_return) (intro impI same_then same_iter same_on_fst same_committing same_sync_one same_traced_op)

lemma removed_now_traced [simp]: "removed_now (traced_topology tp) = map traced_target (removed_now tp)"
  by (simp add: removed_now_def split: option.split)

lemma topo_delete_same: "same_on_node (topo_delete (traced_topology tp) k) (topo_delete tp k)"
  unfolding topo_delete_def topo_remove_def
  by (simp add: iterP_map collectP_map)
    (intro same_bind same_then same_return same_collect same_iter same_on_fst same_sync_one same_traced_op)

lemma topo_unset_same: "same_on_node (topo_unset (traced_topology tp) k) (topo_unset tp k)"
  unfolding topo_unset_def topo_remove_def
  by (simp add: iterP_map collectP_map)
    (intro same_bind same_then same_return same_collect same_iter same_on_fst same_sync_one same_traced_op)

lemma traced_reads: "t_batch_exists (traced_target t) ks = on_fst (t_batch_exists t ks)"
  by (simp add: traced_target_def)

lemma topo_batch_delete_same:
  "same_on_node (topo_batch_delete (traced_topology tp) ks policy) (topo_batch_delete tp ks policy)"
proof (cases "ks = []")
  case True
  then show ?thesis by (simp add: topo_batch_delete_def topo_batch_remove_def same_return)
next
  case False
  have held: "same_on_node
      (if authority (traced_topology tp) = None
       then foldP (\<lambda>t held. mapP (\<lambda>s. held \<union> s) (on_fst (t_batch_exists t (fromkeys ks)))) (components (traced_topology tp)) {}
       else returnP {})
      (if authority tp = None
       then foldP (\<lambda>t held. mapP (\<lambda>s. held \<union> s) (on_fst (t_batch_exists t (fromkeys ks)))) (components tp) {}
       else returnP {})"
    by (auto simp: foldP_map traced_reads intro!: same_return same_fold same_map same_on_fst same_on_fst_media)
  have none: "(authority (traced_topology tp) = None) = (authority tp = None)" by simp
  show ?thesis
    unfolding topo_batch_delete_def topo_batch_remove_def Let_def if_not_P [OF False]
    by (rule same_bind [OF held], unfold none, rule same_bind, unfold removed_now_traced removed_traced collectP_map iterP_map traced_target_simps)
      (intro same_then same_return same_collect same_iter same_on_fst same_sync_one same_traced_op)+
qed

lemma topo_batch_write_if_unchanged_same:
  "same_on_node (topo_batch_write_if_unchanged (traced_topology tp) writes opts) (topo_batch_write_if_unchanged tp writes opts)"
proof (cases "authority tp")
  case None
  then show ?thesis by (simp add: topo_batch_write_if_unchanged_def require_authority_def same_on_node_def)
next
  case (Some a)
  have batches: "same_on_node (iterP (\<lambda>t. iterP (\<lambda>run. on_fst (committing (t_name t) (t_role t) run)) (clocked_batches t (changed t d writes) writes opts)) (map traced_target ts))
      (iterP (\<lambda>t. iterP (\<lambda>run. on_fst (committing (t_name t) (t_role t) run)) (clocked_batches t (changed t d writes) writes opts)) ts)" for d ts
    by (auto simp: iterP_map clocked_batches_def intro!: same_iter same_on_fst same_committing same_traced_op split: prod.splits)
  have syncs: "same_on_node (iterP (\<lambda>t. iterP (\<lambda>run. sync_one (traced_topology tp) t what run None) (clocked_batches t (changed t d writes) writes opts)) (map traced_target ts))
      (iterP (\<lambda>t. iterP (\<lambda>run. sync_one tp t what run None) (clocked_batches t (changed t d writes) writes opts)) ts)" for d ts what
    by (auto simp: iterP_map clocked_batches_def intro!: same_iter same_sync_one same_traced_op split: prod.splits)
  have require: "bindP (require_authority (traced_topology tp)) f = f (traced_target a)"
    "bindP (require_authority tp) f' = f' a" for f :: "_ \<Rightarrow> (_, 'k set) prog" and f' :: "_ \<Rightarrow> (_, 'k set) prog"
    using Some by (simp_all add: require_authority_def bindP_def returnP_def fun_eq_iff)
  show ?thesis
    unfolding topo_batch_write_if_unchanged_def require Let_def
    by (auto simp: received_traced list_ex_iff iterP_map [of _ _ "removed_after_commit tp"]
        intro!: same_raise same_then same_bind same_return batches syncs same_on_fst same_committing same_traced_op same_iter same_sync_one)
qed

end
