(* ===== verification/Store.thy ===== *)
theory Store
  imports Topology
begin

text \<open>
  Stores, \<open>src/kvtsjl/store/logical.py\<close> and \<open>src/kvtsjl/store/compose/topology.py\<close>: a
  store is a keymap with a write clock, expiry, a durability mode, pages of what its
  fallbacks hold and a place in the tree of deferred syncs. \<open>StoreTarget\<close> makes a store a
  target, \<open>StoreTopologyMixin\<close> makes a topology of stores a store.
\<close>

section \<open>The store interface\<close>

record ('w, 'k, 'v) store =
  st_keymap :: "('w, 'k, 'v) keymap"
  st_batch_size :: int
  st_supports_write_clock :: bool
  st_writes_are_deferred :: bool
  st_gc_expired_keys :: "int \<Rightarrow> ('w, 'k list) prog"
  st_scan_keys :: "int \<Rightarrow> ('w, 'k list) prog"
  st_missing_pages :: "int \<Rightarrow> ('w, ('w, 'k, 'v) missing_pages) prog"
  st_pending_index_syncs :: "'w \<Rightarrow> nat"
  st_flush_index_syncs :: "('w, unit) prog"
  st_discard_index_syncs :: "('w, unit) prog"

section \<open>The tree of deferred syncs\<close>

text \<open>\<open>SyncTreeNode\<close>: the operations of a node with the given children.\<close>

definition tree_pending :: "('w, 'k, 'v) store list \<Rightarrow> 'w \<Rightarrow> nat" where
  "tree_pending children w = sum_list (map (\<lambda>c. st_pending_index_syncs c w) children)"

fun flush_each :: "('w, unit) prog list \<Rightarrow> (string \<times> exn) list \<Rightarrow> ('w, (string \<times> exn) list) prog" where
  "flush_each [] failures = returnP failures"
| "flush_each (m # ms) failures = bindP
     (catchP (mapP (\<lambda>_. failures) m)
       (\<lambda>e. if is_partial_sync e then returnP (dmerge failures (failures_of e)) else raiseP e))
     (flush_each ms)"

definition flush_together :: "('w, unit) prog list \<Rightarrow> ('w, unit) prog" where
  "flush_together ms = bindP (flush_each ms []) (\<lambda>failures.
     if failures \<noteq> [] then raiseP (PartialSyncError failures) else returnP ())"

definition tree_flush :: "('w, 'k, 'v) store list \<Rightarrow> ('w, unit) prog" where
  "tree_flush children = flush_together (map st_flush_index_syncs children)"

definition tree_discard :: "('w, 'k, 'v) store list \<Rightarrow> ('w, unit) prog" where
  "tree_discard children = iterP st_discard_index_syncs children"

section \<open>A store as a target\<close>

definition store_target ::
  "nat \<Rightarrow> string \<Rightarrow> role \<Rightarrow> ('w, 'k, 'v) store \<Rightarrow> ('v \<Rightarrow> 'v option) \<Rightarrow> lookup option \<Rightarrow> bool \<Rightarrow> sync_policy
   \<Rightarrow> exn + ('w, 'k, 'v) target" where
  "store_target ident name role st slot lookup fill policy =
     (case keymap_target ident name role (st_keymap st) slot lookup fill policy of
        Inl e \<Rightarrow> Inl e
      | Inr t \<Rightarrow> Inr (t\<lparr>
          t_supports_write_clock := st_supports_write_clock st,
          t_expires := True,
          t_gc := st_gc_expired_keys st,
          t_writes_are_deferred := st_writes_are_deferred st,
          t_keys := st_scan_keys st,
          t_missing_pages := st_missing_pages st\<rparr>))"

section \<open>A topology of stores as a store\<close>

definition admit :: "('w, 'k, 'v) topology \<Rightarrow> write_options \<Rightarrow> ('u, unit) prog" where
  "admit tp o' = (case require_write_clock_supported (wo_created_at o') (tp_supports_write_clock tp) of
      Some e \<Rightarrow> raiseP e | None \<Rightarrow> returnP ())"

definition topology_keymap :: "('w, 'k, 'v) topology \<Rightarrow> ('w node, 'k, 'v) keymap" where
  "topology_keymap tp = (record_keymap tp)\<lparr>
     km_stat := \<lambda>k. if assembled tp then km_stat (record_keymap tp) k else on_fst (topo_stat tp k),
     km_batch_stat := \<lambda>ks. if assembled tp then km_batch_stat (record_keymap tp) ks else on_fst (topo_batch_stat tp ks),
     km_set := \<lambda>k v o'. thenP (admit tp o') (topo_write tp k v o'),
     km_batch_set := \<lambda>items o'. thenP (admit tp o') (topo_batch_write tp items o'),
     km_batch_write_if_unchanged := \<lambda>writes ttl.
       thenP (iterP (\<lambda>(_, w). admit tp \<lparr>wo_ttl = ttl, wo_created_at = cw_created_at w\<rparr>) writes)
         (km_batch_write_if_unchanged (record_keymap tp) writes ttl)\<rparr>"

text \<open>
  \<open>batch_size\<close> and the scan of keys are the composition's own: \<open>scan_keys\<close> is a parameter
  here. \<open>children\<close> are the stores beneath the node.
\<close>

definition node_flush :: "('w, 'k, 'v) store list \<Rightarrow> ('w node, unit) prog" where
  "node_flush children = flush_together [flush, on_fst (tree_flush children)]"

definition node_discard :: "('w, 'k, 'v) store list \<Rightarrow> ('w node, unit) prog" where
  "node_discard children = thenP discard (on_fst (tree_discard children))"

definition node_page :: "('w, 'k, 'v) missing_page \<Rightarrow> ('w node, 'k, 'v) missing_page" where
  "node_page p = \<lparr>mp_listed = mp_listed p, mp_missing = mp_missing p,
     mp_read = \<lambda>ks. on_fst (mp_read p ks), mp_stat = \<lambda>ks. on_fst (mp_stat p ks)\<rparr>"

definition topology_store ::
  "int \<Rightarrow> (int \<Rightarrow> ('w, 'k list) prog) \<Rightarrow> ('w, 'k, 'v) store list \<Rightarrow> ('w, 'k, 'v) topology \<Rightarrow> ('w node, 'k, 'v) store" where
  "topology_store batch_size scan_keys children tp = \<lparr>
     st_keymap = topology_keymap tp,
     st_batch_size = batch_size,
     st_supports_write_clock = tp_supports_write_clock tp,
     st_writes_are_deferred = deferred tp,
     st_gc_expired_keys = \<lambda>n. topo_gc tp n BestEffort,
     st_scan_keys = \<lambda>n. on_fst (scan_keys n),
     st_missing_pages = \<lambda>n. mapP (map (\<lambda>m. mapP node_page (on_fst m))) (on_fst (topo_missing_pages tp n)),
     st_pending_index_syncs = \<lambda>n. syncs_pending n + tree_pending children (fst n),
     st_flush_index_syncs = node_flush children,
     st_discard_index_syncs = node_discard children\<rparr>"

text \<open>
  \<open>delete_where\<close>: collection when the predicate asks for expired entries; otherwise what
  \<open>scan\<close> selects, removed in the topology's order.
\<close>

definition no_limit :: int where
  "no_limit = 2147483647"

definition topo_delete_where ::
  "('w, 'k, 'v) topology \<Rightarrow> bool \<Rightarrow> ('w node, 'k list) prog \<Rightarrow> int option \<Rightarrow> sync_policy option \<Rightarrow> ('w node, int) prog" where
  "topo_delete_where tp gc_predicate scan limit policy =
     (if gc_predicate then
        let max_entries = (case limit of None \<Rightarrow> no_limit | Some l \<Rightarrow> l) in
        if max_entries < 1 then raiseP ValueError
        else mapP (\<lambda>keys. int (length keys))
          (topo_gc tp max_entries (case policy of None \<Rightarrow> BestEffort | Some p \<Rightarrow> p))
      else bindP scan (\<lambda>keys. topo_batch_delete tp keys policy))"

section \<open>Filling what is missing\<close>

definition page_size_of :: "int option \<Rightarrow> int \<Rightarrow> exn + int" where
  "page_size_of asked dflt = (let sz = (case asked of None \<Rightarrow> dflt | Some n \<Rightarrow> n)
     in if sz < 1 then Inl ValueError else Inr sz)"

definition missing_keys :: "('w, 'k, 'v) store \<Rightarrow> int option \<Rightarrow> ('w, 'k list) prog" where
  "missing_keys st page_size = (case page_size_of page_size (st_batch_size st) of
      Inl e \<Rightarrow> raiseP e
    | Inr sz \<Rightarrow> bindP (st_missing_pages st sz) (\<lambda>pages. mapP concat (collectP (mapP mp_missing) pages)))"

record fill_stats =
  fs_scanned :: int
  fs_missing :: int
  fs_written :: int
  fs_lost_race :: int
  fs_source_miss :: int

definition no_fills :: fill_stats where
  "no_fills = \<lparr>fs_scanned = 0, fs_missing = 0, fs_written = 0, fs_lost_race = 0, fs_source_miss = 0\<rparr>"

text \<open>
  The inner \<open>for key in listed\<close>: gather copies until the budget is spent. \<open>listed\<close> is an
  iterator shared by the rounds of a page, so the rest of it is returned.
\<close>

fun gather_copies ::
  "int option \<Rightarrow> 'k set \<Rightarrow> ('k, 'v) dict \<Rightarrow> ('k, record_stat) dict \<Rightarrow> 'k list \<Rightarrow> fill_stats \<Rightarrow> ('k, 'v cond_write) dict
   \<Rightarrow> 'k list \<times> fill_stats \<times> ('k, 'v cond_write) dict" where
  "gather_copies budget wanted found clocks [] stats copies = ([], stats, copies)"
| "gather_copies budget wanted found clocks (key # listed) stats copies =
     (let stats = stats\<lparr>fs_scanned := fs_scanned stats + 1\<rparr> in
      if key \<notin> wanted then gather_copies budget wanted found clocks listed stats copies
      else let stats = stats\<lparr>fs_missing := fs_missing stats + 1\<rparr> in
      case dget found key of
        None \<Rightarrow> gather_copies budget wanted found clocks listed (stats\<lparr>fs_source_miss := fs_source_miss stats + 1\<rparr>) copies
      | Some value \<Rightarrow>
          let copies = dput key (ConditionalWrite absent (Put value) (clock_of (dget clocks key))) copies in
          if (case budget of None \<Rightarrow> False | Some b \<Rightarrow> int (length copies) \<ge> b) then (listed, stats, copies)
          else gather_copies budget wanted found clocks listed stats copies)"

lemma gather_copies_length: "length (fst (gather_copies b wn fd cl ks st cs)) \<le> length ks"
proof (induction ks arbitrary: st cs)
  case (Cons k ks)
  then show ?case by (auto simp: Let_def intro: le_SucI split: option.split)
qed simp

lemma gather_copies_consumes: "length (fst (gather_copies b wn fd cl (k # ks) st cs)) \<le> length ks"
  using gather_copies_length [of b wn fd cl ks] by (simp add: Let_def split: option.split)

lemma gather_copies_shorter:
  assumes "gather_copies b wn fd cl ks st [] = (rest, st', cs)" "cs \<noteq> []"
  shows "length rest < length ks"
proof (cases ks)
  case Nil
  with assms show ?thesis by simp
next
  case (Cons k ks')
  with assms gather_copies_consumes [of b wn fd cl k ks' st "[]"] show ?thesis by (simp del: gather_copies.simps)
qed

text \<open>The rounds of one page; the flag says the limit was reached.\<close>

function fill_page ::
  "('w, 'k, 'v) keymap \<Rightarrow> int option \<Rightarrow> 'k set \<Rightarrow> ('k, 'v) dict \<Rightarrow> ('k, record_stat) dict \<Rightarrow> 'k list \<Rightarrow> fill_stats
   \<Rightarrow> ('w, bool \<times> fill_stats) prog" where
  "fill_page km limit wanted found clocks listed stats =
     (if (case limit of None \<Rightarrow> False | Some l \<Rightarrow> fs_written stats \<ge> l) then returnP (True, stats)
      else (case gather_copies (map_option (\<lambda>l. l - fs_written stats) limit) wanted found clocks listed stats [] of
        (rest, stats', copies) \<Rightarrow>
          if copies = [] then returnP (False, stats')
          else bindP (km_batch_write_if_unchanged km copies None) (\<lambda>won.
            fill_page km limit wanted found clocks rest
              (stats'\<lparr>fs_written := fs_written stats' + int (card won),
                      fs_lost_race := fs_lost_race stats' + (int (length copies) - int (card won))\<rparr>))))"
  by pat_completeness auto
termination
  by (relation "measure (\<lambda>(_, _, _, _, _, listed, _). length listed)") (auto dest: gather_copies_shorter [OF sym])

declare fill_page.simps [simp del]

fun fill_pages ::
  "('w, 'k, 'v) store \<Rightarrow> int option \<Rightarrow> ('w, 'k, 'v) missing_pages \<Rightarrow> fill_stats \<Rightarrow> ('w, fill_stats) prog" where
  "fill_pages st limit [] stats = returnP stats"
| "fill_pages st limit (m # pages) stats = bindP m (\<lambda>page.
     bindP (if mp_missing page \<noteq> [] then mp_read page (mp_missing page) else returnP []) (\<lambda>found.
     bindP (if found \<noteq> [] \<and> st_supports_write_clock st then mp_stat page (dkeys found) else returnP []) (\<lambda>clocks.
     bindP (fill_page (st_keymap st) limit (set (mp_missing page)) found clocks (mp_listed page) stats) (\<lambda>(stop, stats).
       if stop then returnP stats else fill_pages st limit pages stats))))"

definition fill_missing :: "('w, 'k, 'v) store \<Rightarrow> int option \<Rightarrow> int option \<Rightarrow> ('w, fill_stats) prog" where
  "fill_missing st page_size limit =
     (if (case limit of None \<Rightarrow> False | Some l \<Rightarrow> l < 1) then raiseP ValueError
      else case page_size_of page_size (st_batch_size st) of
        Inl e \<Rightarrow> raiseP e
      | Inr sz \<Rightarrow> bindP (st_missing_pages st sz) (\<lambda>pages. fill_pages st limit pages no_fills))"

section \<open>Read or compute\<close>

text \<open>
  \<open>get_or_set\<close>: \<open>compute\<close> is the value \<open>compute_value_fn\<close> returns (\<open>None\<close> stays a value of the
  decision only if the computation returns no value). A \<open>KvStoreConflict\<close> passes through.
\<close>

definition compute_absent :: "'v \<Rightarrow> 'v option \<Rightarrow> 'v decision" where
  "compute_absent value current = (if current \<noteq> None then Keep else Change (Put value))"

definition get_or_set :: "('w, 'k, 'v) store \<Rightarrow> 'k \<Rightarrow> 'v \<Rightarrow> int \<Rightarrow> ('w, 'v update_result) prog" where
  "get_or_set st key value attempts = bindP (km_get (st_keymap st) key) (\<lambda>found. case found of
      Some v \<Rightarrow> returnP (Holds (Some v))
    | None \<Rightarrow> bindP (update (st_keymap st) key (compute_absent value) no_options attempts) (\<lambda>r. case r of
          Holds None \<Rightarrow> raiseP KvStoreError
        | _ \<Rightarrow> returnP r))"

definition compute_missing ::
  "('k list \<Rightarrow> ('k, 'v) dict) \<Rightarrow> ('k, 'v option) dict \<Rightarrow> ('k, 'v decision) dict" where
  "compute_missing compute current =
     (let lacking = dkeys (dfilter (\<lambda>_ v. v = None) current);
          computed = (if lacking \<noteq> [] then compute lacking else [])
      in map (\<lambda>k. (k, Change (Put (the (dget computed k))))) (filter (\<lambda>k. dget computed k \<noteq> None) lacking))"

fun get_or_set_chunks ::
  "('w, 'k, 'v) keymap \<Rightarrow> ('k list \<Rightarrow> ('k, 'v) dict) \<Rightarrow> int \<Rightarrow> 'k list list \<Rightarrow> ('k, 'v) dict
   \<Rightarrow> ('w, ('k, 'v) update_outcome) prog" where
  "get_or_set_chunks km compute attempts [] result = returnP (Held result)"
| "get_or_set_chunks km compute attempts (chunk # chunks) result = bindP (km_batch_get km chunk) (\<lambda>hits.
     let result = dmerge result hits; missing = filter (\<lambda>k. dget result k = None) chunk in
     if missing = [] then get_or_set_chunks km compute attempts chunks result
     else bindP (batch_update km missing (compute_missing compute) no_options attempts) (\<lambda>r. case r of
         Held held \<Rightarrow> get_or_set_chunks km compute attempts chunks (dmerge result held)
       | Conflicted lost held \<Rightarrow> returnP (Conflicted lost held)))"

definition batch_get_or_set ::
  "('w, 'k, 'v) store \<Rightarrow> 'k list \<Rightarrow> ('k list \<Rightarrow> ('k, 'v) dict) \<Rightarrow> int \<Rightarrow> ('w, ('k, 'v) update_outcome) prog" where
  "batch_get_or_set st keys compute attempts = (case chunk_sequence keys (st_batch_size st) of
      None \<Rightarrow> raiseP ValueError
    | Some chunks \<Rightarrow> get_or_set_chunks (st_keymap st) compute attempts chunks [])"

end
