(* ===== verification/Compositions.thy ===== *)
theory Compositions
  imports Store
begin

text \<open>
  The compositions that declare a topology: \<open>coalesce\<close> / \<open>fallback_read\<close>, \<open>zip\<close> and
  \<open>zip_with\<close> (\<open>src/kvtsjl/keymap_algebra/coalesce.py\<close>, \<open>zip.py\<close>), \<open>mirror\<close> and \<open>indexed\<close>
  (\<open>src/kvtsjl/store/compose/mirror.py\<close>, \<open>indexed.py\<close>). The parts of a composition are
  keymaps (or stores) over one state of the media.
\<close>

section \<open>Declaring targets\<close>

text \<open>Targets declared together; the first refused declaration is the constructor's error.\<close>

fun all_declared :: "(exn + 'a) list \<Rightarrow> exn + 'a list" where
  "all_declared [] = Inr []"
| "all_declared (Inl e # ds) = Inl e"
| "all_declared (Inr t # ds) = (case all_declared ds of Inl e \<Rightarrow> Inl e | Inr ts \<Rightarrow> Inr (t # ts))"

definition declare_targets :: "(exn + ('w, 'k, 'v) target) list \<Rightarrow> exn + ('w, 'k, 'v) topology" where
  "declare_targets ds = (case all_declared ds of Inl e \<Rightarrow> Inl e | Inr ts \<Rightarrow> new_topology ts [] None)"

section \<open>\<open>coalesce\<close> and \<open>mirror\<close>\<close>

definition coalesced_topology ::
  "('w, 'k, 'v) keymap \<Rightarrow> ('w, 'k, 'v) keymap \<Rightarrow> bool \<Rightarrow> exn + ('w, 'k, 'v) topology" where
  "coalesced_topology left right promote = declare_targets
     [keymap_target 0 ''primary'' Authority left whole None promote Required,
      keymap_target 1 ''secondary'' Fallback right whole None False Required]"

definition coalesced_store_topology ::
  "('w, 'k, 'v) store \<Rightarrow> ('w, 'k, 'v) store \<Rightarrow> bool \<Rightarrow> exn + ('w, 'k, 'v) topology" where
  "coalesced_store_topology primary secondary promote = declare_targets
     [store_target 0 ''primary'' Authority primary whole None promote Required,
      store_target 1 ''secondary'' Fallback secondary whole None False Required]"

definition mirror_topology ::
  "('w, 'k, 'v) store \<Rightarrow> ('w, 'k, 'v) store \<Rightarrow> sync_policy \<Rightarrow> exn + ('w, 'k, 'v) topology" where
  "mirror_topology primary secondary policy = declare_targets
     [store_target 0 ''primary'' Authority primary whole None False Required,
      store_target 1 ''secondary'' Dependent secondary whole None False policy]"

section \<open>\<open>indexed\<close>\<close>

text \<open>An attached index: its label \<open>f"{i}:{name}"\<close> is made from its position and name.\<close>

record ('w, 'k, 'v) index =
  ix_name :: string
  ix_sync_on_write :: bool
  ix_sync :: "'k \<Rightarrow> 'v \<Rightarrow> ('w, unit) prog"
  ix_batch_sync :: "('k, 'v) dict \<Rightarrow> ('w, unit) prog"
  ix_delete :: "'k \<Rightarrow> ('w, bool) prog"
  ix_batch_delete :: "'k list \<Rightarrow> ('w, int) prog"

definition index_fanout_label :: "nat \<Rightarrow> ('w, 'k, 'v) index \<Rightarrow> string" where
  "index_fanout_label i index = nat_string i @ '':'' @ ix_name index"

text \<open>\<open>_each\<close>: every index is attempted, the failures are reported together.\<close>

fun each_index ::
  "(('w, 'k, 'v) index \<Rightarrow> ('w, unit) prog) \<Rightarrow> nat \<Rightarrow> ('w, 'k, 'v) index list \<Rightarrow> (string \<times> exn) list \<Rightarrow> ('w, unit) prog" where
  "each_index op' i [] failures = (if failures \<noteq> [] then raiseP (PartialSyncError failures) else returnP ())"
| "each_index op' i (index # indexes) failures =
     (if \<not> ix_sync_on_write index then each_index op' (Suc i) indexes failures
      else bindP (catchP (mapP (\<lambda>_. failures) (op' index))
             (\<lambda>e. returnP (dput (index_fanout_label i index) e failures)))
           (each_index op' (Suc i) indexes))"

definition indexes_delete :: "('w, 'k, 'v) index list \<Rightarrow> 'k \<Rightarrow> ('w, bool) prog" where
  "indexes_delete indexes key = thenP (each_index (\<lambda>ix. thenP (ix_delete ix key) (returnP ())) 0 indexes []) (returnP False)"

definition indexes_batch_delete :: "('w, 'k, 'v) index list \<Rightarrow> 'k list \<Rightarrow> ('w, int) prog" where
  "indexes_batch_delete indexes keys =
     thenP (each_index (\<lambda>ix. thenP (ix_batch_delete ix keys) (returnP ())) 0 indexes []) (returnP 0)"

definition indexes_target ::
  "nat \<Rightarrow> ('w, 'k, 'v) index list \<Rightarrow> sync_policy \<Rightarrow> exn + ('w, 'k, 'v) target" where
  "indexes_target ident indexes policy =
     (case new_target ident ''indexes'' Dependent None False policy of
        Inl e \<Rightarrow> Inl e
      | Inr t \<Rightarrow> Inr (t\<lparr>
          t_write := \<lambda>key value _. each_index (\<lambda>ix. ix_sync ix key value) 0 indexes [],
          t_batch_write := \<lambda>items _. each_index (\<lambda>ix. ix_batch_sync ix items) 0 indexes [],
          t_delete := indexes_delete indexes,
          t_batch_delete := indexes_batch_delete indexes,
          t_unset := indexes_delete indexes,
          t_batch_unset := count_true (indexes_delete indexes)\<rparr>))"

definition indexed_topology ::
  "('w, 'k, 'v) store \<Rightarrow> ('w, 'k, 'v) index list \<Rightarrow> sync_policy \<Rightarrow> exn + ('w, 'k, 'v) topology" where
  "indexed_topology underlying indexes policy = declare_targets
     [store_target 0 ''store'' Authority underlying whole None False Required,
      indexes_target 1 indexes policy]"

text \<open>
  \<open>_hydrate\<close>: the records of the hits, in the order of the hits; a hit whose record is
  gone is left out.
\<close>

definition hydrate :: "('w, 'k, 'v) keymap \<Rightarrow> 'k list \<Rightarrow> ('w, ('k \<times> 'v) list) prog" where
  "hydrate km hits = (if hits = [] then returnP []
     else mapP (\<lambda>found. map (\<lambda>k. (k, the (dget found k))) (filter (\<lambda>k. dget found k \<noteq> None) hits)) (km_batch_get km hits))"

section \<open>\<open>zip\<close> and \<open>zip_with\<close>\<close>

text \<open>
  Python values, as far as a zip looks into them: a tuple of optional slots, an object
  with optional fields, anything else.
\<close>

datatype 'a obj = Atom 'a | Tuple "'a obj option list" | Fields "(string \<times> 'a obj option) list"

definition normalize_mandatory :: "nat \<Rightarrow> bool list option \<Rightarrow> exn + bool list" where
  "normalize_mandatory n mandatory = (case mandatory of
      None \<Rightarrow> Inr (replicate n False)
    | Some m \<Rightarrow> if length m \<noteq> n then Inl ValueError else Inr m)"

definition row_present :: "'a option list \<Rightarrow> bool list \<Rightarrow> bool" where
  "row_present values mandatory =
     (if list_all (\<lambda>v. v = None) values then False
      else \<not> list_ex (\<lambda>(v, required). required \<and> v = None) (zip values mandatory))"

definition slot_at :: "nat \<Rightarrow> 'a obj \<Rightarrow> 'a obj option" where
  "slot_at i value = (case value of Tuple vs \<Rightarrow> if i < length vs then vs ! i else None | _ \<Rightarrow> None)"

definition field_at :: "string \<Rightarrow> 'a obj \<Rightarrow> 'a obj option" where
  "field_at name value = (case value of
      Fields fs \<Rightarrow> (case dget fs name of None \<Rightarrow> None | Some v \<Rightarrow> v) | _ \<Rightarrow> None)"

definition zip_row :: "bool list \<Rightarrow> 'a obj option list \<Rightarrow> 'a obj option" where
  "zip_row mandatory values = (if row_present values mandatory then Some (Tuple values) else None)"

definition part_target ::
  "nat \<Rightarrow> string \<Rightarrow> role \<Rightarrow> ('w, 'k, 'a obj) keymap \<Rightarrow> ('a obj \<Rightarrow> 'a obj option) \<Rightarrow> exn + ('w, 'k, 'a obj) target" where
  "part_target ident name role km slot = keymap_target ident name role km slot None False Required"

definition zipped_topology ::
  "('w, 'k, 'a obj) keymap list \<Rightarrow> bool list option \<Rightarrow> exn + ('w, 'k, 'a obj) topology" where
  "zipped_topology parts mandatory =
     (if length parts < 2 then Inl ValueError else
      case normalize_mandatory (length parts) mandatory of Inl e \<Rightarrow> Inl e
      | Inr m \<Rightarrow> (case all_declared (map (\<lambda>(i, km). part_target i (''part['' @ nat_string i @ '']'') Component km (slot_at i))
                          (enumerate 0 parts)) of
            Inl e \<Rightarrow> Inl e
          | Inr ts \<Rightarrow> new_topology [] ts (Some (\<lambda>held. zip_row m (map (\<lambda>t. held (t_id t)) ts)))))"

text \<open>\<open>_check\<close>, \<open>set\<close> and \<open>batch_set\<close> of \<open>ZippedKeyMap\<close>.\<close>

definition zip_check :: "nat \<Rightarrow> 'a obj list \<Rightarrow> ('u, unit) prog" where
  "zip_check n values = (if list_all (\<lambda>v. case v of Tuple vs \<Rightarrow> length vs = n | _ \<Rightarrow> False) values
     then returnP () else raiseP ValueError)"

definition zipped_keymap :: "nat \<Rightarrow> ('w, 'k, 'a obj) topology \<Rightarrow> ('w node, 'k, 'a obj) keymap" where
  "zipped_keymap n tp = (record_keymap tp)\<lparr>
     km_set := \<lambda>k v o'. thenP (zip_check n [v]) (topo_write tp k v o'),
     km_batch_set := \<lambda>items o'. thenP (zip_check n (map snd items)) (topo_batch_write tp items o')\<rparr>"

definition zip_role :: "string option \<Rightarrow> string list \<Rightarrow> string \<Rightarrow> role" where
  "zip_role commit_part after_commit name =
     (if Some name = commit_part then Authority else if name \<in> set after_commit then Dependent else Component)"

definition zip_record ::
  "((string \<times> 'a obj option) list \<Rightarrow> 'a obj) \<Rightarrow> string list \<Rightarrow> bool list \<Rightarrow> 'a obj option list \<Rightarrow> 'a obj option" where
  "zip_record ctor field_names mandatory values =
     (if \<not> row_present values mandatory then None else Some (ctor (zip field_names values)))"

text \<open>
  \<open>ZipWithKeyMap.__init__\<close> and \<open>topology\<close>. \<open>declared\<close> are the field names given, or those of
  the dataclass \<open>ctor\<close>; \<open>None\<close> when neither is known.
\<close>

definition zip_with_topology ::
  "((string \<times> 'a obj option) list \<Rightarrow> 'a obj) \<Rightarrow> (string \<times> ('w, 'k, 'a obj) keymap) list \<Rightarrow> string list option
   \<Rightarrow> bool list option \<Rightarrow> string option \<Rightarrow> string list \<Rightarrow> exn + ('w, 'k, 'a obj) topology" where
  "zip_with_topology ctor parts declared mandatory commit_part after_commit =
     (let field_names = (case declared of Some ns \<Rightarrow> ns | None \<Rightarrow> dkeys parts) in
      if parts = [] then Inl ValueError
      else if \<not> set field_names \<subseteq> set (dkeys parts) then Inl ValueError
      else if \<not> set (dkeys parts) \<subseteq> set field_names then Inl ValueError
      else case normalize_mandatory (length field_names) mandatory of Inl e \<Rightarrow> Inl e
      | Inr m \<Rightarrow>
          if (case commit_part of None \<Rightarrow> False | Some c \<Rightarrow> c \<notin> set (dkeys parts)) then Inl ValueError
          else if \<not> set after_commit \<subseteq> set (dkeys parts) then Inl ValueError
          else if after_commit \<noteq> [] \<and> commit_part = None then Inl ValueError
          else if (case commit_part of None \<Rightarrow> False | Some c \<Rightarrow> c \<in> set after_commit) then Inl ValueError
          else case all_declared (map (\<lambda>(i, name). part_target i name (zip_role commit_part after_commit name)
                   (the (dget parts name)) (field_at name)) (enumerate 0 field_names)) of
            Inl e \<Rightarrow> Inl e
          | Inr ts \<Rightarrow> new_topology [] ts (Some (\<lambda>held. zip_record ctor field_names m (map (\<lambda>t. held (t_id t)) ts))))"

definition zip_with_keymap :: "string option \<Rightarrow> ('w, 'k, 'a obj) topology \<Rightarrow> ('w node, 'k, 'a obj) keymap" where
  "zip_with_keymap commit_part tp = (record_keymap tp)\<lparr>
     km_batch_write_if_unchanged := \<lambda>writes ttl. if commit_part = None then raiseP KvStoreUnsupported
       else km_batch_write_if_unchanged (record_keymap tp) writes ttl\<rparr>"

end
