(* ===== verification/Sync_Reports.thy ===== *)
theory Sync_Reports
  imports Topology_Trace Compositions
begin

text \<open>
  What fails after the commit point and how it is reported: the flush of a node's queue,
  the fan-out over the indexes of a store, the flush of a tree, and collection. Every
  operation is attempted, and every failure the policy does not tolerate is in the report
  under a label of its own.
\<close>

section \<open>The flush of a queue\<close>

definition item_report :: "'w queued \<Rightarrow> nat \<Rightarrow> exn + unit \<Rightarrow> (string \<times> exn) list" where
  "item_report item n r = (case r of Inr _ \<Rightarrow> []
     | Inl e \<Rightarrow> (case settle_failure (q_name item) (q_policy item) False e of None \<Rightarrow> []
         | Some e' \<Rightarrow> map (\<lambda>(label, e'). (failure_label (q_what item) n label, e')) (failures_of e')))"

fun flush_report :: "'w queued list \<Rightarrow> nat \<Rightarrow> 'w \<Rightarrow> (string \<times> exn) list" where
  "flush_report [] n w = []"
| "flush_report (item # q) n w = (case q_run item w of (r, w') \<Rightarrow> item_report item n r @ flush_report q (Suc n) w')"

definition after_all :: "'w queued list \<Rightarrow> 'w \<Rightarrow> 'w" where
  "after_all q w = foldl (\<lambda>w item. snd (q_run item w)) w q"

lemma flush_items_report: "flush_items q n failures w = (Inr (dmerge failures (flush_report q n w)), after_all q w)"
proof (induction q arbitrary: n failures w)
  case (Cons item q)
  obtain r w1 where run: "q_run item w = (r, w1)" by fastforce
  have "catchP (mapP (\<lambda>_. failures) (settle (q_name item) (q_policy item) (q_run item) False))
       (\<lambda>e. if is_partial_sync e
            then returnP (dmerge failures (map (\<lambda>(label, e'). (failure_label (q_what item) n label, e')) (failures_of e)))
            else raiseP e) w = (Inr (dmerge failures (item_report item n r)), w1)"
    using run settle_failure_side [of "q_name item" "q_policy item" False]
    by (auto simp: catchP_run mapP_run settle_run item_report_def split: sum.splits option.splits)
  with run Cons.IH show ?case by (simp add: after_all_def dmerge_append)
qed (simp add: after_all_def)

text \<open>The labels of one position, and of two.\<close>

lemma failure_label_eq:
  assumes "CHR ''#'' \<notin> set what" "CHR ''#'' \<notin> set what'"
  shows "failure_label what n l = failure_label what' n' l' \<longleftrightarrow> what = what' \<and> n = n' \<and> l = l'"
  using assms by (auto simp: failure_label_def append_separator_eq)

definition reports_ok :: "'w queued \<Rightarrow> bool" where
  "reports_ok item \<longleftrightarrow> CHR ''#'' \<notin> set (q_what item) \<and> (\<forall>w fs. fst (q_run item w) = Inl (PartialSyncError fs) \<longrightarrow> dict_ok fs)"

lemma settled_failures_ok:
  assumes "settle_failure name policy False e = Some e'" "\<And>fs. e = PartialSyncError fs \<Longrightarrow> dict_ok fs"
  shows "dict_ok (failures_of e')"
  using assms by (cases e) (auto simp: settle_failure_def split: if_split_asm)

lemma item_report_labels:
  "set (dkeys (item_report item n r)) \<subseteq> range (failure_label (q_what item) n)"
  by (auto simp: item_report_def split: sum.splits option.splits)

lemma dict_ok_item_report:
  assumes "CHR ''#'' \<notin> set (q_what item)" "\<And>fs. r = Inl (PartialSyncError fs) \<Longrightarrow> dict_ok fs"
  shows "dict_ok (item_report item n r)"
proof -
  have labels: "map fst (map (\<lambda>(label, e'). (failure_label (q_what item) n label, e')) fs)
      = map (failure_label (q_what item) n) (dkeys fs)" for fs :: "(string \<times> exn) list" by auto
  have "inj (failure_label (q_what item) n)" using assms(1) by (auto intro: injI simp: failure_label_eq)
  then have "dict_ok (map (\<lambda>(label, e'). (failure_label (q_what item) n label, e')) fs)" if "dict_ok fs" for fs :: "(string \<times> exn) list"
    using that unfolding labels distinct_map [of "failure_label (q_what item) n"] by (auto intro: inj_on_subset)
  with assms(2) settled_failures_ok show ?thesis
    by (auto simp: item_report_def simp del: map_map split: sum.splits option.splits)
qed

lemma flush_report_labels:
  "l \<in> set (dkeys (flush_report q n w)) \<Longrightarrow> \<exists>item m l'. item \<in> set q \<and> n \<le> m \<and> l = failure_label (q_what item) m l'"
proof (induction q arbitrary: n w)
  case (Cons item q)
  obtain r w1 where run: "q_run item w = (r, w1)" by fastforce
  with Cons.prems consider "l \<in> set (dkeys (item_report item n r))" | "l \<in> set (dkeys (flush_report q (Suc n) w1))" by auto
  then show ?case
  proof cases
    case 1
    with item_report_labels [of item n r] obtain l' where "l = failure_label (q_what item) n l'" by blast
    then show ?thesis by auto
  next
    case 2
    from Cons.IH [OF this] obtain item' m l' where "item' \<in> set q" "Suc n \<le> m" "l = failure_label (q_what item') m l'" by blast
    then show ?thesis by (intro exI [of _ item'] exI [of _ m] exI [of _ l']) simp
  qed
qed simp

lemma dict_ok_flush_report: "list_all reports_ok q \<Longrightarrow> dict_ok (flush_report q n w)"
proof (induction q arbitrary: n w)
  case (Cons item q)
  obtain r w1 where run: "q_run item w = (r, w1)" by fastforce
  from Cons.prems have item: "reports_ok item" by simp
  have ok: "CHR ''#'' \<notin> set (q_what item)" "\<And>fs. r = Inl (PartialSyncError fs) \<Longrightarrow> dict_ok fs"
    using item run unfolding reports_ok_def by (blast, metis fst_conv)
  have "set (dkeys (item_report item n r)) \<inter> set (dkeys (flush_report q (Suc n) w1)) = {}"
  proof (rule ccontr)
    assume "\<not> ?thesis"
    then obtain l where l: "l \<in> set (dkeys (item_report item n r))" "l \<in> set (dkeys (flush_report q (Suc n) w1))" by blast
    from l(1) item_report_labels obtain l1 where "l = failure_label (q_what item) n l1" by blast
    moreover from flush_report_labels [OF l(2)] obtain item' m l2 where
      "item' \<in> set q" "Suc n \<le> m" "l = failure_label (q_what item') m l2" by blast
    moreover have "CHR ''#'' \<notin> set (q_what item')" using Cons.prems \<open>item' \<in> set q\<close> by (auto simp: list_all_iff reports_ok_def)
    ultimately show False using ok(1) by (simp add: failure_label_eq)
  qed
  with Cons dict_ok_item_report [where n = n, OF ok] run show ?case by simp
qed simp

section \<open>The fan-out over indexes\<close>

fun index_report ::
  "(('w, 'k, 'v) index \<Rightarrow> ('w, unit) prog) \<Rightarrow> nat \<Rightarrow> ('w, 'k, 'v) index list \<Rightarrow> 'w \<Rightarrow> (string \<times> exn) list" where
  "index_report op' i [] w = []"
| "index_report op' i (ix # ixs) w = (if \<not> ix_sync_on_write ix then index_report op' (Suc i) ixs w
     else case op' ix w of (r, w') \<Rightarrow>
       (case r of Inl e \<Rightarrow> [(index_fanout_label i ix, e)] | Inr _ \<Rightarrow> []) @ index_report op' (Suc i) ixs w')"

definition after_indexes :: "(('w, 'k, 'v) index \<Rightarrow> ('w, unit) prog) \<Rightarrow> ('w, 'k, 'v) index list \<Rightarrow> 'w \<Rightarrow> 'w" where
  "after_indexes op' ixs w = foldl (\<lambda>w ix. snd (op' ix w)) w (filter ix_sync_on_write ixs)"

lemma index_fanout_label_eq: "index_fanout_label i ix = index_fanout_label j jx \<longleftrightarrow> i = j \<and> ix_name ix = ix_name jx"
  by (simp add: index_fanout_label_def append_separator_eq)

lemma index_report_Cons:
  assumes "op' ix w = (r, w1)"
  shows "index_report op' i (ix # ixs) w = (if \<not> ix_sync_on_write ix then index_report op' (Suc i) ixs w
     else (case r of Inl e \<Rightarrow> [(index_fanout_label i ix, e)] | Inr _ \<Rightarrow> []) @ index_report op' (Suc i) ixs w1)"
  by (simp add: assms)

lemma index_report_labels:
  fixes ixs :: "('w, 'k, 'v) index list"
  shows "l \<in> set (dkeys (index_report op' i ixs w)) \<Longrightarrow> \<exists>j. \<exists>jx :: ('w, 'k, 'v) index. i \<le> j \<and> l = index_fanout_label j jx"
proof (induction ixs arbitrary: i w)
  case (Cons ix ixs)
  obtain r w1 where run: "op' ix w = (r, w1)" by (cases "op' ix w")
  from Cons.prems index_report_Cons [of op' ix w r w1 i ixs, OF run]
  consider "l = index_fanout_label i ix" | v where "l \<in> set (dkeys (index_report op' (Suc i) ixs v))"
    by (cases r; cases "ix_sync_on_write ix") auto
  then show ?case
  proof cases
    case 2
    from Cons.IH [OF this] obtain j and jx :: "('w, 'k, 'v) index" where "Suc i \<le> j" "l = index_fanout_label j jx" by blast
    then show ?thesis by (intro exI [of _ j] exI [of _ jx]) simp
  qed blast
qed simp

lemma dict_ok_index_report: "dict_ok (index_report op' i ixs w)"
proof (induction ixs arbitrary: i w)
  case (Cons ix ixs)
  obtain r w1 where run: "op' ix w = (r, w1)" by fastforce
  have "index_fanout_label i ix \<notin> set (dkeys (index_report op' (Suc i) ixs w1))"
    using index_report_labels [of "index_fanout_label i ix" op' "Suc i" ixs w1] by (auto simp: index_fanout_label_eq)
  with Cons run show ?case by (auto split: sum.splits)
qed simp

lemma each_index_report:
  assumes "dict_ok (failures @ index_report op' i ixs w)"
  shows "each_index op' i ixs failures w = (let report = failures @ index_report op' i ixs w in
     if report = [] then Inr () else Inl (PartialSyncError report), after_indexes op' ixs w)"
  using assms
proof (induction ixs arbitrary: i failures w)
  case (Cons ix ixs)
  obtain r w1 where run: "op' ix w = (r, w1)" by fastforce
  show ?case
  proof (cases "ix_sync_on_write ix")
    case True
    let ?new = "failures @ (case r of Inl e \<Rightarrow> [(index_fanout_label i ix, e)] | Inr _ \<Rightarrow> [])"
    have "catchP (mapP (\<lambda>_. failures) (op' ix)) (\<lambda>e. returnP (dput (index_fanout_label i ix) e failures)) w = (Inr ?new, w1)"
      using run Cons.prems True by (auto simp: catchP_run mapP_run dput_new split: sum.splits)
    moreover have "dict_ok (?new @ index_report op' (Suc i) ixs w1)" using Cons.prems run True by simp
    ultimately show ?thesis using Cons.IH [of ?new "Suc i" w1] run True by (simp add: after_indexes_def Let_def)
  next
    case False
    with Cons show ?thesis by (simp add: after_indexes_def)
  qed
qed (simp add: after_indexes_def)

section \<open>Collection\<close>

lemma gc_deletes_traced:
  assumes "to_dependents (traced_topology tp) ''gc'' (\<lambda>t. t_batch_delete t expired) policy ((w, log), q) = (Inr r, (w', log'), q')"
  shows "\<exists>evs items. log' = log @ evs \<and> q' = q @ items
    \<and> map ev_target evs = map t_id (filter (\<lambda>t. \<not> waits tp t) (dependents tp))
    \<and> list_all (\<lambda>ev. ev_op ev = Deleted \<and> ev_keys ev = expired) evs
    \<and> map q_name items = map t_name (filter (waits tp) (dependents tp))"
proof -
  from assms have run: "iterP (\<lambda>t. sync_one (traced_topology tp) (traced_target (id t)) ''gc''
      (traced_op Deleted (t_id (id t)) expired (t_batch_delete t expired)) policy) (dependents tp) ((w, log), q) = (Inr r, (w', log'), q')"
    by (simp add: to_dependents_def iterP_map)
  from after_phase [where ks = "\<lambda>_. expired" and tg = id, OF run]
  obtain evs items where *: "log' = log @ evs" "q' = q @ items"
    and evs: "list_all2 (settled Deleted id (\<lambda>_. expired) policy) (filter (\<lambda>t. \<not> waits tp (id t)) (dependents tp)) evs"
    and items: "map q_name items = map (t_name \<circ> id) (filter (\<lambda>t. waits tp (id t)) (dependents tp))" by auto
  from settled_targets [OF evs] have "map ev_target evs = map t_id (filter (\<lambda>t. \<not> waits tp t) (dependents tp))" by simp
  moreover from settled_items [OF evs] have "list_all (\<lambda>ev. ev_op ev = Deleted \<and> ev_keys ev = expired) evs"
    by (auto simp: list_all_iff)
  ultimately show ?thesis using * items by auto
qed

lemma fold_no_authority:
  "list_all (\<lambda>t. t_role t \<noteq> Authority) ts \<Longrightarrow> fold (\<lambda>(t, ks) e. if t_role t = Authority then ks else e) (zip ts kss) e0 = e0"
proof (induction ts arbitrary: kss e0)
  case (Cons t ts)
  then show ?case by (cases kss) auto
qed simp

lemma authority_expired:
  assumes "valid_topology tp" "authority tp = Some a"
    "list_all2 (\<lambda>t ks. \<exists>w1 w2. t_gc t n w1 = (Inr ks, w2)) (by_role tp [Authority, Component]) kss"
  shows "\<exists>w1 w2. t_gc a n w1 = (Inr (fold (\<lambda>(t, ks) e. if t_role t = Authority then ks else e) (zip (by_role tp [Authority, Component]) kss) []), w2)"
proof -
  let ?A = "filter (\<lambda>t. t_role t = Authority) (all_targets tp)"
  have "a \<in> set ?A" using assms(2) by (auto simp: authority_def find_Some_iff in_set_conv_nth)
  with one_authority [OF assms(1)] have "?A = [a]" by (cases ?A) auto
  then have by_role: "by_role tp [Authority, Component] = a # filter (\<lambda>t. t_role t = Component) (all_targets tp)"
    by (simp add: by_role_def)
  have "t_role a = Authority" using \<open>a \<in> set ?A\<close> by simp
  moreover obtain ks kss' where "kss = ks # kss'" "\<exists>w1 w2. t_gc a n w1 = (Inr ks, w2)"
    using assms(3) unfolding by_role by (auto simp: list_all2_Cons1)
  moreover have "list_all (\<lambda>t. t_role t \<noteq> Authority) (filter (\<lambda>t. t_role t = Component) (all_targets tp))"
    by (simp add: list_all_iff)
  ultimately show ?thesis unfolding by_role by (simp add: fold_no_authority)
qed

lemma fold_skips_components:
  assumes "authority tp = None"
  shows "fold (\<lambda>(t, ks) e. if t_role t = Authority then ks else e) (zip (by_role tp [Authority, Component]) kss) [] = []"
  using assms by (intro fold_no_authority) (auto simp: authority_def find_None_iff by_role_def list_all_iff)

text \<open>What a collection calls, and what it returns.\<close>

definition collected_in_order ::
  "('w, 'k, 'v) topology \<Rightarrow> int \<Rightarrow> 'k list \<Rightarrow> 'k event list \<Rightarrow> 'm queued list \<Rightarrow> bool" where
  "collected_in_order tp n ks log items \<longleftrightarrow> (\<exists>expired kss dels owns.
     log = map (\<lambda>t. Event (Collected n) (t_id t) [] None) (by_role tp [Authority, Component]) @ dels @ owns
     \<and> list_all2 (\<lambda>t ks'. \<exists>w1 w2. t_gc t n w1 = (Inr ks', w2)) (by_role tp [Authority, Component]) kss
     \<and> distinct ks \<and> (\<forall>ks' \<in> set kss. set ks' \<subseteq> set ks)
     \<and> (case authority tp of None \<Rightarrow> expired = [] | Some a \<Rightarrow> \<exists>w1 w2. t_gc a n w1 = (Inr expired, w2))
     \<and> list_all (\<lambda>ev. ev_op ev = Deleted \<and> ev_keys ev = expired) dels
     \<and> map ev_target dels = (if expired = [] then [] else map t_id (filter (\<lambda>t. \<not> waits tp t) (dependents tp)))
     \<and> map q_name items = (if expired = [] then [] else map t_name (filter (waits tp) (dependents tp)))
     \<and> list_all (\<lambda>ev. ev_op ev = Collected n) owns
     \<and> map ev_target owns = map t_id (filter t_expires (dependents tp)))"

lemma topo_gc_traced:
  assumes "valid_topology tp" "topo_gc (traced_topology tp) n policy ((w, []), q) = (Inr ks, (w', log), q')"
  shows "\<exists>items. q' = q @ items \<and> collected_in_order tp n ks log items"
proof -
  let ?ts = "by_role tp [Authority, Component]"
  let ?first = "gc_committing n (map traced_target ?ts) [] []"
  from assms(2) have n: "\<not> n < 1" by (auto simp: topo_gc_def split: if_split_asm)
  obtain r1 w1 log1 q1 where first: "?first ((w, []), q) = (r1, (w1, log1), q1)" by (cases "?first ((w, []), q)") auto
  with assms(2) n obtain expired collected where r1: "r1 = Inr (expired, collected)"
    by (cases r1) (auto simp: topo_gc_def bindP_run)
  from gc_committing_traced [OF first [unfolded r1]] obtain kss where
    1: "q1 = q" "log1 = map (\<lambda>t. Event (Collected n) (t_id t) [] None) ?ts"
      "list_all2 (\<lambda>t ks. \<exists>w1 w2. t_gc t n w1 = (Inr ks, w2)) ?ts kss"
      "set collected = \<Union> (set ` set kss)" "distinct collected"
      "expired = fold (\<lambda>(t, ks) e. if t_role t = Authority then ks else e) (zip ?ts kss) []" by auto
  let ?dels = "if expired \<noteq> [] then to_dependents (traced_topology tp) ''gc'' (\<lambda>t. t_batch_delete t expired) (Some policy) else returnP ()"
  from assms(2) n first r1 have rest: "thenP ?dels (gc_dependents n (map traced_target (dependents tp)) collected) ((w1, log1), q1)
      = (Inr ks, (w', log), q')" by (simp add: topo_gc_def)
  obtain r2 w2 log2 q2 where dels: "?dels ((w1, log1), q1) = (r2, (w2, log2), q2)" by (cases "?dels ((w1, log1), q1)") auto
  with rest obtain u where r2: "r2 = Inr u" by (cases r2) auto
  have "\<exists>evs items. log2 = log1 @ evs \<and> q2 = q1 @ items
    \<and> list_all (\<lambda>ev. ev_op ev = Deleted \<and> ev_keys ev = expired) evs
    \<and> map ev_target evs = (if expired = [] then [] else map t_id (filter (\<lambda>t. \<not> waits tp t) (dependents tp)))
    \<and> map q_name items = (if expired = [] then [] else map t_name (filter (waits tp) (dependents tp)))"
  proof (cases "expired = []")
    case True
    with dels show ?thesis by (intro exI [of _ "[]"]) simp
  next
    case False
    with dels r2 gc_deletes_traced [of tp expired "Some policy" w1 log1 q1 u w2 log2 q2] show ?thesis by auto
  qed
  then obtain evs items where 2: "log2 = log1 @ evs" "q2 = q1 @ items"
    "list_all (\<lambda>ev. ev_op ev = Deleted \<and> ev_keys ev = expired) evs"
    "map ev_target evs = (if expired = [] then [] else map t_id (filter (\<lambda>t. \<not> waits tp t) (dependents tp)))"
    "map q_name items = (if expired = [] then [] else map t_name (filter (waits tp) (dependents tp)))" by blast
  from rest dels r2 have "gc_dependents n (map traced_target (dependents tp)) collected ((w2, log2), q2) = (Inr ks, (w', log), q')"
    by simp
  from gc_dependents_traced [OF this] 1(5) obtain own where
    3: "q' = q2" "log = log2 @ own" "list_all (\<lambda>ev. ev_op ev = Collected n) own" "set collected \<subseteq> set ks" "distinct ks"
      "map ev_target own = map t_id (filter t_expires (dependents tp))" by auto
  have expired: "case authority tp of None \<Rightarrow> expired = [] | Some a \<Rightarrow> \<exists>w1 w2. t_gc a n w1 = (Inr expired, w2)"
    using authority_expired [OF assms(1) _ 1(3)] fold_skips_components [of tp kss] 1(6) by (auto split: option.splits)
  have "collected_in_order tp n ks log items"
    unfolding collected_in_order_def
    by (rule exI [of _ expired], rule exI [of _ kss], rule exI [of _ evs], rule exI [of _ own], intro conjI)
      (use 1 2 3 expired in auto)
  with 1 2 3 show ?thesis by (intro exI [of _ items]) simp
qed

end
