(* ===== verification/Topology_Reads.thy ===== *)
theory Topology_Reads
  imports Topology
begin

text \<open>
  What reads over a topology answer: for a record held whole, the first target in lookup
  order that holds the key; for one assembled from parts, what \<open>assemble\<close> makes of what
  the parts hold, or nothing when the authority misses. \<open>get\<close>, \<open>batch_get\<close>, \<open>exists\<close> and
  \<open>batch_exists\<close> agree (law 4), and a read changes a target only by filling it where it
  holds nothing, with the value found downstream (laws 6 and 7).

  \<open>holds w i k\<close> is what a read of \<open>k\<close> from the target with identity \<open>i\<close> answers.
\<close>

type_synonym ('w, 'k, 'v) holdings = "'w \<Rightarrow> nat \<Rightarrow> 'k \<Rightarrow> 'v option"

section \<open>Targets that can be read\<close>

text \<open>The four reads of one target, each answering from what it holds and changing nothing held.\<close>

definition reads_right :: "('w, 'k, 'v) holdings \<Rightarrow> ('w \<Rightarrow> bool) \<Rightarrow> ('w, 'k, 'v) target \<Rightarrow> bool" where
  "reads_right holds I t \<longleftrightarrow> (\<forall>w. I w \<longrightarrow>
     (\<forall>k. \<exists>w'. t_read t k w = (Inr (holds w (t_id t) k), w') \<and> I w' \<and> holds w' = holds w)
   \<and> (\<forall>ks. \<exists>d w'. t_batch_read t ks w = (Inr d, w') \<and> I w' \<and> holds w' = holds w
        \<and> dict_ok d \<and> (\<forall>k. dget d k = (if k \<in> set ks then holds w (t_id t) k else None)))
   \<and> (\<forall>k. \<exists>w'. t_exists t k w = (Inr (holds w (t_id t) k \<noteq> None), w') \<and> I w' \<and> holds w' = holds w)
   \<and> (\<forall>ks. \<exists>w'. t_batch_exists t ks w = (Inr {k \<in> set ks. holds w (t_id t) k \<noteq> None}, w') \<and> I w' \<and> holds w' = holds w))"

lemma reads_rightD:
  assumes "reads_right holds I t" "I w"
  shows "\<exists>w'. t_read t k w = (Inr (holds w (t_id t) k), w') \<and> I w' \<and> holds w' = holds w"
    and "\<exists>d w'. t_batch_read t ks w = (Inr d, w') \<and> I w' \<and> holds w' = holds w
        \<and> dict_ok d \<and> (\<forall>k. dget d k = (if k \<in> set ks then holds w (t_id t) k else None))"
    and "\<exists>w'. t_exists t k w = (Inr (holds w (t_id t) k \<noteq> None), w') \<and> I w' \<and> holds w' = holds w"
    and "\<exists>w'. t_batch_exists t ks w = (Inr {k \<in> set ks. holds w (t_id t) k \<noteq> None}, w') \<and> I w' \<and> holds w' = holds w"
  using assms unfolding reads_right_def by blast+

text \<open>
  A conditional write of a target asked for a fill, against nothing stored: whatever it
  answers, it is not an \<open>Unsupported\<close>, it changes no other target, and what it changes
  here is an entry that held nothing and now holds the value put.
\<close>

definition fills_right :: "('w, 'k, 'v) holdings \<Rightarrow> ('w \<Rightarrow> bool) \<Rightarrow> ('w, 'k, 'v) target \<Rightarrow> bool" where
  "fills_right holds I t \<longleftrightarrow> (\<forall>w writes opts. I w \<longrightarrow> dict_ok writes
     \<longrightarrow> (\<forall>k cw. dget writes k = Some cw \<longrightarrow> cw_seen cw = absent \<and> cw_change cw \<noteq> Remove)
     \<longrightarrow> (\<exists>r w'. t_batch_write_if_unchanged t writes opts w = (r, w') \<and> I w'
          \<and> (\<forall>e. r = Inl e \<longrightarrow> \<not> is_unsupported e)
          \<and> (\<forall>i k. holds w' i k = holds w i k
               \<or> i = t_id t \<and> holds w i k = None
                 \<and> (\<exists>cw v. dget writes k = Some cw \<and> cw_change cw = Put v \<and> holds w' i k = Some v))))"

lemma fills_rightD:
  assumes "fills_right holds I t" "I w" "dict_ok writes"
    and "\<forall>k cw. dget writes k = Some cw \<longrightarrow> cw_seen cw = absent \<and> cw_change cw \<noteq> Remove"
  shows "\<exists>r w'. t_batch_write_if_unchanged t writes opts w = (r, w') \<and> I w'
          \<and> (\<forall>e. r = Inl e \<longrightarrow> \<not> is_unsupported e)
          \<and> (\<forall>i k. holds w' i k = holds w i k
               \<or> i = t_id t \<and> holds w i k = None
                 \<and> (\<exists>cw v. dget writes k = Some cw \<and> cw_change cw = Put v \<and> holds w' i k = Some v))"
  using assms unfolding fills_right_def by blast

definition stats_right :: "('w, 'k, 'v) holdings \<Rightarrow> ('w \<Rightarrow> bool) \<Rightarrow> ('w, 'k, 'v) target \<Rightarrow> bool" where
  "stats_right holds I t \<longleftrightarrow> (\<forall>w ks. I w \<longrightarrow>
     (\<exists>d w'. t_batch_stat t ks w = (Inr d, w') \<and> I w' \<and> holds w' = holds w))"

section \<open>First hit in lookup order\<close>

fun first_hit :: "('w, 'k, 'v) holdings \<Rightarrow> 'w \<Rightarrow> 'k \<Rightarrow> ('w, 'k, 'v) target list \<Rightarrow> 'v option" where
  "first_hit holds w k [] = None"
| "first_hit holds w k (t # ts) = (case holds w (t_id t) k of Some v \<Rightarrow> Some v | None \<Rightarrow> first_hit holds w k ts)"

lemma first_hit_append:
  "first_hit holds w k (ts @ us) = (case first_hit holds w k ts of Some v \<Rightarrow> Some v | None \<Rightarrow> first_hit holds w k us)"
  by (induction ts) (auto split: option.splits)

lemma first_hit_None: "first_hit holds w k ts = None \<longleftrightarrow> (\<forall>t \<in> set ts. holds w (t_id t) k = None)"
  by (induction ts) (auto split: option.splits)

lemma first_hit_same: "holds w' = holds w \<Longrightarrow> first_hit holds w' k ts = first_hit holds w k ts"
  by (induction ts) (auto split: option.splits)

text \<open>
  What filling may do: entries of the targets that fill, which held nothing, come to hold
  what the lookup finds, so nothing held is replaced and no lookup changes its answer.
\<close>

definition only_filled ::
  "('w, 'k, 'v) holdings \<Rightarrow> ('w, 'k, 'v) target list \<Rightarrow> 'w \<Rightarrow> 'w \<Rightarrow> bool" where
  "only_filled holds ls w w' \<longleftrightarrow> (\<forall>i k. holds w' i k = holds w i k
     \<or> holds w i k = None \<and> holds w' i k = first_hit holds w k ls \<and> (\<exists>t \<in> set ls. t_fill t \<and> t_id t = i))"

lemma only_filled_refl: "holds w' = holds w \<Longrightarrow> only_filled holds ls w w'"
  by (simp add: only_filled_def)

lemma only_filled_first_hit:
  assumes "only_filled holds ls w w'"
  shows "first_hit holds w' k ls = first_hit holds w k ls"
proof -
  have step: "first_hit holds w' k us = first_hit holds w k us"
    if "first_hit holds w k us = first_hit holds w k ls" for us
    using that
  proof (induction us)
    case (Cons t us)
    show ?case
    proof (cases "holds w (t_id t) k")
      case None
      with Cons.prems have rest: "first_hit holds w k us = first_hit holds w k ls" by simp
      from assms None have "holds w' (t_id t) k = None \<or> holds w' (t_id t) k = first_hit holds w k ls"
        unfolding only_filled_def by metis
      with Cons.IH [OF rest] rest None show ?thesis by (auto split: option.splits)
    next
      case (Some v)
      with assms have "holds w' (t_id t) k = Some v" unfolding only_filled_def by (metis option.distinct(1))
      with Some show ?thesis by simp
    qed
  qed simp
  show ?thesis by (rule step) simp
qed

lemma only_filled_trans:
  assumes "only_filled holds ls w1 w2" "only_filled holds ls w2 w3"
  shows "only_filled holds ls w1 w3"
  unfolding only_filled_def
proof (intro allI)
  fix i k
  note f = only_filled_first_hit [OF assms(1), of k]
  from assms show "holds w3 i k = holds w1 i k \<or> holds w1 i k = None \<and> holds w3 i k = first_hit holds w1 k ls
      \<and> (\<exists>t \<in> set ls. t_fill t \<and> t_id t = i)"
    unfolding only_filled_def using f by (metis option.distinct(1))
qed

text \<open>What a read of a record held whole answers.\<close>

definition found_in :: "('w, 'k, 'v) holdings \<Rightarrow> ('w, 'k, 'v) topology \<Rightarrow> 'w \<Rightarrow> 'k \<Rightarrow> 'v option" where
  "found_in holds tp w k = first_hit holds w k (lookups tp)"

section \<open>Records held whole\<close>

locale whole_record =
  fixes tp :: "('w, 'k, 'v) topology"
    and holds :: "('w, 'k, 'v) holdings"
    and inv :: "'w \<Rightarrow> bool"
  assumes not_assembled: "\<not> assembled tp"
    and reads: "t \<in> set (lookups tp) \<Longrightarrow> reads_right holds inv t"
    and fills: "t \<in> set (lookups tp) \<Longrightarrow> t_fill t \<Longrightarrow> fills_right holds inv t"
    and stats: "t \<in> set (lookups tp) \<Longrightarrow> stats_right holds inv t"
begin

lemma fill_writes:
  assumes "inv w" "set into \<subseteq> {t \<in> set (lookups tp). t_fill t}" "dict_ok hits"
    and hits: "\<And>k v. dget hits k = Some v \<Longrightarrow> found_in holds tp w k = Some v"
  shows "\<exists>w'. iterP (\<lambda>t. try_fill (t_batch_write_if_unchanged t (received t
        (dmap (\<lambda>k v. ConditionalWrite absent (Put v) (clock_of (dget st k))) hits)) no_options)) into w = (Inr (), w')
      \<and> inv w' \<and> only_filled holds (lookups tp) w w'"
  using assms(1,2) hits
proof (induction into arbitrary: w)
  case Nil
  then show ?case by (auto simp: only_filled_refl)
next
  case (Cons t into)
  let ?ws = "received t (dmap (\<lambda>k v. ConditionalWrite absent (Put v) (clock_of (dget st k))) hits)"
  have ok: "dict_ok ?ws" using assms(3) by (simp add: received_def)
  have cw: "dget ?ws k = (case dget hits k of None \<Rightarrow> None | Some v \<Rightarrow>
      Some (ConditionalWrite absent (Put v) (if t_supports_write_clock t then clock_of (dget st k) else None)))" for k
    by (auto simp: received_def split: option.splits)
  have puts: "\<forall>k cw. dget ?ws k = Some cw \<longrightarrow> cw_seen cw = absent \<and> cw_change cw \<noteq> Remove"
    unfolding cw by (auto split: option.splits)
  have "fills_right holds inv t" using Cons.prems(2) by (intro fills) auto
  from fills_rightD [OF this Cons.prems(1) ok puts, of no_options] obtain r w1 where
    w1: "t_batch_write_if_unchanged t ?ws no_options w = (r, w1)" "inv w1" "\<forall>e. r = Inl e \<longrightarrow> \<not> is_unsupported e"
      "\<forall>i k. holds w1 i k = holds w i k \<or> i = t_id t \<and> holds w i k = None
                 \<and> (\<exists>cw v. dget ?ws k = Some cw \<and> cw_change cw = Put v \<and> holds w1 i k = Some v)"
    by blast
  have filled: "only_filled holds (lookups tp) w w1"
    unfolding only_filled_def
  proof (intro allI)
    fix i k
    from w1(4) [rule_format, of i k] show "holds w1 i k = holds w i k \<or> holds w i k = None \<and> holds w1 i k = first_hit holds w k (lookups tp)
        \<and> (\<exists>t \<in> set (lookups tp). t_fill t \<and> t_id t = i)"
      using Cons.prems(2) Cons.prems(3) [of k] cw [of k] by (auto simp: found_in_def split: option.splits)
  qed
  have step: "try_fill (t_batch_write_if_unchanged t ?ws no_options) w = (Inr (), w1)"
    using w1(1,3) by (auto simp: try_fill_def catchP_run thenP_run split: sum.splits)
  have "found_in holds tp w1 k = found_in holds tp w k" for k using only_filled_first_hit [OF filled] by (simp add: found_in_def)
  with Cons.prems(3) have "\<And>k v. dget hits k = Some v \<Longrightarrow> found_in holds tp w1 k = Some v" by simp
  from Cons.IH [OF w1(2) _ this] Cons.prems(2) obtain w2 where
    "iterP (\<lambda>t. try_fill (t_batch_write_if_unchanged t (received t
        (dmap (\<lambda>k v. ConditionalWrite absent (Put v) (clock_of (dget st k))) hits)) no_options)) into w1 = (Inr (), w2)"
    "inv w2" "only_filled holds (lookups tp) w1 w2" by auto
  with step filled show ?case by (auto intro: only_filled_trans)
qed

lemma batch_fill_law:
  assumes inv: "inv w" and src: "source \<in> set (lookups tp)" and cons: "set consulted \<subseteq> set (lookups tp)" and ok: "dict_ok hits"
    and hits: "\<And>k v. dget hits k = Some v \<Longrightarrow> found_in holds tp w k = Some v"
  shows "\<exists>w'. batch_fill hits source consulted w = (Inr (), w') \<and> inv w' \<and> only_filled holds (lookups tp) w w'"
proof (cases "fillable source consulted = []")
  case True
  with inv show ?thesis by (auto simp: batch_fill_def only_filled_refl)
next
  case False
  let ?stat = "if list_ex t_supports_write_clock (fillable source consulted) then t_batch_stat source (dkeys hits) else returnP []"
  have "\<exists>d w1. ?stat w = (Inr d, w1) \<and> inv w1 \<and> holds w1 = holds w"
  proof (cases "list_ex t_supports_write_clock (fillable source consulted)")
    case True
    with stats [OF src] inv show ?thesis unfolding stats_right_def by presburger
  next
    case False
    show ?thesis unfolding if_not_P [OF False] returnP_run using inv by blast
  qed
  then obtain d w1 where st: "?stat w = (Inr d, w1)" "inv w1" "holds w1 = holds w" by blast
  have "found_in holds tp w1 k = found_in holds tp w k" for k unfolding found_in_def by (rule first_hit_same [OF st(3)])
  with hits have hits1: "\<And>k v. dget hits k = Some v \<Longrightarrow> found_in holds tp w1 k = Some v" by simp
  have into: "set (fillable source consulted) \<subseteq> {t \<in> set (lookups tp). t_fill t}"
    using cons by (auto simp: fillable_def)
  from fill_writes [OF st(2) into ok hits1, of d] obtain w2 where
    w2: "iterP (\<lambda>t. try_fill (t_batch_write_if_unchanged t (received t
        (dmap (\<lambda>k v. ConditionalWrite absent (Put v) (clock_of (dget d k))) hits)) no_options)) (fillable source consulted) w1 = (Inr (), w2)"
    "inv w2" "only_filled holds (lookups tp) w1 w2" by blast
  have "batch_fill hits source consulted w = (Inr (), w2)"
    unfolding batch_fill_def Let_def if_not_P [OF False] by (subst bindP_Inr, rule st(1), rule w2(1))
  moreover have "only_filled holds (lookups tp) w w2"
    using only_filled_refl [OF st(3)] w2(3) by (rule only_filled_trans)
  ultimately show ?thesis using w2(2) by (intro exI [of _ w2] conjI)
qed

lemma read_lookups_law:
  assumes "inv w" "lookups tp = consulted @ ts" "\<forall>t \<in> set consulted. holds w (t_id t) k = None"
  shows "\<exists>w'. read_lookups k consulted ts w = (Inr (first_hit holds w k ts), w') \<and> inv w' \<and> only_filled holds (lookups tp) w w'"
  using assms
proof (induction ts arbitrary: w consulted)
  case Nil
  then show ?case by (auto simp: only_filled_refl)
next
  case (Cons t ts)
  have t: "t \<in> set (lookups tp)" using Cons.prems(2) by simp
  from reads_rightD(1) [OF reads [OF t] Cons.prems(1), of k] obtain w1 where
    w1: "t_read t k w = (Inr (holds w (t_id t) k), w1)" "inv w1" "holds w1 = holds w" by blast
  have f1: "only_filled holds (lookups tp) w w1" using w1(3) by (rule only_filled_refl)
  show ?case
  proof (cases "holds w (t_id t) k")
    case None
    with Cons.prems w1 Cons.IH [OF w1(2), of "consulted @ [t]"] obtain w2 where
      "read_lookups k (consulted @ [t]) ts w1 = (Inr (first_hit holds w1 k ts), w2)" "inv w2" "only_filled holds (lookups tp) w1 w2"
      by auto
    with None w1 f1 first_hit_same [of holds w1 w k ts] show ?thesis by (auto intro: only_filled_trans)
  next
    case (Some v)
    have "first_hit holds w1 k consulted = None" using Cons.prems(3) w1(3) by (simp add: first_hit_None)
    with Some w1(3) have hit: "found_in holds tp w1 k = Some v" by (simp add: found_in_def Cons.prems(2) first_hit_append)
    have "set consulted \<subseteq> set (lookups tp)" using Cons.prems(2) by auto
    from batch_fill_law [OF w1(2) t this, of "[(k, v)]"] hit obtain w2 where
      w2: "batch_fill [(k, v)] t consulted w1 = (Inr (), w2)" "inv w2" "only_filled holds (lookups tp) w1 w2"
      by (fastforce split: if_split_asm)
    have "read_lookups k consulted (t # ts) w = (Inr (Some v), w2)"
      using w1(1) w2(1) Some by (simp add: bindP_run thenP_run)
    with Some w2 only_filled_trans [OF f1 w2(3)] show ?thesis by simp
  qed
qed

theorem read_law:
  assumes "inv w"
  shows "\<exists>w'. topo_read tp k w = (Inr (found_in holds tp w k), w') \<and> inv w' \<and> only_filled holds (lookups tp) w w'"
  using read_lookups_law [OF assms, of "[]" "lookups tp" k] not_assembled by (simp add: topo_read_def found_in_def)

lemma any_exists_law:
  assumes "inv w" "set ts \<subseteq> set (lookups tp)"
  shows "\<exists>w'. any_exists k ts w = (Inr (first_hit holds w k ts \<noteq> None), w') \<and> inv w' \<and> holds w' = holds w"
  using assms
proof (induction ts arbitrary: w)
  case (Cons t ts)
  from Cons.prems have "reads_right holds inv t" by (auto intro: reads)
  from reads_rightD(3) [OF this Cons.prems(1), of k] obtain w1 where
    w1: "t_exists t k w = (Inr (holds w (t_id t) k \<noteq> None), w1)" "inv w1" "holds w1 = holds w" by blast
  show ?case
  proof (cases "holds w (t_id t) k")
    case None
    with Cons.IH [OF w1(2)] Cons.prems(2) obtain w2 where
      "any_exists k ts w1 = (Inr (first_hit holds w1 k ts \<noteq> None), w2)" "inv w2" "holds w2 = holds w1" by auto
    with None w1 first_hit_same [of holds w1 w k ts] show ?thesis by (simp add: bindP_run)
  next
    case (Some v)
    with w1 show ?thesis by simp
  qed
qed simp

theorem exists_law:
  assumes "inv w"
  shows "\<exists>w'. topo_exists tp k w = (Inr (found_in holds tp w k \<noteq> None), w') \<and> inv w' \<and> holds w' = holds w"
  using any_exists_law [OF assms subset_refl, of k] not_assembled by (simp add: topo_exists_def found_in_def)

lemma batch_exists_lookups_law:
  assumes "inv w" "set ts \<subseteq> set (lookups tp)"
  shows "\<exists>w'. batch_exists_lookups ks ts S w = (Inr (S \<union> {k \<in> set ks. k \<notin> S \<and> first_hit holds w k ts \<noteq> None}), w')
    \<and> inv w' \<and> holds w' = holds w"
  using assms
proof (induction ts arbitrary: w S)
  case (Cons t ts)
  let ?missing = "filter (\<lambda>k. k \<notin> S) ks"
  show ?case
  proof (cases "?missing = []")
    case True
    then have none: "{k \<in> set ks. k \<notin> S \<and> first_hit holds w k (t # ts) \<noteq> None} = {}" by (auto simp: filter_empty_conv)
    show ?thesis unfolding none using True Cons.prems(1) by simp
  next
    case False
    from Cons.prems have "reads_right holds inv t" by (auto intro: reads)
    from reads_rightD(4) [OF this Cons.prems(1), of ?missing] obtain w1 where
      w1: "t_batch_exists t ?missing w = (Inr {k \<in> set ?missing. holds w (t_id t) k \<noteq> None}, w1)" "inv w1" "holds w1 = holds w" by blast
    let ?S = "S \<union> {k \<in> set ?missing. holds w (t_id t) k \<noteq> None}"
    from Cons.IH [OF w1(2), of ?S] Cons.prems(2) obtain w2 where
      w2: "batch_exists_lookups ks ts ?S w1 = (Inr (?S \<union> {k \<in> set ks. k \<notin> ?S \<and> first_hit holds w1 k ts \<noteq> None}), w2)"
        "inv w2" "holds w2 = holds w1" by auto
    have hit: "(first_hit holds w k (t # ts) \<noteq> None) = (holds w (t_id t) k \<noteq> None \<or> first_hit holds w k ts \<noteq> None)" for k
      by (cases "holds w (t_id t) k") simp_all
    have "first_hit holds w1 k ts = first_hit holds w k ts" for k by (rule first_hit_same [OF w1(3)])
    then have "?S \<union> {k \<in> set ks. k \<notin> ?S \<and> first_hit holds w1 k ts \<noteq> None}
        = S \<union> {k \<in> set ks. k \<notin> S \<and> first_hit holds w k (t # ts) \<noteq> None}"
      unfolding hit by (intro set_eqI) (simp, blast)
    moreover have "batch_exists_lookups ks (t # ts) S w = batch_exists_lookups ks ts ?S w1"
      unfolding batch_exists_lookups.simps Let_def if_not_P [OF False] by (subst bindP_Inr, rule w1(1), rule refl)
    ultimately have "batch_exists_lookups ks (t # ts) S w
        = (Inr (S \<union> {k \<in> set ks. k \<notin> S \<and> first_hit holds w k (t # ts) \<noteq> None}), w2)"
      using w2(1) by argo
    moreover have "holds w2 = holds w" using w2(3) w1(3) by (rule trans)
    ultimately show ?thesis using w2(2) by blast
  qed
qed simp

theorem batch_exists_law:
  assumes "inv w"
  shows "\<exists>w'. topo_batch_exists tp ks w = (Inr {k \<in> set ks. found_in holds tp w k \<noteq> None}, w') \<and> inv w' \<and> holds w' = holds w"
  using batch_exists_lookups_law [OF assms subset_refl, of ks "{}"] not_assembled by (simp add: topo_batch_exists_def found_in_def)

lemma held_is_found:
  assumes "only_filled holds (lookups tp) w0 w" "lookups tp = consulted @ t # ts"
    "first_hit holds w0 k consulted = None" "holds w (t_id t) k = Some v"
  shows "found_in holds tp w0 k = Some v"
proof (cases "holds w0 (t_id t) k = Some v")
  case True
  with assms(2,3) show ?thesis by (simp add: found_in_def first_hit_append)
next
  case False
  with assms(1,4) show ?thesis unfolding only_filled_def found_in_def by metis
qed

lemma still_absent:
  "only_filled holds (lookups tp) w0 w \<Longrightarrow> holds w i k = None \<Longrightarrow> holds w0 i k = None"
  unfolding only_filled_def by metis

text \<open>
  \<open>fd\<close> is what the targets consulted so far answered; what is still missing they did not
  hold in \<open>w0\<close>, where the read began.
\<close>

lemma batch_read_lookups_law:
  assumes "inv w" "only_filled holds (lookups tp) w0 w" "lookups tp = consulted @ ts" "dict_ok fd"
    and "\<And>k v. dget fd k = Some v \<Longrightarrow> k \<in> set ks \<and> found_in holds tp w0 k = Some v"
    and "\<And>k. k \<in> set ks \<Longrightarrow> dget fd k = None \<Longrightarrow> first_hit holds w0 k consulted = None"
  shows "\<exists>d w'. batch_read_lookups ks consulted ts fd w = (Inr d, w') \<and> inv w' \<and> only_filled holds (lookups tp) w0 w'
    \<and> dict_ok d \<and> (\<forall>k. dget d k = (if k \<in> set ks then found_in holds tp w0 k else None))"
  using assms
proof (induction ts arbitrary: w consulted fd)
  case Nil
  have "dget fd k = (if k \<in> set ks then found_in holds tp w0 k else None)" for k
    using Nil.prems(5) [of k] Nil.prems(6) [of k] Nil.prems(3) by (cases "dget fd k") (auto simp: found_in_def)
  with Nil.prems(1,2,4) show ?case by (intro exI [of _ fd] exI [of _ w]) simp
next
  case (Cons t ts)
  let ?missing = "filter (\<lambda>k. dget fd k = None) ks"
  have t: "t \<in> set (lookups tp)" and cons: "set consulted \<subseteq> set (lookups tp)" using Cons.prems(3) by auto
  have same: "found_in holds tp w' k = found_in holds tp w0 k" if "only_filled holds (lookups tp) w0 w'" for w' k
    unfolding found_in_def using that by (rule only_filled_first_hit)
  show ?case
  proof (cases "?missing = []")
    case True
    have "dget fd k = (if k \<in> set ks then found_in holds tp w0 k else None)" for k
      using Cons.prems(5) [of k] True by (cases "dget fd k") (auto simp: filter_empty_conv)
    moreover have "batch_read_lookups ks consulted (t # ts) fd w = (Inr fd, w)" using True by simp
    ultimately show ?thesis using Cons.prems(1,2,4) by (intro exI [of _ fd] exI [of _ w]) simp
  next
    case False
    from reads_rightD(2) [OF reads [OF t] Cons.prems(1), of ?missing] obtain hits w1 where
      w1: "t_batch_read t ?missing w = (Inr hits, w1)" "inv w1" "holds w1 = holds w" "dict_ok hits"
        "\<And>k. dget hits k = (if k \<in> set ?missing then holds w (t_id t) k else None)" by blast
    note f1 = only_filled_trans [OF Cons.prems(2) only_filled_refl [OF w1(3)]]
    have hit: "k \<in> set ks \<and> found_in holds tp w0 k = Some v" if "dget hits k = Some v" for k v
    proof -
      from that w1(5) [of k] have k: "k \<in> set ks" "dget fd k = None" "holds w (t_id t) k = Some v"
        by (auto split: if_split_asm)
      from held_is_found [OF Cons.prems(2,3) Cons.prems(6) [OF k(1,2)] k(3)] k(1) show ?thesis by simp
    qed
    have hit1: "found_in holds tp w1 k = Some v" if "dget hits k = Some v" for k v
      using hit [OF that] same [OF f1] by simp
    let ?fill = "if hits \<noteq> [] then batch_fill hits t consulted else returnP ()"
    have "\<exists>w2. ?fill w1 = (Inr (), w2) \<and> inv w2 \<and> only_filled holds (lookups tp) w1 w2"
    proof (cases "hits = []")
      case True
      with w1(2) show ?thesis by (intro exI [of _ w1]) (simp add: only_filled_refl)
    next
      case False
      from batch_fill_law [OF w1(2) t cons w1(4) hit1] False show ?thesis by simp
    qed
    then obtain w2 where w2: "?fill w1 = (Inr (), w2)" "inv w2" "only_filled holds (lookups tp) w1 w2" by auto
    have run: "batch_read_lookups ks consulted (t # ts) fd w = batch_read_lookups ks (consulted @ [t]) ts (dmerge fd hits) w2"
      unfolding batch_read_lookups.simps Let_def if_not_P [OF False]
      by (subst bindP_Inr, rule w1(1), subst thenP_Inr, rule w2(1), rule refl)
    have merged: "dget (dmerge fd hits) k = (case dget hits k of None \<Rightarrow> dget fd k | Some v \<Rightarrow> Some v)" for k
      using w1(4) by (simp add: map_add_def)
    have A: "k \<in> set ks \<and> found_in holds tp w0 k = Some v" if "dget (dmerge fd hits) k = Some v" for k v
      using that hit [of k] Cons.prems(5) [of k] unfolding merged by (cases "dget hits k") auto
    have B: "first_hit holds w0 k (consulted @ [t]) = None" if k: "k \<in> set ks" "dget (dmerge fd hits) k = None" for k
    proof -
      from k(2) have "dget fd k = None" "dget hits k = None" unfolding merged by (cases "dget hits k"; simp)+
      moreover from this w1(5) [of k] k(1) have "holds w (t_id t) k = None" by simp
      ultimately show ?thesis
        using Cons.prems(6) [OF k(1)] still_absent [OF Cons.prems(2)] by (simp add: first_hit_append)
    qed
    from Cons.IH [OF w2(2) only_filled_trans [OF f1 w2(3)] _ _ A B] Cons.prems(3,4) show ?thesis unfolding run by simp
  qed
qed

theorem batch_read_law:
  assumes "inv w"
  shows "\<exists>d w'. topo_batch_read tp ks w = (Inr d, w') \<and> inv w' \<and> only_filled holds (lookups tp) w w'
    \<and> dict_ok d \<and> (\<forall>k. dget d k = (if k \<in> set ks then found_in holds tp w k else None))"
  using batch_read_lookups_law [OF assms only_filled_refl [OF refl], of "[]" "lookups tp" "[]" ks] not_assembled
  by (simp add: topo_batch_read_def)

end

text \<open>A composition is a keymap to its parent (law 13): its reads keep the contract of a keymap's.\<close>

sublocale whole_record \<subseteq> composed: readable_keymap "record_keymap tp" "\<lambda>n. found_in holds tp (fst n)" "\<lambda>n. inv (fst n)"
proof unfold_locales
  fix n :: "'w node" and k :: 'k and ks :: "'k list"
  assume "inv (fst n)"
  then obtain w q where n: "n = (w, q)" "inv w" by (cases n) simp
  have same: "found_in holds tp w' = found_in holds tp w" if "only_filled holds (lookups tp) w w'" for w'
    using only_filled_first_hit [OF that] by (simp add: fun_eq_iff found_in_def)
  have kept: "found_in holds tp w' = found_in holds tp w" if "holds w' = holds w" for w'
    using same [OF only_filled_refl [OF that]] .
  from read_law [OF n(2), of k] obtain w1 where
    w1: "topo_read tp k w = (Inr (found_in holds tp w k), w1)" "inv w1" "only_filled holds (lookups tp) w w1" by blast
  have "km_get (record_keymap tp) k n = (Inr (found_in holds tp w k), (w1, q))" using w1(1) by (simp add: record_keymap_def n(1))
  with w1(2) same [OF w1(3)] show "\<exists>w'. km_get (record_keymap tp) k n = (Inr (found_in holds tp (fst n) k), w') \<and> inv (fst w')
      \<and> found_in holds tp (fst w') = found_in holds tp (fst n)"
    unfolding n(1) fst_conv by (intro exI [of _ "(w1, q)"] conjI) simp_all
  from batch_read_law [OF n(2), of ks] obtain d w2 where
    d: "topo_batch_read tp ks w = (Inr d, w2)" "inv w2" "only_filled holds (lookups tp) w w2" "dict_ok d"
      "\<forall>k. dget d k = (if k \<in> set ks then found_in holds tp w k else None)" by blast
  have "km_batch_get (record_keymap tp) ks n = (Inr d, (w2, q))" using d(1) by (simp add: record_keymap_def n(1))
  with d(2,4,5) same [OF d(3)] show "\<exists>d w'. km_batch_get (record_keymap tp) ks n = (Inr d, w') \<and> inv (fst w')
      \<and> found_in holds tp (fst w') = found_in holds tp (fst n)
      \<and> dict_ok d \<and> (\<forall>k. dget d k = (if k \<in> set ks then found_in holds tp (fst n) k else None))"
    unfolding n(1) fst_conv by (intro exI [of _ d] exI [of _ "(w2, q)"] conjI) simp_all
  from exists_law [OF n(2), of k] obtain w3 where
    w3: "topo_exists tp k w = (Inr (found_in holds tp w k \<noteq> None), w3)" "inv w3" "holds w3 = holds w" by blast
  have "km_exists (record_keymap tp) k n = (Inr (found_in holds tp w k \<noteq> None), (w3, q))"
    using w3(1) by (simp add: record_keymap_def n(1))
  with w3(2) kept [OF w3(3)] show "\<exists>w'. km_exists (record_keymap tp) k n = (Inr (found_in holds tp (fst n) k \<noteq> None), w') \<and> inv (fst w')
      \<and> found_in holds tp (fst w') = found_in holds tp (fst n)"
    unfolding n(1) fst_conv by (intro exI [of _ "(w3, q)"] conjI) (simp_all only: fst_conv)
  from batch_exists_law [OF n(2), of ks] obtain w4 where
    w4: "topo_batch_exists tp ks w = (Inr {k \<in> set ks. found_in holds tp w k \<noteq> None}, w4)" "inv w4" "holds w4 = holds w" by blast
  have "km_batch_exists (record_keymap tp) ks n = (Inr {k \<in> set ks. found_in holds tp w k \<noteq> None}, (w4, q))"
    using w4(1) by (simp add: record_keymap_def n(1))
  with w4(2) kept [OF w4(3)] show "\<exists>w'. km_batch_exists (record_keymap tp) ks n = (Inr {k \<in> set ks. found_in holds tp (fst n) k \<noteq> None}, w')
      \<and> inv (fst w') \<and> found_in holds tp (fst w') = found_in holds tp (fst n)"
    unfolding n(1) fst_conv by (intro exI [of _ "(w4, q)"] conjI) (simp_all only: fst_conv)
qed

section \<open>Records assembled from parts\<close>

text \<open>
  What the parts make of a key: nothing where there is an authority that misses, else
  what \<open>assemble\<close> says of all they hold.
\<close>

definition parts_hold :: "('w, 'k, 'v) holdings \<Rightarrow> ('w, 'k, 'v) topology \<Rightarrow> 'w \<Rightarrow> 'k \<Rightarrow> nat \<Rightarrow> 'v option" where
  "parts_hold holds tp w k i = (if i \<in> t_id ` set (tp_parts tp) then holds w i k else None)"

definition record_in :: "('w, 'k, 'v) holdings \<Rightarrow> ('w, 'k, 'v) topology \<Rightarrow> 'w \<Rightarrow> 'k \<Rightarrow> 'v option" where
  "record_in holds tp w k =
     (if (case authority tp of None \<Rightarrow> False | Some a \<Rightarrow> holds w (t_id a) k = None) then None
      else the (tp_assemble tp) (parts_hold holds tp w k))"

locale parts_record =
  fixes tp :: "('w, 'k, 'v) topology"
    and holds :: "('w, 'k, 'v) holdings"
    and inv :: "'w \<Rightarrow> bool"
  assumes is_assembled: "assembled tp" "tp_assemble tp \<noteq> None"
    and anchored: "authority tp = Some a \<Longrightarrow> a \<in> set (tp_parts tp)"
    and one_anchor: "authority tp = Some a \<Longrightarrow> t \<in> set (tp_parts tp) \<Longrightarrow> t_role t = Authority \<Longrightarrow> t = a"
    and no_anchor: "authority tp = None \<Longrightarrow> t \<in> set (tp_parts tp) \<Longrightarrow> t_role t \<noteq> Authority"
    and reads: "t \<in> set (tp_parts tp) \<Longrightarrow> reads_right holds inv t"
begin

lemma read_parts_law:
  assumes "inv w" "set ts \<subseteq> set (tp_parts tp)"
  shows "\<exists>w'. read_parts ts k held w = (Inr (\<lambda>i. if i \<in> t_id ` set ts then holds w i k else held i), w')
    \<and> inv w' \<and> holds w' = holds w"
  using assms
proof (induction ts arbitrary: w held)
  case (Cons t ts)
  from Cons.prems have "reads_right holds inv t" by (auto intro: reads)
  from reads_rightD(1) [OF this Cons.prems(1), of k] obtain w1 where
    w1: "t_read t k w = (Inr (holds w (t_id t) k), w1)" "inv w1" "holds w1 = holds w" by blast
  have "set ts \<subseteq> set (tp_parts tp)" using Cons.prems(2) by simp
  from Cons.IH [OF w1(2) this, of "held(t_id t := holds w (t_id t) k)"] obtain w2 where
    w2: "read_parts ts k (held(t_id t := holds w (t_id t) k)) w1
      = (Inr (\<lambda>i. if i \<in> t_id ` set ts then holds w1 i k else (held(t_id t := holds w (t_id t) k)) i), w2)"
      "inv w2" "holds w2 = holds w1" by blast
  have "(\<lambda>i. if i \<in> t_id ` set ts then holds w1 i k else (held(t_id t := holds w (t_id t) k)) i)
      = (\<lambda>i. if i \<in> t_id ` set (t # ts) then holds w i k else held i)"
    using w1(3) by (auto simp: fun_eq_iff)
  with w1 w2 show ?case by simp
qed simp

lemma parts_but_anchor:
  "t_id ` set (unanchored_parts tp) \<union> (case authority tp of None \<Rightarrow> {} | Some a \<Rightarrow> {t_id a}) = t_id ` set (tp_parts tp)"
proof (cases "authority tp")
  case None
  with no_anchor show ?thesis by (auto simp: unanchored_parts_def)
next
  case (Some a)
  have "t \<in> set (unanchored_parts tp) \<or> t = a" if "t \<in> set (tp_parts tp)" for t
    using one_anchor [OF Some that] that by (auto simp: unanchored_parts_def)
  with anchored [OF Some] Some show ?thesis by (auto simp: unanchored_parts_def)
qed

theorem read_law:
  assumes "inv w"
  shows "\<exists>w'. topo_read tp k w = (Inr (record_in holds tp w k), w') \<and> inv w' \<and> holds w' = holds w"
proof -
  from is_assembled obtain f where f: "tp_assemble tp = Some f" by blast
  have un: "set (unanchored_parts tp) \<subseteq> set (tp_parts tp)" by (auto simp: unanchored_parts_def)
  show ?thesis
  proof (cases "authority tp")
    case None
    from read_parts_law [OF assms un, of k "\<lambda>_. None"] obtain w1 where
      w1: "read_parts (unanchored_parts tp) k (\<lambda>_. None) w
        = (Inr (\<lambda>i. if i \<in> t_id ` set (unanchored_parts tp) then holds w i k else None), w1)" "inv w1" "holds w1 = holds w" by blast
    with None f parts_but_anchor show ?thesis
      by (simp add: topo_read_def is_assembled assemble_one_def assemble_record_def record_in_def parts_hold_def [abs_def])
  next
    case (Some a)
    from reads_rightD(1) [OF reads [OF anchored [OF Some]] assms, of k] obtain w1 where
      w1: "t_read a k w = (Inr (holds w (t_id a) k), w1)" "inv w1" "holds w1 = holds w" by blast
    show ?thesis
    proof (cases "holds w (t_id a) k")
      case None
      with Some w1 f show ?thesis by (simp add: topo_read_def is_assembled assemble_one_def record_in_def)
    next
      case held: (Some v)
      from read_parts_law [OF w1(2) un, of k "(\<lambda>_. None)(t_id a \<mapsto> v)"] obtain w2 where
        w2: "read_parts (unanchored_parts tp) k ((\<lambda>_. None)(t_id a \<mapsto> v)) w1
          = (Inr (\<lambda>i. if i \<in> t_id ` set (unanchored_parts tp) then holds w1 i k else ((\<lambda>_. None)(t_id a \<mapsto> v)) i), w2)"
          "inv w2" "holds w2 = holds w1" by blast
      have "(\<lambda>i. if i \<in> t_id ` set (unanchored_parts tp) then holds w1 i k else ((\<lambda>_. None)(t_id a \<mapsto> v)) i)
          = parts_hold holds tp w k"
        using parts_but_anchor Some held w1(3) by (auto simp: fun_eq_iff parts_hold_def)
      with w1 w2 held Some f show ?thesis
        by (simp add: topo_read_def is_assembled assemble_one_def assemble_record_def record_in_def)
    qed
  qed
qed

theorem exists_law:
  assumes "inv w"
  shows "\<exists>w'. topo_exists tp k w = (Inr (record_in holds tp w k \<noteq> None), w') \<and> inv w' \<and> holds w' = holds w"
  using read_law [OF assms, of k] by (auto simp: topo_exists_def is_assembled mapP_run)

lemma batch_read_parts_law:
  assumes "inv w" "set ts \<subseteq> set (tp_parts tp)"
  shows "\<exists>fd w'. batch_read_parts ts wanted fd0 w = (Inr fd, w') \<and> inv w' \<and> holds w' = holds w
    \<and> (\<forall>i. \<forall>k \<in> set wanted. dget (fd i) k = (if i \<in> t_id ` set ts then holds w i k else dget (fd0 i) k))"
  using assms
proof (induction ts arbitrary: w fd0)
  case (Cons t ts)
  let ?read = "if wanted \<noteq> [] then t_batch_read t wanted else returnP []"
  have "reads_right holds inv t" using Cons.prems(2) by (intro reads) simp
  from reads_rightD(2) [OF this Cons.prems(1), of wanted] have
    "\<exists>d w1. ?read w = (Inr d, w1) \<and> inv w1 \<and> holds w1 = holds w \<and> (\<forall>k \<in> set wanted. dget d k = holds w (t_id t) k)"
    using Cons.prems(1) by (cases "wanted = []") auto
  then obtain d w1 where w1: "?read w = (Inr d, w1)" "inv w1" "holds w1 = holds w"
    "\<forall>k \<in> set wanted. dget d k = holds w (t_id t) k" by blast
  have "set ts \<subseteq> set (tp_parts tp)" using Cons.prems(2) by simp
  from Cons.IH [OF w1(2) this, of "fd0(t_id t := d)"] obtain fd w2 where
    w2: "batch_read_parts ts wanted (fd0(t_id t := d)) w1 = (Inr fd, w2)" "inv w2" "holds w2 = holds w1"
      "\<forall>i. \<forall>k \<in> set wanted. dget (fd i) k = (if i \<in> t_id ` set ts then holds w1 i k else dget ((fd0(t_id t := d)) i) k)"
    by blast
  have "batch_read_parts (t # ts) wanted fd0 w = (Inr fd, w2)"
    unfolding batch_read_parts.simps by (subst bindP_Inr, rule w1(1), rule w2(1))
  moreover have "\<forall>i. \<forall>k \<in> set wanted. dget (fd i) k = (if i \<in> t_id ` set (t # ts) then holds w i k else dget (fd0 i) k)"
    using w1(3,4) w2(4) by auto
  ultimately show ?case using w2(2,3) w1(3) by (intro exI [of _ fd] exI [of _ w2] conjI) simp_all
qed simp

theorem batch_read_law:
  assumes "inv w"
  shows "\<exists>d w'. topo_batch_read tp ks w = (Inr d, w') \<and> inv w' \<and> holds w' = holds w
    \<and> dict_ok d \<and> (\<forall>k. dget d k = (if k \<in> set ks then record_in holds tp w k else None))"
proof -
  from is_assembled obtain f where f: "tp_assemble tp = Some f" by blast
  have un: "set (unanchored_parts tp) \<subseteq> set (tp_parts tp)" by (auto simp: unanchored_parts_def)
  have parts: "(\<lambda>i. dget (fd i) k) = parts_hold holds tp w k"
    if "\<And>i. dget (fd i) k = (if i \<in> t_id ` set (tp_parts tp) then holds w i k else None)" for fd :: "nat \<Rightarrow> ('k, 'v) dict" and k
    using that by (simp add: fun_eq_iff parts_hold_def)
  show ?thesis
  proof (cases "ks = []")
    case True
    with f assms show ?thesis by (simp add: topo_batch_read_def is_assembled assemble_many_def)
  next
    case ks: False
    show ?thesis
    proof (cases "authority tp")
      case None
      from batch_read_parts_law [OF assms un, of "fromkeys ks" "\<lambda>_. []"] obtain fd w1 where
        w1: "batch_read_parts (unanchored_parts tp) (fromkeys ks) (\<lambda>_. []) w = (Inr fd, w1)" "inv w1" "holds w1 = holds w"
          "\<forall>i. \<forall>k \<in> set (fromkeys ks). dget (fd i) k = (if i \<in> t_id ` set (unanchored_parts tp) then holds w i k else dget [] k)"
        by blast
      let ?d = "assemble_all f fd (fromkeys ks)"
      have "topo_batch_read tp ks w = (Inr ?d, w1)"
        using f ks None w1(1) by (simp add: topo_batch_read_def is_assembled assemble_many_def Let_def)
      moreover have "dget ?d k = (if k \<in> set ks then record_in holds tp w k else None)" for k
      proof (cases "k \<in> set ks")
        case True
        then have "dget (fd i) k = (if i \<in> t_id ` set (tp_parts tp) then holds w i k else None)" for i
          using w1(4) parts_but_anchor None by simp
        from parts [OF this] True None f show ?thesis by (simp add: assemble_all_def record_in_def)
      next
        case False
        then show ?thesis by (simp add: assemble_all_def)
      qed
      ultimately show ?thesis using w1(2,3) by (intro exI [of _ ?d] exI [of _ w1]) (simp add: assemble_all_def)
    next
      case (Some a)
      from reads_rightD(2) [OF reads [OF anchored [OF Some]] assms, of "fromkeys ks"] obtain hits w1 where
        w1: "t_batch_read a (fromkeys ks) w = (Inr hits, w1)" "inv w1" "holds w1 = holds w"
          "\<And>k. dget hits k = (if k \<in> set (fromkeys ks) then holds w (t_id a) k else None)" by blast
      let ?wanted = "filter (\<lambda>k. dget hits k \<noteq> None) (fromkeys ks)"
      from batch_read_parts_law [OF w1(2) un, of ?wanted "(\<lambda>_. [])(t_id a := hits)"] obtain fd w2 where
        w2: "batch_read_parts (unanchored_parts tp) ?wanted ((\<lambda>_. [])(t_id a := hits)) w1 = (Inr fd, w2)" "inv w2" "holds w2 = holds w1"
          "\<forall>i. \<forall>k \<in> set ?wanted. dget (fd i) k = (if i \<in> t_id ` set (unanchored_parts tp) then holds w1 i k else dget (((\<lambda>_. [])(t_id a := hits)) i) k)"
        by blast
      let ?d = "assemble_all f fd ?wanted"
      have "topo_batch_read tp ks w = (Inr ?d, w2)"
        using f ks Some w1(1) w2(1) by (simp add: topo_batch_read_def is_assembled assemble_many_def Let_def)
      moreover have "dget ?d k = (if k \<in> set ks then record_in holds tp w k else None)" for k
      proof (cases "k \<in> set ?wanted")
        case True
        have h: "dget hits k = holds w (t_id a) k" using w1(4) [of k] True by simp
        have "dget (fd i) k = (if i \<in> t_id ` set (tp_parts tp) then holds w i k else None)" for i
        proof -
          have "insert (t_id a) (t_id ` set (unanchored_parts tp)) = t_id ` set (tp_parts tp)"
            using parts_but_anchor Some by simp
          then have "i \<in> t_id ` set (tp_parts tp) \<longleftrightarrow> i = t_id a \<or> i \<in> t_id ` set (unanchored_parts tp)" by blast
          with w2(4) [rule_format, OF True, of i] h w1(3) show ?thesis
            by (cases "i \<in> t_id ` set (unanchored_parts tp)"; cases "i = t_id a") simp_all
        qed
        from parts [OF this] True w1(4) [of k] Some f show ?thesis by (auto simp: assemble_all_def record_in_def)
      next
        case False
        with w1(4) [of k] Some show ?thesis by (auto simp: assemble_all_def record_in_def)
      qed
      ultimately show ?thesis using w2(2,3) w1(3)
        by (intro exI [of _ ?d] exI [of _ w2]) (simp add: assemble_all_def)
    qed
  qed
qed

theorem batch_exists_law:
  assumes "inv w"
  shows "\<exists>w'. topo_batch_exists tp ks w = (Inr {k \<in> set ks. record_in holds tp w k \<noteq> None}, w') \<and> inv w' \<and> holds w' = holds w"
proof -
  from batch_read_law [OF assms, of ks] obtain d w' where
    d: "topo_batch_read tp ks w = (Inr d, w')" "inv w'" "holds w' = holds w"
      "\<forall>k. dget d k = (if k \<in> set ks then record_in holds tp w k else None)" by blast
  have "dget d k \<noteq> None \<longleftrightarrow> k \<in> set ks \<and> record_in holds tp w k \<noteq> None" for k
    using d(4) [rule_format, of k] by simp
  then have "set (dkeys d) = {k \<in> set ks. record_in holds tp w k \<noteq> None}"
    unfolding dkeys_dom dom_def by blast
  with d(1-3) show ?thesis by (simp add: topo_batch_exists_def is_assembled)
qed

end

text \<open>An assembled composition is a keymap to its parent as well.\<close>

sublocale parts_record \<subseteq> assembled: readable_keymap "record_keymap tp" "\<lambda>n. record_in holds tp (fst n)" "\<lambda>n. inv (fst n)"
proof unfold_locales
  fix n :: "'w node" and k :: 'k and ks :: "'k list"
  assume "inv (fst n)"
  then obtain w q where n: "n = (w, q)" "inv w" by (cases n) simp
  have kept: "record_in holds tp w' = record_in holds tp w" if "holds w' = holds w" for w'
    by (rule ext) (simp only: record_in_def parts_hold_def [abs_def] that)
  from read_law [OF n(2), of k] obtain w1 where
    w1: "topo_read tp k w = (Inr (record_in holds tp w k), w1)" "inv w1" "holds w1 = holds w" by blast
  then show "\<exists>w'. km_get (record_keymap tp) k n = (Inr (record_in holds tp (fst n) k), w') \<and> inv (fst w')
      \<and> record_in holds tp (fst w') = record_in holds tp (fst n)"
    using kept [OF w1(3)] by (intro exI [of _ "(w1, q)"]) (simp add: record_keymap_def n(1))
  from batch_read_law [OF n(2), of ks] obtain d w2 where
    d: "topo_batch_read tp ks w = (Inr d, w2)" "inv w2" "holds w2 = holds w" "dict_ok d"
      "\<forall>k. dget d k = (if k \<in> set ks then record_in holds tp w k else None)" by blast
  then show "\<exists>d w'. km_batch_get (record_keymap tp) ks n = (Inr d, w') \<and> inv (fst w')
      \<and> record_in holds tp (fst w') = record_in holds tp (fst n)
      \<and> dict_ok d \<and> (\<forall>k. dget d k = (if k \<in> set ks then record_in holds tp (fst n) k else None))"
    using kept [OF d(3)] by (intro exI [of _ d] exI [of _ "(w2, q)"]) (simp add: record_keymap_def n(1))
  from exists_law [OF n(2), of k] obtain w3 where
    w3: "topo_exists tp k w = (Inr (record_in holds tp w k \<noteq> None), w3)" "inv w3" "holds w3 = holds w" by blast
  then show "\<exists>w'. km_exists (record_keymap tp) k n = (Inr (record_in holds tp (fst n) k \<noteq> None), w') \<and> inv (fst w')
      \<and> record_in holds tp (fst w') = record_in holds tp (fst n)"
    using kept [OF w3(3)] by (intro exI [of _ "(w3, q)"]) (simp add: record_keymap_def n(1))
  from batch_exists_law [OF n(2), of ks] obtain w4 where
    w4: "topo_batch_exists tp ks w = (Inr {k \<in> set ks. record_in holds tp w k \<noteq> None}, w4)" "inv w4" "holds w4 = holds w" by blast
  then show "\<exists>w'. km_batch_exists (record_keymap tp) ks n = (Inr {k \<in> set ks. record_in holds tp (fst n) k \<noteq> None}, w')
      \<and> inv (fst w') \<and> record_in holds tp (fst w') = record_in holds tp (fst n)"
    using kept [OF w4(3)] by (intro exI [of _ "(w4, q)"]) (simp add: record_keymap_def n(1))
qed

end
