(* ===== verification/Dict_Map.thy ===== *)
theory Dict_Map
  imports Keymap_Spec
begin

text \<open>
  \<open>src/kvtsjl/keymap_algebra/dict_map.py\<close>: the in-memory \<open>DictKeyMap\<close> as a record of
  its dictionary, its version of every entry and the next version to hand out; its
  operations; the invariant they keep; and the contract of \<open>Keymap_Spec\<close> discharged
  for it, which gives the atomicity of \<open>update\<close> on it.
\<close>

section \<open>The state\<close>

record ('k, 'v) dict_map =
  dm_data :: "('k, 'v) dict"
  dm_version :: "('k, token) dict"
  dm_next :: token

text \<open>\<open>__init__\<close>: every initial entry takes a version, in order, from \<open>itertools.count(1)\<close>.\<close>

definition dict_map_init :: "('k, 'v) dict \<Rightarrow> ('k, 'v) dict_map" where
  "dict_map_init items = \<lparr>dm_data = items,
     dm_version = zip (dkeys items) [1 ..< Suc (length items)],
     dm_next = Suc (length items)\<rparr>"

text \<open>\<open>from_pairs\<close>: \<open>cls(dict(pairs))\<close>; the last value of a repeated key wins.\<close>

definition dict_map_from_pairs :: "('k \<times> 'v) list \<Rightarrow> ('k, 'v) dict_map" where
  "dict_map_from_pairs pairs = dict_map_init (dmerge [] pairs)"

section \<open>The operations\<close>

definition dict_get :: "'k \<Rightarrow> (('k, 'v) dict_map, 'v option) prog" where
  "dict_get key = (\<lambda>m. (Inr (dget (dm_data m) key), m))"

definition dict_set :: "'k \<Rightarrow> 'v \<Rightarrow> write_options \<Rightarrow> (('k, 'v) dict_map, unit) prog" where
  "dict_set key value opts = (\<lambda>m. (Inr (), m\<lparr>dm_data := dput key value (dm_data m),
     dm_version := dput key (dm_next m) (dm_version m), dm_next := Suc (dm_next m)\<rparr>))"

definition dict_batch_read_versioned :: "'k list \<Rightarrow> (('k, 'v) dict_map, ('k, 'v versioned) dict) prog" where
  "dict_batch_read_versioned keys = (\<lambda>m.
     if \<exists>k \<in> set keys. dget (dm_version m) k \<noteq> None \<and> dget (dm_data m) k = None then (Inl KeyError, m)
     else (Inr (dict_of (\<lambda>k. case dget (dm_version m) k of
             None \<Rightarrow> absent | Some v \<Rightarrow> Versioned (dget (dm_data m) k) (Some v)) keys), m))"

definition dict_delete :: "'k \<Rightarrow> (('k, 'v) dict_map, bool) prog" where
  "dict_delete key = (\<lambda>m.
     if dget (dm_data m) key = None then (Inr False, m)
     else if dget (dm_version m) key = None then (Inl KeyError, m\<lparr>dm_data := ddel key (dm_data m)\<rparr>)
     else (Inr True, m\<lparr>dm_data := ddel key (dm_data m), dm_version := ddel key (dm_version m)\<rparr>))"

definition dict_write_one ::
  "'k \<times> 'v cond_write \<Rightarrow> 'k set \<Rightarrow> (('k, 'v) dict_map, 'k set) prog" where
  "dict_write_one = (\<lambda>(key, w) written m.
     if dget (dm_version m) key \<noteq> seen_version (cw_seen w) then (Inr written, m)
     else case cw_change w of
       Remove \<Rightarrow> mapP (\<lambda>b. if b then insert key written else written) (dict_delete key) m
     | Put value \<Rightarrow> mapP (\<lambda>_. insert key written) (dict_set key value no_options) m)"

definition dict_batch_write_if_unchanged ::
  "('k, 'v cond_write) dict \<Rightarrow> ttl_policy option \<Rightarrow> (('k, 'v) dict_map, 'k set) prog" where
  "dict_batch_write_if_unchanged writes ttl = foldP dict_write_one writes {}"

definition dict_keys :: "('k, 'v) dict_map \<Rightarrow> 'k list" where
  "dict_keys m = dkeys (dm_data m)"

text \<open>\<open>DictKeyMap\<close> as a keymap: the rest are the inherited defaults.\<close>

definition dict_keymap :: "(('k, 'v) dict_map, 'k, 'v) keymap" where
  "dict_keymap = \<lparr>
     km_get = dict_get,
     km_batch_get = default_batch_get dict_get,
     km_exists = default_exists dict_get,
     km_batch_exists = default_batch_exists (default_batch_get dict_get),
     km_stat = default_stat (default_exists dict_get),
     km_batch_stat = default_batch_stat (default_batch_exists (default_batch_get dict_get)),
     km_batch_read_versioned = dict_batch_read_versioned,
     km_batch_write_if_unchanged = dict_batch_write_if_unchanged,
     km_set = dict_set,
     km_batch_set = default_batch_set dict_set,
     km_delete = dict_delete,
     km_batch_delete = count_true dict_delete,
     km_unset = dict_delete,
     km_batch_unset = count_true dict_delete,
     km_creates_entries = True\<rparr>"

section \<open>The invariant\<close>

text \<open>
  The keys of \<open>_version\<close> are the keys of \<open>_data\<close>, and every version in use was handed
  out before \<open>dm_next\<close>.
\<close>

definition dict_map_inv :: "('k, 'v) dict_map \<Rightarrow> bool" where
  "dict_map_inv m \<longleftrightarrow> dict_ok (dm_data m) \<and> dict_ok (dm_version m)
     \<and> dom (dget (dm_version m)) = dom (dget (dm_data m))
     \<and> (\<forall>k n. dget (dm_version m) k = Some n \<longrightarrow> n < dm_next m)"

abbreviation dict_holds :: "('k, 'v) dict_map \<Rightarrow> 'k \<Rightarrow> 'v option" where
  "dict_holds m \<equiv> dget (dm_data m)"

abbreviation dict_ver :: "('k, 'v) dict_map \<Rightarrow> 'k \<Rightarrow> token option" where
  "dict_ver m \<equiv> dget (dm_version m)"

text \<open>A version handed out before still names the entry it named, or nothing.\<close>

definition dict_evolves :: "('k, 'v) dict_map \<Rightarrow> ('k, 'v) dict_map \<Rightarrow> bool" where
  "dict_evolves m m' \<longleftrightarrow> dm_next m \<le> dm_next m' \<and>
     (\<forall>k n. n < dm_next m \<longrightarrow> dict_ver m' k = Some n \<longrightarrow> dict_ver m k = Some n \<and> dict_holds m' k = dict_holds m k)"

lemma dict_evolves_refl: "dict_evolves m m"
  by (simp add: dict_evolves_def)

lemma dict_evolves_trans:
  assumes 12: "dict_evolves m1 m2" and 23: "dict_evolves m2 m3"
  shows "dict_evolves m1 m3"
  unfolding dict_evolves_def
proof (intro conjI allI impI)
  show "dm_next m1 \<le> dm_next m3" using 12 23 by (simp add: dict_evolves_def)
  fix k n assume n: "n < dm_next m1" and 3: "dict_ver m3 k = Some n"
  have "n < dm_next m2" using 12 n by (simp add: dict_evolves_def)
  with 23 3 have 2: "dict_ver m2 k = Some n" "dict_holds m3 k = dict_holds m2 k"
    unfolding dict_evolves_def by blast+
  with 12 n have "dict_ver m1 k = Some n" "dict_holds m2 k = dict_holds m1 k"
    unfolding dict_evolves_def by blast+
  with 2 show "dict_ver m1 k = Some n" "dict_holds m3 k = dict_holds m1 k" by simp_all
qed

lemma dict_map_init_inv: "dict_ok items \<Longrightarrow> dict_map_inv (dict_map_init items)"
proof -
  assume ok: "dict_ok items"
  let ?vs = "[1 ..< Suc (length items)]"
  have keys: "map fst (zip (dkeys items) ?vs) = dkeys items"
    by (rule map_fst_zip) (simp del: upt_Suc)
  then have "dom (dget (zip (dkeys items) ?vs)) = dom (dget items)"
    by (metis dkeys_dom)
  moreover have "n < Suc (length items)" if "dget (zip (dkeys items) ?vs) k = Some n" for k n
    using set_zip_rightD [OF map_of_SomeD [OF that]] by (simp del: upt_Suc)
  ultimately show ?thesis using ok keys
    unfolding dict_map_inv_def dict_map_init_def by simp
qed

lemma dict_inv_ver_iff: "dict_map_inv m \<Longrightarrow> dict_ver m k = None \<longleftrightarrow> dict_holds m k = None"
  unfolding dict_map_inv_def by (metis domIff)

lemma dict_set_step:
  assumes "dict_map_inv m"
  shows "\<exists>m'. dict_set k v opts m = (Inr (), m') \<and> dict_map_inv m' \<and> dict_evolves m m'
    \<and> dict_holds m' = (dict_holds m)(k \<mapsto> v) \<and> dict_ver m' = (dict_ver m)(k \<mapsto> dm_next m)"
proof -
  let ?m = "m\<lparr>dm_data := dput k v (dm_data m), dm_version := dput k (dm_next m) (dm_version m),
              dm_next := Suc (dm_next m)\<rparr>"
  have "dict_map_inv ?m" using assms by (simp add: dict_map_inv_def less_Suc_eq)
  moreover have "dict_evolves m ?m" by (simp add: dict_evolves_def)
  ultimately show ?thesis by (simp add: dict_set_def)
qed

lemma dict_delete_step:
  assumes "dict_map_inv m"
  shows "\<exists>m'. dict_delete k m = (Inr (dict_holds m k \<noteq> None), m') \<and> dict_map_inv m' \<and> dict_evolves m m'
    \<and> dict_holds m' = (dict_holds m)(k := None) \<and> dict_ver m' = (dict_ver m)(k := None)"
proof (cases "dict_holds m k")
  case None
  with assms show ?thesis by (simp add: dict_delete_def dict_inv_ver_iff dict_evolves_refl fun_upd_idem)
next
  case (Some v)
  let ?m = "m\<lparr>dm_data := ddel k (dm_data m), dm_version := ddel k (dm_version m)\<rparr>"
  have "dict_map_inv ?m" using assms by (simp add: dict_map_inv_def)
  moreover have "dict_evolves m ?m" by (simp add: dict_evolves_def)
  moreover have "dict_ver m k \<noteq> None" using Some assms by (simp add: dict_inv_ver_iff)
  ultimately show ?thesis using Some by (simp add: dict_delete_def)
qed

section \<open>The conditional batch\<close>

text \<open>One conditional write, decided on the version stored now.\<close>

lemma dict_write_one_step:
  assumes inv: "dict_map_inv m"
  shows "\<exists>m'. dict_write_one (k, w) written m
      = (Inr (if k \<in> cas_wins (dict_ver m) [(k, w)] then insert k written else written), m')
    \<and> dict_map_inv m' \<and> dict_evolves m m'
    \<and> (\<forall>j. j \<noteq> k \<or> k \<notin> cas_wins (dict_ver m) [(k, w)] \<longrightarrow> dict_holds m' j = dict_holds m j \<and> dict_ver m' j = dict_ver m j)
    \<and> (k \<in> cas_wins (dict_ver m) [(k, w)] \<longrightarrow>
        dict_holds m' k = (case cw_change w of Put v \<Rightarrow> Some v | Remove \<Rightarrow> None))"
proof (cases "dict_ver m k = seen_version (cw_seen w)")
  case False
  then show ?thesis using inv by (auto simp: dict_write_one_def cas_wins_def dict_evolves_refl)
next
  case True
  show ?thesis
  proof (cases "cw_change w")
    case (Put v)
    from dict_set_step [OF inv, of k v no_options] obtain m' where
      "dict_set k v no_options m = (Inr (), m')" "dict_map_inv m'" "dict_evolves m m'"
      "dict_holds m' = (dict_holds m)(k \<mapsto> v)" "dict_ver m' = (dict_ver m)(k \<mapsto> dm_next m)" by blast
    with True Put show ?thesis by (auto simp: dict_write_one_def cas_wins_def)
  next
    case Remove
    from dict_delete_step [OF inv, of k] obtain m' where
      "dict_delete k m = (Inr (dict_holds m k \<noteq> None), m')" "dict_map_inv m'" "dict_evolves m m'"
      "dict_holds m' = (dict_holds m)(k := None)" "dict_ver m' = (dict_ver m)(k := None)" by blast
    with True Remove dict_inv_ver_iff [OF inv, of k] show ?thesis
      by (auto simp: dict_write_one_def cas_wins_def)
  qed
qed

lemma dict_write_all_step:
  assumes "dict_map_inv m" "dict_ok ws"
  shows "\<exists>m'. foldP dict_write_one ws written m = (Inr (written \<union> cas_wins (dict_ver m) ws), m')
    \<and> dict_map_inv m' \<and> dict_evolves m m'
    \<and> (\<forall>k. k \<notin> cas_wins (dict_ver m) ws \<longrightarrow> dict_holds m' k = dict_holds m k \<and> dict_ver m' k = dict_ver m k)
    \<and> (\<forall>k w. k \<in> cas_wins (dict_ver m) ws \<longrightarrow> dget ws k = Some w \<longrightarrow>
         dict_holds m' k = (case cw_change w of Put v \<Rightarrow> Some v | Remove \<Rightarrow> None))"
  by (rule cas_fold [where after = "\<lambda>_ w. case cw_change w of Put v \<Rightarrow> Some v | Remove \<Rightarrow> None",
        OF dict_write_one_step dict_evolves_refl dict_evolves_trans _ assms]) simp_all

section \<open>The contract\<close>

interpretation dictm: point_reads dict_get dict_holds dict_map_inv
  by unfold_locales (simp add: dict_get_def)

interpretation dict_km: readable_keymap dict_keymap dict_holds dict_map_inv
proof unfold_locales
  fix m :: "('k, 'v) dict_map" and ks :: "'k list" and k
  assume inv: "dict_map_inv m"
  note bg = dictm.default_batch_get_law [OF inv]
  show "\<exists>w'. km_get dict_keymap k m = (Inr (dict_holds m k), w') \<and> dict_map_inv w' \<and> dict_holds w' = dict_holds m"
    using dictm.get_law [OF inv] by (simp add: dict_keymap_def)
  show "\<exists>d w'. km_batch_get dict_keymap ks m = (Inr d, w') \<and> dict_map_inv w' \<and> dict_holds w' = dict_holds m
      \<and> dict_ok d \<and> (\<forall>k. dget d k = (if k \<in> set ks then dict_holds m k else None))"
    using bg by (simp add: dict_keymap_def)
  show "\<exists>w'. km_exists dict_keymap k m = (Inr (dict_holds m k \<noteq> None), w') \<and> dict_map_inv w' \<and> dict_holds w' = dict_holds m"
    using dictm.default_exists_law [OF inv] by (simp add: dict_keymap_def)
  show "\<exists>w'. km_batch_exists dict_keymap ks m = (Inr {k \<in> set ks. dict_holds m k \<noteq> None}, w')
      \<and> dict_map_inv w' \<and> dict_holds w' = dict_holds m"
    unfolding dict_keymap_def keymap.simps
    by (rule default_batch_exists_of [where P = "\<lambda>w'. dict_map_inv w' \<and> dict_holds w' = dict_holds m"])
      (use bg in blast)
qed

interpretation dict_km: stat_keymap dict_keymap dict_holds dict_map_inv
proof unfold_locales
  fix m :: "('k, 'v) dict_map" and ks :: "'k list"
  assume "dict_map_inv m"
  from dict_km.default_batch_stat_law [OF this, of ks]
  show "\<exists>d w'. km_batch_stat dict_keymap ks m = (Inr d, w') \<and> dict_map_inv w' \<and> dict_holds w' = dict_holds m"
    by (simp add: dict_keymap_def)
qed

interpretation dict_km: writable_keymap dict_keymap dict_holds dict_map_inv "\<lambda>_ _ _. True"
proof unfold_locales
  fix m :: "('k, 'v) dict_map" and k :: 'k and v :: 'v and opts
  assume inv: "dict_map_inv m"
  show "\<exists>w'. km_set dict_keymap k v opts m = (Inr (), w') \<and> dict_map_inv w' \<and> dict_holds w' = (dict_holds m)(k \<mapsto> v)"
    using dict_set_step [OF inv, of k v opts] by (auto simp: dict_keymap_def)
  show "\<exists>b w'. km_delete dict_keymap k m = (Inr b, w') \<and> dict_map_inv w'
      \<and> dict_holds w' = (dict_holds m)(k := None) \<and> (dict_holds m k \<noteq> None \<longrightarrow> b)"
    using dict_delete_step [OF inv, of k] by (auto simp: dict_keymap_def)
qed

interpretation dict_km: conditional_keymap dict_keymap dict_holds dict_map_inv "\<lambda>_ _ _. True" dict_ver dict_evolves
proof unfold_locales
  fix m m' m'' :: "('k, 'v) dict_map" and k :: 'k and ks :: "'k list" and ws :: "('k, 'v cond_write) dict"
    and ttl :: "ttl_policy option"
  show "dict_evolves m m" by (rule dict_evolves_refl)
  show "dict_evolves m m' \<Longrightarrow> dict_evolves m' m'' \<Longrightarrow> dict_evolves m m''" by (rule dict_evolves_trans)
  show "True" ..
  show "dict_holds m' k = dict_holds m k"
    if "dict_map_inv m" "dict_map_inv m'" "dict_evolves m m'" "dict_ver m' k = dict_ver m k"
  proof (cases "dict_ver m k")
    case None
    with that dict_inv_ver_iff [OF that(1), of k] dict_inv_ver_iff [OF that(2), of k] show ?thesis by simp
  next
    case (Some n)
    with that(1) have "n < dm_next m" unfolding dict_map_inv_def by blast
    with Some that(3,4) show ?thesis unfolding dict_evolves_def by metis
  qed
  show "dict_map_inv m \<Longrightarrow> dict_ver m k = None \<Longrightarrow> dict_holds m k = None"
    by (simp add: dict_inv_ver_iff)
  show "\<exists>d w'. km_batch_read_versioned dict_keymap ks m = (Inr d, w') \<and> dict_map_inv w'
      \<and> dict_evolves m w' \<and> dict_holds w' = dict_holds m \<and> dict_ver w' = dict_ver m
      \<and> (\<forall>k \<in> set ks. dget d k = Some (Versioned (dict_holds m k) (dict_ver m k)))"
    if inv: "dict_map_inv m"
  proof -
    have "(case dict_ver m k of None \<Rightarrow> absent | Some v \<Rightarrow> Versioned (dict_holds m k) (Some v))
        = Versioned (dict_holds m k) (dict_ver m k)" for k
      using dict_inv_ver_iff [OF inv, of k] by (cases "dict_ver m k") (auto simp: absent_def)
    moreover have "\<not> (\<exists>k \<in> set ks. dict_ver m k \<noteq> None \<and> dict_holds m k = None)"
      by (auto simp: dict_inv_ver_iff [OF inv])
    ultimately show ?thesis using inv
      by (simp add: dict_keymap_def dict_batch_read_versioned_def dict_evolves_refl)
  qed
  show "\<exists>w'. km_batch_write_if_unchanged dict_keymap ws ttl m = (Inr (cas_wins (dict_ver m) ws), w') \<and> dict_map_inv w'
      \<and> dict_evolves m w'
      \<and> (\<forall>k. k \<notin> cas_wins (dict_ver m) ws \<longrightarrow> dict_holds w' k = dict_holds m k \<and> dict_ver w' k = dict_ver m k)
      \<and> (\<forall>k cw v. k \<in> cas_wins (dict_ver m) ws \<longrightarrow> dget ws k = Some cw \<longrightarrow> cw_change cw = Put v
           \<longrightarrow> True \<longrightarrow> dict_holds w' k = Some v)
      \<and> (\<forall>k cw. k \<in> cas_wins (dict_ver m) ws \<longrightarrow> dget ws k = Some cw \<longrightarrow> cw_change cw = Remove
           \<longrightarrow> dict_holds w' k = None)
      \<and> (\<forall>k cw v. k \<in> cas_wins (dict_ver m) ws \<longrightarrow> dget ws k = Some cw \<longrightarrow> cw_change cw = Put v
           \<longrightarrow> dict_holds w' k = None \<or> dict_holds w' k = Some v)"
    if "dict_map_inv m" "dict_ok ws"
  proof -
    from dict_write_all_step [OF that, of "{}"] obtain m' where
      m': "foldP dict_write_one ws {} m = (Inr (cas_wins (dict_ver m) ws), m')" "dict_map_inv m'" "dict_evolves m m'"
        "\<forall>k. k \<notin> cas_wins (dict_ver m) ws \<longrightarrow> dict_holds m' k = dict_holds m k \<and> dict_ver m' k = dict_ver m k"
        "\<And>k w. \<lbrakk>k \<in> cas_wins (dict_ver m) ws; dget ws k = Some w\<rbrakk> \<Longrightarrow>
           dict_holds m' k = (case cw_change w of Put v \<Rightarrow> Some v | Remove \<Rightarrow> None)" by auto
    show ?thesis
      by (rule exI [of _ m'], intro conjI allI impI)
        (simp_all add: dict_keymap_def dict_batch_write_if_unchanged_def m')
  qed
qed

section \<open>Properties\<close>

text \<open>
  C1. No lost update. However other writers of a \<open>DictKeyMap\<close> interleave with the rounds
  of \<open>update\<close>, it makes at most one write, and that write replaces exactly the value
  \<open>decide\<close> was shown (the ghost log records what was replaced); a \<open>Keep\<close> writes nothing;
  what it returns is what the entry holds at that moment; a conflict has written
  nothing; and a conflict needs at least as many interfering writers as \<open>attempts\<close>.
\<close>

theorem dict_update_atomic:
  assumes "dict_map_inv m" "other_writers dict_map_inv dict_evolves sched" "1 \<le> attempts"
  shows "\<exists>r m' sched' l. batch_update (contended dict_holds dict_keymap) [k] (decide_one k decide) opts attempts
      (m, sched, []) = (Inr r, m', sched', l) \<and> dict_map_inv m' \<and> atomic_outcome dict_holds k decide m' l r
      \<and> (int (length sched) < attempts \<longrightarrow> (\<exists>d. r = Held d))"
  using dict_km.update_contended [where opts = opts and k = k and decide = decide and log = "[]", OF assms(1,2) _ assms(3)] by simp

text \<open>An interfering writer: someone sets \<open>''n''\<close> to one more before the first conditional write.\<close>

definition bump_n :: "(string, int) dict_map \<Rightarrow> (string, int) dict_map" where
  "bump_n m = (if dict_map_inv m then snd (dict_set ''n'' (the (dict_holds m ''n'') + 1) no_options m) else m)"

lemma bump_n_other_writer: "other_writers dict_map_inv dict_evolves [bump_n]"
proof -
  have "dict_map_inv (bump_n m) \<and> dict_evolves m (bump_n m)" if "dict_map_inv m" for m
    using dict_set_step [OF that, of "''n''" "the (dict_holds m ''n'') + 1" no_options] that
    by (auto simp: bump_n_def)
  then show ?thesis by (simp add: other_writers_def)
qed

theorem dict_update_atomic_witness:
  "\<exists>r m' sched' l. batch_update (contended dict_holds dict_keymap) [''n''] (decide_one ''n'' (\<lambda>v. Change (Put (the v + 1))))
      no_options 2 (dict_map_init [(''n'', 41::int)], [bump_n], []) = (Inr r, m', sched', l)
    \<and> dict_map_inv m' \<and> atomic_outcome dict_holds ''n'' (\<lambda>v. Change (Put (the v + 1))) m' l r
    \<and> (\<exists>d. r = Held d)"
  using dict_update_atomic [OF dict_map_init_inv bump_n_other_writer, of "[(''n'', 41)]" 2 "''n''"
      "\<lambda>v. Change (Put (the v + 1))" no_options] by simp

text \<open>
  C4. Without interference \<open>batch_update\<close> on a \<open>DictKeyMap\<close> never conflicts: it applies to
  each key asked for the decision made for it (a key left out is kept), leaves every
  other key alone and returns exactly what the keys hold afterwards.
\<close>

theorem dict_batch_update_applies:
  assumes "dict_map_inv m" "1 \<le> attempts"
  shows "\<exists>d m'. batch_update dict_keymap ks decide opts attempts m = (Inr (Held d), m') \<and> dict_map_inv m'
    \<and> (\<forall>k. dict_holds m' k = (if k \<in> set ks
          then decided (decision_on (decide (dict_of (dict_holds m) ks)) k) (dict_holds m k) else dict_holds m k))
    \<and> (\<forall>k. dget d k = (if k \<in> set ks then dict_holds m' k else None))"
  using dict_km.batch_update_alone [where opts = opts and ks = ks and decide = decide, OF assms(1) _ assms(2)] by simp

theorem dict_batch_update_applies_witness:
  "\<exists>d m'. batch_update dict_keymap [''a'', ''b'', ''a''] (\<lambda>seen. [(''b'', Change (Put (2::int)))]) no_options 8
      (dict_map_init [(''a'', 1)]) = (Inr (Held d), m')
    \<and> dict_holds m' ''a'' = Some 1 \<and> dict_holds m' ''b'' = Some 2 \<and> dget d ''b'' = Some 2"
  using dict_batch_update_applies [OF dict_map_init_inv, of "[(''a'', 1)]" 8 "[''a'', ''b'', ''a'']"
      "\<lambda>seen. [(''b'', Change (Put 2))]" no_options]
  by (force simp: dict_map_init_def)

text \<open>
  C8. The conditional batch is a compare and write per key: against any stored state, the
  keys it reports written are exactly those whose version is the one seen (and, for a
  removal, that are there at all), those now hold what was put or nothing, and no other
  key is touched.
\<close>

theorem dict_cas_exact:
  assumes "dict_map_inv m" "dict_ok writes"
  shows "\<exists>m'. km_batch_write_if_unchanged dict_keymap writes ttl m = (Inr (cas_wins (dict_ver m) writes), m')
    \<and> dict_map_inv m'
    \<and> (\<forall>k. dict_holds m' k = (if k \<in> cas_wins (dict_ver m) writes
         then (case cw_change (the (dget writes k)) of Put v \<Rightarrow> Some v | Remove \<Rightarrow> None) else dict_holds m k))"
proof -
  from dict_write_all_step [OF assms, of "{}"] obtain m' where
    "foldP dict_write_one writes {} m = (Inr (cas_wins (dict_ver m) writes), m')" "dict_map_inv m'"
    "\<forall>k. k \<notin> cas_wins (dict_ver m) writes \<longrightarrow> dict_holds m' k = dict_holds m k \<and> dict_ver m' k = dict_ver m k"
    "\<forall>k w. k \<in> cas_wins (dict_ver m) writes \<longrightarrow> dget writes k = Some w \<longrightarrow>
       dict_holds m' k = (case cw_change w of Put v \<Rightarrow> Some v | Remove \<Rightarrow> None)" by auto
  then show ?thesis
    by (intro exI [of _ m']) (auto simp: dict_keymap_def dict_batch_write_if_unchanged_def cas_wins_def)
qed

theorem dict_cas_exact_witness:
  "dict_map_inv (dict_map_init [(''a'', 1::int)]) \<and> (\<exists>m'. km_batch_write_if_unchanged dict_keymap
      [(''a'', ConditionalWrite (Versioned (Some 1) (Some 1)) (Put 5) None),
       (''b'', ConditionalWrite absent (Put 7) None)] None (dict_map_init [(''a'', 1::int)])
    = (Inr (cas_wins (dict_ver (dict_map_init [(''a'', 1::int)]))
        [(''a'', ConditionalWrite (Versioned (Some 1) (Some 1)) (Put 5) None),
         (''b'', ConditionalWrite absent (Put (7::int)) None)]), m'))"
proof -
  have inv: "dict_map_inv (dict_map_init [(''a'', 1::int)])" by (rule dict_map_init_inv) simp
  have ok: "dict_ok [(''a'', ConditionalWrite (Versioned (Some 1) (Some 1)) (Put 5) None),
         (''b'', ConditionalWrite absent (Put (7::int)) None)]" by simp
  from dict_cas_exact [OF inv ok, of None] inv show ?thesis by blast
qed

end
