(* ===== verification/Composition_Laws.thy ===== *)
theory Composition_Laws
  imports Compositions Topology_Laws Topology_Reads Dict_Map
begin

text \<open>
  The compositions of \<open>Compositions\<close> are instances of the topology's contracts: a keymap
  that keeps its contract makes a target that reads and fills right, so \<open>coalesce\<close>,
  \<open>mirror\<close> and the zips of such keymaps are records held whole or assembled from parts.
  The locales state it over any two keymaps; the interpretations put it on \<open>DictKeyMap\<close>s.
\<close>

section \<open>Keymaps as targets\<close>

lemma keymap_target_is:
  assumes "keymap_target ident name role km slot lookup fill policy = Inr t"
  shows "t_id t = ident" "t_name t = name" "t_role t = role" "t_fill t = fill" "t_policy t = policy"
    "t_lookup t = (case lookup of Some l \<Rightarrow> Some l | None \<Rightarrow> default_lookup role)"
    "t_read t = km_get km" "t_batch_read t = km_batch_get km"
    "t_exists t = km_exists km" "t_batch_exists t = km_batch_exists km"
    "t_stat t = km_stat km" "t_batch_stat t = km_batch_stat km"
    "t_write t = kmt_write km slot" "t_batch_write t = kmt_batch_write km slot"
    "t_batch_read_versioned t = km_batch_read_versioned km"
    "t_batch_write_if_unchanged t = kmt_batch_write_if_unchanged km slot"
    "t_delete t = km_delete km" "t_unset t = km_unset km"
    "t_batch_delete t = km_batch_delete km" "t_batch_unset t = km_batch_unset km"
    "t_supports_write_clock t = False" "t_writes_are_deferred t = False" "t_creates_entries t = km_creates_entries km"
  using assms by (auto simp: keymap_target_def new_target_def Let_def split: if_split_asm)

lemma slot_writes_whole:
  "slot_writes whole writes = Inr (dmap (\<lambda>_ w. ConditionalWrite (Versioned None (seen_version (cw_seen w))) (cw_change w) (cw_created_at w)) writes)"
proof (induction writes)
  case (Cons kw writes)
  obtain k w where "kw = (k, w)" by fastforce
  with Cons show ?case by (cases "cw_change w") (simp_all add: whole_def dmap_def)
qed (simp add: dmap_def)

section \<open>Two keymaps side by side\<close>

definition pair_holds :: "('k \<Rightarrow> 'v option) \<Rightarrow> ('k \<Rightarrow> 'v option) \<Rightarrow> nat \<Rightarrow> 'k \<Rightarrow> 'v option" where
  "pair_holds a b i = (if i = 0 then a else if i = 1 then b else (\<lambda>_. None))"

definition two_holds :: "('w \<Rightarrow> 'k \<Rightarrow> 'v option) \<Rightarrow> ('u \<Rightarrow> 'k \<Rightarrow> 'v option) \<Rightarrow> ('w \<times> 'u, 'k, 'v) holdings" where
  "two_holds hl hr n = pair_holds (hl (fst n)) (hr (snd n))"

lemma pair_holds_simps [simp]: "pair_holds a b 0 = a" "pair_holds a b (Suc 0) = b"
  by (simp_all add: pair_holds_def)

definition two_inv :: "('w \<Rightarrow> bool) \<Rightarrow> ('u \<Rightarrow> bool) \<Rightarrow> 'w \<times> 'u \<Rightarrow> bool" where
  "two_inv il ir n \<longleftrightarrow> il (fst n) \<and> ir (snd n)"

context readable_keymap
begin

lemma reads_right_left:
  assumes "t_read t = km_get (left_keymap km)" "t_batch_read t = km_batch_get (left_keymap km)"
    "t_exists t = km_exists (left_keymap km)" "t_batch_exists t = km_batch_exists (left_keymap km)" "t_id t = 0"
  shows "reads_right (two_holds holds hr) (two_inv inv ir) t"
  unfolding reads_right_def
proof (intro allI impI conjI)
  fix n k ks assume "two_inv inv ir n"
  then obtain w u where n: "n = (w, u)" "inv w" "ir u" by (cases n) (simp add: two_inv_def)
  have inv_n: "two_inv inv ir (w', u)" if "inv w'" for w' using that n(3) by (simp add: two_inv_def)
  from get_law [OF n(2), of k] obtain w1 where "km_get km k w = (Inr (holds w k), w1)" "inv w1" "holds w1 = holds w" by blast
  with n(1) inv_n show "\<exists>n'. t_read t k n = (Inr (two_holds holds hr n (t_id t) k), n') \<and> two_inv inv ir n'
      \<and> two_holds holds hr n' = two_holds holds hr n"
    by (intro exI [of _ "(w1, u)"]) (simp add: assms left_keymap_def two_holds_def)
  from batch_get_law [OF n(2), of ks] obtain d w2 where "km_batch_get km ks w = (Inr d, w2)" "inv w2" "holds w2 = holds w"
    "dict_ok d" "\<forall>k. dget d k = (if k \<in> set ks then holds w k else None)" by blast
  with n(1) inv_n show "\<exists>d n'. t_batch_read t ks n = (Inr d, n') \<and> two_inv inv ir n'
      \<and> two_holds holds hr n' = two_holds holds hr n \<and> dict_ok d
      \<and> (\<forall>k. dget d k = (if k \<in> set ks then two_holds holds hr n (t_id t) k else None))"
    by (intro exI [of _ d] exI [of _ "(w2, u)"]) (simp add: assms left_keymap_def two_holds_def)
  from exists_law [OF n(2), of k] obtain w3 where "km_exists km k w = (Inr (holds w k \<noteq> None), w3)" "inv w3" "holds w3 = holds w" by blast
  with n(1) inv_n show "\<exists>n'. t_exists t k n = (Inr (two_holds holds hr n (t_id t) k \<noteq> None), n') \<and> two_inv inv ir n'
      \<and> two_holds holds hr n' = two_holds holds hr n"
    by (intro exI [of _ "(w3, u)"]) (simp add: assms left_keymap_def two_holds_def)
  from batch_exists_law [OF n(2), of ks] obtain w4 where
    "km_batch_exists km ks w = (Inr {k \<in> set ks. holds w k \<noteq> None}, w4)" "inv w4" "holds w4 = holds w" by blast
  with n(1) inv_n show "\<exists>n'. t_batch_exists t ks n = (Inr {k \<in> set ks. two_holds holds hr n (t_id t) k \<noteq> None}, n')
      \<and> two_inv inv ir n' \<and> two_holds holds hr n' = two_holds holds hr n"
    by (intro exI [of _ "(w4, u)"]) (simp add: assms left_keymap_def two_holds_def)
qed

lemma reads_right_right:
  assumes "t_read t = km_get (right_keymap km)" "t_batch_read t = km_batch_get (right_keymap km)"
    "t_exists t = km_exists (right_keymap km)" "t_batch_exists t = km_batch_exists (right_keymap km)" "t_id t = 1"
  shows "reads_right (two_holds hl holds) (two_inv il inv) t"
  unfolding reads_right_def
proof (intro allI impI conjI)
  fix n k ks assume "two_inv il inv n"
  then obtain w u where n: "n = (w, u)" "il w" "inv u" by (cases n) (simp add: two_inv_def)
  have inv_n: "two_inv il inv (w, u')" if "inv u'" for u' using that n(2) by (simp add: two_inv_def)
  from get_law [OF n(3), of k] obtain w1 where "km_get km k u = (Inr (holds u k), w1)" "inv w1" "holds w1 = holds u" by blast
  with n(1) inv_n show "\<exists>n'. t_read t k n = (Inr (two_holds hl holds n (t_id t) k), n') \<and> two_inv il inv n'
      \<and> two_holds hl holds n' = two_holds hl holds n"
    by (intro exI [of _ "(w, w1)"]) (simp add: assms right_keymap_def two_holds_def)
  from batch_get_law [OF n(3), of ks] obtain d w2 where "km_batch_get km ks u = (Inr d, w2)" "inv w2" "holds w2 = holds u"
    "dict_ok d" "\<forall>k. dget d k = (if k \<in> set ks then holds u k else None)" by blast
  with n(1) inv_n show "\<exists>d n'. t_batch_read t ks n = (Inr d, n') \<and> two_inv il inv n'
      \<and> two_holds hl holds n' = two_holds hl holds n \<and> dict_ok d
      \<and> (\<forall>k. dget d k = (if k \<in> set ks then two_holds hl holds n (t_id t) k else None))"
    by (intro exI [of _ d] exI [of _ "(w, w2)"]) (simp add: assms right_keymap_def two_holds_def)
  from exists_law [OF n(3), of k] obtain w3 where "km_exists km k u = (Inr (holds u k \<noteq> None), w3)" "inv w3" "holds w3 = holds u" by blast
  with n(1) inv_n show "\<exists>n'. t_exists t k n = (Inr (two_holds hl holds n (t_id t) k \<noteq> None), n') \<and> two_inv il inv n'
      \<and> two_holds hl holds n' = two_holds hl holds n"
    by (intro exI [of _ "(w, w3)"]) (simp add: assms right_keymap_def two_holds_def)
  from batch_exists_law [OF n(3), of ks] obtain w4 where
    "km_batch_exists km ks u = (Inr {k \<in> set ks. holds u k \<noteq> None}, w4)" "inv w4" "holds w4 = holds u" by blast
  with n(1) inv_n show "\<exists>n'. t_batch_exists t ks n = (Inr {k \<in> set ks. two_holds hl holds n (t_id t) k \<noteq> None}, n')
      \<and> two_inv il inv n' \<and> two_holds hl holds n' = two_holds hl holds n"
    by (intro exI [of _ "(w, w4)"]) (simp add: assms right_keymap_def two_holds_def)
qed

end

section \<open>\<open>coalesce\<close>\<close>

lemma coalesced_topology_is:
  "\<exists>p s. keymap_target 0 ''primary'' Authority left whole None promote Required = Inr p
     \<and> keymap_target 1 ''secondary'' Fallback right whole None False Required = Inr s
     \<and> coalesced_topology left right promote = Inr \<lparr>tp_targets = [p, s], tp_parts = [], tp_assemble = None\<rparr>"
  by (simp add: coalesced_topology_def declare_targets_def keymap_target_def new_target_def Let_def new_topology_def
      all_targets_def committing_targets_def by_role_def)

lemma lookups_authority_fallback:
  assumes "t_role p = Authority" "t_role s = Fallback" "t_lookup p = None" "t_lookup s = Some AfterAuthority"
  shows "lookups \<lparr>tp_targets = [p, s], tp_parts = [], tp_assemble = None\<rparr> = [p, s]"
  using assms by (simp add: lookups_def whole_authority_def)

locale read_through = l: conditional_keymap kl hl il live ver evolves + lstat: stat_keymap kl hl il + r: stat_keymap kr hr ir
  for kl :: "('w, 'k, 'v) keymap" and hl il live ver evolves
    and kr :: "('u, 'k, 'v) keymap" and hr ir
begin

lemma fills_right_left:
  assumes "t_batch_write_if_unchanged t = kmt_batch_write_if_unchanged (left_keymap kl) whole" "t_id t = 0"
  shows "fills_right (two_holds hl hr) (two_inv il ir) t"
  unfolding fills_right_def
proof (intro allI impI)
  fix n and writes :: "('k, 'v cond_write) dict" and opts :: write_options
  assume n': "two_inv il ir n" and ok: "dict_ok writes"
    and puts: "\<forall>k cw. dget writes k = Some cw \<longrightarrow> cw_seen cw = absent \<and> cw_change cw \<noteq> Remove"
  from n' obtain w u where n: "n = (w, u)" "il w" "ir u" by (cases n) (simp add: two_inv_def)
  let ?ws = "dmap (\<lambda>_ w. ConditionalWrite (Versioned None (seen_version (cw_seen w))) (cw_change w) (cw_created_at w)) writes"
  have "dict_ok ?ws" using ok by simp
  from l.cas_law [OF n(2) this, of "wo_ttl opts"] obtain w1 where
    w1: "km_batch_write_if_unchanged kl ?ws (wo_ttl opts) w = (Inr (cas_wins (ver w) ?ws), w1)" "il w1"
      "\<And>k. k \<notin> cas_wins (ver w) ?ws \<Longrightarrow> hl w1 k = hl w k"
      "\<And>k cw v. \<lbrakk>k \<in> cas_wins (ver w) ?ws; dget ?ws k = Some cw; cw_change cw = Put v\<rbrakk> \<Longrightarrow> hl w1 k = None \<or> hl w1 k = Some v"
    by blast
  have run: "t_batch_write_if_unchanged t writes opts n = (Inr (cas_wins (ver w) ?ws), (w1, u))"
    using w1(1) by (simp add: assms(1) kmt_batch_write_if_unchanged_def slot_writes_whole left_keymap_def n(1))
  have "two_holds hl hr (w1, u) i k = two_holds hl hr n i k
      \<or> i = t_id t \<and> two_holds hl hr n i k = None
        \<and> (\<exists>cw v. dget writes k = Some cw \<and> cw_change cw = Put v \<and> two_holds hl hr (w1, u) i k = Some v)" for i k
  proof (cases "i = 0 \<and> k \<in> cas_wins (ver w) ?ws")
    case True
    then obtain cw where cw: "dget writes k = Some cw" "seen_version (cw_seen cw) = ver w k"
      by (auto simp: cas_wins_def)
    with puts have "ver w k = None" "cw_change cw \<noteq> Remove" by (auto simp: absent_def)
    then obtain v where v: "cw_change cw = Put v" by (cases "cw_change cw") auto
    from l.nothing_stored [OF n(2) \<open>ver w k = None\<close>] have "hl w k = None" .
    moreover from w1(4) [of k] True cw(1) v have "hl w1 k = None \<or> hl w1 k = Some v" by simp
    ultimately show ?thesis using True cw(1) v by (auto simp: two_holds_def n(1) assms(2))
  next
    case False
    with w1(3) [of k] show ?thesis by (auto simp: two_holds_def pair_holds_def n(1))
  qed
  with run w1(2) n(3) show "\<exists>r n'. t_batch_write_if_unchanged t writes opts n = (r, n') \<and> two_inv il ir n'
        \<and> (\<forall>e. r = Inl e \<longrightarrow> \<not> is_unsupported e)
        \<and> (\<forall>i k. two_holds hl hr n' i k = two_holds hl hr n i k
             \<or> i = t_id t \<and> two_holds hl hr n i k = None
               \<and> (\<exists>cw v. dget writes k = Some cw \<and> cw_change cw = Put v \<and> two_holds hl hr n' i k = Some v))"
    by (intro exI [of _ "Inr (cas_wins (ver w) ?ws)"] exI [of _ "(w1, u)"]) (simp add: two_inv_def)
qed

lemma stats_right_left:
  "t_batch_stat t = km_batch_stat (left_keymap kl) \<Longrightarrow> stats_right (two_holds hl hr) (two_inv il ir) t"
  unfolding stats_right_def
proof (intro allI impI)
  fix n ks assume t: "t_batch_stat t = km_batch_stat (left_keymap kl)" and "two_inv il ir n"
  then obtain w u where n: "n = (w, u)" "il w" "ir u" by (cases n) (simp add: two_inv_def)
  from lstat.batch_stat_law [OF n(2), of ks] obtain d w1 where "km_batch_stat kl ks w = (Inr d, w1)" "il w1" "hl w1 = hl w" by blast
  with n show "\<exists>d n'. t_batch_stat t ks n = (Inr d, n') \<and> two_inv il ir n' \<and> two_holds hl hr n' = two_holds hl hr n"
    by (intro exI [of _ d] exI [of _ "(w1, u)"]) (simp add: t left_keymap_def two_inv_def two_holds_def)
qed

lemma stats_right_right:
  "t_batch_stat t = km_batch_stat (right_keymap kr) \<Longrightarrow> stats_right (two_holds hl hr) (two_inv il ir) t"
  unfolding stats_right_def
proof (intro allI impI)
  fix n ks assume t: "t_batch_stat t = km_batch_stat (right_keymap kr)" and "two_inv il ir n"
  then obtain w u where n: "n = (w, u)" "il w" "ir u" by (cases n) (simp add: two_inv_def)
  from r.batch_stat_law [OF n(3), of ks] obtain d u1 where "km_batch_stat kr ks u = (Inr d, u1)" "ir u1" "hr u1 = hr u" by blast
  with n show "\<exists>d n'. t_batch_stat t ks n = (Inr d, n') \<and> two_inv il ir n' \<and> two_holds hl hr n' = two_holds hl hr n"
    by (intro exI [of _ d] exI [of _ "(w, u1)"]) (simp add: t right_keymap_def two_inv_def two_holds_def)
qed

text \<open>An authority on the left medium, which may be filled, and a fallback on the right one.\<close>

lemma coalesced_targets:
  assumes p: "t_id p = 0" "t_role p = Authority" "t_lookup p = None"
      "t_read p = km_get (left_keymap kl)" "t_batch_read p = km_batch_get (left_keymap kl)"
      "t_exists p = km_exists (left_keymap kl)" "t_batch_exists p = km_batch_exists (left_keymap kl)"
      "t_batch_stat p = km_batch_stat (left_keymap kl)"
      "t_batch_write_if_unchanged p = kmt_batch_write_if_unchanged (left_keymap kl) whole"
    and s: "t_id s = 1" "t_role s = Fallback" "t_lookup s = Some AfterAuthority" "\<not> t_fill s"
      "t_read s = km_get (right_keymap kr)" "t_batch_read s = km_batch_get (right_keymap kr)"
      "t_exists s = km_exists (right_keymap kr)" "t_batch_exists s = km_batch_exists (right_keymap kr)"
      "t_batch_stat s = km_batch_stat (right_keymap kr)"
    and tp: "tp = \<lparr>tp_targets = [p, s], tp_parts = [], tp_assemble = None\<rparr>"
  shows "whole_record tp (two_holds hl hr) (two_inv il ir)"
    and "found_in (two_holds hl hr) tp (w, u) k = (case hl w k of Some v \<Rightarrow> Some v | None \<Rightarrow> hr u k)"
    and "lookups tp = [p, s]"
proof -
  show ls: "lookups tp = [p, s]" unfolding tp by (rule lookups_authority_fallback) (simp_all add: p s)
  have rp: "reads_right (two_holds hl hr) (two_inv il ir) p" by (rule l.reads_right_left) (simp_all add: p)
  have rs: "reads_right (two_holds hl hr) (two_inv il ir) s" by (rule r.reads_right_right) (simp_all add: s)
  show "whole_record tp (two_holds hl hr) (two_inv il ir)"
  proof
    show "\<not> assembled tp" by (simp add: assembled_def tp)
    fix t assume t: "t \<in> set (lookups tp)"
    then consider "t = p" | "t = s" by (auto simp: ls)
    then show "reads_right (two_holds hl hr) (two_inv il ir) t" "stats_right (two_holds hl hr) (two_inv il ir) t"
      using rp rs stats_right_left [of p] stats_right_right [of s] by (cases; simp add: p s)+
    show "fills_right (two_holds hl hr) (two_inv il ir) t" if "t_fill t"
    proof -
      from that t have "t = p" by (auto simp: ls s)
      then show ?thesis by (auto intro: fills_right_left simp: p)
    qed
  qed
  show "found_in (two_holds hl hr) tp (w, u) k = (case hl w k of Some v \<Rightarrow> Some v | None \<Rightarrow> hr u k)"
    by (simp add: found_in_def ls p s two_holds_def split: option.splits)
qed

lemma coalesced_record:
  assumes "coalesced_topology (left_keymap kl) (right_keymap kr) promote = Inr tp"
  shows "whole_record tp (two_holds hl hr) (two_inv il ir)"
    and "found_in (two_holds hl hr) tp (w, u) k = (case hl w k of Some v \<Rightarrow> Some v | None \<Rightarrow> hr u k)"
proof -
  from coalesced_topology_is [of "left_keymap kl" promote "right_keymap kr"] assms obtain p s where
    p: "keymap_target 0 ''primary'' Authority (left_keymap kl) whole None promote Required = Inr p"
    and s: "keymap_target 1 ''secondary'' Fallback (right_keymap kr) whole None False Required = Inr s"
    and tp: "tp = \<lparr>tp_targets = [p, s], tp_parts = [], tp_assemble = None\<rparr>" by auto
  note pi = keymap_target_is [OF p] and si = keymap_target_is [OF s]
  show "whole_record tp (two_holds hl hr) (two_inv il ir)"
    by (rule coalesced_targets(1) [OF _ _ _ _ _ _ _ _ _ _ _ _ _ _ _ _ _ _ tp]) (simp_all add: pi si)
  show "found_in (two_holds hl hr) tp (w, u) k = (case hl w k of Some v \<Rightarrow> Some v | None \<Rightarrow> hr u k)"
    by (rule coalesced_targets(2) [OF _ _ _ _ _ _ _ _ _ _ _ _ _ _ _ _ _ _ tp]) (simp_all add: pi si)
qed

text \<open>What reading through may change: the left medium, by copies of what the right one holds.\<close>

lemma only_promoted:
  assumes "only_filled (two_holds hl hr) [p, s] (w, u) (w', u')" "t_id p = 0" "t_id s = 1" "\<not> t_fill s"
  shows "hr u' = hr u" "hl w' j = hl w j \<or> t_fill p \<and> hl w j = None \<and> hl w' j = hr u j"
proof -
  show "hr u' = hr u"
  proof
    fix j
    from assms(1) [unfolded only_filled_def, rule_format, of 1 j] assms(2-4) show "hr u' j = hr u j"
      by (auto simp: two_holds_def)
  qed
  from assms(1) [unfolded only_filled_def, rule_format, of 0 j] assms(2-4)
  show "hl w' j = hl w j \<or> t_fill p \<and> hl w j = None \<and> hl w' j = hr u j"
    by (auto simp: two_holds_def split: option.splits)
qed

end

interpretation dict_read_through: read_through dict_keymap dict_holds dict_map_inv "\<lambda>_ _ _. True" dict_ver dict_evolves
    dict_keymap dict_holds dict_map_inv
  by unfold_locales

text \<open>Two \<open>DictKeyMap\<close>s read through.\<close>

definition coalesced_dicts :: "bool \<Rightarrow> (('k, 'v) dict_map \<times> ('k, 'v) dict_map, 'k, 'v) topology" where
  "coalesced_dicts promote = projr (coalesced_topology (left_keymap dict_keymap) (right_keymap dict_keymap) promote)"

lemma coalesced_dicts_declared:
  "coalesced_topology (left_keymap dict_keymap) (right_keymap dict_keymap) promote
    = Inr (coalesced_dicts promote :: (('k, 'v) dict_map \<times> ('k, 'v) dict_map, 'k, 'v) topology)"
proof -
  let ?kl = "left_keymap dict_keymap :: (('k, 'v) dict_map \<times> ('k, 'v) dict_map, 'k, 'v) keymap"
    and ?kr = "right_keymap dict_keymap :: (('k, 'v) dict_map \<times> ('k, 'v) dict_map, 'k, 'v) keymap"
  from coalesced_topology_is [of ?kl promote ?kr] obtain tp where "coalesced_topology ?kl ?kr promote = Inr tp" by blast
  then show ?thesis by (simp add: coalesced_dicts_def)
qed

interpretation coalesced_dicts: whole_record "coalesced_dicts promote" "two_holds dict_holds dict_holds" "two_inv dict_map_inv dict_map_inv"
  for promote
  by (rule dict_read_through.coalesced_record(1) [OF coalesced_dicts_declared])

end
