(* ===== verification/Composition_Zip.thy ===== *)
theory Composition_Zip
  imports Composition_Writes
begin

text \<open>
  A zip of two keymaps: the row that was set is the row that is read, an absent slot
  clears its part, a slot that is mandatory decides whether the row is there; with a
  commit part, the record is absent exactly when that part is.
\<close>

section \<open>Parts as targets\<close>

lemma part_target_is:
  assumes "part_target ident name role km slot = Inr t"
  shows "t_id t = ident" "t_name t = name" "t_role t = role" "t_policy t = Required"
    "t_read t = km_get km" "t_batch_read t = km_batch_get km" "t_exists t = km_exists km" "t_batch_exists t = km_batch_exists km"
    "t_write t = kmt_write km slot" "t_delete t = km_delete km" "t_unset t = km_unset km"
    "t_supports_write_clock t = False" "t_writes_are_deferred t = False"
  using keymap_target_is [OF assms [unfolded part_target_def]] by simp_all

lemma nat_string_01: "nat_string 0 = ''0''" "nat_string (Suc 0) = ''1''"
  by (simp_all add: nat_string.simps) (simp_all add: char_of_def bit_0 bit_Suc)

definition two_parts :: "('w, 'k, 'v) target \<Rightarrow> ('w, 'k, 'v) target \<Rightarrow> ('v option \<Rightarrow> 'v option \<Rightarrow> 'v option) \<Rightarrow> ('w, 'k, 'v) topology" where
  "two_parts p s f = \<lparr>tp_targets = [], tp_parts = [p, s], tp_assemble = Some (\<lambda>held. f (held (t_id p)) (held (t_id s)))\<rparr>"

lemma zipped_topology_two:
  assumes "km_creates_entries kl" "km_creates_entries kr"
  shows "\<exists>p s. part_target 0 ''part[0]'' Component kl (slot_at 0) = Inr p
     \<and> part_target 1 ''part[1]'' Component kr (slot_at 1) = Inr s
     \<and> zipped_topology [kl, kr] mandatory = (case normalize_mandatory 2 mandatory of Inl e \<Rightarrow> Inl e
        | Inr m \<Rightarrow> Inr (two_parts p s (\<lambda>a b. zip_row m [a, b])))"
  using assms
  by (simp add: zipped_topology_def part_target_def keymap_target_def new_target_def Let_def new_topology_def all_targets_def
      committing_targets_def by_role_def two_parts_def nat_string_01 eval_nat_numeral split: sum.split)

lemma zip_with_topology_two:
  assumes "km_creates_entries kl" "km_creates_entries kr" "x \<noteq> y"
  shows "\<exists>p s. part_target 0 x Component kl (field_at x) = Inr p
     \<and> part_target 1 y Authority kr (field_at y) = Inr s
     \<and> zip_with_topology ctor [(x, kl), (y, kr)] None mandatory (Some y) []
       = (case normalize_mandatory 2 mandatory of Inl e \<Rightarrow> Inl e
          | Inr m \<Rightarrow> Inr (two_parts p s (\<lambda>a b. zip_record ctor [x, y] m [a, b])))"
  using assms
  by (simp add: zip_with_topology_def part_target_def keymap_target_def new_target_def Let_def new_topology_def all_targets_def
      committing_targets_def by_role_def two_parts_def zip_role_def eval_nat_numeral split: sum.split)

lemma two_parts_shape:
  assumes "t_role p = Component" "t_role s = Component \<or> t_role s = Authority" "\<not> t_writes_are_deferred p" "\<not> t_writes_are_deferred s"
  shows "committing_targets (two_parts p s f) = [p, s]" "dependents (two_parts p s f) = []"
    "authority (two_parts p s f) = (if t_role s = Authority then Some s else None)"
    "assembled (two_parts p s f)" "tp_parts (two_parts p s f) = [p, s]"
    "tp_assemble (two_parts p s f) = Some (\<lambda>held. f (held (t_id p)) (held (t_id s)))"
    "unanchored_parts (two_parts p s f) = (if t_role s = Authority then [p] else [p, s])"
    "components (two_parts p s f) = (if t_role s = Authority then [p] else [p, s])"
    "deferred (two_parts p s f) = False"
  using assms by (auto simp: two_parts_def committing_targets_def by_role_def dependents_def all_targets_def authority_def
      assembled_def unanchored_parts_def components_def deferred_def)

section \<open>Writing and reading the parts\<close>

context written_together
begin

lemma two_parts_write:
  assumes w: "t_write p = kmt_write (left_keymap kl) sl" "t_write s = kmt_write (right_keymap kr) sr"
    and role: "t_role p = Component" "t_role s = Component \<or> t_role s = Authority"
    and now: "\<not> t_writes_are_deferred p" "\<not> t_writes_are_deferred s"
    and clock: "\<not> t_supports_write_clock p" "\<not> t_supports_write_clock s"
    and inv: "il w" "ir u" and live: "ll w (wo_ttl opts) None" "lr u (wo_ttl opts) None"
  shows "\<exists>w' u'. topo_write (two_parts p s f) k v opts ((w, u), q) = (Inr (), ((w', u'), q)) \<and> il w' \<and> ir u'
     \<and> hl w' = (hl w)(k := sl v) \<and> hr u' = (hr u)(k := sr v)"
proof -
  let ?o = "opts\<lparr>wo_created_at := None\<rparr>"
  have opts: "receives p opts = ?o" "receives s opts = ?o" using clock by (simp_all add: receives_def)
  from write_left [of w ?o sl k v u] inv live obtain w' where
    w': "kmt_write (left_keymap kl) sl k v ?o (w, u) = (Inr (), (w', u))" "il w'" "hl w' = (hl w)(k := sl v)"
    by auto
  from write_right [of u ?o sr k v w'] inv live obtain u' where
    u': "kmt_write (right_keymap kr) sr k v ?o (w', u) = (Inr (), (w', u'))" "ir u'" "hr u' = (hr u)(k := sr v)"
    by auto
  note shape = two_parts_shape [OF role now]
  from w'(1) u'(1) have "topo_write (two_parts p s f) k v opts ((w, u), q) = (Inr (), ((w', u'), q))"
    by (simp add: topo_write_def to_dependents_def shape committing_run thenP_run w opts)
  with w' u' show ?thesis by blast
qed

lemma two_parts_record:
  assumes p: "t_read p = km_get (left_keymap kl)" "t_batch_read p = km_batch_get (left_keymap kl)"
      "t_exists p = km_exists (left_keymap kl)" "t_batch_exists p = km_batch_exists (left_keymap kl)" "t_id p = 0"
    and s: "t_read s = km_get (right_keymap kr)" "t_batch_read s = km_batch_get (right_keymap kr)"
      "t_exists s = km_exists (right_keymap kr)" "t_batch_exists s = km_batch_exists (right_keymap kr)" "t_id s = 1"
    and role: "t_role p = Component" "t_role s = Component \<or> t_role s = Authority"
    and now: "\<not> t_writes_are_deferred p" "\<not> t_writes_are_deferred s"
  shows "parts_record (two_parts p s f) (two_holds hl hr) (two_inv il ir)"
    and "record_in (two_holds hl hr) (two_parts p s f) (w, u) k
      = (if t_role s = Authority \<and> hr u k = None then None else f (hl w k) (hr u k))"
proof -
  note shape = two_parts_shape [OF role now]
  have "t_role p \<noteq> Authority" using role by simp
  moreover have "reads_right (two_holds hl hr) (two_inv il ir) p" by (rule l.reads_right_left) (simp_all add: p)
  moreover have "reads_right (two_holds hl hr) (two_inv il ir) s" by (rule r.reads_right_right) (simp_all add: s)
  ultimately show "parts_record (two_parts p s f) (two_holds hl hr) (two_inv il ir)"
    by unfold_locales (auto simp: shape split: if_split_asm)
  show "record_in (two_holds hl hr) (two_parts p s f) (w, u) k
      = (if t_role s = Authority \<and> hr u k = None then None else f (hl w k) (hr u k))"
    by (simp add: record_in_def shape two_holds_def p s parts_hold_def)
qed

end

section \<open>\<open>zip\<close> and \<open>zip_with\<close> of two keymaps\<close>

locale zipped_together = written_together kl hl il ll kr hr ir lr
  for kl :: "('w, 'k, 'a obj) keymap" and hl il ll
    and kr :: "('u, 'k, 'a obj) keymap" and hr ir lr
begin

text \<open>A row set through \<open>zip\<close>, then read; a row of another length is refused before any write.\<close>

lemma zip_set_get:
  assumes tp: "zipped_topology [left_keymap kl, right_keymap kr] mandatory = Inr tp"
    and creates: "km_creates_entries kl" "km_creates_entries kr"
    and m: "normalize_mandatory 2 mandatory = Inr m"
    and inv: "il w" "ir u" and live: "ll w (wo_ttl opts) None" "lr u (wo_ttl opts) None"
  shows "\<exists>n'. km_set (zipped_keymap 2 tp) k (Tuple [a, b]) opts ((w, u), q) = (Inr (), n')
    \<and> (\<exists>n''. km_get (zipped_keymap 2 tp) k n' = (Inr (zip_row m [a, b]), n''))
    \<and> (\<forall>j. j \<noteq> k \<longrightarrow> hl (fst (fst n')) j = hl w j \<and> hr (snd (fst n')) j = hr u j)"
proof -
  have "km_creates_entries (left_keymap kl)" "km_creates_entries (right_keymap kr)"
    using creates by (simp_all add: left_keymap_def right_keymap_def)
  from zipped_topology_two [OF this, of mandatory] tp m obtain p s where
    p: "part_target 0 ''part[0]'' Component (left_keymap kl) (slot_at 0) = Inr p"
    and s: "part_target 1 ''part[1]'' Component (right_keymap kr) (slot_at 1) = Inr s"
    and tp': "tp = two_parts p s (\<lambda>a b. zip_row m [a, b])" by auto
  note pi = part_target_is [OF p] and si = part_target_is [OF s]
  from two_parts_write [of p "slot_at 0" s "slot_at 1" w u opts "\<lambda>a b. zip_row m [a, b]" k "Tuple [a, b]" q] pi si inv live
  obtain w' u' where w': "topo_write tp k (Tuple [a, b]) opts ((w, u), q) = (Inr (), ((w', u'), q))" "il w'" "ir u'"
    "hl w' = (hl w)(k := a)" "hr u' = (hr u)(k := b)" by (auto simp: slot_at_def tp')
  have rec: "parts_record tp (two_holds hl hr) (two_inv il ir)" unfolding tp'
    by (rule two_parts_record(1)) (simp_all add: pi si)
  have row: "record_in (two_holds hl hr) tp (w', u') k = zip_row m [a, b]"
    unfolding tp' by (subst two_parts_record(2)) (simp_all add: pi si w')
  from parts_record.read_law [OF rec, of "(w', u')" k] w'(2,3) row
  obtain n where n: "topo_read tp k (w', u') = (Inr (zip_row m [a, b]), n)" by (auto simp: two_inv_def)
  have set: "km_set (zipped_keymap 2 tp) k (Tuple [a, b]) opts ((w, u), q) = (Inr (), ((w', u'), q))"
    using w'(1) by (simp add: zipped_keymap_def zip_check_def thenP_run)
  moreover have "km_get (zipped_keymap 2 tp) k ((w', u'), q) = (Inr (zip_row m [a, b]), (n, q))"
    using n by (simp add: zipped_keymap_def record_keymap_def)
  ultimately show ?thesis using w'(4,5) by auto
qed

text \<open>
  A record set through \<open>zip_with\<close> with the commit part \<open>y\<close>: both parts are written, and
  the record is read exactly when it gave the commit part a value.
\<close>

lemma zip_with_set_get:
  assumes tp: "zip_with_topology ctor [(x, left_keymap kl), (y, right_keymap kr)] None mandatory (Some y) [] = Inr tp"
    and creates: "km_creates_entries kl" "km_creates_entries kr" and xy: "x \<noteq> y"
    and m: "normalize_mandatory 2 mandatory = Inr m"
    and inv: "il w" "ir u" and live: "ll w (wo_ttl opts) None" "lr u (wo_ttl opts) None"
  shows "\<exists>n'. km_set (zip_with_keymap (Some y) tp) k v opts ((w, u), q) = (Inr (), n')
    \<and> (\<exists>n''. km_get (zip_with_keymap (Some y) tp) k n'
         = (Inr (if field_at y v = None then None else zip_record ctor [x, y] m [field_at x v, field_at y v]), n''))
    \<and> (\<forall>j. j \<noteq> k \<longrightarrow> hl (fst (fst n')) j = hl w j \<and> hr (snd (fst n')) j = hr u j)"
proof -
  have "km_creates_entries (left_keymap kl)" "km_creates_entries (right_keymap kr)"
    using creates by (simp_all add: left_keymap_def right_keymap_def)
  from zip_with_topology_two [OF this xy, of ctor mandatory] tp m obtain p s where
    p: "part_target 0 x Component (left_keymap kl) (field_at x) = Inr p"
    and s: "part_target 1 y Authority (right_keymap kr) (field_at y) = Inr s"
    and tp': "tp = two_parts p s (\<lambda>a b. zip_record ctor [x, y] m [a, b])" by auto
  note pi = part_target_is [OF p] and si = part_target_is [OF s]
  from two_parts_write [of p "field_at x" s "field_at y" w u opts "\<lambda>a b. zip_record ctor [x, y] m [a, b]" k v q] pi si inv live
  obtain w' u' where w': "topo_write tp k v opts ((w, u), q) = (Inr (), ((w', u'), q))" "il w'" "ir u'"
    "hl w' = (hl w)(k := field_at x v)" "hr u' = (hr u)(k := field_at y v)" by (auto simp: tp')
  have rec: "parts_record tp (two_holds hl hr) (two_inv il ir)" unfolding tp'
    by (rule two_parts_record(1)) (simp_all add: pi si)
  have row: "record_in (two_holds hl hr) tp (w', u') k
      = (if field_at y v = None then None else zip_record ctor [x, y] m [field_at x v, field_at y v])"
    unfolding tp' by (subst two_parts_record(2)) (simp_all add: pi si w')
  from parts_record.read_law [OF rec, of "(w', u')" k] w'(2,3) row
  obtain n where n: "topo_read tp k (w', u')
      = (Inr (if field_at y v = None then None else zip_record ctor [x, y] m [field_at x v, field_at y v]), n)"
    by (auto simp: two_inv_def)
  have "km_set (zip_with_keymap (Some y) tp) k v opts ((w, u), q) = (Inr (), ((w', u'), q))"
    using w'(1) by (simp add: zip_with_keymap_def record_keymap_def)
  moreover have "km_get (zip_with_keymap (Some y) tp) k ((w', u'), q)
      = (Inr (if field_at y v = None then None else zip_record ctor [x, y] m [field_at x v, field_at y v]), (n, q))"
    using n by (simp add: zip_with_keymap_def record_keymap_def)
  ultimately show ?thesis using w'(4,5) by auto
qed

end

interpretation dict_zipped_together: zipped_together dict_keymap dict_holds dict_map_inv "\<lambda>_ _ _. True"
    dict_keymap dict_holds dict_map_inv "\<lambda>_ _ _. True"
  by unfold_locales

text \<open>Two \<open>DictKeyMap\<close>s zipped.\<close>

definition zipped_dicts :: "(('k, 'a obj) dict_map \<times> ('k, 'a obj) dict_map, 'k, 'a obj) topology" where
  "zipped_dicts = projr (zipped_topology [left_keymap dict_keymap, right_keymap dict_keymap] None)"

lemma zipped_dicts_parts:
  "parts_record (zipped_dicts :: (('k, 'a obj) dict_map \<times> ('k, 'a obj) dict_map, 'k, 'a obj) topology)
     (two_holds dict_holds dict_holds) (two_inv dict_map_inv dict_map_inv)"
proof -
  let ?kl = "left_keymap dict_keymap :: (('k, 'a obj) dict_map \<times> ('k, 'a obj) dict_map, 'k, 'a obj) keymap"
    and ?kr = "right_keymap dict_keymap :: (('k, 'a obj) dict_map \<times> ('k, 'a obj) dict_map, 'k, 'a obj) keymap"
  have "km_creates_entries ?kl" "km_creates_entries ?kr"
    by (simp_all add: left_keymap_def right_keymap_def dict_keymap_def)
  from zipped_topology_two [OF this, of None] obtain p s where
    p: "part_target 0 ''part[0]'' Component ?kl (slot_at 0) = Inr p"
    and s: "part_target 1 ''part[1]'' Component ?kr (slot_at 1) = Inr s"
    and tp: "zipped_topology [?kl, ?kr] None = Inr (two_parts p s (\<lambda>a b. zip_row (replicate 2 False) [a, b]))"
    by (auto simp: normalize_mandatory_def)
  note pi = part_target_is [OF p] and si = part_target_is [OF s]
  show ?thesis
    unfolding zipped_dicts_def tp sum.sel
    by (rule dict_written_together.two_parts_record(1)) (simp_all add: pi si)
qed

interpretation zipped_dicts: parts_record zipped_dicts "two_holds dict_holds dict_holds" "two_inv dict_map_inv dict_map_inv"
  by (rule zipped_dicts_parts)

end
