(* ===== verification/Topology_Properties.thy ===== *)
theory Topology_Properties
  imports Sync_Reports Composition_Zip
begin

text \<open>
  The laws of \<open>topology.py\<close>, section 4, as properties of the operations of any declared
  topology: what each operation calls, in which order, and what an exception says.
\<close>

section \<open>Declared topologies are valid\<close>

lemma declare_targets_valid: "declare_targets ds = Inr tp \<Longrightarrow> valid_topology tp"
  by (auto simp: declare_targets_def split: sum.splits intro: new_topology_valid)

lemma coalesced_dicts_valid: "valid_topology (coalesced_dicts promote :: (('k, 'v) dict_map \<times> ('k, 'v) dict_map, 'k, 'v) topology)"
  using coalesced_dicts_declared [of promote, where 'k = 'k and 'v = 'v, unfolded coalesced_topology_def]
  by (rule declare_targets_valid)

lemma coalesced_dicts_authority: "authority (coalesced_dicts promote :: (('k, 'v) dict_map \<times> ('k, 'v) dict_map, 'k, 'v) topology) \<noteq> None"
proof -
  let ?kl = "left_keymap dict_keymap :: (('k, 'v) dict_map \<times> ('k, 'v) dict_map, 'k, 'v) keymap"
    and ?kr = "right_keymap dict_keymap :: (('k, 'v) dict_map \<times> ('k, 'v) dict_map, 'k, 'v) keymap"
  from coalesced_topology_is [of ?kl promote ?kr] coalesced_dicts_declared [of promote, where 'k = 'k and 'v = 'v]
  obtain p s where p: "keymap_target 0 ''primary'' Authority ?kl whole None promote Required = Inr p"
    and tp: "coalesced_dicts promote = \<lparr>tp_targets = [p, s], tp_parts = [], tp_assemble = None\<rparr>" by auto
  from keymap_target_is(3) [OF p] show ?thesis by (simp add: authority_def all_targets_def tp)
qed

text \<open>The topology the witnesses run: a dictionary that falls back on another and promotes what it finds.\<close>

abbreviation int_dicts :: "((string, int) dict_map \<times> (string, int) dict_map, string, int) topology" where
  "int_dicts \<equiv> coalesced_dicts True"

section \<open>Writes\<close>

text \<open>
  C2. A write visits the components, the authority, then the dependents. Nothing is
  written to a dependent, and nothing queued, before every committing target was written;
  when the write returns, every dependent was written, or waits for the caller's commit,
  or failed in a way its policy tolerates; when it raises, \<open>PartialSyncError\<close> says that
  the commit point was passed and \<open>UncommittedWriteError\<close>, where the commit is not the
  caller's, that it was not. The journal that shows this only watches: the untraced write
  ends the same way.
\<close>

theorem write_in_order:
  assumes "valid_topology tp"
  shows "case topo_write (traced_topology tp) k v opts ((w, []), q) of (r, ((w', log), q')) \<Rightarrow>
    (\<exists>items. q' = q @ items \<and> commit_ordered tp Wrote [k] r log items)
    \<and> (\<exists>q1. topo_write tp k v opts (w, q0) = (r, (w', q1)))"
proof -
  obtain r w' log q' q1 where run: "topo_write (traced_topology tp) k v opts ((w, []), q) = (r, ((w', log), q'))"
    "topo_write tp k v opts (w, q0) = (r, (w', q1))" by (rule same_on_nodeD [OF topo_write_same])
  with topo_write_ordered [OF assms run(1)] show ?thesis by simp
qed

theorem write_in_order_witness:
  "case topo_write (traced_topology int_dicts) ''k'' (7::int) no_options (((dict_map_init [], dict_map_init []), []), [])
     of (r, ((w', log), q')) \<Rightarrow>
    (\<exists>items. q' = [] @ items \<and> commit_ordered int_dicts Wrote [''k''] r log items)
    \<and> (\<exists>q1. topo_write int_dicts ''k'' (7::int) no_options ((dict_map_init [], dict_map_init []), []) = (r, (w', q1)))"
  by (rule write_in_order [OF coalesced_dicts_valid])

text \<open>
  A batch of writes takes the same traversal, one call per target for all of its keys.
\<close>

theorem batch_write_in_order:
  assumes "valid_topology tp"
  shows "case topo_batch_write (traced_topology tp) values opts ((w, []), q) of (r, ((w', log), q')) \<Rightarrow>
    (\<exists>items. q' = q @ items \<and> (if values = [] then r = Inr () \<and> log = [] \<and> items = [] \<and> w' = w
       else commit_ordered tp Wrote (dkeys values) r log items))
    \<and> (\<exists>q1. topo_batch_write tp values opts (w, q0) = (r, (w', q1)))"
proof -
  obtain r w' log q' q1 where run: "topo_batch_write (traced_topology tp) values opts ((w, []), q) = (r, ((w', log), q'))"
    "topo_batch_write tp values opts (w, q0) = (r, (w', q1))" by (rule same_on_nodeD [OF topo_batch_write_same])
  show ?thesis
  proof (cases "values = []")
    case True
    with run show ?thesis by (simp add: topo_batch_write_def)
  next
    case False
    with topo_batch_write_ordered [OF assms run(1)] run show ?thesis by simp
  qed
qed

theorem batch_write_in_order_witness:
  "case topo_batch_write (traced_topology int_dicts) [(''k'', 7::int)] no_options
       (((dict_map_init [], dict_map_init []), []), []) of (r, ((w', log), q')) \<Rightarrow>
    (\<exists>items. q' = [] @ items \<and> (if [(''k'', 7::int)] = [] then r = Inr () \<and> log = [] \<and> items = [] \<and> w' = (dict_map_init [], dict_map_init [])
       else commit_ordered int_dicts Wrote (dkeys [(''k'', 7::int)]) r log items))
    \<and> (\<exists>q1. topo_batch_write int_dicts [(''k'', 7::int)] no_options ((dict_map_init [], dict_map_init []), []) = (r, (w', q1)))"
  by (rule batch_write_in_order [OF coalesced_dicts_valid])

section \<open>Conditional writes\<close>

text \<open>
  C3. A conditional write needs an authority. It writes the components first, and only
  under keys against which nothing is stored; then the authority decides every key; the
  removals and the dependents concern the keys the authority reports written and no
  other, so a refused write derives nothing; and it answers what the authority answered.
\<close>

theorem conditional_write_in_order:
  "case topo_batch_write_if_unchanged (traced_topology tp) writes opts ((w, []), q) of (r, ((w', log), q')) \<Rightarrow>
    (case authority tp of
       None \<Rightarrow> r = Inl KvStoreUnsupported \<and> log = [] \<and> q' = q \<and> w' = w
     | Some a \<Rightarrow> \<exists>items. q' = q @ items \<and> conditional_ordered tp a writes opts r log items)
    \<and> (\<exists>q1. topo_batch_write_if_unchanged tp writes opts (w, q0) = (r, (w', q1)))"
proof -
  obtain r w' log q' q1 where run:
    "topo_batch_write_if_unchanged (traced_topology tp) writes opts ((w, []), q) = (r, ((w', log), q'))"
    "topo_batch_write_if_unchanged tp writes opts (w, q0) = (r, (w', q1))"
    by (rule same_on_nodeD [OF topo_batch_write_if_unchanged_same])
  show ?thesis
  proof (cases "authority tp")
    case None
    with run show ?thesis by (auto simp: topo_batch_write_if_unchanged_def require_authority_def)
  next
    case (Some a)
    from topo_conditional_ordered [OF Some run(1)] run Some show ?thesis by simp
  qed
qed

section \<open>Removals\<close>

text \<open>
  C5. A deletion visits the authority first, then the components, then the dependents,
  answers what the authority answered, and when it raises says so before the commit point
  with the medium's own exception and after it with \<open>PartialSyncError\<close> -- or, when the
  commit is the caller's, with \<open>UncommittedWriteError\<close>.
\<close>

theorem delete_in_order:
  assumes "valid_topology tp" "authority tp = Some a"
  shows "case topo_delete (traced_topology tp) k ((w, []), q) of (r, ((w', log), q')) \<Rightarrow>
    removed_now tp @ removed_after_commit tp = by_role tp [Authority, Component, Dependent]
    \<and> (\<exists>items. q' = q @ items \<and> removal_ordered tp Deleted [k] None r log items)
    \<and> (\<forall>b. r = Inr b \<longrightarrow> (\<exists>w1. t_delete a k w = (Inr b, w1)))
    \<and> (\<exists>q1. topo_delete tp k (w, q0) = (r, (w', q1)))"
proof -
  obtain r w' log q' q1 where run: "topo_delete (traced_topology tp) k ((w, []), q) = (r, ((w', log), q'))"
    "topo_delete tp k (w, q0) = (r, (w', q1))" by (rule same_on_nodeD [OF topo_delete_same])
  have "\<exists>items. q' = q @ items \<and> removal_ordered tp Deleted [k] None r log items
    \<and> (\<forall>b a. r = Inr b \<longrightarrow> authority tp = Some a \<longrightarrow> (\<exists>w1. t_delete a k w = (Inr b, w1)))"
    by (rule topo_remove_ordered [OF run(1) [unfolded topo_delete_def]]) simp
  with run removal_order_is [OF assms] assms(2) show ?thesis by (auto simp: removal_order_def)
qed

theorem delete_in_order_witness:
  "\<exists>a. authority int_dicts = Some a \<and>
   (case topo_delete (traced_topology int_dicts) ''k'' (((dict_map_init [(''k'', 7::int)], dict_map_init []), []), [])
     of (r, ((w', log), q')) \<Rightarrow>
    removed_now int_dicts @ removed_after_commit int_dicts
      = by_role int_dicts [Authority, Component, Dependent]
    \<and> (\<exists>items. q' = [] @ items \<and> removal_ordered int_dicts Deleted [''k''] None r log items)
    \<and> (\<forall>b. r = Inr b \<longrightarrow> (\<exists>w1. t_delete a ''k'' (dict_map_init [(''k'', 7)], dict_map_init []) = (Inr b, w1)))
    \<and> (\<exists>q1. topo_delete int_dicts ''k'' ((dict_map_init [(''k'', 7)], dict_map_init []), []) = (r, (w', q1))))"
proof -
  obtain a where "authority int_dicts = Some a"
    using coalesced_dicts_authority by blast
  from delete_in_order [where q = "[]" and ?q0.0 = "[]" and k = "''k''" and w = "(dict_map_init [(''k'', 7)], dict_map_init [])", OF coalesced_dicts_valid this] this
  show ?thesis by (intro exI [of _ a] conjI)
qed

text \<open>
  A batch of deletions takes the same traversal, one call per target for every
  distinct key, and counts what the authority counted; with a policy given, every target
  after the authority is settled under it.
\<close>

theorem batch_delete_in_order:
  assumes "authority tp = Some a" "keys \<noteq> []"
  shows "case topo_batch_delete (traced_topology tp) keys policy ((w, []), q) of (r, ((w', log), q')) \<Rightarrow>
    (\<exists>items. q' = q @ items \<and> removal_ordered tp Deleted (fromkeys keys) policy r log items)
    \<and> (\<forall>n. r = Inr n \<longrightarrow> (\<exists>w1. t_batch_delete a (fromkeys keys) w = (Inr n, w1)))
    \<and> (\<exists>q1. topo_batch_delete tp keys policy (w, q0) = (r, (w', q1)))"
proof -
  obtain r w' log q' q1 where run: "topo_batch_delete (traced_topology tp) keys policy ((w, []), q) = (r, ((w', log), q'))"
    "topo_batch_delete tp keys policy (w, q0) = (r, (w', q1))" by (rule same_on_nodeD [OF topo_batch_delete_same])
  have "\<exists>items. q' = q @ items \<and> removal_ordered tp Deleted (fromkeys keys) policy r log items
    \<and> (\<forall>n. r = Inr n \<longrightarrow> (\<exists>w1. t_batch_delete a (fromkeys keys) w = (Inr n, w1)))"
    by (rule topo_batch_remove_ordered [OF run(1) [unfolded topo_batch_delete_def] _ assms(2,1)]) simp
  with run show ?thesis by auto
qed

theorem batch_delete_in_order_witness:
  "\<exists>a. authority int_dicts = Some a \<and>
   (case topo_batch_delete (traced_topology int_dicts) [''k'', ''j'', ''k''] None
       (((dict_map_init [(''k'', 7::int)], dict_map_init []), []), []) of (r, ((w', log), q')) \<Rightarrow>
    (\<exists>items. q' = [] @ items \<and> removal_ordered int_dicts Deleted (fromkeys [''k'', ''j'', ''k'']) None r log items)
    \<and> (\<forall>n. r = Inr n \<longrightarrow> (\<exists>w1. t_batch_delete a (fromkeys [''k'', ''j'', ''k'']) (dict_map_init [(''k'', 7)], dict_map_init []) = (Inr n, w1)))
    \<and> (\<exists>q1. topo_batch_delete int_dicts [''k'', ''j'', ''k''] None ((dict_map_init [(''k'', 7)], dict_map_init []), []) = (r, (w', q1))))"
proof -
  obtain a where a: "authority int_dicts = Some a"
    using coalesced_dicts_authority by blast
  have "[''k'', ''j'', ''k''] \<noteq> []" by simp
  from batch_delete_in_order [where policy = None and q = "[]" and ?q0.0 = "[]" and w = "(dict_map_init [(''k'', 7)], dict_map_init [])", OF a this] a
  show ?thesis by (intro exI [of _ a] conjI)
qed

section \<open>Collection\<close>



section \<open>Deferred work\<close>

text \<open>
  C6. A flush runs every queued operation once, in the order they were queued, whatever
  fails in between, and leaves the queue empty. It raises exactly when a failure is not
  tolerated by its policy, one \<open>PartialSyncError\<close> with every such failure under a label of
  its own: two failures of one target are both in it.
\<close>

theorem flush_reports_all:
  assumes "list_all reports_ok q"
  shows "flush (w, q) = (if flush_report q 0 w = [] then Inr () else Inl (PartialSyncError (flush_report q 0 w)), (after_all q w, []))
    \<and> dict_ok (flush_report q 0 w)"
proof -
  have "dmerge [] (flush_report q 0 w) = flush_report q 0 w"
    using dmerge_new [of "[]" "flush_report q 0 w"] dict_ok_flush_report [OF assms, of 0 w] by simp
  then show ?thesis using dict_ok_flush_report [OF assms, of 0 w] by (simp add: flush_def flush_items_report)
qed

definition failing_write :: "nat \<Rightarrow> nat queued" where
  "failing_write n = \<lparr>q_name = ''copy'', q_what = ''set'', q_policy = Required, q_run = (\<lambda>w. (Inl (MediumFailure n), w + 1))\<rparr>"

theorem flush_reports_all_witness:
  "flush (0, [failing_write 1, failing_write 2]) = (Inl (PartialSyncError
     [(''set#0:copy'', MediumFailure 1), (''set#1:copy'', MediumFailure 2)]), (2, []))"
proof -
  have ok: "list_all reports_ok [failing_write 1, failing_write 2]" by (simp add: reports_ok_def failing_write_def)
  have rep: "flush_report [failing_write 1, failing_write 2] 0 0
      = [(''set#0:copy'', MediumFailure 1), (''set#1:copy'', MediumFailure 2)]"
    by (simp add: failing_write_def item_report_def settle_failure_def failure_label_def nat_string_01)
  have after: "after_all [failing_write 1, failing_write 2] 0 = 2" by (simp add: after_all_def failing_write_def)
  from flush_reports_all [OF ok, of 0] show ?thesis unfolding rep after by simp
qed

section \<open>Indexes\<close>

text \<open>
  C11. The indexes of a store are one dependent. Every index that syncs on write is
  attempted, in order, even when others fail; the failures are one \<open>PartialSyncError\<close>, each
  under the position and name of its index.
\<close>

theorem indexes_all_attempted:
  "\<exists>t. indexes_target ident ixs policy = Inr t
    \<and> t_write t k v opts w = (let report = index_report (\<lambda>ix. ix_sync ix k v) 0 ixs w in
        if report = [] then Inr () else Inl (PartialSyncError report), after_indexes (\<lambda>ix. ix_sync ix k v) ixs w)
    \<and> t_batch_write t items opts w = (let report = index_report (\<lambda>ix. ix_batch_sync ix items) 0 ixs w in
        if report = [] then Inr () else Inl (PartialSyncError report), after_indexes (\<lambda>ix. ix_batch_sync ix items) ixs w)
    \<and> dict_ok (index_report (\<lambda>ix. ix_sync ix k v) 0 ixs w) \<and> dict_ok (index_report (\<lambda>ix. ix_batch_sync ix items) 0 ixs w)"
  using each_index_report [of "[]" "\<lambda>ix. ix_sync ix k v" 0 ixs w] each_index_report [of "[]" "\<lambda>ix. ix_batch_sync ix items" 0 ixs w]
  by (simp add: indexes_target_def new_target_def Let_def dict_ok_index_report)

end
