(* ===== verification/Key_Encoding.thy ===== *)
theory Key_Encoding
  imports Store_Schema
begin

text \<open>
  How a logical key becomes bytes: \<open>schema/blob_ops.py\<close>, \<open>scope.py\<close>, \<open>bind/namespace.py\<close>,
  \<open>store/schema/kvset.py\<close>, the key helpers of \<open>store/backend.py\<close>, \<open>store/schema/layout.py\<close>
  and \<open>store/schema/key_codec.py\<close> (all under \<open>src/kvtsjl\<close>).

  Text is the list of its UTF-8 bytes, so \<open>StrBlobOps\<close> and \<open>BytesBlobOps\<close> are one: every
  operation here (replace, split, join, prefix) commutes with the encoding, and the
  string serde is the identity.
\<close>

section \<open>Text\<close>

text \<open>\<open>s.replace(old, new)\<close>, \<open>s.split(sep)\<close> with a separator that is not empty, \<open>sep.join(parts)\<close>.\<close>

function py_replace :: "string \<Rightarrow> string \<Rightarrow> string \<Rightarrow> string" where
  "py_replace old new [] = (if old = [] then new else [])"
| "py_replace old new (c # cs) =
     (if old = [] then new @ c # py_replace old new cs
      else if take (length old) (c # cs) = old then new @ py_replace old new (drop (length old) (c # cs))
      else c # py_replace old new cs)"
  by pat_completeness auto
termination
  by (relation "measure (\<lambda>(_, _, s). length s)") (auto simp: neq_Nil_conv)

function py_split_from :: "string \<Rightarrow> string \<Rightarrow> string \<Rightarrow> string list" where
  "py_split_from sep acc [] = [rev acc]"
| "py_split_from sep acc (c # cs) =
     (if sep \<noteq> [] \<and> take (length sep) (c # cs) = sep then rev acc # py_split_from sep [] (drop (length sep) (c # cs))
      else py_split_from sep (c # acc) cs)"
  by pat_completeness auto
termination
  by (relation "measure (\<lambda>(_, _, s). length s)") (auto simp: neq_Nil_conv)

definition py_split :: "string \<Rightarrow> string \<Rightarrow> string list" where
  "py_split sep s = py_split_from sep [] s"

fun py_join :: "string \<Rightarrow> string list \<Rightarrow> string" where
  "py_join sep [] = []"
| "py_join sep [p] = p"
| "py_join sep (p # q # ps) = p @ sep @ py_join sep (q # ps)"

definition py_startswith :: "string \<Rightarrow> string \<Rightarrow> bool" where
  "py_startswith full pre \<longleftrightarrow> take (length pre) full = pre"

text \<open>\<open>f"%{b:02X}"\<close>.\<close>

definition hex_digit :: "nat \<Rightarrow> char" where
  "hex_digit n = char_of (if n < 10 then 48 + n else 55 + n)"

definition percent_byte :: "char \<Rightarrow> string" where
  "percent_byte c = [CHR ''%'', hex_digit (of_char c div 16), hex_digit (of_char c mod 16)]"

section \<open>Blob operations\<close>

definition escaped_separator :: "string \<Rightarrow> string" where
  "escaped_separator sep = concat (map percent_byte sep)"

definition escape_segment :: "string \<Rightarrow> string \<Rightarrow> string" where
  "escape_segment text sep = py_replace sep (escaped_separator sep) (py_replace ''%'' ''%25'' text)"

definition unescape_segment :: "string \<Rightarrow> string \<Rightarrow> string" where
  "unescape_segment text sep = py_replace ''%25'' ''%'' (py_replace (escaped_separator sep) sep text)"

definition strip_prefix :: "string \<Rightarrow> string \<Rightarrow> string option" where
  "strip_prefix full pre = (if py_startswith full pre then Some (drop (length pre) full) else None)"

fun blob_join :: "string \<Rightarrow> string list \<Rightarrow> string" where
  "blob_join sep [] = []"
| "blob_join sep (p # ps) = foldl (\<lambda>out part. out @ sep @ part) p ps"

section \<open>Scopes\<close>

record scope_segment =
  sg_kind :: string
  sg_id :: string

type_synonym scope = "scope_segment list"

definition scope_of :: "(string, string) dict \<Rightarrow> scope" where
  "scope_of kinds_to_ids = map (\<lambda>(k, v). \<lparr>sg_kind = k, sg_id = v\<rparr>) kinds_to_ids"

definition scope_only :: "scope \<Rightarrow> string list \<Rightarrow> exn + scope" where
  "scope_only sc kinds = (if \<exists>k \<in> set kinds. k \<notin> set (map sg_kind sc) then Inl ScopeError
     else Inr (filter (\<lambda>s. sg_kind s \<in> set kinds) sc))"

definition scope_extend :: "scope \<Rightarrow> string \<Rightarrow> string \<Rightarrow> scope" where
  "scope_extend sc kind ident = sc @ [\<lparr>sg_kind = kind, sg_id = ident\<rparr>]"

definition scope_child :: "scope \<Rightarrow> (string, string) dict \<Rightarrow> scope" where
  "scope_child sc kinds_to_ids = sc @ scope_of kinds_to_ids"

definition scope_path_display :: "scope \<Rightarrow> string" where
  "scope_path_display sc = (if sc = [] then [] else py_join ''/'' (map (\<lambda>s. sg_kind s @ ''/'' @ sg_id s) sc))"

section \<open>The schema of a collection\<close>

text \<open>
  \<open>KvSet\<close>. The serdes are the caller's: what they return or that they raise (the wrapper
  makes any exception a \<open>KvStoreSerDeError\<close>).
\<close>

record ('k, 'v) kvset =
  ks_name :: string
  ks_version :: string
  ks_key_serialize :: "'k \<Rightarrow> string option"
  ks_key_deserialize :: "string \<Rightarrow> 'k option"
  ks_value_serialize :: "'v \<Rightarrow> string option"
  ks_value_deserialize :: "string \<Rightarrow> 'v option"
  ks_separator :: string
  ks_ttl_policy :: ttl_policy
  ks_scope_schema :: "string list option"

definition with_str_keys ::
  "string \<Rightarrow> string \<Rightarrow> ('k \<Rightarrow> string option) \<times> (string \<Rightarrow> 'k option) \<Rightarrow> ('v \<Rightarrow> string option) \<times> (string \<Rightarrow> 'v option)
   \<Rightarrow> ttl_policy option \<Rightarrow> string list option \<Rightarrow> ('k, 'v) kvset" where
  "with_str_keys name version key_serde value_serde ttl schema =
     \<lparr>ks_name = name, ks_version = version,
      ks_key_serialize = fst key_serde, ks_key_deserialize = snd key_serde,
      ks_value_serialize = fst value_serde, ks_value_deserialize = snd value_serde,
      ks_separator = '':'',
      ks_ttl_policy = (case ttl of None \<Rightarrow> ttl_none | Some p \<Rightarrow> p),
      ks_scope_schema = schema\<rparr>"

text \<open>\<open>SerDe.safe_str()\<close>.\<close>

definition safe_str :: "(string \<Rightarrow> string option) \<times> (string \<Rightarrow> string option)" where
  "safe_str = (Some, Some)"

definition serde_result :: "'a option \<Rightarrow> exn + 'a" where
  "serde_result r = (case r of None \<Rightarrow> Inl SerDeError | Some a \<Rightarrow> Inr a)"

definition version_label :: "('k, 'v) kvset \<Rightarrow> string" where
  "version_label ks = ''v'' @ ks_version ks"

definition validate_scope :: "('k, 'v) kvset \<Rightarrow> scope \<Rightarrow> exn option" where
  "validate_scope ks sc = (case ks_scope_schema ks of None \<Rightarrow> None
     | Some schema \<Rightarrow> let kinds = map sg_kind sc in
         if length kinds > length schema then Some ScopeError
         else if kinds \<noteq> take (length kinds) schema then Some ScopeError
         else None)"

definition leaf_needs_escaping :: "('k, 'v) kvset \<Rightarrow> scope \<Rightarrow> exn + bool" where
  "leaf_needs_escaping ks sc = (case ks_scope_schema ks of None \<Rightarrow> Inr (sc \<noteq> [])
     | Some schema \<Rightarrow> if length sc \<noteq> length schema then Inl ScopeError else Inr False)"

definition scope_parts :: "string \<Rightarrow> scope \<Rightarrow> string list" where
  "scope_parts sep sc = concat (map (\<lambda>s. [escape_segment (sg_kind s) sep, escape_segment (sg_id s) sep]) sc)"

definition leaf_blob :: "('k, 'v) kvset \<Rightarrow> bool \<Rightarrow> 'k \<Rightarrow> exn + string" where
  "leaf_blob ks escape_leaf key = (case serde_result (ks_key_serialize ks key) of
      Inl e \<Rightarrow> Inl e
    | Inr leaf \<Rightarrow> Inr (if escape_leaf then escape_segment leaf (ks_separator ks) else leaf))"

definition encode_in_key :: "('k, 'v) kvset \<Rightarrow> scope \<Rightarrow> 'k option \<Rightarrow> exn + string" where
  "encode_in_key ks sc key = (case key of
      None \<Rightarrow> Inr (blob_join (ks_separator ks) (scope_parts (ks_separator ks) sc))
    | Some k \<Rightarrow> (case leaf_needs_escaping ks sc of Inl e \<Rightarrow> Inl e
        | Inr escape_leaf \<Rightarrow> (case leaf_blob ks escape_leaf k of Inl e \<Rightarrow> Inl e
            | Inr leaf \<Rightarrow> Inr (blob_join (ks_separator ks) (scope_parts (ks_separator ks) sc @ [leaf])))))"

text \<open>\<open>Scope.of(**dict(segments))\<close>: a kind named twice keeps its last id, at its first place.\<close>

fun decode_segments :: "string \<Rightarrow> string list \<Rightarrow> string list \<Rightarrow> (string, string) dict \<Rightarrow> (string, string) dict option" where
  "decode_segments sep [] tokens segs = Some segs"
| "decode_segments sep (kind # schema) (raw_kind # raw_id # tokens) segs =
     (if unescape_segment raw_kind sep \<noteq> kind then None
      else decode_segments sep schema tokens (dput kind (unescape_segment raw_id sep) segs))"
| "decode_segments sep (kind # schema) tokens segs = None"

definition decode_in_key :: "('k, 'v) kvset \<Rightarrow> string \<Rightarrow> (scope \<times> 'k) option" where
  "decode_in_key ks in_key = (let sep = ks_separator ks in case ks_scope_schema ks of
      None \<Rightarrow> map_option (Pair []) (ks_key_deserialize ks in_key)
    | Some schema \<Rightarrow> let tokens = py_split sep in_key in
        if length tokens < 2 * length schema + 1 then None
        else case decode_segments sep schema tokens [] of None \<Rightarrow> None
        | Some segs \<Rightarrow> map_option (Pair (scope_of segs))
            (ks_key_deserialize ks (py_join sep (drop (2 * length schema) tokens))))"

definition maybe_unescape :: "('k, 'v) kvset \<Rightarrow> string \<Rightarrow> scope \<Rightarrow> string" where
  "maybe_unescape ks leaf sc =
     (if ks_scope_schema ks = None \<and> sc \<noteq> [] then unescape_segment leaf (ks_separator ks) else leaf)"

text \<open>A separator in front of the rest, dropped.\<close>

definition drop_separator :: "string \<Rightarrow> string \<Rightarrow> string" where
  "drop_separator sep rest = (if py_startswith rest sep then drop (length sep) rest else rest)"

definition decode_leaf_from_in_key :: "('k, 'v) kvset \<Rightarrow> scope \<Rightarrow> string \<Rightarrow> 'k option" where
  "decode_leaf_from_in_key ks sc in_key =
     (let sep = ks_separator ks; pre = blob_join sep (scope_parts sep sc) in
      if sc = [] then ks_key_deserialize ks (maybe_unescape ks in_key sc)
      else case strip_prefix in_key pre of None \<Rightarrow> None
      | Some rest \<Rightarrow> let rest = drop_separator sep rest in
          if rest = [] then None else ks_key_deserialize ks (maybe_unescape ks rest sc))"

section \<open>Bindings\<close>

record binding =
  cb_collection :: "string option"
  cb_name_version_prefix :: "string list"

definition item_key :: "binding \<Rightarrow> string \<Rightarrow> scope \<Rightarrow> string \<Rightarrow> string" where
  "item_key b sep sc leaf = blob_join sep (cb_name_version_prefix b @ scope_parts sep sc @ [leaf])"

definition scope_prefix :: "binding \<Rightarrow> string \<Rightarrow> scope \<Rightarrow> string option \<Rightarrow> string" where
  "scope_prefix b sep sc key_prefix = blob_join sep (cb_name_version_prefix b @ scope_parts sep sc
     @ (case key_prefix of None \<Rightarrow> [] | Some p \<Rightarrow> [p]))"

definition default_str_collection_name :: "('k, 'v) kvset \<Rightarrow> string" where
  "default_str_collection_name ks = ks_name ks @ '':'' @ version_label ks"

definition native_str_binding :: "('k, 'v) kvset \<Rightarrow> binding" where
  "native_str_binding ks = \<lparr>cb_collection = Some (default_str_collection_name ks), cb_name_version_prefix = []\<rparr>"

definition key_prefix_binding :: "('k, 'v) kvset \<Rightarrow> binding" where
  "key_prefix_binding ks = \<lparr>cb_collection = None, cb_name_version_prefix = [ks_name ks, version_label ks]\<rparr>"

section \<open>The keys of a backend\<close>

record ('k, 'v) backend =
  be_kvset :: "('k, 'v) kvset"
  be_scope :: scope
  be_binding :: binding
  be_batch_size :: int

text \<open>\<open>KvBackend.__init__\<close>.\<close>

definition new_backend ::
  "('k, 'v) kvset \<Rightarrow> scope \<Rightarrow> (('k, 'v) kvset \<Rightarrow> binding) option \<Rightarrow> binding option \<Rightarrow> int \<Rightarrow> exn + ('k, 'v) backend" where
  "new_backend ks sc binder binding batch_size = (case validate_scope ks sc of Some e \<Rightarrow> Inl e
     | None \<Rightarrow> (case (binding, binder) of
          (Some b, _) \<Rightarrow> Inr \<lparr>be_kvset = ks, be_scope = sc, be_binding = b, be_batch_size = batch_size\<rparr>
        | (None, Some f) \<Rightarrow> Inr \<lparr>be_kvset = ks, be_scope = sc, be_binding = f ks, be_batch_size = batch_size\<rparr>
        | (None, None) \<Rightarrow> Inl PyTypeError))"

definition physical_key_blob :: "('k, 'v) backend \<Rightarrow> 'k \<Rightarrow> exn + string" where
  "physical_key_blob be key = (let ks = be_kvset be in
     case leaf_needs_escaping ks (be_scope be) of Inl e \<Rightarrow> Inl e
     | Inr escape_leaf \<Rightarrow> (case leaf_blob ks escape_leaf key of Inl e \<Rightarrow> Inl e
         | Inr leaf \<Rightarrow> Inr (item_key (be_binding be) (ks_separator ks) (be_scope be) leaf)))"

definition scan_prefix_blob :: "('k, 'v) backend \<Rightarrow> 'k option \<Rightarrow> exn + string" where
  "scan_prefix_blob be key_prefix = (let ks = be_kvset be in case key_prefix of
      None \<Rightarrow> Inr (scope_prefix (be_binding be) (ks_separator ks) (be_scope be) None)
    | Some k \<Rightarrow> (case leaf_blob ks False k of Inl e \<Rightarrow> Inl e
        | Inr leaf \<Rightarrow> Inr (scope_prefix (be_binding be) (ks_separator ks) (be_scope be) (Some leaf))))"

definition strip_name_version :: "binding \<Rightarrow> string \<Rightarrow> string \<Rightarrow> string option" where
  "strip_name_version b sep physical = (if cb_name_version_prefix b = [] then Some physical
     else map_option (drop_separator sep) (strip_prefix physical (blob_join sep (cb_name_version_prefix b))))"

definition decode_key_from_physical :: "('k, 'v) backend \<Rightarrow> string \<Rightarrow> 'k option" where
  "decode_key_from_physical be physical = (let ks = be_kvset be in
     case strip_name_version (be_binding be) (ks_separator ks) physical of None \<Rightarrow> None
     | Some rest \<Rightarrow> decode_leaf_from_in_key ks (be_scope be) rest)"

section \<open>Layouts\<close>

datatype key_layout = Literal | Hashed | Hierarchical

text \<open>\<open>urllib.parse.quote(s, safe="")\<close> and \<open>unquote\<close>, on the bytes of the text.\<close>

definition unreserved :: "char \<Rightarrow> bool" where
  "unreserved c \<longleftrightarrow> (let n = (of_char c :: nat) in
     48 \<le> n \<and> n \<le> 57 \<or> 65 \<le> n \<and> n \<le> 90 \<or> 97 \<le> n \<and> n \<le> 122 \<or> c \<in> set ''_.-~'')"

definition quote :: "string \<Rightarrow> string" where
  "quote s = concat (map (\<lambda>c. if unreserved c then [c] else percent_byte c) s)"

definition hex_value :: "char \<Rightarrow> nat option" where
  "hex_value c = (let n = (of_char c :: nat) in
     if 48 \<le> n \<and> n \<le> 57 then Some (n - 48)
     else if 65 \<le> n \<and> n \<le> 70 then Some (n - 55)
     else if 97 \<le> n \<and> n \<le> 102 then Some (n - 87) else None)"

fun unquote :: "string \<Rightarrow> string" where
  "unquote (c # h # l # cs) = (case (if c = CHR ''%'' then (hex_value h, hex_value l) else (None, None)) of
      (Some a, Some b) \<Rightarrow> char_of (16 * a + b) # unquote cs
    | _ \<Rightarrow> c # unquote (h # l # cs))"
| "unquote cs = cs"

text \<open>\<open>b.decode("latin-1")\<close> as UTF-8 bytes, and \<open>s.encode("latin-1")\<close> back (\<open>None\<close> where it raises).\<close>

definition latin1_text :: "string \<Rightarrow> string" where
  "latin1_text blob = concat (map (\<lambda>c. let n = (of_char c :: nat) in
     if n < 128 then [c] else [char_of (192 + n div 64), char_of (128 + n mod 64)]) blob)"

fun latin1_bytes :: "string \<Rightarrow> string option" where
  "latin1_bytes [] = Some []"
| "latin1_bytes (c # cs) = (if of_char c < (128 :: nat) then map_option (Cons c) (latin1_bytes cs)
     else case cs of
       d # ds \<Rightarrow> if of_char c \<in> {194, 195 :: nat} \<and> (of_char d :: nat) div 64 = 2
                 then map_option (Cons (char_of ((of_char c - 192) * 64 + (of_char d - 128 :: nat)))) (latin1_bytes ds)
                 else None
     | [] \<Rightarrow> None)"

text \<open>\<open>str.strip()\<close>: the white space of Unicode, in UTF-8.\<close>

definition py_whitespace :: "string list" where
  "py_whitespace = map (map char_of) ([[9], [10], [11], [12], [13], [28], [29], [30], [31], [32],
     [194, 133], [194, 160], [225, 154, 128]] @ map (\<lambda>n. [226, 128, n]) ([128..<139] @ [168, 169, 175])
     @ [[226, 129, 159], [227, 128, 128 :: nat]])"

function py_lstrip :: "string list \<Rightarrow> string \<Rightarrow> string" where
  "py_lstrip spaces s = (case find (\<lambda>p. p \<noteq> [] \<and> py_startswith s p) spaces of
      None \<Rightarrow> s | Some p \<Rightarrow> py_lstrip spaces (drop (length p) s))"
  by pat_completeness auto
termination
  by (relation "measure (\<lambda>(_, s). length s)")
    (auto simp: find_Some_iff py_startswith_def, metis diff_less length_greater_0_conv nth_mem take_eq_Nil)

definition py_strip :: "string \<Rightarrow> string" where
  "py_strip s = rev (py_lstrip (map rev py_whitespace) (rev (py_lstrip py_whitespace s)))"

definition safe_segment :: "string \<Rightarrow> string" where
  "safe_segment text = (let value = py_strip text in if value = [] then ''_''
     else py_replace [char_of (0 :: nat)] [] (py_replace ''..'' ''_'' (py_replace [CHR 0x5C] ''_'' (py_replace ''/'' ''_'' value))))"

definition hierarchical_parts :: "string \<Rightarrow> string list" where
  "hierarchical_parts blob = (let parts = map safe_segment (filter (\<lambda>p. p \<noteq> []) (py_split ''/'' blob))
     in if parts = [] then [''_''] else parts)"

definition supports_prefix_scan :: "key_layout \<Rightarrow> bool" where
  "supports_prefix_scan l \<longleftrightarrow> l \<in> {Literal, Hierarchical}"

text \<open>\<open>sha256\<close> is a parameter; \<open>as_bytes\<close> says that the blob is \<open>bytes\<close> rather than \<open>str\<close>.\<close>

definition encode_path :: "(string \<Rightarrow> string) \<Rightarrow> bool \<Rightarrow> key_layout \<Rightarrow> string \<Rightarrow> string" where
  "encode_path sha256 as_bytes l blob = (case l of
      Hashed \<Rightarrow> sha256 blob
    | Hierarchical \<Rightarrow> py_join ''/'' (hierarchical_parts blob)
    | Literal \<Rightarrow> quote (if as_bytes then latin1_text blob else blob))"

definition decode_path :: "bool \<Rightarrow> key_layout \<Rightarrow> string \<Rightarrow> string option" where
  "decode_path as_bytes l rel = (if l \<noteq> Literal then None
     else let text = unquote (py_replace [CHR 0x5C] ''/'' rel) in if as_bytes then latin1_bytes text else Some text)"

section \<open>The codec of object stores\<close>

record ('k, 'v) key_codec =
  kc_backend :: "('k, 'v) backend"
  kc_collection_prefix :: string
  kc_layout :: key_layout
  kc_bytes :: bool
  kc_sha256 :: "string \<Rightarrow> string"

definition in_key_blob :: "('k, 'v) key_codec \<Rightarrow> 'k \<Rightarrow> exn + string" where
  "in_key_blob kc key = (let be = kc_backend kc; ks = be_kvset be in
     case leaf_blob ks False key of Inl e \<Rightarrow> Inl e
     | Inr leaf \<Rightarrow> Inr (item_key (be_binding be) (ks_separator ks) (be_scope be) leaf))"

definition blob_from_physical :: "('k, 'v) key_codec \<Rightarrow> string \<Rightarrow> string option" where
  "blob_from_physical kc physical = (case strip_prefix physical (kc_collection_prefix kc) of None \<Rightarrow> None
     | Some rel \<Rightarrow> decode_path (kc_bytes kc) (kc_layout kc) rel)"

definition codec_scan_prefix_blob :: "('k, 'v) key_codec \<Rightarrow> 'k option \<Rightarrow> exn + string" where
  "codec_scan_prefix_blob kc key_prefix = (let be = kc_backend kc; ks = be_kvset be in case key_prefix of
      None \<Rightarrow> Inr (scope_prefix (be_binding be) (ks_separator ks) (be_scope be) None)
    | Some k \<Rightarrow> (case leaf_blob ks False k of Inl e \<Rightarrow> Inl e
        | Inr leaf \<Rightarrow> Inr (scope_prefix (be_binding be) (ks_separator ks) (be_scope be) (Some leaf))))"

definition codec_decode_in_key :: "('k, 'v) key_codec \<Rightarrow> string \<Rightarrow> 'k option" where
  "codec_decode_in_key kc physical = (let be = kc_backend kc; ks = be_kvset be in
     case strip_name_version (be_binding be) (ks_separator ks) physical of None \<Rightarrow> None
     | Some rest \<Rightarrow> decode_leaf_from_in_key ks (be_scope be) rest)"

definition encode_physical :: "('k, 'v) key_codec \<Rightarrow> 'k \<Rightarrow> exn + string" where
  "encode_physical kc key = (case in_key_blob kc key of Inl e \<Rightarrow> Inl e
     | Inr blob \<Rightarrow> Inr (kc_collection_prefix kc @ encode_path (kc_sha256 kc) (kc_bytes kc) (kc_layout kc) blob))"

definition decode_physical :: "('k, 'v) key_codec \<Rightarrow> string \<Rightarrow> 'k option" where
  "decode_physical kc physical = (case blob_from_physical kc physical of None \<Rightarrow> None
     | Some pk \<Rightarrow> codec_decode_in_key kc pk)"

definition matches_prefix :: "('k, 'v) key_codec \<Rightarrow> string \<Rightarrow> 'k option \<Rightarrow> exn + bool" where
  "matches_prefix kc physical key_prefix = (case blob_from_physical kc physical of None \<Rightarrow> Inr False
     | Some pk \<Rightarrow> (case codec_scan_prefix_blob kc key_prefix of Inl e \<Rightarrow> Inl e
         | Inr pre \<Rightarrow> Inr (py_startswith pk pre)))"

definition listing_prefix :: "('k, 'v) key_codec \<Rightarrow> 'k option \<Rightarrow> exn + string" where
  "listing_prefix kc key_prefix = (case codec_scan_prefix_blob kc key_prefix of Inl e \<Rightarrow> Inl e
     | Inr blob \<Rightarrow> Inr (kc_collection_prefix kc @ encode_path (kc_sha256 kc) (kc_bytes kc) (kc_layout kc) blob))"

definition decode_if_prefix :: "('k, 'v) key_codec \<Rightarrow> string \<Rightarrow> 'k option \<Rightarrow> exn + 'k option" where
  "decode_if_prefix kc physical key_prefix = (case blob_from_physical kc physical of None \<Rightarrow> Inr None
     | Some pk \<Rightarrow> (case codec_scan_prefix_blob kc key_prefix of Inl e \<Rightarrow> Inl e
         | Inr pre \<Rightarrow> Inr (if py_startswith pk pre then codec_decode_in_key kc pk else None)))"

text \<open>The codec's own copies of the backend's helpers agree with them.\<close>

lemma codec_helpers [simp]:
  "codec_scan_prefix_blob kc = scan_prefix_blob (kc_backend kc)"
  "codec_decode_in_key kc = decode_key_from_physical (kc_backend kc)"
  by (auto simp: codec_scan_prefix_blob_def scan_prefix_blob_def codec_decode_in_key_def decode_key_from_physical_def Let_def)

end
