(* ===== verification/Key_Laws.thy ===== *)
theory Key_Laws
  imports Key_Encoding
begin

text \<open>
  Round trips and injectivity of the key encoding: escaping a segment hides the
  separator and can be undone; a key of a collection with a declared scope schema decodes
  to its scope and leaf; two records never share a physical key; a backend and an object
  codec decode what they encoded.
\<close>

section \<open>Escaping\<close>

text \<open>A separator of one byte that is neither the escape character nor a digit of an escape.\<close>

definition escape_alphabet :: string where
  "escape_alphabet = ''%0123456789ABCDEF''"

definition plain_separator :: "string \<Rightarrow> bool" where
  "plain_separator sep \<longleftrightarrow> (\<exists>c. sep = [c] \<and> c \<notin> set escape_alphabet)"

lemma colon_plain [simp]: "plain_separator '':''"
  by (simp add: plain_separator_def escape_alphabet_def)

lemma percent_in_alphabet [simp]: "CHR ''%'' \<in> set escape_alphabet"
  by (simp add: escape_alphabet_def)

lemma py_replace_char: "py_replace [c] new s = concat (map (\<lambda>x. if x = c then new else [x]) s)"
  by (induction s) auto

lemma hex_digit_code: "n < 16 \<Longrightarrow> of_char (hex_digit n) = (if n < 10 then 48 + n else 55 + n)"
  by (simp add: hex_digit_def)

lemma hex_value_digit: "n < 16 \<Longrightarrow> hex_value (hex_digit n) = Some n"
  unfolding hex_value_def Let_def by (simp add: hex_digit_code)

lemma hex_value_percent: "hex_value (CHR ''%'') = None"
  by (simp add: hex_value_def)

lemma hex_digit_range: "n < 16 \<Longrightarrow> hex_digit n \<in> set escape_alphabet - {CHR ''%''}"
proof -
  assume n: "n < 16"
  then have "n = 0 \<or> n = 1 \<or> n = 2 \<or> n = 3 \<or> n = 4 \<or> n = 5 \<or> n = 6 \<or> n = 7 \<or> n = 8 \<or> n = 9 \<or> n = 10
      \<or> n = 11 \<or> n = 12 \<or> n = 13 \<or> n = 14 \<or> n = 15" by arith
  then have "hex_digit n \<in> set escape_alphabet"
    by (elim disjE) (simp_all add: escape_alphabet_def hex_digit_def char_of_def bit_0 bit_Suc)
  moreover have "hex_digit n \<noteq> CHR ''%''" using hex_value_digit [OF n] hex_value_percent by auto
  ultimately show ?thesis by simp
qed

lemma hex_digit_inj: "m < 16 \<Longrightarrow> n < 16 \<Longrightarrow> hex_digit m = hex_digit n \<longleftrightarrow> m = n"
  by (metis hex_value_digit option.inject)

lemma char_code_bound: "(of_char c :: nat) div 16 < 16" "(of_char c :: nat) mod 16 < 16"
proof -
  have "(of_char c :: nat) < 16 * 16" using nat_of_char_less_256 [of c] by simp
  then show "(of_char c :: nat) div 16 < 16" by (rule less_mult_imp_div_less)
qed simp

lemma percent_byte_chars: "set (percent_byte c) \<subseteq> set escape_alphabet"
  using hex_digit_range [OF char_code_bound(1), of c] hex_digit_range [OF char_code_bound(2), of c]
  by (simp add: percent_byte_def)

lemma percent_byte_no_percent: "CHR ''%'' \<notin> set (tl (percent_byte c))"
  using hex_digit_range [OF char_code_bound(1), of c] hex_digit_range [OF char_code_bound(2), of c]
  by (simp add: percent_byte_def) (metis)

lemma percent_byte_inj: "percent_byte c = percent_byte d \<longleftrightarrow> c = d"
proof
  assume "percent_byte c = percent_byte d"
  then have "(of_char c :: nat) div 16 = of_char d div 16" "(of_char c :: nat) mod 16 = of_char d mod 16"
    by (simp_all add: percent_byte_def hex_digit_inj char_code_bound)
  then have "(of_char c :: nat) = of_char d" by (metis div_mult_mod_eq)
  then show "c = d" by simp
qed simp

lemma percent_byte_percent: "percent_byte (CHR ''%'') = ''%25''"
  by (simp add: percent_byte_def hex_digit_def char_of_def bit_0 bit_Suc)

definition escape_char :: "char \<Rightarrow> char \<Rightarrow> string" where
  "escape_char sep c = (if c = CHR ''%'' \<or> c = sep then percent_byte c else [c])"

lemma escape_segment_chars:
  assumes "plain_separator [sep]"
  shows "escape_segment t [sep] = concat (map (escape_char sep) t)"
proof -
  have sep: "sep \<notin> set ''%25''" using assms by (auto simp: plain_separator_def escape_alphabet_def)
  have "concat (map (\<lambda>x. if x = sep then percent_byte sep else [x]) (concat (map (\<lambda>x. if x = CHR ''%'' then ''%25'' else [x]) t)))
      = concat (map (escape_char sep) t)"
    using sep by (induction t) (auto simp: escape_char_def percent_byte_percent)
  then show ?thesis by (simp add: escape_segment_def escaped_separator_def py_replace_char)
qed

lemma escape_segment_no_separator:
  assumes "plain_separator [sep]"
  shows "sep \<notin> set (escape_segment t [sep])"
proof -
  have "sep \<notin> set escape_alphabet" using assms by (simp add: plain_separator_def)
  then have "sep \<notin> set (escape_char sep c)" for c
    using percent_byte_chars [of c] by (auto simp: escape_char_def)
  then show ?thesis by (auto simp: escape_segment_chars [OF assms])
qed

text \<open>Replacing a pattern that starts with \<open>%\<close> passes over text without one.\<close>

lemma py_replace_pass:
  assumes "old = CHR ''%'' # pat" "CHR ''%'' \<notin> set s"
  shows "py_replace old new (s @ t) = s @ py_replace old new t"
  using assms(2) by (induction s) (auto simp: assms(1))

lemma py_replace_match:
  "old \<noteq> [] \<Longrightarrow> py_replace old new (old @ t) = new @ py_replace old new t"
  by (cases old) simp_all

lemma py_replace_escape_miss:
  assumes "old = percent_byte d" "c \<noteq> d"
  shows "py_replace old new (percent_byte c @ t) = percent_byte c @ py_replace old new t"
proof -
  obtain a b where c: "percent_byte c = CHR ''%'' # a # [b]" by (simp add: percent_byte_def)
  obtain x y where d: "percent_byte d = CHR ''%'' # x # [y]" by (simp add: percent_byte_def)
  from assms(2) have "(a, b) \<noteq> (x, y)" using percent_byte_inj [of c d] c d by auto
  moreover have "CHR ''%'' \<notin> set [a, b]" using percent_byte_no_percent [of c] c by simp
  ultimately show ?thesis using c d assms(1) by (auto simp: numeral_3_eq_3)
qed

lemma unescape_escape:
  assumes "plain_separator [sep]"
  shows "unescape_segment (escape_segment t [sep]) [sep] = t"
proof -
  have sep: "sep \<noteq> CHR ''%''" using assms by (auto simp: plain_separator_def)
  have esc: "escaped_separator [sep] = percent_byte sep" by (simp add: escaped_separator_def)
  have first: "py_replace (percent_byte sep) [sep] (concat (map (escape_char sep) t))
      = concat (map (\<lambda>x. if x = CHR ''%'' then percent_byte (CHR ''%'') else [x]) t)"
  proof (induction t)
    case (Cons x t)
    consider "x = CHR ''%''" | "x = sep" | "x \<noteq> CHR ''%''" "x \<noteq> sep" by blast
    then show ?case
    proof cases
      case 1
      with Cons sep show ?thesis
        using py_replace_escape_miss [OF refl, of "CHR ''%''" sep "[sep]"] by (simp add: escape_char_def)
    next
      case 2
      have "percent_byte sep \<noteq> []" by (simp add: percent_byte_def)
      with 2 Cons sep py_replace_match [OF this] show ?thesis by (simp add: escape_char_def)
    next
      case 3
      with Cons py_replace_pass [of "percent_byte sep" _ "[x]" "[sep]"] show ?thesis
        by (simp add: escape_char_def percent_byte_def)
    qed
  qed (simp add: percent_byte_def)
  have "py_replace ''%25'' ''%'' (concat (map (\<lambda>x. if x = CHR ''%'' then ''%25'' else [x]) t)) = t"
  proof (induction t)
    case (Cons x t)
    then show ?case using py_replace_pass [OF refl, of "[x]" "''25''" "''%''"] by auto
  qed simp
  then show ?thesis using first unfolding percent_byte_percent
    by (simp only: unescape_segment_def escape_segment_chars [OF assms] esc)
qed

lemma escape_segment_inj:
  "plain_separator [sep] \<Longrightarrow> escape_segment s [sep] = escape_segment t [sep] \<longleftrightarrow> s = t"
  using unescape_escape by metis

section \<open>Joining and splitting\<close>

lemma blob_join_py_join: "blob_join sep ps = py_join sep ps"
proof -
  have "foldl (\<lambda>out part. out @ sep @ part) p ps = py_join sep (p # ps)" for p ps
  proof (induction ps arbitrary: p)
    case (Cons q ps)
    have "py_join sep ((p @ sep @ q) # ps) = p @ sep @ py_join sep (q # ps)" for p q
      by (cases ps) simp_all
    with Cons show ?case by simp
  qed simp
  then show ?thesis by (cases ps) simp_all
qed

lemma py_join_append: "ps \<noteq> [] \<Longrightarrow> qs \<noteq> [] \<Longrightarrow> py_join sep (ps @ qs) = py_join sep ps @ sep @ py_join sep qs"
proof (induction ps)
  case (Cons p ps)
  then show ?case by (cases ps; cases qs) auto
qed simp

lemma py_split_from_plain: "c \<notin> set s \<Longrightarrow> py_split_from [c] acc s = [rev acc @ s]"
  by (induction s arbitrary: acc) auto

lemma py_split_from_cut: "c \<notin> set s \<Longrightarrow> py_split_from [c] acc (s @ c # t) = (rev acc @ s) # py_split_from [c] [] t"
  by (induction s arbitrary: acc) auto

lemma py_split_plain [simp]: "c \<notin> set s \<Longrightarrow> py_split [c] s = [s]"
  by (simp add: py_split_def py_split_from_plain)

lemma py_split_cut [simp]: "c \<notin> set s \<Longrightarrow> py_split [c] (s @ c # t) = s # py_split [c] t"
  by (simp add: py_split_def py_split_from_cut)

lemma py_split_join:
  "list_all (\<lambda>p. c \<notin> set p) ps \<Longrightarrow> py_split [c] (py_join [c] (ps @ [leaf])) = ps @ py_split [c] leaf"
proof (induction ps)
  case (Cons p ps)
  then have "py_join [c] ((p # ps) @ [leaf]) = p @ c # py_join [c] (ps @ [leaf])" by (cases ps) simp_all
  with Cons show ?case by simp
qed simp

lemma py_split_nonempty [simp]: "py_split_from sep acc s \<noteq> []"
  by (induction sep acc s rule: py_split_from.induct) auto

lemma py_join_split_from: "py_join [c] (py_split_from [c] acc s) = rev acc @ s"
proof (induction s arbitrary: acc)
  case (Cons x s)
  show ?case
  proof (cases "x = c")
    case True
    have "py_split_from [c] [] s \<noteq> []" by simp
    then obtain y ys where "py_split_from [c] [] s = y # ys" by (meson neq_Nil_conv)
    with True Cons.IH [of "[]"] show ?thesis by simp
  next
    case False
    with Cons show ?thesis by simp
  qed
qed simp

lemma py_join_split: "py_join [c] (py_split [c] s) = s"
  by (simp add: py_split_def py_join_split_from)

lemma py_join_inj:
  assumes "list_all (\<lambda>p. c \<notin> set p) ps" "list_all (\<lambda>p. c \<notin> set p) qs" "ps \<noteq> []" "qs \<noteq> []" "py_join [c] ps = py_join [c] qs"
  shows "ps = qs"
proof -
  have split: "py_split [c] (py_join [c] rs) = rs" if "list_all (\<lambda>p. c \<notin> set p) rs" "rs \<noteq> []" for rs
  proof -
    from that(2) obtain ini x where rs: "rs = ini @ [x]" using rev_exhaust by blast
    with that(1) show ?thesis by (simp add: py_split_join)
  qed
  from assms show ?thesis using split [of ps] split [of qs] by metis
qed

section \<open>Scopes\<close>

lemma scope_parts_Cons:
  "scope_parts sep (s # sc) = escape_segment (sg_kind s) sep # escape_segment (sg_id s) sep # scope_parts sep sc"
  and scope_parts_Nil [simp]: "scope_parts sep [] = []"
  by (simp_all add: scope_parts_def)

lemma length_scope_parts [simp]: "length (scope_parts sep sc) = 2 * length sc"
  by (induction sc) (simp_all add: scope_parts_Cons)

lemma scope_parts_eq_Nil [simp]: "scope_parts sep sc = [] \<longleftrightarrow> sc = []"
  by (cases sc) (simp_all add: scope_parts_Cons)

lemma scope_parts_no_separator: "plain_separator [c] \<Longrightarrow> list_all (\<lambda>p. c \<notin> set p) (scope_parts [c] sc)"
  by (induction sc) (simp_all add: scope_parts_Cons escape_segment_no_separator)

lemma scope_parts_inj: "plain_separator [c] \<Longrightarrow> scope_parts [c] sc = scope_parts [c] sc' \<longleftrightarrow> sc = sc'"
proof (induction sc arbitrary: sc')
  case (Cons s sc)
  note IH = Cons.IH [OF Cons.prems] and prems = Cons.prems
  show ?case
  proof (cases sc')
    case (Cons s' rest)
    have "s = s' \<longleftrightarrow> sg_kind s = sg_kind s' \<and> sg_id s = sg_id s'" by (cases s; cases s') simp
    with Cons IH [of rest] prems show ?thesis
      by (simp add: scope_parts_Cons escape_segment_inj)
  qed (simp add: scope_parts_Cons)
next
  case Nil
  then show ?case by (cases sc') (simp_all add: scope_parts_Cons)
qed

section \<open>A key decodes to its scope and leaf\<close>

definition keys_round_trip :: "('k, 'v) kvset \<Rightarrow> bool" where
  "keys_round_trip ks \<longleftrightarrow> (\<forall>k b. ks_key_serialize ks k = Some b \<longrightarrow> ks_key_deserialize ks b = Some k)"

lemma decode_segments_encoded:
  assumes "plain_separator [c]" "distinct (dkeys segs @ map sg_kind sc)"
  shows "decode_segments [c] (map sg_kind sc) (scope_parts [c] sc @ tokens) segs
    = Some (segs @ map (\<lambda>s. (sg_kind s, sg_id s)) sc)"
  using assms(2)
proof (induction sc arbitrary: segs)
  case (Cons s sc)
  have "dput (sg_kind s) (sg_id s) segs = segs @ [(sg_kind s, sg_id s)]" using Cons.prems by (intro dput_new) auto
  with Cons.IH [of "segs @ [(sg_kind s, sg_id s)]"] Cons.prems show ?case
    by (simp add: scope_parts_Cons unescape_escape [OF assms(1)])
qed simp

lemma scope_of_segments: "scope_of (map (\<lambda>s. (sg_kind s, sg_id s)) sc) = sc"
proof (induction sc)
  case (Cons s sc)
  then show ?case by (cases s) (simp add: scope_of_def)
qed (simp add: scope_of_def)

lemma decode_encode_in_key:
  assumes "ks_separator ks = [c]" "plain_separator [c]" "keys_round_trip ks"
    and "ks_scope_schema ks = Some (map sg_kind sc)" "distinct (map sg_kind sc)"
    and "ks_key_serialize ks k = Some b"
  shows "\<exists>blob. encode_in_key ks sc (Some k) = Inr blob \<and> decode_in_key ks blob = Some (sc, k)"
proof -
  let ?blob = "py_join [c] (scope_parts [c] sc @ [b])"
  have enc: "encode_in_key ks sc (Some k) = Inr ?blob"
    using assms by (simp add: encode_in_key_def leaf_needs_escaping_def leaf_blob_def serde_result_def blob_join_py_join)
  have tokens: "py_split [c] ?blob = scope_parts [c] sc @ py_split [c] b"
    by (rule py_split_join [OF scope_parts_no_separator [OF assms(2)]])
  have "py_split [c] b \<noteq> []" by (simp add: py_split_def)
  then have len: "length (scope_parts [c] sc @ py_split [c] b) \<ge> 2 * length (map sg_kind sc) + 1"
    by (cases "py_split [c] b") simp_all
  have "decode_segments [c] (map sg_kind sc) (scope_parts [c] sc @ py_split [c] b) [] = Some (map (\<lambda>s. (sg_kind s, sg_id s)) sc)"
    using decode_segments_encoded [OF assms(2), of "[]" sc] assms(5) by simp
  moreover have "ks_key_deserialize ks b = Some k" using assms(3,6) by (simp add: keys_round_trip_def)
  ultimately have "decode_in_key ks ?blob = Some (sc, k)"
    using assms(1,4) len by (simp add: decode_in_key_def Let_def tokens py_join_split scope_of_segments not_less)
      (simp add: py_split_def)
  with enc show ?thesis by blast
qed

section \<open>No two records share a key\<close>

lemma item_key_inj:
  assumes "item_key b sep sc leaf = item_key b sep sc' leaf'"
  shows "py_join sep (scope_parts sep sc @ [leaf]) = py_join sep (scope_parts sep sc' @ [leaf'])"
proof (cases "cb_name_version_prefix b = []")
  case True
  with assms show ?thesis by (simp add: item_key_def blob_join_py_join)
next
  case False
  with assms show ?thesis by (simp add: item_key_def blob_join_py_join py_join_append)
qed

lemma fixed_arity_parts:
  assumes "plain_separator [c]" "length sc = length sc'"
    and "py_join [c] (scope_parts [c] sc @ [leaf]) = py_join [c] (scope_parts [c] sc' @ [leaf'])"
  shows "sc = sc' \<and> leaf = leaf'"
proof -
  note plain = scope_parts_no_separator [OF assms(1)]
  from assms(3) have "py_split [c] (py_join [c] (scope_parts [c] sc @ [leaf])) = py_split [c] (py_join [c] (scope_parts [c] sc' @ [leaf']))"
    by simp
  then have split: "scope_parts [c] sc @ py_split [c] leaf = scope_parts [c] sc' @ py_split [c] leaf'"
    by (simp only: py_split_join [OF plain])
  then have "scope_parts [c] sc = scope_parts [c] sc'" "py_split [c] leaf = py_split [c] leaf'"
    using assms(2) by simp_all
  with assms(1) show ?thesis by (metis py_join_split scope_parts_inj)
qed

lemma escaped_leaf_parts:
  assumes "plain_separator [c]"
    and "py_join [c] (scope_parts [c] sc @ [escape_segment leaf [c]]) = py_join [c] (scope_parts [c] sc' @ [escape_segment leaf' [c]])"
  shows "sc = sc' \<and> leaf = leaf'"
proof -
  note plain = scope_parts_no_separator [OF assms(1)] and esc = escape_segment_no_separator [OF assms(1)]
  have "scope_parts [c] sc @ [escape_segment leaf [c]] = scope_parts [c] sc' @ [escape_segment leaf' [c]]"
    using plain [of sc] plain [of sc'] esc assms(2) by (intro py_join_inj [of c]) simp_all
  with assms(1) show ?thesis by (simp add: scope_parts_inj escape_segment_inj)
qed

lemma physical_key_inj:
  assumes sep: "ks_separator ks = [c]" "plain_separator [c]" and rt: "keys_round_trip ks"
    and be: "be_kvset be = ks" "be_kvset be' = ks" "be_binding be' = be_binding be"
    and arity: "ks_scope_schema ks \<noteq> None \<or> (be_scope be = [] \<longleftrightarrow> be_scope be' = [])"
    and keys: "physical_key_blob be k = Inr p" "physical_key_blob be' k' = Inr p"
  shows "be_scope be = be_scope be' \<and> k = k'"
proof -
  from keys be obtain x x' leaf leaf' where
    esc: "leaf_needs_escaping ks (be_scope be) = Inr x" "leaf_needs_escaping ks (be_scope be') = Inr x'"
    and leaf: "leaf_blob ks x k = Inr leaf" "leaf_blob ks x' k' = Inr leaf'"
    and p: "item_key (be_binding be) [c] (be_scope be) leaf = item_key (be_binding be) [c] (be_scope be') leaf'"
    by (auto simp: physical_key_blob_def Let_def sep split: sum.splits)
  from leaf obtain b b' where b: "ks_key_serialize ks k = Some b" "leaf = (if x then escape_segment b [c] else b)"
    "ks_key_serialize ks k' = Some b'" "leaf' = (if x' then escape_segment b' [c] else b')"
    by (auto simp: leaf_blob_def serde_result_def sep split: option.splits sum.splits)
  note join = item_key_inj [OF p]
  have "be_scope be = be_scope be' \<and> b = b'"
  proof (cases "ks_scope_schema ks")
    case None
    with esc arity have "x = (be_scope be \<noteq> [])" "x' = x" by (auto simp: leaf_needs_escaping_def)
    show ?thesis
    proof (cases "be_scope be = []")
      case True
      with None arity join b \<open>x = _\<close> \<open>x' = x\<close> show ?thesis by simp
    next
      case False
      with join [unfolded b(2,4)] \<open>x = _\<close> \<open>x' = x\<close>
      have "py_join [c] (scope_parts [c] (be_scope be) @ [escape_segment b [c]])
          = py_join [c] (scope_parts [c] (be_scope be') @ [escape_segment b' [c]])" by simp
      then show ?thesis by (rule escaped_leaf_parts [OF sep(2)])
    qed
  next
    case (Some schema)
    with esc have "x = False" "x' = False" "length (be_scope be) = length (be_scope be')"
      by (auto simp: leaf_needs_escaping_def split: if_split_asm)
    with fixed_arity_parts [OF sep(2) this(3) join] b(2,4) show ?thesis by simp
  qed
  moreover have "ks_key_deserialize ks b = Some k" "ks_key_deserialize ks b' = Some k'"
    using rt b by (simp_all add: keys_round_trip_def)
  ultimately show ?thesis by auto
qed

section \<open>A backend decodes its keys\<close>

lemma startswith_append [simp]: "py_startswith (p @ s) p"
  by (simp add: py_startswith_def)

lemma strip_prefix_append [simp]: "strip_prefix (p @ s) p = Some s"
  by (simp add: strip_prefix_def)

lemma drop_separator_append [simp]: "drop_separator sep (sep @ s) = s"
  by (simp add: drop_separator_def)

lemma strip_name_version_item:
  "strip_name_version b sep (item_key b sep sc leaf) = Some (py_join sep (scope_parts sep sc @ [leaf]))"
  by (cases "cb_name_version_prefix b = []")
    (simp_all add: strip_name_version_def item_key_def blob_join_py_join py_join_append)

lemma decode_leaf_item:
  assumes "sc = [] \<or> leaf \<noteq> []"
  shows "decode_leaf_from_in_key ks sc (py_join (ks_separator ks) (scope_parts (ks_separator ks) sc @ [leaf]))
    = ks_key_deserialize ks (maybe_unescape ks leaf sc)"
proof (cases "sc = []")
  case True
  then show ?thesis by (simp add: decode_leaf_from_in_key_def)
next
  case False
  then have "py_join (ks_separator ks) (scope_parts (ks_separator ks) sc @ [leaf])
      = py_join (ks_separator ks) (scope_parts (ks_separator ks) sc) @ ks_separator ks @ leaf"
    by (simp add: py_join_append)
  with False assms show ?thesis by (simp add: decode_leaf_from_in_key_def blob_join_py_join)
qed

lemma escape_segment_eq_Nil: "plain_separator [c] \<Longrightarrow> escape_segment s [c] = [] \<longleftrightarrow> s = []"
  by (cases s) (auto simp: escape_segment_chars escape_char_def percent_byte_def)

lemma decode_physical_key:
  assumes "ks_separator (be_kvset be) = [c]" "plain_separator [c]" "keys_round_trip (be_kvset be)"
    and "physical_key_blob be k = Inr p" "be_scope be = [] \<or> ks_key_serialize (be_kvset be) k \<noteq> Some []"
  shows "decode_key_from_physical be p = Some k"
proof -
  let ?ks = "be_kvset be"
  from assms(4) obtain x leaf where
    esc: "leaf_needs_escaping ?ks (be_scope be) = Inr x" and leaf: "leaf_blob ?ks x k = Inr leaf"
    and p: "p = item_key (be_binding be) [c] (be_scope be) leaf"
    by (auto simp: physical_key_blob_def Let_def assms(1) split: sum.splits)
  from leaf obtain b where b: "ks_key_serialize ?ks k = Some b" "leaf = (if x then escape_segment b [c] else b)"
    by (auto simp: leaf_blob_def serde_result_def assms(1) split: option.splits sum.splits)
  have x: "x \<longleftrightarrow> ks_scope_schema ?ks = None \<and> be_scope be \<noteq> []"
    using esc by (auto simp: leaf_needs_escaping_def split: option.splits if_split_asm)
  have "maybe_unescape ?ks leaf (be_scope be) = b"
    using b(2) x unescape_escape [OF assms(2)] by (auto simp: maybe_unescape_def assms(1))
  moreover have "be_scope be = [] \<or> leaf \<noteq> []"
    using assms(5) b by (auto simp: escape_segment_eq_Nil [OF assms(2)])
  ultimately have "decode_key_from_physical be p = ks_key_deserialize ?ks b"
    using decode_leaf_item [of "be_scope be" leaf ?ks]
    by (simp add: decode_key_from_physical_def Let_def p assms(1) strip_name_version_item)
  with assms(3) b(1) show ?thesis by (simp add: keys_round_trip_def)
qed

section \<open>Paths\<close>

lemma unquote_plain: "c \<noteq> CHR ''%'' \<Longrightarrow> unquote (c # s) = c # unquote s"
proof (cases s rule: unquote.cases)
  case (1 c' h l)
  assume "c \<noteq> CHR ''%''"
  with 1 show ?thesis by simp
qed (auto simp: numeral_eq_Suc)

lemma unreserved_no_percent: "unreserved c \<Longrightarrow> c \<noteq> CHR ''%''"
  by (auto simp: unreserved_def Let_def)

lemma unquote_quote: "unquote (quote s) = s"
proof (induction s)
  case (Cons c s)
  show ?case
  proof (cases "unreserved c")
    case True
    with Cons unquote_plain [OF unreserved_no_percent [OF True]] show ?thesis by (simp add: quote_def)
  next
    case False
    have "char_of (16 * (of_char c div 16) + of_char c mod 16 :: nat) = c" by (simp add: mult.commute)
    with Cons False show ?thesis
      by (simp add: quote_def percent_byte_def hex_value_digit char_code_bound)
  qed
qed (simp add: quote_def)

lemma quote_no_backslash: "CHR 0x5C \<notin> set (quote s)"
proof -
  have "CHR 0x5C \<notin> set (percent_byte c)" for c using percent_byte_chars [of c] by (auto simp: escape_alphabet_def)
  moreover have "\<not> unreserved (CHR 0x5C)" by (simp add: unreserved_def Let_def)
  ultimately show ?thesis by (auto simp: quote_def)
qed

lemma py_replace_absent: "c \<notin> set s \<Longrightarrow> py_replace [c] new s = s"
  by (induction s) auto

lemma two_or_three: "128 \<le> m \<Longrightarrow> m < 256 \<Longrightarrow> m div 64 = 2 \<or> m div 64 = (3 :: nat)"
  using div_le_mono [of 128 m 64] less_mult_imp_div_less [of m 4 64] by simp linarith

lemma latin1_round_trip: "latin1_bytes (latin1_text s) = Some s"
proof (induction s)
  case (Cons c s)
  let ?n = "of_char c :: nat"
  have n: "?n < 256" by simp
  show ?case
  proof (cases "?n < 128")
    case True
    with Cons show ?thesis by (simp add: latin1_text_def Let_def)
  next
    case False
    with n have "?n div 64 = 2 \<or> ?n div 64 = 3" by (intro two_or_three) simp_all
    then have lead: "(of_char (char_of (192 + ?n div 64) :: char) :: nat) = 192 + ?n div 64" by auto
    have trail: "(of_char (char_of (128 + ?n mod 64) :: char) :: nat) = 128 + ?n mod 64"
      using mod_less_divisor [of 64 ?n] by simp
    have "latin1_text (c # s) = char_of (192 + ?n div 64) # char_of (128 + ?n mod 64) # latin1_text s"
      using False by (simp add: latin1_text_def Let_def)
    moreover have "latin1_bytes (a # b # t) = map_option (Cons c) (latin1_bytes t)"
      if "(of_char a :: nat) = 192 + ?n div 64" "(of_char b :: nat) = 128 + ?n mod 64" for a b t
    proof -
      have "(char_of ((of_char a - 192) * 64 + (of_char b - 128 :: nat)) :: char) = char_of ?n" unfolding that by simp
      moreover have "(of_char a :: nat) \<in> {194, 195}" "\<not> of_char a < (128 :: nat)" "(of_char b :: nat) div 64 = 2"
        using \<open>?n div 64 = 2 \<or> ?n div 64 = 3\<close> that by auto
      ultimately show ?thesis by simp
    qed
    ultimately show ?thesis using Cons.IH lead trail by simp
  qed
qed (simp add: latin1_text_def)

lemma decode_encode_path: "decode_path as_bytes Literal (encode_path sha as_bytes Literal blob) = Some blob"
  by (simp add: decode_path_def encode_path_def py_replace_absent quote_no_backslash unquote_quote latin1_round_trip)

lemma decode_encode_physical:
  assumes "kc_layout kc = Literal" "ks_separator (be_kvset (kc_backend kc)) = [c]" "plain_separator [c]"
    and "keys_round_trip (be_kvset (kc_backend kc))"
    and "ks_scope_schema (be_kvset (kc_backend kc)) \<noteq> None \<or> be_scope (kc_backend kc) = []"
    and "be_scope (kc_backend kc) = [] \<or> ks_key_serialize (be_kvset (kc_backend kc)) k \<noteq> Some []"
    and "encode_physical kc k = Inr path"
  shows "decode_physical kc path = Some k"
proof -
  let ?be = "kc_backend kc"
  let ?ks = "be_kvset ?be"
  from assms(7) obtain b where b: "ks_key_serialize ?ks k = Some b"
    and path: "path = kc_collection_prefix kc @ encode_path (kc_sha256 kc) (kc_bytes kc) Literal
        (item_key (be_binding ?be) [c] (be_scope ?be) b)"
    by (auto simp: encode_physical_def in_key_blob_def leaf_blob_def serde_result_def Let_def assms(1,2)
        split: sum.splits option.splits)
  have "maybe_unescape ?ks b (be_scope ?be) = b" using assms(5) by (auto simp: maybe_unescape_def)
  moreover have "be_scope ?be = [] \<or> b \<noteq> []" using assms(6) b by auto
  ultimately have "decode_key_from_physical ?be (item_key (be_binding ?be) [c] (be_scope ?be) b) = ks_key_deserialize ?ks b"
    using decode_leaf_item [of "be_scope ?be" b ?ks]
    by (simp add: decode_key_from_physical_def Let_def assms(2) strip_name_version_item)
  with assms(4) b show ?thesis
    by (simp add: decode_physical_def blob_from_physical_def path assms(1) decode_encode_path keys_round_trip_def)
qed

end
