(* ===== verification/Key_Properties.thy ===== *)
theory Key_Properties
  imports Key_Laws
begin

text \<open>
  The properties of the key encoding, and where it does not keep them: the keys at which
  a scope reads another scope's record as its own.
\<close>

section \<open>A collection of strings\<close>

text \<open>The collection the witnesses use: string keys and values, named by the scope schema given.\<close>

definition string_docs :: "string list option \<Rightarrow> (string, string) kvset" where
  "string_docs schema = with_str_keys ''docs'' ''1'' safe_str safe_str None schema"

definition user_scope :: "string \<Rightarrow> scope" where
  "user_scope ident = scope_extend [] ''user'' ident"

definition docs_backend :: "string list option \<Rightarrow> scope \<Rightarrow> (string, string) backend" where
  "docs_backend schema sc = \<lparr>be_kvset = string_docs schema, be_scope = sc,
     be_binding = native_str_binding (string_docs schema), be_batch_size = 500\<rparr>"

lemma string_docs_sep [simp]: "ks_separator (string_docs schema) = '':''"
  and string_docs_schema [simp]: "ks_scope_schema (string_docs schema) = schema"
  and string_docs_key [simp]: "ks_key_serialize (string_docs schema) = Some" "ks_key_deserialize (string_docs schema) = Some"
  and string_docs_value [simp]: "ks_value_serialize (string_docs schema) = Some" "ks_value_deserialize (string_docs schema) = Some"
  by (simp_all add: string_docs_def with_str_keys_def safe_str_def)

lemma string_docs_round_trip [simp]: "keys_round_trip (string_docs schema)"
  by (simp add: keys_round_trip_def)

lemma docs_backend_simps [simp]:
  "be_kvset (docs_backend schema sc) = string_docs schema" "be_scope (docs_backend schema sc) = sc"
  "be_binding (docs_backend schema sc) = native_str_binding (string_docs schema)"
  by (simp_all add: docs_backend_def)

lemma plain_colon: "plain_separator [CHR '':'']"
  by simp

section \<open>Round trips\<close>





text \<open>
  C14. A backend decodes every key it encodes, under any scope and binding, with or
  without a schema -- but for the empty key of a scoped backend.
\<close>

theorem backend_decodes_its_keys:
  assumes "ks_separator (be_kvset be) = [c]" "plain_separator [c]" "keys_round_trip (be_kvset be)"
    and "physical_key_blob be k = Inr p" "be_scope be = [] \<or> ks_key_serialize (be_kvset be) k \<noteq> Some []"
  shows "decode_key_from_physical be p = Some k"
  using assms by (rule decode_physical_key)

theorem backend_decodes_its_keys_witness:
  "decode_key_from_physical (docs_backend None (user_scope ''a'')) ''user:a:x%3Ay'' = Some ''x:y''"
proof (rule backend_decodes_its_keys [where c = "CHR '':''"])
  show "physical_key_blob (docs_backend None (user_scope ''a'')) ''x:y'' = Inr ''user:a:x%3Ay''" by code_simp
qed simp_all


definition docs_codec :: "string list option \<Rightarrow> scope \<Rightarrow> (string, string) key_codec" where
  "docs_codec schema sc = \<lparr>kc_backend = docs_backend schema sc, kc_collection_prefix = ''docs/'',
     kc_layout = Literal, kc_bytes = False, kc_sha256 = id\<rparr>"


section \<open>Where keys are confused\<close>

text \<open>
  A scan of the scope \<open>user=a\<close> looks for keys that start with \<open>user:a\<close>, so it meets those
  of \<open>user=ab\<close>; what follows the prefix does not start with the separator, and is taken
  for a key all the same.
\<close>

lemma sibling_scope_is_listed:
  "physical_key_blob (docs_backend (Some [''user'']) (user_scope ''ab'')) ''k'' = Inr ''user:ab:k''"
  "scan_prefix_blob (docs_backend (Some [''user'']) (user_scope ''a'')) None = Inr ''user:a''"
  "py_startswith ''user:ab:k'' ''user:a''"
  "decode_key_from_physical (docs_backend (Some [''user'']) (user_scope ''a'')) ''user:ab:k'' = Some ''b:k''"
  by code_simp+

text \<open>Without a schema, an unscoped backend writes its leaves as they are and can write a scoped one's key.\<close>

lemma unscoped_key_collides:
  "physical_key_blob (docs_backend None []) ''user:a:x'' = Inr ''user:a:x''"
  "physical_key_blob (docs_backend None (user_scope ''a'')) ''x'' = Inr ''user:a:x''"
  by code_simp+

text \<open>The codec writes a leaf as it is, and unescapes it when it reads.\<close>

lemma codec_confuses_keys:
  "encode_physical (docs_codec None (user_scope ''a'')) ''%3A'' = Inr ''docs/user%3Aa%3A%253A''"
  "decode_physical (docs_codec None (user_scope ''a'')) ''docs/user%3Aa%3A%253A'' = Some '':''"
  by code_simp+

text \<open>A scoped backend cannot list the empty key it stored.\<close>

lemma empty_key_not_listed:
  "physical_key_blob (docs_backend (Some [''user'']) (user_scope ''a'')) [] = Inr ''user:a:''"
  "decode_key_from_physical (docs_backend (Some [''user'']) (user_scope ''a'')) ''user:a:'' = None"
  by code_simp+

text \<open>A leaf that is escaped when it is written is not escaped in the prefix it is searched by.\<close>

lemma escaped_leaf_not_under_prefix:
  "physical_key_blob (docs_backend None (user_scope ''a'')) ''x:y'' = Inr ''user:a:x%3Ay''"
  "scan_prefix_blob (docs_backend None (user_scope ''a'')) (Some ''x:'') = Inr ''user:a:x:''"
  "\<not> py_startswith ''user:a:x%3Ay'' ''user:a:x:''"
  by code_simp+

end
