(* ===== verification/Memory_Backend.thy ===== *)
theory Memory_Backend
  imports Key_Encoding Store
begin

text \<open>
  The in-memory leaf, \<open>src/kvtsjl/backends/memory.py\<close>, over the key helpers of
  \<open>store/backend.py\<close>, and the store that \<open>store/leaf.py\<close> makes of it.

  The media is the root shared by the clones of a backend: its collections, the clock
  \<open>time.time()\<close> reads, and the identity of the next \<open>_Entry\<close>, which is the version of what
  is stored. The clock does not move while an operation runs. A collection that was never
  asked for is an empty one.
\<close>

section \<open>The media\<close>

record mem_entry =
  me_blob :: string
  me_expires_at :: "time option"
  me_created_at :: "time option"
  me_written_at :: "time option"
  me_ident :: token

record mem_root =
  mr_collections :: "(string, (string, mem_entry) dict) dict"
  mr_now :: time
  mr_next :: token

record ('k, 'v) memory_backend =
  mb_backend :: "('k, 'v) backend"
  mb_expiry_gc :: expiry_gc

definition bucket_name :: "('k, 'v) memory_backend \<Rightarrow> string" where
  "bucket_name mb = (case cb_collection (be_binding (mb_backend mb)) of None \<Rightarrow> [] | Some c \<Rightarrow> c)"

definition bucket :: "('k, 'v) memory_backend \<Rightarrow> mem_root \<Rightarrow> (string, mem_entry) dict" where
  "bucket mb w = (case dget (mr_collections w) (bucket_name mb) of None \<Rightarrow> [] | Some b \<Rightarrow> b)"

definition with_bucket :: "('k, 'v) memory_backend \<Rightarrow> (string, mem_entry) dict \<Rightarrow> mem_root \<Rightarrow> mem_root" where
  "with_bucket mb b w = w\<lparr>mr_collections := dput (bucket_name mb) b (mr_collections w)\<rparr>"

definition empty_root :: "time \<Rightarrow> mem_root" where
  "empty_root now = \<lparr>mr_collections = [], mr_now = now, mr_next = 0\<rparr>"

section \<open>Expiry\<close>

definition expired :: "mem_entry \<Rightarrow> time \<Rightarrow> bool" where
  "expired entry at = (case me_expires_at entry of None \<Rightarrow> False | Some t \<Rightarrow> at \<ge> t)"

definition clock_base :: "time option \<Rightarrow> time \<Rightarrow> time" where
  "clock_base created_at now = (case created_at of None \<Rightarrow> now | Some t \<Rightarrow> t)"

definition resolve_ttl_seconds :: "('k, 'v) backend \<Rightarrow> ttl_policy option \<Rightarrow> int option" where
  "resolve_ttl_seconds be ttl = ttl_seconds (case ttl of None \<Rightarrow> ks_ttl_policy (be_kvset be) | Some p \<Rightarrow> p)"

definition memory_expires_at :: "('k, 'v) memory_backend \<Rightarrow> ttl_policy option \<Rightarrow> time option \<Rightarrow> time \<Rightarrow> time option" where
  "memory_expires_at mb ttl created_at now =
     map_option (\<lambda>secs. clock_base created_at now + secs * microseconds) (resolve_ttl_seconds (mb_backend mb) ttl)"

section \<open>Reads\<close>

definition liftP :: "exn + 'a \<Rightarrow> ('w, 'a) prog" where
  "liftP r = (case r of Inl e \<Rightarrow> raiseP e | Inr a \<Rightarrow> returnP a)"

definition memory_key :: "('k, 'v) memory_backend \<Rightarrow> 'k \<Rightarrow> exn + string" where
  "memory_key mb key = physical_key_blob (mb_backend mb) key"

definition memory_value :: "('k, 'v) memory_backend \<Rightarrow> string \<Rightarrow> exn + 'v" where
  "memory_value mb blob = serde_result (ks_value_deserialize (be_kvset (mb_backend mb)) blob)"

definition live_entry :: "('k, 'v) memory_backend \<Rightarrow> 'k \<Rightarrow> (mem_root, mem_entry option) prog" where
  "live_entry mb key = bindP (liftP (memory_key mb key)) (\<lambda>pk w.
     case dget (bucket mb w) pk of
       None \<Rightarrow> (Inr None, w)
     | Some entry \<Rightarrow>
         if expired entry (mr_now w)
         then (Inr None, if mb_expiry_gc mb = LazyDelete then with_bucket mb (ddel pk (bucket mb w)) w else w)
         else (Inr (Some entry), w))"

definition memory_get :: "('k, 'v) memory_backend \<Rightarrow> 'k \<Rightarrow> (mem_root, 'v option) prog" where
  "memory_get mb key = bindP (live_entry mb key) (\<lambda>entry. case entry of
      None \<Rightarrow> returnP None
    | Some e \<Rightarrow> mapP Some (liftP (memory_value mb (me_blob e))))"

definition memory_exists :: "('k, 'v) memory_backend \<Rightarrow> 'k \<Rightarrow> (mem_root, bool) prog" where
  "memory_exists mb key = mapP (\<lambda>entry. entry \<noteq> None) (live_entry mb key)"

definition memory_batch_exists :: "('k, 'v) memory_backend \<Rightarrow> 'k list \<Rightarrow> (mem_root, 'k set) prog" where
  "memory_batch_exists mb keys =
     foldP (\<lambda>key found. mapP (\<lambda>b. if b then insert key found else found) (memory_exists mb key)) keys {}"

definition stat_of :: "mem_entry \<Rightarrow> record_stat" where
  "stat_of e = empty_stat\<lparr>rs_created_at := me_created_at e, rs_modified_at := me_written_at e,
     rs_expires_at := me_expires_at e, rs_persistent := me_expires_at e = None\<rparr>"

definition memory_stat :: "('k, 'v) memory_backend \<Rightarrow> 'k \<Rightarrow> (mem_root, record_stat option) prog" where
  "memory_stat mb key = mapP (map_option stat_of) (live_entry mb key)"

definition memory_batch_stat :: "('k, 'v) memory_backend \<Rightarrow> 'k list \<Rightarrow> (mem_root, ('k, record_stat) dict) prog" where
  "memory_batch_stat mb keys = foldP (\<lambda>key out. mapP (\<lambda>meta. case meta of
      None \<Rightarrow> out | Some m \<Rightarrow> dput key m out) (memory_stat mb key)) keys []"

definition in_chunks :: "'a list \<Rightarrow> int \<Rightarrow> ('a list list \<Rightarrow> ('w, 'b) prog) \<Rightarrow> ('w, 'b) prog" where
  "in_chunks items sz run = (case chunk_sequence items sz of None \<Rightarrow> raiseP ValueError | Some chunks \<Rightarrow> run chunks)"

definition memory_batch_get :: "('k, 'v) memory_backend \<Rightarrow> 'k list \<Rightarrow> (mem_root, ('k, 'v) dict) prog" where
  "memory_batch_get mb keys = in_chunks keys (be_batch_size (mb_backend mb)) (\<lambda>chunks.
     foldP (foldP (\<lambda>key out. mapP (\<lambda>value. case value of None \<Rightarrow> out | Some v \<Rightarrow> dput key v out) (memory_get mb key)))
       chunks [])"

definition memory_read_versioned ::
  "('k, 'v) memory_backend \<Rightarrow> 'k \<Rightarrow> ('k, 'v versioned) dict \<Rightarrow> (mem_root, ('k, 'v versioned) dict) prog" where
  "memory_read_versioned mb key out = bindP (liftP (memory_key mb key)) (\<lambda>pk w.
     case dget (bucket mb w) pk of
       None \<Rightarrow> (Inr (dput key absent out), w)
     | Some entry \<Rightarrow>
         if expired entry (mr_now w) then (Inr (dput key (Versioned None (Some (me_ident entry))) out), w)
         else mapP (\<lambda>v. dput key (Versioned (Some v) (Some (me_ident entry))) out) (liftP (memory_value mb (me_blob entry))) w)"

definition memory_batch_read_versioned ::
  "('k, 'v) memory_backend \<Rightarrow> 'k list \<Rightarrow> (mem_root, ('k, 'v versioned) dict) prog" where
  "memory_batch_read_versioned mb keys = foldP (memory_read_versioned mb) (fromkeys keys) []"

section \<open>Writes\<close>

definition memory_set :: "('k, 'v) memory_backend \<Rightarrow> 'k \<Rightarrow> 'v \<Rightarrow> write_options \<Rightarrow> (mem_root, unit) prog" where
  "memory_set mb key value o' = bindP (liftP (memory_key mb key)) (\<lambda>pk.
     bindP (liftP (serde_result (ks_value_serialize (be_kvset (mb_backend mb)) value))) (\<lambda>blob w.
       let entry = \<lparr>me_blob = blob,
             me_expires_at = memory_expires_at mb (wo_ttl o') (wo_created_at o') (mr_now w),
             me_created_at = Some (clock_base (wo_created_at o') (mr_now w)),
             me_written_at = Some (mr_now w), me_ident = mr_next w\<rparr>
       in (Inr (), (with_bucket mb (dput pk entry (bucket mb w)) w)\<lparr>mr_next := Suc (mr_next w)\<rparr>)))"

definition memory_batch_set ::
  "('k, 'v) memory_backend \<Rightarrow> ('k, 'v) dict \<Rightarrow> write_options \<Rightarrow> (mem_root, unit) prog" where
  "memory_batch_set mb items o' = in_chunks items (be_batch_size (mb_backend mb))
     (iterP (iterP (\<lambda>(key, value). memory_set mb key value o')))"

text \<open>\<open>bucket.pop(pk, None) is not None\<close>.\<close>

definition pop_entry :: "('k, 'v) memory_backend \<Rightarrow> string \<Rightarrow> (mem_root, bool) prog" where
  "pop_entry mb pk = (\<lambda>w. case dget (bucket mb w) pk of
      None \<Rightarrow> (Inr False, w)
    | Some _ \<Rightarrow> (Inr True, with_bucket mb (ddel pk (bucket mb w)) w))"

definition memory_delete :: "('k, 'v) memory_backend \<Rightarrow> 'k \<Rightarrow> (mem_root, bool) prog" where
  "memory_delete mb key = bindP (liftP (memory_key mb key)) (pop_entry mb)"

definition memory_batch_delete :: "('k, 'v) memory_backend \<Rightarrow> 'k list \<Rightarrow> (mem_root, int) prog" where
  "memory_batch_delete mb keys = in_chunks keys (be_batch_size (mb_backend mb)) (\<lambda>chunks.
     foldP (foldP (\<lambda>key n. mapP (\<lambda>b. if b then n + 1 else n) (memory_delete mb key))) chunks 0)"

definition memory_write_one ::
  "('k, 'v) memory_backend \<Rightarrow> ttl_policy option \<Rightarrow> 'k \<times> 'v cond_write \<Rightarrow> 'k set \<Rightarrow> (mem_root, 'k set) prog" where
  "memory_write_one mb ttl = (\<lambda>(key, cw) written. bindP (liftP (memory_key mb key)) (\<lambda>pk w.
     if map_option me_ident (dget (bucket mb w) pk) \<noteq> seen_version (cw_seen cw) then (Inr written, w)
     else case cw_change cw of
       Remove \<Rightarrow> mapP (\<lambda>b. if b then insert key written else written) (pop_entry mb pk) w
     | Put value \<Rightarrow> mapP (\<lambda>_. insert key written)
         (memory_set mb key value \<lparr>wo_ttl = ttl, wo_created_at = cw_created_at cw\<rparr>) w))"

definition memory_batch_write_if_unchanged ::
  "('k, 'v) memory_backend \<Rightarrow> ('k, 'v cond_write) dict \<Rightarrow> ttl_policy option \<Rightarrow> (mem_root, 'k set) prog" where
  "memory_batch_write_if_unchanged mb writes ttl = foldP (memory_write_one mb ttl) writes {}"

section \<open>Scans and collection\<close>

text \<open>
  The generator, drained: each physical key of the collection in order, looked up again
  when it is reached. An expired entry is dropped before its key is compared with the
  prefix.
\<close>

definition memory_scan_one ::
  "('k, 'v) memory_backend \<Rightarrow> string \<Rightarrow> bool \<Rightarrow> string \<Rightarrow> ('k \<times> 'v option) list \<Rightarrow> (mem_root, ('k \<times> 'v option) list) prog" where
  "memory_scan_one mb pre include_values pk rows = (\<lambda>w. case dget (bucket mb w) pk of
      None \<Rightarrow> (Inr rows, w)
    | Some entry \<Rightarrow>
        if expired entry (mr_now w)
        then (Inr rows, if mb_expiry_gc mb = LazyDelete then with_bucket mb (ddel pk (bucket mb w)) w else w)
        else if \<not> py_startswith pk pre then (Inr rows, w)
        else case decode_key_from_physical (mb_backend mb) pk of
          None \<Rightarrow> (Inr rows, w)
        | Some key \<Rightarrow> if include_values
            then mapP (\<lambda>v. rows @ [(key, Some v)]) (liftP (memory_value mb (me_blob entry))) w
            else (Inr (rows @ [(key, None)]), w))"

definition memory_scan_entries ::
  "('k, 'v) memory_backend \<Rightarrow> 'k option \<Rightarrow> bool \<Rightarrow> (mem_root, ('k \<times> 'v option) list) prog" where
  "memory_scan_entries mb key_prefix include_values = bindP (liftP (scan_prefix_blob (mb_backend mb) key_prefix)) (\<lambda>pre w.
     foldP (memory_scan_one mb pre include_values) (dkeys (bucket mb w)) [] w)"

fun expired_among :: "('k, 'v) memory_backend \<Rightarrow> string \<Rightarrow> time \<Rightarrow> int \<Rightarrow> (string, mem_entry) dict \<Rightarrow> 'k list \<Rightarrow> 'k list" where
  "expired_among mb pre at limit [] found = found"
| "expired_among mb pre at limit ((pk, entry) # entries) found =
     (if int (length found) \<ge> limit then found
      else if \<not> expired entry at \<or> \<not> py_startswith pk pre then expired_among mb pre at limit entries found
      else case decode_key_from_physical (mb_backend mb) pk of
        None \<Rightarrow> expired_among mb pre at limit entries found
      | Some key \<Rightarrow> expired_among mb pre at limit entries (found @ [key]))"

definition memory_expired_keys :: "('k, 'v) memory_backend \<Rightarrow> time option \<Rightarrow> int \<Rightarrow> (mem_root, 'k list) prog" where
  "memory_expired_keys mb now limit = (if limit < 1 then raiseP ValueError
     else bindP (liftP (scan_prefix_blob (mb_backend mb) None)) (\<lambda>pre w.
       (Inr (expired_among mb pre (clock_base now (mr_now w)) limit (bucket mb w) []), w)))"

definition memory_gc_expired_keys :: "('k, 'v) memory_backend \<Rightarrow> int \<Rightarrow> (mem_root, 'k list) prog" where
  "memory_gc_expired_keys mb max_entries = (if max_entries < 1 then raiseP ValueError
     else bindP (memory_expired_keys mb None max_entries) (\<lambda>keys.
       if keys \<noteq> [] then mapP (\<lambda>_. keys) (memory_batch_delete mb keys) else returnP keys))"

section \<open>The store\<close>

definition memory_keymap :: "('k, 'v) memory_backend \<Rightarrow> (mem_root, 'k, 'v) keymap" where
  "memory_keymap mb = \<lparr>
     km_get = memory_get mb, km_batch_get = memory_batch_get mb,
     km_exists = memory_exists mb, km_batch_exists = memory_batch_exists mb,
     km_stat = memory_stat mb, km_batch_stat = memory_batch_stat mb,
     km_batch_read_versioned = memory_batch_read_versioned mb,
     km_batch_write_if_unchanged = memory_batch_write_if_unchanged mb,
     km_set = memory_set mb, km_batch_set = memory_batch_set mb,
     km_delete = memory_delete mb, km_batch_delete = memory_batch_delete mb,
     km_unset = memory_delete mb, km_batch_unset = memory_batch_delete mb,
     km_creates_entries = True\<rparr>"

text \<open>\<open>LeafKvStore\<close>: a leaf has no fallback and no deferred work of its own.\<close>

definition memory_store :: "('k, 'v) memory_backend \<Rightarrow> (mem_root, 'k, 'v) store" where
  "memory_store mb = \<lparr>
     st_keymap = memory_keymap mb,
     st_batch_size = be_batch_size (mb_backend mb),
     st_supports_write_clock = True,
     st_writes_are_deferred = False,
     st_gc_expired_keys = memory_gc_expired_keys mb,
     st_scan_keys = \<lambda>_. mapP (map fst) (memory_scan_entries mb None False),
     st_missing_pages = \<lambda>_. returnP [],
     st_pending_index_syncs = \<lambda>_. 0,
     st_flush_index_syncs = returnP (),
     st_discard_index_syncs = returnP ()\<rparr>"

end
