(* ===== verification/Memory_Laws.thy ===== *)
theory Memory_Laws
  imports Memory_Backend Composition_Writes Key_Properties
begin

text \<open>
  The in-memory leaf keeps the contracts of a keymap: what it holds is what is stored
  under the physical key, deserialized, unless it has expired; the version of an entry is
  the entry's identity, expired or not.
\<close>

section \<open>What a collection holds\<close>

definition value_of :: "('k, 'v) memory_backend \<Rightarrow> string \<Rightarrow> 'v option" where
  "value_of mb blob = ks_value_deserialize (be_kvset (mb_backend mb)) blob"

definition stored_at :: "('k, 'v) memory_backend \<Rightarrow> mem_root \<Rightarrow> 'k \<Rightarrow> mem_entry option" where
  "stored_at mb w k = (case memory_key mb k of Inl _ \<Rightarrow> None | Inr p \<Rightarrow> dget (bucket mb w) p)"

definition live_at :: "('k, 'v) memory_backend \<Rightarrow> mem_root \<Rightarrow> 'k \<Rightarrow> mem_entry option" where
  "live_at mb w k = (case stored_at mb w k of None \<Rightarrow> None | Some e \<Rightarrow> if expired e (mr_now w) then None else Some e)"

definition memory_holds :: "('k, 'v) memory_backend \<Rightarrow> mem_root \<Rightarrow> 'k \<Rightarrow> 'v option" where
  "memory_holds mb w k = (case live_at mb w k of None \<Rightarrow> None | Some e \<Rightarrow> value_of mb (me_blob e))"

definition memory_ver :: "('k, 'v) memory_backend \<Rightarrow> mem_root \<Rightarrow> 'k \<Rightarrow> token option" where
  "memory_ver mb w k = map_option me_ident (stored_at mb w k)"

definition memory_inv :: "('k, 'v) memory_backend \<Rightarrow> mem_root \<Rightarrow> bool" where
  "memory_inv mb w \<longleftrightarrow> (\<forall>k e. stored_at mb w k = Some e \<longrightarrow> me_ident e < mr_next w \<and> value_of mb (me_blob e) \<noteq> None)"

text \<open>Reached by writes, of anyone, while the clock stands still.\<close>

definition memory_evolves :: "('k, 'v) memory_backend \<Rightarrow> mem_root \<Rightarrow> mem_root \<Rightarrow> bool" where
  "memory_evolves mb w w' \<longleftrightarrow> mr_now w' = mr_now w \<and> mr_next w \<le> mr_next w'
     \<and> (\<forall>k e. stored_at mb w' k = Some e \<longrightarrow> me_ident e < mr_next w \<longrightarrow> stored_at mb w k = Some e)"

definition memory_live :: "('k, 'v) memory_backend \<Rightarrow> mem_root \<Rightarrow> ttl_policy option \<Rightarrow> time option \<Rightarrow> bool" where
  "memory_live mb w ttl clock = (case memory_expires_at mb ttl clock (mr_now w) of None \<Rightarrow> True | Some t \<Rightarrow> mr_now w < t)"

lemma bucket_with_bucket [simp]:
  "bucket mb (with_bucket mb b w) = b" "bucket mb (w\<lparr>mr_next := n\<rparr>) = bucket mb w"
  "mr_now (with_bucket mb b w) = mr_now w" "mr_next (with_bucket mb b w) = mr_next w"
  by (simp_all add: bucket_def with_bucket_def)

lemma stored_at_mr_next [simp]: "stored_at mb (w\<lparr>mr_next := n\<rparr>) = stored_at mb w"
  by (rule ext) (simp add: stored_at_def split: sum.splits)

lemma memory_evolves_refl: "memory_evolves mb w w"
  by (simp add: memory_evolves_def)

lemma memory_evolves_trans: "memory_evolves mb w1 w2 \<Longrightarrow> memory_evolves mb w2 w3 \<Longrightarrow> memory_evolves mb w1 w3"
  by (auto simp: memory_evolves_def)

lemma memory_inv_empty: "memory_inv mb (empty_root now)"
  by (simp add: memory_inv_def stored_at_def bucket_def empty_root_def split: sum.splits)

lemma foldP_append: "foldP f (xs @ ys) s = bindP (foldP f xs s) (foldP f ys)"
  by (induction xs arbitrary: s) (auto simp: bindP_def fun_eq_iff split: prod.splits sum.splits)

lemma foldP_concat: "foldP (foldP f) xss = foldP f (concat xss)"
  by (induction xss; rule ext; simp add: foldP_append)

lemma iterP_concat: "iterP (iterP f) xss = iterP f (concat xss)"
  by (induction xss) (simp_all add: iterP_append)

lemma in_chunks_run:
  assumes "1 \<le> sz" "\<And>chunks. concat chunks = items \<Longrightarrow> run chunks = r"
  shows "in_chunks items sz run = r"
  using assms concat_chunks_from [of "nat sz" items 0] by (simp add: in_chunks_def chunk_sequence_def)

section \<open>The steps of a collection\<close>

text \<open>The prefix of a scope, which every physical key of the scope begins with.\<close>

definition scope_blob :: "('k, 'v) memory_backend \<Rightarrow> string" where
  "scope_blob mb = scope_prefix (be_binding (mb_backend mb)) (ks_separator (be_kvset (mb_backend mb))) (be_scope (mb_backend mb)) None"

text \<open>A collection whose keys are told apart and whose values come back.\<close>

locale memory_collection =
  fixes mb :: "('k, 'v) memory_backend"
  assumes key_law: "\<exists>p. memory_key mb k = Inr p"
    and key_inj: "\<lbrakk>memory_key mb k = Inr p; memory_key mb k' = Inr p\<rbrakk> \<Longrightarrow> k = k'"
    and value_law: "\<exists>b. ks_value_serialize (be_kvset (mb_backend mb)) v = Some b \<and> value_of mb b = Some v"
    and batch_law: "1 \<le> be_batch_size (mb_backend mb)"
    and scope_law: "memory_key mb k = Inr p \<Longrightarrow> py_startswith p (scope_blob mb)"
begin

lemma stored_put: "memory_key mb k = Inr p \<Longrightarrow> stored_at mb (with_bucket mb (dput p e (bucket mb w)) w) = (stored_at mb w)(k \<mapsto> e)"
proof
  fix j
  assume p: "memory_key mb k = Inr p"
  from key_law [of j] obtain q where q: "memory_key mb j = Inr q" by blast
  from p q key_inj [OF p, of j] show "stored_at mb (with_bucket mb (dput p e (bucket mb w)) w) j = ((stored_at mb w)(k := Some e)) j"
    by (cases "q = p") (auto simp: stored_at_def)
qed

lemma stored_del: "memory_key mb k = Inr p \<Longrightarrow> stored_at mb (with_bucket mb (ddel p (bucket mb w)) w) = (stored_at mb w)(k := None)"
proof
  fix j
  assume p: "memory_key mb k = Inr p"
  from key_law [of j] obtain q where q: "memory_key mb j = Inr q" by blast
  from p q key_inj [OF p, of j] show "stored_at mb (with_bucket mb (ddel p (bucket mb w)) w) j = ((stored_at mb w)(k := None)) j"
    by (cases "q = p") (auto simp: stored_at_def)
qed

text \<open>Dropping an entry, which whoever holds its version sees.\<close>

lemma dropped:
  assumes "memory_inv mb w" "stored_at mb w' = (stored_at mb w)(k := None)" "mr_now w' = mr_now w" "mr_next w' = mr_next w"
  shows "memory_inv mb w'" "memory_evolves mb w w'" "memory_holds mb w' = (memory_holds mb w)(k := None)"
    "memory_ver mb w' = (memory_ver mb w)(k := None)"
  using assms by (auto simp: memory_inv_def memory_evolves_def memory_holds_def memory_ver_def live_at_def
    split: option.splits if_splits)

lemma live_entry_law:
  assumes "memory_inv mb w"
  shows "\<exists>w'. live_entry mb k w = (Inr (live_at mb w k), w') \<and> memory_inv mb w' \<and> memory_holds mb w' = memory_holds mb w"
proof -
  from key_law [of k] obtain p where p: "memory_key mb k = Inr p" by blast
  have stored: "stored_at mb w k = dget (bucket mb w) p" using p by (simp add: stored_at_def)
  show ?thesis
  proof (cases "\<exists>e. stored_at mb w k = Some e \<and> expired e (mr_now w)")
    case True
    then obtain e where e: "stored_at mb w k = Some e" "expired e (mr_now w)" by blast
    have none: "memory_holds mb w k = None" using e by (simp add: memory_holds_def live_at_def)
    let ?w = "with_bucket mb (ddel p (bucket mb w)) w"
    have "memory_inv mb ?w" "memory_holds mb ?w = memory_holds mb w"
      using dropped [OF assms stored_del [OF p]] none by (simp_all add: fun_upd_idem)
    with e stored p assms show ?thesis
      by (simp add: live_entry_def liftP_def bindP_run live_at_def)
  next
    case False
    with stored p assms show ?thesis
      by (cases "dget (bucket mb w) p") (simp_all add: live_entry_def liftP_def bindP_run live_at_def)
  qed
qed

lemma live_readable: "memory_inv mb w \<Longrightarrow> live_at mb w k = Some e \<Longrightarrow> \<exists>v. value_of mb (me_blob e) = Some v"
  by (auto simp: memory_inv_def live_at_def split: option.splits if_splits)

lemma memory_value_run: "value_of mb b = Some v \<Longrightarrow> liftP (memory_value mb b) w = (Inr v, w)"
  by (simp add: liftP_def memory_value_def value_of_def serde_result_def)

lemma get_step:
  assumes "memory_inv mb w"
  shows "\<exists>w'. memory_get mb k w = (Inr (memory_holds mb w k), w') \<and> memory_inv mb w' \<and> memory_holds mb w' = memory_holds mb w"
proof -
  from live_entry_law [OF assms, of k] obtain w' where
    w': "live_entry mb k w = (Inr (live_at mb w k), w')" "memory_inv mb w'" "memory_holds mb w' = memory_holds mb w" by blast
  show ?thesis
  proof (cases "live_at mb w k")
    case None
    with w' show ?thesis by (simp add: memory_get_def bindP_run memory_holds_def)
  next
    case (Some e)
    from live_readable [OF assms Some] obtain v where v: "value_of mb (me_blob e) = Some v" by blast
    with Some w' memory_value_run [OF v, of w'] show ?thesis
      by (simp add: memory_get_def bindP_run mapP_run memory_holds_def)
  qed
qed

lemma live_iff_holds: "memory_inv mb w \<Longrightarrow> live_at mb w k \<noteq> None \<longleftrightarrow> memory_holds mb w k \<noteq> None"
  using live_readable [of w k] by (auto simp: memory_holds_def split: option.splits)

lemma exists_step:
  assumes "memory_inv mb w"
  shows "\<exists>w'. memory_exists mb k w = (Inr (memory_holds mb w k \<noteq> None), w') \<and> memory_inv mb w'
    \<and> memory_holds mb w' = memory_holds mb w"
  using live_entry_law [OF assms, of k] live_iff_holds [OF assms, of k] by (auto simp: memory_exists_def mapP_run)

lemma batch_exists_acc:
  assumes "memory_inv mb w"
  shows "\<exists>w'. foldP (\<lambda>key found. mapP (\<lambda>b. if b then insert key found else found) (memory_exists mb key)) ks found w
      = (Inr (found \<union> {k \<in> set ks. memory_holds mb w k \<noteq> None}), w') \<and> memory_inv mb w' \<and> memory_holds mb w' = memory_holds mb w"
  using assms
proof (induction ks arbitrary: w found)
  case (Cons k ks)
  from exists_step [OF Cons.prems, of k] obtain w1 where
    w1: "memory_exists mb k w = (Inr (memory_holds mb w k \<noteq> None), w1)" "memory_inv mb w1" "memory_holds mb w1 = memory_holds mb w" by blast
  let ?found = "if memory_holds mb w k \<noteq> None then insert k found else found"
  have "?found \<union> {j \<in> set ks. memory_holds mb w j \<noteq> None} = found \<union> {j \<in> set (k # ks). memory_holds mb w j \<noteq> None}" by auto
  with Cons.IH [OF w1(2), of ?found] w1 show ?case by (simp add: bindP_run mapP_run)
qed simp

lemma stat_step:
  assumes "memory_inv mb w"
  shows "\<exists>w'. memory_stat mb k w = (Inr (map_option stat_of (live_at mb w k)), w') \<and> memory_inv mb w'
    \<and> memory_holds mb w' = memory_holds mb w"
  using live_entry_law [OF assms, of k] by (auto simp: memory_stat_def mapP_run)

lemma batch_stat_acc:
  assumes "memory_inv mb w"
  shows "\<exists>d w'. foldP (\<lambda>key out. mapP (\<lambda>meta. case meta of None \<Rightarrow> out | Some m \<Rightarrow> dput key m out) (memory_stat mb key)) ks out w
      = (Inr d, w') \<and> memory_inv mb w' \<and> memory_holds mb w' = memory_holds mb w"
  using assms
proof (induction ks arbitrary: w out)
  case (Cons k ks)
  from stat_step [OF Cons.prems, of k] obtain w1 where
    w1: "memory_stat mb k w = (Inr (map_option stat_of (live_at mb w k)), w1)" "memory_inv mb w1" "memory_holds mb w1 = memory_holds mb w" by blast
  from Cons.IH [OF w1(2)] w1(1,3) show ?case by (simp add: bindP_run mapP_run)
qed simp

section \<open>Writes\<close>

definition written_entry :: "mem_root \<Rightarrow> write_options \<Rightarrow> string \<Rightarrow> mem_entry" where
  "written_entry w opts b = \<lparr>me_blob = b, me_expires_at = memory_expires_at mb (wo_ttl opts) (wo_created_at opts) (mr_now w),
     me_created_at = Some (clock_base (wo_created_at opts) (mr_now w)), me_written_at = Some (mr_now w), me_ident = mr_next w\<rparr>"

lemma set_step:
  assumes "memory_inv mb w"
  shows "\<exists>w'. memory_set mb k v opts w = (Inr (), w') \<and> memory_inv mb w' \<and> memory_evolves mb w w'
    \<and> memory_holds mb w' = (memory_holds mb w)(k := if memory_live mb w (wo_ttl opts) (wo_created_at opts) then Some v else None)
    \<and> memory_ver mb w' = (memory_ver mb w)(k \<mapsto> mr_next w)"
proof -
  from key_law [of k] obtain p where p: "memory_key mb k = Inr p" by blast
  from value_law [of v] obtain b where
    b: "ks_value_serialize (be_kvset (mb_backend mb)) v = Some b" "value_of mb b = Some v" by blast
  let ?e = "written_entry w opts b"
  let ?w = "(with_bucket mb (dput p ?e (bucket mb w)) w)\<lparr>mr_next := Suc (mr_next w)\<rparr>"
  have run: "memory_set mb k v opts w = (Inr (), ?w)"
    using p b by (simp add: memory_set_def bindP_run liftP_def serde_result_def written_entry_def)
  have stored: "stored_at mb ?w = (stored_at mb w)(k \<mapsto> ?e)" using stored_put [OF p] by simp
  have now: "mr_now ?w = mr_now w" "mr_next ?w = Suc (mr_next w)" by simp_all
  have live: "expired ?e (mr_now w) \<longleftrightarrow> \<not> memory_live mb w (wo_ttl opts) (wo_created_at opts)"
    by (auto simp: expired_def memory_live_def written_entry_def split: option.splits)
  have e: "me_ident ?e = mr_next w" "me_blob ?e = b" by (simp_all add: written_entry_def)
  have "memory_inv mb ?w"
    using assms b(2) e unfolding memory_inv_def stored now by (auto simp: less_Suc_eq)
  moreover have "memory_evolves mb w ?w"
    using e unfolding memory_evolves_def stored now by auto
  moreover have "memory_holds mb ?w = (memory_holds mb w)(k := if memory_live mb w (wo_ttl opts) (wo_created_at opts) then Some v else None)"
    using b(2) e live unfolding memory_holds_def live_at_def stored now by (auto simp: fun_eq_iff)
  moreover have "memory_ver mb ?w = (memory_ver mb w)(k \<mapsto> mr_next w)"
    using e unfolding memory_ver_def stored by (auto simp: fun_eq_iff)
  ultimately show ?thesis using run by blast
qed

lemma pop_step:
  assumes "memory_inv mb w" "memory_key mb k = Inr p"
  shows "\<exists>w'. pop_entry mb p w = (Inr (memory_ver mb w k \<noteq> None), w') \<and> memory_inv mb w' \<and> memory_evolves mb w w'
    \<and> memory_holds mb w' = (memory_holds mb w)(k := None) \<and> memory_ver mb w' = (memory_ver mb w)(k := None)"
proof (cases "stored_at mb w k")
  case None
  with assms show ?thesis
    by (simp add: pop_entry_def memory_ver_def stored_at_def memory_holds_def live_at_def memory_evolves_refl fun_upd_idem)
next
  case (Some e)
  then have "dget (bucket mb w) p = Some e" using assms(2) by (simp add: stored_at_def)
  with Some dropped [OF assms(1) stored_del [OF assms(2)]] show ?thesis
    by (simp add: pop_entry_def memory_ver_def)
qed

lemma delete_step:
  assumes "memory_inv mb w"
  shows "\<exists>w'. memory_delete mb k w = (Inr (memory_ver mb w k \<noteq> None), w') \<and> memory_inv mb w' \<and> memory_evolves mb w w'
    \<and> memory_holds mb w' = (memory_holds mb w)(k := None) \<and> memory_ver mb w' = (memory_ver mb w)(k := None)"
proof -
  from key_law [of k] obtain p where p: "memory_key mb k = Inr p" by blast
  from pop_step [OF assms p] show ?thesis by (simp add: memory_delete_def bindP_run liftP_def p)
qed

lemma holds_ver: "memory_holds mb w k \<noteq> None \<Longrightarrow> memory_ver mb w k \<noteq> None"
  by (auto simp: memory_holds_def live_at_def memory_ver_def split: option.splits)

end

section \<open>The contracts\<close>

context memory_collection
begin

lemma batch_get_run: "memory_batch_get mb ks = default_batch_get (memory_get mb) ks"
  unfolding memory_batch_get_def
  by (rule in_chunks_run [OF batch_law]) (simp add: foldP_concat default_batch_get_def mapP_def)

lemma read_versioned_step:
  assumes "memory_inv mb w"
  shows "memory_read_versioned mb k out w = (Inr (dput k (Versioned (memory_holds mb w k) (memory_ver mb w k)) out), w)"
proof -
  from key_law [of k] obtain p where p: "memory_key mb k = Inr p" by blast
  have stored: "stored_at mb w k = dget (bucket mb w) p" using p by (simp add: stored_at_def)
  show ?thesis
  proof (cases "stored_at mb w k")
    case None
    with p stored show ?thesis
      by (simp add: memory_read_versioned_def liftP_def bindP_run memory_holds_def live_at_def memory_ver_def absent_def)
  next
    case (Some e)
    with assms obtain v where v: "value_of mb (me_blob e) = Some v" by (auto simp: memory_inv_def)
    note val = memory_value_run [OF v, of w]
    from Some p stored v val show ?thesis
      by (cases "expired e (mr_now w)")
        (simp_all add: memory_read_versioned_def bindP_run mapP_run liftP_def memory_holds_def live_at_def memory_ver_def)
  qed
qed

lemma read_versioned_acc:
  "memory_inv mb w \<Longrightarrow> \<exists>d. foldP (memory_read_versioned mb) ks out w = (Inr d, w)
     \<and> (\<forall>k. dget d k = (if k \<in> set ks then Some (Versioned (memory_holds mb w k) (memory_ver mb w k)) else dget out k))"
proof (induction ks arbitrary: out)
  case (Cons k ks)
  from Cons.IH [OF Cons.prems, of "dput k (Versioned (memory_holds mb w k) (memory_ver mb w k)) out"]
  show ?case by (auto simp: bindP_run read_versioned_step [OF Cons.prems])
qed simp

lemma write_one_step:
  assumes "memory_inv mb w"
  shows "\<exists>w'. memory_write_one mb ttl (k, cw) written w
      = (Inr (if k \<in> cas_wins (memory_ver mb w) [(k, cw)] then insert k written else written), w')
    \<and> memory_inv mb w' \<and> memory_evolves mb w w'
    \<and> (\<forall>j. j \<noteq> k \<or> k \<notin> cas_wins (memory_ver mb w) [(k, cw)] \<longrightarrow>
          memory_holds mb w' j = memory_holds mb w j \<and> memory_ver mb w' j = memory_ver mb w j)
    \<and> (k \<in> cas_wins (memory_ver mb w) [(k, cw)] \<longrightarrow> memory_holds mb w' k = (case cw_change cw of
          Remove \<Rightarrow> None | Put v \<Rightarrow> if memory_live mb w ttl (cw_created_at cw) then Some v else None))"
proof -
  from key_law [of k] obtain p where p: "memory_key mb k = Inr p" by blast
  have ver: "map_option me_ident (dget (bucket mb w) p) = memory_ver mb w k" using p by (simp add: memory_ver_def stored_at_def)
  show ?thesis
  proof (cases "memory_ver mb w k = seen_version (cw_seen cw)")
    case False
    then show ?thesis using assms p ver
      by (auto simp: memory_write_one_def bindP_run liftP_def cas_wins_def memory_evolves_refl)
  next
    case seen: True
    show ?thesis
    proof (cases "cw_change cw")
      case (Put v)
      let ?o = "\<lparr>wo_ttl = ttl, wo_created_at = cw_created_at cw\<rparr>"
      from set_step [OF assms, of k v ?o] obtain w' where w': "memory_set mb k v ?o w = (Inr (), w')"
        "memory_inv mb w'" "memory_evolves mb w w'"
        "memory_holds mb w' = (memory_holds mb w)(k := if memory_live mb w ttl (cw_created_at cw) then Some v else None)"
        "memory_ver mb w' = (memory_ver mb w)(k \<mapsto> mr_next w)" by auto
      have "memory_write_one mb ttl (k, cw) written w = (Inr (insert k written), w')"
        using Put seen ver w'(1) p by (simp add: memory_write_one_def bindP_run liftP_def mapP_run)
      with Put seen w'(2-) show ?thesis by (auto simp: cas_wins_def)
    next
      case Remove
      from pop_step [OF assms p] obtain w' where w': "pop_entry mb p w = (Inr (memory_ver mb w k \<noteq> None), w')"
        "memory_inv mb w'" "memory_evolves mb w w'" "memory_holds mb w' = (memory_holds mb w)(k := None)"
        "memory_ver mb w' = (memory_ver mb w)(k := None)" by auto
      have one: "memory_write_one mb ttl (k, cw) written w
          = (Inr (if memory_ver mb w k \<noteq> None then insert k written else written), w')"
        using Remove seen ver w'(1) p by (simp add: memory_write_one_def bindP_run liftP_def mapP_run)
      have wins: "k \<in> cas_wins (memory_ver mb w) [(k, cw)] \<longleftrightarrow> memory_ver mb w k \<noteq> None"
        using Remove seen by (auto simp: cas_wins_def)
      have "memory_holds mb w k = None" if "memory_ver mb w k = None" using that holds_ver by blast
      with one Remove w'(2-5) show ?thesis unfolding wins by (intro exI [of _ w']) simp
    qed
  qed
qed

lemma live_evolves: "memory_evolves mb w w' \<Longrightarrow> memory_live mb w' ttl clock \<longleftrightarrow> memory_live mb w ttl clock"
  by (auto simp: memory_evolves_def memory_live_def split: option.splits)

lemma write_all_step:
  assumes "memory_inv mb w" "dict_ok ws"
  shows "\<exists>w'. foldP (memory_write_one mb ttl) ws written w = (Inr (written \<union> cas_wins (memory_ver mb w) ws), w')
    \<and> memory_inv mb w' \<and> memory_evolves mb w w'
    \<and> (\<forall>k. k \<notin> cas_wins (memory_ver mb w) ws \<longrightarrow> memory_holds mb w' k = memory_holds mb w k \<and> memory_ver mb w' k = memory_ver mb w k)
    \<and> (\<forall>k cw. k \<in> cas_wins (memory_ver mb w) ws \<longrightarrow> dget ws k = Some cw \<longrightarrow> memory_holds mb w' k = (case cw_change cw of
          Remove \<Rightarrow> None | Put v \<Rightarrow> if memory_live mb w ttl (cw_created_at cw) then Some v else None))"
  by (rule cas_fold [where f = "memory_write_one mb ttl" and evolves = "memory_evolves mb"
        and after = "\<lambda>w cw. case cw_change cw of Remove \<Rightarrow> None
          | Put v \<Rightarrow> if memory_live mb w ttl (cw_created_at cw) then Some v else None",
        OF write_one_step memory_evolves_refl memory_evolves_trans _ assms])
    (auto simp: live_evolves split: change.splits)

lemma same_version_same_value:
  assumes "memory_inv mb w" "memory_evolves mb w w'" "memory_ver mb w' k = memory_ver mb w k"
  shows "memory_holds mb w' k = memory_holds mb w k"
proof (cases "stored_at mb w' k")
  case None
  with assms(3) show ?thesis by (simp add: memory_ver_def memory_holds_def live_at_def)
next
  case (Some e)
  with assms(3) obtain e' where e': "stored_at mb w k = Some e'" "me_ident e = me_ident e'"
    by (cases "stored_at mb w k") (auto simp: memory_ver_def)
  with assms(1) have "me_ident e < mr_next w" by (auto simp: memory_inv_def)
  with assms(2) Some have "stored_at mb w k = Some e" "mr_now w' = mr_now w" by (auto simp: memory_evolves_def)
  with Some show ?thesis by (simp add: memory_holds_def live_at_def)
qed

end

sublocale memory_collection \<subseteq> reads: point_reads "memory_get mb" "memory_holds mb" "memory_inv mb"
  by unfold_locales (rule get_step)

sublocale memory_collection \<subseteq> km: stat_keymap "memory_keymap mb" "memory_holds mb" "memory_inv mb"
proof unfold_locales
  fix w and ks :: "'k list" and k :: 'k
  assume inv: "memory_inv mb w"
  show "\<exists>w'. km_get (memory_keymap mb) k w = (Inr (memory_holds mb w k), w') \<and> memory_inv mb w' \<and> memory_holds mb w' = memory_holds mb w"
    using get_step [OF inv] by (simp add: memory_keymap_def)
  show "\<exists>d w'. km_batch_get (memory_keymap mb) ks w = (Inr d, w') \<and> memory_inv mb w' \<and> memory_holds mb w' = memory_holds mb w
      \<and> dict_ok d \<and> (\<forall>k. dget d k = (if k \<in> set ks then memory_holds mb w k else None))"
    using reads.default_batch_get_law [OF inv] by (simp add: memory_keymap_def batch_get_run)
  show "\<exists>w'. km_exists (memory_keymap mb) k w = (Inr (memory_holds mb w k \<noteq> None), w') \<and> memory_inv mb w'
      \<and> memory_holds mb w' = memory_holds mb w"
    using exists_step [OF inv] by (simp add: memory_keymap_def)
  show "\<exists>w'. km_batch_exists (memory_keymap mb) ks w = (Inr {k \<in> set ks. memory_holds mb w k \<noteq> None}, w') \<and> memory_inv mb w'
      \<and> memory_holds mb w' = memory_holds mb w"
    using batch_exists_acc [OF inv, of ks "{}"] by (simp add: memory_keymap_def memory_batch_exists_def)
  show "\<exists>d w'. km_batch_stat (memory_keymap mb) ks w = (Inr d, w') \<and> memory_inv mb w' \<and> memory_holds mb w' = memory_holds mb w"
    using batch_stat_acc [OF inv, of ks "[]"] by (simp add: memory_keymap_def memory_batch_stat_def)
qed

sublocale memory_collection \<subseteq> km: clearing_keymap "memory_keymap mb" "memory_holds mb" "memory_inv mb" "memory_live mb"
proof unfold_locales
  fix w k and v and opts :: write_options
  assume inv: "memory_inv mb w"
  show "\<exists>w'. km_set (memory_keymap mb) k v opts w = (Inr (), w') \<and> memory_inv mb w' \<and> memory_holds mb w' = (memory_holds mb w)(k \<mapsto> v)"
    if "memory_live mb w (wo_ttl opts) (wo_created_at opts)"
    using set_step [OF inv, of k v opts] that by (auto simp: memory_keymap_def)
  note gone = delete_step [OF inv, of k] holds_ver [of w k]
  show "\<exists>b w'. km_delete (memory_keymap mb) k w = (Inr b, w') \<and> memory_inv mb w'
      \<and> memory_holds mb w' = (memory_holds mb w)(k := None) \<and> (memory_holds mb w k \<noteq> None \<longrightarrow> b)"
    using gone by (auto simp: memory_keymap_def)
  show "\<exists>b w'. km_unset (memory_keymap mb) k w = (Inr b, w') \<and> memory_inv mb w'
      \<and> memory_holds mb w' = (memory_holds mb w)(k := None) \<and> (memory_holds mb w k \<noteq> None \<longrightarrow> b)"
    using gone by (auto simp: memory_keymap_def)
qed

sublocale memory_collection \<subseteq> km: conditional_keymap "memory_keymap mb" "memory_holds mb" "memory_inv mb" "memory_live mb"
  "memory_ver mb" "memory_evolves mb"
proof unfold_locales
  fix w w' w'' k and ks :: "'k list" and ws :: "('k, 'v cond_write) dict" and ttl clock
  show "memory_evolves mb w w" by (rule memory_evolves_refl)
  show "memory_evolves mb w w' \<Longrightarrow> memory_evolves mb w' w'' \<Longrightarrow> memory_evolves mb w w''" by (rule memory_evolves_trans)
  show "memory_evolves mb w w' \<Longrightarrow> memory_live mb w ttl clock \<Longrightarrow> memory_live mb w' ttl clock" by (simp add: live_evolves)
  show "memory_holds mb w' k = memory_holds mb w k"
    if "memory_inv mb w" "memory_inv mb w'" "memory_evolves mb w w'" "memory_ver mb w' k = memory_ver mb w k"
    using that(1,3,4) by (rule same_version_same_value)
  show "memory_inv mb w \<Longrightarrow> memory_ver mb w k = None \<Longrightarrow> memory_holds mb w k = None" using holds_ver [of w k] by blast
  show "\<exists>d w'. km_batch_read_versioned (memory_keymap mb) ks w = (Inr d, w') \<and> memory_inv mb w' \<and> memory_evolves mb w w'
      \<and> memory_holds mb w' = memory_holds mb w \<and> memory_ver mb w' = memory_ver mb w
      \<and> (\<forall>k \<in> set ks. dget d k = Some (Versioned (memory_holds mb w k) (memory_ver mb w k)))"
    if inv: "memory_inv mb w"
    using read_versioned_acc [OF inv, of "fromkeys ks" "[]"] inv memory_evolves_refl [of mb w]
    by (auto simp: memory_keymap_def memory_batch_read_versioned_def)
  show "\<exists>w'. km_batch_write_if_unchanged (memory_keymap mb) ws ttl w = (Inr (cas_wins (memory_ver mb w) ws), w') \<and> memory_inv mb w'
      \<and> memory_evolves mb w w'
      \<and> (\<forall>k. k \<notin> cas_wins (memory_ver mb w) ws \<longrightarrow> memory_holds mb w' k = memory_holds mb w k \<and> memory_ver mb w' k = memory_ver mb w k)
      \<and> (\<forall>k cw v. k \<in> cas_wins (memory_ver mb w) ws \<longrightarrow> dget ws k = Some cw \<longrightarrow> cw_change cw = Put v
           \<longrightarrow> memory_live mb w ttl (cw_created_at cw) \<longrightarrow> memory_holds mb w' k = Some v)
      \<and> (\<forall>k cw. k \<in> cas_wins (memory_ver mb w) ws \<longrightarrow> dget ws k = Some cw \<longrightarrow> cw_change cw = Remove
           \<longrightarrow> memory_holds mb w' k = None)
      \<and> (\<forall>k cw v. k \<in> cas_wins (memory_ver mb w) ws \<longrightarrow> dget ws k = Some cw \<longrightarrow> cw_change cw = Put v
           \<longrightarrow> memory_holds mb w' k = None \<or> memory_holds mb w' k = Some v)"
    if "memory_inv mb w" "dict_ok ws"
  proof -
    from write_all_step [OF that, of ttl "{}"] obtain w1 where
      w1: "foldP (memory_write_one mb ttl) ws {} w = (Inr (cas_wins (memory_ver mb w) ws), w1)" "memory_inv mb w1" "memory_evolves mb w w1"
        "\<forall>k. k \<notin> cas_wins (memory_ver mb w) ws \<longrightarrow> memory_holds mb w1 k = memory_holds mb w k \<and> memory_ver mb w1 k = memory_ver mb w k"
        "\<And>k cw. \<lbrakk>k \<in> cas_wins (memory_ver mb w) ws; dget ws k = Some cw\<rbrakk> \<Longrightarrow> memory_holds mb w1 k = (case cw_change cw of
          Remove \<Rightarrow> None | Put v \<Rightarrow> if memory_live mb w ttl (cw_created_at cw) then Some v else None)"
      by auto
    show ?thesis
      by (rule exI [of _ w1], intro conjI allI impI)
        (simp_all add: memory_keymap_def memory_batch_write_if_unchanged_def w1)
  qed
qed

section \<open>Collections with sound serdes\<close>

definition storable :: "('k, 'v) memory_backend \<Rightarrow> bool" where
  "storable mb \<longleftrightarrow> (let be = mb_backend mb; ks = be_kvset be in
     (\<exists>c. ks_separator ks = [c] \<and> plain_separator [c]) \<and> keys_round_trip ks \<and> (\<forall>k. ks_key_serialize ks k \<noteq> None)
     \<and> (\<forall>v. \<exists>b. ks_value_serialize ks v = Some b \<and> ks_value_deserialize ks b = Some v)
     \<and> (case ks_scope_schema ks of None \<Rightarrow> True | Some schema \<Rightarrow> length (be_scope be) = length schema)
     \<and> 1 \<le> be_batch_size be)"

lemma storable_sep: "storable mb \<Longrightarrow> \<exists>c. ks_separator (be_kvset (mb_backend mb)) = [c] \<and> plain_separator [c]"
  and storable_keys: "storable mb \<Longrightarrow> keys_round_trip (be_kvset (mb_backend mb))"
  by (simp_all add: storable_def Let_def)

lemma storable_key:
  assumes "storable mb"
  shows "\<exists>p. memory_key mb k = Inr p"
proof -
  from assms obtain b where "ks_key_serialize (be_kvset (mb_backend mb)) k = Some b"
    unfolding storable_def Let_def by (metis option.exhaust_sel)
  moreover from assms obtain x where "leaf_needs_escaping (be_kvset (mb_backend mb)) (be_scope (mb_backend mb)) = Inr x"
    by (auto simp: storable_def Let_def leaf_needs_escaping_def split: option.splits)
  ultimately show ?thesis by (simp add: memory_key_def physical_key_blob_def leaf_blob_def serde_result_def Let_def)
qed

lemma py_join_under: "c = [] \<or> py_startswith (py_join sep (parts @ c)) (py_join sep parts)"
proof (cases "parts = [] \<or> c = []")
  case True
  then show ?thesis by (auto simp: py_startswith_def)
next
  case False
  then have "py_join sep (parts @ c) = py_join sep parts @ sep @ py_join sep c" by (subst py_join_append) simp_all
  then show ?thesis by simp
qed

lemma key_under_scope:
  assumes "storable mb" "memory_key mb k = Inr p"
  shows "py_startswith p (scope_blob mb)"
proof -
  from storable_sep [OF assms(1)] obtain c where sep: "ks_separator (be_kvset (mb_backend mb)) = [c]" by blast
  from assms(2) obtain leaf where
    "p = py_join [c] ((cb_name_version_prefix (be_binding (mb_backend mb)) @ scope_parts [c] (be_scope (mb_backend mb))) @ [leaf])"
    by (auto simp: memory_key_def physical_key_blob_def Let_def item_key_def sep blob_join_py_join split: sum.splits)
  with py_join_under [of "[leaf]" "[c]" "cb_name_version_prefix (be_binding (mb_backend mb)) @ scope_parts [c] (be_scope (mb_backend mb))"]
  show ?thesis by (simp add: scope_blob_def scope_prefix_def sep blob_join_py_join)
qed

lemma storable_collection:
  assumes "storable mb"
  shows "memory_collection mb"
proof
  show "\<exists>p. memory_key mb k = Inr p" for k using assms by (rule storable_key)
  show "\<exists>b. ks_value_serialize (be_kvset (mb_backend mb)) v = Some b \<and> value_of mb b = Some v" for v
    using assms by (simp add: storable_def Let_def value_of_def)
  show "1 \<le> be_batch_size (mb_backend mb)" using assms by (simp add: storable_def Let_def)
  show "memory_key mb k = Inr p \<Longrightarrow> py_startswith p (scope_blob mb)" for k p using assms by (rule key_under_scope)
  fix k p k' assume "memory_key mb k = Inr p" "memory_key mb k' = Inr p"
  moreover from storable_sep [OF assms] obtain c where "ks_separator (be_kvset (mb_backend mb)) = [c]" "plain_separator [c]" by blast
  ultimately show "k = k'"
    unfolding memory_key_def using physical_key_inj [OF _ _ storable_keys [OF assms] refl refl refl] by blast
qed

text \<open>The collection of strings, under any scope.\<close>

definition docs_memory :: "expiry_gc \<Rightarrow> scope \<Rightarrow> (string, string) memory_backend" where
  "docs_memory gc sc = \<lparr>mb_backend = docs_backend None sc, mb_expiry_gc = gc\<rparr>"

lemma docs_memory_storable: "storable (docs_memory gc sc)"
  by (simp add: storable_def Let_def docs_memory_def docs_backend_def)

interpretation docs: memory_collection "docs_memory gc sc" for gc sc
  by (rule storable_collection [OF docs_memory_storable])

section \<open>Two scopes of one collection\<close>

text \<open>Backends on one collection, of one schema, that never write each other's keys.\<close>

definition apart :: "('k, 'v) memory_backend \<Rightarrow> ('k, 'v) memory_backend \<Rightarrow> bool" where
  "apart mb mb' \<longleftrightarrow> (let be = mb_backend mb; be' = mb_backend mb' in
     be_kvset be' = be_kvset be \<and> be_binding be' = be_binding be \<and> be_scope be' \<noteq> be_scope be
     \<and> (ks_scope_schema (be_kvset be) \<noteq> None \<or> (be_scope be = [] \<longleftrightarrow> be_scope be' = [])))"

lemma apart_key:
  assumes "storable mb" "apart mb mb'" "memory_key mb k = Inr p"
  shows "memory_key mb' k' \<noteq> Inr p"
proof
  assume k': "memory_key mb' k' = Inr p"
  from storable_sep [OF assms(1)] obtain c where sep: "ks_separator (be_kvset (mb_backend mb)) = [c]" "plain_separator [c]" by blast
  from physical_key_inj [OF sep storable_keys [OF assms(1)] refl, of "mb_backend mb'" k p k'] assms(2,3) k'
  show False by (simp add: apart_def Let_def memory_key_def)
qed

lemma apart_bucket: "apart mb mb' \<Longrightarrow> bucket mb' = bucket mb \<and> (\<forall>b. with_bucket mb' b = with_bucket mb b)"
  by (auto simp: apart_def Let_def bucket_def with_bucket_def bucket_name_def fun_eq_iff)

lemma apart_stored:
  assumes "storable mb" "apart mb mb'" "memory_key mb' k = Inr p"
  shows "stored_at mb (with_bucket mb' (dput p e (bucket mb' w)) w) = stored_at mb w"
    "stored_at mb (with_bucket mb' (ddel p (bucket mb' w)) w) = stored_at mb w"
proof -
  have other: "q \<noteq> p" if "memory_key mb j = Inr q" for j q
    using apart_key [OF assms(1,2) that, of k] assms(3) by auto
  show "stored_at mb (with_bucket mb' (dput p e (bucket mb' w)) w) = stored_at mb w"
    "stored_at mb (with_bucket mb' (ddel p (bucket mb' w)) w) = stored_at mb w"
    using apart_bucket [OF assms(2)] other by (auto simp: stored_at_def fun_eq_iff split: sum.splits)
qed

text \<open>A change that another scope does not see.\<close>

definition unseen :: "('k, 'v) memory_backend \<Rightarrow> mem_root \<Rightarrow> mem_root \<Rightarrow> bool" where
  "unseen mb w w' \<longleftrightarrow> stored_at mb w' = stored_at mb w \<and> mr_now w' = mr_now w"

lemma unseen_refl [simp]: "unseen mb w w"
  and unseen_trans: "unseen mb w1 w2 \<Longrightarrow> unseen mb w2 w3 \<Longrightarrow> unseen mb w1 w3"
  by (simp_all add: unseen_def)

lemma unseen_holds: "unseen mb w w' \<Longrightarrow> memory_holds mb w' = memory_holds mb w \<and> memory_ver mb w' = memory_ver mb w"
  by (auto simp: unseen_def memory_holds_def memory_ver_def live_at_def fun_eq_iff split: option.splits)

lemma apart_pop:
  assumes "storable mb" "apart mb mb'" "memory_key mb' k = Inr p"
  shows "unseen mb w (snd (pop_entry mb' p w))"
  using apart_stored(2) [OF assms] by (auto simp: pop_entry_def unseen_def split: option.splits)

lemma apart_set:
  assumes "storable mb" "apart mb mb'" "memory_key mb' k = Inr p"
  shows "unseen mb w (snd (memory_set mb' k v opts w))"
  using apart_stored(1) [OF assms]
  by (cases "ks_value_serialize (be_kvset (mb_backend mb')) v")
    (simp_all add: memory_set_def bindP_run liftP_def serde_result_def unseen_def assms(3))

lemma apart_delete:
  assumes "storable mb" "apart mb mb'" "memory_key mb' k = Inr p"
  shows "unseen mb w (snd (memory_delete mb' k w))"
  using apart_pop [OF assms] by (simp add: memory_delete_def bindP_run liftP_def assms(3))

lemma apart_write_one:
  assumes "storable mb" "apart mb mb'" "memory_key mb' k = Inr p"
  shows "unseen mb w (snd (memory_write_one mb' ttl (k, cw) written w))"
proof -
  have mapped: "snd (mapP g m w) = snd (m w)" for g and m :: "(mem_root, 'c) prog"
    by (simp add: mapP_run split: prod.splits sum.splits)
  show ?thesis
    using apart_pop [OF assms, of w]
      apart_set [OF assms, of w "case cw_change cw of Put v \<Rightarrow> v" "\<lparr>wo_ttl = ttl, wo_created_at = cw_created_at cw\<rparr>"]
    by (cases "cw_change cw") (simp_all add: memory_write_one_def bindP_run liftP_def assms(3) mapped)
qed

lemma apart_write_all:
  assumes "storable mb" "storable mb'" "apart mb mb'"
  shows "unseen mb w (snd (foldP (memory_write_one mb' ttl) writes written w))"
proof (induction writes arbitrary: written w)
  case (Cons kw writes)
  obtain k cw where kw: "kw = (k, cw)" by fastforce
  from storable_key [OF assms(2)] obtain p where "memory_key mb' k = Inr p" by blast
  from apart_write_one [OF assms(1,3) this, of w ttl cw written] Cons.IH show ?case
    by (auto simp: kw bindP_run intro: unseen_trans split: prod.splits sum.splits)
qed simp

section \<open>Listing a collection\<close>

text \<open>
  The collection is told apart by the prefix of the scope when what begins with the prefix
  is a record of this backend -- no other scope's keys begin with it -- and is not the empty
  key of a scope.
\<close>

definition own :: "('k, 'v) memory_backend \<Rightarrow> mem_root \<Rightarrow> bool" where
  "own mb w \<longleftrightarrow> dict_ok (bucket mb w) \<and> (\<forall>p \<in> set (dkeys (bucket mb w)). py_startswith p (scope_blob mb) \<longrightarrow>
     (\<exists>k. memory_key mb k = Inr p
       \<and> (be_scope (mb_backend mb) = [] \<or> ks_key_serialize (be_kvset (mb_backend mb)) k \<noteq> Some [])))"

lemma scan_prefix_run: "scan_prefix_blob (mb_backend mb) None = Inr (scope_blob mb)"
  by (simp add: scan_prefix_blob_def Let_def scope_blob_def)

lemma py_startswith_trans: "py_startswith p q \<Longrightarrow> py_startswith q r \<Longrightarrow> py_startswith p r"
  unfolding py_startswith_def by (metis min.absorb1 nat_le_linear take_all take_take)

lemma prefix_under_scope:
  assumes "storable mb" "scan_prefix_blob (mb_backend mb) q = Inr pre"
  shows "py_startswith pre (scope_blob mb)"
proof -
  from storable_sep [OF assms(1)] obtain c where sep: "ks_separator (be_kvset (mb_backend mb)) = [c]" by blast
  show ?thesis
    using assms(2) py_join_under [of "[leaf]" "[c]" "cb_name_version_prefix (be_binding (mb_backend mb))
        @ scope_parts [c] (be_scope (mb_backend mb))" for leaf]
    by (auto simp: scan_prefix_blob_def Let_def scope_blob_def scope_prefix_def sep blob_join_py_join py_startswith_def
        split: option.splits sum.splits)
qed

lemma own_listed:
  assumes "storable mb" "own mb w" "p \<in> set (dkeys (bucket mb w))" "py_startswith p (scope_blob mb)"
  shows "\<exists>k. decode_key_from_physical (mb_backend mb) p = Some k \<and> memory_key mb k = Inr p"
proof -
  from assms(2-4) obtain k where k: "memory_key mb k = Inr p"
    "be_scope (mb_backend mb) = [] \<or> ks_key_serialize (be_kvset (mb_backend mb)) k \<noteq> Some []" by (auto simp: own_def)
  from storable_sep [OF assms(1)] obtain c where sep: "ks_separator (be_kvset (mb_backend mb)) = [c]" "plain_separator [c]" by blast
  have "decode_key_from_physical (mb_backend mb) p = Some k"
    using decode_physical_key [OF sep storable_keys [OF assms(1)]] k by (simp add: memory_key_def)
  with k(1) show ?thesis by blast
qed

text \<open>The row of a physical key: its key and value, if it is stored and has not expired.\<close>

definition row_at :: "('k, 'v) memory_backend \<Rightarrow> bool \<Rightarrow> mem_root \<Rightarrow> string \<Rightarrow> ('k \<times> 'v option) list" where
  "row_at mb include_values w p = (case dget (bucket mb w) p of None \<Rightarrow> []
     | Some e \<Rightarrow> if expired e (mr_now w) \<or> \<not> py_startswith p (scope_blob mb) then []
         else [(the (decode_key_from_physical (mb_backend mb) p), if include_values then value_of mb (me_blob e) else None)])"

definition readable_row :: "('k, 'v) memory_backend \<Rightarrow> mem_root \<Rightarrow> string \<Rightarrow> bool" where
  "readable_row mb w p \<longleftrightarrow> (\<forall>e. dget (bucket mb w) p = Some e \<longrightarrow> py_startswith p (scope_blob mb) \<longrightarrow>
     decode_key_from_physical (mb_backend mb) p \<noteq> None \<and> value_of mb (me_blob e) \<noteq> None)"

lemma scan_one_step:
  assumes "readable_row mb w p"
  shows "\<exists>w'. memory_scan_one mb (scope_blob mb) include_values p rows w = (Inr (rows @ row_at mb include_values w p), w')
    \<and> mr_now w' = mr_now w \<and> mr_next w' = mr_next w \<and> (\<forall>q. dget (bucket mb w') q = dget (bucket mb w) q
         \<or> (q = p \<and> dget (bucket mb w') q = None \<and> (\<exists>e. dget (bucket mb w) q = Some e \<and> expired e (mr_now w))))"
proof (cases "dget (bucket mb w) p")
  case None
  then show ?thesis by (simp add: memory_scan_one_def row_at_def)
next
  case (Some e)
  show ?thesis
  proof (cases "expired e (mr_now w)")
    case True
    with Some show ?thesis by (simp add: memory_scan_one_def row_at_def)
  next
    case False
    show ?thesis
    proof (cases "py_startswith p (scope_blob mb)")
      case other: False
      with Some False show ?thesis by (simp add: memory_scan_one_def row_at_def)
    next
      case True
      with assms Some obtain k v where kv: "decode_key_from_physical (mb_backend mb) p = Some k"
        "value_of mb (me_blob e) = Some v" by (auto simp: readable_row_def)
      from kv(2) have "liftP (memory_value mb (me_blob e)) w = (Inr v, w)"
        by (simp add: liftP_def memory_value_def value_of_def serde_result_def)
      with Some False True kv show ?thesis by (simp add: memory_scan_one_def row_at_def mapP_run)
    qed
  qed
qed

lemma scan_rows_law:
  assumes "\<forall>p \<in> set ps. readable_row mb w p" "distinct ps"
  shows "\<exists>w'. foldP (memory_scan_one mb (scope_blob mb) include_values) ps rows w
      = (Inr (rows @ concat (map (row_at mb include_values w) ps)), w')
    \<and> mr_now w' = mr_now w \<and> mr_next w' = mr_next w \<and> (\<forall>q. dget (bucket mb w') q = dget (bucket mb w) q
         \<or> (dget (bucket mb w') q = None \<and> (\<exists>e. dget (bucket mb w) q = Some e \<and> expired e (mr_now w))))"
  using assms
proof (induction ps arbitrary: w rows)
  case (Cons p ps)
  from Cons.prems(1) have "readable_row mb w p" by simp
  from scan_one_step [OF this, of include_values rows] obtain w1 where
    w1: "memory_scan_one mb (scope_blob mb) include_values p rows w = (Inr (rows @ row_at mb include_values w p), w1)"
      "mr_now w1 = mr_now w" "mr_next w1 = mr_next w" "\<And>q. q \<noteq> p \<Longrightarrow> dget (bucket mb w1) q = dget (bucket mb w) q"
      "\<And>q. dget (bucket mb w1) q = dget (bucket mb w) q
         \<or> (dget (bucket mb w1) q = None \<and> (\<exists>e. dget (bucket mb w) q = Some e \<and> expired e (mr_now w)))" by blast
  have same: "row_at mb include_values w1 q = row_at mb include_values w q" "readable_row mb w1 q"
    if "q \<in> set ps" for q
  proof -
    have "q \<noteq> p" using that Cons.prems(2) by auto
    then show "row_at mb include_values w1 q = row_at mb include_values w q"
      using w1(2,4) by (simp add: row_at_def split: option.splits)
    show "readable_row mb w1 q" using that \<open>q \<noteq> p\<close> Cons.prems(1) w1(4) by (simp add: readable_row_def)
  qed
  have rows: "map (row_at mb include_values w1) ps = map (row_at mb include_values w) ps" using same(1) by simp
  from Cons.prems(2) have "distinct ps" by simp
  from Cons.IH [OF _ this, of w1 "rows @ row_at mb include_values w p"] same(2) obtain w2 where
    w2: "foldP (memory_scan_one mb (scope_blob mb) include_values) ps (rows @ row_at mb include_values w p) w1
        = (Inr ((rows @ row_at mb include_values w p) @ concat (map (row_at mb include_values w1) ps)), w2)"
      "mr_now w2 = mr_now w1" "mr_next w2 = mr_next w1"
      "\<And>q. dget (bucket mb w2) q = dget (bucket mb w1) q
         \<or> (dget (bucket mb w2) q = None \<and> (\<exists>e. dget (bucket mb w1) q = Some e \<and> expired e (mr_now w1)))" by blast
  have "dget (bucket mb w2) q = dget (bucket mb w) q
      \<or> (dget (bucket mb w2) q = None \<and> (\<exists>e. dget (bucket mb w) q = Some e \<and> expired e (mr_now w)))" for q
    using w2(4) [of q] w1(5) [of q] w1(2) by auto
  with w1 w2(1-3) show ?case by (simp add: bindP_run rows)
qed simp

lemma scan_law:
  assumes ok: "storable mb" and inv: "memory_inv mb w" and own: "own mb w"
  shows "\<exists>w'. memory_scan_entries mb None include_values w
      = (Inr (concat (map (row_at mb include_values w) (dkeys (bucket mb w)))), w')
    \<and> mr_now w' = mr_now w \<and> mr_next w' = mr_next w \<and> (\<forall>q. dget (bucket mb w') q = dget (bucket mb w) q
         \<or> (dget (bucket mb w') q = None \<and> (\<exists>e. dget (bucket mb w) q = Some e \<and> expired e (mr_now w))))"
proof -
  have "readable_row mb w p" if p: "p \<in> set (dkeys (bucket mb w))" for p
  proof -
    show ?thesis
    proof (cases "py_startswith p (scope_blob mb)")
      case False
      then show ?thesis by (simp add: readable_row_def)
    next
      case True
    from own_listed [OF ok own p True] obtain k where k: "decode_key_from_physical (mb_backend mb) p = Some k"
      "memory_key mb k = Inr p" by blast
    have "value_of mb (me_blob e) \<noteq> None" if "dget (bucket mb w) p = Some e" for e
      using inv k(2) that unfolding memory_inv_def stored_at_def by (metis sum.simps(6))
    with k show ?thesis by (simp add: readable_row_def)
    qed
  qed
  then have "\<forall>p \<in> set (dkeys (bucket mb w)). readable_row mb w p" by blast
  from scan_rows_law [OF this, of include_values "[]"] own show ?thesis
    by (simp add: memory_scan_entries_def scan_prefix_run bindP_run liftP_def own_def)
qed

section \<open>Collecting what has expired\<close>

definition expired_rows :: "('k, 'v) memory_backend \<Rightarrow> time \<Rightarrow> (string, mem_entry) dict \<Rightarrow> 'k list" where
  "expired_rows mb at entries = map (\<lambda>(p, e). the (decode_key_from_physical (mb_backend mb) p))
     (filter (\<lambda>(p, e). expired e at \<and> py_startswith p (scope_blob mb)) entries)"

lemma expired_among_take:
  assumes "\<forall>p \<in> set (dkeys entries). py_startswith p (scope_blob mb) \<longrightarrow> decode_key_from_physical (mb_backend mb) p \<noteq> None"
    "int (length found) \<le> limit"
  shows "expired_among mb (scope_blob mb) at limit entries found = take (nat limit) (found @ expired_rows mb at entries)"
  using assms
proof (induction mb "scope_blob mb" at limit entries found rule: expired_among.induct)
  case (1 mb at limit found)
  then show ?case by (simp add: expired_rows_def)
next
  case (2 mb at limit p e entries found)
  show ?case
  proof (cases "int (length found) \<ge> limit")
    case True
    with 2(5) show ?thesis by simp
  next
    case False
    with 2 show ?thesis by (auto simp: expired_rows_def split: option.split)
  qed
qed

context memory_collection
begin

lemma delete_stored:
  "\<exists>w'. memory_delete mb k w = (Inr (stored_at mb w k \<noteq> None), w') \<and> stored_at mb w' = (stored_at mb w)(k := None)
    \<and> mr_now w' = mr_now w \<and> mr_next w' = mr_next w"
proof -
  from key_law [of k] obtain p where p: "memory_key mb k = Inr p" by blast
  then have "stored_at mb w k = dget (bucket mb w) p" by (simp add: stored_at_def)
  with p stored_del [OF p, of w] show ?thesis
    by (cases "dget (bucket mb w) p") (simp_all add: memory_delete_def bindP_run liftP_def pop_entry_def fun_upd_idem)
qed

lemma delete_all_stored:
  "\<exists>n' w'. foldP (\<lambda>key n. mapP (\<lambda>b. if b then n + 1 else n) (memory_delete mb key)) ks (n :: int) w = (Inr n', w')
    \<and> (\<forall>k. stored_at mb w' k = (if k \<in> set ks then None else stored_at mb w k)) \<and> mr_now w' = mr_now w \<and> mr_next w' = mr_next w"
proof (induction ks arbitrary: n w)
  case (Cons k ks)
  from delete_stored [of k w] obtain w1 where w1: "memory_delete mb k w = (Inr (stored_at mb w k \<noteq> None), w1)"
    "stored_at mb w1 = (stored_at mb w)(k := None)" "mr_now w1 = mr_now w" "mr_next w1 = mr_next w" by blast
  from Cons.IH [of "if stored_at mb w k \<noteq> None then n + 1 else n" w1] obtain n' w2 where
    w2: "foldP (\<lambda>key n. mapP (\<lambda>b. if b then n + 1 else n) (memory_delete mb key)) ks
        (if stored_at mb w k \<noteq> None then n + 1 else n) w1 = (Inr n', w2)"
      "\<forall>j. stored_at mb w2 j = (if j \<in> set ks then None else stored_at mb w1 j)" "mr_now w2 = mr_now w1" "mr_next w2 = mr_next w1"
    by blast
  have "foldP (\<lambda>key n. mapP (\<lambda>b. if b then n + 1 else n) (memory_delete mb key)) (k # ks) n w = (Inr n', w2)"
    using w1(1) w2(1) by (simp add: bindP_run mapP_run)
  with w1 w2 show ?case by auto
qed simp

lemma batch_delete_stored:
  "\<exists>n w'. memory_batch_delete mb ks w = (Inr n, w')
    \<and> (\<forall>k. stored_at mb w' k = (if k \<in> set ks then None else stored_at mb w k)) \<and> mr_now w' = mr_now w \<and> mr_next w' = mr_next w"
proof -
  have "memory_batch_delete mb ks = foldP (\<lambda>key n. mapP (\<lambda>b. if b then n + 1 else n) (memory_delete mb key)) ks 0"
    unfolding memory_batch_delete_def by (rule in_chunks_run [OF batch_law]) (simp add: foldP_concat)
  with delete_all_stored [of ks 0 w] show ?thesis by simp
qed

end

text \<open>The key a row of the collection stands for.\<close>

definition key_at :: "('k, 'v) memory_backend \<Rightarrow> string \<Rightarrow> 'k" where
  "key_at mb p = the (decode_key_from_physical (mb_backend mb) p)"

lemma own_key:
  assumes "storable mb" "own mb w" "p \<in> set (dkeys (bucket mb w))" "py_startswith p (scope_blob mb)"
  shows "memory_key mb (key_at mb p) = Inr p"
  using own_listed [OF assms] by (auto simp: key_at_def)

lemma own_stored:
  assumes "storable mb" "own mb w"
  shows "stored_at mb w k = Some e
    \<longleftrightarrow> (\<exists>p. (p, e) \<in> set (bucket mb w) \<and> py_startswith p (scope_blob mb) \<and> key_at mb p = k)"
proof
  assume "stored_at mb w k = Some e"
  then obtain p where p: "memory_key mb k = Inr p" "dget (bucket mb w) p = Some e"
    by (auto simp: stored_at_def split: sum.splits)
  note under = key_under_scope [OF assms(1) p(1)]
  have "memory_key mb (key_at mb p) = Inr p" using own_key [OF assms dget_Some_key [OF p(2)] under] .
  with p(1) memory_collection.key_inj [OF storable_collection [OF assms(1)]] have "key_at mb p = k" by blast
  with p(2) under show "\<exists>p. (p, e) \<in> set (bucket mb w) \<and> py_startswith p (scope_blob mb) \<and> key_at mb p = k"
    by (auto dest: map_of_SomeD)
next
  assume "\<exists>p. (p, e) \<in> set (bucket mb w) \<and> py_startswith p (scope_blob mb) \<and> key_at mb p = k"
  then obtain p where p: "(p, e) \<in> set (bucket mb w)" "py_startswith p (scope_blob mb)" "key_at mb p = k" by blast
  then have "memory_key mb k = Inr p" using own_key [OF assms, of p] by force
  moreover have "dget (bucket mb w) p = Some e" using p(1) assms(2) by (simp add: own_def)
  ultimately show "stored_at mb w k = Some e" by (simp add: stored_at_def)
qed

lemma own_key_inj:
  assumes "storable mb" "own mb w"
  shows "inj_on (key_at mb) {p \<in> set (dkeys (bucket mb w)). py_startswith p (scope_blob mb)}"
  by (rule inj_onI) (metis (mono_tags, lifting) own_key [OF assms] sum.inject(2) mem_Collect_eq)

lemma filter_keys_distinct:
  assumes "dict_ok d" "inj_on g {p \<in> set (dkeys d). Q p}" "\<And>p e. P (p, e) \<Longrightarrow> Q p"
  shows "distinct (map (\<lambda>(p, e). g p) (filter P d))"
proof -
  have "map (\<lambda>(p, e). g p) (filter P d) = map g (map fst (filter P d))" by auto
  moreover have "distinct (map fst (filter P d))" using assms(1) by (metis distinct_map_filter)
  moreover have "set (map fst (filter P d)) \<subseteq> {p \<in> set (dkeys d). Q p}" using assms(3) by force
  ultimately show ?thesis using assms(2) by (metis distinct_map inj_on_subset)
qed

lemma expired_rows_own:
  assumes "storable mb" "own mb w"
  shows "set (expired_rows mb at (bucket mb w)) = {k. \<exists>e. stored_at mb w k = Some e \<and> expired e at}"
    "distinct (expired_rows mb at (bucket mb w))"
proof -
  show "set (expired_rows mb at (bucket mb w)) = {k. \<exists>e. stored_at mb w k = Some e \<and> expired e at}"
    unfolding expired_rows_def own_stored [OF assms] key_at_def by force
  show "distinct (expired_rows mb at (bucket mb w))"
    unfolding expired_rows_def key_at_def [symmetric]
    using assms(2) by (intro filter_keys_distinct [OF _ own_key_inj [OF assms]]) (simp_all add: own_def)
qed

lemma gc_law:
  assumes ok: "storable mb" and own: "own mb w" and limit: "1 \<le> limit"
  shows "\<exists>ks w'. memory_gc_expired_keys mb limit w = (Inr ks, w') \<and> int (length ks) \<le> limit \<and> distinct ks
    \<and> (\<forall>k \<in> set ks. \<exists>e. stored_at mb w k = Some e \<and> expired e (mr_now w))
    \<and> (\<forall>k. stored_at mb w' k = (if k \<in> set ks then None else stored_at mb w k)) \<and> mr_now w' = mr_now w
    \<and> (int (length ks) < limit \<longrightarrow> (\<forall>k e. stored_at mb w' k = Some e \<longrightarrow> \<not> expired e (mr_now w)))"
proof -
  let ?found = "expired_rows mb (mr_now w) (bucket mb w)" and ?ks = "take (nat limit) (expired_rows mb (mr_now w) (bucket mb w))"
  have "\<forall>p \<in> set (dkeys (bucket mb w)). py_startswith p (scope_blob mb) \<longrightarrow> decode_key_from_physical (mb_backend mb) p \<noteq> None"
    using own_listed [OF ok own] by fastforce
  from expired_among_take [OF this, of "[]" limit "mr_now w"] limit
  have found: "memory_expired_keys mb None limit w = (Inr ?ks, w)"
    by (simp add: memory_expired_keys_def scan_prefix_run bindP_run liftP_def clock_base_def)
  from memory_collection.batch_delete_stored [OF storable_collection [OF ok], of ?ks w] obtain n w1 where
    w1: "memory_batch_delete mb ?ks w = (Inr n, w1)" "\<forall>k. stored_at mb w1 k = (if k \<in> set ?ks then None else stored_at mb w k)"
      "mr_now w1 = mr_now w" by blast
  have run: "\<exists>w'. memory_gc_expired_keys mb limit w = (Inr ?ks, w') \<and> mr_now w' = mr_now w
      \<and> (\<forall>k. stored_at mb w' k = (if k \<in> set ?ks then None else stored_at mb w k))"
  proof (cases "?ks = []")
    case True
    with found limit show ?thesis by (simp add: memory_gc_expired_keys_def bindP_run)
  next
    case False
    with found limit w1 show ?thesis by (simp add: memory_gc_expired_keys_def bindP_run mapP_run)
  qed
  then obtain w' where w': "memory_gc_expired_keys mb limit w = (Inr ?ks, w')" "mr_now w' = mr_now w"
    "\<And>k. stored_at mb w' k = (if k \<in> set ?ks then None else stored_at mb w k)" by blast
  note rows = expired_rows_own [OF ok own, of "mr_now w"]
  have "int (length ?ks) \<le> limit" using limit by simp
  moreover have "distinct ?ks" using rows(2) by simp
  moreover have "\<exists>e. stored_at mb w k = Some e \<and> expired e (mr_now w)" if "k \<in> set ?ks" for k
    using rows(1) set_take_subset [of "nat limit" ?found] that by blast
  moreover have "\<not> expired e (mr_now w)" if "int (length ?ks) < limit" "stored_at mb w' k = Some e" for k e
  proof -
    have "?ks = ?found" using that(1) limit by simp
    with rows(1) that(2) w'(3) [of k] show ?thesis by (auto split: if_splits)
  qed
  ultimately show ?thesis using w' by blast
qed

section \<open>The rows of a scan\<close>

lemma scanned_rows:
  assumes ok: "storable mb" and inv: "memory_inv mb w" and own: "own mb w"
  defines "rows \<equiv> concat (map (row_at mb True w) (dkeys (bucket mb w)))"
  shows "distinct (map fst rows)" "set rows = {(k, Some v) | k v. memory_holds mb w k = Some v}"
proof -
  let ?live = "\<lambda>(p, e). \<not> expired e (mr_now w) \<and> py_startswith p (scope_blob mb)"
  have one: "row_at mb True w p = map (\<lambda>(p, e). (key_at mb p, value_of mb (me_blob e))) (filter ?live [(p, e)])"
    if "(p, e) \<in> set (bucket mb w)" for p e
    using that own by (simp add: row_at_def key_at_def own_def)
  have all: "concat (map (row_at mb True w) (dkeys d)) = map (\<lambda>(p, e). (key_at mb p, value_of mb (me_blob e))) (filter ?live d)"
    if "set d \<subseteq> set (bucket mb w)" for d
    using that
  proof (induction d)
    case (Cons x d)
    then show ?case using one [of "fst x" "snd x"] by (cases x) simp
  qed simp
  have rows: "rows = map (\<lambda>(p, e). (key_at mb p, value_of mb (me_blob e))) (filter ?live (bucket mb w))"
    unfolding rows_def by (rule all) simp
  have "map fst rows = map (\<lambda>(p, e). key_at mb p) (filter ?live (bucket mb w))" unfolding rows by auto
  then show "distinct (map fst rows)"
    using filter_keys_distinct [OF _ own_key_inj [OF ok own], of ?live] own by (auto simp: own_def)
  show "set rows = {(k, Some v) | k v. memory_holds mb w k = Some v}"
  proof -
    have "(k, x) \<in> set rows \<longleftrightarrow> (\<exists>e. stored_at mb w k = Some e \<and> \<not> expired e (mr_now w) \<and> x = value_of mb (me_blob e))" for k x
      unfolding rows own_stored [OF ok own] by force
    moreover have "memory_holds mb w k = Some v \<longleftrightarrow>
        (\<exists>e. stored_at mb w k = Some e \<and> \<not> expired e (mr_now w) \<and> value_of mb (me_blob e) = Some v)" for k v
      by (auto simp: memory_holds_def live_at_def split: option.splits if_splits)
    moreover have "value_of mb (me_blob e) \<noteq> None" if "stored_at mb w k = Some e" for k e
      using inv that by (simp add: memory_inv_def)
    ultimately show ?thesis by force
  qed
qed

lemma dropped_expired:
  assumes "\<And>q. dget (bucket mb w') q = dget (bucket mb w) q
      \<or> (dget (bucket mb w') q = None \<and> (\<exists>e. dget (bucket mb w) q = Some e \<and> expired e (mr_now w)))"
    and "mr_now w' = mr_now w"
  shows "memory_holds mb w' = memory_holds mb w"
proof
  fix k
  show "memory_holds mb w' k = memory_holds mb w k"
  proof (cases "memory_key mb k")
    case (Inr p)
    from assms(1) [of p] show ?thesis
      by (auto simp: memory_holds_def live_at_def stored_at_def Inr assms(2) split: option.splits)
  qed (simp add: memory_holds_def live_at_def stored_at_def)
qed

end
