(* ===== verification/Memory_Properties.thy ===== *)
theory Memory_Properties
  imports Memory_Laws
begin

text \<open>
  The properties of the in-memory store: compare-and-write under other writers, expiry,
  isolation of scopes, listing and collection, and where collection loses a live record.
\<close>

context memory_collection
begin

lemmas update_under_contention = km.update_contended

lemma expiry:
  assumes "memory_inv mb w"
  shows "\<exists>w'. memory_set mb k v opts w = (Inr (), w') \<and> memory_inv mb w'
    \<and> (\<forall>t. fst (memory_get mb k (w'\<lparr>mr_now := t\<rparr>))
         = Inr (case memory_expires_at mb (wo_ttl opts) (wo_created_at opts) (mr_now w) of None \<Rightarrow> Some v
             | Some e \<Rightarrow> if t < e then Some v else None))"
proof -
  from value_law [of v] obtain b where
    b: "ks_value_serialize (be_kvset (mb_backend mb)) v = Some b" "value_of mb b = Some v" by blast
  from set_step [OF assms, of k v opts] obtain w' where
    w': "memory_set mb k v opts w = (Inr (), w')" "memory_inv mb w'" by blast
  from key_law [of k] obtain p where p: "memory_key mb k = Inr p" by blast
  have stored: "stored_at mb w' k = Some (written_entry w opts b)"
    using w'(1) p b by (auto simp: memory_set_def bindP_run liftP_def serde_result_def written_entry_def stored_at_def)
  have later: "memory_inv mb (w'\<lparr>mr_now := t\<rparr>)" "stored_at mb (w'\<lparr>mr_now := t\<rparr>) = stored_at mb w'" for t
  proof -
    show same: "stored_at mb (w'\<lparr>mr_now := t\<rparr>) = stored_at mb w'"
      by (auto simp: stored_at_def bucket_def fun_eq_iff split: sum.splits)
    show "memory_inv mb (w'\<lparr>mr_now := t\<rparr>)" using w'(2) unfolding memory_inv_def same by simp
  qed
  have "fst (memory_get mb k (w'\<lparr>mr_now := t\<rparr>))
      = Inr (case memory_expires_at mb (wo_ttl opts) (wo_created_at opts) (mr_now w) of None \<Rightarrow> Some v
             | Some e \<Rightarrow> if t < e then Some v else None)" for t
  proof -
    have "memory_holds mb (w'\<lparr>mr_now := t\<rparr>) k
        = (case memory_expires_at mb (wo_ttl opts) (wo_created_at opts) (mr_now w) of None \<Rightarrow> Some v
             | Some e \<Rightarrow> if t < e then Some v else None)"
      unfolding memory_holds_def live_at_def later(2) stored
      by (auto simp: expired_def written_entry_def b(2) split: option.splits)
    with get_step [OF later(1), of k t] show ?thesis by force
  qed
  with w' show ?thesis by blast
qed

end

text \<open>
  C16. No lost update, with expiry. However other writers of the collection interleave with
  the rounds of \<open>update\<close>, it makes at most one write, which replaces exactly the value
  \<open>decide\<close> was shown -- an expired entry being no value -- and what it returns is what the
  entry then holds; a conflict has written nothing and needs as many other writers as
  \<open>attempts\<close>.
\<close>

theorem memory_update_atomic:
  assumes "storable mb" "memory_inv mb w" "other_writers (memory_inv mb) (memory_evolves mb) sched"
    and "memory_live mb w (wo_ttl opts) (wo_created_at opts)" "1 \<le> attempts"
  shows "\<exists>r w' sched' l. batch_update (contended (memory_holds mb) (memory_keymap mb)) [k] (decide_one k decide) opts attempts
      (w, sched, []) = (Inr r, w', sched', l) \<and> memory_inv mb w' \<and> atomic_outcome (memory_holds mb) k decide w' l r
      \<and> (int (length sched) < attempts \<longrightarrow> (\<exists>d. r = Held d))"
  using memory_collection.update_under_contention [OF storable_collection [OF assms(1)] assms(2,3,4,5), of k decide "[]"] by simp

text \<open>Someone else writes the key the update is about, before its first conditional write.\<close>

definition rival_set :: "mem_root \<Rightarrow> mem_root" where
  "rival_set w = (if memory_inv (docs_memory LazyDelete []) w
     then snd (memory_set (docs_memory LazyDelete []) ''n'' ''7'' no_options w) else w)"

lemma rival_set_other_writer:
  "other_writers (memory_inv (docs_memory LazyDelete [])) (memory_evolves (docs_memory LazyDelete [])) [rival_set]"
proof -
  have "memory_inv (docs_memory LazyDelete []) (rival_set w) \<and> memory_evolves (docs_memory LazyDelete []) w (rival_set w)"
    if "memory_inv (docs_memory LazyDelete []) w" for w
    using docs.set_step [OF that, of "''n''" "''7''" no_options] that by (auto simp: rival_set_def)
  then show ?thesis by (simp add: other_writers_def)
qed

theorem memory_update_atomic_witness:
  "\<exists>r w' sched' l. batch_update (contended (memory_holds (docs_memory LazyDelete [])) (memory_keymap (docs_memory LazyDelete [])))
      [''n''] (decide_one ''n'' (\<lambda>v. Change (Put (case v of None \<Rightarrow> ''1'' | Some s \<Rightarrow> s @ ''1'')))) no_options 2
      (empty_root 0, [rival_set], []) = (Inr r, w', sched', l) \<and> memory_inv (docs_memory LazyDelete []) w'
    \<and> (\<exists>d. r = Held d)"
proof -
  have "memory_live (docs_memory LazyDelete []) (empty_root 0) (wo_ttl no_options) (wo_created_at no_options)" by code_simp
  from memory_update_atomic [OF docs_memory_storable memory_inv_empty rival_set_other_writer this, of 2]
  show ?thesis by fastforce
qed

text \<open>
  C17. Expiry is exact. After a write at a time to live of \<open>secs\<close>, counted from the clock the
  writer gave or from now, a read answers the value at every time before its expiry and
  nothing from then on; a write with no time to live is there at any time.
\<close>

theorem memory_expiry_exact:
  assumes "storable mb" "memory_inv mb w"
  shows "\<exists>w'. memory_set mb k v opts w = (Inr (), w')
    \<and> (\<forall>t. fst (memory_get mb k (w'\<lparr>mr_now := t\<rparr>))
         = Inr (case resolve_ttl_seconds (mb_backend mb) (wo_ttl opts) of None \<Rightarrow> Some v
             | Some secs \<Rightarrow> if t < clock_base (wo_created_at opts) (mr_now w) + secs * 1000000 then Some v else None))"
  using memory_collection.expiry [OF storable_collection [OF assms(1)] assms(2), of k v opts]
  by (cases "resolve_ttl_seconds (mb_backend mb) (wo_ttl opts)") (auto simp: memory_expires_at_def)

theorem memory_expiry_exact_witness:
  "\<exists>w'. memory_set (docs_memory LazyDelete []) ''k'' ''v'' \<lparr>wo_ttl = Some ttl_hourly, wo_created_at = Some 0\<rparr> (empty_root 5) = (Inr (), w')
    \<and> fst (memory_get (docs_memory LazyDelete []) ''k'' (w'\<lparr>mr_now := 3599999999\<rparr>)) = Inr (Some ''v'')
    \<and> fst (memory_get (docs_memory LazyDelete []) ''k'' (w'\<lparr>mr_now := 3600000000\<rparr>)) = Inr None"
proof -
  have secs: "resolve_ttl_seconds (mb_backend (docs_memory LazyDelete [])) (Some ttl_hourly) = Some 3600" by code_simp
  from memory_expiry_exact [OF docs_memory_storable memory_inv_empty, of LazyDelete "[]" "''k''" "''v''"
      "\<lparr>wo_ttl = Some ttl_hourly, wo_created_at = Some 0\<rparr>" 5]
  show ?thesis by (auto simp: secs clock_base_def)
qed


text \<open>The scopes \<open>user=a\<close> and \<open>user=ab\<close>, where one's physical keys begin with the other's prefix.\<close>

abbreviation (input) a_docs :: "(string, string) memory_backend" where
  "a_docs \<equiv> docs_memory LazyDelete (user_scope ''a'')"

abbreviation (input) ab_docs :: "(string, string) memory_backend" where
  "ab_docs \<equiv> docs_memory LazyDelete (user_scope ''ab'')"

lemma user_scopes_apart: "apart ab_docs a_docs"
  by (simp add: apart_def Let_def docs_memory_def user_scope_def scope_extend_def)



text \<open>A record of \<open>user=a\<close> beside one of \<open>user=c\<close>.\<close>

abbreviation (input) c_docs :: "(string, string) memory_backend" where
  "c_docs \<equiv> docs_memory LazyDelete (user_scope ''c'')"

definition shared_root :: mem_root where
  "shared_root = snd (memory_set a_docs ''x:y'' ''v'' no_options (snd (memory_set c_docs ''k'' ''other'' no_options (empty_root 0))))"

lemma shared_root_own: "own a_docs shared_root"
proof -
  have keys: "dkeys (bucket a_docs shared_root) = [''user:c:k'', ''user:a:x%3Ay'']" by code_simp
  have key: "memory_key a_docs ''x:y'' = Inr ''user:a:x%3Ay''" by code_simp
  have other: "\<not> py_startswith ''user:c:k'' (scope_blob a_docs)" by code_simp
  show ?thesis unfolding own_def keys using key other by (auto simp: docs_memory_def)
qed

lemma shared_root_inv: "memory_inv a_docs shared_root"
proof -
  have apart: "apart a_docs c_docs" by (simp add: apart_def Let_def docs_memory_def user_scope_def scope_extend_def)
  have "memory_key c_docs ''k'' = Inr ''user:c:k''" by code_simp
  from apart_set [OF docs_memory_storable apart this, of "empty_root 0" "''other''" no_options]
  have "stored_at a_docs (snd (memory_set c_docs ''k'' ''other'' no_options (empty_root 0))) = stored_at a_docs (empty_root 0)"
    by (simp add: unseen_def)
  then have "memory_inv a_docs (snd (memory_set c_docs ''k'' ''other'' no_options (empty_root 0)))"
    by (simp add: memory_inv_def stored_at_def bucket_def empty_root_def split: sum.splits)
  from docs.set_step [OF this, of "''x:y''" "''v''" no_options] show ?thesis by (auto simp: shared_root_def)
qed



text \<open>Two records of \<open>user=a\<close>, the first an hour old when it is collected.\<close>

definition two_records :: "mem_root" where
  "two_records = (let w = snd (memory_set a_docs ''x:y'' ''old'' \<lparr>wo_ttl = Some ttl_hourly, wo_created_at = None\<rparr> (empty_root 0));
     w' = snd (memory_set a_docs ''z'' ''new'' no_options w) in w'\<lparr>mr_now := 3600000000\<rparr>)"


section \<open>A live record collected\<close>

text \<open>
  Where the collection holds records of a sibling scope too, collection is not exact:
  the scope \<open>user=a\<close> takes the expired record \<open>k\<close> of \<open>user=ab\<close> for its own key \<open>b:k\<close>, and
  deletes its own record of that key, which has not expired, while the expired one stays.
\<close>

definition schema_docs :: "string \<Rightarrow> (string, string) memory_backend" where
  "schema_docs user = \<lparr>mb_backend = docs_backend (Some [''user'']) (user_scope user), mb_expiry_gc = Hide\<rparr>"

definition sibling_records :: "mem_root" where
  "sibling_records = (let w = snd (memory_set (schema_docs ''ab'') ''k'' ''old'' \<lparr>wo_ttl = Some ttl_hourly, wo_created_at = None\<rparr> (empty_root 0))
     in (snd (memory_set (schema_docs ''a'') ''b:k'' ''new'' no_options w))\<lparr>mr_now := 3600000000\<rparr>)"

lemma gc_takes_live_record:
  "fst (memory_get (schema_docs ''a'') ''b:k'' sibling_records) = Inr (Some ''new'')"
  "fst (memory_gc_expired_keys (schema_docs ''a'') 10 sibling_records) = Inr [''b:k'']"
  "fst (memory_get (schema_docs ''a'') ''b:k'' (snd (memory_gc_expired_keys (schema_docs ''a'') 10 sibling_records))) = Inr None"
  "dget (bucket (schema_docs ''a'') (snd (memory_gc_expired_keys (schema_docs ''a'') 10 sibling_records))) ''user:ab:k'' \<noteq> None"
  by code_simp+

text \<open>Listing is not exact there either: \<open>user=a\<close>, which has no record, lists a key that it cannot read.\<close>

lemma scan_lists_sibling:
  "fst (memory_scan_entries (schema_docs ''a'') None True (snd (memory_set (schema_docs ''ab'') ''k'' ''v'' no_options (empty_root 0))))
     = Inr [(''b:k'', Some ''v'')]"
  "fst (memory_get (schema_docs ''a'') ''b:k'' (snd (memory_set (schema_docs ''ab'') ''k'' ''v'' no_options (empty_root 0)))) = Inr None"
  by code_simp+

end
