(* ===== verification/Fill_Laws.thy ===== *)
theory Fill_Laws
  imports Store
begin

text \<open>
  The accounting of \<open>fill_missing\<close> (\<open>src/kvtsjl/store/logical.py\<close>): every key it finds missing
  is written, lost to another writer, or no longer in the source, and it never writes more
  than its limit.
\<close>

section \<open>What the counts say\<close>

definition accounted :: "fill_stats \<Rightarrow> bool" where
  "accounted st \<longleftrightarrow> fs_missing st = fs_written st + fs_lost_race st + fs_source_miss st
     \<and> fs_missing st \<le> fs_scanned st \<and> 0 \<le> fs_written st \<and> 0 \<le> fs_lost_race st \<and> 0 \<le> fs_source_miss st"

definition within :: "int option \<Rightarrow> fill_stats \<Rightarrow> bool" where
  "within limit st \<longleftrightarrow> (case limit of None \<Rightarrow> True | Some l \<Rightarrow> fs_written st \<le> l)"

text \<open>The counts with \<open>n\<close> copies gathered and not yet written.\<close>

definition accounted_but :: "nat \<Rightarrow> fill_stats \<Rightarrow> bool" where
  "accounted_but n st \<longleftrightarrow> fs_missing st = fs_written st + fs_lost_race st + fs_source_miss st + int n
     \<and> fs_missing st \<le> fs_scanned st \<and> 0 \<le> fs_written st \<and> 0 \<le> fs_lost_race st \<and> 0 \<le> fs_source_miss st"

lemma accounted_but_0: "accounted_but 0 st \<longleftrightarrow> accounted st"
  by (simp add: accounted_but_def accounted_def)

lemma gather_copies_law:
  assumes "distinct ks" "dict_ok cs" "set (dkeys cs) \<inter> set ks = {}" "accounted_but (length cs) st"
    and "case b of None \<Rightarrow> True | Some n \<Rightarrow> int (length cs) < n"
    and "gather_copies b wn fd cl ks st cs = (rest, st', cs')"
  shows "distinct rest \<and> dict_ok cs' \<and> accounted_but (length cs') st' \<and> fs_written st' = fs_written st
    \<and> (case b of None \<Rightarrow> True | Some n \<Rightarrow> int (length cs') \<le> n)"
  using assms
proof (induction ks arbitrary: st cs)
  case Nil
  then show ?case by (auto split: option.splits)
next
  case (Cons k ks)
  let ?st = "st\<lparr>fs_scanned := fs_scanned st + 1\<rparr>"
  let ?found = "\<lambda>v. dput k (ConditionalWrite absent (Put v) (clock_of (dget cl k))) cs"
  from Cons.prems(1,3) have ks: "distinct ks" "k \<notin> set (dkeys cs)" "set (dkeys cs) \<inter> set ks = {}" "k \<notin> set ks" by auto
  show ?case
  proof (cases "k \<in> wn")
    case False
    have "accounted_but (length cs) ?st" using Cons.prems(4) by (simp add: accounted_but_def)
    from Cons.IH [OF ks(1) Cons.prems(2) ks(3) this Cons.prems(5)] Cons.prems(6) False show ?thesis by (simp add: Let_def)
  next
    case True
    let ?st = "st\<lparr>fs_scanned := fs_scanned st + 1, fs_missing := fs_missing st + 1\<rparr>"
    show ?thesis
    proof (cases "dget fd k")
      case None
      have "accounted_but (length cs) (?st\<lparr>fs_source_miss := fs_source_miss st + 1\<rparr>)"
        using Cons.prems(4) by (simp add: accounted_but_def)
      from Cons.IH [OF ks(1) Cons.prems(2) ks(3) this Cons.prems(5)] Cons.prems(6) True None show ?thesis by (simp add: Let_def)
    next
      case (Some v)
      have len: "length (?found v) = Suc (length cs)" by (subst dput_new [OF ks(2)]) simp
      have acc: "accounted_but (length (?found v)) ?st" unfolding len using Cons.prems(4) by (simp add: accounted_but_def)
      have ok: "dict_ok (?found v)" "set (dkeys (?found v)) \<inter> set ks = {}" using Cons.prems(2) ks by auto
      show ?thesis
      proof (cases "case b of None \<Rightarrow> False | Some n \<Rightarrow> int (length (?found v)) \<ge> n")
        case True
        then obtain n where n: "b = Some n" "int (length (?found v)) \<ge> n" by (auto split: option.splits)
        with Cons.prems(6) \<open>k \<in> wn\<close> Some have "rest = ks" "st' = ?st" "cs' = ?found v" by (simp_all add: Let_def)
        with acc ok ks(1) Cons.prems(5) n(1) len show ?thesis by simp
      next
        case False
        then have "case b of None \<Rightarrow> True | Some n \<Rightarrow> int (length (?found v)) < n" by (auto split: option.splits)
        from Cons.IH [OF ks(1) ok acc this] Cons.prems(6) \<open>k \<in> wn\<close> Some False show ?thesis by (simp add: Let_def)
      qed
    qed
  qed
qed

text \<open>A conditional batch reports keys it was given.\<close>

definition wins_asked :: "('w, 'k, 'v) keymap \<Rightarrow> bool" where
  "wins_asked km \<longleftrightarrow> (\<forall>ws ttl w won w'. km_batch_write_if_unchanged km ws ttl w = (Inr won, w') \<longrightarrow> won \<subseteq> set (dkeys ws))"

lemma won_bound: "wins_asked km \<Longrightarrow> km_batch_write_if_unchanged km ws ttl w = (Inr won, w') \<Longrightarrow> card won \<le> length ws"
  unfolding wins_asked_def by (metis card_length card_mono finite_set le_trans length_map)

lemma fill_page_law:
  assumes "wins_asked km" "distinct ks" "accounted st" "within limit st"
    and "fill_page km limit wn fd cl ks st w = (Inr (stop, st'), w')"
  shows "accounted st' \<and> within limit st'"
  using assms
proof (induction km limit wn fd cl ks st arbitrary: w rule: fill_page.induct)
  case (1 km limit wn fd cl ks st)
  show ?case
  proof (cases "case limit of None \<Rightarrow> False | Some l \<Rightarrow> fs_written st \<ge> l")
    case True
    with 1(6) have "st' = st" by (subst (asm) fill_page.simps) simp
    with 1(4,5) show ?thesis by simp
  next
    case False
    let ?b = "map_option (\<lambda>l. l - fs_written st) limit"
    obtain rest st1 cs where g: "gather_copies ?b wn fd cl ks st [] = (rest, st1, cs)" by (metis prod_cases3)
    have "case ?b of None \<Rightarrow> True | Some n \<Rightarrow> int (length ([] :: ('b \<times> 'c cond_write) list)) < n"
      using False by (auto split: option.splits)
    from gather_copies_law [OF 1(3) _ _ _ this g] 1(4)
    have gl: "distinct rest" "dict_ok cs" "accounted_but (length cs) st1" "fs_written st1 = fs_written st"
      "case ?b of None \<Rightarrow> True | Some n \<Rightarrow> int (length cs) \<le> n" by (auto simp: accounted_but_0)
    show ?thesis
    proof (cases "cs = []")
      case True
      with 1(6) False g have "st' = st1" by (subst (asm) fill_page.simps) simp
      with gl(3,4) 1(5) True show ?thesis by (auto simp: accounted_but_0 within_def split: option.splits)
    next
      case nonempty: False
      from 1(6) False g nonempty obtain won w1 where
        won: "km_batch_write_if_unchanged km cs None w = (Inr won, w1)"
        and run: "fill_page km limit wn fd cl rest (st1\<lparr>fs_written := fs_written st1 + int (card won),
                      fs_lost_race := fs_lost_race st1 + (int (length cs) - int (card won))\<rparr>) w1 = (Inr (stop, st'), w')"
        by (subst (asm) fill_page.simps) (auto simp: bindP_run split: prod.splits sum.splits)
      from won_bound [OF 1(2) won] have card: "card won \<le> length cs" .
      let ?st = "st1\<lparr>fs_written := fs_written st1 + int (card won),
                      fs_lost_race := fs_lost_race st1 + (int (length cs) - int (card won))\<rparr>"
      have "accounted ?st" using gl(3) card by (simp add: accounted_but_def accounted_def)
      moreover have "within limit ?st"
        using gl(4,5) card False by (auto simp: within_def split: option.splits)
      ultimately show ?thesis using 1(1) [OF False g [symmetric] refl nonempty 1(2) gl(1) _ _ run] by blast
    qed
  qed
qed

text \<open>Each page lists a key once.\<close>

definition pages_distinct :: "('w, 'k, 'v) missing_pages \<Rightarrow> bool" where
  "pages_distinct pages \<longleftrightarrow> (\<forall>m \<in> set pages. \<forall>w page w'. m w = (Inr page, w') \<longrightarrow> distinct (mp_listed page))"

lemma fill_pages_law:
  assumes "wins_asked (st_keymap st)" "pages_distinct pages" "accounted stats" "within limit stats"
    and "fill_pages st limit pages stats w = (Inr stats', w')"
  shows "accounted stats' \<and> within limit stats'"
  using assms(2-)
proof (induction pages arbitrary: stats w)
  case (Cons m pages)
  from Cons.prems(4) obtain page w1 found w2 clocks w3 stop stats1 w4 where
    m: "m w = (Inr page, w1)"
    and page: "fill_page (st_keymap st) limit (set (mp_missing page)) found clocks (mp_listed page) stats w3 = (Inr (stop, stats1), w4)"
    and rest: "(if stop then returnP stats1 else fill_pages st limit pages stats1) w4 = (Inr stats', w')"
    by (auto simp: bindP_run split: prod.splits sum.splits)
  from Cons.prems(1) m have "distinct (mp_listed page)" by (auto simp: pages_distinct_def)
  from fill_page_law [OF assms(1) this Cons.prems(2,3) page] have "accounted stats1" "within limit stats1" by simp_all
  moreover have "pages_distinct pages" using Cons.prems(1) by (simp add: pages_distinct_def)
  ultimately show ?case using rest Cons.IH by (cases stop) auto
qed simp

end
