(* ===== verification/Composition_Stores.thy ===== *)
theory Composition_Stores
  imports Memory_Properties Composition_Zip Fill_Laws
begin

text \<open>
  In-memory stores composed: \<open>fallback_read\<close> and \<open>mirror\<close> of two of them, each on a media
  of its own.
\<close>

section \<open>A store on one of two media\<close>

definition left_store :: "('w, 'k, 'v) store \<Rightarrow> ('w \<times> 'u, 'k, 'v) store" where
  "left_store st = \<lparr>
     st_keymap = left_keymap (st_keymap st), st_batch_size = st_batch_size st,
     st_supports_write_clock = st_supports_write_clock st, st_writes_are_deferred = st_writes_are_deferred st,
     st_gc_expired_keys = \<lambda>n. on_fst (st_gc_expired_keys st n), st_scan_keys = \<lambda>n. on_fst (st_scan_keys st n),
     st_missing_pages = \<lambda>n. mapP (map (\<lambda>m. mapP (\<lambda>p. \<lparr>mp_listed = mp_listed p, mp_missing = mp_missing p,
       mp_read = \<lambda>ks. on_fst (mp_read p ks), mp_stat = \<lambda>ks. on_fst (mp_stat p ks)\<rparr>) (on_fst m))) (on_fst (st_missing_pages st n)),
     st_pending_index_syncs = \<lambda>n. st_pending_index_syncs st (fst n),
     st_flush_index_syncs = on_fst (st_flush_index_syncs st), st_discard_index_syncs = on_fst (st_discard_index_syncs st)\<rparr>"

definition right_store :: "('u, 'k, 'v) store \<Rightarrow> ('w \<times> 'u, 'k, 'v) store" where
  "right_store st = \<lparr>
     st_keymap = right_keymap (st_keymap st), st_batch_size = st_batch_size st,
     st_supports_write_clock = st_supports_write_clock st, st_writes_are_deferred = st_writes_are_deferred st,
     st_gc_expired_keys = \<lambda>n. on_snd (st_gc_expired_keys st n), st_scan_keys = \<lambda>n. on_snd (st_scan_keys st n),
     st_missing_pages = \<lambda>n. mapP (map (\<lambda>m. mapP (\<lambda>p. \<lparr>mp_listed = mp_listed p, mp_missing = mp_missing p,
       mp_read = \<lambda>ks. on_snd (mp_read p ks), mp_stat = \<lambda>ks. on_snd (mp_stat p ks)\<rparr>) (on_snd m))) (on_snd (st_missing_pages st n)),
     st_pending_index_syncs = \<lambda>n. st_pending_index_syncs st (snd n),
     st_flush_index_syncs = on_snd (st_flush_index_syncs st), st_discard_index_syncs = on_snd (st_discard_index_syncs st)\<rparr>"

lemma store_target_reads:
  assumes "store_target ident name role st slot lookup fill policy = Inr t"
  shows "t_lookup t = (case lookup of Some l \<Rightarrow> Some l | None \<Rightarrow> default_lookup role)"
    "t_read t = km_get (st_keymap st)" "t_batch_read t = km_batch_get (st_keymap st)"
    "t_exists t = km_exists (st_keymap st)" "t_batch_exists t = km_batch_exists (st_keymap st)"
    "t_batch_stat t = km_batch_stat (st_keymap st)"
    "t_batch_write_if_unchanged t = kmt_batch_write_if_unchanged (st_keymap st) slot"
  using assms by (auto simp: store_target_def keymap_target_is split: sum.splits)

lemma coalesced_store_topology_is:
  "\<exists>p s. store_target 0 ''primary'' Authority primary whole None promote Required = Inr p
     \<and> store_target 1 ''secondary'' Fallback secondary whole None False Required = Inr s
     \<and> coalesced_store_topology primary secondary promote = Inr \<lparr>tp_targets = [p, s], tp_parts = [], tp_assemble = None\<rparr>"
  by (simp add: coalesced_store_topology_def declare_targets_def store_target_def keymap_target_def new_target_def Let_def
      new_topology_def all_targets_def committing_targets_def by_role_def)

section \<open>Reading through two stores\<close>

context read_through
begin

lemma fallback_read_law:
  assumes tp: "coalesced_store_topology (left_store stl) (right_store str) promote = Inr tp"
    and km: "st_keymap stl = kl" "st_keymap str = kr"
    and inv: "il w" "ir u"
  shows "\<exists>w' u'. topo_read tp k (w, u) = (Inr (case hl w k of Some v \<Rightarrow> Some v | None \<Rightarrow> hr u k), (w', u'))
    \<and> il w' \<and> ir u' \<and> hr u' = hr u
    \<and> (\<forall>j. hl w' j = hl w j
         \<or> promote \<and> hl w j = None \<and> hl w' j = hr u j)"
    and "\<exists>d w' u'. topo_batch_read tp ks (w, u) = (Inr d, (w', u'))
    \<and> (\<forall>k. dget d k = (if k \<in> set ks then (case hl w k of Some v \<Rightarrow> Some v | None \<Rightarrow> hr u k) else None))
    \<and> il w' \<and> ir u' \<and> hr u' = hr u
    \<and> (\<forall>j. hl w' j = hl w j
         \<or> promote \<and> hl w j = None \<and> hl w' j = hr u j)"
proof -
  from coalesced_store_topology_is [of "left_store stl" promote "right_store str"] tp obtain p s where
    p: "store_target 0 ''primary'' Authority (left_store stl) whole None promote Required = Inr p"
    and s: "store_target 1 ''secondary'' Fallback (right_store str) whole None False Required = Inr s"
    and tp: "tp = \<lparr>tp_targets = [p, s], tp_parts = [], tp_assemble = None\<rparr>" by auto
  have st: "st_keymap (left_store stl) = left_keymap kl"
    "st_keymap (right_store str) = right_keymap kr"
    by (simp_all add: left_store_def right_store_def km)
  note pi = store_target_is [OF p] store_target_reads [OF p] and si = store_target_is [OF s] store_target_reads [OF s]
  have rec: "whole_record tp (two_holds hl hr) (two_inv il ir)"
    and found: "\<And>k. found_in (two_holds hl hr) tp (w, u) k
        = (case hl w k of Some v \<Rightarrow> Some v | None \<Rightarrow> hr u k)"
    and ls: "lookups tp = [p, s]"
    by (rule coalesced_targets [OF _ _ _ _ _ _ _ _ _ _ _ _ _ _ _ _ _ _ tp]; simp add: pi si st)+
  have changes: "il (fst n) \<and> ir (snd n) \<and> hr (snd n) = hr u
    \<and> (\<forall>j. hl (fst n) j = hl w j
         \<or> promote \<and> hl w j = None \<and> hl (fst n) j = hr u j)"
    if "two_inv il ir n"
      "only_filled (two_holds hl hr) (lookups tp) (w, u) n" for n
    using that(1) only_promoted [of p s w u "fst n" "snd n"] that(2) by (simp add: ls pi si two_inv_def)
  have inv': "two_inv il ir (w, u)" using inv by (simp add: two_inv_def)
  from whole_record.read_law [OF rec inv', of k] found changes
  show "\<exists>w' u'. topo_read tp k (w, u) = (Inr (case hl w k of Some v \<Rightarrow> Some v | None \<Rightarrow> hr u k), (w', u'))
    \<and> il w' \<and> ir u' \<and> hr u' = hr u
    \<and> (\<forall>j. hl w' j = hl w j
         \<or> promote \<and> hl w j = None \<and> hl w' j = hr u j)"
    by (metis (no_types, lifting) prod.collapse)
  from whole_record.batch_read_law [OF rec inv', of ks] found changes
  show "\<exists>d w' u'. topo_batch_read tp ks (w, u) = (Inr d, (w', u'))
    \<and> (\<forall>k. dget d k = (if k \<in> set ks then (case hl w k of Some v \<Rightarrow> Some v | None \<Rightarrow> hr u k) else None))
    \<and> il w' \<and> ir u' \<and> hr u' = hr u
    \<and> (\<forall>j. hl w' j = hl w j
         \<or> promote \<and> hl w j = None \<and> hl w' j = hr u j)"
    by (metis (no_types, lifting) prod.collapse)
qed

end

section \<open>Two collections\<close>

locale memory_pair = l: memory_collection mbl + r: memory_collection mbr
  for mbl :: "('k, 'v) memory_backend" and mbr :: "('k, 'v) memory_backend"

sublocale memory_pair \<subseteq> through: read_through "memory_keymap mbl" "memory_holds mbl" "memory_inv mbl" "memory_live mbl"
    "memory_ver mbl" "memory_evolves mbl" "memory_keymap mbr" "memory_holds mbr" "memory_inv mbr"
  by unfold_locales

sublocale memory_pair \<subseteq> together: written_together "memory_keymap mbl" "memory_holds mbl" "memory_inv mbl" "memory_live mbl"
    "memory_keymap mbr" "memory_holds mbr" "memory_inv mbr" "memory_live mbr"
  by unfold_locales

lemma storable_pair: "storable mbl \<Longrightarrow> storable mbr \<Longrightarrow> memory_pair mbl mbr"
  by (simp add: memory_pair_def storable_collection)

interpretation docs_pair: memory_pair "docs_memory gc sc" "docs_memory gc' sc'" for gc sc gc' sc'
  by unfold_locales

context memory_pair
begin

lemmas fallback_read_law = through.fallback_read_law [of "memory_store mbl" "memory_store mbr", simplified memory_store_def store.select_convs,
  folded memory_store_def, OF _ refl refl]

lemma mirror_law:
  assumes tp: "mirror_topology (left_store (memory_store mbl)) (right_store (memory_store mbr)) policy = Inr tp"
    and inv: "memory_inv mbl w" "memory_inv mbr u"
  shows "memory_live mbl w (wo_ttl opts) (wo_created_at opts) \<Longrightarrow> memory_live mbr u (wo_ttl opts) (wo_created_at opts) \<Longrightarrow>
      \<exists>w' u'. topo_write tp k v opts ((w, u), q) = (Inr (), ((w', u'), q)) \<and> memory_inv mbl w' \<and> memory_inv mbr u'
        \<and> memory_holds mbl w' = (memory_holds mbl w)(k \<mapsto> v) \<and> memory_holds mbr u' = (memory_holds mbr u)(k \<mapsto> v)"
    and "\<exists>b w' u'. topo_delete tp k ((w, u), q) = (Inr b, ((w', u'), q)) \<and> memory_inv mbl w' \<and> memory_inv mbr u'
        \<and> memory_holds mbl w' = (memory_holds mbl w)(k := None) \<and> memory_holds mbr u' = (memory_holds mbr u)(k := None)
        \<and> (memory_holds mbl w k \<noteq> None \<longrightarrow> b)"
proof -
  have st: "st_keymap (left_store (memory_store mbl)) = left_keymap (memory_keymap mbl)"
    "st_keymap (right_store (memory_store mbr)) = right_keymap (memory_keymap mbr)"
    "\<not> st_writes_are_deferred (left_store (memory_store mbl))"
    and clock: "taken (left_store (memory_store mbl)) opts = opts" "taken (right_store (memory_store mbr)) opts = opts"
    by (simp_all add: left_store_def right_store_def memory_store_def taken_def)
  show "\<exists>w' u'. topo_write tp k v opts ((w, u), q) = (Inr (), ((w', u'), q)) \<and> memory_inv mbl w' \<and> memory_inv mbr u'
        \<and> memory_holds mbl w' = (memory_holds mbl w)(k \<mapsto> v) \<and> memory_holds mbr u' = (memory_holds mbr u)(k \<mapsto> v)"
    if "memory_live mbl w (wo_ttl opts) (wo_created_at opts)" "memory_live mbr u (wo_ttl opts) (wo_created_at opts)"
    using together.mirror_set [OF tp st inv, of opts k v q] that by (simp add: clock)
  show "\<exists>b w' u'. topo_delete tp k ((w, u), q) = (Inr b, ((w', u'), q)) \<and> memory_inv mbl w' \<and> memory_inv mbr u'
        \<and> memory_holds mbl w' = (memory_holds mbl w)(k := None) \<and> memory_holds mbr u' = (memory_holds mbr u)(k := None)
        \<and> (memory_holds mbl w k \<noteq> None \<longrightarrow> b)"
    by (rule together.mirror_delete [OF tp st inv])
qed

end

section \<open>Read or compute\<close>

text \<open>An entry written now, at the collection's own time to live, has not expired.\<close>

lemma live_by_default: "memory_live mb w None None"
proof -
  have "0 < secs" if "ttl_seconds p = Some secs" for p secs
    using that by (auto simp: ttl_seconds_def split: option.splits)
  then show ?thesis by (auto simp: memory_live_def memory_expires_at_def resolve_ttl_seconds_def clock_base_def split: option.splits)
qed

context memory_collection
begin

lemma get_or_set_law:
  assumes inv: "memory_inv mb w" and attempts: "1 \<le> attempts"
    and x: "x = (case memory_holds mb w k of Some y \<Rightarrow> y | None \<Rightarrow> v)"
  shows "\<exists>w'. get_or_set (memory_store mb) k v attempts w = (Inr (Holds (Some x)), w')
    \<and> memory_inv mb w' \<and> memory_holds mb w' = (memory_holds mb w)(k \<mapsto> x)"
proof -
  from get_step [OF inv, of k] obtain w1 where
    w1: "memory_get mb k w = (Inr (memory_holds mb w k), w1)" "memory_inv mb w1" "memory_holds mb w1 = memory_holds mb w" by blast
  have get: "km_get (st_keymap (memory_store mb)) = memory_get mb" by (simp add: memory_store_def memory_keymap_def)
  show ?thesis
  proof (cases "memory_holds mb w k")
    case (Some y)
    with w1 get show ?thesis by (auto simp: get_or_set_def bindP_run x fun_upd_idem)
  next
    case None
    have live: "memory_live mb w1 (wo_ttl no_options) (wo_created_at no_options)"
      by (simp add: no_options_def live_by_default)
    from km.batch_update_alone [OF w1(2) live attempts, of "[k]" "decide_one k (compute_absent v)"] obtain d w2 where
      w2: "batch_update (memory_keymap mb) [k] (decide_one k (compute_absent v)) no_options attempts w1 = (Inr (Held d), w2)"
        "memory_inv mb w2"
        "\<forall>j. memory_holds mb w2 j = (if j \<in> set [k]
          then decided (decision_on (decide_one k (compute_absent v) (dict_of (memory_holds mb w1) [k])) j) (memory_holds mb w1 j)
          else memory_holds mb w1 j)"
        "\<forall>j. dget d j = (if j \<in> set [k] then memory_holds mb w2 j else None)" by blast
    have "decide_one k (compute_absent v) (dict_of (memory_holds mb w1) [k]) = [(k, Change (Put v))]"
      using None w1(3) by (simp add: decide_one_def compute_absent_def)
    with w2(3) w1(3) have "memory_holds mb w2 = (memory_holds mb w)(k \<mapsto> v)" by (auto simp: fun_eq_iff)
    moreover have "update (memory_keymap mb) k (compute_absent v) no_options attempts w1 = (Inr (Holds (Some v)), w2)"
      using w2(1,4) calculation by (simp add: update_def mapP_run)
    moreover have "st_keymap (memory_store mb) = memory_keymap mb" by (simp add: memory_store_def)
    ultimately show ?thesis using None w1(1) w2(2) get by (simp add: get_or_set_def bindP_run x)
  qed
qed

lemma wins_are_asked: "wins_asked (memory_keymap mb)"
proof -
  have one: "won \<subseteq> insert k written" if "memory_write_one mb ttl (k, cw) written w = (Inr won, w')" for k cw written ttl w won w'
    using that by (cases "cw_change cw")
      (auto simp: memory_write_one_def bindP_run mapP_run liftP_def split: prod.splits sum.splits if_splits)
  have all: "won \<subseteq> written \<union> set (dkeys ws)" if "foldP (memory_write_one mb ttl) ws written w = (Inr won, w')" for ws written ttl w won w'
    using that
  proof (induction ws arbitrary: written w)
    case (Cons x ws)
    obtain k cw where x: "x = (k, cw)" by fastforce
    from Cons.prems obtain won1 w1 where w1: "memory_write_one mb ttl (k, cw) written w = (Inr won1, w1)"
      "foldP (memory_write_one mb ttl) ws won1 w1 = (Inr won, w')"
      by (auto simp: x bindP_run split: prod.splits sum.splits)
    from one [OF w1(1)] Cons.IH [OF w1(2)] show ?case by (auto simp: x)
  qed simp
  show ?thesis
    using all by (fastforce simp: wins_asked_def memory_keymap_def memory_batch_write_if_unchanged_def)
qed

end

end
