(* ===== verification/Composition_Properties.thy ===== *)
theory Composition_Properties
  imports Composition_Stores
begin

text \<open>The properties of composed keymaps and stores.\<close>

text \<open>
  C21. A \<open>fallback_read\<close> of two in-memory stores answers a read, and each key of a batch
  read, with what the primary holds, or else what the secondary holds. Reading changes no
  value but one: where \<open>promote\<close> is set, the primary may come to hold a copy of what the
  secondary holds for a key it held nothing for.
\<close>

theorem fallback_read_serves:
  assumes "storable mbl" "storable mbr" "memory_inv mbl w" "memory_inv mbr u"
    and "coalesced_store_topology (left_store (memory_store mbl)) (right_store (memory_store mbr)) promote = Inr tp"
  defines "holds \<equiv> \<lambda>k. case memory_holds mbl w k of Some v \<Rightarrow> Some v | None \<Rightarrow> memory_holds mbr u k"
    and "unchanged \<equiv> \<lambda>w' u'. memory_holds mbr u' = memory_holds mbr u \<and> (\<forall>j. memory_holds mbl w' j = memory_holds mbl w j
        \<or> (promote \<and> memory_holds mbl w j = None \<and> memory_holds mbl w' j = memory_holds mbr u j))"
  shows "(\<exists>w' u'. topo_read tp k (w, u) = (Inr (holds k), (w', u')) \<and> unchanged w' u')
    \<and> (\<exists>d w' u'. topo_batch_read tp ks (w, u) = (Inr d, (w', u')) \<and> unchanged w' u'
      \<and> (\<forall>k. dget d k = (if k \<in> set ks then holds k else None)))"
  using memory_pair.fallback_read_law [OF storable_pair [OF assms(1,2)] assms(5,3,4)]
  unfolding holds_def unchanged_def by (intro conjI) blast+

text \<open>A cache that has nothing before a store that holds a record.\<close>

abbreviation (input) doc_store :: "(mem_root, string, string) store" where
  "doc_store \<equiv> memory_store (docs_memory LazyDelete [])"

definition cached_docs :: "bool \<Rightarrow> (mem_root \<times> mem_root, string, string) topology" where
  "cached_docs promote = projr (coalesced_store_topology (left_store doc_store) (right_store doc_store) promote)"

lemma cached_docs_declared:
  "coalesced_store_topology (left_store doc_store) (right_store doc_store) promote = Inr (cached_docs promote)"
  using coalesced_store_topology_is [of "left_store doc_store" promote "right_store doc_store"] by (auto simp: cached_docs_def)

definition one_doc :: mem_root where
  "one_doc = snd (memory_set (docs_memory LazyDelete []) ''k'' ''v'' no_options (empty_root 0))"

lemma one_doc_inv: "memory_inv (docs_memory LazyDelete []) one_doc"
  and one_doc_holds: "memory_holds (docs_memory LazyDelete []) one_doc = [''k'' \<mapsto> ''v'']"
proof -
  have live: "memory_live (docs_memory LazyDelete []) (empty_root 0) (wo_ttl no_options) (wo_created_at no_options)" by code_simp
  have none: "memory_holds (docs_memory LazyDelete []) (empty_root 0) = (\<lambda>_. None)"
    by (auto simp: memory_holds_def live_at_def stored_at_def bucket_def empty_root_def fun_eq_iff split: sum.splits)
  from docs.set_step [OF memory_inv_empty, of LazyDelete "[]" "''k''" "''v''" no_options 0] live none
  show "memory_inv (docs_memory LazyDelete []) one_doc"
    and "memory_holds (docs_memory LazyDelete []) one_doc = [''k'' \<mapsto> ''v'']" by (auto simp: one_doc_def)
qed

lemma empty_holds: "memory_holds (docs_memory gc sc) (empty_root t) = (\<lambda>_. None)"
  by (auto simp: memory_holds_def live_at_def stored_at_def bucket_def empty_root_def fun_eq_iff split: sum.splits)

theorem fallback_read_serves_witness:
  "\<exists>w' u'. topo_read (cached_docs True) ''k'' (empty_root 0, one_doc) = (Inr (Some ''v''), (w', u'))"
  using fallback_read_serves [OF docs_memory_storable docs_memory_storable memory_inv_empty [of _ 0] one_doc_inv cached_docs_declared,
      of True "''k''" "[]"] by (auto simp: empty_holds one_doc_holds)

text \<open>
  C22. A \<open>mirror\<close> of two in-memory stores keeps them in step: a write at which neither
  store's copy is already expired leaves both holding the value, a deletion leaves both
  without it; other keys keep what they had in each, and a deletion answers true when the
  primary held the key.
\<close>

theorem mirror_keeps_in_step:
  assumes "storable mbl" "storable mbr" "memory_inv mbl w" "memory_inv mbr u"
    and "mirror_topology (left_store (memory_store mbl)) (right_store (memory_store mbr)) policy = Inr tp"
    and "memory_live mbl w (wo_ttl opts) (wo_created_at opts)" "memory_live mbr u (wo_ttl opts) (wo_created_at opts)"
  shows "(\<exists>w' u'. topo_write tp k v opts ((w, u), q) = (Inr (), ((w', u'), q))
        \<and> memory_holds mbl w' = (memory_holds mbl w)(k \<mapsto> v) \<and> memory_holds mbr u' = (memory_holds mbr u)(k \<mapsto> v))
    \<and> (\<exists>b w' u'. topo_delete tp k ((w, u), q) = (Inr b, ((w', u'), q))
        \<and> memory_holds mbl w' = (memory_holds mbl w)(k := None) \<and> memory_holds mbr u' = (memory_holds mbr u)(k := None)
        \<and> (memory_holds mbl w k \<noteq> None \<longrightarrow> b))"
proof -
  note law = memory_pair.mirror_law [OF storable_pair [OF assms(1,2)] assms(5,3,4)]
  show ?thesis using law(1) [OF assms(6,7), of k v q] law(2) [of k q] by (intro conjI) blast+
qed

definition mirrored_docs :: "(mem_root \<times> mem_root, string, string) topology" where
  "mirrored_docs = projr (mirror_topology (left_store doc_store) (right_store doc_store) Required)"

lemma mirrored_docs_declared: "mirror_topology (left_store doc_store) (right_store doc_store) Required = Inr mirrored_docs"
  using mirror_topology_is [of "left_store doc_store" "right_store doc_store" Required] by (auto simp: mirrored_docs_def)

theorem mirror_keeps_in_step_witness:
  "\<exists>w' u'. topo_write mirrored_docs ''a'' ''b'' no_options ((empty_root 0, one_doc), []) = (Inr (), ((w', u'), []))
    \<and> memory_holds (docs_memory LazyDelete []) w' = [''a'' \<mapsto> ''b'']
    \<and> memory_holds (docs_memory LazyDelete []) u' = [''k'' \<mapsto> ''v'', ''a'' \<mapsto> ''b'']"
proof -
  have live: "memory_live (docs_memory LazyDelete []) (empty_root 0) (wo_ttl no_options) (wo_created_at no_options)"
    "memory_live (docs_memory LazyDelete []) one_doc (wo_ttl no_options) (wo_created_at no_options)" by code_simp+
  from mirror_keeps_in_step [OF docs_memory_storable docs_memory_storable memory_inv_empty one_doc_inv mirrored_docs_declared live,
      of "''a''" "''b''" "[]"]
  show ?thesis by (simp add: empty_holds one_doc_holds)
qed

text \<open>
  C23. A row written through \<open>zip\<close> of two \<open>DictKeyMap\<close>s is read back as the row, unless it is
  absent by the mandatory flags, and no other key of either part changes.
\<close>

theorem zip_reads_back:
  assumes "zipped_topology [left_keymap dict_keymap, right_keymap dict_keymap] mandatory = Inr tp"
    and "normalize_mandatory 2 mandatory = Inr m" "dict_map_inv w" "dict_map_inv u"
  shows "\<exists>n'. km_set (zipped_keymap 2 tp) k (Tuple [a, b]) opts ((w, u), q) = (Inr (), n')
    \<and> (\<exists>n''. km_get (zipped_keymap 2 tp) k n' = (Inr (zip_row m [a, b]), n''))
    \<and> (\<forall>j. j \<noteq> k \<longrightarrow> dict_holds (fst (fst n')) j = dict_holds w j \<and> dict_holds (snd (fst n')) j = dict_holds u j)"
  using dict_zipped_together.zip_set_get [OF assms(1) _ _ assms(2-4)] by (simp add: dict_keymap_def)

lemma zipped_dicts_declared:
  "zipped_topology [left_keymap dict_keymap, right_keymap dict_keymap] None
    = Inr (zipped_dicts :: (('k, 'a obj) dict_map \<times> ('k, 'a obj) dict_map, 'k, 'a obj) topology)"
proof -
  let ?kl = "left_keymap dict_keymap :: (('k, 'a obj) dict_map \<times> ('k, 'a obj) dict_map, 'k, 'a obj) keymap"
    and ?kr = "right_keymap dict_keymap :: (('k, 'a obj) dict_map \<times> ('k, 'a obj) dict_map, 'k, 'a obj) keymap"
  have "km_creates_entries ?kl" "km_creates_entries ?kr"
    by (simp_all add: left_keymap_def right_keymap_def dict_keymap_def)
  from zipped_topology_two [OF this, of None] show ?thesis by (auto simp: zipped_dicts_def normalize_mandatory_def)
qed

theorem zip_reads_back_witness:
  "\<exists>n'. km_set (zipped_keymap 2 zipped_dicts) ''k'' (Tuple [Some (Atom (1 :: int)), None]) no_options
      ((dict_map_init [], dict_map_init []), []) = (Inr (), n')
    \<and> (\<exists>n''. km_get (zipped_keymap 2 zipped_dicts) ''k'' n' = (Inr (Some (Tuple [Some (Atom 1), None])), n''))"
proof -
  have m: "normalize_mandatory 2 None = Inr [False, False]" by code_simp
  have row: "zip_row [False, False] [Some (Atom (1 :: int)), None] = Some (Tuple [Some (Atom 1), None])" by code_simp
  have empty: "dict_ok []" by simp
  from zip_reads_back [OF zipped_dicts_declared m dict_map_init_inv [OF empty] dict_map_init_inv [OF empty],
      of "''k''" "Some (Atom (1 :: int))" None no_options "[]", unfolded row]
  show ?thesis by blast
qed

text \<open>
  C26. Read or compute. On an in-memory store, \<open>get_or_set\<close> answers what is held, or the value
  computed; that value is then held, no other key changes, and it never conflicts alone.
\<close>

theorem get_or_set_serves:
  assumes "storable mb" "memory_inv mb w" "1 \<le> attempts"
    and "x = (case memory_holds mb w k of Some y \<Rightarrow> y | None \<Rightarrow> v)"
  shows "\<exists>w'. get_or_set (memory_store mb) k v attempts w = (Inr (Holds (Some x)), w')
    \<and> memory_holds mb w' = (memory_holds mb w)(k \<mapsto> x)"
  using memory_collection.get_or_set_law [OF storable_collection [OF assms(1)] assms(2-4)] by blast

theorem get_or_set_serves_witness:
  "\<exists>w'. get_or_set doc_store ''n'' ''1'' 3 one_doc = (Inr (Holds (Some ''1'')), w')
    \<and> memory_holds (docs_memory LazyDelete []) w' = [''k'' \<mapsto> ''v'', ''n'' \<mapsto> ''1'']"
proof -
  have "''1'' = (case memory_holds (docs_memory LazyDelete []) one_doc ''n'' of Some y \<Rightarrow> y | None \<Rightarrow> ''1'')"
    by (simp add: one_doc_holds)
  from get_or_set_serves [OF docs_memory_storable one_doc_inv _ this, of 3] show ?thesis
    unfolding one_doc_holds by fastforce
qed


text \<open>Three keys listed, of which two are missing and one is in the source.\<close>

definition paged_docs :: "(mem_root, string, string) store" where
  "paged_docs = doc_store\<lparr>st_missing_pages := \<lambda>_. returnP [returnP \<lparr>mp_listed = [''a'', ''b'', ''k''], mp_missing = [''a'', ''b''],
     mp_read = \<lambda>_. returnP [(''a'', ''x'')], mp_stat = \<lambda>_. returnP []\<rparr>]\<rparr>"


section \<open>Where a law is not kept\<close>

text \<open>
  A best-effort index that does not support the write makes the write succeed: what
  \<open>_each\<close> raises wraps the refusal, and is tolerated.
\<close>

definition refusing_index :: "(mem_root \<times> mem_root, string, string) index" where
  "refusing_index = \<lparr>ix_name = ''search'', ix_sync_on_write = True,
     ix_sync = \<lambda>_ _. raiseP IndexUnsupported, ix_batch_sync = \<lambda>_. raiseP IndexUnsupported,
     ix_delete = \<lambda>_. raiseP IndexUnsupported, ix_batch_delete = \<lambda>_. raiseP IndexUnsupported\<rparr>"

lemma unsupported_index_tolerated:
  "fst (topo_write (projr (indexed_topology (left_store doc_store) [refusing_index] BestEffort))
     ''k'' ''v'' no_options ((empty_root 0, empty_root 0), [])) = Inr ()"
  "fst (topo_write (projr (indexed_topology (left_store doc_store) [refusing_index] Required))
     ''k'' ''v'' no_options ((empty_root 0, empty_root 0), [])) \<noteq> Inr ()"
  by code_simp+

text \<open>A source that fails to answer \<open>batch_stat\<close> fails the read that found its value.\<close>

definition statless_store :: "(mem_root \<times> mem_root, string, string) store" where
  "statless_store = (let st = right_store doc_store
     in st\<lparr>st_keymap := (st_keymap st)\<lparr>km_batch_stat := \<lambda>_. raiseP (MediumFailure 0)\<rparr>\<rparr>)"

lemma failing_stat_fails_read:
  "fst (km_get (st_keymap statless_store) ''k'' (empty_root 0, one_doc)) = Inr (Some ''v'')"
  "fst (topo_read (projr (coalesced_store_topology (left_store doc_store) statless_store True)) ''k'' (empty_root 0, one_doc))
     = Inl (MediumFailure 0)"
  by code_simp+

end
