(* ===== verification/Generators.thy ===== *)
theory Generators
  imports Effects
begin

text \<open>
  Python generators. A generator ends, raises, yields an element, or does something to the
  media before it goes on: its consumer decides when, and whether, it is resumed, so what it
  does interleaves with what its consumer does. A \<open>for\<close> loop over a generator is
  \<open>for_each\<close>, whose body receives the continuation of the loop; a body that does not use it
  breaks out, and the generator is resumed no more.
\<close>

datatype ('w, 'a) gen =
    Done
  | Raise exn
  | Yield 'a "('w, 'a) gen"
  | Step "'w \<Rightarrow> ('w, 'a) gen \<times> 'w"

section \<open>Loops over generators\<close>

primrec for_each ::
  "('a \<Rightarrow> ('s \<Rightarrow> ('w, 'b) gen) \<Rightarrow> 's \<Rightarrow> ('w, 'b) gen) \<Rightarrow> ('s \<Rightarrow> ('w, 'b) gen) \<Rightarrow> ('w, 'a) gen \<Rightarrow> 's \<Rightarrow> ('w, 'b) gen" where
  "for_each body finish Done = finish"
| "for_each body finish (Raise e) = (\<lambda>s. Raise e)"
| "for_each body finish (Yield a g) = body a (for_each body finish g)"
| "for_each body finish (Step m) = (\<lambda>s. Step (\<lambda>w. map_prod (\<lambda>k. k s) id (map_prod (for_each body finish) id (m w))))"

definition gmap :: "('a \<Rightarrow> 'b) \<Rightarrow> ('w, 'a) gen \<Rightarrow> ('w, 'b) gen" where
  "gmap f g = for_each (\<lambda>a continue s. Yield (f a) (continue s)) (\<lambda>_. Done) g ()"

text \<open>\<open>yield from\<close> a list, then go on; a computation run when the generator is resumed.\<close>

primrec yield_all :: "'a list \<Rightarrow> ('w, 'a) gen \<Rightarrow> ('w, 'a) gen" where
  "yield_all [] g = g"
| "yield_all (a # as) g = Yield a (yield_all as g)"

definition await :: "('w, 'a) prog \<Rightarrow> ('a \<Rightarrow> ('w, 'b) gen) \<Rightarrow> ('w, 'b) gen" where
  "await m k = Step (\<lambda>w. case m w of (r, w') \<Rightarrow> (case r of Inl e \<Rightarrow> Raise e | Inr a \<Rightarrow> k a, w'))"

fun raise_or :: "exn + 'a \<Rightarrow> ('a \<Rightarrow> ('w, 'b) gen) \<Rightarrow> ('w, 'b) gen" where
  "raise_or (Inl e) k = Raise e"
| "raise_or (Inr a) k = k a"

text \<open>\<open>list(g)\<close>.\<close>

primrec drain :: "('w, 'a) gen \<Rightarrow> ('w, 'a list) prog" where
  "drain Done = returnP []"
| "drain (Raise e) = raiseP e"
| "drain (Yield a g) = mapP (\<lambda>as. a # as) (drain g)"
| "drain (Step m) = (\<lambda>w. case map_prod drain id (m w) of (p, w') \<Rightarrow> p w')"

text \<open>A generator on one of two media.\<close>

primrec gen_fst :: "('w, 'a) gen \<Rightarrow> ('w \<times> 'u, 'a) gen" where
  "gen_fst Done = Done"
| "gen_fst (Raise e) = Raise e"
| "gen_fst (Yield a g) = Yield a (gen_fst g)"
| "gen_fst (Step m) = Step (\<lambda>(w, u). case map_prod gen_fst id (m w) of (g, w') \<Rightarrow> (g, (w', u)))"

primrec gen_snd :: "('u, 'a) gen \<Rightarrow> ('w \<times> 'u, 'a) gen" where
  "gen_snd Done = Done"
| "gen_snd (Raise e) = Raise e"
| "gen_snd (Yield a g) = Yield a (gen_snd g)"
| "gen_snd (Step m) = Step (\<lambda>(w, u). case map_prod gen_snd id (m u) of (g, u') \<Rightarrow> (g, (w, u')))"

section \<open>What a generator yields while an invariant of the media holds\<close>

text \<open>
  Resumed at any media that satisfy \<open>I\<close>, whatever its consumer did to them in between, the
  generator yields these elements, keeps \<open>I\<close> and ends.
\<close>

inductive yields :: "('w \<Rightarrow> bool) \<Rightarrow> ('w, 'a) gen \<Rightarrow> 'a list \<Rightarrow> bool" for I where
  yields_Done [intro]: "yields I Done []"
| yields_Yield [intro]: "yields I g as \<Longrightarrow> yields I (Yield a g) (a # as)"
| yields_Step: "(\<And>w. I w \<Longrightarrow> yields I (fst (m w)) as) \<Longrightarrow> (\<And>w. I w \<Longrightarrow> I (snd (m w))) \<Longrightarrow> yields I (Step m) as"

inductive_simps yields_simps [simp]:
  "yields I Done as"
  "yields I (Raise e) as"
  "yields I (Yield a g) as"

lemma yields_drain:
  assumes "yields I g as" "I w"
  shows "\<exists>w'. drain g w = (Inr as, w') \<and> I w'"
  using assms
proof (induction arbitrary: w)
  case (yields_Yield g as a)
  then obtain w' where "drain g w = (Inr as, w')" "I w'" by blast
  then show ?case by simp
next
  case (yields_Step m as)
  obtain g w1 where m: "m w = (g, w1)" by (cases "m w") auto
  with yields_Step.hyps(2) [OF yields_Step.prems] yields_Step.IH [OF yields_Step.prems]
  have "I w1" and ih: "\<And>w. I w \<Longrightarrow> \<exists>w'. drain g w = (Inr as, w') \<and> I w'" by (auto simp: m)
  from ih [OF this(1)] show ?case by (simp add: m)
qed simp

text \<open>The rule for loops: the body proved once, for any continuation that does its part.\<close>

lemma for_each_rule:
  assumes g: "yields I g as"
    and finish: "\<And>s. Q [] s (finish s)"
    and body: "\<And>a as s k. (\<And>s. Q as s (k s)) \<Longrightarrow> Q (a # as) s (body a k s)"
    and step: "\<And>as s m. (\<And>w. I w \<Longrightarrow> Q as s (fst (m w)) \<and> I (snd (m w))) \<Longrightarrow> Q as s (Step m)"
  shows "Q as s (for_each body finish g s)"
  using g by (induction arbitrary: s) (auto intro: finish body intro!: step)

lemma for_each_yields:
  assumes "yields I g as"
    and "\<And>s. yields I (finish s) (out [] s)"
    and "\<And>a as s k. (\<And>s. yields I (k s) (out as s)) \<Longrightarrow> yields I (body a k s) (out (a # as) s)"
  shows "yields I (for_each body finish g s) (out as s)"
  using assms(1) by (rule for_each_rule [where Q = "\<lambda>as s g. yields I g (out as s)"])
    (use assms(2,3) in \<open>auto intro: yields_Step\<close>)

lemma gmap_yields:
  assumes "yields I g as" shows "yields I (gmap f g) (map f as)"
  unfolding gmap_def using assms
  by (rule for_each_yields [where out = "\<lambda>as _. map f as"]) auto

lemma yield_all_yields: "yields I g as \<Longrightarrow> yields I (yield_all bs g) (bs @ as)"
  by (induction bs) auto

lemma await_yields:
  assumes "\<And>w. I w \<Longrightarrow> \<exists>a w'. m w = (Inr a, w') \<and> I w' \<and> yields I (k a) as"
  shows "yields I (await m k) as"
  unfolding await_def
proof (rule yields_Step)
  fix w assume "I w"
  from assms [OF this] obtain a w' where "m w = (Inr a, w')" "I w'" "yields I (k a) as" by blast
  then show "yields I (fst (case m w of (r, w') \<Rightarrow> (case r of Inl e \<Rightarrow> Raise e | Inr a \<Rightarrow> k a, w'))) as"
    and "I (snd (case m w of (r, w') \<Rightarrow> (case r of Inl e \<Rightarrow> Raise e | Inr a \<Rightarrow> k a, w')))" by simp_all
qed

lemma gen_fst_yields:
  assumes "yields I g as" "\<And>w u. J (w, u) \<Longrightarrow> I w" "\<And>w w' u. J (w, u) \<Longrightarrow> I w' \<Longrightarrow> J (w', u)"
  shows "yields J (gen_fst g) as"
  using assms(1)
proof induction
  case (yields_Step m as)
  show ?case
  proof (simp, rule yields.yields_Step)
    fix wu assume J: "J wu"
    obtain w u where wu: "wu = (w, u)" by (cases wu)
    obtain g w1 where m: "m w = (g, w1)" by (cases "m w") auto
    from J wu have "I w" using assms(2) by blast
    from yields_Step.IH [OF this] yields_Step.hyps(2) [OF this] J wu assms(3) [of w u w1] m
    show "yields J (fst (case wu of (w, u) \<Rightarrow> case map_prod gen_fst id (m w) of (g, w') \<Rightarrow> (g, w', u))) as"
      and "J (snd (case wu of (w, u) \<Rightarrow> case map_prod gen_fst id (m w) of (g, w') \<Rightarrow> (g, w', u)))" by simp_all
  qed
qed simp_all

lemma gen_snd_yields:
  assumes "yields I g as" "\<And>w u. J (w, u) \<Longrightarrow> I u" "\<And>w u u'. J (w, u) \<Longrightarrow> I u' \<Longrightarrow> J (w, u')"
  shows "yields J (gen_snd g) as"
  using assms(1)
proof induction
  case (yields_Step m as)
  show ?case
  proof (simp, rule yields.yields_Step)
    fix wu assume J: "J wu"
    obtain w u where wu: "wu = (w, u)" by (cases wu)
    obtain g u1 where m: "m u = (g, u1)" by (cases "m u") auto
    from J wu have "I u" using assms(2) by blast
    from yields_Step.IH [OF this] yields_Step.hyps(2) [OF this] J wu assms(3) [of w u u1] m
    show "yields J (fst (case wu of (w, u) \<Rightarrow> case map_prod gen_snd id (m u) of (g, u') \<Rightarrow> (g, w, u'))) as"
      and "J (snd (case wu of (w, u) \<Rightarrow> case map_prod gen_snd id (m u) of (g, u') \<Rightarrow> (g, w, u')))" by simp_all
  qed
qed simp_all

end
