(* ===== verification/Glob.thy ===== *)
theory Glob
  imports Prelude
begin

text \<open>
  Shell patterns as \<open>fnmatch\<close> of Python's standard library matches them: \<open>*\<close>, \<open>?\<close> and
  \<open>[...]\<close>, over the characters of the text. Text is the list of its UTF-8 bytes, so a
  character is a byte with the continuation bytes that follow it; their order is the
  order of code points. Case is significant, as it is on POSIX.
\<close>

section \<open>Text\<close>

definition continuation_byte :: "char \<Rightarrow> bool" where
  "continuation_byte c \<longleftrightarrow> (of_char c :: nat) div 64 = 2"

primrec characters :: "string \<Rightarrow> string list" where
  "characters [] = []"
| "characters (b # bs) = (case characters bs of
      [] \<Rightarrow> [[b]]
    | c # cs \<Rightarrow> if c \<noteq> [] \<and> continuation_byte (hd c) then (b # c) # cs else [b] # c # cs)"

fun str_less :: "string \<Rightarrow> string \<Rightarrow> bool" where
  "str_less s [] = False"
| "str_less [] (y # ys) = True"
| "str_less (x # xs) (y # ys) = ((of_char x :: nat) < of_char y \<or> (x = y \<and> str_less xs ys))"

section \<open>Patterns\<close>

datatype glob_item = Single string | Range string string

datatype glob_part = AnyText | AnyChar | OneOf bool "glob_item list" | Exactly string

text \<open>The items of a bracket: a hyphen between two characters makes a range, others stand for themselves.\<close>

fun glob_items :: "string list \<Rightarrow> glob_item list" where
  "glob_items (a # h # b # cs) = (if h = ''-'' then Range a b # glob_items cs else Single a # glob_items (h # b # cs))"
| "glob_items (a # cs) = Single a # glob_items cs"
| "glob_items [] = []"

fun empty_range :: "glob_item \<Rightarrow> bool" where
  "empty_range (Range a b) = str_less b a"
| "empty_range (Single _) = False"

text \<open>
  Empty ranges are removed before the bracket becomes a regular expression, and what is left
  is negated if it then begins with an exclamation mark.
\<close>

fun glob_bracket :: "glob_item list \<Rightarrow> glob_part" where
  "glob_bracket (Single a # items) = (if a = ''!'' then OneOf False items else OneOf True (Single a # items))"
| "glob_bracket (Range a b # items) =
     (if a = ''!'' then OneOf False (Single ''-'' # Single b # items) else OneOf True (Range a b # items))"
| "glob_bracket [] = OneOf True []"

definition glob_set :: "string list \<Rightarrow> glob_part" where
  "glob_set cs = (let (negated, body) = (case cs of c # cs' \<Rightarrow> if c = ''!'' then (True, cs') else (False, cs) | [] \<Rightarrow> (False, []));
       items = filter (\<lambda>item. \<not> empty_range item) (glob_items body)
     in if negated then OneOf False items else glob_bracket items)"

text \<open>
  The closing bracket of a bracket opened before these characters: a bracket right at the
  start, or after the exclamation mark, does not close.
\<close>

definition closing :: "string list \<Rightarrow> nat option" where
  "closing cs = (let i = (if take 1 cs = [''!''] then 1 else 0);
       j = (if take 1 (drop i cs) = ['']''] then Suc i else i);
       rest = takeWhile (\<lambda>c. c \<noteq> '']'') (drop j cs)
     in if j + length rest < length cs then Some (j + length rest) else None)"

fun glob_parse :: "nat \<Rightarrow> string list \<Rightarrow> glob_part list" where
  "glob_parse skip [] = []"
| "glob_parse (Suc skip) (c # cs) = glob_parse skip cs"
| "glob_parse 0 (c # cs) =
     (if c = ''*'' then AnyText # glob_parse 0 cs
      else if c = ''?'' then AnyChar # glob_parse 0 cs
      else if c = ''['' then (case closing cs of
           None \<Rightarrow> Exactly c # glob_parse 0 cs
         | Some n \<Rightarrow> glob_set (take n cs) # glob_parse (Suc n) cs)
      else Exactly c # glob_parse 0 cs)"

section \<open>Matching\<close>

fun item_matches :: "string \<Rightarrow> glob_item \<Rightarrow> bool" where
  "item_matches c (Single a) = (c = a)"
| "item_matches c (Range a b) = (\<not> str_less c a \<and> \<not> str_less b c)"

fun part_matches :: "glob_part \<Rightarrow> string \<Rightarrow> bool" where
  "part_matches AnyText c = True"
| "part_matches AnyChar c = True"
| "part_matches (OneOf member items) c = (list_ex (item_matches c) items = member)"
| "part_matches (Exactly a) c = (c = a)"

fun glob_matches :: "glob_part list \<Rightarrow> string list \<Rightarrow> bool" where
  "glob_matches [] cs = (cs = [])"
| "glob_matches (AnyText # ps) [] = glob_matches ps []"
| "glob_matches (AnyText # ps) (c # cs) = (glob_matches ps (c # cs) \<or> glob_matches (AnyText # ps) cs)"
| "glob_matches (p # ps) [] = False"
| "glob_matches (p # ps) (c # cs) = (part_matches p c \<and> glob_matches ps cs)"

definition fnmatch :: "string \<Rightarrow> string \<Rightarrow> bool" where
  "fnmatch name pat = glob_matches (glob_parse 0 (characters pat)) (characters name)"

section \<open>A literal prefix followed by a star\<close>

definition glob_literal :: "string \<Rightarrow> bool" where
  "glob_literal c \<longleftrightarrow> c \<noteq> ''*'' \<and> c \<noteq> ''?'' \<and> c \<noteq> ''[''"

lemma glob_parse_literal: "list_all glob_literal cs \<Longrightarrow> glob_parse 0 (cs @ ds) = map Exactly cs @ glob_parse 0 ds"
  by (induction cs) (auto simp: glob_literal_def)

lemma glob_matches_any: "glob_matches [AnyText] cs"
  by (induction cs) auto

lemma glob_matches_exactly: "glob_matches (map Exactly cs @ ps) ds \<longleftrightarrow> (\<exists>rest. ds = cs @ rest \<and> glob_matches ps rest)"
proof (induction cs arbitrary: ds)
  case (Cons c cs)
  then show ?case by (cases ds) auto
qed simp

lemma glob_prefix_star:
  assumes "list_all glob_literal (characters p)" "characters pat = characters p @ [''*'']"
  shows "fnmatch name pat \<longleftrightarrow> (\<exists>rest. characters name = characters p @ rest)"
proof -
  have parsed: "glob_parse 0 (characters pat) = map Exactly (characters p) @ [AnyText]"
    using glob_parse_literal [OF assms(1), of "[''*'']"] by (simp add: assms(2))
  show ?thesis unfolding fnmatch_def parsed glob_matches_exactly by (simp add: glob_matches_any)
qed

text \<open>The characters of text whose first byte starts a character are that of its parts.\<close>

definition starts_character :: "string \<Rightarrow> bool" where
  "starts_character s \<longleftrightarrow> (case s of [] \<Rightarrow> True | b # _ \<Rightarrow> \<not> continuation_byte b)"

lemma characters_nonempty: "c \<in> set (characters s) \<Longrightarrow> c \<noteq> []"
  by (induction s) (auto split: list.splits if_splits)

lemma characters_hd: "s \<noteq> [] \<Longrightarrow> \<exists>c cs. characters s = (hd s # c) # cs"
  by (cases s) (auto split: list.splits)

lemma concat_characters [simp]: "concat (characters s) = s"
  by (induction s) (auto split: list.splits)

lemma characters_append:
  assumes "starts_character t"
  shows "characters (s @ t) = characters s @ characters t"
proof (induction s)
  case (Cons b s)
  show ?case
  proof (cases "characters s")
    case Nil
    then have "s = []" using characters_hd [of s] by (cases "s = []") simp_all
    moreover have "characters (b # t) = [b] # characters t"
    proof (cases t)
      case (Cons x xs)
      then obtain c cs where "characters t = (x # c) # cs" using characters_hd [of t] by auto
      with assms Cons show ?thesis by (simp add: starts_character_def)
    qed simp
    ultimately show ?thesis by simp
  next
    case (Cons c cs)
    then show ?thesis using Cons.IH by simp
  qed
qed simp

end
