(* ===== verification/Scan_Schema.thy ===== *)
theory Scan_Schema
  imports Generators Glob Store_Schema
begin

text \<open>
  Scan queries, \<open>src/kvtsjl/store/schema/scan.py\<close>: predicates over rows and their
  evaluation, the transformations that split a predicate for pushing it down, scan
  specifications, and the client-side cascade. The predicates' constructors are the
  classes (\<open>Inverted\<close> is the class \<open>Not\<close>).

  A key is any Python object. What the code asks of it besides equality is its type and
  its \<open>str()\<close>, which \<open>python\<close> gives together with the time \<open>datetime.now()\<close> returns;
  the clock stands still while rows are evaluated. Keys that are floats are not modelled.
\<close>

section \<open>Rows and predicates\<close>

datatype py_object = PyStr string | PyBytes string | PyInt int | PyBool bool | PyOther

record 'k python =
  py_object :: "'k \<Rightarrow> py_object"
  py_text :: "'k \<Rightarrow> string"
  py_now :: time

record scan_stat =
  ss_size :: "int option"
  ss_modified_at :: "time option"
  ss_expires_at :: "time option"
  ss_etag :: "string option"

record ('k, 'v) scan_row =
  sr_key :: 'k
  sr_value :: "'v option"
  sr_stat :: "scan_stat option"

definition key_row :: "'k \<Rightarrow> 'v option \<Rightarrow> ('k, 'v) scan_row" where
  "key_row k v = \<lparr>sr_key = k, sr_value = v, sr_stat = None\<rparr>"

datatype ('k, 'v) predicate =
    AlwaysTrue
  | And "('k, 'v) predicate" "('k, 'v) predicate"
  | Or "('k, 'v) predicate" "('k, 'v) predicate"
  | Inverted "('k, 'v) predicate"
  | KeyPrefix 'k
  | KeyRange (range_start: "'k option") (range_end: "'k option") (include_start: bool) (include_end: bool)
      (range_compare: "('k \<Rightarrow> 'k \<Rightarrow> exn + int) option")
  | KeyIn "'k set"
  | KeyMatches string
  | ModifiedBefore time
  | ModifiedAfter time
  | SizeBetween "int option" "int option"
  | Expired
  | ValueWhere "'v \<Rightarrow> exn + bool"

fun is_key_predicate :: "('k, 'v) predicate \<Rightarrow> bool" where
  "is_key_predicate (KeyPrefix _) = True"
| "is_key_predicate (KeyRange _ _ _ _ _) = True"
| "is_key_predicate (KeyIn _) = True"
| "is_key_predicate (KeyMatches _) = True"
| "is_key_predicate _ = False"

fun is_stat_predicate :: "('k, 'v) predicate \<Rightarrow> bool" where
  "is_stat_predicate (ModifiedBefore _) = True"
| "is_stat_predicate (ModifiedAfter _) = True"
| "is_stat_predicate (SizeBetween _ _) = True"
| "is_stat_predicate Expired = True"
| "is_stat_predicate _ = False"

fun is_value_predicate :: "('k, 'v) predicate \<Rightarrow> bool" where
  "is_value_predicate (ValueWhere _) = True"
| "is_value_predicate _ = False"

fun is_always_true :: "('k, 'v) predicate \<Rightarrow> bool" where
  "is_always_true AlwaysTrue = True"
| "is_always_true _ = False"

datatype needs = KEY | STAT | VALUE

fun needs_of :: "('k, 'v) predicate \<Rightarrow> needs set" where
  "needs_of AlwaysTrue = {}"
| "needs_of (And p q) = needs_of p \<union> needs_of q"
| "needs_of (Or p q) = needs_of p \<union> needs_of q"
| "needs_of (Inverted p) = needs_of p"
| "needs_of p = (if is_key_predicate p then {KEY} else if is_stat_predicate p then {STAT} else {VALUE})"

section \<open>Evaluation\<close>

fun starts_with_key :: "'k python \<Rightarrow> 'k \<Rightarrow> 'k \<Rightarrow> bool" where
  "starts_with_key py key pre = (case (py_object py key, py_object py pre) of
      (PyStr s, PyStr p) \<Rightarrow> take (length p) s = p
    | (PyBytes s, PyBytes p) \<Rightarrow> take (length p) s = p
    | _ \<Rightarrow> take (length (py_text py pre)) (py_text py key) = py_text py pre)"

definition order_sign :: "bool \<Rightarrow> bool \<Rightarrow> int" where
  "order_sign gt lt = (if gt then 1 else 0) - (if lt then 1 else 0)"

fun cmp_ordered_keys :: "py_object \<Rightarrow> py_object \<Rightarrow> exn + int" where
  "cmp_ordered_keys (PyStr a) (PyStr b) = Inr (order_sign (str_less b a) (str_less a b))"
| "cmp_ordered_keys (PyBytes a) (PyBytes b) = Inr (order_sign (str_less b a) (str_less a b))"
| "cmp_ordered_keys (PyInt a) (PyInt b) = Inr (order_sign (b < a) (a < b))"
| "cmp_ordered_keys _ _ = Inl PyTypeError"

definition range_cmp :: "'k python \<Rightarrow> ('k \<Rightarrow> 'k \<Rightarrow> exn + int) option \<Rightarrow> 'k \<Rightarrow> 'k \<Rightarrow> exn + int" where
  "range_cmp py compare left right = (case compare of
      Some f \<Rightarrow> f left right
    | None \<Rightarrow> cmp_ordered_keys (py_object py left) (py_object py right))"

definition in_range ::
  "'k python \<Rightarrow> 'k option \<Rightarrow> 'k option \<Rightarrow> bool \<Rightarrow> bool \<Rightarrow> ('k \<Rightarrow> 'k \<Rightarrow> exn + int) option \<Rightarrow> 'k \<Rightarrow> exn + bool" where
  "in_range py start stop inc_start inc_end compare key =
     (case (case start of None \<Rightarrow> Inr True
        | Some s \<Rightarrow> map_sum id (\<lambda>c. if inc_start then \<not> c < 0 else \<not> c \<le> 0) (range_cmp py compare key s)) of
        Inl e \<Rightarrow> Inl e
      | Inr False \<Rightarrow> Inr False
      | Inr True \<Rightarrow> (case stop of None \<Rightarrow> Inr True
        | Some t \<Rightarrow> map_sum id (\<lambda>c. if inc_end then \<not> c > 0 else \<not> c \<ge> 0) (range_cmp py compare key t)))"

text \<open>\<open>a and b\<close>, \<open>a or b\<close>: the second is evaluated only when the first leaves it open.\<close>

definition py_and :: "exn + bool \<Rightarrow> exn + bool \<Rightarrow> exn + bool" where
  "py_and a b = (case a of Inl e \<Rightarrow> Inl e | Inr False \<Rightarrow> Inr False | Inr True \<Rightarrow> b)"

definition py_or :: "exn + bool \<Rightarrow> exn + bool \<Rightarrow> exn + bool" where
  "py_or a b = (case a of Inl e \<Rightarrow> Inl e | Inr True \<Rightarrow> Inr True | Inr False \<Rightarrow> b)"

definition stat_field :: "(scan_stat \<Rightarrow> 'a option) \<Rightarrow> ('a \<Rightarrow> bool) \<Rightarrow> ('k, 'v) scan_row \<Rightarrow> bool" where
  "stat_field field test row = (case sr_stat row of None \<Rightarrow> False
     | Some stat \<Rightarrow> (case field stat of None \<Rightarrow> False | Some x \<Rightarrow> test x))"

fun evaluate :: "'k python \<Rightarrow> ('k, 'v) predicate \<Rightarrow> ('k, 'v) scan_row \<Rightarrow> exn + bool" where
  "evaluate py AlwaysTrue row = Inr True"
| "evaluate py (And p q) row = py_and (evaluate py p row) (evaluate py q row)"
| "evaluate py (Or p q) row = py_or (evaluate py p row) (evaluate py q row)"
| "evaluate py (Inverted p) row = map_sum id HOL.Not (evaluate py p row)"
| "evaluate py (KeyPrefix pre) row = Inr (starts_with_key py (sr_key row) pre)"
| "evaluate py (KeyRange start stop inc_start inc_end compare) row =
     in_range py start stop inc_start inc_end compare (sr_key row)"
| "evaluate py (KeyIn keys) row = Inr (sr_key row \<in> keys)"
| "evaluate py (KeyMatches pat) row = Inr (fnmatch (py_text py (sr_key row)) pat)"
| "evaluate py (ModifiedBefore t) row = Inr (stat_field ss_modified_at (\<lambda>m. m < t) row)"
| "evaluate py (ModifiedAfter t) row = Inr (stat_field ss_modified_at (\<lambda>m. m > t) row)"
| "evaluate py (SizeBetween lo hi) row = Inr (stat_field ss_size
     (\<lambda>n. \<not> (case lo of None \<Rightarrow> False | Some l \<Rightarrow> n < l) \<and> \<not> (case hi of None \<Rightarrow> False | Some h \<Rightarrow> n > h)) row)"
| "evaluate py Expired row = Inr (stat_field ss_expires_at (\<lambda>t. t \<le> py_now py) row)"
| "evaluate py (ValueWhere f) row = (case sr_value row of None \<Rightarrow> Inr False | Some v \<Rightarrow> f v)"

primrec all_pass :: "'k python \<Rightarrow> ('k, 'v) predicate list \<Rightarrow> ('k, 'v) scan_row \<Rightarrow> exn + bool" where
  "all_pass py [] row = Inr True"
| "all_pass py (p # ps) row = py_and (evaluate py p row) (all_pass py ps row)"

section \<open>Taking predicates apart\<close>

fun extract_key_prefix :: "('k, 'v) predicate \<Rightarrow> 'k option" where
  "extract_key_prefix (KeyPrefix pre) = Some pre"
| "extract_key_prefix (And p q) = (case extract_key_prefix p of
      Some pre \<Rightarrow> Some pre | None \<Rightarrow> extract_key_prefix q)"
| "extract_key_prefix _ = None"

fun peel_key_prefix :: "('k, 'v) predicate \<Rightarrow> 'k option \<times> ('k, 'v) predicate" where
  "peel_key_prefix (KeyPrefix pre) = (Some pre, AlwaysTrue)"
| "peel_key_prefix (And p q) = (case peel_key_prefix p of
      (Some pre, rest) \<Rightarrow> (Some pre, if is_always_true rest then q else And rest q)
    | (None, _) \<Rightarrow> (case peel_key_prefix q of
        (Some pre, rest) \<Rightarrow> (Some pre, if is_always_true rest then p else And p rest)
      | (None, _) \<Rightarrow> (None, And p q)))"
| "peel_key_prefix p = (None, p)"

fun is_key_only_predicate :: "('k, 'v) predicate \<Rightarrow> bool" where
  "is_key_only_predicate AlwaysTrue = True"
| "is_key_only_predicate (And p q) = (is_key_only_predicate p \<and> is_key_only_predicate q)"
| "is_key_only_predicate (Or p q) = (is_key_only_predicate p \<and> is_key_only_predicate q)"
| "is_key_only_predicate (Inverted p) = is_key_only_predicate p"
| "is_key_only_predicate p = is_key_predicate p"

text \<open>The conjunction of two predicates either of which may be trivial.\<close>

definition and_nontrivial :: "('k, 'v) predicate \<Rightarrow> ('k, 'v) predicate \<Rightarrow> ('k, 'v) predicate" where
  "and_nontrivial p q = (if \<not> is_always_true p \<and> \<not> is_always_true q then And p q
     else if \<not> is_always_true p then p
     else if \<not> is_always_true q then q
     else AlwaysTrue)"

fun split_key_predicates :: "('k, 'v) predicate \<Rightarrow> ('k, 'v) predicate \<times> ('k, 'v) predicate" where
  "split_key_predicates AlwaysTrue = (AlwaysTrue, AlwaysTrue)"
| "split_key_predicates (Inverted p) = (case split_key_predicates p of (key_where, residual) \<Rightarrow>
     if is_always_true residual \<and> \<not> is_always_true key_where then (Inverted key_where, AlwaysTrue)
     else if is_always_true key_where \<and> \<not> is_always_true residual then (AlwaysTrue, Inverted residual)
     else (AlwaysTrue, Inverted p))"
| "split_key_predicates (And p q) =
     (case (split_key_predicates p, split_key_predicates q) of ((lk, lr), (rk, rr)) \<Rightarrow>
        (and_nontrivial lk rk, and_nontrivial lr rr))"
| "split_key_predicates (Or p q) =
     (if is_key_only_predicate (Or p q) then (Or p q, AlwaysTrue) else (AlwaysTrue, Or p q))"
| "split_key_predicates p = (if is_key_predicate p then (p, AlwaysTrue) else (AlwaysTrue, p))"

fun is_gc_predicate :: "('k, 'v) predicate \<Rightarrow> bool" where
  "is_gc_predicate Expired = True"
| "is_gc_predicate (And p q) = (is_gc_predicate p \<and> is_gc_predicate q)"
| "is_gc_predicate (Or p q) = (is_gc_predicate p \<and> is_gc_predicate q)"
| "is_gc_predicate _ = False"

fun predicate_label :: "('k, 'v) predicate \<Rightarrow> string" where
  "predicate_label AlwaysTrue = ''AlwaysTrue''"
| "predicate_label (And p q) = ''And('' @ predicate_label p @ '', '' @ predicate_label q @ '')''"
| "predicate_label (Or p q) = ''Or('' @ predicate_label p @ '', '' @ predicate_label q @ '')''"
| "predicate_label (Inverted p) = ''Not('' @ predicate_label p @ '')''"
| "predicate_label (KeyPrefix _) = ''KeyPrefix''"
| "predicate_label (KeyRange _ _ _ _ _) = ''KeyRange''"
| "predicate_label (KeyIn _) = ''KeyIn''"
| "predicate_label (KeyMatches _) = ''KeyMatches''"
| "predicate_label (ModifiedBefore _) = ''ModifiedBefore''"
| "predicate_label (ModifiedAfter _) = ''ModifiedAfter''"
| "predicate_label (SizeBetween _ _) = ''SizeBetween''"
| "predicate_label Expired = ''Expired''"
| "predicate_label (ValueWhere _) = ''ValueWhere''"

fun flatten_and :: "('k, 'v) predicate \<Rightarrow> ('k, 'v) predicate list" where
  "flatten_and (And p q) = flatten_and p @ flatten_and q"
| "flatten_and AlwaysTrue = []"
| "flatten_and p = [p]"

definition partition_by_needs ::
  "('k, 'v) predicate \<Rightarrow> ('k, 'v) predicate list \<times> ('k, 'v) predicate list \<times> ('k, 'v) predicate list" where
  "partition_by_needs residual = (let parts = flatten_and residual in
     (filter (\<lambda>p. VALUE \<notin> needs_of p \<and> STAT \<notin> needs_of p) parts,
      filter (\<lambda>p. VALUE \<notin> needs_of p \<and> STAT \<in> needs_of p) parts,
      filter (\<lambda>p. VALUE \<in> needs_of p) parts))"

section \<open>Scan specifications\<close>

datatype projection = KEYS | STATS | ENTRIES

datatype scan_order = UNORDERED | KEY_ASC | KEY_DESC

datatype pushdown = CLIENT_SIDE | STRICT

record order_by =
  ob_column :: string
  ob_descending :: bool

record scan_cursor =
  sc_token :: string
  sc_leaf :: string

record ('k, 'v) scan_spec =
  sp_where :: "('k, 'v) predicate"
  sp_refine :: "(('k, 'v) scan_row \<Rightarrow> exn + bool) option"
  sp_project :: projection
  sp_order :: scan_order
  sp_limit :: "int option"
  sp_page_size :: int
  sp_cursor :: "scan_cursor option"
  sp_on_unsupported :: pushdown
  sp_order_by :: "order_by list"

definition default_spec :: "('k, 'v) scan_spec" where
  "default_spec = \<lparr>sp_where = AlwaysTrue, sp_refine = None, sp_project = KEYS, sp_order = UNORDERED,
     sp_limit = None, sp_page_size = 100, sp_cursor = None, sp_on_unsupported = CLIENT_SIDE, sp_order_by = []\<rparr>"

definition new_scan_spec :: "('k, 'v) scan_spec \<Rightarrow> exn + ('k, 'v) scan_spec" where
  "new_scan_spec spec = (if sp_order_by spec = [] then Inr spec
     else if sp_order spec \<noteq> UNORDERED then Inl ValueError
     else if sp_cursor spec \<noteq> None then Inl ScanUnsupported
     else Inr spec)"

text \<open>\<open>asked\<close> holds the keyword arguments; its \<open>sp_where\<close> and \<open>sp_project\<close> are given by the optional ones.\<close>

definition sugar_to_spec ::
  "'k option \<Rightarrow> bool \<Rightarrow> ('k, 'v) predicate option \<Rightarrow> projection option \<Rightarrow> ('k, 'v) scan_spec \<Rightarrow> exn + ('k, 'v) scan_spec" where
  "sugar_to_spec pre include_values where' project asked =
     (let pred = (case where' of None \<Rightarrow> AlwaysTrue | Some p \<Rightarrow> p);
          pred = (case pre of None \<Rightarrow> pred
            | Some k \<Rightarrow> if \<not> is_always_true pred then And pred (KeyPrefix k) else KeyPrefix k);
          proj = (case project of Some p \<Rightarrow> p | None \<Rightarrow> if include_values then ENTRIES else KEYS)
      in new_scan_spec (asked\<lparr>sp_where := pred, sp_project := proj\<rparr>))"

record scan_capabilities =
  cap_pushdown :: "string set"
  cap_orders :: "scan_order set"
  cap_resumable :: bool
  cap_stats :: bool
  cap_orderable_columns :: "string set option"

definition enforce_order_by_supported :: "('k, 'v) scan_spec \<Rightarrow> scan_capabilities option \<Rightarrow> exn + unit" where
  "enforce_order_by_supported spec capabilities = (if sp_order_by spec = [] then Inr ()
     else case Option.bind capabilities cap_orderable_columns of
       None \<Rightarrow> Inl ScanUnsupported
     | Some orderable \<Rightarrow> if list_ex (\<lambda>item. ob_column item \<notin> orderable) (sp_order_by spec)
         then Inl ScanUnsupported else Inr ())"

definition enforce_strict :: "('k, 'v) scan_spec \<Rightarrow> ('k, 'v) predicate \<Rightarrow> exn + unit" where
  "enforce_strict spec residual =
     (if sp_on_unsupported spec = STRICT \<and> \<not> is_always_true residual then Inl ScanUnsupported else Inr ())"

section \<open>Compiled scans\<close>

record 'k scan_query =
  sq_prefix :: "'k option"
  sq_include_values :: bool
  sq_page_size :: int

record ('w, 'k, 'v) compiled_scan =
  cm_rows :: "('w, ('k, 'v) scan_row) gen"
  cm_residual :: "('k, 'v) predicate"
  cm_pushed :: "string set"

definition spec_to_scan_query :: "('k, 'v) scan_spec \<Rightarrow> 'k scan_query" where
  "spec_to_scan_query spec = \<lparr>sq_prefix = extract_key_prefix (sp_where spec),
     sq_include_values = (sp_project spec = ENTRIES), sq_page_size = sp_page_size spec\<rparr>"

definition after_cursor :: "'k python \<Rightarrow> string \<Rightarrow> ('w, ('k, 'v) scan_row) gen \<Rightarrow> ('w, ('k, 'v) scan_row) gen" where
  "after_cursor py token rows = for_each (\<lambda>row continue started.
      if started then Yield row (continue True) else continue (py_text py (sr_key row) = token))
     (\<lambda>_. Done) rows False"

definition compile_from_scan_entries ::
  "'k python \<Rightarrow> ('k scan_query \<Rightarrow> ('w, 'k \<times> 'v option) gen) \<Rightarrow> ('k, 'v) scan_spec \<Rightarrow> exn + ('w, 'k, 'v) compiled_scan" where
  "compile_from_scan_entries py scan_entries spec = (case peel_key_prefix (sp_where spec) of (pre, residual) \<Rightarrow>
     let query = \<lparr>sq_prefix = pre, sq_include_values = (sp_project spec = ENTRIES), sq_page_size = sp_page_size spec\<rparr>;
         rows_iter = gmap (\<lambda>(k, v). key_row k v) (scan_entries query);
         rows = (case sp_cursor spec of None \<Rightarrow> rows_iter | Some cursor \<Rightarrow> after_cursor py (sc_token cursor) rows_iter)
     in map_sum id (\<lambda>_. \<lparr>cm_rows = rows, cm_residual = residual,
          cm_pushed = (if pre \<noteq> None then {''KeyPrefix''} else {})\<rparr>) (enforce_strict spec residual))"

section \<open>The cascade\<close>

text \<open>
  \<open>apply_cascade\<close>: the state of its loop is the number of rows yielded and the rows that wait
  for their values (\<open>pending_keys\<close> with \<open>pending_rows\<close>). Popping the row of a key that waits
  twice raises \<open>KeyError\<close>.
\<close>

record ('w, 'k, 'v) cascade =
  cs_key :: "('k, 'v) predicate list"
  cs_stat :: "('k, 'v) predicate list"
  cs_value :: "('k, 'v) predicate list"
  cs_batch_get :: "('k list \<Rightarrow> ('w, ('k, 'v) dict) prog) option"
  cs_refine :: "(('k, 'v) scan_row \<Rightarrow> exn + bool) option"
  cs_limit :: "int option"
  cs_project :: projection

definition cascade_page :: nat where
  "cascade_page = 100"

fun project_row :: "projection \<Rightarrow> ('k, 'v) scan_row \<Rightarrow> ('k, 'v) scan_row" where
  "project_row KEYS row = row\<lparr>sr_value := None, sr_stat := None\<rparr>"
| "project_row STATS row = row\<lparr>sr_value := None\<rparr>"
| "project_row ENTRIES row = row"

definition reached :: "('w, 'k, 'v) cascade \<Rightarrow> int \<Rightarrow> bool" where
  "reached cs yielded = (case cs_limit cs of None \<Rightarrow> False | Some limit \<Rightarrow> yielded \<ge> limit)"

definition refine_pass :: "('w, 'k, 'v) cascade \<Rightarrow> ('k, 'v) scan_row \<Rightarrow> exn + bool" where
  "refine_pass cs row = (case cs_refine cs of None \<Rightarrow> Inr True | Some f \<Rightarrow> f row)"

text \<open>\<open>if not test: skip\<close>, where the test may raise.\<close>

fun unless_fails :: "exn + bool \<Rightarrow> ('w, 'a) gen \<Rightarrow> ('w, 'a) gen \<Rightarrow> ('w, 'a) gen" where
  "unless_fails (Inl e) skip go = Raise e"
| "unless_fails (Inr False) skip go = skip"
| "unless_fails (Inr True) skip go = go"

primrec flush_found ::
  "'k python \<Rightarrow> ('w, 'k, 'v) cascade \<Rightarrow> ('k, 'v) dict \<Rightarrow> ('k, 'v) scan_row list \<Rightarrow> int
   \<Rightarrow> (int \<Rightarrow> ('w, ('k, 'v) scan_row) gen) \<Rightarrow> ('w, ('k, 'v) scan_row) gen" where
  "flush_found py cs found [] yielded k = k yielded"
| "flush_found py cs found (base # rows) yielded k =
     (let skip = flush_found py cs found rows yielded k in
      case dget found (sr_key base) of
        None \<Rightarrow> skip
      | Some v \<Rightarrow> let row = base\<lparr>sr_value := Some v\<rparr> in
          unless_fails (all_pass py (cs_value cs) row) skip
            (unless_fails (refine_pass cs row) skip
              (Yield (project_row (cs_project cs) row)
                (if reached cs (yielded + 1) then k (yielded + 1)
                 else flush_found py cs found rows (yielded + 1) k))))"

definition cascade_flush ::
  "'k python \<Rightarrow> ('w, 'k, 'v) cascade \<Rightarrow> ('k, 'v) scan_row list \<Rightarrow> int
   \<Rightarrow> (int \<Rightarrow> ('w, ('k, 'v) scan_row) gen) \<Rightarrow> ('w, ('k, 'v) scan_row) gen" where
  "cascade_flush py cs pending yielded k = (if pending = [] then k yielded
     else case cs_batch_get cs of None \<Rightarrow> Raise AssertionError
       | Some batch_get \<Rightarrow>
           if \<not> distinct (map sr_key pending) then Raise KeyError
           else await (batch_get (map sr_key pending)) (\<lambda>found. flush_found py cs found pending yielded k))"

definition cascade_emit ::
  "('w, 'k, 'v) cascade \<Rightarrow> ('k, 'v) scan_row \<Rightarrow> (int \<times> ('k, 'v) scan_row list \<Rightarrow> ('w, ('k, 'v) scan_row) gen)
   \<Rightarrow> int \<Rightarrow> ('k, 'v) scan_row list \<Rightarrow> ('w, ('k, 'v) scan_row) gen" where
  "cascade_emit cs row continue yielded pending =
     unless_fails (refine_pass cs row) (continue (yielded, pending))
       (Yield (project_row (cs_project cs) row) (continue (yielded + 1, pending)))"

definition cascade_row ::
  "'k python \<Rightarrow> ('w, 'k, 'v) cascade \<Rightarrow> ('k, 'v) scan_row
   \<Rightarrow> (int \<times> ('k, 'v) scan_row list \<Rightarrow> ('w, ('k, 'v) scan_row) gen) \<Rightarrow> int \<times> ('k, 'v) scan_row list
   \<Rightarrow> ('w, ('k, 'v) scan_row) gen" where
  "cascade_row py cs row continue = (\<lambda>(yielded, pending).
     if reached cs yielded then Done
     else unless_fails (all_pass py (cs_key cs) row) (continue (yielded, pending))
       (unless_fails (all_pass py (cs_stat cs) row) (continue (yielded, pending))
         (if cs_value cs \<noteq> [] \<and> sr_value row = None then
            (if cs_batch_get cs = None then Raise ScanUnsupported
             else if length (pending @ [row]) \<ge> cascade_page
               then cascade_flush py cs (pending @ [row]) yielded
                 (\<lambda>n. if reached cs n then Done else continue (n, []))
               else continue (yielded, pending @ [row]))
          else if cs_value cs \<noteq> [] then
            cascade_flush py cs pending yielded (\<lambda>n. if reached cs n then Done
              else unless_fails (all_pass py (cs_value cs) row) (continue (n, []))
                (cascade_emit cs row continue n []))
          else cascade_emit cs row continue yielded pending)))"

definition cascade_end ::
  "'k python \<Rightarrow> ('w, 'k, 'v) cascade \<Rightarrow> int \<times> ('k, 'v) scan_row list \<Rightarrow> ('w, ('k, 'v) scan_row) gen" where
  "cascade_end py cs = (\<lambda>(yielded, pending).
     if cs_value cs \<noteq> [] \<and> pending \<noteq> [] \<and> \<not> reached cs yielded
     then cascade_flush py cs pending yielded (\<lambda>_. Done) else Done)"

definition apply_cascade ::
  "'k python \<Rightarrow> ('w, ('k, 'v) scan_row) gen \<Rightarrow> ('k, 'v) predicate \<Rightarrow> ('k list \<Rightarrow> ('w, ('k, 'v) dict) prog) option
   \<Rightarrow> (('k, 'v) scan_row \<Rightarrow> exn + bool) option \<Rightarrow> int option \<Rightarrow> projection \<Rightarrow> ('w, ('k, 'v) scan_row) gen" where
  "apply_cascade py rows residual batch_get refine limit project =
     (case partition_by_needs residual of (key_p, stat_p, value_p) \<Rightarrow>
       let cs = \<lparr>cs_key = key_p, cs_stat = stat_p, cs_value = value_p, cs_batch_get = batch_get,
                 cs_refine = refine, cs_limit = limit, cs_project = project\<rparr>
       in for_each (cascade_row py cs) (cascade_end py cs) rows (0, []))"

section \<open>Plans\<close>

datatype scan_plan_node = ScanPlanNode
  (plan_name: string) (plan_pushed: "string set") (plan_residual: string) (plan_children: "scan_plan_node list")

end
