(* ===== verification/Scan_Laws.thy ===== *)
theory Scan_Laws
  imports Scan_Schema
begin

text \<open>
  What the transformations of a predicate keep, and what the cascade yields: of the rows
  it is given, in their order, those that satisfy the predicate and the refinement, with
  the values read that were not brought, up to the limit, projected.
\<close>

section \<open>Predicates taken apart\<close>

lemma is_always_true_iff [simp]: "is_always_true p \<longleftrightarrow> p = AlwaysTrue"
  by (cases p) simp_all

lemma py_and_simps [simp]:
  "py_and (Inr True) b = b" "py_and (Inr False) b = Inr False" "py_and (Inl e) b = Inl e"
  "py_and a (Inr True) = a"
  by (simp_all add: py_and_def split: sum.splits bool.splits)

lemma py_and_assoc: "py_and (py_and a b) c = py_and a (py_and b c)"
  by (simp add: py_and_def split: sum.splits bool.splits)

lemma py_and_Inr: "py_and a b = Inr c \<longleftrightarrow> (a = Inr False \<and> \<not> c) \<or> (a = Inr True \<and> b = Inr c)"
  by (auto simp: py_and_def split: sum.splits bool.splits)

lemma py_and_Inl: "py_and a b = Inl e \<longleftrightarrow> a = Inl e \<or> (a = Inr True \<and> b = Inl e)"
  by (auto simp: py_and_def split: sum.splits bool.splits)

lemma py_or_simps [simp]:
  "py_or (Inr True) b = Inr True" "py_or (Inr False) b = b" "py_or (Inl e) b = Inl e"
  by (simp_all add: py_or_def)

text \<open>A predicate is the conjunction of the prefix peeled off and the residual.\<close>

lemma peel_none: "peel_key_prefix p = (None, rest) \<Longrightarrow> rest = p"
  by (cases p) (auto split: option.splits prod.splits)

lemma peel_holds:
  assumes "peel_key_prefix p = (Some pre, rest)" "evaluate py p row = Inr b"
  shows "py_and (Inr (starts_with_key py (sr_key row) pre)) (evaluate py rest row) = Inr b"
  using assms
proof (induction p arbitrary: pre rest b)
  case (And p q)
  obtain x r where p: "peel_key_prefix p = (x, r)" by (cases "peel_key_prefix p")
  show ?case
  proof (cases x)
    case (Some y)
    from And.prems(2) have "\<exists>bp. evaluate py p row = Inr bp" by (auto simp: py_and_Inr)
    then obtain bp where bp: "evaluate py p row = Inr bp" by blast
    have pre: "pre = y" "evaluate py rest row = py_and (evaluate py r row) (evaluate py q row)"
      using And.prems(1) by (auto simp: p Some)
    from And.IH(1) [OF p [unfolded Some] bp] have "py_and (Inr (starts_with_key py (sr_key row) y)) (evaluate py r row) = Inr bp" .
    then have "evaluate py p row = py_and (Inr (starts_with_key py (sr_key row) y)) (evaluate py r row)" using bp by simp
    with And.prems(2) show ?thesis unfolding pre by (simp add: py_and_assoc)
  next
    case None
    obtain y r' where q: "peel_key_prefix q = (y, r')" by (cases "peel_key_prefix q")
    with And.prems(1) p None have y: "y = Some pre" by (auto split: option.splits)
    have rest: "evaluate py rest row = py_and (evaluate py p row) (evaluate py r' row)"
      using And.prems(1) by (auto simp: p None q y)
    show ?thesis
    proof (cases "evaluate py p row = Inr True")
      case True
      with And.prems(2) have "evaluate py q row = Inr b" by simp
      from And.IH(2) [OF q [unfolded y] this] show ?thesis unfolding rest by (simp add: True)
    next
      case False
      with And.prems(2) have "evaluate py p row = Inr False" "b = False" by (auto simp: py_and_Inr)
      then show ?thesis unfolding rest by (cases "starts_with_key py (sr_key row) pre") simp_all
    qed
  qed
qed auto

lemma peel_flatten: "peel_key_prefix p = (x, rest) \<Longrightarrow> set (flatten_and rest) \<subseteq> set (flatten_and p)"
proof (induction p arbitrary: x rest)
  case (And p q)
  obtain y r where p: "peel_key_prefix p = (y, r)" by fastforce
  obtain z r' where q: "peel_key_prefix q = (z, r')" by fastforce
  from And.IH(1) [OF p] And.IH(2) [OF q] And.prems show ?case
    by (auto simp: p q split: option.splits if_splits)
qed auto

lemma peel_needs_value: "peel_key_prefix p = (x, rest) \<Longrightarrow> VALUE \<in> needs_of rest \<longleftrightarrow> VALUE \<in> needs_of p"
proof (induction p arbitrary: x rest)
  case (And p q)
  obtain y r where p: "peel_key_prefix p = (y, r)" by fastforce
  obtain z r' where q: "peel_key_prefix q = (z, r')" by fastforce
  from And.IH(1) [OF p] And.IH(2) [OF q] And.prems show ?case
    by (auto simp: p q split: option.splits if_splits)
qed auto

text \<open>What only concerns keys is decides by the key.\<close>

lemma key_only_key: "is_key_only_predicate p \<Longrightarrow> evaluate py p row = evaluate py p (key_row (sr_key row) None)"
  by (induction p) (simp_all add: key_row_def)

lemma and_nontrivial_evaluates: "evaluate py (and_nontrivial p q) row = py_and (evaluate py p row) (evaluate py q row)"
  by (auto simp: and_nontrivial_def)

lemma and_nontrivial_key_only: "is_key_only_predicate p \<Longrightarrow> is_key_only_predicate q \<Longrightarrow> is_key_only_predicate (and_nontrivial p q)"
  by (simp add: and_nontrivial_def)

lemma split_key_only: "is_key_only_predicate (fst (split_key_predicates p))"
  by (induction p) (auto simp: and_nontrivial_key_only split: prod.splits)

lemma split_holds:
  assumes "split_key_predicates p = (kw, rest)" "evaluate py p row = Inr b" "evaluate py kw row = Inr c"
  shows "py_and (evaluate py kw row) (evaluate py rest row) = Inr b"
  using assms
proof (induction p arbitrary: kw rest b c)
  case (And p q)
  obtain lk lr where p: "split_key_predicates p = (lk, lr)" by fastforce
  obtain rk rr where q: "split_key_predicates q = (rk, rr)" by fastforce
  from And.prems(1) have kw: "kw = and_nontrivial lk rk" "rest = and_nontrivial lr rr" by (auto simp: p q)
  from And.prems(2) obtain bp where bp: "evaluate py p row = Inr bp" by (auto simp: py_and_Inr)
  from And.prems(3) kw obtain cl where cl: "evaluate py lk row = Inr cl"
    by (auto simp: and_nontrivial_evaluates py_and_Inr)
  from And.IH(1) [OF p bp cl] have l: "py_and (Inr cl) (evaluate py lr row) = Inr bp" by (simp add: cl)
  show ?case
  proof (cases cl)
    case False
    with l And.prems(2) bp show ?thesis by (simp add: kw and_nontrivial_evaluates cl)
  next
    case True
    with And.prems(3) kw have cr: "evaluate py rk row = Inr c" by (simp add: and_nontrivial_evaluates cl)
    from l True have lr: "evaluate py lr row = Inr bp" by simp
    show ?thesis
    proof (cases bp)
      case False
      with And.prems(2) bp have "b = False" by simp
      then show ?thesis using False by (cases c) (simp_all add: kw and_nontrivial_evaluates cl True cr lr)
    next
      case bpT: True
      with And.prems(2) bp have "evaluate py q row = Inr b" by simp
      from And.IH(2) [OF q this cr] show ?thesis by (simp add: kw and_nontrivial_evaluates cl True cr lr bpT)
    qed
  qed
next
  case (Inverted p)
  obtain k r where p: "split_key_predicates p = (k, r)" by fastforce
  from Inverted.prems(2) obtain bp where bp: "evaluate py p row = Inr bp" "b = (\<not> bp)"
    by (cases "evaluate py p row") auto
  consider "r = AlwaysTrue" "k \<noteq> AlwaysTrue" | "k = AlwaysTrue" "r \<noteq> AlwaysTrue"
    | "(r = AlwaysTrue) = (k = AlwaysTrue)" by blast
  then show ?case
  proof cases
    case 1
    with Inverted.prems(1) p have kw: "kw = Inverted k" "rest = AlwaysTrue" by auto
    with Inverted.prems(3) obtain ck where ck: "evaluate py k row = Inr ck" "c = (\<not> ck)"
      by (cases "evaluate py k row") auto
    from Inverted.IH [OF p bp(1) ck(1)] show ?thesis by (simp add: kw ck 1 bp(2))
  next
    case 2
    with Inverted.prems(1) p have kw: "kw = AlwaysTrue" "rest = Inverted r" by auto
    from Inverted.IH [OF p bp(1), of True] show ?thesis by (simp add: kw 2 bp(2))
  next
    case 3
    with Inverted.prems(1) p have kw: "kw = AlwaysTrue" "rest = Inverted p" by (auto split: if_splits)
    then show ?thesis by (simp add: bp)
  qed
qed (auto split: if_splits)

text \<open>A predicate made of \<open>Expired\<close> alone is \<open>Expired\<close>.\<close>

lemma gc_predicate_evaluates: "is_gc_predicate p \<Longrightarrow> evaluate py p row = evaluate py Expired row"
  by (induction p) (auto simp: py_and_def py_or_def split: bool.splits)

section \<open>The conjuncts of a residual\<close>

lemma all_pass_append: "all_pass py (ps @ qs) row = py_and (all_pass py ps row) (all_pass py qs row)"
  by (induction ps) (simp_all add: py_and_assoc)

lemma all_pass_flatten: "all_pass py (flatten_and p) row = evaluate py p row"
  by (induction p) (simp_all add: all_pass_append)

lemma needs_flatten: "(\<exists>q \<in> set (flatten_and p). n \<in> needs_of q) \<longleftrightarrow> n \<in> needs_of p"
  by (induction p) auto

text \<open>No conjunct raises on the row.\<close>

definition decides :: "'k python \<Rightarrow> ('k, 'v) predicate \<Rightarrow> ('k, 'v) scan_row \<Rightarrow> bool" where
  "decides py p row \<longleftrightarrow> (\<forall>q \<in> set (flatten_and p). \<exists>b. evaluate py q row = Inr b)"

lemma all_pass_decided:
  assumes "\<forall>q \<in> set ps. \<exists>b. evaluate py q row = Inr b"
  shows "all_pass py ps row = Inr (\<forall>q \<in> set ps. evaluate py q row = Inr True)"
  using assms
proof (induction ps)
  case (Cons p ps)
  then obtain b where "evaluate py p row = Inr b" by auto
  with Cons show ?case by (cases b) auto
qed simp

lemma decided_evaluates:
  "decides py p row \<Longrightarrow> evaluate py p row = Inr (\<forall>q \<in> set (flatten_and p). evaluate py q row = Inr True)"
  unfolding all_pass_flatten [symmetric, of py p] by (rule all_pass_decided) (simp add: decides_def)

lemma needs_no_value: "VALUE \<notin> needs_of p \<Longrightarrow> evaluate py p (row\<lparr>sr_value := v\<rparr>) = evaluate py p row"
  by (induction p) (auto simp: stat_field_def)

section \<open>The cascade against its specification\<close>

text \<open>
  The value of a row that the predicate needs and the scan did not bring is what the store
  holds for the key; a row whose record is gone is dropped.
\<close>

definition hydrated :: "bool \<Rightarrow> ('k \<Rightarrow> 'v option) \<Rightarrow> ('k, 'v) scan_row \<Rightarrow> ('k, 'v) scan_row list" where
  "hydrated needed h row = (if needed \<and> sr_value row = None
     then (case h (sr_key row) of None \<Rightarrow> [] | Some v \<Rightarrow> [row\<lparr>sr_value := Some v\<rparr>]) else [row])"

definition refined :: "(('k, 'v) scan_row \<Rightarrow> exn + bool) option \<Rightarrow> ('k, 'v) scan_row \<Rightarrow> exn + bool" where
  "refined refine row = (case refine of None \<Rightarrow> Inr True | Some f \<Rightarrow> f row)"

definition selects :: "'k python \<Rightarrow> ('k, 'v) predicate \<Rightarrow> (('k, 'v) scan_row \<Rightarrow> exn + bool) option \<Rightarrow> ('k, 'v) scan_row \<Rightarrow> bool" where
  "selects py p refine row \<longleftrightarrow> evaluate py p row = Inr True \<and> refined refine row = Inr True"

definition take_limit :: "int option \<Rightarrow> 'a list \<Rightarrow> 'a list" where
  "take_limit limit xs = (case limit of None \<Rightarrow> xs | Some n \<Rightarrow> take (nat n) xs)"

definition scan_answer ::
  "'k python \<Rightarrow> ('k, 'v) predicate \<Rightarrow> (('k, 'v) scan_row \<Rightarrow> exn + bool) option \<Rightarrow> int option \<Rightarrow> projection
   \<Rightarrow> ('k \<Rightarrow> 'v option) \<Rightarrow> ('k, 'v) scan_row list \<Rightarrow> ('k, 'v) scan_row list" where
  "scan_answer py p refine limit project h rows = map (project_row project) (take_limit limit
     (filter (selects py p refine) (concat (map (hydrated (VALUE \<in> needs_of p) h) rows))))"

text \<open>Nothing the scan evaluates on this row raises.\<close>

definition decided_row :: "'k python \<Rightarrow> ('k, 'v) predicate \<Rightarrow> (('k, 'v) scan_row \<Rightarrow> exn + bool) option \<Rightarrow> ('k, 'v) scan_row \<Rightarrow> bool" where
  "decided_row py p refine row \<longleftrightarrow> decides py p row \<and> (\<exists>b. refined refine row = Inr b)"

definition cascade_of ::
  "('k, 'v) predicate \<Rightarrow> ('k list \<Rightarrow> ('w, ('k, 'v) dict) prog) option \<Rightarrow> (('k, 'v) scan_row \<Rightarrow> exn + bool) option
   \<Rightarrow> int option \<Rightarrow> projection \<Rightarrow> ('w, 'k, 'v) cascade" where
  "cascade_of p batch_get refine limit project = (case partition_by_needs p of (key_p, stat_p, value_p) \<Rightarrow>
     \<lparr>cs_key = key_p, cs_stat = stat_p, cs_value = value_p, cs_batch_get = batch_get,
      cs_refine = refine, cs_limit = limit, cs_project = project\<rparr>)"

lemma apply_cascade_is:
  "apply_cascade py rows p batch_get refine limit project =
     for_each (cascade_row py (cascade_of p batch_get refine limit project))
       (cascade_end py (cascade_of p batch_get refine limit project)) rows (0, [])"
  by (simp add: apply_cascade_def cascade_of_def Let_def partition_by_needs_def)

lemma cascade_of_simps [simp]:
  "cs_key (cascade_of p batch_get refine limit project) = filter (\<lambda>q. VALUE \<notin> needs_of q \<and> STAT \<notin> needs_of q) (flatten_and p)"
  "cs_stat (cascade_of p batch_get refine limit project) = filter (\<lambda>q. VALUE \<notin> needs_of q \<and> STAT \<in> needs_of q) (flatten_and p)"
  "cs_value (cascade_of p batch_get refine limit project) = filter (\<lambda>q. VALUE \<in> needs_of q) (flatten_and p)"
  "cs_batch_get (cascade_of p batch_get refine limit project) = batch_get"
  "cs_refine (cascade_of p batch_get refine limit project) = refine"
  "cs_limit (cascade_of p batch_get refine limit project) = limit"
  "cs_project (cascade_of p batch_get refine limit project) = project"
  by (simp_all add: cascade_of_def partition_by_needs_def Let_def)

text \<open>The three groups of conjuncts on a row that none of them raises on.\<close>

definition key_part :: "'k python \<Rightarrow> ('k, 'v) predicate \<Rightarrow> ('k, 'v) scan_row \<Rightarrow> bool" where
  "key_part py p row \<longleftrightarrow> (\<forall>q \<in> set (flatten_and p). VALUE \<notin> needs_of q \<and> STAT \<notin> needs_of q \<longrightarrow> evaluate py q row = Inr True)"

definition stat_part :: "'k python \<Rightarrow> ('k, 'v) predicate \<Rightarrow> ('k, 'v) scan_row \<Rightarrow> bool" where
  "stat_part py p row \<longleftrightarrow> (\<forall>q \<in> set (flatten_and p). VALUE \<notin> needs_of q \<and> STAT \<in> needs_of q \<longrightarrow> evaluate py q row = Inr True)"

definition value_part :: "'k python \<Rightarrow> ('k, 'v) predicate \<Rightarrow> ('k, 'v) scan_row \<Rightarrow> bool" where
  "value_part py p row \<longleftrightarrow> (\<forall>q \<in> set (flatten_and p). VALUE \<in> needs_of q \<longrightarrow> evaluate py q row = Inr True)"

lemma decided_parts:
  assumes "decides py p row"
  shows "all_pass py (cs_key (cascade_of p bg refine limit project)) row = Inr (key_part py p row)"
    "all_pass py (cs_stat (cascade_of p bg refine limit project)) row = Inr (stat_part py p row)"
    "all_pass py (cs_value (cascade_of p bg refine limit project)) row = Inr (value_part py p row)"
  using assms by (subst all_pass_decided; auto simp: decides_def key_part_def stat_part_def value_part_def)+

lemma parts_without_value:
  "key_part py p (row\<lparr>sr_value := v\<rparr>) = key_part py p row" "stat_part py p (row\<lparr>sr_value := v\<rparr>) = stat_part py p row"
  by (auto simp: key_part_def stat_part_def needs_no_value)

lemma without_value_decided:
  assumes "decides py p (row\<lparr>sr_value := v\<rparr>)"
  shows "all_pass py (cs_key (cascade_of p bg refine limit project)) row = Inr (key_part py p row)"
    "all_pass py (cs_stat (cascade_of p bg refine limit project)) row = Inr (stat_part py p row)"
proof -
  have "\<exists>b. evaluate py q row = Inr b" if "q \<in> set (flatten_and p)" "VALUE \<notin> needs_of q" for q
    using assms that by (auto simp: decides_def needs_no_value)
  then show "all_pass py (cs_key (cascade_of p bg refine limit project)) row = Inr (key_part py p row)"
    and "all_pass py (cs_stat (cascade_of p bg refine limit project)) row = Inr (stat_part py p row)"
    by (subst all_pass_decided; auto simp: key_part_def stat_part_def)+
qed

lemma selects_parts:
  assumes "decides py p row"
  shows "selects py p refine row \<longleftrightarrow> key_part py p row \<and> stat_part py p row \<and> value_part py p row \<and> refined refine row = Inr True"
  using decided_evaluates [OF assms] by (auto simp: selects_def key_part_def stat_part_def value_part_def)

lemma no_value_part: "VALUE \<notin> needs_of p \<Longrightarrow> value_part py p row"
  using needs_flatten [of p VALUE] by (auto simp: value_part_def)

lemma value_part_empty: "filter (\<lambda>q. VALUE \<in> needs_of q) (flatten_and p) = [] \<longleftrightarrow> VALUE \<notin> needs_of p"
  using needs_flatten [of p VALUE] by (auto simp: filter_empty_conv)

text \<open>What is left of the answer once some rows have been yielded.\<close>

definition take_rest :: "int option \<Rightarrow> int \<Rightarrow> 'a list \<Rightarrow> 'a list" where
  "take_rest limit n xs = (case limit of None \<Rightarrow> xs | Some l \<Rightarrow> take (nat (l - n)) xs)"

lemma take_rest_simps:
  "take_rest limit n [] = []"
  "reached cs n \<Longrightarrow> take_rest (cs_limit cs) n xs = []"
  "\<not> reached cs n \<Longrightarrow> take_rest (cs_limit cs) n (x # xs) = x # take_rest (cs_limit cs) (n + 1) xs"
proof -
  show "\<not> reached cs n \<Longrightarrow> take_rest (cs_limit cs) n (x # xs) = x # take_rest (cs_limit cs) (n + 1) xs"
  proof (cases "cs_limit cs")
    case (Some l)
    assume "\<not> reached cs n"
    then have "nat (l - n) = Suc (nat (l - (n + 1)))" by (simp add: reached_def Some)
    then show ?thesis by (simp add: take_rest_def Some)
  qed (simp add: take_rest_def)
qed (auto simp: take_rest_def reached_def split: option.splits)

lemma take_rest_limit: "take_rest limit 0 xs = take_limit limit xs"
  by (simp add: take_rest_def take_limit_def split: option.splits)

locale hydrated_reads =
  fixes batch_get :: "'k list \<Rightarrow> ('w, ('k, 'v) dict) prog"
    and I :: "'w \<Rightarrow> bool"
    and h :: "'k \<Rightarrow> 'v option"
  assumes reads_law: "I w \<Longrightarrow> \<exists>d w'. batch_get ks w = (Inr d, w') \<and> I w' \<and> (\<forall>k \<in> set ks. dget d k = h k)"
begin

lemma flush_found_yields:
  fixes p :: "('k, 'v) predicate" and refine limit project
  defines "cs \<equiv> cascade_of p (Some batch_get) refine limit project"
  assumes k: "\<And>n. yields I (k n) (map (project_row project) (take_rest limit n rest))"
    and pend: "\<forall>row \<in> set pend. dget found (sr_key row) = h (sr_key row) \<and> sr_value row = None
      \<and> key_part py p row \<and> stat_part py p row \<and> (\<forall>v. h (sr_key row) = Some v \<longrightarrow> decided_row py p refine (row\<lparr>sr_value := Some v\<rparr>))"
    and "\<not> reached cs n"
  shows "yields I (flush_found py cs found pend n k)
    (map (project_row project) (take_rest limit n (filter (selects py p refine) (concat (map (hydrated True h) pend)) @ rest)))"
  using pend \<open>\<not> reached cs n\<close>
proof (induction pend arbitrary: n)
  case Nil
  then show ?case using k by simp
next
  case (Cons row pend)
  from Cons.prems have row: "dget found (sr_key row) = h (sr_key row)" "sr_value row = None" "key_part py p row" "stat_part py p row"
    by auto
  have limit: "limit = cs_limit cs" by (simp add: cs_def)
  note skip = Cons.IH [OF _ Cons.prems(2)]
  show ?case
  proof (cases "h (sr_key row)")
    case None
    with row skip Cons.prems(1) show ?thesis by (simp add: hydrated_def)
  next
    case (Some v)
    let ?row = "row\<lparr>sr_value := Some v\<rparr>"
    from Cons.prems(1) Some have d: "decides py p ?row" and r: "\<exists>b. refined refine ?row = Inr b"
      by (auto simp: decided_row_def)
    have r_is: "refine_pass cs ?row = refined refine ?row" by (simp add: refine_pass_def refined_def cs_def)
    have v_is: "all_pass py (cs_value cs) ?row = Inr (value_part py p ?row)"
      unfolding cs_def by (rule decided_parts(3) [OF d])
    have sel: "selects py p refine ?row \<longleftrightarrow> value_part py p ?row \<and> refined refine ?row = Inr True"
      using selects_parts [OF d, of refine] row by (simp add: parts_without_value)
    show ?thesis
    proof (cases "selects py p refine ?row")
      case True
      with sel r_is v_is have pass: "all_pass py (cs_value cs) ?row = Inr True" "refine_pass cs ?row = Inr True" by simp_all
      have rest': "yields I (if reached cs (n + 1) then k (n + 1) else flush_found py cs found pend (n + 1) k)
        (map (project_row project) (take_rest limit (n + 1) (filter (selects py p refine) (concat (map (hydrated True h) pend)) @ rest)))"
      proof (cases "reached cs (n + 1)")
        case True
        then show ?thesis using k [of "n + 1"] by (simp add: limit take_rest_simps(2))
      qed (use Cons.IH [of "n + 1"] Cons.prems(1) in simp)
      have tr: "take_rest limit n (x # xs) = x # take_rest limit (n + 1) xs" for x and xs :: "('k, 'v) scan_row list"
        unfolding limit by (rule take_rest_simps(3) [OF Cons.prems(2)])
      have proj: "cs_project cs = project" by (simp add: cs_def)
      have hyd: "hydrated True h row = [?row]" by (simp add: hydrated_def row(2) Some)
      show ?thesis using rest' Cons.prems(2) True
        by (simp add: row(1,2) Some pass hyd tr proj Let_def split del: if_split)
    next
      case False
      with sel r r_is v_is have "all_pass py (cs_value cs) ?row = Inr False
          \<or> (all_pass py (cs_value cs) ?row = Inr True \<and> refine_pass cs ?row = Inr False)" by (metis (full_types))
      then show ?thesis using skip Cons.prems(1) False by (auto simp: row(1,2) Some hydrated_def Let_def)
    qed
  qed
qed

text \<open>What a row that waits for its value has passed, and what is assumed of a row the scan brings.\<close>

definition waiting :: "'k python \<Rightarrow> ('k, 'v) predicate \<Rightarrow> (('k, 'v) scan_row \<Rightarrow> exn + bool) option \<Rightarrow> ('k, 'v) scan_row \<Rightarrow> bool" where
  "waiting py p refine row \<longleftrightarrow> sr_value row = None \<and> key_part py p row \<and> stat_part py p row
     \<and> (\<forall>v. h (sr_key row) = Some v \<longrightarrow> decided_row py p refine (row\<lparr>sr_value := Some v\<rparr>))"

definition settled :: "'k python \<Rightarrow> ('k, 'v) predicate \<Rightarrow> (('k, 'v) scan_row \<Rightarrow> exn + bool) option \<Rightarrow> ('k, 'v) scan_row \<Rightarrow> bool" where
  "settled py p refine row \<longleftrightarrow> (\<forall>q \<in> set (flatten_and p). VALUE \<notin> needs_of q \<longrightarrow> (\<exists>b. evaluate py q row = Inr b))
     \<and> (\<forall>r \<in> set (hydrated (VALUE \<in> needs_of p) h row). decided_row py p refine r)"

lemma settled_parts:
  assumes "settled py p refine row"
  shows "all_pass py (cs_key (cascade_of p bg refine limit project)) row = Inr (key_part py p row)"
    "all_pass py (cs_stat (cascade_of p bg refine limit project)) row = Inr (stat_part py p row)"
  using assms by (subst all_pass_decided; auto simp: settled_def key_part_def stat_part_def)+

lemma flush_yields:
  fixes p :: "('k, 'v) predicate" and refine limit project
  defines "cs \<equiv> cascade_of p (Some batch_get) refine limit project"
  assumes k: "\<And>n. yields I (k n) (map (project_row project) (take_rest limit n rest))"
    and pend: "\<forall>row \<in> set pend. waiting py p refine row" "distinct (map sr_key pend)" and n: "\<not> reached cs n"
  shows "yields I (cascade_flush py cs pend n k)
    (map (project_row project) (take_rest limit n (filter (selects py p refine) (concat (map (hydrated True h) pend)) @ rest)))"
proof (cases "pend = []")
  case False
  show ?thesis unfolding cascade_flush_def
  proof (simp add: False pend(2) cs_def, rule await_yields)
    fix w assume "I w"
    from reads_law [OF this, of "map sr_key pend"] obtain d w' where
      d: "batch_get (map sr_key pend) w = (Inr d, w')" "I w'" "\<forall>k \<in> set (map sr_key pend). dget d k = h k" by blast
    with pend(1) have "\<forall>row \<in> set pend. dget d (sr_key row) = h (sr_key row) \<and> sr_value row = None
      \<and> key_part py p row \<and> stat_part py p row \<and> (\<forall>v. h (sr_key row) = Some v \<longrightarrow> decided_row py p refine (row\<lparr>sr_value := Some v\<rparr>))"
      by (simp add: waiting_def)
    from flush_found_yields [OF k this n [unfolded cs_def]] d
    show "\<exists>a w'. batch_get (map sr_key pend) w = (Inr a, w') \<and> I w' \<and>
        yields I (flush_found py (cascade_of p (Some batch_get) refine limit project) a pend n k)
          (map (project_row project) (take_rest limit n (filter (selects py p refine) (concat (map (hydrated True h) pend)) @ rest)))"
      by blast
  qed
qed (use k in \<open>simp add: cascade_flush_def\<close>)

lemma emit_yields:
  fixes p :: "('k, 'v) predicate" and refine limit project
  defines "cs \<equiv> cascade_of p (Some batch_get) refine limit project"
  assumes k: "\<And>n. yields I (continue (n, pend)) (map (project_row project) (take_rest limit n rest))"
    and row: "decided_row py p refine row" "key_part py p row" "stat_part py p row" "value_part py p row"
    and n: "\<not> reached cs n"
  shows "yields I (cascade_emit cs row continue n pend)
    (map (project_row project) (take_rest limit n (filter (selects py p refine) [row] @ rest)))"
proof -
  from row(1) obtain b where d: "decides py p row" and b: "refined refine row = Inr b" by (auto simp: decided_row_def)
  have pass: "refine_pass cs row = Inr b" using b by (simp add: refine_pass_def refined_def cs_def)
  have sel: "selects py p refine row = b" using selects_parts [OF d, of refine] row b by simp
  have limit: "limit = cs_limit cs" and proj: "cs_project cs = project" by (simp_all add: cs_def)
  have tr: "take_rest limit n (x # xs) = x # take_rest limit (n + 1) xs" for x and xs :: "('k, 'v) scan_row list"
    unfolding limit by (rule take_rest_simps(3) [OF n])
  show ?thesis using k by (cases b) (simp_all add: cascade_emit_def pass sel tr proj)
qed

text \<open>The loop's invariant: the rows that wait, and what is still to come, make the rest of the answer.\<close>

definition owes :: "'k python \<Rightarrow> ('k, 'v) predicate \<Rightarrow> (('k, 'v) scan_row \<Rightarrow> exn + bool) option \<Rightarrow> int option \<Rightarrow> projection
   \<Rightarrow> ('k, 'v) scan_row list \<Rightarrow> int \<times> ('k, 'v) scan_row list \<Rightarrow> ('w, ('k, 'v) scan_row) gen \<Rightarrow> bool" where
  "owes py p refine limit project rows s g \<longleftrightarrow> (case s of (n, pend) \<Rightarrow>
     (VALUE \<in> needs_of p \<or> pend = []) \<and> distinct (map sr_key (pend @ rows))
     \<and> (\<forall>row \<in> set pend. waiting py p refine row) \<and> (\<forall>row \<in> set rows. settled py p refine row)
     \<longrightarrow> yields I g (map (project_row project) (take_rest limit n
           (filter (selects py p refine) (concat (map (hydrated (VALUE \<in> needs_of p) h) (pend @ rows)))))))"

lemma owes_end:
  "owes py p refine limit project [] s (cascade_end py (cascade_of p (Some batch_get) refine limit project) s)"
proof -
  obtain n pend where s: "s = (n, pend)" by fastforce
  let ?cs = "cascade_of p (Some batch_get) refine limit project"
  have v: "cs_value ?cs = [] \<longleftrightarrow> VALUE \<notin> needs_of p" by (simp add: value_part_empty)
  show ?thesis
  proof (cases "pend = [] \<or> reached ?cs n")
    case True
    then show ?thesis using take_rest_simps(2) [of ?cs n] by (auto simp: owes_def s cascade_end_def take_rest_simps(1))
  next
    case False
    show ?thesis unfolding owes_def s prod.case
    proof
      assume *: "(VALUE \<in> needs_of p \<or> pend = []) \<and> distinct (map sr_key (pend @ []))
        \<and> (\<forall>row \<in> set pend. waiting py p refine row) \<and> (\<forall>row \<in> set []. settled py p refine row)"
      then have "VALUE \<in> needs_of p" using False by simp
      moreover have "yields I (cascade_flush py ?cs pend n (\<lambda>_. Done))
        (map (project_row project) (take_rest limit n (filter (selects py p refine) (concat (map (hydrated True h) pend)) @ [])))"
        by (rule flush_yields) (use * False in \<open>auto simp: take_rest_simps(1)\<close>)
      ultimately show "yields I (cascade_end py ?cs (n, pend)) (map (project_row project) (take_rest limit n
           (filter (selects py p refine) (concat (map (hydrated (VALUE \<in> needs_of p) h) (pend @ []))))))"
        using v False by (simp add: cascade_end_def)
    qed
  qed
qed

lemma owes_row:
  assumes k: "\<And>s. owes py p refine limit project rows s (continue s)"
  shows "owes py p refine limit project (row # rows) s (cascade_row py (cascade_of p (Some batch_get) refine limit project) row continue s)"
proof -
  obtain n pend where s: "s = (n, pend)" by fastforce
  let ?cs = "cascade_of p (Some batch_get) refine limit project"
  let ?hyd = "hydrated (VALUE \<in> needs_of p) h" and ?sel = "selects py p refine"
  let ?out = "\<lambda>n rows. map (project_row project) (take_rest limit n (filter ?sel (concat (map ?hyd rows))))"
  have v: "cs_value ?cs = [] \<longleftrightarrow> VALUE \<notin> needs_of p" by (simp add: value_part_empty)
  have tr0: "take_rest limit n xs = []" if "reached ?cs n" for n and xs :: "('k, 'v) scan_row list"
    using take_rest_simps(2) [OF that, of xs] by simp
  have k': "yields I (continue (n, pend)) (?out n (pend @ rows))"
    if "VALUE \<in> needs_of p \<or> pend = []" "distinct (map sr_key (pend @ rows))" "\<forall>row \<in> set pend. waiting py p refine row"
      "\<forall>row \<in> set rows. settled py p refine row" for n pend
    using k [of "(n, pend)"] that by (simp add: owes_def)
  show ?thesis unfolding owes_def s prod.case
  proof
    assume *: "(VALUE \<in> needs_of p \<or> pend = []) \<and> distinct (map sr_key (pend @ row # rows))
        \<and> (\<forall>row \<in> set pend. waiting py p refine row) \<and> (\<forall>row \<in> set (row # rows). settled py p refine row)"
    then have settled: "settled py p refine row" by simp
    note parts = settled_parts [OF settled, of "Some batch_get" limit project]
    have hyd: "\<forall>r \<in> set (?hyd row). decided_row py p refine r \<and> (\<exists>v. r = row\<lparr>sr_value := v\<rparr>)"
      using settled by (cases row) (auto simp: settled_def hydrated_def split: option.splits if_splits)
    have sel: "\<forall>r \<in> set (?hyd row). ?sel r \<longleftrightarrow> key_part py p row \<and> stat_part py p row \<and> value_part py p r \<and> refined refine r = Inr True"
      using hyd by (auto simp: decided_row_def selects_parts parts_without_value)
    show "yields I (cascade_row py ?cs row continue (n, pend)) (?out n (pend @ row # rows))"
    proof (cases "reached ?cs n \<or> \<not> key_part py p row \<or> \<not> stat_part py p row")
      case True
      have "filter ?sel (?hyd row) = []" if "\<not> key_part py p row \<or> \<not> stat_part py p row"
        using sel that by (auto simp: filter_empty_conv)
      with True k' [of pend n] * parts tr0 [of n] show ?thesis
        by (cases "key_part py p row"; cases "stat_part py p row"; cases "reached ?cs n") (auto simp: cascade_row_def)
    next
      case False
      then have n: "\<not> reached ?cs n" and pass: "key_part py p row" "stat_part py p row" by simp_all
      have run: "cascade_row py ?cs row continue (n, pend) =
        (if VALUE \<in> needs_of p \<and> sr_value row = None then
            (if length (pend @ [row]) \<ge> cascade_page
             then cascade_flush py ?cs (pend @ [row]) n (\<lambda>n. if reached ?cs n then Done else continue (n, []))
             else continue (n, pend @ [row]))
          else if VALUE \<in> needs_of p then
            cascade_flush py ?cs pend n (\<lambda>n. if reached ?cs n then Done
              else unless_fails (all_pass py (cs_value ?cs) row) (continue (n, [])) (cascade_emit ?cs row continue n []))
          else cascade_emit ?cs row continue n pend)"
        unfolding cascade_row_def prod.case parts v using n pass by simp
      have later: "yields I (if reached ?cs n then Done else continue (n, []))
          (map (project_row project) (take_rest limit n (filter ?sel (concat (map ?hyd rows)))))" for n
        using k' [of "[]" n] * tr0 [of n] by simp
      show ?thesis
      proof (cases "VALUE \<in> needs_of p \<and> sr_value row = None")
        case True
        with settled pass have "waiting py p refine row" by (auto simp: waiting_def settled_def hydrated_def)
        with * have w: "\<forall>row \<in> set (pend @ [row]). waiting py p refine row" by simp
        show ?thesis
        proof (cases "length (pend @ [row]) \<ge> cascade_page")
          case page: True
          have "yields I (cascade_flush py ?cs (pend @ [row]) n (\<lambda>n. if reached ?cs n then Done else continue (n, [])))
            (map (project_row project) (take_rest limit n
               (filter ?sel (concat (map (hydrated True h) (pend @ [row]))) @ filter ?sel (concat (map ?hyd rows)))))"
            by (rule flush_yields [OF later w _ n]) (use * in simp)
          then show ?thesis unfolding run using True page by simp
        next
          case False
          then show ?thesis unfolding run using True k' [of "pend @ [row]" n] w * by simp
        qed
      next
        case brought: False
        then have one: "?hyd row = [row]" by (auto simp: hydrated_def)
        with hyd have dec: "decided_row py p refine row" by simp
        then have d: "decides py p row" by (simp add: decided_row_def)
        show ?thesis
        proof (cases "VALUE \<in> needs_of p")
          case True
          have tail: "yields I (if reached ?cs n then Done
              else unless_fails (all_pass py (cs_value ?cs) row) (continue (n, [])) (cascade_emit ?cs row continue n []))
            (map (project_row project) (take_rest limit n (filter ?sel [row] @ filter ?sel (concat (map ?hyd rows)))))" for n
          proof (cases "reached ?cs n")
            case reached: False
            show ?thesis
            proof (cases "value_part py p row")
              case True
              have "yields I (cascade_emit ?cs row continue n [])
                (map (project_row project) (take_rest limit n (filter ?sel [row] @ filter ?sel (concat (map ?hyd rows)))))"
                by (rule emit_yields [OF _ dec pass True reached]) (use k' [of "[]"] * in simp)
              then show ?thesis using reached True by (simp only: decided_parts(3) [OF d] unless_fails.simps if_False)
            next
              case False
              then have "filter ?sel [row] = []" using selects_parts [OF d, of refine] by simp
              then show ?thesis using later [of n] reached False by (simp only: decided_parts(3) [OF d] unless_fails.simps if_False append_Nil)
            qed
          qed (use tr0 [of n] in simp)
          have "yields I (cascade_flush py ?cs pend n (\<lambda>n. if reached ?cs n then Done
              else unless_fails (all_pass py (cs_value ?cs) row) (continue (n, [])) (cascade_emit ?cs row continue n [])))
            (map (project_row project) (take_rest limit n (filter ?sel (concat (map (hydrated True h) pend))
              @ (filter ?sel [row] @ filter ?sel (concat (map ?hyd rows))))))"
            by (rule flush_yields [OF tail _ _ n]) (use * in simp_all)
          moreover have "concat (map ?hyd (pend @ row # rows)) = concat (map (hydrated True h) pend) @ [row] @ concat (map ?hyd rows)"
            using True one by simp
          ultimately show ?thesis unfolding run using True brought by (simp only: filter_append if_True if_False simp_thms)
        next
          case False
          then have "pend = []" using * by simp
          moreover from this have "concat (map ?hyd (pend @ row # rows)) = [row] @ concat (map ?hyd rows)" using one by simp
          moreover have "yields I (cascade_emit ?cs row continue n [])
              (map (project_row project) (take_rest limit n (filter ?sel [row] @ filter ?sel (concat (map ?hyd rows)))))"
            by (rule emit_yields [OF _ dec pass no_value_part [OF False] n]) (use k' [of "[]"] * in simp)
          ultimately show ?thesis unfolding run using False by (simp only: filter_append if_False simp_thms)
        qed
      qed
    qed
  qed
qed

text \<open>The cascade answers what the specification says, whatever the scan and the reads do in between.\<close>

theorem cascade_yields:
  assumes rows: "yields I g rows" and "distinct (map sr_key rows)" "\<forall>row \<in> set rows. settled py p refine row"
  shows "yields I (apply_cascade py g p (Some batch_get) refine limit project) (scan_answer py p refine limit project h rows)"
proof -
  have "owes py p refine limit project rows (0, []) (apply_cascade py g p (Some batch_get) refine limit project)"
    unfolding apply_cascade_is
  proof (rule for_each_rule [OF rows, where Q = "owes py p refine limit project"])
    show "owes py p refine limit project as s (Step m)"
      if "\<And>w. I w \<Longrightarrow> owes py p refine limit project as s (fst (m w)) \<and> I (snd (m w))" for as s m
      using that by (simp add: owes_def split_beta) (blast intro: yields_Step)
  qed (rule owes_end, rule owes_row)
  with assms(2,3) show ?thesis by (simp add: owes_def scan_answer_def take_rest_limit)
qed

end

end
