(* ===== verification/Scan_Stores.thy ===== *)
theory Scan_Stores
  imports Scan_Schema Memory_Backend
begin

text \<open>
  Stores that scan: \<open>ScannableMixin\<close> and \<open>ExpiringMixin\<close> of \<open>src/kvtsjl/store/capabilities.py\<close>,
  the scans of the in-memory leaf (\<open>store/leaf.py\<close>, \<open>backends/memory.py\<close>), the helpers of
  \<open>store/fanout.py\<close> and the scans of a composition (\<open>store/compose/topology.py\<close>).

  A \<open>scanner\<close> is what a scan asks of a store. All generators are lazy, as in the code: a
  scan that stops early leaves the rest of the media alone.
\<close>

record ('w, 'k, 'v) scanner =
  sn_batch_size :: int
  sn_layout :: key_layout
  sn_batch_get :: "'k list \<Rightarrow> ('w, ('k, 'v) dict) prog"
  sn_batch_exists :: "'k list \<Rightarrow> ('w, 'k set) prog"
  sn_scan_entries :: "'k scan_query \<Rightarrow> ('w, 'k \<times> 'v option) gen"
  sn_scan_rows :: "('k, 'v) scan_spec \<Rightarrow> ('w, ('k, 'v) scan_row) gen"

section \<open>Scans derived from a store's rows (\<open>capabilities.py\<close>)\<close>

definition default_scan_rows ::
  "'k python \<Rightarrow> ('k scan_query \<Rightarrow> ('w, 'k \<times> 'v option) gen) \<Rightarrow> ('k list \<Rightarrow> ('w, ('k, 'v) dict) prog) option
   \<Rightarrow> ('k, 'v) scan_spec \<Rightarrow> ('w, ('k, 'v) scan_row) gen" where
  "default_scan_rows py scan_entries batch_get spec = raise_or (enforce_order_by_supported spec None) (\<lambda>_.
     apply_cascade py (gmap (\<lambda>(k, v). key_row k v) (scan_entries (spec_to_scan_query spec)))
       (sp_where spec) batch_get (sp_refine spec) (sp_limit spec) (sp_project spec))"

text \<open>
  \<open>scan\<close>: \<open>given\<close> is the argument \<open>spec\<close>, \<open>asked\<close> the arguments a specification is made of
  without one. It yields keys, or pairs of keys and values.
\<close>

definition scan_spec_of ::
  "('w, 'k, 'v) scanner \<Rightarrow> 'k option \<Rightarrow> bool \<Rightarrow> ('k, 'v) predicate option \<Rightarrow> projection option
   \<Rightarrow> ('k, 'v) scan_spec option \<Rightarrow> ('k, 'v) scan_spec \<Rightarrow> exn + ('k, 'v) scan_spec" where
  "scan_spec_of sn pre include_values where' project given asked =
     (if pre \<noteq> None \<and> \<not> supports_prefix_scan (sn_layout sn) then Inl ScanUnsupported
      else case given of Some spec \<Rightarrow> Inr spec
        | None \<Rightarrow> sugar_to_spec pre include_values where' project asked)"

definition scan ::
  "('w, 'k, 'v) scanner \<Rightarrow> 'k option \<Rightarrow> bool \<Rightarrow> ('k, 'v) predicate option \<Rightarrow> projection option
   \<Rightarrow> ('k, 'v) scan_spec option \<Rightarrow> ('k, 'v) scan_spec \<Rightarrow> ('w, 'k + 'k \<times> 'v) gen" where
  "scan sn pre include_values where' project given asked =
     raise_or (scan_spec_of sn pre include_values where' project given asked) (\<lambda>spec.
       if include_values \<or> sp_project spec = ENTRIES
       then for_each (\<lambda>row continue s. case sr_value row of None \<Rightarrow> continue s
              | Some v \<Rightarrow> Yield (Inr (sr_key row, v)) (continue s)) (\<lambda>_. Done) (sn_scan_rows sn spec) ()
       else gmap (\<lambda>row. Inl (sr_key row)) (sn_scan_rows sn spec))"

definition list_keys :: "('w, 'k, 'v) scanner \<Rightarrow> 'k option \<Rightarrow> ('k, 'v) predicate option \<Rightarrow> ('w, ('k + 'k \<times> 'v) list) prog" where
  "list_keys sn pre where' = drain (scan sn pre False where' None None default_spec)"

definition batches_of :: "int \<Rightarrow> ('w, 'a) gen \<Rightarrow> ('w, 'a list) gen" where
  "batches_of sz items = for_each (\<lambda>item continue batch.
      if int (length (batch @ [item])) \<ge> sz then Yield (batch @ [item]) (continue []) else continue (batch @ [item]))
     (\<lambda>batch. if batch \<noteq> [] then Yield batch Done else Done) items []"

definition scan_batches ::
  "('w, 'k, 'v) scanner \<Rightarrow> 'k option \<Rightarrow> int option \<Rightarrow> bool \<Rightarrow> int \<Rightarrow> ('k, 'v) predicate option \<Rightarrow> ('w, ('k + 'k \<times> 'v) list) gen" where
  "scan_batches sn pre batch_size include_values page_size where' =
     (let sz = (case batch_size of None \<Rightarrow> sn_batch_size sn | Some n \<Rightarrow> if n = 0 then sn_batch_size sn else n)
      in batches_of sz (scan sn pre include_values where' None None (default_spec\<lparr>sp_page_size := page_size\<rparr>)))"

definition count_rows :: "('w, 'k, 'v) scanner \<Rightarrow> 'k option \<Rightarrow> ('k, 'v) predicate option \<Rightarrow> ('k, 'v) scan_spec \<Rightarrow> ('w, int) prog" where
  "count_rows sn pre where' asked = (case sugar_to_spec pre False where' (Some KEYS) asked of
      Inl e \<Rightarrow> raiseP e
    | Inr spec \<Rightarrow> mapP (\<lambda>rows. int (length rows)) (drain (sn_scan_rows sn spec)))"

definition selected_keys :: "('w, 'k, 'v) scanner \<Rightarrow> ('k, 'v) predicate \<Rightarrow> int option \<Rightarrow> ('w, 'k list) prog" where
  "selected_keys sn where' limit =
     mapP (map sr_key) (drain (sn_scan_rows sn (default_spec\<lparr>sp_where := where', sp_limit := limit\<rparr>)))"

definition delete_where ::
  "('w, 'k, 'v) scanner \<Rightarrow> (int \<Rightarrow> ('w, 'k list) prog) \<Rightarrow> ('k list \<Rightarrow> ('w, int) prog) \<Rightarrow> ('k, 'v) predicate \<Rightarrow> int option
   \<Rightarrow> ('w, int) prog" where
  "delete_where sn gc_expired_keys batch_delete where' limit =
     (if is_gc_predicate where' then
        (let max_entries = (case limit of None \<Rightarrow> no_limit | Some l \<Rightarrow> l) in
         if max_entries < 1 then raiseP ValueError
         else mapP (\<lambda>keys. int (length keys)) (gc_expired_keys max_entries))
      else bindP (selected_keys sn where' limit) (\<lambda>keys. if keys = [] then returnP 0 else batch_delete keys))"

definition gc_expired ::
  "('w, 'k, 'v) scanner \<Rightarrow> (int \<Rightarrow> ('w, 'k list) prog) \<Rightarrow> ('k list \<Rightarrow> ('w, int) prog) \<Rightarrow> int \<Rightarrow> ('w, int) prog" where
  "gc_expired sn gc_expired_keys batch_delete max_entries = (if max_entries < 1 then raiseP ValueError
     else delete_where sn gc_expired_keys batch_delete Expired (Some max_entries))"

text \<open>\<open>scan_scoped\<close>, for a leaf with the collection schema \<open>ks\<close> bound to the scope \<open>sc\<close>.\<close>

definition supports_scoped_scan :: "('k, 'v) kvset \<Rightarrow> key_layout \<Rightarrow> bool" where
  "supports_scoped_scan ks layout = (if ks_scope_schema ks = None then False else layout \<noteq> Hashed)"

definition scoped_row ::
  "('k, 'v) kvset \<Rightarrow> string \<Rightarrow> 'k + 'k \<times> 'v \<Rightarrow> exn + (scope \<times> 'k \<times> 'v option) option" where
  "scoped_row ks prefix_blob row = (let (leaf, value) = (case row of Inl k \<Rightarrow> (k, None) | Inr (k, v) \<Rightarrow> (k, Some v)) in
     case serde_result (ks_key_serialize ks leaf) of Inl e \<Rightarrow> Inl e
     | Inr blob \<Rightarrow> (let in_key = (if prefix_blob \<noteq> [] then blob_join (ks_separator ks) [prefix_blob, blob] else blob) in
         Inr (map_option (\<lambda>(sc, real_leaf). (sc, real_leaf, value)) (decode_in_key ks in_key))))"

definition scan_scoped ::
  "('w, 'k, 'v) scanner \<Rightarrow> ('k, 'v) kvset \<Rightarrow> scope \<Rightarrow> 'k option \<Rightarrow> bool \<Rightarrow> ('k, 'v) predicate option \<Rightarrow> ('k, 'v) scan_spec
   \<Rightarrow> ('w, scope \<times> 'k \<times> 'v option) gen" where
  "scan_scoped sn ks sc pre include_values where' asked =
     (if \<not> supports_scoped_scan ks (sn_layout sn) then Raise KvStoreError
      else raise_or (encode_in_key ks sc None) (\<lambda>prefix_blob.
        for_each (\<lambda>row continue s. raise_or (scoped_row ks prefix_blob row) (\<lambda>found.
            case found of None \<Rightarrow> continue s | Some r \<Rightarrow> Yield r (continue s)))
          (\<lambda>_. Done) (scan sn pre include_values where' None None asked) ()))"

section \<open>The in-memory leaf\<close>

text \<open>\<open>MemoryKvStore.scan_entries\<close> as the generator it is; \<open>memory_scan_entries\<close> is it drained.\<close>

definition memory_entry_gen ::
  "('k, 'v) memory_backend \<Rightarrow> string \<Rightarrow> bool \<Rightarrow> string \<Rightarrow> (mem_root, 'k \<times> 'v option) gen \<Rightarrow> (mem_root, 'k \<times> 'v option) gen" where
  "memory_entry_gen mb pre include_values pk rest =
     await (memory_scan_one mb pre include_values pk []) (\<lambda>rows. yield_all rows rest)"

primrec memory_entries_gen ::
  "('k, 'v) memory_backend \<Rightarrow> string \<Rightarrow> bool \<Rightarrow> string list \<Rightarrow> (mem_root, 'k \<times> 'v option) gen" where
  "memory_entries_gen mb pre include_values [] = Done"
| "memory_entries_gen mb pre include_values (pk # pks) =
     memory_entry_gen mb pre include_values pk (memory_entries_gen mb pre include_values pks)"

definition memory_scan_gen :: "('k, 'v) memory_backend \<Rightarrow> 'k scan_query \<Rightarrow> (mem_root, 'k \<times> 'v option) gen" where
  "memory_scan_gen mb query = raise_or (scan_prefix_blob (mb_backend mb) (sq_prefix query)) (\<lambda>pre.
     Step (\<lambda>w. (memory_entries_gen mb pre (sq_include_values query) (dkeys (bucket mb w)), w)))"

definition leaf_scan_capabilities :: scan_capabilities where
  "leaf_scan_capabilities = \<lparr>cap_pushdown = {''KeyPrefix''}, cap_orders = {UNORDERED},
     cap_resumable = False, cap_stats = False, cap_orderable_columns = None\<rparr>"

definition leaf_scan_rows ::
  "'k python \<Rightarrow> ('k scan_query \<Rightarrow> ('w, 'k \<times> 'v option) gen) \<Rightarrow> ('k list \<Rightarrow> ('w, ('k, 'v) dict) prog)
   \<Rightarrow> ('k, 'v) scan_spec \<Rightarrow> ('w, ('k, 'v) scan_row) gen" where
  "leaf_scan_rows py scan_entries batch_get spec =
     raise_or (enforce_order_by_supported spec (Some leaf_scan_capabilities)) (\<lambda>_.
       raise_or (compile_from_scan_entries py scan_entries spec) (\<lambda>compiled.
         apply_cascade py (cm_rows compiled) (cm_residual compiled) (Some batch_get)
           (sp_refine spec) (sp_limit spec) (sp_project spec)))"

definition leaf_explain_node ::
  "'k python \<Rightarrow> string \<Rightarrow> ('k scan_query \<Rightarrow> ('w, 'k \<times> 'v option) gen) \<Rightarrow> ('k, 'v) scan_spec \<Rightarrow> exn + scan_plan_node" where
  "leaf_explain_node py name scan_entries spec = map_sum id (\<lambda>compiled.
      ScanPlanNode name (cm_pushed compiled) (predicate_label (cm_residual compiled)) [])
     (compile_from_scan_entries py scan_entries spec)"

definition memory_scanner :: "'k python \<Rightarrow> ('k, 'v) memory_backend \<Rightarrow> (mem_root, 'k, 'v) scanner" where
  "memory_scanner py mb = \<lparr>
     sn_batch_size = be_batch_size (mb_backend mb), sn_layout = Literal,
     sn_batch_get = memory_batch_get mb, sn_batch_exists = memory_batch_exists mb,
     sn_scan_entries = memory_scan_gen mb,
     sn_scan_rows = leaf_scan_rows py (memory_scan_gen mb) (memory_batch_get mb)\<rparr>"

section \<open>Fan-out (\<open>fanout.py\<close>)\<close>

text \<open>A page of keys is asked for once it is full, and what is left of one at the end.\<close>

definition paged ::
  "('k list \<Rightarrow> ('w, 'a) gen \<Rightarrow> ('w, 'a) gen) \<Rightarrow> int \<Rightarrow> ('w, 'k) gen \<Rightarrow> ('w, 'a) gen" where
  "paged answer page_size keys = for_each (\<lambda>key continue page.
      if int (length (page @ [key])) \<ge> page_size then answer (page @ [key]) (continue []) else continue (page @ [key]))
     (\<lambda>page. if page \<noteq> [] then answer page Done else Done) keys []"

definition iter_paged_batch_get ::
  "('k list \<Rightarrow> ('w, ('k, 'v) dict) prog) \<Rightarrow> ('w, 'k) gen \<Rightarrow> int \<Rightarrow> bool \<Rightarrow> ('w, 'k \<times> 'v option) gen" where
  "iter_paged_batch_get batch_get keys page_size include_values =
     (if \<not> include_values then gmap (\<lambda>k. (k, None)) keys
      else paged (\<lambda>page rest. await (batch_get page) (\<lambda>found. yield_all (map (\<lambda>k. (k, dget found k)) page) rest))
             page_size keys)"

definition iter_present ::
  "('k list \<Rightarrow> ('w, ('k, 'v) dict) prog) \<Rightarrow> ('k list \<Rightarrow> ('w, 'k set) prog) \<Rightarrow> ('w, 'k) gen \<Rightarrow> int \<Rightarrow> bool
   \<Rightarrow> ('w, 'k \<times> 'v option) gen" where
  "iter_present batch_get batch_exists keys page_size include_values =
     paged (\<lambda>page rest. if include_values
         then await (batch_get page) (\<lambda>found.
           yield_all (map (\<lambda>k. (k, dget found k)) (filter (\<lambda>k. dget found k \<noteq> None) page)) rest)
         else await (batch_exists page) (\<lambda>present.
           yield_all (map (\<lambda>k. (k, None)) (filter (\<lambda>k. k \<in> present) page)) rest))
       page_size keys"

text \<open>The keys of several stores, each where it is first seen.\<close>

primrec union_keys :: "('w, 'k) gen list \<Rightarrow> 'k set \<Rightarrow> ('w, 'k) gen" where
  "union_keys [] seen = Done"
| "union_keys (part # parts) seen = for_each (\<lambda>key continue seen.
      if key \<notin> seen then Yield key (continue (insert key seen)) else continue seen) (union_keys parts) part seen"

definition iter_union_keys :: "('w, 'k, 'v) scanner list \<Rightarrow> 'k scan_query \<Rightarrow> ('w, 'k) gen" where
  "iter_union_keys parts query = union_keys
     (map (\<lambda>part. gmap fst (sn_scan_entries part (query\<lparr>sq_include_values := False\<rparr>))) parts) {}"

definition iter_union_keys_spec :: "('w, 'k, 'v) scanner list \<Rightarrow> ('k, 'v) scan_spec \<Rightarrow> ('w, 'k) gen" where
  "iter_union_keys_spec parts key_spec = union_keys (map (\<lambda>part. gmap sr_key (sn_scan_rows part key_spec)) parts) {}"

definition part_key_spec :: "('k, 'v) scan_spec \<Rightarrow> ('k, 'v) predicate \<Rightarrow> ('k, 'v) scan_spec" where
  "part_key_spec spec key_where = \<lparr>sp_where = key_where, sp_refine = None, sp_project = KEYS, sp_order = sp_order spec,
     sp_limit = None, sp_page_size = sp_page_size spec, sp_cursor = sp_cursor spec,
     sp_on_unsupported = sp_on_unsupported spec, sp_order_by = sp_order_by spec\<rparr>"

definition needs_values :: "('k, 'v) scan_spec \<Rightarrow> ('k, 'v) predicate \<Rightarrow> bool" where
  "needs_values spec residual \<longleftrightarrow> sp_project spec = ENTRIES \<or> VALUE \<in> needs_of residual"

definition require_unordered :: "('k, 'v) scan_spec \<Rightarrow> exn + unit" where
  "require_unordered spec = (if sp_order spec \<noteq> UNORDERED then Inl ScanUnsupported
     else if sp_order_by spec \<noteq> [] then Inl ScanUnsupported else Inr ())"

text \<open>
  \<open>scan_values_through\<close>: a predicate on keys, asked of a store with other values; the
  predicates it is used on have no \<open>ValueWhere\<close> in them.
\<close>

primrec on_keys :: "('k, 'u) predicate \<Rightarrow> ('k, 'v) predicate" where
  "on_keys AlwaysTrue = AlwaysTrue"
| "on_keys (And p q) = And (on_keys p) (on_keys q)"
| "on_keys (Or p q) = Or (on_keys p) (on_keys q)"
| "on_keys (Inverted p) = Inverted (on_keys p)"
| "on_keys (KeyPrefix k) = KeyPrefix k"
| "on_keys (KeyRange start stop inc_start inc_end compare) = KeyRange start stop inc_start inc_end compare"
| "on_keys (KeyIn keys) = KeyIn keys"
| "on_keys (KeyMatches pat) = KeyMatches pat"
| "on_keys (ModifiedBefore t) = ModifiedBefore t"
| "on_keys (ModifiedAfter t) = ModifiedAfter t"
| "on_keys (SizeBetween lo hi) = SizeBetween lo hi"
| "on_keys Expired = Expired"
| "on_keys (ValueWhere f) = AlwaysTrue"

definition scan_values_through ::
  "'k python \<Rightarrow> ('k list \<Rightarrow> ('w, ('k, 'u) dict) prog) \<Rightarrow> (('k, 'v) scan_spec \<Rightarrow> ('w, ('k, 'v) scan_row) gen)
   \<Rightarrow> ('k, 'u) scan_spec \<Rightarrow> ('v \<Rightarrow> 'u option) \<Rightarrow> ('w, ('k, 'u) scan_row) gen" where
  "scan_values_through py view_batch_get src_scan_rows spec forward =
     (case split_key_predicates (sp_where spec) of (key_where, residual) \<Rightarrow>
       let unfiltered = (is_always_true residual \<and> sp_refine spec = None);
           down = \<lparr>sp_where = on_keys key_where, sp_refine = None,
             sp_project = (if needs_values spec residual then ENTRIES else sp_project spec),
             sp_order = sp_order spec, sp_limit = (if unfiltered then sp_limit spec else None),
             sp_page_size = sp_page_size spec, sp_cursor = sp_cursor spec,
             sp_on_unsupported = sp_on_unsupported spec, sp_order_by = sp_order_by spec\<rparr>;
           rows = gmap (\<lambda>r. \<lparr>sr_key = sr_key r, sr_value = Option.bind (sr_value r) forward, sr_stat = sr_stat r\<rparr>) (src_scan_rows down)
       in apply_cascade py rows residual (Some view_batch_get) (sp_refine spec) (sp_limit spec) (sp_project spec))"

text \<open>\<open>ScanPassthroughMixin\<close>: the keys of one store, the values of this one.\<close>

definition passthrough_scan_entries ::
  "('k list \<Rightarrow> ('w, ('k, 'v) dict) prog) \<Rightarrow> ('k scan_query \<Rightarrow> ('w, 'k \<times> 'u option) gen) \<Rightarrow> 'k scan_query
   \<Rightarrow> ('w, 'k \<times> 'v option) gen" where
  "passthrough_scan_entries batch_get src_scan_entries query = iter_paged_batch_get batch_get
     (gmap fst (src_scan_entries (query\<lparr>sq_include_values := False\<rparr>))) (sq_page_size query) (sq_include_values query)"

definition passthrough_scan_rows ::
  "'k python \<Rightarrow> ('k list \<Rightarrow> ('w, ('k, 'v) dict) prog) \<Rightarrow> (('k, 'u) scan_spec \<Rightarrow> ('w, ('k, 'u) scan_row) gen)
   \<Rightarrow> ('k, 'v) scan_spec \<Rightarrow> ('w, ('k, 'v) scan_row) gen" where
  "passthrough_scan_rows py batch_get src_scan_rows spec =
     (case split_key_predicates (sp_where spec) of (key_where, residual) \<Rightarrow>
       let part_spec = \<lparr>sp_where = on_keys key_where, sp_refine = None, sp_project = KEYS, sp_order = sp_order spec,
             sp_limit = None, sp_page_size = sp_page_size spec, sp_cursor = sp_cursor spec,
             sp_on_unsupported = sp_on_unsupported spec, sp_order_by = sp_order_by spec\<rparr>;
           raw = gmap (\<lambda>(k, v). key_row k v) (iter_paged_batch_get batch_get (gmap sr_key (src_scan_rows part_spec))
             (sp_page_size spec) (needs_values spec residual))
       in apply_cascade py raw residual (Some batch_get) (sp_refine spec) (sp_limit spec) (sp_project spec))"

section \<open>A composition's scans (\<open>compose/topology.py\<close>)\<close>

text \<open>\<open>stores\<close> gives the store of a target by its identity; a target that is not a store has none.\<close>

definition store_of :: "(nat \<Rightarrow> ('w, 'k, 'v) scanner option) \<Rightarrow> ('w, 'k, 'v) target \<Rightarrow> exn + ('w, 'k, 'v) scanner" where
  "store_of stores t = (case stores (t_id t) of None \<Rightarrow> Inl PyTypeError | Some sn \<Rightarrow> Inr sn)"

fun stores_of :: "(nat \<Rightarrow> ('w, 'k, 'v) scanner option) \<Rightarrow> ('w, 'k, 'v) target list \<Rightarrow> exn + ('w, 'k, 'v) scanner list" where
  "stores_of stores [] = Inr []"
| "stores_of stores (t # ts) = (case store_of stores t of Inl e \<Rightarrow> Inl e
     | Inr sn \<Rightarrow> map_sum id (\<lambda>sns. sn # sns) (stores_of stores ts))"

definition scanned_stores :: "('w, 'k, 'v) topology \<Rightarrow> (nat \<Rightarrow> ('w, 'k, 'v) scanner option) \<Rightarrow> exn + ('w, 'k, 'v) scanner list" where
  "scanned_stores tp stores = stores_of stores (case authority tp of Some a \<Rightarrow> [a] | None \<Rightarrow> components tp)"

definition topo_scan_entries ::
  "('w, 'k, 'v) topology \<Rightarrow> (nat \<Rightarrow> ('w, 'k, 'v) scanner option) \<Rightarrow> 'k scan_query \<Rightarrow> ('w, 'k \<times> 'v option) gen" where
  "topo_scan_entries tp stores query = (case whole_authority tp of
      Some a \<Rightarrow> raise_or (store_of stores a) (\<lambda>sn. sn_scan_entries sn query)
    | None \<Rightarrow> raise_or (scanned_stores tp stores) (\<lambda>parts.
        iter_present (topo_batch_read tp) (topo_batch_exists tp) (iter_union_keys parts query)
          (sq_page_size query) (sq_include_values query)))"

definition topo_scan_rows ::
  "'k python \<Rightarrow> ('w, 'k, 'v) topology \<Rightarrow> (nat \<Rightarrow> ('w, 'k, 'v) scanner option) \<Rightarrow> ('k, 'v) scan_spec
   \<Rightarrow> ('w, ('k, 'v) scan_row) gen" where
  "topo_scan_rows py tp stores spec = (case whole_authority tp of
      Some a \<Rightarrow> raise_or (store_of stores a) (\<lambda>sn. sn_scan_rows sn spec)
    | None \<Rightarrow> raise_or (scanned_stores tp stores) (\<lambda>scanned.
        raise_or (if length scanned > 1 then require_unordered spec else Inr ()) (\<lambda>_.
          case split_key_predicates (sp_where spec) of (key_where, residual) \<Rightarrow>
            let keys = iter_union_keys_spec scanned (part_key_spec spec key_where);
                raw = gmap (\<lambda>(k, v). key_row k v) (iter_present (topo_batch_read tp) (topo_batch_exists tp) keys
                  (sp_page_size spec) (needs_values spec residual))
            in apply_cascade py raw residual (Some (topo_batch_read tp)) (sp_refine spec) (sp_limit spec) (sp_project spec))))"

definition topology_scanner ::
  "'k python \<Rightarrow> ('w, 'k, 'v) topology \<Rightarrow> (nat \<Rightarrow> ('w, 'k, 'v) scanner option) \<Rightarrow> int \<Rightarrow> key_layout \<Rightarrow> ('w, 'k, 'v) scanner" where
  "topology_scanner py tp stores batch_size layout = \<lparr>
     sn_batch_size = batch_size, sn_layout = layout,
     sn_batch_get = topo_batch_read tp, sn_batch_exists = topo_batch_exists tp,
     sn_scan_entries = topo_scan_entries tp stores, sn_scan_rows = topo_scan_rows py tp stores\<rparr>"

text \<open>\<open>StoreTopologyMixin.delete_where\<close> with the composition's own scan.\<close>

definition composed_delete_where ::
  "'k python \<Rightarrow> ('w, 'k, 'v) topology \<Rightarrow> (nat \<Rightarrow> ('w, 'k, 'v) scanner option) \<Rightarrow> ('k, 'v) predicate \<Rightarrow> int option
   \<Rightarrow> sync_policy option \<Rightarrow> ('w node, int) prog" where
  "composed_delete_where py tp stores where' limit policy = topo_delete_where tp (is_gc_predicate where')
     (on_fst (selected_keys (topology_scanner py tp stores 0 Literal) where' limit)) limit policy"

end
