(* ===== verification/Scan_Memory.thy ===== *)
theory Scan_Memory
  imports Scan_Laws Scan_Stores Memory_Properties
begin

text \<open>
  Scans of the in-memory store against its content. A read or a scan may drop entries that
  have expired; what is live, and the order it is stored in, stays.
\<close>

section \<open>Reads only sweep\<close>

definition swept :: "('k, 'v) memory_backend \<Rightarrow> mem_root \<Rightarrow> mem_root \<Rightarrow> bool" where
  "swept mb w w' \<longleftrightarrow> mr_now w' = mr_now w \<and> mr_next w' = mr_next w
     \<and> (\<exists>P. bucket mb w' = filter (\<lambda>(p, e). \<not> (expired e (mr_now w) \<and> P p)) (bucket mb w))"

definition sweeps :: "('k, 'v) memory_backend \<Rightarrow> (mem_root, 'a) prog \<Rightarrow> bool" where
  "sweeps mb m \<longleftrightarrow> (\<forall>w. dict_ok (bucket mb w) \<longrightarrow> swept mb w (snd (m w)))"

lemma swept_refl: "swept mb w w"
  by (auto simp: swept_def intro!: exI [of _ "\<lambda>_. False"])

lemma swept_trans:
  assumes "swept mb w1 w2" "swept mb w2 w3" shows "swept mb w1 w3"
proof -
  from assms obtain P Q where
    "bucket mb w2 = filter (\<lambda>(p, e). \<not> (expired e (mr_now w1) \<and> P p)) (bucket mb w1)"
    "bucket mb w3 = filter (\<lambda>(p, e). \<not> (expired e (mr_now w1) \<and> Q p)) (bucket mb w2)"
    by (auto simp: swept_def)
  then have "bucket mb w3 = filter (\<lambda>(p, e). \<not> (expired e (mr_now w1) \<and> (P p \<or> Q p))) (bucket mb w1)"
    by (auto intro!: filter_cong)
  with assms show ?thesis unfolding swept_def by (intro conjI exI [of _ "\<lambda>p. P p \<or> Q p"]) simp_all
qed

lemma swept_dict_ok: "swept mb w w' \<Longrightarrow> dict_ok (bucket mb w) \<Longrightarrow> dict_ok (bucket mb w')"
  by (auto simp: swept_def distinct_map_filter)

lemma swept_drop:
  assumes "dict_ok (bucket mb w)" "dget (bucket mb w) p = Some e" "expired e (mr_now w)"
  shows "swept mb w (with_bucket mb (ddel p (bucket mb w)) w)"
proof -
  have "(q, x) \<in> set (bucket mb w) \<Longrightarrow> q = p \<Longrightarrow> x = e" for q x
    using assms(1,2) by (metis map_of_is_SomeI option.inject)
  then have "ddel p (bucket mb w) = filter (\<lambda>(q, x). \<not> (expired x (mr_now w) \<and> q = p)) (bucket mb w)"
    using assms(3) unfolding ddel_def by (intro filter_cong) auto
  then show ?thesis by (auto simp: swept_def intro!: exI [of _ "\<lambda>q. q = p"])
qed

lemma sweeps_return: "sweeps mb (\<lambda>w. (r w, w))"
  by (simp add: sweeps_def swept_refl)

lemma sweeps_bind:
  assumes m: "sweeps mb m" and f: "\<And>a. sweeps mb (f a)"
  shows "sweeps mb (bindP m f)"
proof -
  show ?thesis unfolding sweeps_def
  proof (intro allI impI)
    fix w assume ok: "dict_ok (bucket mb w)"
    obtain r w1 where run: "m w = (r, w1)" by fastforce
    with m ok have w1: "swept mb w w1" unfolding sweeps_def by (metis snd_conv)
    then show "swept mb w (snd (bindP m f w))"
      using f swept_dict_ok [OF w1 ok] swept_trans [OF w1] by (cases r) (auto simp: bindP_run run sweeps_def)
  qed
qed

lemma sweeps_map: "sweeps mb m \<Longrightarrow> sweeps mb (mapP f m)"
  unfolding mapP_def by (rule sweeps_bind) (auto simp: returnP_def intro: sweeps_return)

lemma sweeps_lift: "sweeps mb (liftP r)"
  by (cases r) (simp_all add: liftP_def raiseP_def returnP_def sweeps_return)

lemma sweeps_fold: "(\<And>x s. sweeps mb (f x s)) \<Longrightarrow> sweeps mb (foldP f xs s)"
proof (induction xs arbitrary: s)
  case (Cons x xs)
  then show ?case by (simp add: sweeps_bind)
qed (simp add: returnP_def sweeps_return)

lemma live_entry_sweeps: "sweeps mb (live_entry mb k)"
  unfolding live_entry_def
proof (rule sweeps_bind [OF sweeps_lift])
  show "sweeps mb (\<lambda>w. case dget (bucket mb w) pk of None \<Rightarrow> (Inr None, w)
     | Some entry \<Rightarrow> if expired entry (mr_now w)
         then (Inr None, if mb_expiry_gc mb = LazyDelete then with_bucket mb (ddel pk (bucket mb w)) w else w)
         else (Inr (Some entry), w))" for pk
    by (auto simp: sweeps_def swept_refl swept_drop split: option.splits)
qed

lemma get_sweeps: "sweeps mb (memory_get mb k)"
  unfolding memory_get_def
  by (rule sweeps_bind [OF live_entry_sweeps])
    (auto simp: returnP_def sweeps_return sweeps_map sweeps_lift split: option.splits)

lemma batch_get_sweeps: "sweeps mb (memory_batch_get mb ks)"
  unfolding memory_batch_get_def in_chunks_def
  by (auto simp: raiseP_def sweeps_return split: option.splits intro!: sweeps_fold sweeps_map get_sweeps)

lemma batch_exists_sweeps: "sweeps mb (memory_batch_exists mb ks)"
  unfolding memory_batch_exists_def memory_exists_def by (intro sweeps_fold sweeps_map live_entry_sweeps)

lemma scan_one_sweeps: "sweeps mb (memory_scan_one mb pre include_values pk rows)"
  unfolding sweeps_def memory_scan_one_def
proof (intro allI impI)
  fix w assume ok: "dict_ok (bucket mb w)"
  have "sweeps mb (mapP (\<lambda>v. rows @ [(k, Some v)]) (liftP (memory_value mb b)))" for k b
    by (rule sweeps_map [OF sweeps_lift])
  with ok show "swept mb w (snd (case dget (bucket mb w) pk of
      None \<Rightarrow> (Inr rows, w)
    | Some entry \<Rightarrow>
        if expired entry (mr_now w)
        then (Inr rows, if mb_expiry_gc mb = LazyDelete then with_bucket mb (ddel pk (bucket mb w)) w else w)
        else if \<not> py_startswith pk pre then (Inr rows, w)
        else case decode_key_from_physical (mb_backend mb) pk of
          None \<Rightarrow> (Inr rows, w)
        | Some key \<Rightarrow> if include_values
            then mapP (\<lambda>v. rows @ [(key, Some v)]) (liftP (memory_value mb (me_blob entry))) w
            else (Inr (rows @ [(key, None)]), w)))"
    by (auto simp: swept_refl swept_drop sweeps_def split: option.splits)
qed

section \<open>What stays\<close>

definition live_entries :: "('k, 'v) memory_backend \<Rightarrow> mem_root \<Rightarrow> (string \<times> mem_entry) list" where
  "live_entries mb w = filter (\<lambda>(p, e). \<not> expired e (mr_now w) \<and> py_startswith p (scope_blob mb)) (bucket mb w)"

definition settled_media :: "('k, 'v) memory_backend \<Rightarrow> (string \<times> mem_entry) list \<Rightarrow> mem_root \<Rightarrow> bool" where
  "settled_media mb L w \<longleftrightarrow> memory_inv mb w \<and> own mb w \<and> live_entries mb w = L"

lemma swept_live: "swept mb w w' \<Longrightarrow> live_entries mb w' = live_entries mb w"
proof -
  assume "swept mb w w'"
  then obtain P where "bucket mb w' = filter (\<lambda>(p, e). \<not> (expired e (mr_now w) \<and> P p)) (bucket mb w)" "mr_now w' = mr_now w"
    by (auto simp: swept_def)
  then show ?thesis unfolding live_entries_def by (simp add: filter_filter) (rule filter_cong, auto)
qed

lemma swept_settled:
  assumes "settled_media mb L w" "swept mb w w'"
  shows "settled_media mb L w'"
proof -
  from assms(2) obtain P where b: "bucket mb w' = filter (\<lambda>(p, e). \<not> (expired e (mr_now w) \<and> P p)) (bucket mb w)"
    and next': "mr_next w' = mr_next w" by (auto simp: swept_def)
  have ok: "dict_ok (bucket mb w)" using assms(1) by (simp add: settled_media_def own_def)
  have "own mb w'" using assms(1) swept_dict_ok [OF assms(2) ok] unfolding settled_media_def own_def b by auto
  moreover have sub: "dget (bucket mb w') p = Some e \<Longrightarrow> dget (bucket mb w) p = Some e" for p e
    using ok by (auto simp: b dest!: map_of_SomeD)
  then have old: "stored_at mb w' k = Some e \<Longrightarrow> stored_at mb w k = Some e" for k e
    by (auto simp: stored_at_def split: sum.splits)
  have "memory_inv mb w'" using assms(1) next' old unfolding settled_media_def memory_inv_def by metis
  ultimately show ?thesis using assms(1) swept_live [OF assms(2)] by (simp add: settled_media_def)
qed

lemma sweeps_settled: "sweeps mb m \<Longrightarrow> settled_media mb L w \<Longrightarrow> settled_media mb L (snd (m w))"
  unfolding sweeps_def by (metis settled_media_def own_def swept_settled)

lemma dget_live:
  assumes "dict_ok (bucket mb w)"
  shows "dget (live_entries mb w) p = (case dget (bucket mb w) p of None \<Rightarrow> None
     | Some e \<Rightarrow> if expired e (mr_now w) \<or> \<not> py_startswith p (scope_blob mb) then None else Some e)"
proof (cases "dget (bucket mb w) p")
  case None
  then have "dget (live_entries mb w) p = None" by (auto simp: live_entries_def map_of_eq_None_iff image_iff)
  with None show ?thesis by simp
next
  case (Some e)
  have ok: "dict_ok (live_entries mb w)" using assms by (simp add: live_entries_def distinct_map_filter)
  have "(p, e) \<in> set (bucket mb w)" using Some by (rule map_of_SomeD)
  show ?thesis
  proof (cases "expired e (mr_now w) \<or> \<not> py_startswith p (scope_blob mb)")
    case True
    have "p \<notin> fst ` set (live_entries mb w)"
    proof
      assume "p \<in> fst ` set (live_entries mb w)"
      then obtain x where "(p, x) \<in> set (bucket mb w)" "\<not> expired x (mr_now w)" "py_startswith p (scope_blob mb)" by (auto simp: live_entries_def)
      with assms Some True show False by (metis map_of_is_SomeI option.inject)
    qed
    then have "dget (live_entries mb w) p = None" by (simp add: map_of_eq_None_iff)
    with Some True show ?thesis by simp
  next
    case False
    then have "(p, e) \<in> set (live_entries mb w)" using \<open>(p, e) \<in> set (bucket mb w)\<close> by (simp add: live_entries_def)
    with ok Some False show ?thesis by simp
  qed
qed

text \<open>What the collection holds is in its live entries.\<close>

definition holds_in :: "('k, 'v) memory_backend \<Rightarrow> (string \<times> mem_entry) list \<Rightarrow> 'k \<Rightarrow> 'v option" where
  "holds_in mb L k = (case memory_key mb k of Inl _ \<Rightarrow> None
     | Inr p \<Rightarrow> (case dget L p of None \<Rightarrow> None | Some e \<Rightarrow> value_of mb (me_blob e)))"

lemma settled_row:
  assumes "storable mb" "settled_media mb L w" "(p, e) \<in> set L"
  shows "memory_key mb (key_at mb p) = Inr p" "decode_key_from_physical (mb_backend mb) p = Some (key_at mb p)"
    "\<exists>v. value_of mb (me_blob e) = Some v \<and> holds_in mb L (key_at mb p) = Some v"
proof -
  from assms(2,3) have own: "own mb w" and mem: "(p, e) \<in> set (bucket mb w)" and ok: "dict_ok L"
    by (auto simp: settled_media_def own_def live_entries_def distinct_map_filter)
  from mem have p: "p \<in> set (dkeys (bucket mb w))" by force
  from assms(2,3) have under: "py_startswith p (scope_blob mb)" by (auto simp: settled_media_def live_entries_def)
  from own_listed [OF assms(1) own p under] obtain k where
    k: "decode_key_from_physical (mb_backend mb) p = Some k" "memory_key mb k = Inr p" by blast
  then show key: "memory_key mb (key_at mb p) = Inr p" "decode_key_from_physical (mb_backend mb) p = Some (key_at mb p)"
    by (simp_all add: key_at_def)
  have "stored_at mb w (key_at mb p) = Some e" using mem own by (simp add: stored_at_def key own_def)
  with assms(2) have "value_of mb (me_blob e) \<noteq> None" by (simp add: settled_media_def memory_inv_def)
  moreover have "dget L p = Some e" using assms(3) ok by simp
  ultimately show "\<exists>v. value_of mb (me_blob e) = Some v \<and> holds_in mb L (key_at mb p) = Some v"
    by (auto simp: holds_in_def key)
qed

section \<open>The generator\<close>

definition entry_row :: "('k, 'v) memory_backend \<Rightarrow> bool \<Rightarrow> string \<times> mem_entry \<Rightarrow> 'k \<times> 'v option" where
  "entry_row mb include_values = (\<lambda>(p, e). (key_at mb p, if include_values then value_of mb (me_blob e) else None))"

definition rows_under :: "('k, 'v) memory_backend \<Rightarrow> string \<Rightarrow> bool \<Rightarrow> (string \<times> mem_entry) list \<Rightarrow> ('k \<times> 'v option) list" where
  "rows_under mb pre include_values L = map (entry_row mb include_values) (filter (\<lambda>(p, e). py_startswith p pre) L)"

lemma scan_one_settled:
  assumes ok: "storable mb" and w: "settled_media mb L w" and pre: "py_startswith pre (scope_blob mb)"
  shows "fst (memory_scan_one mb pre include_values p [] w)
    = Inr (case dget L p of None \<Rightarrow> [] | Some e \<Rightarrow> rows_under mb pre include_values [(p, e)])"
proof -
  have dok: "dict_ok (bucket mb w)" and L: "L = live_entries mb w" using w by (simp_all add: settled_media_def own_def)
  show ?thesis
  proof (cases "dget (live_entries mb w) p")
    case None
    then show ?thesis using dget_live [OF dok, of p] py_startswith_trans [OF _ pre, of p]
      by (auto simp: L memory_scan_one_def split: option.splits if_splits)
  next
    case (Some e)
    then have e: "dget (bucket mb w) p = Some e" "\<not> expired e (mr_now w)"
      using dget_live [OF dok, of p] by (auto split: option.splits if_splits)
    from Some L have "(p, e) \<in> set L" by (auto dest: map_of_SomeD)
    from settled_row [OF ok w this] obtain v where v: "value_of mb (me_blob e) = Some v"
      and k: "decode_key_from_physical (mb_backend mb) p = Some (key_at mb p)" by blast
    from v have "liftP (memory_value mb (me_blob e)) w = (Inr v, w)"
      by (simp add: liftP_def memory_value_def value_of_def serde_result_def)
    then show ?thesis using e k v by (simp add: Some L memory_scan_one_def rows_under_def entry_row_def)
  qed
qed

lemma await_settled:
  assumes "sweeps mb m" "\<And>w. settled_media mb L w \<Longrightarrow> \<exists>a. fst (m w) = Inr a \<and> yields (settled_media mb L) (k a) as"
  shows "yields (settled_media mb L) (await m k) as"
proof (rule await_yields)
  fix w assume "settled_media mb L w"
  with assms(2) [OF this] sweeps_settled [OF assms(1) this]
  show "\<exists>a w'. m w = (Inr a, w') \<and> settled_media mb L w' \<and> yields (settled_media mb L) (k a) as"
    by (cases "m w") auto
qed

lemma entries_gen_yields:
  assumes "storable mb" "py_startswith pre (scope_blob mb)"
  shows "yields (settled_media mb L) (memory_entries_gen mb pre include_values ps)
    (concat (map (\<lambda>p. case dget L p of None \<Rightarrow> [] | Some e \<Rightarrow> rows_under mb pre include_values [(p, e)]) ps))"
proof (induction ps)
  case (Cons p ps)
  show ?case unfolding memory_entries_gen.simps memory_entry_gen_def
    using scan_one_settled [OF assms(1) _ assms(2)] yield_all_yields [OF Cons.IH]
    by (intro await_settled [OF scan_one_sweeps]) auto
qed (simp add: yields_Done)

lemma rows_of_keys:
  assumes "dict_ok d" "\<And>p e. (p, e) \<in> set d \<Longrightarrow> dget L p = (if P p e then Some e else None)" "L' = filter (\<lambda>(p, e). P p e) d"
  shows "concat (map (\<lambda>p. case dget L p of None \<Rightarrow> [] | Some e \<Rightarrow> rows_under mb pre iv [(p, e)]) (dkeys d)) = rows_under mb pre iv L'"
  unfolding assms(3) using assms(1,2)
proof (induction d)
  case (Cons x d)
  obtain p e where x: "x = (p, e)" by fastforce
  from Cons.prems(2) [of p e] have L: "dget L p = (if P p e then Some e else None)" by (simp add: x)
  show ?case
  proof (cases "P p e")
    case True
    with Cons.IH Cons.prems L show ?thesis by (simp add: x rows_under_def del: map_map)
  next
    case False
    with Cons.IH Cons.prems L show ?thesis by (simp add: x rows_under_def del: map_map)
  qed
qed (simp add: rows_under_def)

lemma scan_gen_yields:
  assumes "storable mb" "scan_prefix_blob (mb_backend mb) (sq_prefix query) = Inr pre"
  shows "yields (settled_media mb L) (memory_scan_gen mb query) (rows_under mb pre (sq_include_values query) L)"
  unfolding memory_scan_gen_def assms(2) raise_or.simps
proof (rule yields_Step; simp)
  fix w assume w: "settled_media mb L w"
  have ok: "dict_ok (bucket mb w)" and L: "L = filter (\<lambda>(p, e). \<not> expired e (mr_now w) \<and> py_startswith p (scope_blob mb)) (bucket mb w)"
    using w by (simp_all add: settled_media_def own_def live_entries_def)
  have "dget L p = (if \<not> expired e (mr_now w) \<and> py_startswith p (scope_blob mb) then Some e else None)" if "(p, e) \<in> set (bucket mb w)" for p e
    using dget_live [OF ok, of p] ok that by (simp add: L live_entries_def [symmetric])
  then have rows: "concat (map (\<lambda>p. case dget L p of None \<Rightarrow> [] | Some e \<Rightarrow> rows_under mb pre (sq_include_values query) [(p, e)])
      (dkeys (bucket mb w))) = rows_under mb pre (sq_include_values query) L"
    by (rule rows_of_keys [OF ok, where P = "\<lambda>p e. \<not> expired e (mr_now w) \<and> py_startswith p (scope_blob mb)"]) (simp_all add: L)
  show "yields (settled_media mb L) (memory_entries_gen mb pre (sq_include_values query) (dkeys (bucket mb w)))
      (rows_under mb pre (sq_include_values query) L)"
    using entries_gen_yields [OF assms(1) prefix_under_scope [OF assms], of L "sq_include_values query" "dkeys (bucket mb w)"] unfolding rows .
qed

text \<open>Drained, it is the list of \<open>memory_scan_entries\<close>.\<close>

lemma scan_one_rows: "memory_scan_one mb pre iv p rows w
    = map_prod (map_sum id (\<lambda>r. rows @ r)) id (memory_scan_one mb pre iv p [] w)"
  by (auto simp: memory_scan_one_def mapP_run liftP_def memory_value_def split: option.splits sum.splits)

lemma drain_yield_all: "drain (yield_all as g) = mapP (\<lambda>bs. as @ bs) (drain g)"
  by (induction as; rule ext) (auto simp: mapP_run split: prod.splits sum.splits)

lemma drain_entries_gen: "foldP (memory_scan_one mb pre iv) ps rows w
    = mapP (\<lambda>r. rows @ r) (drain (memory_entries_gen mb pre iv ps)) w"
proof (induction ps arbitrary: rows w)
  case (Cons p ps)
  obtain r w1 where one: "memory_scan_one mb pre iv p [] w = (r, w1)" by fastforce
  show ?case
    using Cons.IH [of _ w1]
    by (cases r) (auto simp: bindP_run mapP_run memory_entry_gen_def await_def drain_yield_all
        scan_one_rows [of mb pre iv p rows w] one split: prod.splits sum.splits)
qed simp

theorem drain_scan_gen:
  "drain (memory_scan_gen mb query) = memory_scan_entries mb (sq_prefix query) (sq_include_values query)"
  by (rule ext) (auto simp: memory_scan_gen_def memory_scan_entries_def bindP_run liftP_def drain_entries_gen mapP_run
      split: sum.splits prod.splits)

section \<open>Reads during a scan\<close>

context memory_collection
begin

lemma settled_holds: "settled_media mb L w \<Longrightarrow> memory_holds mb w = holds_in mb L"
  using dget_live [of mb w] scope_law
  by (auto simp: fun_eq_iff settled_media_def own_def memory_holds_def live_at_def stored_at_def holds_in_def
      split: sum.splits option.splits)

lemma batch_get_settled:
  assumes "settled_media mb L w"
  shows "\<exists>d w'. memory_batch_get mb ks w = (Inr d, w') \<and> settled_media mb L w' \<and> dict_ok d
    \<and> (\<forall>k. dget d k = (if k \<in> set ks then holds_in mb L k else None))"
proof -
  from assms have "memory_inv mb w" by (simp add: settled_media_def)
  from reads.default_batch_get_law [OF this, of ks, folded batch_get_run] sweeps_settled [OF batch_get_sweeps assms, of ks]
  show ?thesis by (auto simp: settled_holds [OF assms])
qed

lemma batch_exists_settled:
  assumes "settled_media mb L w"
  shows "\<exists>w'. memory_batch_exists mb ks w = (Inr {k \<in> set ks. holds_in mb L k \<noteq> None}, w') \<and> settled_media mb L w'"
proof -
  from assms have "memory_inv mb w" by (simp add: settled_media_def)
  from km.batch_exists_law [OF this, of ks] sweeps_settled [OF batch_exists_sweeps assms, of ks]
  show ?thesis by (auto simp: settled_holds [OF assms] memory_keymap_def)
qed

end

sublocale memory_collection \<subseteq> scanned: hydrated_reads "memory_batch_get mb" "settled_media mb L" "holds_in mb L" for L
proof
  fix w ks assume "settled_media mb L w"
  from batch_get_settled [OF this, of ks]
  show "\<exists>d w'. memory_batch_get mb ks w = (Inr d, w') \<and> settled_media mb L w' \<and> (\<forall>k \<in> set ks. dget d k = holds_in mb L k)"
    by auto
qed

lemma concat_map_one: "(\<And>x. x \<in> set xs \<Longrightarrow> f x = [g x]) \<Longrightarrow> concat (map f xs) = map g xs"
  by (induction xs) auto

section \<open>Rows after the cursor\<close>

primrec rows_after :: "('a \<Rightarrow> bool) \<Rightarrow> 'a list \<Rightarrow> 'a list" where
  "rows_after at [] = []"
| "rows_after at (r # rows) = (if at r then rows else rows_after at rows)"

lemma after_cursor_yields:
  assumes "yields I g rows"
  shows "yields I (after_cursor py token g) (rows_after (\<lambda>r. py_text py (sr_key r) = token) rows)"
proof -
  let ?out = "\<lambda>rows started. if started then rows else rows_after (\<lambda>r. py_text py (sr_key r) = token) rows"
  have "yields I (after_cursor py token g) (?out rows False)"
    unfolding after_cursor_def
  proof (rule for_each_yields [OF assms])
    fix a as s k assume "\<And>s. yields I (k s) (?out as s)"
    from this [of True] this [of False]
    show "yields I (if s then Yield a (k True) else k (py_text py (sr_key a) = token)) (?out (a # as) s)"
      by (cases s) auto
  qed auto
  then show ?thesis by simp
qed

lemma rows_after_map: "(\<And>r. at' (f r) = at r) \<Longrightarrow> rows_after at' (map f rows) = map f (rows_after at rows)"
  by (induction rows) simp_all

lemma set_rows_after: "set (rows_after at rows) \<subseteq> set rows"
  by (induction rows) auto

lemma distinct_rows_after: "distinct (map f rows) \<Longrightarrow> distinct (map f (rows_after at rows))"
  by (induction rows) auto

section \<open>The leaf's scan\<close>

text \<open>
  Pushing a prefix down is right: the physical keys under the prefix blob are those of the
  keys that \<open>KeyPrefix\<close> accepts.
\<close>

definition pushes_down :: "'k python \<Rightarrow> ('k, 'v) memory_backend \<Rightarrow> ('k, 'v) predicate \<Rightarrow> bool" where
  "pushes_down py mb p \<longleftrightarrow> (case fst (peel_key_prefix p) of None \<Rightarrow> True
     | Some pre \<Rightarrow> \<exists>blob. scan_prefix_blob (mb_backend mb) (Some pre) = Inr blob
         \<and> (\<forall>k pk. memory_key mb k = Inr pk \<longrightarrow> py_startswith pk blob = starts_with_key py k pre))"

definition under_prefix :: "'k python \<Rightarrow> ('k, 'v) predicate \<Rightarrow> 'k \<Rightarrow> bool" where
  "under_prefix py p k \<longleftrightarrow> (case fst (peel_key_prefix p) of None \<Rightarrow> True | Some pre \<Rightarrow> starts_with_key py k pre)"

text \<open>The rows of the live entries, in the order of the collection.\<close>

definition record_rows :: "('k, 'v) memory_backend \<Rightarrow> bool \<Rightarrow> (string \<times> mem_entry) list \<Rightarrow> ('k, 'v) scan_row list" where
  "record_rows mb include_values L = map (\<lambda>x. case_prod key_row (entry_row mb include_values x)) L"

lemma record_row_key: "sr_key (case_prod key_row (entry_row mb iv x)) = key_at mb (fst x)"
  by (cases x) (simp add: entry_row_def key_row_def)

lemma record_rows_keys: "map sr_key (record_rows mb iv L) = map (\<lambda>x. key_at mb (fst x)) L"
  by (simp add: record_rows_def record_row_key)

lemma record_rows_distinct:
  assumes "storable mb" "settled_media mb L w"
  shows "distinct (map sr_key (record_rows mb iv L))"
proof -
  from assms(2) have "own mb w" and L: "L = filter (\<lambda>(p, e). \<not> expired e (mr_now w) \<and> py_startswith p (scope_blob mb)) (bucket mb w)"
    by (simp_all add: settled_media_def live_entries_def)
  have "distinct (map (\<lambda>(p, e). key_at mb p) L)" unfolding L
    using \<open>own mb w\<close> by (intro filter_keys_distinct [OF _ own_key_inj [OF assms(1)]]) (simp_all add: own_def)
  then show ?thesis by (simp add: record_rows_keys case_prod_unfold)
qed

text \<open>What the scan needs of each record: nothing it evaluates on its row raises.\<close>

definition decided_records ::
  "'k python \<Rightarrow> ('k, 'v) predicate \<Rightarrow> (('k, 'v) scan_row \<Rightarrow> exn + bool) option \<Rightarrow> bool \<Rightarrow> ('k \<Rightarrow> 'v option) \<Rightarrow> bool" where
  "decided_records py p refine include_values h \<longleftrightarrow>
     (\<forall>k v. h k = Some v \<longrightarrow> decided_row py p refine (key_row k (if include_values then Some v else None)))"

definition shows_values :: "('k, 'v) scan_spec \<Rightarrow> bool" where
  "shows_values spec \<longleftrightarrow> sp_project spec = ENTRIES \<or> VALUE \<in> needs_of (sp_where spec)"

definition pushable :: "'k python \<Rightarrow> ('k, 'v) memory_backend \<Rightarrow> ('k, 'v) scan_spec \<Rightarrow> bool" where
  "pushable py mb spec \<longleftrightarrow> sp_order_by spec = [] \<and> pushes_down py mb (sp_where spec)
     \<and> enforce_strict spec (snd (peel_key_prefix (sp_where spec))) = Inr ()"

definition leaf_rows :: "'k python \<Rightarrow> ('k, 'v) memory_backend \<Rightarrow> ('k, 'v) scan_spec \<Rightarrow> bool \<Rightarrow> (string \<times> mem_entry) list \<Rightarrow> ('k, 'v) scan_row list" where
  "leaf_rows py mb spec include_values L =
     (let rows = filter (\<lambda>r. under_prefix py (sp_where spec) (sr_key r)) (record_rows mb include_values L) in
      case sp_cursor spec of None \<Rightarrow> rows | Some c \<Rightarrow> rows_after (\<lambda>r. py_text py (sr_key r) = sc_token c) rows)"

lemma entries_rows_yield:
  assumes ok: "storable mb" and push: "pushable py mb spec" and w: "settled_media mb L w"
    and residual: "peel_key_prefix (sp_where spec) = (pre, residual)"
  shows "\<exists>rows pushed. compile_from_scan_entries py (memory_scan_gen mb) spec
      = Inr \<lparr>cm_rows = rows, cm_residual = residual, cm_pushed = pushed\<rparr>
    \<and> yields (settled_media mb L) rows (leaf_rows py mb spec (sp_project spec = ENTRIES) L)"
proof -
  let ?iv = "sp_project spec = ENTRIES"
  let ?query = "\<lparr>sq_prefix = pre, sq_include_values = ?iv, sq_page_size = sp_page_size spec\<rparr>"
  have key: "memory_key mb (key_at mb p) = Inr p" if "(p, e) \<in> set L" for p e
    using settled_row(1) [OF ok w that] .
  obtain blob where blob: "scan_prefix_blob (mb_backend mb) pre = Inr blob"
    and under: "\<forall>(p, e) \<in> set L. py_startswith p blob = under_prefix py (sp_where spec) (key_at mb p)"
  proof (cases pre)
    case None
    have "py_startswith p (scope_blob mb)" if "(p, e) \<in> set L" for p e
      using w that by (auto simp: settled_media_def live_entries_def)
    with scan_prefix_run [of mb] that [of "scope_blob mb"] show thesis by (auto simp: None residual under_prefix_def)
  next
    case (Some k)
    with push residual obtain blob where "scan_prefix_blob (mb_backend mb) (Some k) = Inr blob"
      "\<forall>j pk. memory_key mb j = Inr pk \<longrightarrow> py_startswith pk blob = starts_with_key py j k"
      by (auto simp: pushable_def pushes_down_def)
    with that [of blob] key show thesis by (force simp: Some residual under_prefix_def)
  qed
  have rows: "map (\<lambda>(k, v). key_row k v) (rows_under mb blob ?iv L)
      = filter (\<lambda>r. under_prefix py (sp_where spec) (sr_key r)) (record_rows mb ?iv L)"
    using under by (induction L) (auto simp: rows_under_def record_rows_def record_row_key)
  have gen: "yields (settled_media mb L) (gmap (\<lambda>(k, v). key_row k v) (memory_scan_gen mb ?query))
      (filter (\<lambda>r. under_prefix py (sp_where spec) (sr_key r)) (record_rows mb ?iv L))"
    using gmap_yields [OF scan_gen_yields [OF ok, of ?query blob L], of "\<lambda>(k, v). key_row k v"] by (simp add: blob rows)
  show ?thesis
    using gen after_cursor_yields [OF gen] push
    by (auto simp: compile_from_scan_entries_def residual pushable_def leaf_rows_def Let_def split: option.splits)
qed

text \<open>The rows whose values were read, where the predicate needs them.\<close>

definition filled :: "bool \<Rightarrow> ('k \<Rightarrow> 'v option) \<Rightarrow> ('k, 'v) scan_row \<Rightarrow> ('k, 'v) scan_row" where
  "filled needed h row = (if needed \<and> sr_value row = None then row\<lparr>sr_value := h (sr_key row)\<rparr> else row)"

lemma filled_key [simp]: "sr_key (filled needed h row) = sr_key row"
  by (simp add: filled_def)

lemma record_rows_of:
  assumes "storable mb" "settled_media mb L w" "r \<in> set (record_rows mb iv L)"
  shows "\<exists>k v. holds_in mb L k = Some v \<and> r = key_row k (if iv then Some v else None)"
proof -
  from assms(3) obtain p e where r: "(p, e) \<in> set L" "r = case_prod key_row (entry_row mb iv (p, e))" by (auto simp: record_rows_def)
  from settled_row(3) [OF assms(1,2) r(1)] obtain v where
    "value_of mb (me_blob e) = Some v" "holds_in mb L (key_at mb p) = Some v" by blast
  with r(2) show ?thesis by (intro exI [of _ "key_at mb p"] exI [of _ v]) (simp add: entry_row_def)
qed

lemma filled_record_rows:
  assumes "storable mb" "settled_media mb L w"
  shows "map (filled needed (holds_in mb L)) (record_rows mb iv L) = record_rows mb (iv \<or> needed) L"
proof -
  have "filled needed (holds_in mb L) (case_prod key_row (entry_row mb iv (p, e))) = case_prod key_row (entry_row mb (iv \<or> needed) (p, e))"
    if "(p, e) \<in> set L" for p e
    using settled_row(3) [OF assms that] by (auto simp: filled_def entry_row_def key_row_def)
  then show ?thesis by (auto simp: record_rows_def)
qed

lemma set_leaf_rows: "set (leaf_rows py mb spec iv L) \<subseteq> {r \<in> set (record_rows mb iv L). under_prefix py (sp_where spec) (sr_key r)}"
  using set_rows_after by (fastforce simp: leaf_rows_def Let_def split: option.splits)

lemma filled_leaf_rows:
  assumes "storable mb" "settled_media mb L w"
  shows "map (filled needed (holds_in mb L)) (leaf_rows py mb spec iv L) = leaf_rows py mb spec (iv \<or> needed) L"
proof -
  have "map (filled needed (holds_in mb L)) (filter (\<lambda>r. under_prefix py (sp_where spec) (sr_key r)) (record_rows mb iv L))
    = filter (\<lambda>r. under_prefix py (sp_where spec) (sr_key r)) (record_rows mb (iv \<or> needed) L)"
    unfolding filled_record_rows [OF assms, symmetric] by (simp add: filter_map comp_def)
  moreover have "map (filled needed (holds_in mb L)) (rows_after (\<lambda>r. py_text py (sr_key r) = token) rows)
    = rows_after (\<lambda>r. py_text py (sr_key r) = token) (map (filled needed (holds_in mb L)) rows)" for token rows
    by (rule rows_after_map [symmetric]) simp
  ultimately show ?thesis by (simp add: leaf_rows_def Let_def split: option.splits)
qed

lemma leaf_rows_distinct:
  assumes "storable mb" "settled_media mb L w"
  shows "distinct (map sr_key (leaf_rows py mb spec iv L))"
proof -
  have "distinct (map sr_key (filter (\<lambda>r. under_prefix py (sp_where spec) (sr_key r)) (record_rows mb iv L)))"
    using record_rows_distinct [OF assms, of iv] by (simp add: distinct_map_filter)
  from this distinct_rows_after [OF this] show ?thesis by (simp add: leaf_rows_def Let_def split: option.splits)
qed

lemma hydrated_filled:
  assumes "storable mb" "settled_media mb L w" "r \<in> set (record_rows mb iv L)"
  shows "hydrated needed (holds_in mb L) r = [filled needed (holds_in mb L) r]"
  using record_rows_of [OF assms] by (auto simp: hydrated_def filled_def key_row_def)

text \<open>On a row under the prefix, the residual selects what the predicate selects; on any other, it selects nothing.\<close>

lemma selects_under_prefix:
  assumes "peel_key_prefix p = (pre, residual)" "decides py p row"
  shows "under_prefix py p (sr_key row) \<Longrightarrow> selects py residual refine row = selects py p refine row"
    and "\<not> under_prefix py p (sr_key row) \<Longrightarrow> \<not> selects py p refine row"
proof -
  obtain b where b: "evaluate py p row = Inr b" using decided_evaluates [OF assms(2)] by blast
  show "selects py residual refine row = selects py p refine row" if "under_prefix py p (sr_key row)"
  proof (cases pre)
    case None
    then show ?thesis using peel_none [of p residual] assms(1) by simp
  next
    case (Some k)
    from peel_holds [OF assms(1) [unfolded Some] b] that show ?thesis
      by (simp add: selects_def b under_prefix_def assms(1) Some)
  qed
  show "\<not> selects py p refine row" if "\<not> under_prefix py p (sr_key row)"
  proof (cases pre)
    case None
    then show ?thesis using that by (simp add: under_prefix_def assms(1))
  next
    case (Some k)
    from peel_holds [OF assms(1) [unfolded Some] b] that show ?thesis
      by (auto simp: selects_def b under_prefix_def assms(1) Some)
  qed
qed

lemma peeled_decided:
  assumes "peel_key_prefix p = (pre, residual)" "decided_row py p refine row"
  shows "decided_row py residual refine row"
  using assms(2) peel_flatten [OF assms(1)] by (auto simp: decided_row_def decides_def)

lemma enforce_no_order: "sp_order_by spec = [] \<Longrightarrow> enforce_order_by_supported spec caps = Inr ()"
  by (simp add: enforce_order_by_supported_def)

context memory_collection
begin

lemma leaf_scan_yields:
  assumes ok: "storable mb" and w: "settled_media mb L w" and push: "pushable py mb spec"
    and dec: "decided_records py (sp_where spec) (sp_refine spec) (shows_values spec) (holds_in mb L)"
  shows "yields (settled_media mb L) (sn_scan_rows (memory_scanner py mb) spec)
    (map (project_row (sp_project spec)) (take_limit (sp_limit spec)
      (filter (selects py (sp_where spec) (sp_refine spec)) (leaf_rows py mb spec (shows_values spec) L))))"
proof -
  let ?p = "sp_where spec" and ?refine = "sp_refine spec" and ?h = "holds_in mb L" and ?iv = "sp_project spec = ENTRIES"
  obtain pre residual where peel: "peel_key_prefix ?p = (pre, residual)" by fastforce
  let ?needed = "VALUE \<in> needs_of ?p"
  have needed: "VALUE \<in> needs_of residual \<longleftrightarrow> ?needed" by (rule peel_needs_value [OF peel])
  have shown: "shows_values spec = (?iv \<or> ?needed)" by (simp add: shows_values_def)
  from entries_rows_yield [OF ok push w peel] obtain rows pushed where
    compiled: "compile_from_scan_entries py (memory_scan_gen mb) spec = Inr \<lparr>cm_rows = rows, cm_residual = residual, cm_pushed = pushed\<rparr>"
    and rows: "yields (settled_media mb L) rows (leaf_rows py mb spec ?iv L)" by blast
  have fine: "decided_row py ?p ?refine (filled ?needed ?h r)" "hydrated ?needed ?h r = [filled ?needed ?h r]"
    if "r \<in> set (leaf_rows py mb spec ?iv L)" for r
  proof -
    from that set_leaf_rows have r: "r \<in> set (record_rows mb ?iv L)" by blast
    then show "hydrated ?needed ?h r = [filled ?needed ?h r]" by (rule hydrated_filled [OF ok w])
    from record_rows_of [OF ok w r] obtain k v where kv: "?h k = Some v" "r = key_row k (if ?iv then Some v else None)" by blast
    then have "filled ?needed ?h r = key_row k (if ?iv \<or> ?needed then Some v else None)" by (auto simp: filled_def key_row_def)
    with dec kv(1) show "decided_row py ?p ?refine (filled ?needed ?h r)" by (simp add: decided_records_def shown)
  qed
  have "scanned.settled L py residual ?refine r" if r: "r \<in> set (leaf_rows py mb spec ?iv L)" for r
  proof -
    from fine(1) [OF r] have "decided_row py residual ?refine (filled ?needed ?h r)" by (rule peeled_decided [OF peel])
    moreover have "\<exists>b. evaluate py q r = Inr b" if "q \<in> set (flatten_and residual)" "VALUE \<notin> needs_of q" for q
    proof -
      have "filled ?needed ?h r = r\<lparr>sr_value := sr_value (filled ?needed ?h r)\<rparr>" by (simp add: filled_def)
      then have "evaluate py q (filled ?needed ?h r) = evaluate py q r" by (metis needs_no_value [OF that(2)])
      moreover from \<open>decided_row py residual ?refine (filled ?needed ?h r)\<close> that(1)
      obtain b where "evaluate py q (filled ?needed ?h r) = Inr b" unfolding decided_row_def decides_def by blast
      ultimately show ?thesis by metis
    qed
    ultimately show ?thesis by (simp add: scanned.settled_def needed fine(2) [OF r])
  qed
  then have run: "yields (settled_media mb L)
      (apply_cascade py rows residual (Some (memory_batch_get mb)) ?refine (sp_limit spec) (sp_project spec))
      (scan_answer py residual ?refine (sp_limit spec) (sp_project spec) ?h (leaf_rows py mb spec ?iv L))"
    by (intro scanned.cascade_yields [OF rows leaf_rows_distinct [OF ok w]]) blast
  have "concat (map (hydrated ?needed ?h) (leaf_rows py mb spec ?iv L)) = map (filled ?needed ?h) (leaf_rows py mb spec ?iv L)"
    using fine(2) by (rule concat_map_one)
  moreover have "filter (selects py residual ?refine) (map (filled ?needed ?h) (leaf_rows py mb spec ?iv L))
      = filter (selects py ?p ?refine) (map (filled ?needed ?h) (leaf_rows py mb spec ?iv L))"
  proof (rule filter_cong [OF refl])
    fix x assume "x \<in> set (map (filled ?needed ?h) (leaf_rows py mb spec ?iv L))"
    then obtain r where r: "r \<in> set (leaf_rows py mb spec ?iv L)" "x = filled ?needed ?h r" by auto
    with set_leaf_rows have "under_prefix py ?p (sr_key x)" by fastforce
    with selects_under_prefix(1) [OF peel] fine(1) [OF r(1)] r(2)
    show "selects py residual ?refine x = selects py ?p ?refine x" by (simp add: decided_row_def)
  qed
  ultimately have "scan_answer py residual ?refine (sp_limit spec) (sp_project spec) ?h (leaf_rows py mb spec ?iv L)
      = map (project_row (sp_project spec)) (take_limit (sp_limit spec)
          (filter (selects py ?p ?refine) (leaf_rows py mb spec (shows_values spec) L)))"
    by (simp add: scan_answer_def needed shown filled_leaf_rows [OF ok w])
  with run push show ?thesis
    by (simp add: memory_scanner_def leaf_scan_rows_def compiled pushable_def enforce_no_order)
qed

end

text \<open>Without a cursor, the prefix takes no record away that the predicate selects.\<close>

lemma leaf_rows_selected:
  assumes "storable mb" "settled_media mb L w" "sp_cursor spec = None"
    and "decided_records py (sp_where spec) (sp_refine spec) iv (holds_in mb L)"
  shows "filter (selects py (sp_where spec) (sp_refine spec)) (leaf_rows py mb spec iv L)
    = filter (selects py (sp_where spec) (sp_refine spec)) (record_rows mb iv L)"
proof -
  obtain pre residual where peel: "peel_key_prefix (sp_where spec) = (pre, residual)" by fastforce
  have "under_prefix py (sp_where spec) (sr_key r)"
    if "r \<in> set (record_rows mb iv L)" "selects py (sp_where spec) (sp_refine spec) r" for r
  proof -
    from record_rows_of [OF assms(1,2) that(1)] assms(4) have "decides py (sp_where spec) r"
      by (auto simp: decided_records_def decided_row_def)
    from selects_under_prefix(2) [OF peel this] that(2) show ?thesis by blast
  qed
  then show ?thesis by (auto simp: leaf_rows_def assms(3) filter_filter intro!: filter_cong)
qed

lemma record_rows_set:
  assumes "storable mb" "settled_media mb L w"
  shows "set (record_rows mb iv L) = {key_row k (if iv then Some v else None) | k v. holds_in mb L k = Some v}"
proof
  show "set (record_rows mb iv L) \<subseteq> {key_row k (if iv then Some v else None) | k v. holds_in mb L k = Some v}"
    using record_rows_of [OF assms, of _ iv] by blast
next
  have "key_row k (if iv then Some v else None) \<in> set (record_rows mb iv L)" if h: "holds_in mb L k = Some v" for k v
  proof -
    from h obtain p e where p: "memory_key mb k = Inr p" "dget L p = Some e" "value_of mb (me_blob e) = Some v"
      by (auto simp: holds_in_def split: sum.splits option.splits)
    from p(2) have mem: "(p, e) \<in> set L" by (rule map_of_SomeD)
    with settled_row(1) [OF assms mem] p(1) memory_collection.key_inj [OF storable_collection [OF assms(1)]]
    have "key_at mb p = k" by blast
    with p mem show ?thesis by (force simp: record_rows_def entry_row_def)
  qed
  then show "{key_row k (if iv then Some v else None) | k v. holds_in mb L k = Some v} \<subseteq> set (record_rows mb iv L)" by blast
qed

section \<open>Pages of a scan\<close>

lemma filter_rows_after:
  "n < length (filter P xs) \<Longrightarrow> distinct (map f xs) \<Longrightarrow>
     filter P (rows_after (\<lambda>r. f r = f (filter P xs ! n)) xs) = drop (Suc n) (filter P xs)"
proof (induction xs arbitrary: n)
  case (Cons x xs)
  have later: "f x \<noteq> f (filter P xs ! m)" if "m < length (filter P xs)" for m
    using Cons.prems(2) nth_mem [OF that] by auto
  show ?case
  proof (cases "P x \<and> n = 0")
    case False
    let ?m = "if P x then n - 1 else n"
    from False Cons.prems(1) have m: "?m < length (filter P xs)" "filter P (x # xs) ! n = filter P xs ! ?m"
      by (auto simp: nth_Cons split: nat.splits)
    with False Cons.IH [OF m(1)] Cons.prems(2) later [OF m(1)] show ?thesis
      by (cases n) auto
  qed simp
qed simp

lemma project_row_key [simp]: "sr_key (project_row pr r) = sr_key r"
  by (cases pr) simp_all

lemma pages_law:
  assumes ok: "storable mb" and w: "settled_media mb L w" and push: "pushable py mb spec"
    and whole: "sp_cursor spec = None" "sp_limit spec = None"
    and dec: "decided_records py (sp_where spec) (sp_refine spec) (shows_values spec) (holds_in mb L)"
    and inj: "inj_on (py_text py) {k. holds_in mb L k \<noteq> None}"
    and all: "drain (sn_scan_rows (memory_scanner py mb) spec) w = (Inr rows, w0)" and n: "1 \<le> n" "n \<le> length rows"
    and token: "sc_token cursor = py_text py (sr_key (rows ! (n - 1)))"
  shows "\<exists>w1 w2. drain (sn_scan_rows (memory_scanner py mb) (spec\<lparr>sp_limit := Some (int n)\<rparr>)) w = (Inr (take n rows), w1)
    \<and> drain (sn_scan_rows (memory_scanner py mb) (spec\<lparr>sp_cursor := Some cursor\<rparr>)) w1 = (Inr (drop n rows), w2)"
proof -
  let ?iv = "shows_values spec" and ?sel = "selects py (sp_where spec) (sp_refine spec)"
  let ?X = "filter (\<lambda>r. under_prefix py (sp_where spec) (sr_key r)) (record_rows mb ?iv L)"
  have run: "\<exists>w'. drain (sn_scan_rows (memory_scanner py mb) spec') u = (Inr (map (project_row (sp_project spec))
      (take_limit (sp_limit spec') (filter ?sel (leaf_rows py mb spec' ?iv L)))), w') \<and> settled_media mb L w'"
    if "spec' \<in> {spec, spec\<lparr>sp_limit := Some (int n)\<rparr>, spec\<lparr>sp_cursor := Some cursor\<rparr>}" "settled_media mb L u" for spec' u
  proof -
    from that(1) have same: "sp_where spec' = sp_where spec" "sp_refine spec' = sp_refine spec" "sp_project spec' = sp_project spec"
      "pushable py mb spec'" "shows_values spec' = ?iv"
      using push by (elim insertE emptyE; simp add: pushable_def enforce_strict_def shows_values_def)+
    from memory_collection.leaf_scan_yields [OF storable_collection [OF ok] ok that(2) same(4)] dec same
    have "yields (settled_media mb L) (sn_scan_rows (memory_scanner py mb) spec') (map (project_row (sp_project spec))
      (take_limit (sp_limit spec') (filter ?sel (leaf_rows py mb spec' ?iv L))))" by simp
    from yields_drain [OF this that(2)] show ?thesis .
  qed
  have plain: "leaf_rows py mb spec ?iv L = ?X" "leaf_rows py mb (spec\<lparr>sp_limit := Some (int n)\<rparr>) ?iv L = ?X"
    by (simp_all add: leaf_rows_def whole)
  have rows: "rows = map (project_row (sp_project spec)) (filter ?sel ?X)"
    using run [of spec w] w all by (auto simp: plain whole take_limit_def)
  obtain m where m_def: "n = Suc m" using n(1) by (cases n) auto
  with n(2) rows have m: "m < length (filter ?sel ?X)" by simp
  have tok: "sc_token cursor = py_text py (sr_key (filter ?sel ?X ! m))"
    using token m by (simp add: rows m_def)
  have "distinct (map (\<lambda>r. py_text py (sr_key r)) ?X)"
  proof -
    have "distinct (map sr_key ?X)" using record_rows_distinct [OF ok w] by (simp add: distinct_map_filter)
    moreover have "set (map sr_key ?X) \<subseteq> {k. holds_in mb L k \<noteq> None}"
      using record_rows_set [OF ok w, of ?iv] by (auto simp: key_row_def)
    ultimately have "distinct (map (py_text py) (map sr_key ?X))"
      using inj_on_subset [OF inj] unfolding distinct_map by blast
    then show ?thesis by (simp add: comp_def)
  qed
  from filter_rows_after [OF m this] have rest:
    "filter ?sel (leaf_rows py mb (spec\<lparr>sp_cursor := Some cursor\<rparr>) ?iv L) = drop n (filter ?sel ?X)"
    by (simp add: leaf_rows_def tok m_def)
  from run [of "spec\<lparr>sp_limit := Some (int n)\<rparr>" w] w obtain w1 where
    w1: "drain (sn_scan_rows (memory_scanner py mb) (spec\<lparr>sp_limit := Some (int n)\<rparr>)) w = (Inr (take n rows), w1)" "settled_media mb L w1"
    by (auto simp: plain take_limit_def rows take_map)
  from run [of "spec\<lparr>sp_cursor := Some cursor\<rparr>" w1] w1(2) obtain w2 where
    "drain (sn_scan_rows (memory_scanner py mb) (spec\<lparr>sp_cursor := Some cursor\<rparr>)) w1 = (Inr (drop n rows), w2)"
    by (auto simp: whole take_limit_def rest rows drop_map)
  with w1 show ?thesis by blast
qed

end
