(* ===== verification/Scan_Properties.thy ===== *)
theory Scan_Properties
  imports Scan_Memory
begin

text \<open>
  The properties of scan queries: predicates taken apart, scans of the in-memory store, their
  pages, and deletion by predicate.
\<close>

section \<open>Predicates taken apart\<close>

text \<open>
  C28. Splitting a predicate for pushing it down keeps its meaning. The part that is forwarded
  concerns keys alone: it is decided by the key whatever else is known of the row. Where
  neither raises, a row satisfies the predicate exactly when its key satisfies the
  forwarded part and the row satisfies the residual.
\<close>

theorem split_predicate_sound:
  assumes "split_key_predicates p = (key_where, residual)"
    and "evaluate py p row = Inr b" "evaluate py key_where row = Inr c"
  shows "is_key_only_predicate key_where
    \<and> evaluate py key_where row = evaluate py key_where (key_row (sr_key row) None)
    \<and> py_and (evaluate py key_where row) (evaluate py residual row) = Inr b"
  using split_holds [OF assms] split_key_only [of p] key_only_key [of key_where py row] assms(1) by simp

text \<open>Keys that are strings, as Python sees them.\<close>

definition str_python :: "time \<Rightarrow> string python" where
  "str_python now = \<lparr>py_object = PyStr, py_text = id, py_now = now\<rparr>"

definition sample_where :: "(string, string) predicate" where
  "sample_where = And (And (ModifiedBefore 50) (KeyPrefix ''ab'')) (Inverted (KeyMatches ''*[0-9]''))"

definition sample_row :: "(string, string) scan_row" where
  "sample_row = \<lparr>sr_key = ''abc'', sr_value = None,
     sr_stat = Some \<lparr>ss_size = None, ss_modified_at = Some 7, ss_expires_at = None, ss_etag = None\<rparr>\<rparr>"

theorem split_predicate_sound_witness:
  "split_key_predicates sample_where = (And (KeyPrefix ''ab'') (Inverted (KeyMatches ''*[0-9]'')), ModifiedBefore 50)
   \<and> py_and (evaluate (str_python 0) (And (KeyPrefix ''ab'') (Inverted (KeyMatches ''*[0-9]''))) sample_row)
       (evaluate (str_python 0) (ModifiedBefore 50) sample_row) = Inr True"
proof -
  have split: "split_key_predicates sample_where = (And (KeyPrefix ''ab'') (Inverted (KeyMatches ''*[0-9]'')), ModifiedBefore 50)"
    by (simp add: sample_where_def and_nontrivial_def)
  have "evaluate (str_python 0) sample_where sample_row = Inr True" by code_simp
  moreover have "evaluate (str_python 0) (And (KeyPrefix ''ab'') (Inverted (KeyMatches ''*[0-9]''))) sample_row = Inr True"
    by code_simp
  ultimately show ?thesis using split_predicate_sound [OF split] split by blast
qed

section \<open>Scans of the in-memory store\<close>

lemma memory_settled:
  assumes "memory_inv mb w" "own mb w"
  shows "settled_media mb (live_entries mb w) w"
  using assms by (simp add: settled_media_def)

lemma leaf_rows_law:
  assumes "storable mb" "memory_inv mb w" "own mb w" "pushable py mb spec" "sp_cursor spec = None"
    and "decided_records py (sp_where spec) (sp_refine spec) (shows_values spec) (memory_holds mb w)"
  shows "\<exists>rows w'. drain (sn_scan_rows (memory_scanner py mb) spec) w
      = (Inr (map (project_row (sp_project spec)) (take_limit (sp_limit spec) rows)), w')
    \<and> settled_media mb (live_entries mb w) w' \<and> memory_holds mb w' = memory_holds mb w \<and> distinct (map sr_key rows)
    \<and> set rows = {key_row k (if shows_values spec then Some v else None) | k v. memory_holds mb w k = Some v
        \<and> selects py (sp_where spec) (sp_refine spec) (key_row k (if shows_values spec then Some v else None))}"
proof -
  let ?L = "live_entries mb w" and ?iv = "shows_values spec" and ?sel = "selects py (sp_where spec) (sp_refine spec)"
  have w: "settled_media mb ?L w" by (rule memory_settled [OF assms(2,3)])
  have h: "memory_holds mb w = holds_in mb ?L" by (rule memory_collection.settled_holds [OF storable_collection [OF assms(1)] w])
  let ?rows = "filter ?sel (record_rows mb ?iv ?L)"
  have "yields (settled_media mb ?L) (sn_scan_rows (memory_scanner py mb) spec)
      (map (project_row (sp_project spec)) (take_limit (sp_limit spec) ?rows))"
    using memory_collection.leaf_scan_yields [OF storable_collection [OF assms(1)] assms(1) w assms(4)] assms(6)
      leaf_rows_selected [OF assms(1) w assms(5)] by (simp add: h)
  from yields_drain [OF this w] obtain w' where
    w': "drain (sn_scan_rows (memory_scanner py mb) spec) w
      = (Inr (map (project_row (sp_project spec)) (take_limit (sp_limit spec) ?rows)), w')" "settled_media mb ?L w'" by blast
  moreover have "memory_holds mb w' = memory_holds mb w" using memory_collection.settled_holds [OF storable_collection [OF assms(1)] w'(2)] h by simp
  moreover have "distinct (map sr_key ?rows)"
    using record_rows_distinct [OF assms(1) w] by (simp add: distinct_map_filter)
  moreover have "set ?rows = {key_row k (if ?iv then Some v else None) | k v. memory_holds mb w k = Some v
        \<and> ?sel (key_row k (if ?iv then Some v else None))}"
    unfolding set_filter record_rows_set [OF assms(1) w] h by blast
  ultimately show ?thesis by blast
qed


text \<open>
  Where leaves are not escaped and keys are strings stored as themselves, every prefix is
  pushed down right.
\<close>

lemma startswith_same_start: "py_startswith (p @ s) (p @ t) = py_startswith s t"
  by (simp add: py_startswith_def)

lemma pushes_down_unescaped:
  assumes "leaf_needs_escaping (be_kvset (mb_backend mb)) (be_scope (mb_backend mb)) = Inr False"
    and "\<And>k. ks_key_serialize (be_kvset (mb_backend mb)) k = Some (str k)" "\<And>k. py_object py k = PyStr (str k)"
  shows "pushes_down py mb p"
proof (cases "fst (peel_key_prefix p)")
  case (Some pre)
  let ?be = "mb_backend mb" and ?sep = "ks_separator (be_kvset (mb_backend mb))"
  let ?parts = "cb_name_version_prefix (be_binding ?be) @ scope_parts ?sep (be_scope ?be)"
  have blob: "scan_prefix_blob ?be (Some pre) = Inr (py_join ?sep (?parts @ [str pre]))"
    using assms(2) by (simp add: scan_prefix_blob_def Let_def leaf_blob_def serde_result_def scope_prefix_def blob_join_py_join)
  have key: "memory_key mb k = Inr (py_join ?sep (?parts @ [str k]))" for k
    using assms(1,2) by (simp add: memory_key_def physical_key_blob_def Let_def leaf_blob_def serde_result_def
        item_key_def blob_join_py_join)
  have "py_startswith (py_join ?sep (?parts @ [s])) (py_join ?sep (?parts @ [t])) = py_startswith s t" for s t
  proof (cases "?parts = []")
    case False
    then show ?thesis by (subst (1 2) py_join_append) (simp_all add: startswith_same_start del: append_assoc append_is_Nil_conv)
  qed simp
  moreover have "py_startswith s t = (take (length t) s = t)" for s t by (simp add: py_startswith_def)
  ultimately show ?thesis using assms(3) by (simp add: pushes_down_def Some blob key)
qed (simp add: pushes_down_def)

definition plain_docs :: "(string, string) memory_backend" where
  "plain_docs = docs_memory LazyDelete []"

lemma plain_docs_push: "pushes_down (str_python now) plain_docs p"
  by (rule pushes_down_unescaped [where str = id])
    (simp_all add: plain_docs_def docs_memory_def leaf_needs_escaping_def str_python_def)

lemma plain_docs_storable: "storable plain_docs"
  by (simp add: plain_docs_def docs_memory_storable)

text \<open>Three records, the second of which has expired when they are scanned.\<close>

definition three_docs :: "mem_root" where
  "three_docs = (let w = snd (memory_set plain_docs ''a1'' ''x'' no_options (empty_root 0));
     w = snd (memory_set plain_docs ''a2'' ''x'' \<lparr>wo_ttl = Some ttl_hourly, wo_created_at = None\<rparr> w);
     w = snd (memory_set plain_docs ''a3'' ''y'' no_options w) in w\<lparr>mr_now := 3600000000\<rparr>)"

lemma memory_inv_clock: "memory_inv mb (w\<lparr>mr_now := t\<rparr>) = memory_inv mb w"
proof -
  have "stored_at mb (w\<lparr>mr_now := t\<rparr>) = stored_at mb w"
    by (rule ext) (simp add: stored_at_def bucket_def split: sum.splits)
  then show ?thesis by (simp add: memory_inv_def)
qed

lemma three_docs_inv: "memory_inv plain_docs three_docs"
proof -
  have set: "memory_inv plain_docs (snd (memory_set plain_docs k v opts w))" if "memory_inv plain_docs w" for k v opts w
    using docs.set_step [OF that [unfolded plain_docs_def], of k v opts] by (auto simp: plain_docs_def)
  show ?thesis unfolding three_docs_def Let_def memory_inv_clock
    by (intro set) (simp add: memory_inv_empty)
qed

lemma three_docs_keys: "dkeys (bucket plain_docs three_docs) = [''a1'', ''a2'', ''a3'']"
  by code_simp

lemma three_docs_own: "own plain_docs three_docs"
proof -
  have "memory_key plain_docs ''a1'' = Inr ''a1''" "memory_key plain_docs ''a2'' = Inr ''a2''"
    "memory_key plain_docs ''a3'' = Inr ''a3''" by code_simp+
  then show ?thesis unfolding own_def three_docs_keys by (auto simp: plain_docs_def docs_memory_def)
qed

definition is_x :: "string \<Rightarrow> exn + bool" where
  "is_x v = Inr (v = ''x'')"

definition x_docs :: "(string, string) scan_spec" where
  "x_docs = default_spec\<lparr>sp_where := And (KeyPrefix ''a'') (ValueWhere is_x)\<rparr>"


section \<open>Pages\<close>



end
