(* ===== verification/Views.thy ===== *)
theory Views
  imports Scan_Stores Dict_Map
begin

text \<open>
  Record views, \<open>src/kvtsjl/keymap_algebra/map.py\<close>, \<open>then.py\<close>, \<open>expand.py\<close> and
  \<open>util.py\<close>, and the stores \<open>src/kvtsjl/store/compose/mapped.py\<close>, \<open>then.py\<close>,
  \<open>expand.py\<close>, \<open>readonly.py\<close> make of them. A view keeps nothing: each operation is one or
  two operations of what it views. The functions given to a view are the caller's; a
  \<open>forward\<close> that returns \<open>None\<close> says that there is no such record.
\<close>

section \<open>What can be read (\<open>ReadableKeyMap\<close>)\<close>

record ('w, 'k, 'v) view =
  vw_get :: "'k \<Rightarrow> ('w, 'v option) prog"
  vw_batch_get :: "'k list \<Rightarrow> ('w, ('k, 'v) dict) prog"
  vw_exists :: "'k \<Rightarrow> ('w, bool) prog"
  vw_batch_exists :: "'k list \<Rightarrow> ('w, 'k set) prog"
  vw_stat :: "'k \<Rightarrow> ('w, record_stat option) prog"
  vw_batch_stat :: "'k list \<Rightarrow> ('w, ('k, record_stat) dict) prog"

definition view_of :: "('w, 'k, 'v) keymap \<Rightarrow> ('w, 'k, 'v) view" where
  "view_of km = \<lparr>vw_get = km_get km, vw_batch_get = km_batch_get km, vw_exists = km_exists km,
     vw_batch_exists = km_batch_exists km, vw_stat = km_stat km, vw_batch_stat = km_batch_stat km\<rparr>"

text \<open>A \<open>ReadableKeyMap\<close> that defines \<open>get\<close> and \<open>batch_get\<close> and inherits the rest.\<close>

definition core_view ::
  "('k \<Rightarrow> ('w, 'v option) prog) \<Rightarrow> ('k list \<Rightarrow> ('w, ('k, 'v) dict) prog) \<Rightarrow> ('w, 'k, 'v) view" where
  "core_view get batch_get = (let exists' = default_exists get; batch_exists = default_batch_exists batch_get in
     \<lparr>vw_get = get, vw_batch_get = batch_get, vw_exists = exists', vw_batch_exists = batch_exists,
      vw_stat = default_stat exists', vw_batch_stat = default_batch_stat batch_exists\<rparr>)"

section \<open>Values seen through a function (\<open>map\<close>, \<open>imap\<close>)\<close>

definition forward_dict :: "('v \<Rightarrow> 'u option) \<Rightarrow> ('k, 'v) dict \<Rightarrow> ('k, 'u) dict" where
  "forward_dict forward found = dmap (\<lambda>_ v. the (forward v)) (dfilter (\<lambda>_ v. forward v \<noteq> None) found)"

definition mapped_get :: "('w, 'k, 'v) view \<Rightarrow> ('v \<Rightarrow> 'u option) \<Rightarrow> 'k \<Rightarrow> ('w, 'u option) prog" where
  "mapped_get src forward key = bindP (vw_get src key) (\<lambda>value. case value of
      None \<Rightarrow> returnP None | Some v \<Rightarrow> returnP (forward v))"

definition mapped_batch_get :: "('w, 'k, 'v) view \<Rightarrow> ('v \<Rightarrow> 'u option) \<Rightarrow> 'k list \<Rightarrow> ('w, ('k, 'u) dict) prog" where
  "mapped_batch_get src forward keys = (if keys = [] then returnP []
     else mapP (forward_dict forward) (vw_batch_get src (fromkeys keys)))"

definition mapped_keymap :: "('w, 'k, 'v) view \<Rightarrow> ('v \<Rightarrow> 'u option) \<Rightarrow> ('w, 'k, 'u) view" where
  "mapped_keymap src forward = core_view (mapped_get src forward) (mapped_batch_get src forward)"

definition imapped_seen :: "('v \<Rightarrow> 'u option) \<Rightarrow> 'v versioned \<Rightarrow> 'u versioned" where
  "imapped_seen forward seen = Versioned (Option.bind (seen_value seen) forward) (seen_version seen)"

definition imapped_write :: "('u \<Rightarrow> 'v) \<Rightarrow> 'u cond_write \<Rightarrow> 'v cond_write" where
  "imapped_write backward w = ConditionalWrite (Versioned None (seen_version (cw_seen w)))
     (case cw_change w of Put u \<Rightarrow> Put (backward u) | Remove \<Rightarrow> Remove) (cw_created_at w)"

definition imapped_keymap :: "('w, 'k, 'v) keymap \<Rightarrow> ('v \<Rightarrow> 'u option) \<Rightarrow> ('u \<Rightarrow> 'v) \<Rightarrow> ('w, 'k, 'u) keymap" where
  "imapped_keymap km forward backward =
     (let src = view_of km; get = mapped_get src forward; batch_get = mapped_batch_get src forward;
          exists' = default_exists get; batch_exists = default_batch_exists batch_get;
          set' = \<lambda>key value o'. km_set km key (backward value) o'; delete = km_delete km
      in \<lparr>km_get = get, km_batch_get = batch_get, km_exists = exists', km_batch_exists = batch_exists,
          km_stat = default_stat exists', km_batch_stat = default_batch_stat batch_exists,
          km_batch_read_versioned = \<lambda>keys. mapP (dmap (\<lambda>_. imapped_seen forward)) (km_batch_read_versioned km keys),
          km_batch_write_if_unchanged = \<lambda>writes ttl.
            km_batch_write_if_unchanged km (dmap (\<lambda>_. imapped_write backward) writes) ttl,
          km_set = set', km_batch_set = default_batch_set set',
          km_delete = delete, km_batch_delete = count_true delete,
          km_unset = km_unset km, km_batch_unset = km_batch_unset km,
          km_creates_entries = km_creates_entries km\<rparr>)"

section \<open>Keys seen through a function (\<open>imap_keys\<close>)\<close>

definition keyed_batch_get ::
  "('k \<Rightarrow> 'j) \<Rightarrow> ('j list \<Rightarrow> ('w, ('j, 'v) dict) prog) \<Rightarrow> 'k list \<Rightarrow> ('w, ('k, 'v) dict) prog" where
  "keyed_batch_get to_store batch_get keys = (if keys = [] then returnP []
     else let to_sk = dict_of to_store keys in
       mapP (\<lambda>found. dmap (\<lambda>_ sk. the (dget found sk)) (dfilter (\<lambda>_ sk. dget found sk \<noteq> None) to_sk))
         (batch_get (fromkeys (map snd to_sk))))"

definition keyed_read_versioned ::
  "('k \<Rightarrow> 'j) \<Rightarrow> ('j list \<Rightarrow> ('w, ('j, 'v versioned) dict) prog) \<Rightarrow> 'k list \<Rightarrow> ('w, ('k, 'v versioned) dict) prog" where
  "keyed_read_versioned to_store read keys = (let to_sk = dict_of to_store keys in
     bindP (read (fromkeys (map snd to_sk))) (\<lambda>found.
       if \<exists>sk \<in> set (map snd to_sk). dget found sk = None then raiseP KeyError
       else returnP (dmap (\<lambda>_ sk. the (dget found sk)) to_sk)))"

text \<open>Of two keys stored as one, the later write is made and both count as written.\<close>

definition keyed_write_if_unchanged ::
  "('k \<Rightarrow> 'j) \<Rightarrow> (('j, 'v cond_write) dict \<Rightarrow> ttl_policy option \<Rightarrow> ('w, 'j set) prog)
   \<Rightarrow> ('k, 'v cond_write) dict \<Rightarrow> ttl_policy option \<Rightarrow> ('w, 'k set) prog" where
  "keyed_write_if_unchanged to_store cas writes ttl =
     mapP (\<lambda>written. {k \<in> set (dkeys writes). to_store k \<in> written})
       (cas (dmerge [] (map (\<lambda>(k, w). (to_store k, w)) writes)) ttl)"

definition keyed_keymap :: "('w, 'j, 'v) keymap \<Rightarrow> ('k \<Rightarrow> 'j) \<Rightarrow> ('w, 'k, 'v) keymap" where
  "keyed_keymap km to_store =
     (let get = \<lambda>key. km_get km (to_store key); batch_get = keyed_batch_get to_store (km_batch_get km);
          exists' = default_exists get; batch_exists = default_batch_exists batch_get;
          set' = \<lambda>key value o'. km_set km (to_store key) value o'; delete = \<lambda>key. km_delete km (to_store key)
      in \<lparr>km_get = get, km_batch_get = batch_get, km_exists = exists', km_batch_exists = batch_exists,
          km_stat = default_stat exists', km_batch_stat = default_batch_stat batch_exists,
          km_batch_read_versioned = keyed_read_versioned to_store (km_batch_read_versioned km),
          km_batch_write_if_unchanged = keyed_write_if_unchanged to_store (km_batch_write_if_unchanged km),
          km_set = set', km_batch_set = default_batch_set set',
          km_delete = delete, km_batch_delete = count_true delete,
          km_unset = \<lambda>key. km_unset km (to_store key), km_batch_unset = \<lambda>keys. km_batch_unset km (map to_store keys),
          km_creates_entries = km_creates_entries km\<rparr>)"

definition require_from_store :: "('j \<Rightarrow> 'k) option \<Rightarrow> exn + ('j \<Rightarrow> 'k)" where
  "require_from_store from_store = (case from_store of None \<Rightarrow> Inl ScanUnsupported | Some f \<Rightarrow> Inr f)"

section \<open>Partial maps composed (\<open>then\<close>, \<open>then_with\<close>)\<close>

definition then_with_get ::
  "('w, 'k, 't) view \<Rightarrow> ('k \<Rightarrow> 't \<Rightarrow> 'j) \<Rightarrow> ('w, 'j, 'v) view \<Rightarrow> 'k \<Rightarrow> ('w, 'v option) prog" where
  "then_with_get left key_of right key = bindP (vw_get left key) (\<lambda>value. case value of
      None \<Rightarrow> returnP None | Some v \<Rightarrow> vw_get right (key_of key v))"

definition then_with_batch_get ::
  "('w, 'k, 't) view \<Rightarrow> ('k \<Rightarrow> 't \<Rightarrow> 'j) \<Rightarrow> ('w, 'j, 'v) view \<Rightarrow> 'k list \<Rightarrow> ('w, ('k, 'v) dict) prog" where
  "then_with_batch_get left key_of right keys = (if keys = [] then returnP []
     else bindP (vw_batch_get left (fromkeys keys)) (\<lambda>left_found.
       let mid_of = dmap key_of left_found in
       mapP (\<lambda>right_found. dmap (\<lambda>_ j. the (dget right_found j)) (dfilter (\<lambda>_ j. dget right_found j \<noteq> None) mid_of))
         (vw_batch_get right (fromkeys (map snd mid_of)))))"

definition then_with_keymap ::
  "('w, 'k, 't) view \<Rightarrow> ('k \<Rightarrow> 't \<Rightarrow> 'j) \<Rightarrow> ('w, 'j, 'v) view \<Rightarrow> ('w, 'k, 'v) view" where
  "then_with_keymap left key_of right = core_view (then_with_get left key_of right) (then_with_batch_get left key_of right)"

definition then_get :: "('w, 'k, 'j) view \<Rightarrow> ('w, 'j, 'v) view \<Rightarrow> 'k \<Rightarrow> ('w, 'v option) prog" where
  "then_get left right key = bindP (vw_get left key) (\<lambda>join. case join of
      None \<Rightarrow> returnP None | Some j \<Rightarrow> vw_get right j)"

definition then_batch_get :: "('w, 'k, 'j) view \<Rightarrow> ('w, 'j, 'v) view \<Rightarrow> 'k list \<Rightarrow> ('w, ('k, 'v) dict) prog" where
  "then_batch_get left right keys = (if keys = [] then returnP []
     else bindP (vw_batch_get left (fromkeys keys)) (\<lambda>left_found.
       mapP (\<lambda>right_found. dmap (\<lambda>_ j. the (dget right_found j)) (dfilter (\<lambda>_ j. dget right_found j \<noteq> None) left_found))
         (vw_batch_get right (fromkeys (map snd left_found)))))"

definition then_keymap :: "('w, 'k, 'j) view \<Rightarrow> ('w, 'j, 'v) view \<Rightarrow> ('w, 'k, 'v) view" where
  "then_keymap left right = core_view (then_get left right) (then_batch_get left right)"

text \<open>The store of a \<open>then\<close> asks the store on the right whether, and since when, it holds the record.\<close>

definition then_exists ::
  "('w, 'k, 't) view \<Rightarrow> ('k \<Rightarrow> 't \<Rightarrow> 'j) \<Rightarrow> ('w, 'j, 'v) view \<Rightarrow> 'k \<Rightarrow> ('w, bool) prog" where
  "then_exists left key_of right key = bindP (vw_get left key) (\<lambda>mid. case mid of
      None \<Rightarrow> returnP False | Some m \<Rightarrow> vw_exists right (key_of key m))"

definition then_stat ::
  "('w, 'k, 't) view \<Rightarrow> ('k \<Rightarrow> 't \<Rightarrow> 'j) \<Rightarrow> ('w, 'j, 'v) view \<Rightarrow> 'k \<Rightarrow> ('w, record_stat option) prog" where
  "then_stat left key_of right key = bindP (vw_get left key) (\<lambda>mid. case mid of
      None \<Rightarrow> returnP None | Some m \<Rightarrow> vw_stat right (key_of key m))"

definition exists_each :: "('k \<Rightarrow> ('w, bool) prog) \<Rightarrow> 'k list \<Rightarrow> ('w, 'k set) prog" where
  "exists_each exists' keys = foldP (\<lambda>key found. mapP (\<lambda>b. if b then insert key found else found) (exists' key)) keys {}"

definition stat_each :: "('k \<Rightarrow> ('w, record_stat option) prog) \<Rightarrow> 'k list \<Rightarrow> ('w, ('k, record_stat) dict) prog" where
  "stat_each stat keys = foldP (\<lambda>key out. mapP (\<lambda>meta. case meta of None \<Rightarrow> out | Some m \<Rightarrow> dput key m out) (stat key)) keys []"

definition then_with_store ::
  "('w, 'k, 't) view \<Rightarrow> ('k \<Rightarrow> 't \<Rightarrow> 'j) \<Rightarrow> ('w, 'j, 'v) view \<Rightarrow> ('w, 'k, 'v) view" where
  "then_with_store left key_of right = (then_with_keymap left key_of right)\<lparr>
     vw_exists := then_exists left key_of right, vw_batch_exists := exists_each (then_exists left key_of right),
     vw_stat := then_stat left key_of right, vw_batch_stat := stat_each (then_stat left key_of right)\<rparr>"

definition then_store :: "('w, 'k, 'j) view \<Rightarrow> ('w, 'j, 'v) view \<Rightarrow> ('w, 'k, 'v) view" where
  "then_store left right = (then_keymap left right)\<lparr>
     vw_exists := then_exists left (\<lambda>_ j. j) right, vw_batch_exists := exists_each (then_exists left (\<lambda>_ j. j) right),
     vw_stat := then_stat left (\<lambda>_ j. j) right, vw_batch_stat := stat_each (then_stat left (\<lambda>_ j. j) right)\<rparr>"

end
