(* ===== verification/View_Stores.thy ===== *)
theory View_Stores
  imports Views
begin

text \<open>
  The stores made of views, \<open>src/kvtsjl/store/compose/mapped.py\<close>, \<open>expand.py\<close>,
  \<open>grouped.py\<close> and \<open>readonly.py\<close>, with their scans and what they hand on of the store
  behind them, and the nested collections of \<open>src/kvtsjl/keymap_algebra/expand.py\<close>.
\<close>

section \<open>Expansion\<close>

text \<open>What an expander returns: a keymap, a mapping, or a sequence of pairs.\<close>

datatype ('c, 'sk, 'sv) expansion = Given 'c | Mapping "('sk, 'sv) dict" | Pairs "('sk \<times> 'sv) list"

datatype ('c, 'sk, 'sv) collection = Opaque 'c | Nested "('sk, 'sv) dict_map"

fun as_keymap :: "('c, 'sk, 'sv) expansion \<Rightarrow> ('c, 'sk, 'sv) collection" where
  "as_keymap (Given c) = Opaque c"
| "as_keymap (Mapping d) = Nested (dict_map_init d)"
| "as_keymap (Pairs ps) = Nested (dict_map_from_pairs ps)"

definition expand_get ::
  "('w, 'k, 'v) view \<Rightarrow> ('k \<Rightarrow> 'v \<Rightarrow> ('c, 'sk, 'sv) expansion) \<Rightarrow> 'k \<Rightarrow> ('w, ('c, 'sk, 'sv) collection option) prog" where
  "expand_get src expander key = bindP (vw_get src key) (\<lambda>value. case value of
      None \<Rightarrow> returnP None | Some v \<Rightarrow> returnP (Some (as_keymap (expander key v))))"

definition expand_batch_get ::
  "('w, 'k, 'v) view \<Rightarrow> ('k \<Rightarrow> 'v \<Rightarrow> ('c, 'sk, 'sv) expansion) \<Rightarrow> 'k list \<Rightarrow> ('w, ('k, ('c, 'sk, 'sv) collection) dict) prog" where
  "expand_batch_get src expander keys = (if keys = [] then returnP []
     else mapP (dmap (\<lambda>k v. as_keymap (expander k v))) (vw_batch_get src (fromkeys keys)))"

definition expand_keymap ::
  "('w, 'k, 'v) view \<Rightarrow> ('k \<Rightarrow> 'v \<Rightarrow> ('c, 'sk, 'sv) expansion) \<Rightarrow> ('w, 'k, ('c, 'sk, 'sv) collection) view" where
  "expand_keymap src expander = core_view (expand_get src expander) (expand_batch_get src expander)"

definition expand_map_get ::
  "('w, 'k, 'v) view \<Rightarrow> ('k \<Rightarrow> 'v \<Rightarrow> ('c, 'sk, 'sv) expansion) \<Rightarrow> ('k \<Rightarrow> 'v \<Rightarrow> ('c, 'sk, 'sv) collection \<Rightarrow> 'u option)
   \<Rightarrow> 'k \<Rightarrow> ('w, 'u option) prog" where
  "expand_map_get src expander aggregate key = bindP (vw_get src key) (\<lambda>value. case value of
      None \<Rightarrow> returnP None | Some v \<Rightarrow> returnP (aggregate key v (as_keymap (expander key v))))"

definition expand_map_batch_get ::
  "('w, 'k, 'v) view \<Rightarrow> ('k \<Rightarrow> 'v \<Rightarrow> ('c, 'sk, 'sv) expansion) \<Rightarrow> ('k \<Rightarrow> 'v \<Rightarrow> ('c, 'sk, 'sv) collection \<Rightarrow> 'u option)
   \<Rightarrow> 'k list \<Rightarrow> ('w, ('k, 'u) dict) prog" where
  "expand_map_batch_get src expander aggregate keys = (if keys = [] then returnP []
     else mapP (\<lambda>found. let folded = dmap (\<lambda>k v. aggregate k v (as_keymap (expander k v))) found
        in dmap (\<lambda>_. the) (dfilter (\<lambda>_ u. u \<noteq> None) folded)) (vw_batch_get src (fromkeys keys)))"

definition expand_map_keymap ::
  "('w, 'k, 'v) view \<Rightarrow> ('k \<Rightarrow> 'v \<Rightarrow> ('c, 'sk, 'sv) expansion) \<Rightarrow> ('k \<Rightarrow> 'v \<Rightarrow> ('c, 'sk, 'sv) collection \<Rightarrow> 'u option)
   \<Rightarrow> ('w, 'k, 'u) view" where
  "expand_map_keymap src expander aggregate =
     core_view (expand_map_get src expander aggregate) (expand_map_batch_get src expander aggregate)"

text \<open>The stores of \<open>map\<close> and \<open>expand\<close> ask the store behind them whether it holds the record.\<close>

definition existence_of :: "('w, 'k, 'v) view \<Rightarrow> ('w, 'k, 'u) view \<Rightarrow> ('w, 'k, 'u) view" where
  "existence_of src v = v\<lparr>vw_exists := vw_exists src, vw_batch_exists := vw_batch_exists src,
     vw_stat := vw_stat src, vw_batch_stat := vw_batch_stat src\<rparr>"

definition mapped_store :: "('w, 'k, 'v) view \<Rightarrow> ('v \<Rightarrow> 'u option) \<Rightarrow> ('w, 'k, 'u) view" where
  "mapped_store src forward = existence_of src (mapped_keymap src forward)"

definition expand_store ::
  "('w, 'k, 'v) view \<Rightarrow> ('k \<Rightarrow> 'v \<Rightarrow> ('c, 'sk, 'sv) expansion) \<Rightarrow> ('w, 'k, ('c, 'sk, 'sv) collection) view" where
  "expand_store src expander = existence_of src (expand_keymap src expander)"

definition expand_map_store ::
  "('w, 'k, 'v) view \<Rightarrow> ('k \<Rightarrow> 'v \<Rightarrow> ('c, 'sk, 'sv) expansion) \<Rightarrow> ('k \<Rightarrow> 'v \<Rightarrow> ('c, 'sk, 'sv) collection \<Rightarrow> 'u option)
   \<Rightarrow> ('w, 'k, 'u) view" where
  "expand_map_store src expander aggregate = existence_of src (expand_map_keymap src expander aggregate)"

section \<open>Scans\<close>

definition mapped_scan_entries ::
  "('k scan_query \<Rightarrow> ('w, 'k \<times> 'v option) gen) \<Rightarrow> ('v \<Rightarrow> 'u option) \<Rightarrow> 'k scan_query \<Rightarrow> ('w, 'k \<times> 'u option) gen" where
  "mapped_scan_entries src_scan_entries forward query =
     gmap (\<lambda>(key, value). (key, Option.bind value forward)) (src_scan_entries (query\<lparr>sq_include_values := True\<rparr>))"

definition mapped_scanner ::
  "'k python \<Rightarrow> ('w, 'k, 'v) scanner \<Rightarrow> ('w, 'k, 'u) view \<Rightarrow> ('v \<Rightarrow> 'u option) \<Rightarrow> ('w, 'k, 'u) scanner" where
  "mapped_scanner py src v forward = \<lparr>
     sn_batch_size = sn_batch_size src, sn_layout = sn_layout src,
     sn_batch_get = vw_batch_get v, sn_batch_exists = vw_batch_exists v,
     sn_scan_entries = mapped_scan_entries (sn_scan_entries src) forward,
     sn_scan_rows = \<lambda>spec. scan_values_through py (vw_batch_get v) (sn_scan_rows src) spec forward\<rparr>"

text \<open>A view of \<open>then\<close> and \<open>expand\<close> lists the keys of one store and answers the values itself.\<close>

definition passthrough_scanner ::
  "'k python \<Rightarrow> ('w, 'k, 'v) scanner \<Rightarrow> ('w, 'k, 'u) view \<Rightarrow> ('w, 'k, 'u) scanner" where
  "passthrough_scanner py src v = \<lparr>
     sn_batch_size = sn_batch_size src, sn_layout = sn_layout src,
     sn_batch_get = vw_batch_get v, sn_batch_exists = vw_batch_exists v,
     sn_scan_entries = passthrough_scan_entries (vw_batch_get v) (sn_scan_entries src),
     sn_scan_rows = passthrough_scan_rows py (vw_batch_get v) (sn_scan_rows src)\<rparr>"

definition keyed_scan_entries ::
  "('j scan_query \<Rightarrow> ('w, 'j \<times> 'v option) gen) \<Rightarrow> ('j \<Rightarrow> 'k) option \<Rightarrow> 'k scan_query \<Rightarrow> ('w, 'k \<times> 'v option) gen" where
  "keyed_scan_entries src_scan_entries from_store query = raise_or (require_from_store from_store) (\<lambda>f.
     if sq_prefix query \<noteq> None then Raise ScanUnsupported
     else gmap (\<lambda>(sk, value). (f sk, value)) (src_scan_entries
       \<lparr>sq_prefix = None, sq_include_values = sq_include_values query, sq_page_size = sq_page_size query\<rparr>))"

definition keyed_scan_rows ::
  "'k python \<Rightarrow> ('k list \<Rightarrow> ('w, ('k, 'v) dict) prog) \<Rightarrow> (('j, 'v) scan_spec \<Rightarrow> ('w, ('j, 'v) scan_row) gen)
   \<Rightarrow> ('j \<Rightarrow> 'k) option \<Rightarrow> ('k, 'v) scan_spec \<Rightarrow> ('w, ('k, 'v) scan_row) gen" where
  "keyed_scan_rows py view_batch_get src_scan_rows from_store spec = raise_or (require_from_store from_store) (\<lambda>f.
     if sp_order spec \<noteq> UNORDERED then Raise ScanUnsupported
     else if sq_prefix (spec_to_scan_query spec) \<noteq> None then Raise ScanUnsupported
     else let unfiltered = (is_always_true (sp_where spec) \<and> sp_refine spec = None);
              down = default_spec\<lparr>
                sp_project := (if needs_values spec (sp_where spec) then ENTRIES else sp_project spec),
                sp_order_by := sp_order_by spec, sp_limit := (if unfiltered then sp_limit spec else None),
                sp_page_size := sp_page_size spec, sp_cursor := sp_cursor spec,
                sp_on_unsupported := sp_on_unsupported spec\<rparr>;
              rows = gmap (\<lambda>r. \<lparr>sr_key = f (sr_key r), sr_value = sr_value r, sr_stat = sr_stat r\<rparr>) (src_scan_rows down)
          in apply_cascade py rows (sp_where spec) (Some view_batch_get) (sp_refine spec) (sp_limit spec) (sp_project spec))"

section \<open>\<open>imap\<close> and \<open>imap_keys\<close> as stores\<close>

text \<open>\<open>ExpiringMixin\<close>: a store that answers neither has nothing to collect.\<close>

definition default_expired_keys :: "int \<Rightarrow> ('w, 'k list) prog" where
  "default_expired_keys limit = (if limit < 1 then raiseP ValueError else returnP [])"

definition default_gc_expired_keys :: "int \<Rightarrow> ('w, 'k list) prog" where
  "default_gc_expired_keys max_entries = (if max_entries < 1 then raiseP ValueError else returnP [])"

definition keys_query :: "int \<Rightarrow> 'k scan_query" where
  "keys_query page_size = \<lparr>sq_prefix = None, sq_include_values = False, sq_page_size = page_size\<rparr>"

definition with_existence_of :: "('w, 'k, 'v) keymap \<Rightarrow> ('w, 'k, 'u) keymap \<Rightarrow> ('w, 'k, 'u) keymap" where
  "with_existence_of src km = km\<lparr>km_exists := km_exists src, km_batch_exists := km_batch_exists src,
     km_stat := km_stat src, km_batch_stat := km_batch_stat src\<rparr>"

text \<open>
  Neither view overrides \<open>writes_are_deferred\<close>, which \<open>KvStore\<close> answers \<open>False\<close>. The pages of
  the store behind are asked for when the generator is made and shown one by one.
\<close>

definition imapped_store ::
  "('w, 'k, 'v) store \<Rightarrow> ('k scan_query \<Rightarrow> ('w, 'k \<times> 'v option) gen) \<Rightarrow> ('v \<Rightarrow> 'u option) \<Rightarrow> ('u \<Rightarrow> 'v)
   \<Rightarrow> ('w, 'k, 'u) store" where
  "imapped_store src scan_entries forward backward = \<lparr>
     st_keymap = with_existence_of (st_keymap src) (imapped_keymap (st_keymap src) forward backward),
     st_batch_size = st_batch_size src,
     st_supports_write_clock = st_supports_write_clock src,
     st_writes_are_deferred = False,
     st_gc_expired_keys = st_gc_expired_keys src,
     st_scan_keys = \<lambda>n. mapP (map fst) (drain (mapped_scan_entries scan_entries forward (keys_query n))),
     st_missing_pages = \<lambda>n. mapP (map (mapP (map_values forward))) (st_missing_pages src n),
     st_pending_index_syncs = tree_pending [src],
     st_flush_index_syncs = tree_flush [src],
     st_discard_index_syncs = tree_discard [src]\<rparr>"

definition keyed_batch_exists ::
  "('k \<Rightarrow> 'j) \<Rightarrow> ('j list \<Rightarrow> ('w, 'j set) prog) \<Rightarrow> 'k list \<Rightarrow> ('w, 'k set) prog" where
  "keyed_batch_exists to_store batch_exists keys = (let sk_to_k = dmerge [] (map (\<lambda>k. (to_store k, k)) keys) in
     mapP (\<lambda>found. (\<lambda>sk. the (dget sk_to_k sk)) ` {sk \<in> found. dget sk_to_k sk \<noteq> None}) (batch_exists (dkeys sk_to_k)))"

definition keyed_batch_stat ::
  "('k \<Rightarrow> 'j) \<Rightarrow> ('j list \<Rightarrow> ('w, ('j, record_stat) dict) prog) \<Rightarrow> 'k list \<Rightarrow> ('w, ('k, record_stat) dict) prog" where
  "keyed_batch_stat to_store batch_stat keys = (let sk_to_k = dmerge [] (map (\<lambda>k. (to_store k, k)) keys) in
     mapP (\<lambda>found. dmerge [] (map (\<lambda>(sk, meta). (the (dget sk_to_k sk), meta))
         (filter (\<lambda>(sk, meta). dget sk_to_k sk \<noteq> None) found))) (batch_stat (dkeys sk_to_k)))"

definition keyed_store ::
  "('w, 'j, 'v) store \<Rightarrow> ('j scan_query \<Rightarrow> ('w, 'j \<times> 'v option) gen) \<Rightarrow> ('k \<Rightarrow> 'j) \<Rightarrow> ('j \<Rightarrow> 'k) option
   \<Rightarrow> ('w, 'k, 'v) store" where
  "keyed_store src scan_entries to_store from_store = (let km = st_keymap src in \<lparr>
     st_keymap = (keyed_keymap km to_store)\<lparr>
       km_exists := \<lambda>key. km_exists km (to_store key),
       km_batch_exists := keyed_batch_exists to_store (km_batch_exists km),
       km_stat := \<lambda>key. km_stat km (to_store key),
       km_batch_stat := keyed_batch_stat to_store (km_batch_stat km)\<rparr>,
     st_batch_size = st_batch_size src,
     st_supports_write_clock = st_supports_write_clock src,
     st_writes_are_deferred = False,
     st_gc_expired_keys = \<lambda>n. bindP (liftP (require_from_store from_store)) (\<lambda>f. mapP (map f) (st_gc_expired_keys src n)),
     st_scan_keys = \<lambda>n. mapP (map fst) (drain (keyed_scan_entries scan_entries from_store (keys_query n))),
     st_missing_pages = \<lambda>n. bindP (liftP (require_from_store from_store)) (\<lambda>f.
       mapP (map (mapP (Targets.map_keys f))) (st_missing_pages src n)),
     st_pending_index_syncs = tree_pending [src],
     st_flush_index_syncs = tree_flush [src],
     st_discard_index_syncs = tree_discard [src]\<rparr>)"

definition keyed_expired_keys :: "('j \<Rightarrow> 'k) option \<Rightarrow> (int \<Rightarrow> ('w, 'j list) prog) \<Rightarrow> int \<Rightarrow> ('w, 'k list) prog" where
  "keyed_expired_keys from_store src_expired_keys limit =
     bindP (liftP (require_from_store from_store)) (\<lambda>f. mapP (map f) (src_expired_keys limit))"

section \<open>\<open>readonly\<close>\<close>

text \<open>Reads are the store's own; the writes it defines refuse.\<close>

definition readonly_keymap :: "('w, 'k, 'v) keymap \<Rightarrow> ('w, 'k, 'v) keymap" where
  "readonly_keymap km = km\<lparr>
     km_set := \<lambda>_ _ _. raiseP ReadOnlyError, km_batch_set := \<lambda>_ _. raiseP ReadOnlyError,
     km_delete := \<lambda>_. raiseP ReadOnlyError, km_batch_delete := \<lambda>_. raiseP ReadOnlyError\<rparr>"

definition readonly_set_if_absent :: "'k \<Rightarrow> 'v \<Rightarrow> write_options \<Rightarrow> ('w, bool) prog" where
  "readonly_set_if_absent key value o' = raiseP ReadOnlyError"

definition readonly_gc_expired_keys :: "int \<Rightarrow> ('w, 'k list) prog" where
  "readonly_gc_expired_keys max_entries = raiseP ReadOnlyError"

definition readonly_delete_where :: "('k, 'v) predicate \<Rightarrow> int option \<Rightarrow> ('w, int) prog" where
  "readonly_delete_where where' limit = raiseP ReadOnlyError"

section \<open>\<open>group_by\<close>\<close>

text \<open>
  \<open>rows\<close> gives, for the id of a group, the store \<open>rows.scoped(by=id)\<close>: its keymap and its
  scan. Reading a group drains the scan into a dictionary.
\<close>

record ('w, 'k, 'v) group_rows =
  gr_keymap :: "string \<Rightarrow> ('w, 'k, 'v) keymap"
  gr_scan :: "string \<Rightarrow> 'k scan_query \<Rightarrow> ('w, 'k \<times> 'v option) gen"
  gr_batch_size :: int
  gr_gc_expired_keys :: "int \<Rightarrow> ('w, 'k list) prog"

definition group_members :: "('w, 'k, 'v) group_rows \<Rightarrow> string \<Rightarrow> ('w, 'k list) prog" where
  "group_members g key = mapP (map fst) (drain (gr_scan g key
     \<lparr>sq_prefix = None, sq_include_values = False, sq_page_size = gr_batch_size g\<rparr>))"

definition grouped_get :: "('w, 'k, 'v) group_rows \<Rightarrow> string \<Rightarrow> ('w, ('k, 'v) dict) prog" where
  "grouped_get g key = mapP (\<lambda>rows. dmerge [] (map (\<lambda>(k, v). (k, the v)) (filter (\<lambda>(k, v). v \<noteq> None) rows)))
     (drain (gr_scan g key \<lparr>sq_prefix = None, sq_include_values = True, sq_page_size = gr_batch_size g\<rparr>))"

definition grouped_exists :: "string \<Rightarrow> ('w, bool) prog" where
  "grouped_exists key = returnP True"

definition grouped_batch_exists :: "string list \<Rightarrow> ('w, string set) prog" where
  "grouped_batch_exists keys = returnP (set keys)"

definition grouped_set :: "('w, 'k, 'v) group_rows \<Rightarrow> string \<Rightarrow> ('k, 'v) dict \<Rightarrow> write_options \<Rightarrow> ('w, unit) prog" where
  "grouped_set g key value o' = bindP (group_members g key) (\<lambda>held.
     thenP (if value \<noteq> [] then km_batch_set (gr_keymap g key) value o' else returnP ())
       (let stale = filter (\<lambda>k. dget value k = None) held in
        if stale \<noteq> [] then thenP (km_batch_delete (gr_keymap g key) stale) (returnP ()) else returnP ()))"

definition grouped_delete :: "('w, 'k, 'v) group_rows \<Rightarrow> string \<Rightarrow> ('w, bool) prog" where
  "grouped_delete g key = bindP (group_members g key) (\<lambda>held.
     if held = [] then returnP False else mapP (\<lambda>n. n > 0) (km_batch_delete (gr_keymap g key) held))"

definition grouped_gc_expired_keys :: "('w, 'k, 'v) group_rows \<Rightarrow> int \<Rightarrow> ('w, string list) prog" where
  "grouped_gc_expired_keys g max_entries = mapP (\<lambda>_. []) (gr_gc_expired_keys g max_entries)"

definition grouped_keymap :: "('w, 'k, 'v) group_rows \<Rightarrow> bool \<Rightarrow> ('w, string, ('k, 'v) dict) keymap" where
  "grouped_keymap g creates_entries = (let get = \<lambda>key. mapP Some (grouped_get g key) in \<lparr>
     km_get = get, km_batch_get = default_batch_get get,
     km_exists = grouped_exists, km_batch_exists = grouped_batch_exists,
     km_stat = default_stat grouped_exists, km_batch_stat = default_batch_stat grouped_batch_exists,
     km_batch_read_versioned = \<lambda>_. raiseP KvStoreUnsupported,
     km_batch_write_if_unchanged = \<lambda>_ _. raiseP KvStoreUnsupported,
     km_set = grouped_set g, km_batch_set = default_batch_set (grouped_set g),
     km_delete = grouped_delete g, km_batch_delete = count_true (grouped_delete g),
     km_unset = grouped_delete g, km_batch_unset = count_true (grouped_delete g),
     km_creates_entries = creates_entries\<rparr>)"

text \<open>The groups of an in-memory collection: the group's segment is appended to its scope.\<close>

definition in_group :: "('k, 'v) memory_backend \<Rightarrow> string \<Rightarrow> string \<Rightarrow> ('k, 'v) memory_backend" where
  "in_group mb by key = mb\<lparr>mb_backend := (mb_backend mb)\<lparr>be_scope := scope_extend (be_scope (mb_backend mb)) by key\<rparr>\<rparr>"

definition memory_groups :: "('k, 'v) memory_backend \<Rightarrow> string \<Rightarrow> (mem_root, 'k, 'v) group_rows" where
  "memory_groups mb by = \<lparr>
     gr_keymap = \<lambda>key. memory_keymap (in_group mb by key), gr_scan = \<lambda>key. memory_scan_gen (in_group mb by key),
     gr_batch_size = be_batch_size (mb_backend mb), gr_gc_expired_keys = memory_gc_expired_keys mb\<rparr>"

end
