(* ===== verification/Memory_Batches.thy ===== *)
theory Memory_Batches
  imports Scan_Memory View_Stores
begin

text \<open>
  The batch writes of the in-memory store, counted, and what they keep of a collection whose
  scopes are told apart. With the listing of a scope they give what writing a group of
  records whole (\<open>store/compose/grouped.py\<close>) and deleting by predicate
  (\<open>store/capabilities.py\<close>) come to.
\<close>

section \<open>Writes keep the scopes apart\<close>

text \<open>Keys that a scan of the scope can list.\<close>

definition listable :: "('k, 'v) memory_backend \<Rightarrow> 'k \<Rightarrow> bool" where
  "listable mb k \<longleftrightarrow> be_scope (mb_backend mb) = [] \<or> ks_key_serialize (be_kvset (mb_backend mb)) k \<noteq> Some []"

lemma own_set:
  assumes "own mb w" "memory_key mb k = Inr p" "listable mb k"
  shows "own mb (snd (memory_set mb k v opts w))"
proof -
  have "own mb ((with_bucket mb (dput p e (bucket mb w)) w)\<lparr>mr_next := n\<rparr>)" for e n
    using assms unfolding own_def listable_def by auto
  then show ?thesis
    using assms(1) by (cases "ks_value_serialize (be_kvset (mb_backend mb)) v")
      (simp_all add: memory_set_def bindP_run liftP_def serde_result_def assms(2))
qed

lemma own_del: "own mb w \<Longrightarrow> own mb (with_bucket mb (ddel p (bucket mb w)) w)"
  unfolding own_def by (auto simp: ddel_def distinct_map_filter)

lemma own_delete:
  assumes "own mb w"
  shows "own mb (snd (memory_delete mb k w))"
  using assms own_del [OF assms]
  by (cases "memory_key mb k") (simp_all add: memory_delete_def bindP_run liftP_def pop_entry_def split: option.split)

section \<open>Batches\<close>

context memory_collection
begin

lemma batch_set_acc:
  assumes "memory_inv mb w" "own mb w" "\<And>k. k \<in> set (dkeys items) \<Longrightarrow> listable mb k" "dict_ok items"
    and "memory_live mb w (wo_ttl opts) (wo_created_at opts)"
  shows "\<exists>w'. iterP (\<lambda>(key, value). memory_set mb key value opts) items w = (Inr (), w') \<and> memory_inv mb w' \<and> own mb w'
    \<and> mr_now w' = mr_now w \<and> memory_holds mb w' = memory_holds mb w ++ dget items"
  using assms
proof (induction items arbitrary: w)
  case (Cons x items)
  obtain k v where x: "x = (k, v)" by fastforce
  from key_law [of k] obtain p where p: "memory_key mb k = Inr p" by blast
  from set_step [OF Cons.prems(1), of k v opts] Cons.prems(5) obtain w1 where
    w1: "memory_set mb k v opts w = (Inr (), w1)" "memory_inv mb w1" "memory_evolves mb w w1"
      "memory_holds mb w1 = (memory_holds mb w)(k \<mapsto> v)" by auto
  have own: "own mb w1" using own_set [OF Cons.prems(2) p, of v opts] Cons.prems(3) w1(1) by (simp add: x)
  have now: "mr_now w1 = mr_now w" using w1(3) by (simp add: memory_evolves_def)
  have "memory_live mb w1 (wo_ttl opts) (wo_created_at opts)" using Cons.prems(5) by (simp add: memory_live_def now cong: option.case_cong)
  with Cons.IH [OF w1(2) own] Cons.prems(3,4) obtain w2 where
    w2: "iterP (\<lambda>(key, value). memory_set mb key value opts) items w1 = (Inr (), w2)" "memory_inv mb w2" "own mb w2"
      "mr_now w2 = mr_now w1" "memory_holds mb w2 = memory_holds mb w1 ++ dget items" by auto
  have "dget items k = None" using Cons.prems(4) by (simp add: x map_of_eq_None_iff)
  then have "memory_holds mb w2 = memory_holds mb w ++ dget (x # items)"
    by (auto simp: w2(5) w1(4) x map_add_def fun_eq_iff split: option.splits)
  moreover have "iterP (\<lambda>(key, value). memory_set mb key value opts) (x # items) w = (Inr (), w2)"
    using w1(1) w2(1) by (simp add: x)
  moreover have "mr_now w2 = mr_now w" using now w2(4) by simp
  ultimately show ?case using w2(2,3) by blast
qed simp

lemma batch_set_law:
  assumes "memory_inv mb w" "own mb w" "\<And>k. k \<in> set (dkeys items) \<Longrightarrow> listable mb k" "dict_ok items"
    and "memory_live mb w (wo_ttl opts) (wo_created_at opts)"
  shows "\<exists>w'. memory_batch_set mb items opts w = (Inr (), w') \<and> memory_inv mb w' \<and> own mb w'
    \<and> mr_now w' = mr_now w \<and> memory_holds mb w' = memory_holds mb w ++ dget items"
proof -
  have "memory_batch_set mb items opts = iterP (\<lambda>(key, value). memory_set mb key value opts) items"
    unfolding memory_batch_set_def by (rule in_chunks_run [OF batch_law]) (simp add: iterP_concat)
  with batch_set_acc [OF assms] show ?thesis by simp
qed

lemma batch_delete_acc:
  assumes "memory_inv mb w" "own mb w"
  shows "\<exists>w'. foldP (\<lambda>key n. mapP (\<lambda>b. if b then n + 1 else n) (memory_delete mb key)) ks n w
      = (Inr (n + int (card {k \<in> set ks. stored_at mb w k \<noteq> None})), w')
    \<and> memory_inv mb w' \<and> own mb w' \<and> mr_now w' = mr_now w
    \<and> memory_holds mb w' = (\<lambda>k. if k \<in> set ks then None else memory_holds mb w k)"
  using assms
proof (induction ks arbitrary: n w)
  case (Cons k ks)
  from delete_stored [of k w] obtain w1 where w1: "memory_delete mb k w = (Inr (stored_at mb w k \<noteq> None), w1)"
    "stored_at mb w1 = (stored_at mb w)(k := None)" "mr_now w1 = mr_now w" "mr_next w1 = mr_next w" by blast
  note kept = dropped [OF Cons.prems(1) w1(2-4)]
  have own: "own mb w1" using own_delete [OF Cons.prems(2), of k] w1(1) by simp
  let ?n = "if stored_at mb w k \<noteq> None then n + 1 else n"
  from Cons.IH [OF kept(1) own, of ?n] obtain w2 where
    w2: "foldP (\<lambda>key n. mapP (\<lambda>b. if b then n + 1 else n) (memory_delete mb key)) ks ?n w1
      = (Inr (?n + int (card {j \<in> set ks. stored_at mb w1 j \<noteq> None})), w2)" "memory_inv mb w2" "own mb w2"
      "mr_now w2 = mr_now w1" "memory_holds mb w2 = (\<lambda>j. if j \<in> set ks then None else memory_holds mb w1 j)" by blast
  have "{j \<in> set (k # ks). stored_at mb w j \<noteq> None}
      = (if stored_at mb w k \<noteq> None then insert k {j \<in> set ks. stored_at mb w1 j \<noteq> None}
         else {j \<in> set ks. stored_at mb w1 j \<noteq> None})"
    by (auto simp: w1(2))
  then have "?n + int (card {j \<in> set ks. stored_at mb w1 j \<noteq> None}) = n + int (card {j \<in> set (k # ks). stored_at mb w j \<noteq> None})"
    by (simp add: w1(2) card_insert_if)
  moreover have "memory_holds mb w2 = (\<lambda>j. if j \<in> set (k # ks) then None else memory_holds mb w j)"
    by (auto simp: w2(5) kept(3))
  moreover have "foldP (\<lambda>key n. mapP (\<lambda>b. if b then n + 1 else n) (memory_delete mb key)) (k # ks) n w
      = foldP (\<lambda>key n. mapP (\<lambda>b. if b then n + 1 else n) (memory_delete mb key)) ks ?n w1"
    using w1(1) by simp
  ultimately show ?case using w1(3) w2(1-4) by simp
qed simp

lemma batch_delete_law:
  assumes "memory_inv mb w" "own mb w"
  shows "\<exists>w'. memory_batch_delete mb ks w = (Inr (int (card {k \<in> set ks. stored_at mb w k \<noteq> None})), w')
    \<and> memory_inv mb w' \<and> own mb w' \<and> mr_now w' = mr_now w
    \<and> memory_holds mb w' = (\<lambda>k. if k \<in> set ks then None else memory_holds mb w k)"
proof -
  have "memory_batch_delete mb ks = foldP (\<lambda>key n. mapP (\<lambda>b. if b then n + 1 else n) (memory_delete mb key)) ks 0"
    unfolding memory_batch_delete_def by (rule in_chunks_run [OF batch_law]) (simp add: foldP_concat)
  with batch_delete_acc [OF assms, of ks 0] show ?thesis by simp
qed

end

section \<open>The members of a scope\<close>

lemma scope_listed:
  assumes ok: "storable mb" and w: "memory_inv mb w" "own mb w"
  shows "\<exists>rows w'. drain (memory_scan_gen mb \<lparr>sq_prefix = None, sq_include_values = iv, sq_page_size = n\<rparr>) w = (Inr rows, w')
    \<and> memory_inv mb w' \<and> own mb w' \<and> mr_now w' = mr_now w \<and> memory_holds mb w' = memory_holds mb w
    \<and> distinct (map fst rows)
    \<and> set rows = {(k, if iv then Some v else None) | k v. memory_holds mb w k = Some v}"
proof -
  let ?L = "live_entries mb w"
  let ?query = "\<lparr>sq_prefix = None, sq_include_values = iv, sq_page_size = n\<rparr>"
  have set: "settled_media mb ?L w" using w by (simp add: settled_media_def)
  have rows: "rows_under mb (scope_blob mb) iv ?L = map (\<lambda>r. (sr_key r, sr_value r)) (record_rows mb iv ?L)"
    unfolding rows_under_def by (subst filter_True) (auto simp: live_entries_def record_rows_def key_row_def split: prod.splits)
  have "sweeps mb (drain (memory_scan_gen mb ?query))"
    unfolding drain_scan_gen memory_scan_entries_def
    by (rule sweeps_bind [OF sweeps_lift]) (auto simp: sweeps_def intro: sweeps_fold [OF scan_one_sweeps, unfolded sweeps_def, rule_format])
  then have swept: "swept mb w (snd (drain (memory_scan_gen mb ?query) w))" using w(2) by (simp add: sweeps_def own_def)
  from yields_drain [OF scan_gen_yields [OF ok, of ?query "scope_blob mb" ?L] set] scan_prefix_run [of mb]
  obtain w' where w': "drain (memory_scan_gen mb ?query) w = (Inr (rows_under mb (scope_blob mb) iv ?L), w')"
    "settled_media mb ?L w'" by auto
  have "memory_holds mb w' = memory_holds mb w" and h: "holds_in mb ?L = memory_holds mb w"
    using memory_collection.settled_holds [OF storable_collection [OF ok]] set w'(2) by auto
  moreover have "mr_now w' = mr_now w" using swept w'(1) by (simp add: swept_def)
  moreover have "distinct (map fst (rows_under mb (scope_blob mb) iv ?L))"
    using record_rows_distinct [OF ok set, of iv] by (simp add: rows comp_def)
  moreover have "set (rows_under mb (scope_blob mb) iv ?L) = {(k, if iv then Some v else None) | k v. memory_holds mb w k = Some v}"
  proof -
    have "(k, if iv then Some v else None) \<in> (\<lambda>r. (sr_key r, sr_value r)) ` {key_row k (if iv then Some v else None) | k v. memory_holds mb w k = Some v}"
      if "memory_holds mb w k = Some v" for k v
      using that by (intro image_eqI [of _ _ "key_row k (if iv then Some v else None)"]) (auto simp: key_row_def)
    then show ?thesis unfolding rows set_map record_rows_set [OF ok set] h by (auto simp: key_row_def)
  qed
  ultimately show ?thesis using w' by (auto simp: settled_media_def)
qed

end
