(* ===== verification/View_Laws.thy ===== *)
theory View_Laws
  imports Views
begin

text \<open>
  Contracts of views. \<open>readable_view\<close> is what reading promises; every read-only operator
  keeps it, for an abstract function built from those of what it views. \<open>imap\<close> and
  \<open>imap_keys\<close> moreover keep the contract of conditional writes, so \<open>update\<close> through a view
  is \<open>update\<close> of what it views.
\<close>

section \<open>Reading\<close>

locale readable_view =
  fixes v :: "('w, 'k, 'v) view"
    and holds :: "'w \<Rightarrow> 'k \<Rightarrow> 'v option"
    and inv :: "'w \<Rightarrow> bool"
  assumes get_law: "inv w \<Longrightarrow> \<exists>w'. vw_get v k w = (Inr (holds w k), w') \<and> inv w' \<and> holds w' = holds w"
    and batch_get_law: "inv w \<Longrightarrow> \<exists>d w'. vw_batch_get v ks w = (Inr d, w') \<and> inv w' \<and> holds w' = holds w
      \<and> dict_ok d \<and> (\<forall>k. dget d k = (if k \<in> set ks then holds w k else None))"
    and exists_law: "inv w \<Longrightarrow> \<exists>w'. vw_exists v k w = (Inr (holds w k \<noteq> None), w') \<and> inv w' \<and> holds w' = holds w"
    and batch_exists_law: "inv w \<Longrightarrow>
      \<exists>w'. vw_batch_exists v ks w = (Inr {k \<in> set ks. holds w k \<noteq> None}, w') \<and> inv w' \<and> holds w' = holds w"

lemma view_of_readable: "readable_keymap km holds I \<Longrightarrow> readable_view (view_of km) holds I"
  unfolding readable_keymap_def point_reads_def readable_keymap_axioms_def readable_view_def by (simp add: view_of_def)

text \<open>Two reads that agree are enough, the rest is inherited.\<close>

lemma core_view_readable:
  assumes get: "\<And>w k. I w \<Longrightarrow> \<exists>w'. get k w = (Inr (holds w k), w') \<and> I w' \<and> holds w' = holds w"
    and batch_get: "\<And>w ks. I w \<Longrightarrow> \<exists>d w'. batch_get ks w = (Inr d, w') \<and> I w' \<and> holds w' = holds w
      \<and> dict_ok d \<and> (\<forall>k. dget d k = (if k \<in> set ks then holds w k else None))"
  shows "readable_view (core_view get batch_get) holds I"
proof
  fix w k ks assume I: "I w"
  show "\<exists>w'. vw_get (core_view get batch_get) k w = (Inr (holds w k), w') \<and> I w' \<and> holds w' = holds w"
    using get [OF I] by (simp add: core_view_def Let_def)
  show "\<exists>d w'. vw_batch_get (core_view get batch_get) ks w = (Inr d, w') \<and> I w' \<and> holds w' = holds w
      \<and> dict_ok d \<and> (\<forall>k. dget d k = (if k \<in> set ks then holds w k else None))"
    using batch_get [OF I] by (simp add: core_view_def Let_def)
  show "\<exists>w'. vw_exists (core_view get batch_get) k w = (Inr (holds w k \<noteq> None), w') \<and> I w' \<and> holds w' = holds w"
    using get [OF I, of k] by (auto simp: core_view_def Let_def default_exists_def prog_simps)
  from batch_get [OF I, of ks]
  have "\<exists>d w'. batch_get ks w = (Inr d, w') \<and> (I w' \<and> holds w' = holds w)
      \<and> (\<forall>k. dget d k = (if k \<in> set ks then holds w k else None))" by blast
  from default_batch_exists_of [where batch_get = batch_get and ks = ks and w = w and h = "holds w" and P = "\<lambda>w'. I w' \<and> holds w' = holds w", OF this]
  show "\<exists>w'. vw_batch_exists (core_view get batch_get) ks w = (Inr {k \<in> set ks. holds w k \<noteq> None}, w')
      \<and> I w' \<and> holds w' = holds w"
    by (simp add: core_view_def Let_def)
qed

interpretation dict_view: readable_view "view_of dict_keymap" dict_holds dict_map_inv
  by (rule view_of_readable) (rule dict_km.readable_keymap_axioms)

section \<open>Operators\<close>

text \<open>The dictionary comprehensions \<open>{k: u for k, v in found.items() if (u := f v) is not None}\<close>.\<close>

lemma dget_forward_dict [dict_simps]: "dict_ok d \<Longrightarrow> dget (forward_dict f d) k = Option.bind (dget d k) f"
  by (auto simp: forward_dict_def dget_dfilter split: option.splits)

lemma dict_ok_forward_dict [simp]: "dict_ok d \<Longrightarrow> dict_ok (forward_dict f d)"
  by (simp add: forward_dict_def)

abbreviation through :: "('v \<Rightarrow> 'u option) \<Rightarrow> ('w \<Rightarrow> 'k \<Rightarrow> 'v option) \<Rightarrow> 'w \<Rightarrow> 'k \<Rightarrow> 'u option" where
  "through forward holds \<equiv> \<lambda>w k. Option.bind (holds w k) forward"

context readable_view
begin

lemma mapped_get_law:
  assumes "inv w"
  shows "\<exists>w'. mapped_get v f k w = (Inr (through f holds w k), w') \<and> inv w' \<and> through f holds w' = through f holds w"
  using get_law [OF assms, of k] by (auto simp: mapped_get_def bindP_run split: option.splits)

lemma mapped_batch_get_law:
  assumes "inv w"
  shows "\<exists>d w'. mapped_batch_get v f ks w = (Inr d, w') \<and> inv w' \<and> through f holds w' = through f holds w
    \<and> dict_ok d \<and> (\<forall>k. dget d k = (if k \<in> set ks then through f holds w k else None))"
proof -
  from batch_get_law [OF assms, of "fromkeys ks"] obtain d w' where
    "vw_batch_get v (fromkeys ks) w = (Inr d, w')" "inv w'" "holds w' = holds w" "dict_ok d"
    "\<forall>k. dget d k = (if k \<in> set ks then holds w k else None)" by auto
  with assms show ?thesis by (simp add: mapped_batch_get_def dict_simps)
qed

lemma mapped_readable: "readable_view (mapped_keymap v f) (through f holds) inv"
  unfolding mapped_keymap_def by (rule core_view_readable) (rule mapped_get_law mapped_batch_get_law; assumption)+

end

text \<open>Two views side by side on their own media, composed.\<close>

definition left_view :: "('w, 'k, 'v) view \<Rightarrow> ('w \<times> 'u, 'k, 'v) view" where
  "left_view v = \<lparr>vw_get = \<lambda>k. on_fst (vw_get v k), vw_batch_get = \<lambda>ks. on_fst (vw_batch_get v ks),
     vw_exists = \<lambda>k. on_fst (vw_exists v k), vw_batch_exists = \<lambda>ks. on_fst (vw_batch_exists v ks),
     vw_stat = \<lambda>k. on_fst (vw_stat v k), vw_batch_stat = \<lambda>ks. on_fst (vw_batch_stat v ks)\<rparr>"

definition right_view :: "('u, 'k, 'v) view \<Rightarrow> ('w \<times> 'u, 'k, 'v) view" where
  "right_view v = \<lparr>vw_get = \<lambda>k. on_snd (vw_get v k), vw_batch_get = \<lambda>ks. on_snd (vw_batch_get v ks),
     vw_exists = \<lambda>k. on_snd (vw_exists v k), vw_batch_exists = \<lambda>ks. on_snd (vw_batch_exists v ks),
     vw_stat = \<lambda>k. on_snd (vw_stat v k), vw_batch_stat = \<lambda>ks. on_snd (vw_batch_stat v ks)\<rparr>"

definition joined ::
  "('w \<Rightarrow> 'k \<Rightarrow> 't option) \<Rightarrow> ('k \<Rightarrow> 't \<Rightarrow> 'j) \<Rightarrow> ('u \<Rightarrow> 'j \<Rightarrow> 'v option) \<Rightarrow> 'w \<times> 'u \<Rightarrow> 'k \<Rightarrow> 'v option" where
  "joined hl key_of hr = (\<lambda>(w, u) k. case hl w k of None \<Rightarrow> None | Some t \<Rightarrow> hr u (key_of k t))"

lemma joined_cong: "hl w' = hl w \<Longrightarrow> hr u' = hr u \<Longrightarrow> joined hl key_of hr (w', u') = joined hl key_of hr (w, u)"
  by (simp add: joined_def cong: option.case_cong)

locale joined_views = l: readable_view vl hl il + r: readable_view vr hr ir
  for vl :: "('w, 'k, 't) view" and hl il and vr :: "('u, 'j, 'v) view" and hr ir +
  fixes key_of :: "'k \<Rightarrow> 't \<Rightarrow> 'j"
begin

abbreviation both :: "'w \<times> 'u \<Rightarrow> bool" where
  "both \<equiv> \<lambda>(w, u). il w \<and> ir u"

lemma then_with_get_law:
  assumes "both n"
  shows "\<exists>n'. then_with_get (left_view vl) key_of (right_view vr) k n = (Inr (joined hl key_of hr n k), n')
    \<and> both n' \<and> joined hl key_of hr n' = joined hl key_of hr n"
proof -
  obtain w u where n: "n = (w, u)" by (cases n)
  with assms have "il w" "ir u" by auto
  from l.get_law [OF this(1), of k] obtain w' where
    w': "vw_get vl k w = (Inr (hl w k), w')" "il w'" "hl w' = hl w" by blast
  show ?thesis
  proof (cases "hl w k")
    case None
    with n w' \<open>ir u\<close> show ?thesis by (simp add: then_with_get_def left_view_def bindP_run joined_def cong: option.case_cong)
  next
    case (Some t)
    from r.get_law [OF \<open>ir u\<close>, of "key_of k t"] obtain u' where
      "vw_get vr (key_of k t) u = (Inr (hr u (key_of k t)), u')" "ir u'" "hr u' = hr u" by blast
    with Some n w' show ?thesis
      by (simp add: then_with_get_def left_view_def right_view_def bindP_run joined_def cong: option.case_cong)
  qed
qed

lemma then_with_batch_get_law:
  assumes "both n"
  shows "\<exists>d n'. then_with_batch_get (left_view vl) key_of (right_view vr) ks n = (Inr d, n')
    \<and> both n' \<and> joined hl key_of hr n' = joined hl key_of hr n
    \<and> dict_ok d \<and> (\<forall>k. dget d k = (if k \<in> set ks then joined hl key_of hr n k else None))"
proof (cases "ks = []")
  case True
  with assms show ?thesis by (simp add: then_with_batch_get_def)
next
  case False
  obtain w u where n: "n = (w, u)" by (cases n)
  with assms have "il w" "ir u" by auto
  from l.batch_get_law [OF \<open>il w\<close>, of "fromkeys ks"] obtain d w' where
    w': "vw_batch_get vl (fromkeys ks) w = (Inr d, w')" "il w'" "hl w' = hl w" and
    d: "dict_ok d" "\<And>k. dget d k = (if k \<in> set ks then hl w k else None)" by auto
  let ?mids = "fromkeys (map snd (dmap key_of d))"
  from r.batch_get_law [OF \<open>ir u\<close>, of ?mids] obtain e u' where
    u': "vw_batch_get vr ?mids u = (Inr e, u')" "ir u'" "hr u' = hr u" and
    e: "\<And>j. dget e j = (if j \<in> set ?mids then hr u j else None)" by blast
  have mid: "key_of k t \<in> set ?mids" if "dget d k = Some t" for k t
    using that by (force simp: dmap_def dest: map_of_SomeD)
  let ?r = "dmap (\<lambda>_ j. the (dget e j)) (dfilter (\<lambda>_ j. dget e j \<noteq> None) (dmap key_of d))"
  have "dget ?r k = (if k \<in> set ks then joined hl key_of hr n k else None)" for k
    using d(2) [of k] mid [of k] by (auto simp: dget_dfilter d(1) n joined_def e split: option.splits)
  moreover have "then_with_batch_get (left_view vl) key_of (right_view vr) ks n = (Inr ?r, w', u')"
    using False n w'(1) u'(1) by (simp add: then_with_batch_get_def left_view_def right_view_def bindP_run mapP_run Let_def)
  moreover have "joined hl key_of hr (w', u') = joined hl key_of hr n" using joined_cong [of hl w' w hr u' u] w'(3) u'(3) n by simp
  ultimately show ?thesis using w' u' d(1) n by (intro exI [of _ ?r] exI [of _ "(w', u')"]) simp
qed

lemma then_with_readable:
  "readable_view (then_with_keymap (left_view vl) key_of (right_view vr)) (joined hl key_of hr) both"
  unfolding then_with_keymap_def
  by (rule core_view_readable) (rule then_with_get_law then_with_batch_get_law; assumption)+

lemma then_exists_law:
  assumes "both n"
  shows "\<exists>n'. then_exists (left_view vl) key_of (right_view vr) k n = (Inr (joined hl key_of hr n k \<noteq> None), n')
    \<and> both n' \<and> joined hl key_of hr n' = joined hl key_of hr n"
proof -
  obtain w u where n: "n = (w, u)" by (cases n)
  with assms have "il w" "ir u" by auto
  from l.get_law [OF this(1), of k] obtain w' where
    w': "vw_get vl k w = (Inr (hl w k), w')" "il w'" "hl w' = hl w" by blast
  show ?thesis
  proof (cases "hl w k")
    case None
    with n w' \<open>ir u\<close> show ?thesis by (simp add: then_exists_def left_view_def bindP_run joined_def cong: option.case_cong)
  next
    case (Some t)
    from r.exists_law [OF \<open>ir u\<close>, of "key_of k t"] obtain u' where
      "vw_exists vr (key_of k t) u = (Inr (hr u (key_of k t) \<noteq> None), u')" "ir u'" "hr u' = hr u" by blast
    with Some n w' show ?thesis
      by (simp add: then_exists_def left_view_def right_view_def bindP_run joined_def cong: option.case_cong)
  qed
qed

end

text \<open>\<open>then\<close> is \<open>then_with\<close> whose key is the value.\<close>

lemma dmap_value [simp]: "dmap (\<lambda>_ v. v) d = d"
  by (simp add: dmap_def)

lemma then_is_then_with: "then_keymap left right = then_with_keymap left (\<lambda>_ j. j) right"
  by (simp add: then_keymap_def then_with_keymap_def then_get_def [abs_def] then_with_get_def [abs_def]
      then_batch_get_def [abs_def] then_with_batch_get_def [abs_def] Let_def cong: if_cong)

lemma then_store_is_then_with: "then_store left right = then_with_store left (\<lambda>_ j. j) right"
  by (simp add: then_store_def then_with_store_def then_is_then_with)

lemma exists_each_acc:
  assumes "\<And>w k. I w \<Longrightarrow> \<exists>w'. ex k w = (Inr (holds w k \<noteq> None), w') \<and> I w' \<and> holds w' = holds w" "I w"
  shows "\<exists>w'. foldP (\<lambda>key found. mapP (\<lambda>b. if b then insert key found else found) (ex key)) ks found w
      = (Inr (found \<union> {k \<in> set ks. holds w k \<noteq> None}), w') \<and> I w' \<and> holds w' = holds w"
  using assms(2)
proof (induction ks arbitrary: w found)
  case (Cons k ks)
  from assms(1) [OF Cons.prems, of k] obtain w1 where
    w1: "ex k w = (Inr (holds w k \<noteq> None), w1)" "I w1" "holds w1 = holds w" by blast
  let ?found = "if holds w k \<noteq> None then insert k found else found"
  have "?found \<union> {j \<in> set ks. holds w j \<noteq> None} = found \<union> {j \<in> set (k # ks). holds w j \<noteq> None}" by auto
  with Cons.IH [OF w1(2), of ?found] w1 show ?case by (simp add: bindP_run mapP_run)
qed simp

text \<open>The store of a \<open>then\<close>, whose existence is asked on the right.\<close>

lemma then_with_store_readable:
  assumes "joined_views vl hl il vr hr ir"
  shows "readable_view (then_with_store (left_view vl) key_of (right_view vr)) (joined hl key_of hr) (\<lambda>(w, u). il w \<and> ir u)"
proof -
  note core = joined_views.then_with_readable [OF assms, of key_of]
  have ex: "\<exists>n'. then_exists (left_view vl) key_of (right_view vr) k n = (Inr (joined hl key_of hr n k \<noteq> None), n')
    \<and> (case n' of (w, u) \<Rightarrow> il w \<and> ir u) \<and> joined hl key_of hr n' = joined hl key_of hr n"
    if "case n of (w, u) \<Rightarrow> il w \<and> ir u" for n k
    using joined_views.then_exists_law [OF assms, of n key_of k] that by blast
  show ?thesis
  proof
    fix n k ks assume n: "case n of (w, u) \<Rightarrow> il w \<and> ir u"
    note core' = readable_view.get_law [OF core, of n k] readable_view.batch_get_law [OF core, of n ks]
    show "\<exists>n'. vw_get (then_with_store (left_view vl) key_of (right_view vr)) k n = (Inr (joined hl key_of hr n k), n')
        \<and> (case n' of (w, u) \<Rightarrow> il w \<and> ir u) \<and> joined hl key_of hr n' = joined hl key_of hr n"
      using core'(1) n by (simp add: then_with_store_def)
    show "\<exists>d n'. vw_batch_get (then_with_store (left_view vl) key_of (right_view vr)) ks n = (Inr d, n')
        \<and> (case n' of (w, u) \<Rightarrow> il w \<and> ir u) \<and> joined hl key_of hr n' = joined hl key_of hr n
        \<and> dict_ok d \<and> (\<forall>k. dget d k = (if k \<in> set ks then joined hl key_of hr n k else None))"
      using core'(2) n by (simp add: then_with_store_def)
    show "\<exists>n'. vw_exists (then_with_store (left_view vl) key_of (right_view vr)) k n = (Inr (joined hl key_of hr n k \<noteq> None), n')
        \<and> (case n' of (w, u) \<Rightarrow> il w \<and> ir u) \<and> joined hl key_of hr n' = joined hl key_of hr n"
      using ex [OF n] by (simp add: then_with_store_def)
    show "\<exists>n'. vw_batch_exists (then_with_store (left_view vl) key_of (right_view vr)) ks n
          = (Inr {k \<in> set ks. joined hl key_of hr n k \<noteq> None}, n')
        \<and> (case n' of (w, u) \<Rightarrow> il w \<and> ir u) \<and> joined hl key_of hr n' = joined hl key_of hr n"
      using exists_each_acc [where ex = "then_exists (left_view vl) key_of (right_view vr)", OF ex n, of ks "{}"]
      by (simp add: then_with_store_def exists_each_def)
  qed
qed

section \<open>\<open>imap\<close>: the contract of conditional writes, through a codec\<close>

context readable_keymap
begin

lemma as_view: "readable_view (view_of km) holds inv"
  by (rule view_of_readable) (rule readable_keymap_axioms)

lemma imapped_readable: "readable_keymap (imapped_keymap km f b) (through f holds) inv"
  using readable_view.mapped_readable [OF as_view, of f]
  unfolding readable_keymap_def point_reads_def readable_keymap_axioms_def readable_view_def
    mapped_keymap_def core_view_def imapped_keymap_def Let_def by simp

lemma keyed_batch_get_law:
  assumes "inv w"
  shows "\<exists>d w'. keyed_batch_get t (km_batch_get km) ks w = (Inr d, w') \<and> inv w' \<and> holds w' = holds w
    \<and> dict_ok d \<and> (\<forall>k. dget d k = (if k \<in> set ks then holds w (t k) else None))"
proof (cases "ks = []")
  case True
  with assms show ?thesis by (simp add: keyed_batch_get_def)
next
  case False
  let ?sks = "fromkeys (map snd (dict_of t ks))"
  from batch_get_law [OF assms, of ?sks] obtain e w' where
    w': "km_batch_get km ?sks w = (Inr e, w')" "inv w'" "holds w' = holds w" and
    e: "\<And>j. dget e j = (if j \<in> set ?sks then holds w j else None)" by blast
  have "t k \<in> set ?sks" if "k \<in> set ks" for k using that by (force simp: dict_of_def)
  then have "dget (dmap (\<lambda>_ sk. the (dget e sk)) (dfilter (\<lambda>_ sk. dget e sk \<noteq> None) (dict_of t ks))) k
      = (if k \<in> set ks then holds w (t k) else None)" for k
    by (auto simp: dget_dfilter e split: option.splits)
  with w' False show ?thesis by (simp add: keyed_batch_get_def Let_def del: dmap_value)
qed

lemma keyed_readable: "readable_keymap (keyed_keymap km t) (\<lambda>w k. holds w (t k)) inv"
proof -
  have "readable_view (core_view (\<lambda>k. km_get km (t k)) (keyed_batch_get t (km_batch_get km))) (\<lambda>w k. holds w (t k)) inv"
  proof (rule core_view_readable)
    fix w k ks assume inv: "inv w"
    show "\<exists>w'. km_get km (t k) w = (Inr (holds w (t k)), w') \<and> inv w' \<and> (\<lambda>k. holds w' (t k)) = (\<lambda>k. holds w (t k))"
      using get_law [OF inv, of "t k"] by auto
    show "\<exists>d w'. keyed_batch_get t (km_batch_get km) ks w = (Inr d, w') \<and> inv w'
        \<and> (\<lambda>k. holds w' (t k)) = (\<lambda>k. holds w (t k)) \<and> dict_ok d
        \<and> (\<forall>k. dget d k = (if k \<in> set ks then holds w (t k) else None))"
      using keyed_batch_get_law [OF inv, of t ks] by auto
  qed
  then show ?thesis
    unfolding readable_keymap_def point_reads_def readable_keymap_axioms_def readable_view_def
      core_view_def keyed_keymap_def Let_def by simp
qed

end

text \<open>What a conditional batch wins does not depend on the values written.\<close>

lemma imapped_write_fields [simp]:
  "seen_version (cw_seen (imapped_write b w)) = seen_version (cw_seen w)"
  "cw_change (imapped_write b w) = map_change b (cw_change w)"
  "cw_created_at (imapped_write b w) = cw_created_at w"
  by (auto simp: imapped_write_def split: change.splits)

lemma map_change_Remove [simp]: "map_change b c = Remove \<longleftrightarrow> c = Remove"
  by (cases c) auto

lemma cas_wins_imapped [simp]: "cas_wins ver (dmap (\<lambda>_. imapped_write b) writes) = cas_wins ver writes"
  by (auto simp: cas_wins_def)

context conditional_keymap
begin

theorem imapped_conditional:
  assumes codec: "\<And>u. f (b u) = Some u"
  shows "conditional_keymap (imapped_keymap km f b) (through f holds) inv live ver evolves"
proof (rule conditional_keymap.intro [OF imapped_readable], unfold_locales)
  fix w w' w1 w2 w3 :: 'w and k ks ttl clock writes
  show "evolves w w" by (rule evolves_refl)
  show "evolves w1 w2 \<Longrightarrow> evolves w2 w3 \<Longrightarrow> evolves w1 w3" by (rule evolves_trans)
  show "evolves w w' \<Longrightarrow> live w ttl clock \<Longrightarrow> live w' ttl clock" by (rule live_evolves)
  show "inv w \<Longrightarrow> inv w' \<Longrightarrow> evolves w w' \<Longrightarrow> ver w' k = ver w k \<Longrightarrow> through f holds w' k = through f holds w k"
    using token_names_entry [of w w' k] by simp
  show "inv w \<Longrightarrow> ver w k = None \<Longrightarrow> through f holds w k = None" using nothing_stored [of w k] by simp
  show "\<exists>d w'. km_batch_read_versioned (imapped_keymap km f b) ks w = (Inr d, w') \<and> inv w' \<and> evolves w w'
      \<and> through f holds w' = through f holds w \<and> ver w' = ver w
      \<and> (\<forall>k \<in> set ks. dget d k = Some (Versioned (through f holds w k) (ver w k)))" if "inv w"
    using read_versioned_law [OF that, of ks] by (auto simp: imapped_keymap_def Let_def imapped_seen_def mapP_run)
  show "\<exists>w'. km_batch_write_if_unchanged (imapped_keymap km f b) writes ttl w = (Inr (cas_wins (ver w) writes), w')
      \<and> inv w' \<and> evolves w w'
      \<and> (\<forall>k. k \<notin> cas_wins (ver w) writes \<longrightarrow> through f holds w' k = through f holds w k \<and> ver w' k = ver w k)
      \<and> (\<forall>k cw v. k \<in> cas_wins (ver w) writes \<longrightarrow> dget writes k = Some cw \<longrightarrow> cw_change cw = Put v
           \<longrightarrow> live w ttl (cw_created_at cw) \<longrightarrow> through f holds w' k = Some v)
      \<and> (\<forall>k cw. k \<in> cas_wins (ver w) writes \<longrightarrow> dget writes k = Some cw \<longrightarrow> cw_change cw = Remove
           \<longrightarrow> through f holds w' k = None)
      \<and> (\<forall>k cw v. k \<in> cas_wins (ver w) writes \<longrightarrow> dget writes k = Some cw \<longrightarrow> cw_change cw = Put v
           \<longrightarrow> through f holds w' k = None \<or> through f holds w' k = Some v)" if "inv w" "dict_ok writes"
  proof -
    let ?writes = "dmap (\<lambda>_. imapped_write b) writes"
    have "dict_ok ?writes" using that(2) by simp
    from cas_law [OF that(1) this, of ttl] obtain w' where w':
      "km_batch_write_if_unchanged km ?writes ttl w = (Inr (cas_wins (ver w) writes), w')" "inv w'" "evolves w w'"
      "\<And>k. k \<notin> cas_wins (ver w) writes \<Longrightarrow> holds w' k = holds w k \<and> ver w' k = ver w k" and
      put: "\<And>k cw v. k \<in> cas_wins (ver w) writes \<Longrightarrow> dget ?writes k = Some cw \<Longrightarrow> cw_change cw = Put v
         \<Longrightarrow> live w ttl (cw_created_at cw) \<Longrightarrow> holds w' k = Some v" and
      remove: "\<And>k cw. k \<in> cas_wins (ver w) writes \<Longrightarrow> dget ?writes k = Some cw \<Longrightarrow> cw_change cw = Remove
         \<Longrightarrow> holds w' k = None" and
      kept: "\<And>k cw v. k \<in> cas_wins (ver w) writes \<Longrightarrow> dget ?writes k = Some cw \<Longrightarrow> cw_change cw = Put v
         \<Longrightarrow> holds w' k = None \<or> holds w' k = Some v" by auto
    have cw: "dget ?writes k = Some (imapped_write b cw)" if "dget writes k = Some cw" for k cw using that by simp
    show ?thesis
    proof (intro exI [of _ w'] conjI allI impI)
      show "km_batch_write_if_unchanged (imapped_keymap km f b) writes ttl w = (Inr (cas_wins (ver w) writes), w')"
        using w'(1) by (simp add: imapped_keymap_def Let_def)
    next
      fix k cw v assume "k \<in> cas_wins (ver w) writes" "dget writes k = Some cw" "cw_change cw = Put v" "live w ttl (cw_created_at cw)"
      then show "through f holds w' k = Some v" using put [of k "imapped_write b cw" "b v"] cw codec by simp
    next
      fix k cw assume "k \<in> cas_wins (ver w) writes" "dget writes k = Some cw" "cw_change cw = Remove"
      then show "through f holds w' k = None" using remove [of k "imapped_write b cw"] cw by simp
    next
      fix k cw v assume "k \<in> cas_wins (ver w) writes" "dget writes k = Some cw" "cw_change cw = Put v"
      then show "through f holds w' k = None \<or> through f holds w' k = Some v"
        using kept [of k "imapped_write b cw" "b v"] cw codec by auto
    qed (use w' in simp_all)
  qed
qed

end

section \<open>\<open>imap_keys\<close>: the same contract, for keys that are not confused\<close>

definition rekeyed :: "('k \<Rightarrow> 'j) \<Rightarrow> ('k, 'a) dict \<Rightarrow> ('j, 'a) dict" where
  "rekeyed t d = map (\<lambda>(k, w). (t k, w)) d"

lemma dkeys_rekeyed [simp]: "dkeys (rekeyed t d) = map t (dkeys d)"
  by (simp add: rekeyed_def comp_def case_prod_beta)

lemma dget_rekeyed [simp]: "inj t \<Longrightarrow> dget (rekeyed t d) (t k) = dget d k"
  by (induction d) (auto simp: rekeyed_def inj_eq)

lemma rekeyed_ok: "inj t \<Longrightarrow> dict_ok d \<Longrightarrow> dict_ok (rekeyed t d)"
  unfolding dkeys_rekeyed distinct_map [of t] by (simp add: inj_on_subset [OF _ subset_UNIV])

lemma rekeyed_merge: "inj t \<Longrightarrow> dict_ok d \<Longrightarrow> dmerge [] (map (\<lambda>(k, w). (t k, w)) d) = rekeyed t d"
  using rekeyed_ok [of t d] by (subst dmerge_new) (simp_all add: rekeyed_def)

lemma rekeyed_range: "dget (rekeyed t d) j = Some w \<Longrightarrow> \<exists>k. j = t k"
  by (auto dest!: dget_Some_key)

lemma cas_wins_rekeyed: "inj t \<Longrightarrow> t k \<in> cas_wins ver (rekeyed t writes) \<longleftrightarrow> k \<in> cas_wins (\<lambda>k. ver (t k)) writes"
  by (simp add: cas_wins_def)

context conditional_keymap
begin

theorem keyed_conditional:
  assumes inj: "inj t"
  shows "conditional_keymap (keyed_keymap km t) (\<lambda>w k. holds w (t k)) inv live (\<lambda>w k. ver w (t k)) evolves"
proof (rule conditional_keymap.intro [OF keyed_readable], unfold_locales)
  fix w w' w1 w2 w3 :: 'w and k ks ttl clock writes
  show "evolves w w" by (rule evolves_refl)
  show "evolves w1 w2 \<Longrightarrow> evolves w2 w3 \<Longrightarrow> evolves w1 w3" by (rule evolves_trans)
  show "evolves w w' \<Longrightarrow> live w ttl clock \<Longrightarrow> live w' ttl clock" by (rule live_evolves)
  show "inv w \<Longrightarrow> inv w' \<Longrightarrow> evolves w w' \<Longrightarrow> ver w' (t k) = ver w (t k) \<Longrightarrow> holds w' (t k) = holds w (t k)"
    by (rule token_names_entry)
  show "inv w \<Longrightarrow> ver w (t k) = None \<Longrightarrow> holds w (t k) = None" by (rule nothing_stored)
  show "\<exists>d w'. km_batch_read_versioned (keyed_keymap km t) ks w = (Inr d, w') \<and> inv w' \<and> evolves w w'
      \<and> (\<lambda>k. holds w' (t k)) = (\<lambda>k. holds w (t k)) \<and> (\<lambda>k. ver w' (t k)) = (\<lambda>k. ver w (t k))
      \<and> (\<forall>k \<in> set ks. dget d k = Some (Versioned (holds w (t k)) (ver w (t k))))" if "inv w"
  proof -
    let ?sks = "fromkeys (map snd (dict_of t ks))"
    from read_versioned_law [OF that, of ?sks] obtain d w' where d:
      "km_batch_read_versioned km ?sks w = (Inr d, w')" "inv w'" "evolves w w'" "holds w' = holds w" "ver w' = ver w"
      "\<forall>j \<in> set ?sks. dget d j = Some (Versioned (holds w j) (ver w j))" by blast
    have sks: "set ?sks = t ` set ks" by (auto simp: dict_of_def image_image)
    show ?thesis using d(1-5) d(6) [unfolded sks]
      by (auto simp: keyed_keymap_def keyed_read_versioned_def Let_def bindP_run dict_of_def dget_map_pair)
  qed
  show "\<exists>w'. km_batch_write_if_unchanged (keyed_keymap km t) writes ttl w = (Inr (cas_wins (\<lambda>k. ver w (t k)) writes), w')
      \<and> inv w' \<and> evolves w w'
      \<and> (\<forall>k. k \<notin> cas_wins (\<lambda>k. ver w (t k)) writes \<longrightarrow> holds w' (t k) = holds w (t k) \<and> ver w' (t k) = ver w (t k))
      \<and> (\<forall>k cw v. k \<in> cas_wins (\<lambda>k. ver w (t k)) writes \<longrightarrow> dget writes k = Some cw \<longrightarrow> cw_change cw = Put v
           \<longrightarrow> live w ttl (cw_created_at cw) \<longrightarrow> holds w' (t k) = Some v)
      \<and> (\<forall>k cw. k \<in> cas_wins (\<lambda>k. ver w (t k)) writes \<longrightarrow> dget writes k = Some cw \<longrightarrow> cw_change cw = Remove
           \<longrightarrow> holds w' (t k) = None)
      \<and> (\<forall>k cw v. k \<in> cas_wins (\<lambda>k. ver w (t k)) writes \<longrightarrow> dget writes k = Some cw \<longrightarrow> cw_change cw = Put v
           \<longrightarrow> holds w' (t k) = None \<or> holds w' (t k) = Some v)" if "inv w" "dict_ok writes"
  proof -
    have ok: "dict_ok (rekeyed t writes)" using inj that(2) by (rule rekeyed_ok)
    have asked: "{k \<in> set (dkeys writes). t k \<in> cas_wins (ver w) (rekeyed t writes)} = cas_wins (\<lambda>k. ver w (t k)) writes"
      using inj by (auto simp: cas_wins_rekeyed) (auto simp: cas_wins_def dest!: dget_Some_key)
    from cas_law [OF that(1) ok, of ttl] obtain w' where
      "km_batch_write_if_unchanged km (rekeyed t writes) ttl w = (Inr (cas_wins (ver w) (rekeyed t writes)), w')"
      "inv w'" "evolves w w'" and
      other: "\<And>j. j \<notin> cas_wins (ver w) (rekeyed t writes) \<Longrightarrow> holds w' j = holds w j \<and> ver w' j = ver w j" and
      put: "\<And>j cw v. j \<in> cas_wins (ver w) (rekeyed t writes) \<Longrightarrow> dget (rekeyed t writes) j = Some cw
         \<Longrightarrow> cw_change cw = Put v \<Longrightarrow> live w ttl (cw_created_at cw) \<Longrightarrow> holds w' j = Some v" and
      remove: "\<And>j cw. j \<in> cas_wins (ver w) (rekeyed t writes) \<Longrightarrow> dget (rekeyed t writes) j = Some cw
         \<Longrightarrow> cw_change cw = Remove \<Longrightarrow> holds w' j = None" and
      kept: "\<And>j cw v. j \<in> cas_wins (ver w) (rekeyed t writes) \<Longrightarrow> dget (rekeyed t writes) j = Some cw
         \<Longrightarrow> cw_change cw = Put v \<Longrightarrow> holds w' j = None \<or> holds w' j = Some v" by auto
    moreover have "km_batch_write_if_unchanged (keyed_keymap km t) writes ttl w
        = (Inr (cas_wins (\<lambda>k. ver w (t k)) writes), w')"
      using calculation(1) asked
      by (simp add: keyed_keymap_def Let_def keyed_write_if_unchanged_def rekeyed_merge [OF inj that(2)] mapP_run)
    ultimately show ?thesis
      using other [of "t _"] put [of "t _"] remove [of "t _"] kept [of "t _"] inj
      by (intro exI [of _ w'] conjI allI impI; simp add: cas_wins_rekeyed)
  qed
qed

end

end
