(* ===== verification/View_Properties.thy ===== *)
theory View_Properties
  imports Memory_Batches Scan_Properties View_Laws
begin

text \<open>
  The properties of views over the in-memory store: conditional writes through a codec and a
  rename of keys, reads through a pipeline, groups written whole, and deletion by predicate.
\<close>

section \<open>Writing through a view\<close>

context memory_collection
begin

lemmas as_conditional_keymap = km.conditional_keymap_axioms

end

lemma view_of_memory:
  assumes "storable mb" "inj t" "\<And>u. f (b u) = Some u"
  shows "conditional_keymap (imapped_keymap (keyed_keymap (memory_keymap mb) t) f b)
    (through f (\<lambda>w k. memory_holds mb w (t k))) (memory_inv mb) (memory_live mb) (\<lambda>w k. memory_ver mb w (t k)) (memory_evolves mb)"
proof -
  from conditional_keymap.keyed_conditional [OF memory_collection.as_conditional_keymap [OF storable_collection [OF assms(1)]] assms(2)]
  show ?thesis by (rule conditional_keymap.imapped_conditional) (rule assms(3))
qed

text \<open>
  C31. \<open>update\<close> through a view is \<open>update\<close> of what it views. Over a store whose values are
  seen through a codec and whose keys through an injection, however other writers of the
  collection interleave, \<open>update\<close> makes at most one write, which replaces exactly the value
  \<open>decide\<close> was shown, and conflicts only after as many other writers as \<open>attempts\<close>.
\<close>

theorem view_update_atomic:
  assumes "storable mb" "inj t" "\<And>u. f (b u) = Some u" "memory_inv mb w"
    and "other_writers (memory_inv mb) (memory_evolves mb) sched"
    and "memory_live mb w (wo_ttl opts) (wo_created_at opts)" "1 \<le> attempts"
  shows "\<exists>r w' sched' l. batch_update (contended (through f (\<lambda>w k. memory_holds mb w (t k)))
        (imapped_keymap (keyed_keymap (memory_keymap mb) t) f b)) [k] (decide_one k decide) opts attempts
      (w, sched, []) = (Inr r, w', sched', l) \<and> memory_inv mb w'
    \<and> atomic_outcome (through f (\<lambda>w k. memory_holds mb w (t k))) k decide w' l r
    \<and> (int (length sched) < attempts \<longrightarrow> (\<exists>d. r = Held d))"
  using conditional_keymap.update_contended [OF view_of_memory [OF assms(1-3)] assms(4-7), of k decide "[]"] by simp

text \<open>Flags kept as text under a prefix of their own, updated while \<open>n\<close> is written.\<close>

definition read_flag :: "string \<Rightarrow> bool option" where
  "read_flag s = (if s = ''yes'' then Some True else if s = ''no'' then Some False else None)"

definition show_flag :: "bool \<Rightarrow> string" where
  "show_flag b = (if b then ''yes'' else ''no'')"

theorem view_update_atomic_witness:
  "\<exists>r w' sched' l. batch_update (contended (through read_flag (\<lambda>w k. memory_holds (docs_memory LazyDelete []) w ((@) ''f'' k)))
      (imapped_keymap (keyed_keymap (memory_keymap (docs_memory LazyDelete [])) ((@) ''f'')) read_flag show_flag))
      [''n''] (decide_one ''n'' (\<lambda>v. Change (Put (v = Some False)))) no_options 2
      (empty_root 0, [rival_set], []) = (Inr r, w', sched', l) \<and> memory_inv (docs_memory LazyDelete []) w'
    \<and> (\<exists>d. r = Held d)"
proof -
  have live: "memory_live (docs_memory LazyDelete []) (empty_root 0) (wo_ttl no_options) (wo_created_at no_options)" by code_simp
  have inj: "inj ((@) ''f'')" by (rule injI) simp
  have "read_flag (show_flag u) = Some u" for u by (simp add: read_flag_def show_flag_def)
  from view_update_atomic [OF docs_memory_storable inj this memory_inv_empty rival_set_other_writer live, of 2]
  show ?thesis by fastforce
qed

section \<open>Reading through a pipeline\<close>

text \<open>The references of one collection followed into another.\<close>

locale two_collections = l: memory_collection mbl + r: memory_collection mbr
  for mbl :: "('k, 't) memory_backend" and mbr :: "('j, 'v) memory_backend"
begin

lemma collections_joined:
  "joined_views (view_of (memory_keymap mbl)) (memory_holds mbl) (memory_inv mbl)
     (view_of (memory_keymap mbr)) (memory_holds mbr) (memory_inv mbr)"
  by (intro joined_views.intro view_of_readable l.km.readable_keymap_axioms r.km.readable_keymap_axioms)

end

interpretation docs_pair: two_collections "docs_memory gc sc" "docs_memory gc' sc'" for gc sc gc' sc'
  by unfold_locales

interpretation docs_joined: joined_views "view_of (memory_keymap (docs_memory gc sc))" "memory_holds (docs_memory gc sc)" "memory_inv (docs_memory gc sc)"
  "view_of (memory_keymap (docs_memory gc' sc'))" "memory_holds (docs_memory gc' sc')" "memory_inv (docs_memory gc' sc')" key_of
  for gc sc gc' sc' key_of
  by (rule docs_pair.collections_joined)

text \<open>A view that follows each record of one store to a record of another and maps what it finds.\<close>

definition memory_pipeline ::
  "('k, 't) memory_backend \<Rightarrow> ('k \<Rightarrow> 't \<Rightarrow> 'j) \<Rightarrow> ('j, 'v) memory_backend \<Rightarrow> ('v \<Rightarrow> 'u option) \<Rightarrow> (mem_root \<times> mem_root, 'k, 'u) view" where
  "memory_pipeline mbl key_of mbr f = mapped_keymap (then_with_store (left_view (view_of (memory_keymap mbl))) key_of
     (right_view (view_of (memory_keymap mbr)))) f"

definition pipeline_holds ::
  "('k, 't) memory_backend \<Rightarrow> ('k \<Rightarrow> 't \<Rightarrow> 'j) \<Rightarrow> ('j, 'v) memory_backend \<Rightarrow> ('v \<Rightarrow> 'u option) \<Rightarrow> mem_root \<times> mem_root \<Rightarrow> 'k \<Rightarrow> 'u option" where
  "pipeline_holds mbl key_of mbr f = through f (joined (memory_holds mbl) key_of (memory_holds mbr))"

lemma memory_pipeline_readable:
  assumes "storable mbl" "storable mbr"
  shows "readable_view (memory_pipeline mbl key_of mbr f) (pipeline_holds mbl key_of mbr f) (\<lambda>(w, u). memory_inv mbl w \<and> memory_inv mbr u)"
proof -
  have "two_collections mbl mbr" using assms by (intro two_collections.intro storable_collection)
  from readable_view.mapped_readable [OF then_with_store_readable [OF two_collections.collections_joined [OF this]]]
  show ?thesis unfolding memory_pipeline_def pipeline_holds_def .
qed

text \<open>
  C32. Reads of a pipeline agree. A view that follows each record of one store to a record of
  another and maps what it finds reads one partial function, the composition of the two
  stores and the mapping: \<open>get\<close>, \<open>batch_get\<close> and \<open>exists\<close> answer it, and reading changes
  neither store.
\<close>

theorem pipeline_reads_agree:
  assumes "storable mbl" "storable mbr" "memory_inv mbl w" "memory_inv mbr u"
  shows "(\<exists>n. vw_get (memory_pipeline mbl key_of mbr f) k (w, u) = (Inr (pipeline_holds mbl key_of mbr f (w, u) k), n)
        \<and> pipeline_holds mbl key_of mbr f n = pipeline_holds mbl key_of mbr f (w, u))
    \<and> (\<exists>d n. vw_batch_get (memory_pipeline mbl key_of mbr f) ks (w, u) = (Inr d, n) \<and> dict_ok d
        \<and> (\<forall>k. dget d k = (if k \<in> set ks then pipeline_holds mbl key_of mbr f (w, u) k else None))
        \<and> pipeline_holds mbl key_of mbr f n = pipeline_holds mbl key_of mbr f (w, u))
    \<and> (\<exists>n. vw_exists (memory_pipeline mbl key_of mbr f) k (w, u) = (Inr (pipeline_holds mbl key_of mbr f (w, u) k \<noteq> None), n)
        \<and> pipeline_holds mbl key_of mbr f n = pipeline_holds mbl key_of mbr f (w, u))"
proof -
  note view = memory_pipeline_readable [OF assms(1,2), of key_of f]
  have inv: "case (w, u) of (w, u) \<Rightarrow> memory_inv mbl w \<and> memory_inv mbr u" using assms(3,4) by simp
  from readable_view.get_law [OF view inv, of k] readable_view.batch_get_law [OF view inv, of ks]
    readable_view.exists_law [OF view inv, of k] show ?thesis by blast
qed

text \<open>Two nicknames, one of which points nowhere, followed into a collection of names.\<close>

definition nicknames :: mem_root where
  "nicknames = snd (memory_set plain_docs ''y'' ''gone'' no_options (snd (memory_set plain_docs ''x'' ''x1'' no_options (empty_root 0))))"

definition name_root :: mem_root where
  "name_root = snd (memory_set plain_docs ''x1'' ''name'' no_options (empty_root 0))"

lemma docs_inv_set: "memory_inv (docs_memory gc sc) w \<Longrightarrow> memory_inv (docs_memory gc sc) (snd (memory_set (docs_memory gc sc) k v opts w))"
  using docs.set_step [of gc sc w k v opts] by auto

lemmas memory_inv_set = docs_inv_set [of LazyDelete "[]", folded plain_docs_def]

lemma nicknames_inv: "memory_inv plain_docs nicknames" and name_root_inv: "memory_inv plain_docs name_root"
  unfolding nicknames_def name_root_def by (intro memory_inv_set memory_inv_empty)+

theorem pipeline_reads_agree_witness:
  "fst (vw_batch_get (memory_pipeline plain_docs (\<lambda>_ j. j) plain_docs (\<lambda>v. Some (v @ ''!''))) [''x'', ''y'']
     (nicknames, name_root)) = Inr [(''x'', ''name!'')]
   \<and> (\<exists>n. vw_exists (memory_pipeline plain_docs (\<lambda>_ j. j) plain_docs (\<lambda>v. Some (v @ ''!''))) ''y''
     (nicknames, name_root) = (Inr False, n))"
proof
  show "fst (vw_batch_get (memory_pipeline plain_docs (\<lambda>_ j. j) plain_docs (\<lambda>v. Some (v @ ''!''))) [''x'', ''y'']
     (nicknames, name_root)) = Inr [(''x'', ''name!'')]" by code_simp
  have "pipeline_holds plain_docs (\<lambda>_ j. j) plain_docs (\<lambda>v. Some (v @ ''!''))
      (nicknames, name_root) ''y'' = None" by code_simp
  with pipeline_reads_agree [OF plain_docs_storable plain_docs_storable nicknames_inv name_root_inv,
      of "\<lambda>_ j. j" "\<lambda>v. Some (v @ ''!'')" "''y''" "[]"]
  show "\<exists>n. vw_exists (memory_pipeline plain_docs (\<lambda>_ j. j) plain_docs (\<lambda>v. Some (v @ ''!''))) ''y''
     (nicknames, name_root) = (Inr False, n)" by auto
qed

section \<open>Groups\<close>

lemma memory_groups_fields [simp]:
  "km_batch_set (gr_keymap (memory_groups mb by) g) = memory_batch_set (in_group mb by g)"
  "km_batch_delete (gr_keymap (memory_groups mb by) g) = memory_batch_delete (in_group mb by g)"
  "gr_scan (memory_groups mb by) g = memory_scan_gen (in_group mb by g)"
  "gr_batch_size (memory_groups mb by) = be_batch_size (mb_backend mb)"
  by (simp_all add: memory_groups_def memory_keymap_def)

lemma group_members_law:
  assumes ok: "storable (in_group mb by g)" and w: "memory_inv (in_group mb by g) w" "own (in_group mb by g) w"
  shows "\<exists>ks w'. group_members (memory_groups mb by) g w = (Inr ks, w') \<and> memory_inv (in_group mb by g) w' \<and> own (in_group mb by g) w'
    \<and> mr_now w' = mr_now w \<and> memory_holds (in_group mb by g) w' = memory_holds (in_group mb by g) w \<and> distinct ks \<and> set ks = dom (memory_holds (in_group mb by g) w)"
proof -
  from scope_listed [OF ok w, of False "be_batch_size (mb_backend mb)"] obtain rows w' where
    rows: "drain (memory_scan_gen (in_group mb by g) \<lparr>sq_prefix = None, sq_include_values = False, sq_page_size = be_batch_size (mb_backend mb)\<rparr>) w = (Inr rows, w')"
    and kept: "memory_inv (in_group mb by g) w'" "own (in_group mb by g) w'" "mr_now w' = mr_now w" "memory_holds (in_group mb by g) w' = memory_holds (in_group mb by g) w"
    and listed: "distinct (map fst rows)" "set rows = {(k, None) | k v. memory_holds (in_group mb by g) w k = Some v}" by auto
  have "fst ` set rows = dom (memory_holds (in_group mb by g) w)" unfolding listed(2) by force
  then show ?thesis using rows kept listed(1) by (simp add: group_members_def mapP_run)
qed

lemma grouped_get_law:
  assumes ok: "storable (in_group mb by g)" and w: "memory_inv (in_group mb by g) w" "own (in_group mb by g) w"
  shows "\<exists>d w'. grouped_get (memory_groups mb by) g w = (Inr d, w') \<and> dict_ok d \<and> dget d = memory_holds (in_group mb by g) w
    \<and> memory_holds (in_group mb by g) w' = memory_holds (in_group mb by g) w"
proof -
  from scope_listed [OF ok w, of True "be_batch_size (mb_backend mb)"] obtain rows w' where
    rows: "drain (memory_scan_gen (in_group mb by g) \<lparr>sq_prefix = None, sq_include_values = True, sq_page_size = be_batch_size (mb_backend mb)\<rparr>) w = (Inr rows, w')"
    and kept: "memory_holds (in_group mb by g) w' = memory_holds (in_group mb by g) w"
    and listed: "distinct (map fst rows)" "set rows = {(k, Some v) | k v. memory_holds (in_group mb by g) w k = Some v}" by auto
  have "filter (\<lambda>(k, v). v \<noteq> None) rows = rows" by (rule filter_True) (auto simp: listed(2))
  moreover have keys: "map fst (map (\<lambda>(k, v). (k, the v)) rows) = map fst rows" by auto
  moreover have "dmerge [] (map (\<lambda>(k, v). (k, the v)) rows) = map (\<lambda>(k, v). (k, the v)) rows"
    using listed(1) by (subst dmerge_new) (simp_all only: keys append_Nil)
  moreover have "dget (map (\<lambda>(k, v). (k, the v)) rows) k = memory_holds (in_group mb by g) w k" for k
  proof (cases "memory_holds (in_group mb by g) w k")
    case None
    then have "k \<notin> fst ` set (map (\<lambda>(k, v). (k, the v)) rows)" by (auto simp: listed(2))
    with None show ?thesis by (simp add: map_of_eq_None_iff)
  next
    case (Some v)
    then have "(k, Some v) \<in> set rows" by (simp add: listed(2))
    then have "(k, v) \<in> set (map (\<lambda>(k, v). (k, the v)) rows)" by force
    with Some listed(1) show ?thesis by (simp only: keys map_of_eq_Some_iff)
  qed
  moreover have "dict_ok (map (\<lambda>(k, v). (k, the v)) rows)" using listed(1) by (simp only: keys)
  ultimately show ?thesis using rows kept by (intro exI [of _ "map (\<lambda>(k, v). (k, the v)) rows"] exI [of _ w'] conjI)
    (simp_all only: grouped_get_def memory_groups_fields mapP_run fun_eq_iff, simp_all)
qed


text \<open>A group that held \<open>old\<close> is set to another member.\<close>

definition group_root :: mem_root where
  "group_root = snd (memory_set (in_group plain_docs ''user'' ''a'') ''old'' ''1'' no_options (empty_root 0))"

lemma group_root_own: "own (in_group plain_docs ''user'' ''a'') group_root"
proof -
  have keys: "dkeys (bucket (in_group plain_docs ''user'' ''a'') group_root) = [''user:a:old'']" by code_simp
  have key: "memory_key (in_group plain_docs ''user'' ''a'') ''old'' = Inr ''user:a:old''" by code_simp
  show ?thesis unfolding own_def keys using key by (auto simp: plain_docs_def docs_memory_def in_group_def)
qed

lemma group_is_docs: "in_group plain_docs ''user'' ''a'' = docs_memory LazyDelete (user_scope ''a'')"
  by (simp add: in_group_def plain_docs_def docs_memory_def docs_backend_def user_scope_def)

lemma group_root_inv: "memory_inv (in_group plain_docs ''user'' ''a'') group_root"
  unfolding group_root_def group_is_docs
  by (rule docs_inv_set) (rule memory_inv_empty)


section \<open>Deletion by predicate\<close>

text \<open>The keys whose records satisfy a predicate.\<close>

definition selection :: "'k python \<Rightarrow> ('k, 'v) predicate \<Rightarrow> ('k \<Rightarrow> 'v option) \<Rightarrow> 'k set" where
  "selection py p h = {k. \<exists>v. h k = Some v \<and> evaluate py p (key_row k (if VALUE \<in> needs_of p then Some v else None)) = Inr True}"

text \<open>All of a set, or as many of it as a limit says.\<close>

definition limited :: "int option \<Rightarrow> 'a set \<Rightarrow> 'a set \<Rightarrow> bool" where
  "limited limit A S \<longleftrightarrow> A \<subseteq> S \<and> (case limit of None \<Rightarrow> A = S | Some n \<Rightarrow> card A = min (nat n) (card S))"

lemma limited_take:
  assumes "distinct xs"
  shows "limited limit (set (take_limit limit xs)) (set xs) \<and> distinct (take_limit limit xs)"
proof (cases limit)
  case (Some n)
  have "distinct (take (nat n) xs)" using assms by simp
  from distinct_card [OF this] distinct_card [OF assms] Some assms show ?thesis
    by (simp add: limited_def take_limit_def set_take_subset min.commute)
qed (simp add: limited_def take_limit_def assms)

lemma selected_keys_law:
  assumes "storable mb" "memory_inv mb w" "own mb w"
    and "pushable py mb (default_spec\<lparr>sp_where := p\<rparr>)" "decided_records py p None (VALUE \<in> needs_of p) (memory_holds mb w)"
  shows "\<exists>keys w'. selected_keys (memory_scanner py mb) p limit w = (Inr keys, w') \<and> memory_inv mb w' \<and> own mb w'
    \<and> memory_holds mb w' = memory_holds mb w \<and> distinct keys \<and> limited limit (set keys) (selection py p (memory_holds mb w))"
proof -
  let ?spec = "default_spec\<lparr>sp_where := p, sp_limit := limit\<rparr>" and ?iv = "VALUE \<in> needs_of p"
  have spec: "sp_cursor ?spec = None" "sp_where ?spec = p" "sp_refine ?spec = None" "sp_project ?spec = KEYS" "sp_limit ?spec = limit"
    "shows_values ?spec = ?iv" "pushable py mb ?spec"
    using assms(4) by (simp_all add: default_spec_def shows_values_def pushable_def enforce_strict_def)
  from leaf_rows_law [OF assms(1-3) spec(7,1), unfolded spec, OF assms(5)] obtain rows w1 where
    w1: "drain (sn_scan_rows (memory_scanner py mb) ?spec) w = (Inr (map (project_row KEYS) (take_limit limit rows)), w1)"
      "settled_media mb (live_entries mb w) w1" "memory_holds mb w1 = memory_holds mb w" and
    rows: "distinct (map sr_key rows)" "set rows = {key_row k (if ?iv then Some v else None) | k v. memory_holds mb w k = Some v
        \<and> selects py p None (key_row k (if ?iv then Some v else None))}" by blast
  have "selected_keys (memory_scanner py mb) p limit w = (Inr (take_limit limit (map sr_key rows)), w1)"
    unfolding selected_keys_def mapP_run w1(1) by (cases limit) (simp_all add: take_limit_def take_map comp_def)
  moreover have "set (map sr_key rows) = selection py p (memory_holds mb w)"
  proof
    show "set (map sr_key rows) \<subseteq> selection py p (memory_holds mb w)"
      by (auto simp: selection_def rows(2) selects_def refined_def key_row_def)
    have "k \<in> set (map sr_key rows)" if "memory_holds mb w k = Some v"
      "evaluate py p (key_row k (if ?iv then Some v else None)) = Inr True" for k v
    proof -
      have "key_row k (if ?iv then Some v else None) \<in> set rows" unfolding rows(2) selects_def refined_def using that by fastforce
      then have "sr_key (key_row k (if ?iv then Some v else None)) \<in> sr_key ` set rows" by (rule imageI)
      then show ?thesis by (simp add: key_row_def)
    qed
    then show "selection py p (memory_holds mb w) \<subseteq> set (map sr_key rows)" unfolding selection_def by blast
  qed
  ultimately show ?thesis using w1(2,3) limited_take [OF rows(1), of limit] by (simp add: settled_media_def)
qed



section \<open>Where views depart from what they promise\<close>

text \<open>
  A view whose function answers \<open>None\<close> has no record to read, and says that it exists; a
  group lists the members of a group whose id it is a prefix of; of two keys that
  \<open>imap_keys\<close> stores as one, one is said to exist.
\<close>

lemma mapped_exists_without_value:
  "fst (vw_get (mapped_store (view_of (memory_keymap plain_docs)) (\<lambda>_. None :: string option)) ''x1'' name_root) = Inr None"
  "fst (vw_exists (mapped_store (view_of (memory_keymap plain_docs)) (\<lambda>_. None :: string option)) ''x1'' name_root) = Inr True"
  by code_simp+

lemma group_lists_sibling:
  "fst (grouped_get (memory_groups plain_docs ''user'') ''a''
     (snd (grouped_set (memory_groups plain_docs ''user'') ''ab'' [(''k'', ''v'')] no_options (empty_root 0)))) = Inr [(''b:k'', ''v'')]"
  by code_simp

lemma keyed_exists_one_of_two:
  "fst (keyed_batch_exists (\<lambda>_. ''x1'') (memory_batch_exists plain_docs) [''p'', ''q''] name_root) = Inr {''q''}"
  "fst (mapP dkeys (keyed_batch_get (\<lambda>_. ''x1'') (memory_batch_get plain_docs) [''p'', ''q'']) name_root) = Inr [''p'', ''q'']"
  by code_simp+

end
