(* ===== verification/Object_Driver.thy ===== *)
theory Object_Driver
  imports Key_Encoding Keymap Generators
begin

text \<open>
  The medium of an object store, \<open>src/kvtsjl/backends/object/driver.py\<close>, and where its
  expiry is read and written, \<open>ttl.py\<close>. A driver is a record of its operations over the
  media \<open>'w\<close>, a class of \<open>TtlSource\<close> the record of its methods. The float seconds that
  media keep are integers of microseconds; a token of text is the time it writes down.
\<close>

section \<open>Objects and their metadata\<close>

record blob_stat =
  bs_key :: string
  bs_modified_at :: "time option"
  bs_native_expires_at :: "time option"
  bs_size :: "int option"
  bs_etag :: "string option"
  bs_version :: "token option"

text \<open>
  Headers are a dictionary of medium-specific options: a time, the text \<open>none\<close>, the text of a
  time, \<open>None\<close>, or the metadata of the object.
\<close>

datatype header =
    HeaderTime time
  | HeaderNone
  | HeaderText "time option"
  | HeaderMetadata "(string, time option) dict"

type_synonym headers = "(string, header) dict"

record 'w driver =
  dr_max_bulk_delete :: int
  dr_head :: "string \<Rightarrow> ('w, blob_stat option) prog"
  dr_read :: "string \<Rightarrow> ('w, (string \<times> blob_stat) option) prog"
  dr_write :: "string \<Rightarrow> string \<Rightarrow> headers option \<Rightarrow> ('w, unit) prog"
  dr_write_if_version :: "string \<Rightarrow> string \<Rightarrow> token option \<Rightarrow> headers option \<Rightarrow> ('w, bool) prog"
  dr_delete_if_version :: "string \<Rightarrow> token \<Rightarrow> ('w, bool) prog"
  dr_delete :: "string \<Rightarrow> ('w, bool) prog"
  dr_list :: "string \<Rightarrow> ('w, blob_stat) gen"
  dr_bulk_delete :: "string list \<Rightarrow> ('w, int) prog"

text \<open>A driver without the primitives refuses conditional requests.\<close>

definition default_write_if_version :: "string \<Rightarrow> string \<Rightarrow> token option \<Rightarrow> headers option \<Rightarrow> ('w, bool) prog" where
  "default_write_if_version key data version hs = raiseP KvStoreUnsupported"

definition default_delete_if_version :: "string \<Rightarrow> token \<Rightarrow> ('w, bool) prog" where
  "default_delete_if_version key version = raiseP KvStoreUnsupported"

section \<open>Sources of expiry\<close>

datatype ttl_source = ObjectTime | S3Expires | GcsCustomTime | AzureMetadata | FilesystemMtime | FilesystemSidecar

text \<open>The methods of a \<open>TtlSource\<close>.\<close>

record ttl_methods =
  tm_supports_write_clock :: bool
  tm_supports_per_write_ttl :: bool
  tm_needs_head_for_list_expiry :: bool
  tm_is_expired :: "time \<Rightarrow> blob_stat \<Rightarrow> int option \<Rightarrow> bool"
  tm_to_record_stat :: "blob_stat \<Rightarrow> int option \<Rightarrow> record_stat"
  tm_write_headers :: "int option \<Rightarrow> time \<Rightarrow> bool \<Rightarrow> bool \<Rightarrow> headers"

text \<open>\<open>TTL_NONE_EXPIRES_AT\<close>, 2099-12-31T23:59:59Z, and the first instant of 2099.\<close>

definition ttl_none_expires_at :: time where
  "ttl_none_expires_at = 4102444799 * microseconds"

definition year_2099 :: time where
  "year_2099 = 4070908800 * microseconds"

text \<open>Expiry by the object's own time, with or without an expiry the medium keeps.\<close>

definition expired_by_object_time :: "time \<Rightarrow> blob_stat \<Rightarrow> int option \<Rightarrow> bool" where
  "expired_by_object_time now stat ttl = (case (ttl, bs_modified_at stat) of
      (Some secs, Some modified) \<Rightarrow> now \<ge> modified + secs * microseconds
    | _ \<Rightarrow> False)"

definition expired_natively :: "time \<Rightarrow> blob_stat \<Rightarrow> int option \<Rightarrow> bool" where
  "expired_natively now stat ttl = (case bs_native_expires_at stat of
      Some e \<Rightarrow> now \<ge> e
    | None \<Rightarrow> expired_by_object_time now stat ttl)"

definition stat_with_expiry :: "blob_stat \<Rightarrow> time option \<Rightarrow> bool \<Rightarrow> record_stat" where
  "stat_with_expiry stat expires persistent = \<lparr>rs_created_at = bs_modified_at stat, rs_modified_at = bs_modified_at stat,
     rs_expires_at = expires, rs_size = bs_size stat, rs_etag = bs_etag stat, rs_persistent = persistent\<rparr>"

definition stat_by_object_time :: "blob_stat \<Rightarrow> int option \<Rightarrow> record_stat" where
  "stat_by_object_time stat ttl = (case (ttl, bs_modified_at stat) of
      (Some secs, Some modified) \<Rightarrow> stat_with_expiry stat (Some (modified + secs * microseconds)) False
    | _ \<Rightarrow> stat_with_expiry stat None True)"

definition stat_natively :: "(time \<Rightarrow> bool) \<Rightarrow> blob_stat \<Rightarrow> int option \<Rightarrow> record_stat" where
  "stat_natively never stat ttl = (case bs_native_expires_at stat of
      None \<Rightarrow> stat_by_object_time stat ttl
    | Some e \<Rightarrow> if never e then stat_with_expiry stat None True else stat_with_expiry stat (Some e) False)"

text \<open>\<open>clock_base + ttl_seconds\<close>, written as a time or as text (\<open>none\<close> where there is no expiry).\<close>

definition written_expiry :: "int option \<Rightarrow> time \<Rightarrow> time" where
  "written_expiry ttl base = (case ttl of None \<Rightarrow> ttl_none_expires_at | Some secs \<Rightarrow> base + secs * microseconds)"

definition written_token :: "int option \<Rightarrow> time \<Rightarrow> time option" where
  "written_token ttl base = map_option (\<lambda>secs. base + secs * microseconds) ttl"

text \<open>The six classes.\<close>

definition object_time_ttl :: ttl_methods where
  "object_time_ttl = \<lparr>tm_supports_write_clock = False, tm_supports_per_write_ttl = False, tm_needs_head_for_list_expiry = False,
     tm_is_expired = expired_by_object_time, tm_to_record_stat = stat_by_object_time,
     tm_write_headers = \<lambda>ttl base explicit_ttl created_at_set. []\<rparr>"

definition s3_expires_ttl :: ttl_methods where
  "s3_expires_ttl = \<lparr>tm_supports_write_clock = True, tm_supports_per_write_ttl = True, tm_needs_head_for_list_expiry = True,
     tm_is_expired = expired_natively, tm_to_record_stat = stat_natively (\<lambda>e. e = ttl_none_expires_at),
     tm_write_headers = \<lambda>ttl base explicit_ttl created_at_set.
       if \<not> explicit_ttl then [] else [(''Expires'', HeaderTime (written_expiry ttl base))]\<rparr>"

definition gcs_custom_time_ttl :: ttl_methods where
  "gcs_custom_time_ttl = \<lparr>tm_supports_write_clock = True, tm_supports_per_write_ttl = True, tm_needs_head_for_list_expiry = False,
     tm_is_expired = expired_natively, tm_to_record_stat = stat_natively (\<lambda>e. e = ttl_none_expires_at \<or> e \<ge> year_2099),
     tm_write_headers = \<lambda>ttl base explicit_ttl created_at_set. [(''custom_time'', case ttl of
         None \<Rightarrow> if explicit_ttl then HeaderTime ttl_none_expires_at else HeaderNone
       | Some secs \<Rightarrow> HeaderTime (base + secs * microseconds))]\<rparr>"

definition azure_metadata_ttl :: ttl_methods where
  "azure_metadata_ttl = \<lparr>tm_supports_write_clock = True, tm_supports_per_write_ttl = True, tm_needs_head_for_list_expiry = False,
     tm_is_expired = expired_natively, tm_to_record_stat = stat_natively (\<lambda>e. e = ttl_none_expires_at),
     tm_write_headers = \<lambda>ttl base explicit_ttl created_at_set.
       if \<not> explicit_ttl then [] else [(''metadata'', HeaderMetadata [(''expires'', written_token ttl base)])]\<rparr>"

definition filesystem_mtime_ttl :: ttl_methods where
  "filesystem_mtime_ttl = \<lparr>tm_supports_write_clock = True, tm_supports_per_write_ttl = False, tm_needs_head_for_list_expiry = False,
     tm_is_expired = expired_by_object_time, tm_to_record_stat = stat_by_object_time,
     tm_write_headers = \<lambda>ttl base explicit_ttl created_at_set.
       (''expires_sidecar'', HeaderNone) # (if created_at_set then [(''mtime'', HeaderTime base)] else [])\<rparr>"

definition filesystem_sidecar_ttl :: ttl_methods where
  "filesystem_sidecar_ttl = \<lparr>tm_supports_write_clock = True, tm_supports_per_write_ttl = True, tm_needs_head_for_list_expiry = False,
     tm_is_expired = expired_natively, tm_to_record_stat = stat_natively (\<lambda>e. e = ttl_none_expires_at),
     tm_write_headers = \<lambda>ttl base explicit_ttl created_at_set.
       (if created_at_set then [(''mtime'', HeaderTime base)] else []) @
       [(''expires_sidecar'', if explicit_ttl then HeaderText (written_token ttl base) else HeaderNone)]\<rparr>"

primrec methods_of :: "ttl_source \<Rightarrow> ttl_methods" where
  "methods_of ObjectTime = object_time_ttl"
| "methods_of S3Expires = s3_expires_ttl"
| "methods_of GcsCustomTime = gcs_custom_time_ttl"
| "methods_of AzureMetadata = azure_metadata_ttl"
| "methods_of FilesystemMtime = filesystem_mtime_ttl"
| "methods_of FilesystemSidecar = filesystem_sidecar_ttl"

text \<open>The methods called on a source.\<close>

definition source_supports_write_clock :: "ttl_source \<Rightarrow> bool" where
  "source_supports_write_clock source = tm_supports_write_clock (methods_of source)"

definition supports_per_write_ttl :: "ttl_source \<Rightarrow> bool" where
  "supports_per_write_ttl source = tm_supports_per_write_ttl (methods_of source)"

definition needs_head_for_list_expiry :: "ttl_source \<Rightarrow> bool" where
  "needs_head_for_list_expiry source = tm_needs_head_for_list_expiry (methods_of source)"

definition is_expired :: "ttl_source \<Rightarrow> time \<Rightarrow> blob_stat \<Rightarrow> int option \<Rightarrow> bool" where
  "is_expired source = tm_is_expired (methods_of source)"

definition to_record_stat :: "ttl_source \<Rightarrow> blob_stat \<Rightarrow> int option \<Rightarrow> record_stat" where
  "to_record_stat source = tm_to_record_stat (methods_of source)"

definition write_headers :: "ttl_source \<Rightarrow> int option \<Rightarrow> time \<Rightarrow> bool \<Rightarrow> bool \<Rightarrow> headers" where
  "write_headers source = tm_write_headers (methods_of source)"

lemmas ttl_classes = object_time_ttl_def s3_expires_ttl_def gcs_custom_time_ttl_def azure_metadata_ttl_def
  filesystem_mtime_ttl_def filesystem_sidecar_ttl_def

lemma ttl_source_simps [simp]:
  "source_supports_write_clock source \<longleftrightarrow> source \<noteq> ObjectTime"
  "supports_per_write_ttl source \<longleftrightarrow> source \<noteq> ObjectTime \<and> source \<noteq> FilesystemMtime"
  "needs_head_for_list_expiry source \<longleftrightarrow> source = S3Expires"
  by (cases source; simp add: source_supports_write_clock_def supports_per_write_ttl_def needs_head_for_list_expiry_def ttl_classes)+

lemma ttl_method_simps [simp]:
  "is_expired ObjectTime = expired_by_object_time" "is_expired FilesystemMtime = expired_by_object_time"
  "is_expired S3Expires = expired_natively" "is_expired GcsCustomTime = expired_natively"
  "is_expired AzureMetadata = expired_natively" "is_expired FilesystemSidecar = expired_natively"
  "to_record_stat FilesystemSidecar = stat_natively (\<lambda>e. e = ttl_none_expires_at)"
  "write_headers S3Expires ttl base explicit_ttl created_at_set = (if \<not> explicit_ttl then [] else [(''Expires'', HeaderTime (written_expiry ttl base))])"
  "write_headers AzureMetadata ttl base explicit_ttl created_at_set
     = (if \<not> explicit_ttl then [] else [(''metadata'', HeaderMetadata [(''expires'', written_token ttl base)])])"
  "write_headers FilesystemMtime ttl base explicit_ttl created_at_set
     = (''expires_sidecar'', HeaderNone) # (if created_at_set then [(''mtime'', HeaderTime base)] else [])"
  "write_headers FilesystemSidecar ttl base explicit_ttl created_at_set = (if created_at_set then [(''mtime'', HeaderTime base)] else []) @
     [(''expires_sidecar'', if explicit_ttl then HeaderText (written_token ttl base) else HeaderNone)]"
  by (simp_all add: is_expired_def to_record_stat_def write_headers_def ttl_classes)

end
