(* ===== verification/Object_Store.thy ===== *)
theory Object_Store
  imports Object_Driver Scan_Stores
begin

text \<open>
  The template of object stores, \<open>src/kvtsjl/backends/object/store.py\<close>: reads, writes, scans
  and collection over a driver, a source of expiry and a key codec, and \<open>map_concurrent\<close> of
  \<open>src/kvtsjl/batching.py\<close>.
\<close>

section \<open>\<open>map_concurrent\<close>\<close>

text \<open>
  Every item submitted is run, each at once and in the order of the items, which is one of the
  schedules of the pool; what the first of them to fail raised is raised when all are done.
\<close>

primrec pool_map :: "('a \<Rightarrow> ('w, 'b) prog) \<Rightarrow> 'a list \<Rightarrow> ('w, 'b list) prog" where
  "pool_map fn [] = returnP []"
| "pool_map fn (x # xs) = (\<lambda>w. case fn x w of (r, w1) \<Rightarrow> case pool_map fn xs w1 of (rs, w2) \<Rightarrow>
     (case r of Inl e \<Rightarrow> Inl e | Inr y \<Rightarrow> map_sum id (\<lambda>ys. y # ys) rs, w2))"

definition map_concurrent :: "'a list \<Rightarrow> ('a \<Rightarrow> ('w, 'b) prog) \<Rightarrow> int \<Rightarrow> ('w, 'b list) prog" where
  "map_concurrent items fn max_workers = (if max_workers < 1 then raiseP ValueError
     else if items = [] then returnP []
     else if max_workers \<le> 1 \<or> length items \<le> 1 then collectP fn items
     else pool_map fn items)"

section \<open>The backend\<close>

record ('w, 'k, 'v) object_backend =
  ob_backend :: "('k, 'v) backend"
  ob_driver :: "'w driver"
  ob_ttl_source :: ttl_source
  ob_expiry_gc :: expiry_gc
  ob_io_concurrency :: int
  ob_key_codec :: "('k, 'v) key_codec"
  ob_now :: "'w \<Rightarrow> time"

text \<open>\<open>__init__\<close>: a backend without workers, or without a collection, is refused.\<close>

definition new_object_backend ::
  "('k, 'v) backend \<Rightarrow> 'w driver \<Rightarrow> ttl_source \<Rightarrow> expiry_gc \<Rightarrow> int \<Rightarrow> string option
   \<Rightarrow> (string \<Rightarrow> ('k, 'v) key_codec) \<Rightarrow> ('w \<Rightarrow> time) \<Rightarrow> exn + ('w, 'k, 'v) object_backend" where
  "new_object_backend be dr source gc io collection_prefix codec now =
     (if io < 1 then Inl ValueError
      else case cb_collection (be_binding be) of None \<Rightarrow> Inl PyTypeError
      | Some coll \<Rightarrow> Inr \<lparr>ob_backend = be, ob_driver = dr, ob_ttl_source = source, ob_expiry_gc = gc, ob_io_concurrency = io,
          ob_key_codec = codec (case collection_prefix of None \<Rightarrow> coll | Some p \<Rightarrow> p), ob_now = now\<rparr>)"

definition object_ttl :: "('w, 'k, 'v) object_backend \<Rightarrow> int option" where
  "object_ttl ob = resolve_ttl_seconds (ob_backend ob) None"

definition object_key :: "('w, 'k, 'v) object_backend \<Rightarrow> 'k \<Rightarrow> ('w, string) prog" where
  "object_key ob key = liftP (encode_physical (ob_key_codec ob) key)"

definition object_value :: "('w, 'k, 'v) object_backend \<Rightarrow> string \<Rightarrow> ('w, 'v) prog" where
  "object_value ob data = liftP (serde_result (ks_value_deserialize (be_kvset (ob_backend ob)) data))"

definition object_blob :: "('w, 'k, 'v) object_backend \<Rightarrow> 'v \<Rightarrow> ('w, string) prog" where
  "object_blob ob value = liftP (serde_result (ks_value_serialize (be_kvset (ob_backend ob)) value))"

definition object_clock_base :: "time option \<Rightarrow> time \<Rightarrow> time" where
  "object_clock_base created_at now = (case created_at of None \<Rightarrow> now | Some t \<Rightarrow> t)"

text \<open>Whether an object has expired at the time it is asked.\<close>

definition object_expired :: "('w, 'k, 'v) object_backend \<Rightarrow> blob_stat \<Rightarrow> ('w, bool) prog" where
  "object_expired ob stat = (\<lambda>w. (Inr (is_expired (ob_ttl_source ob) (ob_now ob w) stat (object_ttl ob)), w))"

text \<open>An expired object answers \<open>None\<close>, and is deleted under \<open>LAZY_DELETE\<close>.\<close>

definition unless_expired :: "('w, 'k, 'v) object_backend \<Rightarrow> string \<Rightarrow> blob_stat \<Rightarrow> 'a \<Rightarrow> ('w, 'a option) prog" where
  "unless_expired ob name stat a = bindP (object_expired ob stat) (\<lambda>e.
     if e then if ob_expiry_gc ob = LazyDelete then mapP (\<lambda>_. None) (dr_delete (ob_driver ob) name) else returnP None
     else returnP (Some a))"

definition object_live_stat :: "('w, 'k, 'v) object_backend \<Rightarrow> string \<Rightarrow> ('w, blob_stat option) prog" where
  "object_live_stat ob name = bindP (dr_head (ob_driver ob) name) (\<lambda>found. case found of
      None \<Rightarrow> returnP None | Some stat \<Rightarrow> unless_expired ob name stat stat)"

definition object_read_live :: "('w, 'k, 'v) object_backend \<Rightarrow> string \<Rightarrow> ('w, string option) prog" where
  "object_read_live ob name = bindP (dr_read (ob_driver ob) name) (\<lambda>got. case got of
      None \<Rightarrow> returnP None | Some (data, stat) \<Rightarrow> unless_expired ob name stat data)"

section \<open>Reads\<close>

definition object_get :: "('w, 'k, 'v) object_backend \<Rightarrow> 'k \<Rightarrow> ('w, 'v option) prog" where
  "object_get ob key = bindP (object_key ob key) (\<lambda>p. bindP (object_read_live ob p) (\<lambda>raw. case raw of
      None \<Rightarrow> returnP None | Some data \<Rightarrow> mapP Some (object_value ob data)))"

definition object_exists :: "('w, 'k, 'v) object_backend \<Rightarrow> 'k \<Rightarrow> ('w, bool) prog" where
  "object_exists ob key = bindP (object_key ob key) (\<lambda>p. mapP (\<lambda>stat. stat \<noteq> None) (object_live_stat ob p))"

definition object_stat :: "('w, 'k, 'v) object_backend \<Rightarrow> 'k \<Rightarrow> ('w, record_stat option) prog" where
  "object_stat ob key = bindP (object_key ob key) (\<lambda>p.
     mapP (map_option (\<lambda>head. to_record_stat (ob_ttl_source ob) head (object_ttl ob))) (object_live_stat ob p))"

text \<open>The loop the batches share: a chunk at a time, its items concurrently, the answers folded.\<close>

definition object_batches ::
  "('w, 'k, 'v) object_backend \<Rightarrow> 'a list \<Rightarrow> ('a \<Rightarrow> ('w, 'b) prog) \<Rightarrow> ('a list \<Rightarrow> 'b list \<Rightarrow> 'c \<Rightarrow> 'c) \<Rightarrow> 'c \<Rightarrow> ('w, 'c) prog" where
  "object_batches ob items fn gather out = in_chunks items (be_batch_size (ob_backend ob)) (\<lambda>chunks.
     foldP (\<lambda>chunk out. mapP (\<lambda>answers. gather chunk answers out) (map_concurrent chunk fn (ob_io_concurrency ob))) chunks out)"

definition put_found :: "'k list \<Rightarrow> 'a option list \<Rightarrow> ('k, 'a) dict \<Rightarrow> ('k, 'a) dict" where
  "put_found chunk answers out = fold (\<lambda>(key, a) out. case a of None \<Rightarrow> out | Some v \<Rightarrow> dput key v out) (zip chunk answers) out"

definition object_batch_get :: "('w, 'k, 'v) object_backend \<Rightarrow> 'k list \<Rightarrow> ('w, ('k, 'v) dict) prog" where
  "object_batch_get ob keys = (if keys = [] then returnP [] else object_batches ob keys (object_get ob) put_found [])"

definition object_batch_exists :: "('w, 'k, 'v) object_backend \<Rightarrow> 'k list \<Rightarrow> ('w, 'k set) prog" where
  "object_batch_exists ob keys = (if keys = [] then returnP {}
     else object_batches ob keys (object_exists ob) (\<lambda>chunk flags out. out \<union> set (map fst (filter snd (zip chunk flags)))) {})"

definition object_batch_stat :: "('w, 'k, 'v) object_backend \<Rightarrow> 'k list \<Rightarrow> ('w, ('k, record_stat) dict) prog" where
  "object_batch_stat ob keys = (if keys = [] then returnP [] else object_batches ob keys (object_stat ob) put_found [])"

definition object_read_versioned :: "('w, 'k, 'v) object_backend \<Rightarrow> 'k \<Rightarrow> ('w, 'v versioned) prog" where
  "object_read_versioned ob key = bindP (object_key ob key) (\<lambda>p. bindP (dr_read (ob_driver ob) p) (\<lambda>got. case got of
      None \<Rightarrow> returnP absent
    | Some (data, stat) \<Rightarrow> (case bs_version stat of
        None \<Rightarrow> raiseP KvStoreUnsupported
      | Some version \<Rightarrow> bindP (object_expired ob stat) (\<lambda>e.
          if e then returnP (Versioned None (Some version))
          else mapP (\<lambda>v. Versioned (Some v) (Some version)) (object_value ob data)))))"

definition object_batch_read_versioned :: "('w, 'k, 'v) object_backend \<Rightarrow> 'k list \<Rightarrow> ('w, ('k, 'v versioned) dict) prog" where
  "object_batch_read_versioned ob keys =
     object_batches ob (fromkeys keys) (object_read_versioned ob) (\<lambda>chunk seen out. dmerge out (zip chunk seen)) []"

section \<open>Writes\<close>

definition object_write_headers ::
  "('w, 'k, 'v) object_backend \<Rightarrow> ttl_policy option \<Rightarrow> time option \<Rightarrow> ('w, headers option) prog" where
  "object_write_headers ob ttl created_at = (\<lambda>w.
     (case require_explicit_ttl_supported ttl (supports_per_write_ttl (ob_ttl_source ob)) of Some e \<Rightarrow> Inl e
      | None \<Rightarrow> (case require_write_clock_supported created_at (source_supports_write_clock (ob_ttl_source ob)) of Some e \<Rightarrow> Inl e
        | None \<Rightarrow> let hs = write_headers (ob_ttl_source ob) (resolve_ttl_seconds (ob_backend ob) ttl)
              (object_clock_base created_at (ob_now ob w)) (ttl \<noteq> None) (created_at \<noteq> None)
            in Inr (if hs = [] then None else Some hs)), w))"

definition object_set :: "('w, 'k, 'v) object_backend \<Rightarrow> 'k \<Rightarrow> 'v \<Rightarrow> write_options \<Rightarrow> ('w, unit) prog" where
  "object_set ob key value o' = bindP (object_key ob key) (\<lambda>p. bindP (object_blob ob value) (\<lambda>data.
     bindP (object_write_headers ob (wo_ttl o') (wo_created_at o')) (\<lambda>hs. dr_write (ob_driver ob) p data hs)))"

definition object_batch_set :: "('w, 'k, 'v) object_backend \<Rightarrow> ('k, 'v) dict \<Rightarrow> write_options \<Rightarrow> ('w, unit) prog" where
  "object_batch_set ob items o' = (if items = [] then returnP ()
     else object_batches ob items (\<lambda>(key, value). object_set ob key value o') (\<lambda>_ _ _. ()) ())"

definition object_write_one :: "('w, 'k, 'v) object_backend \<Rightarrow> ttl_policy option \<Rightarrow> 'k \<times> 'v cond_write \<Rightarrow> ('w, bool) prog" where
  "object_write_one ob ttl = (\<lambda>(key, cw). bindP (object_key ob key) (\<lambda>p.
     let version = seen_version (cw_seen cw) in case cw_change cw of
       Remove \<Rightarrow> (case version of None \<Rightarrow> returnP False | Some v \<Rightarrow> dr_delete_if_version (ob_driver ob) p v)
     | Put value \<Rightarrow> bindP (object_blob ob value) (\<lambda>data. bindP (object_write_headers ob ttl (cw_created_at cw)) (\<lambda>hs.
         dr_write_if_version (ob_driver ob) p data version hs))))"

definition object_batch_write_if_unchanged ::
  "('w, 'k, 'v) object_backend \<Rightarrow> ('k, 'v cond_write) dict \<Rightarrow> ttl_policy option \<Rightarrow> ('w, 'k set) prog" where
  "object_batch_write_if_unchanged ob writes ttl = object_batches ob writes (object_write_one ob ttl)
     (\<lambda>chunk wins written. written \<union> set (map (fst \<circ> fst) (filter snd (zip chunk wins)))) {}"

definition object_delete :: "('w, 'k, 'v) object_backend \<Rightarrow> 'k \<Rightarrow> ('w, bool) prog" where
  "object_delete ob key = bindP (object_key ob key) (dr_delete (ob_driver ob))"

definition object_delete_chunk :: "('w, 'k, 'v) object_backend \<Rightarrow> 'k list \<Rightarrow> ('w, int) prog" where
  "object_delete_chunk ob chunk = bindP (object_batch_exists ob chunk) (\<lambda>present.
     bindP (collectP (object_key ob) (filter (\<lambda>key. key \<in> present) chunk)) (\<lambda>to_delete.
       if to_delete = [] then returnP 0 else dr_bulk_delete (ob_driver ob) to_delete))"

definition object_batch_delete :: "('w, 'k, 'v) object_backend \<Rightarrow> 'k list \<Rightarrow> ('w, int) prog" where
  "object_batch_delete ob keys = (if keys = [] then returnP 0
     else let limit = min (be_batch_size (ob_backend ob)) (dr_max_bulk_delete (ob_driver ob)) in
       in_chunks (fromkeys keys) limit (\<lambda>chunks.
         mapP sum_list (map_concurrent chunks (object_delete_chunk ob) (ob_io_concurrency ob))))"

section \<open>Listing, scans and collection\<close>

definition object_enrich :: "('w, 'k, 'v) object_backend \<Rightarrow> blob_stat \<Rightarrow> ('w, blob_stat option) prog" where
  "object_enrich ob stat = (if \<not> needs_head_for_list_expiry (ob_ttl_source ob) then returnP (Some stat)
     else dr_head (ob_driver ob) (bs_key stat))"

definition object_scan_stat :: "('w, 'k, 'v) object_backend \<Rightarrow> blob_stat \<Rightarrow> scan_stat" where
  "object_scan_stat ob blob = (let rs = to_record_stat (ob_ttl_source ob) blob (object_ttl ob) in
     \<lparr>ss_size = bs_size blob, ss_modified_at = rs_modified_at rs, ss_expires_at = rs_expires_at rs, ss_etag = bs_etag blob\<rparr>)"

text \<open>One round of the loop of \<open>_iter_listed_rows\<close>: the row the listed object is, if it is one.\<close>

definition object_listed_row ::
  "('w, 'k, 'v) object_backend \<Rightarrow> 'k option \<Rightarrow> bool \<Rightarrow> blob_stat \<Rightarrow> ('w, ('k, 'v) scan_row option) prog" where
  "object_listed_row ob user_prefix include_values listed = bindP (object_enrich ob listed) (\<lambda>found. case found of
      None \<Rightarrow> returnP None
    | Some stat \<Rightarrow> bindP (unless_expired ob (bs_key stat) stat ()) (\<lambda>live. if live = None then returnP None
        else bindP (liftP (decode_if_prefix (ob_key_codec ob) (bs_key stat) user_prefix)) (\<lambda>decoded. case decoded of
            None \<Rightarrow> returnP None
          | Some key \<Rightarrow> if include_values
              then bindP (object_read_live ob (bs_key stat)) (\<lambda>raw. case raw of
                  None \<Rightarrow> returnP None
                | Some data \<Rightarrow> mapP (\<lambda>v. Some \<lparr>sr_key = key, sr_value = Some v, sr_stat = Some (object_scan_stat ob stat)\<rparr>)
                    (object_value ob data))
              else returnP (Some \<lparr>sr_key = key, sr_value = None, sr_stat = Some (object_scan_stat ob stat)\<rparr>))))"

definition object_listed_rows ::
  "('w, 'k, 'v) object_backend \<Rightarrow> string \<Rightarrow> 'k option \<Rightarrow> bool \<Rightarrow> int option \<Rightarrow> ('w, ('k, 'v) scan_row) gen" where
  "object_listed_rows ob listing user_prefix include_values limit =
     for_each (\<lambda>listed continue yielded. if (case limit of None \<Rightarrow> False | Some l \<Rightarrow> yielded \<ge> l) then Done
         else await (object_listed_row ob user_prefix include_values listed) (\<lambda>found. case found of
             None \<Rightarrow> continue yielded
           | Some row \<Rightarrow> Yield row (continue (yielded + 1))))
       (\<lambda>_. Done) (dr_list (ob_driver ob) listing) (0 :: int)"

definition object_scan_capabilities :: scan_capabilities where
  "object_scan_capabilities = \<lparr>cap_pushdown = {''KeyPrefix''}, cap_orders = {UNORDERED, KEY_ASC},
     cap_resumable = True, cap_stats = True, cap_orderable_columns = None\<rparr>"

definition object_compile_scan :: "('w, 'k, 'v) object_backend \<Rightarrow> ('k, 'v) scan_spec \<Rightarrow> exn + ('w, 'k, 'v) compiled_scan" where
  "object_compile_scan ob spec = (if kc_layout (ob_key_codec ob) \<noteq> Literal then Inl ScanUnsupported
     else case peel_key_prefix (sp_where spec) of (user_prefix, residual) \<Rightarrow>
       (case listing_prefix (ob_key_codec ob) user_prefix of Inl e \<Rightarrow> Inl e
        | Inr listing \<Rightarrow> map_sum id (\<lambda>_. \<lparr>cm_rows = object_listed_rows ob listing user_prefix (sp_project spec = ENTRIES) None,
            cm_residual = residual, cm_pushed = (if user_prefix \<noteq> None then {''KeyPrefix''} else {})\<rparr>)
           (enforce_strict spec residual)))"

definition object_scan_entries :: "('w, 'k, 'v) object_backend \<Rightarrow> 'k scan_query \<Rightarrow> ('w, 'k \<times> 'v option) gen" where
  "object_scan_entries ob query = (if kc_layout (ob_key_codec ob) \<noteq> Literal then Raise ScanUnsupported
     else raise_or (listing_prefix (ob_key_codec ob) (sq_prefix query)) (\<lambda>listing.
       gmap (\<lambda>row. (sr_key row, sr_value row))
         (object_listed_rows ob listing (sq_prefix query) (sq_include_values query) None)))"

text \<open>\<open>LeafKvStore.scan_rows\<close> over the backend's own \<open>compile_scan\<close>.\<close>

definition object_scan_rows ::
  "'k python \<Rightarrow> ('w, 'k, 'v) object_backend \<Rightarrow> ('k, 'v) scan_spec \<Rightarrow> ('w, ('k, 'v) scan_row) gen" where
  "object_scan_rows py ob spec = raise_or (enforce_order_by_supported spec (Some object_scan_capabilities)) (\<lambda>_.
     raise_or (object_compile_scan ob spec) (\<lambda>compiled.
       apply_cascade py (cm_rows compiled) (cm_residual compiled) (Some (object_batch_get ob))
         (sp_refine spec) (sp_limit spec) (sp_project spec)))"

text \<open>\<open>expired_keys\<close>: the objects listed, until enough have been found.\<close>

definition object_expired_keys_gen :: "('w, 'k, 'v) object_backend \<Rightarrow> string \<Rightarrow> int \<Rightarrow> ('w, 'k) gen" where
  "object_expired_keys_gen ob listing limit =
     for_each (\<lambda>listed continue found. if found \<ge> limit then Done
         else await (bindP (object_enrich ob listed) (\<lambda>enriched. case enriched of
               None \<Rightarrow> returnP None
             | Some stat \<Rightarrow> bindP (object_expired ob stat) (\<lambda>e. if \<not> e then returnP None
                 else liftP (decode_if_prefix (ob_key_codec ob) (bs_key stat) None))))
           (\<lambda>decoded. case decoded of None \<Rightarrow> continue found | Some key \<Rightarrow> Yield key (continue (found + 1))))
       (\<lambda>_. Done) (dr_list (ob_driver ob) listing) (0 :: int)"

definition object_expired_keys :: "('w, 'k, 'v) object_backend \<Rightarrow> int \<Rightarrow> ('w, 'k list) prog" where
  "object_expired_keys ob limit = (if limit < 1 then raiseP ValueError
     else bindP (liftP (listing_prefix (ob_key_codec ob) None)) (\<lambda>listing. drain (object_expired_keys_gen ob listing limit)))"

text \<open>\<open>KvBackend.gc_expired_keys\<close>.\<close>

definition object_gc_expired_keys :: "('w, 'k, 'v) object_backend \<Rightarrow> int \<Rightarrow> ('w, 'k list) prog" where
  "object_gc_expired_keys ob max_entries = (if max_entries < 1 then raiseP ValueError
     else bindP (object_expired_keys ob max_entries) (\<lambda>keys.
       if keys \<noteq> [] then mapP (\<lambda>_. keys) (object_batch_delete ob keys) else returnP keys))"

section \<open>The store\<close>

definition object_keymap :: "('w, 'k, 'v) object_backend \<Rightarrow> ('w, 'k, 'v) keymap" where
  "object_keymap ob = \<lparr>
     km_get = object_get ob, km_batch_get = object_batch_get ob,
     km_exists = object_exists ob, km_batch_exists = object_batch_exists ob,
     km_stat = object_stat ob, km_batch_stat = object_batch_stat ob,
     km_batch_read_versioned = object_batch_read_versioned ob,
     km_batch_write_if_unchanged = object_batch_write_if_unchanged ob,
     km_set = object_set ob, km_batch_set = object_batch_set ob,
     km_delete = object_delete ob, km_batch_delete = object_batch_delete ob,
     km_unset = object_delete ob, km_batch_unset = object_batch_delete ob,
     km_creates_entries = True\<rparr>"

definition object_store :: "('w, 'k, 'v) object_backend \<Rightarrow> ('w, 'k, 'v) store" where
  "object_store ob = \<lparr>
     st_keymap = object_keymap ob,
     st_batch_size = be_batch_size (ob_backend ob),
     st_supports_write_clock = source_supports_write_clock (ob_ttl_source ob),
     st_writes_are_deferred = False,
     st_gc_expired_keys = object_gc_expired_keys ob,
     st_scan_keys = \<lambda>n. mapP (map fst) (drain (object_scan_entries ob
       \<lparr>sq_prefix = None, sq_include_values = False, sq_page_size = n\<rparr>)),
     st_missing_pages = \<lambda>_. returnP [],
     st_pending_index_syncs = \<lambda>_. 0,
     st_flush_index_syncs = returnP (),
     st_discard_index_syncs = returnP ()\<rparr>"

definition object_scanner :: "'k python \<Rightarrow> ('w, 'k, 'v) object_backend \<Rightarrow> ('w, 'k, 'v) scanner" where
  "object_scanner py ob = \<lparr>
     sn_batch_size = be_batch_size (ob_backend ob), sn_layout = kc_layout (ob_key_codec ob),
     sn_batch_get = object_batch_get ob, sn_batch_exists = object_batch_exists ob,
     sn_scan_entries = object_scan_entries ob, sn_scan_rows = object_scan_rows py ob\<rparr>"

text \<open>\<open>clone_with_scope\<close>: the same medium under another scope, with a codec for it.\<close>

definition object_clone :: "('w, 'k, 'v) object_backend \<Rightarrow> scope \<Rightarrow> ('w, 'k, 'v) object_backend" where
  "object_clone ob sc = (let be = (ob_backend ob)\<lparr>be_scope := sc\<rparr> in
     ob\<lparr>ob_backend := be, ob_key_codec := (ob_key_codec ob)\<lparr>kc_backend := be\<rparr>\<rparr>)"

end
