(* ===== verification/Fs_Driver.thy ===== *)
theory Fs_Driver
  imports Object_Store
begin

text \<open>
  The filesystem driver, \<open>src/kvtsjl/backends/object/fs_driver.py\<close>, over a model of what it
  uses of \<open>pathlib\<close> and \<open>os\<close>: files with their bytes, modification time and inode, the
  directories there are, and a clock. A failing system call raises \<open>MediumFailure\<close>. The
  collection's directories, \<open>backends/object/binding.py\<close>, and the store
  \<open>backends/filesystem.py\<close> makes of them.
\<close>

section \<open>Paths and files\<close>

text \<open>
  \<open>Path(key)\<close>: the components, without empty ones and \<open>.\<close>; an absolute path starts with the
  root. \<open>as_posix\<close> joins them.
\<close>

type_synonym path = "string list"

definition path_of :: "string \<Rightarrow> path" where
  "path_of key = (if py_startswith key ''/'' then [''/''] else []) @ filter (\<lambda>s. s \<noteq> [] \<and> s \<noteq> ''.'') (py_split ''/'' key)"

definition as_posix :: "path \<Rightarrow> string" where
  "as_posix p = (case p of [] \<Rightarrow> ''.'' | c # cs \<Rightarrow> if c = ''/'' then CHR ''/'' # py_join ''/'' cs else py_join ''/'' p)"

text \<open>\<open>Path(str(path) + suffix)\<close>.\<close>

definition with_suffix :: "path \<Rightarrow> string \<Rightarrow> path" where
  "with_suffix p suffix = path_of (as_posix p @ suffix)"

record file_entry =
  fl_data :: string
  fl_mtime :: time
  fl_inode :: nat

record fs =
  fs_files :: "(path, file_entry) dict"
  fs_dirs :: "path set"
  fs_now :: time
  fs_next_inode :: nat

abbreviation os_error :: exn where
  "os_error \<equiv> MediumFailure 0"

definition is_file :: "path \<Rightarrow> fs \<Rightarrow> bool" where
  "is_file p w \<longleftrightarrow> dget (fs_files w) p \<noteq> None"

definition is_dir :: "path \<Rightarrow> fs \<Rightarrow> bool" where
  "is_dir p w \<longleftrightarrow> p \<in> fs_dirs w"

definition parent :: "path \<Rightarrow> path" where
  "parent p = (if p = [''/''] then p else butlast p)"

text \<open>\<open>mkdir(parents=True, exist_ok=True)\<close>: a file in the way is an error.\<close>

fun ancestors :: "path \<Rightarrow> path list" where
  "ancestors [] = [[]]"
| "ancestors (c # cs) = [] # map (Cons c) (ancestors cs)"

definition mkdir_parents :: "path \<Rightarrow> (fs, unit) prog" where
  "mkdir_parents p = (\<lambda>w. if list_ex (\<lambda>q. is_file q w) (ancestors p) then (Inl os_error, w)
     else (Inr (), w\<lparr>fs_dirs := fs_dirs w \<union> set (ancestors p)\<rparr>))"

text \<open>\<open>write_bytes\<close>: an existing file keeps its inode.\<close>

definition write_bytes :: "path \<Rightarrow> string \<Rightarrow> (fs, unit) prog" where
  "write_bytes p data = (\<lambda>w. if is_dir p w \<or> \<not> is_dir (parent p) w then (Inl os_error, w)
     else let inode = (case dget (fs_files w) p of Some f \<Rightarrow> fl_inode f | None \<Rightarrow> fs_next_inode w) in
       (Inr (), w\<lparr>fs_files := dput p \<lparr>fl_data = data, fl_mtime = fs_now w, fl_inode = inode\<rparr> (fs_files w),
          fs_next_inode := Suc (fs_next_inode w)\<rparr>))"

text \<open>\<open>os.replace\<close>, \<open>os.link\<close> (\<open>False\<close> for \<open>FileExistsError\<close>), \<open>unlink(missing_ok=True)\<close> and \<open>os.utime\<close>.\<close>

definition os_replace :: "path \<Rightarrow> path \<Rightarrow> (fs, unit) prog" where
  "os_replace src dst = (\<lambda>w. case dget (fs_files w) src of None \<Rightarrow> (Inl os_error, w)
     | Some f \<Rightarrow> if is_dir dst w \<or> \<not> is_dir (parent dst) w then (Inl os_error, w)
         else (Inr (), w\<lparr>fs_files := dput dst f (ddel src (fs_files w))\<rparr>))"

definition os_link :: "path \<Rightarrow> path \<Rightarrow> (fs, bool) prog" where
  "os_link src dst = (\<lambda>w. case dget (fs_files w) src of None \<Rightarrow> (Inl os_error, w)
     | Some f \<Rightarrow> if is_file dst w \<or> is_dir dst w then (Inr False, w)
         else if \<not> is_dir (parent dst) w then (Inl os_error, w)
         else (Inr True, w\<lparr>fs_files := dput dst f (fs_files w)\<rparr>))"

definition unlink :: "path \<Rightarrow> (fs, unit) prog" where
  "unlink p = (\<lambda>w. if is_dir p w then (Inl os_error, w) else (Inr (), w\<lparr>fs_files := ddel p (fs_files w)\<rparr>))"

definition os_utime :: "path \<Rightarrow> time \<Rightarrow> (fs, unit) prog" where
  "os_utime p t = (\<lambda>w. case dget (fs_files w) p of None \<Rightarrow> (if is_dir p w then Inr () else Inl os_error, w)
     | Some f \<Rightarrow> (Inr (), w\<lparr>fs_files := dput p (f\<lparr>fl_mtime := t\<rparr>) (fs_files w)\<rparr>))"

section \<open>The driver\<close>

definition expires_sidecar :: "path \<Rightarrow> path" where
  "expires_sidecar p = with_suffix p ''.expires''"

text \<open>
  A sidecar holds the text \<open>none\<close>, or the text of a time, modelled by what it reads as: a text
  that is no number reads as the epoch.
\<close>

definition token_text :: "time option \<Rightarrow> string" where
  "token_text token = (case token of None \<Rightarrow> ''none''
     | Some t \<Rightarrow> (if t < 0 then ''-'' else []) @ nat_string (nat \<bar>t\<bar>))"

definition text_time :: "string \<Rightarrow> time" where
  "text_time s = (let (neg, ds) = (case s of c # cs \<Rightarrow> if c = CHR ''-'' then (True, cs) else (False, s) | [] \<Rightarrow> (False, s)) in
     if ds = [] \<or> list_ex (\<lambda>c. of_char c < (48 :: nat) \<or> of_char c > (57 :: nat)) ds then 0
     else let n = fold (\<lambda>c n. 10 * n + (of_char c - 48)) ds (0 :: int) in if neg then - n else n)"

definition native_expires :: "path \<Rightarrow> fs \<Rightarrow> time option" where
  "native_expires p w = (case dget (fs_files w) (expires_sidecar p) of None \<Rightarrow> None
     | Some f \<Rightarrow> let token = py_strip (fl_data f) in
         Some (if token = ''none'' then ttl_none_expires_at else text_time token))"

text \<open>
  The version \<open>f"{st_ino}:{st_mtime_ns}"\<close> is the inode, which every write makes anew; the driver
  compares it with nothing.
\<close>

definition stat_for_path :: "path \<Rightarrow> string \<Rightarrow> fs \<Rightarrow> blob_stat option" where
  "stat_for_path p key w = (case dget (fs_files w) p of None \<Rightarrow> None
     | Some f \<Rightarrow> Some \<lparr>bs_key = key, bs_modified_at = Some (fl_mtime f), bs_native_expires_at = native_expires p w,
         bs_size = Some (int (length (fl_data f))), bs_etag = None, bs_version = Some (fl_inode f)\<rparr>)"

definition write_atomic :: "path \<Rightarrow> string \<Rightarrow> (fs, unit) prog" where
  "write_atomic p data = thenP (mkdir_parents (parent p)) (let tmp = with_suffix p ''.tmp'' in
     thenP (write_bytes tmp data) (os_replace tmp p))"

definition delete_with_sidecar :: "path \<Rightarrow> (fs, unit) prog" where
  "delete_with_sidecar p = thenP (unlink p) (unlink (expires_sidecar p))"

definition fs_head :: "string \<Rightarrow> (fs, blob_stat option) prog" where
  "fs_head key = (\<lambda>w. (Inr (stat_for_path (path_of key) key w), w))"

definition fs_read :: "string \<Rightarrow> (fs, (string \<times> blob_stat) option) prog" where
  "fs_read key = (\<lambda>w. (Inr (case stat_for_path (path_of key) key w of None \<Rightarrow> None
     | Some stat \<Rightarrow> map_option (\<lambda>f. (fl_data f, stat)) (dget (fs_files w) (path_of key))), w))"

definition apply_mtime :: "path \<Rightarrow> headers option \<Rightarrow> (fs, unit) prog" where
  "apply_mtime p hs = (case Option.bind hs (\<lambda>d. dget d ''mtime'') of
      Some (HeaderTime t) \<Rightarrow> os_utime p t
    | _ \<Rightarrow> returnP ())"

definition apply_sidecar :: "path \<Rightarrow> headers option \<Rightarrow> (fs, unit) prog" where
  "apply_sidecar p hs = (case Option.bind hs (\<lambda>d. dget d ''expires_sidecar'') of
      None \<Rightarrow> returnP ()
    | Some (HeaderText token) \<Rightarrow> write_bytes (expires_sidecar p) (token_text token)
    | Some _ \<Rightarrow> unlink (expires_sidecar p))"

definition apply_write_headers :: "path \<Rightarrow> headers option \<Rightarrow> (fs, unit) prog" where
  "apply_write_headers p hs = thenP (apply_mtime p hs) (apply_sidecar p hs)"

definition fs_write :: "string \<Rightarrow> string \<Rightarrow> headers option \<Rightarrow> (fs, unit) prog" where
  "fs_write key data hs = (let p = path_of key in thenP (write_atomic p data) (apply_write_headers p hs))"

text \<open>The name of the body written beside the file; \<open>uuid4\<close> makes it one that no file has.\<close>

definition unique_tmp :: "path \<Rightarrow> fs \<Rightarrow> path" where
  "unique_tmp p w = with_suffix p (''.'' @ nat_string (fs_next_inode w) @ ''.tmp'')"

text \<open>\<open>try: m finally: f\<close>; an exception of \<open>f\<close> takes the place of one of \<open>m\<close>.\<close>

definition finallyP :: "('w, 'a) prog \<Rightarrow> ('w, unit) prog \<Rightarrow> ('w, 'a) prog" where
  "finallyP m f = (\<lambda>w. case m w of (r, w1) \<Rightarrow> case f w1 of (r', w2) \<Rightarrow> (case r' of Inl e \<Rightarrow> Inl e | Inr _ \<Rightarrow> r, w2))"

definition fs_write_if_version :: "string \<Rightarrow> string \<Rightarrow> token option \<Rightarrow> headers option \<Rightarrow> (fs, bool) prog" where
  "fs_write_if_version key data version hs = (if version \<noteq> None then raiseP KvStoreUnsupported
     else let p = path_of key in thenP (mkdir_parents (parent p)) (\<lambda>w. let tmp = unique_tmp p w in
       bindP (finallyP (thenP (write_bytes tmp data) (thenP (apply_mtime tmp hs) (os_link tmp p))) (unlink tmp)) (\<lambda>linked.
         if linked then thenP (apply_sidecar p hs) (returnP True) else returnP False) w))"

definition fs_delete :: "string \<Rightarrow> (fs, bool) prog" where
  "fs_delete key = (\<lambda>w. mapP (\<lambda>_. is_file (path_of key) w) (delete_with_sidecar (path_of key)) w)"

text \<open>
  The directory walked: the one the prefix names, or the nearest above it that there is. The
  files under it are taken when the walk starts, in the order the medium has them, and each is
  looked at when it is reached.
\<close>

fun nearest_dir :: "path \<Rightarrow> fs \<Rightarrow> path list \<Rightarrow> path option" where
  "nearest_dir p w [] = None"
| "nearest_dir p w (q # qs) = (if is_dir q w then Some q else nearest_dir p w qs)"

definition walk_root :: "string \<Rightarrow> fs \<Rightarrow> path option" where
  "walk_root prefix w = (let root = path_of prefix in
     if is_dir root w then Some root else nearest_dir root w (tl (rev (ancestors root))))"

definition under :: "path \<Rightarrow> path \<Rightarrow> bool" where
  "under root p \<longleftrightarrow> length root < length p \<and> take (length root) p = root"

definition endswith :: "string \<Rightarrow> string \<Rightarrow> bool" where
  "endswith s suffix \<longleftrightarrow> py_startswith (rev s) (rev suffix)"

definition py_rstrip_slash :: "string \<Rightarrow> string" where
  "py_rstrip_slash s = rev (dropWhile (\<lambda>c. c = CHR ''/'') (rev s))"

definition listed_key :: "string \<Rightarrow> path \<Rightarrow> string" where
  "listed_key prefix p = (let key = as_posix p in
     if endswith prefix ''/'' \<and> \<not> py_startswith key prefix
     then let base = py_rstrip_slash prefix in
       if py_startswith key (base @ ''/'') \<or> key = base then prefix @ drop (length base + 1) key else key
     else key)"

definition listed_name :: "path \<Rightarrow> bool" where
  "listed_name p \<longleftrightarrow> \<not> endswith (last p) ''.tmp'' \<and> \<not> endswith (last p) ''.expires''"

primrec walk_gen :: "string \<Rightarrow> path list \<Rightarrow> (fs, blob_stat) gen" where
  "walk_gen prefix [] = Done"
| "walk_gen prefix (p # ps) = (let key = listed_key prefix p in
     if \<not> py_startswith key prefix then walk_gen prefix ps
     else await (\<lambda>w. (Inr (stat_for_path p key w), w)) (\<lambda>found. case found of
         None \<Rightarrow> walk_gen prefix ps | Some stat \<Rightarrow> Yield stat (walk_gen prefix ps)))"

definition fs_list :: "string \<Rightarrow> (fs, blob_stat) gen" where
  "fs_list prefix = Step (\<lambda>w. (case walk_root prefix w of None \<Rightarrow> Done
     | Some root \<Rightarrow> walk_gen prefix (filter (\<lambda>p. under root p \<and> listed_name p) (dkeys (fs_files w))), w))"

definition fs_bulk_delete :: "string list \<Rightarrow> (fs, int) prog" where
  "fs_bulk_delete keys = foldP (\<lambda>key n. mapP (\<lambda>b. if b then n + 1 else n) (fs_delete key)) keys 0"

definition fs_driver :: "fs driver" where
  "fs_driver = \<lparr>dr_max_bulk_delete = 1, dr_head = fs_head, dr_read = fs_read, dr_write = fs_write,
     dr_write_if_version = fs_write_if_version, dr_delete_if_version = default_delete_if_version,
     dr_delete = fs_delete, dr_list = fs_list, dr_bulk_delete = fs_bulk_delete\<rparr>"

section \<open>The store\<close>

definition normalize_key_prefix :: "string \<Rightarrow> string" where
  "normalize_key_prefix prefix = (let p = dropWhile (\<lambda>c. c = CHR ''/'') (py_strip prefix) in
     if p \<noteq> [] \<and> \<not> endswith p ''/'' then p @ ''/'' else p)"

definition safe_collection_name :: "string \<Rightarrow> string" where
  "safe_collection_name name = py_replace [char_of (0 :: nat)] [] (py_replace ''..'' ''_''
     (py_replace [CHR 0x5C] ''_'' (py_replace ''/'' ''_'' (if name = [] then ''_'' else name))))"

definition object_collection :: "string \<Rightarrow> ('k, 'v) kvset \<Rightarrow> string" where
  "object_collection key_prefix ks = normalize_key_prefix key_prefix @ safe_collection_name (ks_name ks) @ ''/'' @ version_label ks @ ''/''"

definition filesystem_collection :: "string \<Rightarrow> ('k, 'v) kvset \<Rightarrow> string" where
  "filesystem_collection root ks = as_posix (path_of root @ path_of (safe_collection_name (ks_name ks)) @ path_of (version_label ks)) @ ''/''"

definition filesystem_binding :: "string \<Rightarrow> ('k, 'v) kvset \<Rightarrow> binding" where
  "filesystem_binding root ks = \<lparr>cb_collection = Some (filesystem_collection root ks), cb_name_version_prefix = []\<rparr>"

text \<open>\<open>FilesystemKvStore.__init__\<close> makes the directory of the collection; \<open>SIDECAR\<close> is the mode's flag.\<close>

definition new_filesystem_store ::
  "('k, 'v) kvset \<Rightarrow> string \<Rightarrow> bool \<Rightarrow> expiry_gc \<Rightarrow> scope \<Rightarrow> binding option \<Rightarrow> int \<Rightarrow> int
   \<Rightarrow> (('k, 'v) backend \<Rightarrow> string \<Rightarrow> ('k, 'v) key_codec) \<Rightarrow> (fs, (fs, 'k, 'v) object_backend) prog" where
  "new_filesystem_store ks root sidecar gc sc binding batch_size io codec =
     (let resolved = (case binding of Some b \<Rightarrow> b | None \<Rightarrow> filesystem_binding root ks) in
      case cb_collection resolved of None \<Rightarrow> raiseP PyTypeError
      | Some coll \<Rightarrow> let prefix = (if endswith coll ''/'' then coll else coll @ ''/'') in
          thenP (mkdir_parents (path_of prefix)) (bindP (liftP (new_backend ks sc None (Some resolved) batch_size)) (\<lambda>be.
            liftP (new_object_backend be fs_driver (if sidecar then FilesystemSidecar else FilesystemMtime) gc io
              (Some prefix) (codec be) fs_now))))"

end
