(* ===== verification/Object_Laws.thy ===== *)
theory Object_Laws
  imports Fs_Driver Keymap_Spec Memory_Laws
begin

text \<open>
  The contract of a driver, \<open>blob_medium\<close>, and what the template of object stores does over any
  driver that keeps it (\<open>object_records\<close>): its reads, writes and deletions are those of a
  map from keys to values, in which an expired object is no value.
\<close>

section \<open>Batches\<close>

lemma collectP_append: "collectP f (xs @ ys) = bindP (collectP f xs) (\<lambda>as. mapP (\<lambda>bs. as @ bs) (collectP f ys))"
  by (induction xs) (auto simp: prog_simps fun_eq_iff split: prod.splits sum.splits)

lemma collectP_length: "collectP f xs w = (Inr ys, w') \<Longrightarrow> length ys = length xs"
  by (induction xs arbitrary: w ys) (auto simp: prog_simps split: prod.splits sum.splits)

lemma pool_map_collect: "collectP f xs w = (Inr ys, w') \<Longrightarrow> pool_map f xs w = (Inr ys, w')"
  by (induction xs arbitrary: w ys) (auto simp: prog_simps split: prod.splits sum.splits)

text \<open>Where no item fails, the pool does what a loop does.\<close>

lemma map_concurrent_collect:
  assumes "collectP f xs w = (Inr ys, w')" "1 \<le> n"
  shows "map_concurrent xs f n w = (Inr ys, w')"
  using assms pool_map_collect [OF assms(1)] by (auto simp: map_concurrent_def)

lemma chunks_collect:
  assumes "collectP f (concat chunks) w = (Inr ys, w')" "1 \<le> n"
    and hom: "\<And>as bs ys zs out. length as = length ys \<Longrightarrow> gather (as @ bs) (ys @ zs) out = gather bs zs (gather as ys out)"
    and nil: "\<And>out. gather [] [] out = out"
  shows "foldP (\<lambda>chunk out. mapP (\<lambda>answers. gather chunk answers out) (map_concurrent chunk f n)) chunks out w
    = (Inr (gather (concat chunks) ys out), w')"
  using assms(1)
proof (induction chunks arbitrary: w ys out)
  case (Cons c cs)
  from Cons.prems obtain as w1 bs where
    as: "collectP f c w = (Inr as, w1)" and bs: "collectP f (concat cs) w1 = (Inr bs, w')" and ys: "ys = as @ bs"
    by (auto simp: collectP_append prog_simps split: prod.splits sum.splits)
  from map_concurrent_collect [OF as assms(2)] Cons.IH [OF bs, of "gather c as out"] hom [of c as] collectP_length [OF as]
  show ?case by (simp add: prog_simps ys)
qed (simp add: nil)

lemma in_chunks_at:
  assumes "1 \<le> sz" "\<And>chunks. concat chunks = items \<Longrightarrow> run chunks w = r"
  shows "in_chunks items sz run w = r"
  using assms concat_chunks_from [of "nat sz" items 0] by (simp add: in_chunks_def chunk_sequence_def)

lemma object_batches_collect:
  assumes "collectP f items w = (Inr ys, w')" "1 \<le> be_batch_size (ob_backend ob)" "1 \<le> ob_io_concurrency ob"
    and "\<And>as bs ys zs out. length as = length ys \<Longrightarrow> gather (as @ bs) (ys @ zs) out = gather bs zs (gather as ys out)"
    and "\<And>out. gather [] [] out = out"
  shows "object_batches ob items f gather out w = (Inr (gather items ys out), w')"
  unfolding object_batches_def
proof (rule in_chunks_at [OF assms(2)])
  fix chunks assume "concat chunks = items"
  with chunks_collect [where gather = gather, OF _ assms(3,4,5), of f chunks w ys w' out] assms(1)
  show "foldP (\<lambda>chunk out. mapP (\<lambda>answers. gather chunk answers out) (map_concurrent chunk f (ob_io_concurrency ob))) chunks out w
    = (Inr (gather items ys out), w')" by simp
qed

lemma put_found_append:
  "length as = length ys \<Longrightarrow> put_found (as @ bs) (ys @ zs) out = put_found bs zs (put_found as ys out)"
  by (simp add: put_found_def)

lemma put_found_Nil [simp]: "put_found [] [] out = out"
  by (simp add: put_found_def)

lemma put_found_Cons [simp]: "put_found (k # ks) (a # as) out = put_found ks as (case a of None \<Rightarrow> out | Some v \<Rightarrow> dput k v out)"
  by (simp add: put_found_def)

lemma put_found_map:
  "dict_ok out \<Longrightarrow> dict_ok (put_found ks (map g ks) out)
    \<and> (\<forall>k. dget (put_found ks (map g ks) out) k = (if k \<in> set ks \<and> g k \<noteq> None then g k else dget out k))"
  by (induction ks arbitrary: out) (auto split: option.splits)

section \<open>The contract of a medium\<close>

text \<open>
  \<open>objs w\<close> are the objects stored under the names the driver can hold (\<open>good\<close>), each with its
  metadata; \<open>fits hs\<close> are headers the driver takes, and \<open>stamp hs now\<close> is the modification time and the native expiry of an object written
  with those headers at that time.
\<close>

locale blob_medium =
  fixes dr :: "'w driver"
    and objs :: "'w \<Rightarrow> string \<Rightarrow> (string \<times> blob_stat) option"
    and now :: "'w \<Rightarrow> time"
    and minv :: "'w \<Rightarrow> bool"
    and good :: "string \<Rightarrow> bool"
    and fits :: "headers option \<Rightarrow> bool"
    and stamp :: "headers option \<Rightarrow> time \<Rightarrow> time \<times> time option"
  assumes head_law: "minv w \<Longrightarrow> good p \<Longrightarrow> dr_head dr p w = (Inr (map_option snd (objs w p)), w)"
    and read_law: "minv w \<Longrightarrow> good p \<Longrightarrow> dr_read dr p w = (Inr (objs w p), w)"
    and stat_law: "minv w \<Longrightarrow> objs w p = Some (d, s) \<Longrightarrow> good p \<and> bs_key s = p \<and> bs_version s \<noteq> None"
    and write_law: "minv w \<Longrightarrow> good p \<Longrightarrow> fits hs \<Longrightarrow> \<exists>s w'. dr_write dr p d hs w = (Inr (), w') \<and> minv w' \<and> now w' = now w
      \<and> objs w' = (objs w)(p \<mapsto> (d, s)) \<and> (bs_modified_at s, bs_native_expires_at s) = (Some (fst (stamp hs (now w))), snd (stamp hs (now w)))"
    and insert_law: "minv w \<Longrightarrow> good p \<Longrightarrow> fits hs \<Longrightarrow> \<exists>s w'. dr_write_if_version dr p d None hs w = (Inr (objs w p = None), w')
      \<and> minv w' \<and> now w' = now w
      \<and> objs w' = (if objs w p = None then (objs w)(p \<mapsto> (d, s)) else objs w)
      \<and> (bs_modified_at s, bs_native_expires_at s) = (Some (fst (stamp hs (now w))), snd (stamp hs (now w)))"
    and delete_law: "minv w \<Longrightarrow> good p \<Longrightarrow> \<exists>w'. dr_delete dr p w = (Inr (objs w p \<noteq> None), w') \<and> minv w' \<and> now w' = now w
      \<and> objs w' = (objs w)(p := None)"
    and bulk_law: "minv w \<Longrightarrow> (\<forall>p \<in> set ps. objs w p \<noteq> None) \<Longrightarrow> distinct ps \<Longrightarrow>
      \<exists>w'. dr_bulk_delete dr ps w = (Inr (int (length ps)), w') \<and> minv w' \<and> now w' = now w
      \<and> objs w' = (\<lambda>p. if p \<in> set ps then None else objs w p)"
    and bulk_size: "1 \<le> dr_max_bulk_delete dr"

section \<open>A collection over it\<close>

text \<open>What of the object of a key is stored, what has expired, and what is held.\<close>

definition object_at :: "('w \<Rightarrow> string \<Rightarrow> (string \<times> blob_stat) option) \<Rightarrow> ('w, 'k, 'v) object_backend \<Rightarrow> 'w \<Rightarrow> 'k \<Rightarrow> (string \<times> blob_stat) option" where
  "object_at objs ob w k = (case encode_physical (ob_key_codec ob) k of Inl _ \<Rightarrow> None | Inr p \<Rightarrow> objs w p)"

definition stale :: "('w, 'k, 'v) object_backend \<Rightarrow> time \<Rightarrow> (string \<times> blob_stat) option \<Rightarrow> bool" where
  "stale ob t found = (case found of None \<Rightarrow> False | Some (d, s) \<Rightarrow> is_expired (ob_ttl_source ob) t s (object_ttl ob))"

definition object_holds :: "('w \<Rightarrow> string \<Rightarrow> (string \<times> blob_stat) option) \<Rightarrow> ('w, 'k, 'v) object_backend \<Rightarrow> 'w \<Rightarrow> 'k \<Rightarrow> 'v option" where
  "object_holds objs ob w k = (if stale ob (ob_now ob w) (object_at objs ob w k) then None
     else Option.bind (object_at objs ob w k) (\<lambda>(d, s). ks_value_deserialize (be_kvset (ob_backend ob)) d))"

definition object_inv ::
  "('w \<Rightarrow> bool) \<Rightarrow> ('w \<Rightarrow> string \<Rightarrow> (string \<times> blob_stat) option) \<Rightarrow> ('w, 'k, 'v) object_backend \<Rightarrow> 'w \<Rightarrow> bool" where
  "object_inv minv objs ob w \<longleftrightarrow> minv w
     \<and> (\<forall>k d s. object_at objs ob w k = Some (d, s) \<longrightarrow> ks_value_deserialize (be_kvset (ob_backend ob)) d \<noteq> None)"

locale object_records = blob_medium dr objs now minv good fits stamp
  for dr :: "'w driver" and objs now minv good fits stamp +
  fixes ob :: "('w, 'k, 'v) object_backend"
  assumes driver_law [simp]: "ob_driver ob = dr" "ob_now ob = now"
    and key_law: "\<exists>p. encode_physical (ob_key_codec ob) k = Inr p \<and> good p"
    and key_inj: "encode_physical (ob_key_codec ob) k = Inr p \<Longrightarrow> encode_physical (ob_key_codec ob) j = Inr p \<Longrightarrow> k = j"
    and blob_law: "\<exists>b. ks_value_serialize (be_kvset (ob_backend ob)) v = Some b \<and> ks_value_deserialize (be_kvset (ob_backend ob)) b = Some v"
    and headers_law: "hs = write_headers (ob_ttl_source ob) ttl base explicit given \<Longrightarrow> fits (if hs = [] then None else Some hs)"
    and sizes: "1 \<le> be_batch_size (ob_backend ob)" "1 \<le> ob_io_concurrency ob"
begin

abbreviation at :: "'w \<Rightarrow> 'k \<Rightarrow> (string \<times> blob_stat) option" where
  "at \<equiv> object_at objs ob"

abbreviation holds :: "'w \<Rightarrow> 'k \<Rightarrow> 'v option" where
  "holds \<equiv> object_holds objs ob"

abbreviation inv :: "'w \<Rightarrow> bool" where
  "inv \<equiv> object_inv minv objs ob"

text \<open>
  Reading the keys \<open>K\<close> may delete their expired objects and changes nothing else.
\<close>

definition tidied :: "'k set \<Rightarrow> 'w \<Rightarrow> 'w \<Rightarrow> bool" where
  "tidied K w w' \<longleftrightarrow> minv w' \<and> now w' = now w
     \<and> objs w' = (\<lambda>p. if ob_expiry_gc ob = LazyDelete \<and> (\<exists>k \<in> K. encode_physical (ob_key_codec ob) k = Inr p) \<and> stale ob (now w) (objs w p)
          then None else objs w p)"

lemma tidied_refl: "minv w \<Longrightarrow> tidied {} w w"
  by (simp add: tidied_def)

lemma tidied_trans: "tidied K w w1 \<Longrightarrow> tidied L w1 w2 \<Longrightarrow> tidied (K \<union> L) w w2"
  by (auto simp: tidied_def fun_eq_iff stale_def split: if_splits)

lemma tidied_at: "tidied K w w' \<Longrightarrow> at w' k = (if ob_expiry_gc ob = LazyDelete \<and> k \<in> K \<and> stale ob (now w) (at w k) then None else at w k)"
  using key_law [of k] key_inj by (auto simp: tidied_def object_at_def split: sum.splits) 

lemma tidied_holds: "tidied K w w' \<Longrightarrow> holds w' = holds w"
  by (rule ext) (simp add: object_holds_def tidied_at, simp add: tidied_def stale_def)

lemma tidied_inv: "tidied K w w' \<Longrightarrow> inv w \<Longrightarrow> inv w'"
  by (auto simp: object_inv_def tidied_at, simp add: tidied_def)

lemma tidied_one: "tidied K w w' \<Longrightarrow> tidied L w' w'' \<Longrightarrow> K \<union> L = M \<Longrightarrow> tidied M w w''"
  using tidied_trans by blast

text \<open>A read of one key, and then of many.\<close>

definition reads :: "('k \<Rightarrow> ('w, 'a) prog) \<Rightarrow> ('w \<Rightarrow> 'k \<Rightarrow> 'a) \<Rightarrow> bool" where
  "reads fn f \<longleftrightarrow> (\<forall>w k. inv w \<longrightarrow> (\<exists>w'. fn k w = (Inr (f w k), w') \<and> tidied {k} w w'))
     \<and> (\<forall>w w' K k. inv w \<longrightarrow> tidied K w w' \<longrightarrow> f w' k = f w k)"

lemma reads_collect:
  assumes "reads fn f" "inv w"
  shows "\<exists>w'. collectP fn ks w = (Inr (map (f w) ks), w') \<and> tidied (set ks) w w'"
  using assms(2)
proof (induction ks arbitrary: w)
  case Nil
  then show ?case using tidied_refl by (auto simp: object_inv_def)
next
  case (Cons k ks)
  from assms(1) Cons.prems obtain w1 where w1: "fn k w = (Inr (f w k), w1)" "tidied {k} w w1"
    unfolding reads_def by blast
  have same: "f w1 = f w" using assms(1) Cons.prems w1(2) unfolding reads_def by blast
  from Cons.IH [OF tidied_inv [OF w1(2) Cons.prems]] obtain w2 where
    w2: "collectP fn ks w1 = (Inr (map (f w1) ks), w2)" "tidied (set ks) w1 w2" by blast
  have "tidied (set (k # ks)) w w2" using tidied_trans [OF w1(2) w2(2)] by simp
  with w1 w2 same show ?case by (simp add: prog_simps)
qed

lemma reads_batches:
  assumes "reads fn f" "inv w"
    and "\<And>as bs ys zs out. length as = length ys \<Longrightarrow> gather (as @ bs) (ys @ zs) out = gather bs zs (gather as ys out)"
    and "\<And>out. gather [] [] out = out"
  shows "\<exists>w'. object_batches ob ks fn gather out w = (Inr (gather ks (map (f w) ks) out), w') \<and> tidied (set ks) w w'"
proof -
  from reads_collect [OF assms(1,2), of ks] obtain w' where
    w': "collectP fn ks w = (Inr (map (f w) ks), w')" "tidied (set ks) w w'" by blast
  from object_batches_collect [OF w'(1) sizes, of gather, OF assms(3,4)] w'(2) show ?thesis by blast
qed

text \<open>What a read does with an object it found.\<close>

lemma unless_expired_law:
  assumes "inv w" "encode_physical (ob_key_codec ob) k = Inr p" "objs w p = Some (d, s)"
  shows "\<exists>w'. unless_expired ob p s a w = (Inr (if stale ob (now w) (objs w p) then None else Some a), w') \<and> tidied {k} w w'"
proof -
  have minv: "minv w" and good: "good p" using assms key_law [of k] by (auto simp: object_inv_def)
  from delete_law [OF minv good] obtain w' where
    w': "dr_delete dr p w = (Inr True, w')" "minv w'" "now w' = now w" "objs w' = (objs w)(p := None)"
    using assms(3) by auto
  show ?thesis
  proof (cases "stale ob (now w) (objs w p) \<and> ob_expiry_gc ob = LazyDelete")
    case True
    have "tidied {k} w w'" using w'(2-4) True assms(2) by (auto simp: tidied_def fun_eq_iff)
    with True w'(1) show ?thesis
      by (simp add: unless_expired_def object_expired_def bindP_run mapP_run assms(3) stale_def)
  next
    case False
    have "tidied {k} w w" using minv False assms(2) by (auto simp: tidied_def fun_eq_iff)
    with False show ?thesis
      by (auto simp: unless_expired_def object_expired_def bindP_run assms(3) stale_def)
  qed
qed

lemma tidied_nothing: "minv w \<Longrightarrow> at w k = None \<Longrightarrow> tidied {k} w w"
  by (auto simp: tidied_def object_at_def stale_def fun_eq_iff)

lemma live_stat_law:
  assumes "inv w" "encode_physical (ob_key_codec ob) k = Inr p"
  shows "\<exists>w'. object_live_stat ob p w = (Inr (if stale ob (now w) (at w k) then None else map_option snd (at w k)), w') \<and> tidied {k} w w'"
proof -
  have minv: "minv w" and good: "good p" using assms key_law [of k] by (auto simp: object_inv_def)
  have at: "at w k = objs w p" using assms(2) by (simp add: object_at_def)
  show ?thesis
  proof (cases "objs w p")
    case None
    with tidied_nothing [OF minv] at show ?thesis
      by (auto simp: object_live_stat_def bindP_run head_law [OF minv good] stale_def)
  next
    case (Some ds)
    then obtain d s where ds: "objs w p = Some (d, s)" by (cases ds) auto
    from unless_expired_law [OF assms ds, of s] ds at show ?thesis
      by (auto simp: object_live_stat_def bindP_run head_law [OF minv good])
  qed
qed

lemma read_live_law:
  assumes "inv w" "encode_physical (ob_key_codec ob) k = Inr p"
  shows "\<exists>w'. object_read_live ob p w = (Inr (if stale ob (now w) (at w k) then None else map_option fst (at w k)), w') \<and> tidied {k} w w'"
proof -
  have minv: "minv w" and good: "good p" using assms key_law [of k] by (auto simp: object_inv_def)
  have at: "at w k = objs w p" using assms(2) by (simp add: object_at_def)
  show ?thesis
  proof (cases "objs w p")
    case None
    with tidied_nothing [OF minv] at show ?thesis
      by (auto simp: object_read_live_def bindP_run read_law [OF minv good] stale_def)
  next
    case (Some ds)
    then obtain d s where ds: "objs w p = Some (d, s)" by (cases ds) auto
    from unless_expired_law [OF assms ds, of d] ds at show ?thesis
      by (auto simp: object_read_live_def bindP_run read_law [OF minv good])
  qed
qed

lemma value_run: "ks_value_deserialize (be_kvset (ob_backend ob)) d = Some v \<Longrightarrow> object_value ob d w = (Inr v, w)"
  by (simp add: object_value_def serde_result_def liftP_def)

lemma key_run: "encode_physical (ob_key_codec ob) k = Inr p \<Longrightarrow> object_key ob k w = (Inr p, w)"
  by (simp add: object_key_def liftP_def)

lemma live_value: "inv w \<Longrightarrow> at w k = Some (d, s) \<Longrightarrow> \<exists>v. ks_value_deserialize (be_kvset (ob_backend ob)) d = Some v"
  by (auto simp: object_inv_def)

lemma get_reads: "reads (object_get ob) holds"
  unfolding reads_def
proof (intro conjI allI impI)
  fix w k assume inv: "inv w"
  from key_law [of k] obtain p where p: "encode_physical (ob_key_codec ob) k = Inr p" by blast
  from read_live_law [OF inv p] obtain w' where
    w': "object_read_live ob p w = (Inr (if stale ob (now w) (at w k) then None else map_option fst (at w k)), w')" "tidied {k} w w'" by blast
  show "\<exists>w'. object_get ob k w = (Inr (holds w k), w') \<and> tidied {k} w w'"
  proof (cases "at w k")
    case None
    with w' show ?thesis by (auto simp: object_get_def bindP_run key_run [OF p] object_holds_def stale_def)
  next
    case (Some ds)
    then obtain d s where ds: "at w k = Some (d, s)" by (cases ds) auto
    from live_value [OF inv ds] obtain v where v: "ks_value_deserialize (be_kvset (ob_backend ob)) d = Some v" by blast
    with w' ds show ?thesis
      by (auto simp: object_get_def bindP_run mapP_run key_run [OF p] value_run [OF v] object_holds_def)
  qed
next
  fix w w' K k assume "tidied K w w'"
  then show "holds w' k = holds w k" by (simp add: tidied_holds)
qed

lemma holds_live: "inv w \<Longrightarrow> holds w k \<noteq> None \<longleftrightarrow> at w k \<noteq> None \<and> \<not> stale ob (now w) (at w k)"
  by (cases "at w k") (auto simp: object_holds_def dest: live_value)

lemma exists_reads: "reads (object_exists ob) (\<lambda>w k. holds w k \<noteq> None)"
  unfolding reads_def
proof (intro conjI allI impI)
  fix w k assume inv: "inv w"
  from key_law [of k] obtain p where p: "encode_physical (ob_key_codec ob) k = Inr p" by blast
  from live_stat_law [OF inv p] obtain w' where
    w': "object_live_stat ob p w = (Inr (if stale ob (now w) (at w k) then None else map_option snd (at w k)), w')" "tidied {k} w w'" by blast
  then have "object_exists ob k w = (Inr (holds w k \<noteq> None), w')"
    unfolding holds_live [OF inv] by (cases "at w k") (auto simp: object_exists_def bindP_run mapP_run key_run [OF p])
  with w'(2) show "\<exists>w'. object_exists ob k w = (Inr (holds w k \<noteq> None), w') \<and> tidied {k} w w'" by blast
next
  fix w w' K k assume "tidied K w w'"
  then show "(holds w' k \<noteq> None) = (holds w k \<noteq> None)" by (simp add: tidied_holds)
qed

lemma batch_get_run:
  assumes inv: "inv w"
  shows "\<exists>d w'. object_batch_get ob ks w = (Inr d, w') \<and> tidied (set ks) w w' \<and> dict_ok d
    \<and> (\<forall>k. dget d k = (if k \<in> set ks then holds w k else None))"
proof (cases "ks = []")
  case True
  with inv tidied_refl show ?thesis by (auto simp: object_batch_get_def object_inv_def)
next
  case False
  from reads_batches [where gather = put_found, OF get_reads inv put_found_append put_found_Nil, of ks "[]"] obtain w' where
    "object_batches ob ks (object_get ob) put_found [] w = (Inr (put_found ks (map (holds w) ks) []), w')" "tidied (set ks) w w'" by blast
  with False put_found_map [of "[]" ks "holds w"] show ?thesis by (auto simp: object_batch_get_def)
qed

lemma batch_exists_run:
  assumes inv: "inv w"
  shows "\<exists>w'. object_batch_exists ob ks w = (Inr {k \<in> set ks. holds w k \<noteq> None}, w') \<and> tidied (set ks) w w'"
proof (cases "ks = []")
  case True
  with inv tidied_refl show ?thesis by (auto simp: object_batch_exists_def object_inv_def)
next
  case False
  let ?gather = "\<lambda>chunk flags out. out \<union> set (map fst (filter snd (zip chunk flags)))"
  have "\<exists>w'. object_batches ob ks (object_exists ob) ?gather {} w
      = (Inr (?gather ks (map (\<lambda>k. holds w k \<noteq> None) ks) {}), w') \<and> tidied (set ks) w w'"
    by (rule reads_batches [OF exists_reads inv]) (auto simp: zip_append1)
  moreover have "?gather ks (map (\<lambda>k. holds w k \<noteq> None) ks) {} = {k \<in> set ks. holds w k \<noteq> None}"
    by (force simp: zip_map2 zip_same_conv_map)
  ultimately show ?thesis using False by (auto simp: object_batch_exists_def)
qed

definition stat_held :: "'w \<Rightarrow> 'k \<Rightarrow> record_stat option" where
  "stat_held w k = (if stale ob (now w) (at w k) then None
     else map_option (\<lambda>(d, s). to_record_stat (ob_ttl_source ob) s (object_ttl ob)) (at w k))"

lemma stat_reads: "reads (object_stat ob) stat_held"
  unfolding reads_def
proof (intro conjI allI impI)
  fix w k assume inv: "inv w"
  from key_law [of k] obtain p where p: "encode_physical (ob_key_codec ob) k = Inr p" by blast
  from live_stat_law [OF inv p] obtain w' where
    w': "object_live_stat ob p w = (Inr (if stale ob (now w) (at w k) then None else map_option snd (at w k)), w')" "tidied {k} w w'" by blast
  then have "object_stat ob k w = (Inr (stat_held w k), w')"
    by (cases "at w k") (auto simp: object_stat_def bindP_run mapP_run key_run [OF p] stat_held_def)
  with w'(2) show "\<exists>w'. object_stat ob k w = (Inr (stat_held w k), w') \<and> tidied {k} w w'" by blast
next
  fix w w' K k assume "tidied K w w'"
  then show "stat_held w' k = stat_held w k" by (simp add: stat_held_def tidied_at, simp add: tidied_def stale_def)
qed

end

sublocale object_records \<subseteq> reads: point_reads "object_get ob" holds inv
  using get_reads tidied_inv tidied_holds unfolding reads_def by unfold_locales blast

sublocale object_records \<subseteq> km: stat_keymap "object_keymap ob" holds inv
proof unfold_locales
  fix w k ks assume inv: "inv w"
  show "\<exists>w'. km_get (object_keymap ob) k w = (Inr (holds w k), w') \<and> inv w' \<and> holds w' = holds w"
    using reads.get_law [OF inv] by (simp add: object_keymap_def)
  show "\<exists>d w'. km_batch_get (object_keymap ob) ks w = (Inr d, w') \<and> inv w' \<and> holds w' = holds w
      \<and> dict_ok d \<and> (\<forall>k. dget d k = (if k \<in> set ks then holds w k else None))"
    using batch_get_run [OF inv, of ks] tidied_inv [OF _ inv] tidied_holds by (auto simp: object_keymap_def)
  show "\<exists>w'. km_exists (object_keymap ob) k w = (Inr (holds w k \<noteq> None), w') \<and> inv w' \<and> holds w' = holds w"
    using exists_reads inv tidied_inv [OF _ inv] tidied_holds unfolding reads_def by (simp add: object_keymap_def) blast
  show "\<exists>w'. km_batch_exists (object_keymap ob) ks w = (Inr {k \<in> set ks. holds w k \<noteq> None}, w') \<and> inv w' \<and> holds w' = holds w"
    using batch_exists_run [OF inv, of ks] tidied_inv [OF _ inv] tidied_holds by (auto simp: object_keymap_def)
  show "\<exists>d w'. km_batch_stat (object_keymap ob) ks w = (Inr d, w') \<and> inv w' \<and> holds w' = holds w"
  proof (cases "ks = []")
    case False
    from reads_batches [where gather = put_found, OF stat_reads inv put_found_append put_found_Nil, of ks "[]"] tidied_inv [OF _ inv] tidied_holds
    show ?thesis using False by (fastforce simp: object_keymap_def object_batch_stat_def)
  qed (simp add: object_keymap_def object_batch_stat_def inv)
qed

section \<open>Writing\<close>

context object_records
begin

text \<open>The headers of a write that the source of expiry takes.\<close>

definition takes :: "ttl_policy option \<Rightarrow> time option \<Rightarrow> bool" where
  "takes ttl clock \<longleftrightarrow> (ttl = None \<or> supports_per_write_ttl (ob_ttl_source ob)) \<and> (clock = None \<or> source_supports_write_clock (ob_ttl_source ob))"

definition headers_of :: "time \<Rightarrow> ttl_policy option \<Rightarrow> time option \<Rightarrow> headers option" where
  "headers_of t ttl clock = (let hs = write_headers (ob_ttl_source ob) (resolve_ttl_seconds (ob_backend ob) ttl)
     (object_clock_base clock t) (ttl \<noteq> None) (clock \<noteq> None) in if hs = [] then None else Some hs)"

lemma headers_run: "takes ttl clock \<Longrightarrow> object_write_headers ob ttl clock w = (Inr (headers_of (now w) ttl clock), w)"
  by (auto simp: takes_def object_write_headers_def headers_of_def Let_def require_explicit_ttl_supported_def require_write_clock_supported_def)

lemma headers_refused:
  "\<not> takes ttl clock \<Longrightarrow> object_write_headers ob ttl clock w = (Inl TtlUnsupported, w)"
  by (auto simp: takes_def object_write_headers_def require_explicit_ttl_supported_def require_write_clock_supported_def)

lemma headers_fit: "fits (headers_of t ttl clock)"
  unfolding headers_of_def Let_def by (rule headers_law) (rule refl)

text \<open>What is stored of a write: the value, and the metadata stamped by its headers.\<close>

definition stamped :: "time \<Rightarrow> ttl_policy option \<Rightarrow> time option \<Rightarrow> blob_stat \<Rightarrow> bool" where
  "stamped t ttl clock s \<longleftrightarrow> bs_modified_at s = Some (fst (stamp (headers_of t ttl clock) t))
     \<and> bs_native_expires_at s = snd (stamp (headers_of t ttl clock) t)"

text \<open>An object written so, at time \<open>t\<close>, is live at time \<open>t'\<close>.\<close>

definition lives :: "time \<Rightarrow> time \<Rightarrow> ttl_policy option \<Rightarrow> time option \<Rightarrow> bool" where
  "lives t t' ttl clock \<longleftrightarrow> \<not> is_expired (ob_ttl_source ob) t' \<lparr>bs_key = [], bs_modified_at = Some (fst (stamp (headers_of t ttl clock) t)),
     bs_native_expires_at = snd (stamp (headers_of t ttl clock) t), bs_size = None, bs_etag = None, bs_version = None\<rparr> (object_ttl ob)"

lemma expired_by_times:
  "bs_modified_at s = bs_modified_at s' \<Longrightarrow> bs_native_expires_at s = bs_native_expires_at s'
   \<Longrightarrow> is_expired src t s ttl = is_expired src t s' ttl"
  by (cases src) (simp_all add: expired_by_object_time_def expired_natively_def cong: option.case_cong)

lemma stamped_expired: "stamped t ttl clock s \<Longrightarrow> is_expired (ob_ttl_source ob) t' s (object_ttl ob) \<longleftrightarrow> \<not> lives t t' ttl clock"
  unfolding lives_def by (subst expired_by_times [of s]) (simp_all add: stamped_def)

definition taken_live :: "'w \<Rightarrow> ttl_policy option \<Rightarrow> time option \<Rightarrow> bool" where
  "taken_live w ttl clock \<longleftrightarrow> takes ttl clock \<and> lives (now w) (now w) ttl clock"

text \<open>The object of a key replaced: every other key's is as it was.\<close>

lemma at_update:
  assumes "encode_physical (ob_key_codec ob) k = Inr p" "objs w' = (objs w)(p := x)"
  shows "at w' = (at w)(k := x)"
proof (rule ext)
  fix j
  from key_law [of j] obtain q where q: "encode_physical (ob_key_codec ob) j = Inr q" by blast
  have "q = p \<longleftrightarrow> j = k" using key_inj [OF assms(1), of j] assms(1) q by (metis sum.inject(2))
  then show "at w' j = ((at w)(k := x)) j" by (simp add: object_at_def q assms(2))
qed

lemma put_held:
  assumes "inv w" "at w' = (at w)(k \<mapsto> (b, s))" "minv w'" "now w' = now w" "stamped (now w) ttl clock s"
    and "ks_value_deserialize (be_kvset (ob_backend ob)) b = Some v"
  shows "inv w'" "holds w' = (holds w)(k := if lives (now w) (now w) ttl clock then Some v else None)"
proof -
  show "inv w'" using assms by (auto simp: object_inv_def)
  show "holds w' = (holds w)(k := if lives (now w) (now w) ttl clock then Some v else None)"
    using stamped_expired [OF assms(5)] assms(6)
    by (intro ext) (simp add: object_holds_def assms(2,4) stale_def)
qed

lemma blob_run: "ks_value_serialize (be_kvset (ob_backend ob)) v = Some b \<Longrightarrow> object_blob ob v w = (Inr b, w)"
  by (simp add: object_blob_def serde_result_def liftP_def)

lemma set_step:
  assumes "inv w" "takes (wo_ttl opts) (wo_created_at opts)"
  shows "\<exists>b s w'. object_set ob k v opts w = (Inr (), w') \<and> inv w' \<and> now w' = now w \<and> at w' = (at w)(k \<mapsto> (b, s))
    \<and> stamped (now w) (wo_ttl opts) (wo_created_at opts) s \<and> ks_value_deserialize (be_kvset (ob_backend ob)) b = Some v
    \<and> holds w' = (holds w)(k := if lives (now w) (now w) (wo_ttl opts) (wo_created_at opts) then Some v else None)"
proof -
  from key_law [of k] obtain p where p: "encode_physical (ob_key_codec ob) k = Inr p" "good p" by blast
  from blob_law [of v] obtain b where b: "ks_value_serialize (be_kvset (ob_backend ob)) v = Some b"
    "ks_value_deserialize (be_kvset (ob_backend ob)) b = Some v" by blast
  have minv: "minv w" using assms(1) by (simp add: object_inv_def)
  from write_law [OF minv p(2) headers_fit, of b "now w" "wo_ttl opts" "wo_created_at opts"] obtain s w' where
    w': "dr_write dr p b (headers_of (now w) (wo_ttl opts) (wo_created_at opts)) w = (Inr (), w')" "minv w'" "now w' = now w"
      "objs w' = (objs w)(p \<mapsto> (b, s))" and s: "stamped (now w) (wo_ttl opts) (wo_created_at opts) s"
    by (auto simp: stamped_def)
  note at = at_update [OF p(1) w'(4)]
  have "object_set ob k v opts w = (Inr (), w')"
    by (simp add: object_set_def bindP_run key_run [OF p(1)] blob_run [OF b(1)] headers_run [OF assms(2)] w'(1))
  with at s b(2) w'(3) put_held [OF assms(1) at w'(2,3) s b(2)] show ?thesis by blast
qed

lemma delete_step:
  assumes "inv w"
  shows "\<exists>w'. object_delete ob k w = (Inr (at w k \<noteq> None), w') \<and> inv w' \<and> now w' = now w \<and> at w' = (at w)(k := None)
    \<and> holds w' = (holds w)(k := None)"
proof -
  from key_law [of k] obtain p where p: "encode_physical (ob_key_codec ob) k = Inr p" "good p" by blast
  have minv: "minv w" using assms by (simp add: object_inv_def)
  from delete_law [OF minv p(2)] obtain w' where
    w': "dr_delete dr p w = (Inr (objs w p \<noteq> None), w')" "minv w'" "now w' = now w" "objs w' = (objs w)(p := None)" by blast
  note at = at_update [OF p(1) w'(4)]
  have "object_delete ob k w = (Inr (at w k \<noteq> None), w')"
    by (simp add: object_delete_def bindP_run key_run [OF p(1)] w'(1) object_at_def p(1))
  moreover have "inv w'" using assms w'(2) at by (auto simp: object_inv_def)
  moreover have "holds w' = (holds w)(k := None)"
    using at w'(3) by (auto simp: object_holds_def fun_eq_iff stale_def)
  ultimately show ?thesis using at w'(3) by blast
qed

end

sublocale object_records \<subseteq> km: clearing_keymap "object_keymap ob" holds inv taken_live
proof unfold_locales
  fix w k v and opts :: write_options
  assume inv: "inv w"
  show "\<exists>w'. km_set (object_keymap ob) k v opts w = (Inr (), w') \<and> inv w' \<and> holds w' = (holds w)(k \<mapsto> v)"
    if "taken_live w (wo_ttl opts) (wo_created_at opts)"
    using set_step [OF inv, of opts k v] that by (auto simp: object_keymap_def taken_live_def)
  show "\<exists>b w'. km_delete (object_keymap ob) k w = (Inr b, w') \<and> inv w' \<and> holds w' = (holds w)(k := None) \<and> (holds w k \<noteq> None \<longrightarrow> b)"
    using delete_step [OF inv, of k] holds_live [OF inv, of k] by (auto simp: object_keymap_def)
  then show "\<exists>b w'. km_unset (object_keymap ob) k w = (Inr b, w') \<and> inv w' \<and> holds w' = (holds w)(k := None) \<and> (holds w k \<noteq> None \<longrightarrow> b)"
    by (simp add: object_keymap_def)
qed

end
