(* ===== verification/Fs_Laws.thy ===== *)
theory Fs_Laws
  imports Object_Laws
begin

text \<open>
  The filesystem driver keeps the contract of a medium, for the names of one directory that
  are neither \<open>.\<close> nor \<open>..\<close> and end neither in \<open>.tmp\<close> nor in \<open>.expires\<close>.
\<close>

section \<open>Paths in a directory\<close>

definition plain_component :: "string \<Rightarrow> bool" where
  "plain_component c \<longleftrightarrow> c \<noteq> [] \<and> c \<noteq> ''.'' \<and> CHR ''/'' \<notin> set c"

definition directory :: "path \<Rightarrow> bool" where
  "directory P \<longleftrightarrow> ''..'' \<notin> set P \<and> (\<exists>absolute cs. P = (if absolute then [''/''] else []) @ cs \<and> cs \<noteq> [] \<and> list_all plain_component cs)"

lemma py_join_plain_hd:
  "cs \<noteq> [] \<Longrightarrow> list_all plain_component cs \<Longrightarrow> \<exists>c s. py_join ''/'' cs = c # s \<and> c \<noteq> CHR ''/''"
  by (cases cs; cases "hd cs"; cases "tl cs") (auto simp: plain_component_def)

lemma as_posix_directory:
  assumes "cs \<noteq> []" "list_all plain_component cs"
  shows "as_posix ((if absolute then [''/''] else []) @ cs) = (if absolute then ''/'' else []) @ py_join ''/'' cs"
  using assms by (cases cs) (auto simp: as_posix_def plain_component_def)

lemma split_components:
  assumes "list_all plain_component cs"
  shows "filter (\<lambda>s. s \<noteq> [] \<and> s \<noteq> ''.'') (py_split ''/'' (py_join ''/'' (cs @ [n]))) = cs @ filter (\<lambda>s. s \<noteq> [] \<and> s \<noteq> ''.'') (py_split ''/'' n)"
proof -
  have "py_split ''/'' (py_join ''/'' (cs @ [n])) = cs @ py_split ''/'' n"
    using assms by (intro py_split_join) (auto simp: list_all_iff plain_component_def)
  then show ?thesis using assms by (auto simp: list_all_iff plain_component_def intro!: filter_True)
qed

lemma path_of_join:
  assumes "cs \<noteq> []" "list_all plain_component cs"
  shows "path_of ((if absolute then ''/'' else []) @ py_join ''/'' (cs @ [n]))
    = (if absolute then [''/''] else []) @ cs @ filter (\<lambda>s. s \<noteq> [] \<and> s \<noteq> ''.'') (py_split ''/'' n)"
proof (cases absolute)
  case True
  have "py_split ''/'' (CHR ''/'' # s) = [] # py_split ''/'' s" for s
    using py_split_cut [of "CHR ''/''" "[]" s] by simp
  with True split_components [OF assms(2), of n] show ?thesis by (simp add: path_of_def py_startswith_def)
next
  case False
  from py_join_plain_hd [OF assms] obtain c s where "py_join ''/'' cs = c # s" "c \<noteq> CHR ''/''" by blast
  then have "\<not> py_startswith (py_join ''/'' (cs @ [n])) ''/''"
    using py_join_append [OF assms(1), of "[n]" "''/''"] by (simp add: py_startswith_def)
  with False split_components [OF assms(2), of n] show ?thesis by (simp add: path_of_def)
qed

lemma path_in_directory:
  assumes "directory P" "plain_component n"
  shows "path_of (as_posix P @ ''/'' @ n) = P @ [n]" "as_posix (P @ [n]) = as_posix P @ ''/'' @ n"
    "path_of (as_posix P @ ''/'') = P"
proof -
  from assms(1) obtain absolute cs where P: "P = (if absolute then [''/''] else []) @ cs" "cs \<noteq> []" "list_all plain_component cs"
    unfolding directory_def by blast
  have join: "py_join ''/'' (cs @ [m]) = py_join ''/'' cs @ ''/'' @ m" for m
    using py_join_append [OF P(2), of "[m]" "''/''"] by simp
  note posix = as_posix_directory [OF P(2,3), of absolute, folded P(1)]
  show "path_of (as_posix P @ ''/'' @ n) = P @ [n]"
    using path_of_join [OF P(2,3), of absolute n] assms(2) unfolding posix join append_assoc
    by (simp add: P(1) plain_component_def)
  have "list_all plain_component (cs @ [n])" using P(3) assms(2) by simp
  from as_posix_directory [OF _ this, of absolute]
  show "as_posix (P @ [n]) = as_posix P @ ''/'' @ n" unfolding posix join append_assoc [symmetric] by (simp add: P(1) join)
  show "path_of (as_posix P @ ''/'') = P"
    using path_of_join [OF P(2,3), of absolute "[]"] unfolding posix join append_assoc by (simp add: P(1))
qed

lemma suffix_in_directory:
  assumes "directory P" "plain_component n" "CHR ''/'' \<notin> set ext"
  shows "with_suffix (P @ [n]) ext = P @ [n @ ext]"
proof -
  have "plain_component (n @ ext)"
    using assms(2,3) by (cases n; cases "tl n") (auto simp: plain_component_def)
  from path_in_directory(1) [OF assms(1) this] show ?thesis
    unfolding with_suffix_def path_in_directory(2) [OF assms(1,2)] by simp
qed

section \<open>Names\<close>

definition plain_name :: "string \<Rightarrow> bool" where
  "plain_name n \<longleftrightarrow> plain_component n \<and> n \<noteq> ''..'' \<and> \<not> endswith n ''.tmp'' \<and> \<not> endswith n ''.expires''"

definition in_dir :: "path \<Rightarrow> string \<Rightarrow> string" where
  "in_dir P n = as_posix P @ ''/'' @ n"

lemma in_dir_inj [simp]: "in_dir P m = in_dir P n \<longleftrightarrow> m = n"
  by (simp add: in_dir_def)

definition names_in :: "path \<Rightarrow> string \<Rightarrow> bool" where
  "names_in P key \<longleftrightarrow> (\<exists>n. key = in_dir P n \<and> plain_name n)"

definition fs_objects :: "path \<Rightarrow> fs \<Rightarrow> string \<Rightarrow> (string \<times> blob_stat) option" where
  "fs_objects P w key = (if names_in P key then case dget (fs_files w) (path_of key) of None \<Rightarrow> None
     | Some f \<Rightarrow> map_option (Pair (fl_data f)) (stat_for_path (path_of key) key w) else None)"

text \<open>The directory is there, nothing in it is a directory, and nothing above it is a file.\<close>

definition fs_inv :: "path \<Rightarrow> fs \<Rightarrow> bool" where
  "fs_inv P w \<longleftrightarrow> set (ancestors P) \<subseteq> fs_dirs w \<and> (\<forall>q \<in> set (ancestors P). \<not> is_file q w)
     \<and> (\<forall>n. P @ [n] \<notin> fs_dirs w) \<and> dict_ok (fs_files w)"

text \<open>Headers that say what becomes of the sidecar.\<close>

definition fs_fits :: "headers option \<Rightarrow> bool" where
  "fs_fits hs \<longleftrightarrow> (\<exists>d h. hs = Some d \<and> dget d ''expires_sidecar'' = Some h)"

definition fs_stamp :: "headers option \<Rightarrow> time \<Rightarrow> time \<times> time option" where
  "fs_stamp hs now =
     (case Option.bind hs (\<lambda>d. dget d ''mtime'') of Some (HeaderTime t) \<Rightarrow> t | _ \<Rightarrow> now,
      case Option.bind hs (\<lambda>d. dget d ''expires_sidecar'') of
        Some (HeaderText token) \<Rightarrow> Some (case token of None \<Rightarrow> ttl_none_expires_at | Some t \<Rightarrow> t)
      | _ \<Rightarrow> None)"

lemma self_ancestor [simp]: "P \<in> set (ancestors P)"
  by (induction P) auto

lemma endswith_append: "endswith (s @ t) t"
  by (simp add: endswith_def py_startswith_def)

lemma endswith_iff: "endswith s t \<longleftrightarrow> (\<exists>u. s = u @ t)"
proof
  assume "endswith s t"
  then have "take (length t) (rev s) = rev t" by (simp add: endswith_def py_startswith_def)
  then have "rev s = rev t @ drop (length t) (rev s)" by (metis append_take_drop_id)
  then have "s = rev (drop (length t) (rev s)) @ t" by (metis rev_append rev_rev_ident)
  then show "\<exists>u. s = u @ t" by blast
qed (auto simp: endswith_append)

text \<open>The text of a time reads back as the time.\<close>

lemma digit_value: "d < 10 \<Longrightarrow> (of_char (char_of (48 + d) :: char) :: int) = 48 + int d" for d :: nat
proof -
  assume d: "d < 10"
  have "(of_char (char_of (48 + d) :: char) :: int) = of_nat (of_char (char_of (48 + d) :: char))"
    by (rule of_nat_of_char [symmetric])
  also have "\<dots> = 48 + int d" using d by (simp only: of_char_of) simp
  finally show ?thesis .
qed

lemma nat_string_value: "fold (\<lambda>c m. 10 * m + (of_char c - 48)) (nat_string n) (0 :: int) = int n"
proof (induction n rule: nat_string.induct)
  case (1 n)
  show ?case
  proof (cases "n < 10")
    case True
    then show ?thesis by (subst nat_string.simps) (simp add: digit_value)
  next
    case False
    have "int n = int (10 * (n div 10) + n mod 10)" by (simp only: mult_div_mod_eq)
    also have "\<dots> = 10 * int (n div 10) + int (n mod 10)" by (simp only: of_nat_add of_nat_mult of_nat_numeral)
    finally have "int n = 10 * int (n div 10) + int (n mod 10)" .
    with 1 False show ?thesis by (subst nat_string.simps) (simp add: digit_value del: of_nat_mod of_nat_div)
  qed
qed

lemma digit_range: "c \<in> set (nat_string n) \<Longrightarrow> 48 \<le> (of_char c :: nat) \<and> (of_char c :: nat) \<le> 57"
  by (drule nat_string_digits) auto

lemma text_time_token: "text_time (token_text (Some t)) = t"
proof -
  have digits: "\<not> list_ex (\<lambda>c. of_char c < (48 :: nat) \<or> of_char c > (57 :: nat)) (nat_string n)" for n
    using digit_range [of _ n] by (auto simp: list_ex_iff not_less)
  show ?thesis
  proof (cases "t < 0")
    case True
    then show ?thesis by (simp add: text_time_def token_text_def digits nat_string_value)
  next
    case False
    obtain c cs where c: "nat_string (nat t) = c # cs" by (cases "nat_string (nat t)") auto
    then have "c \<noteq> CHR ''-''" using digit_range [of c "nat t"] by auto
    with False c digits [of "nat t"] nat_string_value [of "nat t"] show ?thesis
      by (simp add: text_time_def token_text_def)
  qed
qed

lemma py_lstrip_id:
  assumes "\<And>p. p \<in> set spaces \<Longrightarrow> p = [] \<or> hd p \<noteq> hd s" "s \<noteq> []"
  shows "py_lstrip spaces s = s"
proof -
  have "find (\<lambda>p. p \<noteq> [] \<and> py_startswith s p) spaces = None"
    unfolding find_None_iff
  proof
    assume "\<exists>p. p \<in> set spaces \<and> p \<noteq> [] \<and> py_startswith s p"
    then obtain p where p: "p \<in> set spaces" "p \<noteq> []" "take (length p) s = p" by (auto simp: py_startswith_def)
    then have "hd p = hd (take (length p) s)" by simp
    also have "\<dots> = hd s" using p(2) assms(2) by (cases p; cases s) auto
    finally have "hd p = hd s" .
    with assms(1) [OF p(1)] p(2) show False by blast
  qed
  then show ?thesis by (subst py_lstrip.simps) simp
qed

text \<open>The first and the last byte of a white space are none of a token's.\<close>

definition token_char :: "char \<Rightarrow> bool" where
  "token_char c \<longleftrightarrow> c = CHR ''-'' \<or> c = CHR ''n'' \<or> c = CHR ''e'' \<or> 48 \<le> (of_char c :: nat) \<and> (of_char c :: nat) \<le> 57"

lemma whitespace_no_token: "list_all (\<lambda>p. p \<noteq> [] \<and> \<not> token_char (hd p) \<and> \<not> token_char (last p)) py_whitespace"
  by code_simp

lemma py_strip_token:
  assumes "s \<noteq> []" "token_char (hd s)" "token_char (last s)"
  shows "py_strip s = s"
proof -
  have "py_lstrip py_whitespace s = s"
    using whitespace_no_token assms by (intro py_lstrip_id) (auto simp: list_all_iff)
  moreover have "py_lstrip (map rev py_whitespace) (rev s) = rev s"
    using whitespace_no_token assms by (intro py_lstrip_id) (auto simp: list_all_iff hd_rev)
  ultimately show ?thesis by (simp add: py_strip_def)
qed

lemma token_reads_back:
  "py_strip (token_text token) = token_text token"
  "(if token_text token = ''none'' then ttl_none_expires_at else text_time (token_text token))
     = (case token of None \<Rightarrow> ttl_none_expires_at | Some t \<Rightarrow> t)"
proof -
  have digits: "token_char c" if "c \<in> set (nat_string n)" for c n
    using digit_range [OF that] by (simp add: token_char_def)
  have ends: "token_char (hd (nat_string n))" "token_char (last (nat_string n))" for n
    by (rule digits [of _ n]; simp)+
  show "py_strip (token_text token) = token_text token"
    by (rule py_strip_token; cases token) (simp_all add: token_text_def ends, simp_all add: token_char_def)
  have "token_text (Some t) \<noteq> ''none''" for t
  proof
    assume "token_text (Some t) = ''none''"
    then have "last (nat_string (nat \<bar>t\<bar>)) = CHR ''e''" by (auto simp: token_text_def split: if_splits)
    with last_in_set [OF nat_string_nonempty, of "nat \<bar>t\<bar>"] have "CHR ''e'' \<in> set (nat_string (nat \<bar>t\<bar>))" by simp
    from digit_range [OF this] show False by simp
  qed
  then show "(if token_text token = ''none'' then ttl_none_expires_at else text_time (token_text token))
     = (case token of None \<Rightarrow> ttl_none_expires_at | Some t \<Rightarrow> t)"
    by (cases token) (simp_all add: text_time_token, simp add: token_text_def)
qed

section \<open>The driver's steps\<close>

text \<open>What a file is beside the others of its directory.\<close>

lemma good_parts:
  assumes "directory P" "plain_name n"
  shows "path_of (in_dir P n) = P @ [n]" "parent (P @ [n]) = P"
    "expires_sidecar (P @ [n]) = P @ [n @ ''.expires'']" "with_suffix (P @ [n]) ''.tmp'' = P @ [n @ ''.tmp'']"
    "names_in P (in_dir P n)"
proof -
  have c: "plain_component n" using assms(2) by (simp add: plain_name_def)
  show "path_of (in_dir P n) = P @ [n]" unfolding in_dir_def by (rule path_in_directory(1) [OF assms(1) c])
  show "parent (P @ [n]) = P" using assms(1) by (auto simp: parent_def directory_def)
  show "expires_sidecar (P @ [n]) = P @ [n @ ''.expires'']" unfolding expires_sidecar_def
    by (rule suffix_in_directory [OF assms(1) c]) simp
  show "with_suffix (P @ [n]) ''.tmp'' = P @ [n @ ''.tmp'']" by (rule suffix_in_directory [OF assms(1) c]) simp
  show "names_in P (in_dir P n)" using assms(2) by (auto simp: names_in_def)
qed

lemma not_suffixed: "plain_name n \<Longrightarrow> n \<noteq> m @ ''.tmp'' \<and> n \<noteq> m @ ''.expires'' \<and> n @ ''.expires'' \<noteq> m @ ''.tmp''"
proof (intro conjI notI)
  assume "n @ ''.expires'' = m @ ''.tmp''"
  then have "last (n @ ''.expires'') = last (m @ ''.tmp'')" by (rule arg_cong)
  then show False by simp
qed (auto simp: plain_name_def endswith_iff)

text \<open>What the file system holds of an object: its file and its sidecar.\<close>

definition held_in :: "path \<Rightarrow> (path, file_entry) dict \<Rightarrow> string \<Rightarrow> (file_entry \<times> time option) option" where
  "held_in P files n = map_option (\<lambda>f. (f, map_option (\<lambda>e. let token = py_strip (fl_data e) in
      if token = ''none'' then ttl_none_expires_at else text_time token) (dget files (P @ [n @ ''.expires''])))) (dget files (P @ [n]))"

definition object_of :: "path \<Rightarrow> string \<Rightarrow> file_entry \<times> time option \<Rightarrow> string \<times> blob_stat" where
  "object_of P n = (\<lambda>(f, e). (fl_data f, \<lparr>bs_key = in_dir P n, bs_modified_at = Some (fl_mtime f), bs_native_expires_at = e,
     bs_size = Some (int (length (fl_data f))), bs_etag = None, bs_version = Some (fl_inode f)\<rparr>))"

lemma fs_objects_held:
  assumes "directory P" "plain_name n"
  shows "fs_objects P w (in_dir P n) = map_option (object_of P n) (held_in P (fs_files w) n)"
  using good_parts [OF assms]
  by (auto simp: fs_objects_def stat_for_path_def held_in_def object_of_def native_expires_def Let_def split: option.splits)

lemma fs_objects_other: "\<not> names_in P key \<Longrightarrow> fs_objects P w key = None"
  by (simp add: fs_objects_def)

text \<open>A step that changes one name leaves the other objects.\<close>

lemma fs_objects_step:
  assumes "directory P" "plain_name n" "held_in P (fs_files w') n = x"
    and "\<And>m. plain_name m \<Longrightarrow> m \<noteq> n \<Longrightarrow> held_in P (fs_files w') m = held_in P (fs_files w) m"
  shows "fs_objects P w' = (fs_objects P w)(in_dir P n := map_option (object_of P n) x)"
proof (rule ext)
  fix key
  show "fs_objects P w' key = ((fs_objects P w)(in_dir P n := map_option (object_of P n) x)) key"
  proof (cases "names_in P key")
    case True
    then obtain m where m: "key = in_dir P m" "plain_name m" by (auto simp: names_in_def)
    with assms(3,4) show ?thesis by (cases "m = n") (simp_all add: fs_objects_held [OF assms(1)] assms(2))
  next
    case False
    with good_parts(5) [OF assms(1,2)] show ?thesis by (auto simp: fs_objects_other)
  qed
qed

text \<open>System calls on the files of the directory.\<close>

definition local_change :: "path \<Rightarrow> fs \<Rightarrow> fs \<Rightarrow> bool" where
  "local_change P w w' \<longleftrightarrow> fs_dirs w' = fs_dirs w \<and> fs_now w' = fs_now w \<and> dict_ok (fs_files w')
     \<and> (\<forall>q. length q \<le> length P \<longrightarrow> dget (fs_files w') q = dget (fs_files w) q)"

lemma local_change_trans: "local_change P w w1 \<Longrightarrow> local_change P w1 w2 \<Longrightarrow> local_change P w w2"
  by (simp add: local_change_def)

lemma ancestors_shorter: "q \<in> set (ancestors P) \<Longrightarrow> length q \<le> length P"
  by (induction P arbitrary: q) auto

lemma local_change_inv: "fs_inv P w \<Longrightarrow> local_change P w w' \<Longrightarrow> fs_inv P w'"
  using ancestors_shorter [of _ P] by (simp add: fs_inv_def local_change_def is_file_def)

lemma mkdir_run: "fs_inv P w \<Longrightarrow> mkdir_parents P w = (Inr (), w)"
  by (auto simp: mkdir_parents_def fs_inv_def list_ex_iff Un_absorb2)

lemma there: "fs_inv P w \<Longrightarrow> P \<in> fs_dirs w"
  using self_ancestor [of P] by (auto simp: fs_inv_def)

lemma parent_child: "directory P \<Longrightarrow> parent (P @ [n]) = P"
  by (auto simp: parent_def directory_def)

lemma write_bytes_run:
  assumes P: "directory P" and w: "fs_inv P w"
  shows "\<exists>f w'. write_bytes (P @ [n]) data w = (Inr (), w') \<and> local_change P w w'
    \<and> dget (fs_files w') = (dget (fs_files w))(P @ [n] \<mapsto> f) \<and> fl_data f = data \<and> fl_mtime f = fs_now w"
  using assms there [OF w]
  by (auto simp: parent_child [OF P] write_bytes_def fs_inv_def is_dir_def local_change_def Let_def)

lemma replace_run:
  assumes P: "directory P" and w: "fs_inv P w" and x: "dget (fs_files w) (P @ [m]) = Some f"
  shows "\<exists>w'. os_replace (P @ [m]) (P @ [n]) w = (Inr (), w') \<and> local_change P w w'
    \<and> dget (fs_files w') = (dget (fs_files w))(P @ [m] := None, P @ [n] \<mapsto> f)"
  using assms there [OF w]
  by (auto simp: parent_child [OF P] os_replace_def fs_inv_def is_dir_def local_change_def)

lemma link_run:
  assumes P: "directory P" and w: "fs_inv P w" and x: "dget (fs_files w) (P @ [m]) = Some f"
  shows "\<exists>w'. os_link (P @ [m]) (P @ [n]) w = (Inr (dget (fs_files w) (P @ [n]) = None), w') \<and> local_change P w w'
    \<and> dget (fs_files w') = (if dget (fs_files w) (P @ [n]) = None then (dget (fs_files w))(P @ [n] \<mapsto> f) else dget (fs_files w))"
  using assms there [OF w]
  by (auto simp: parent_child [OF P] os_link_def fs_inv_def is_dir_def is_file_def local_change_def)

lemma unlink_run:
  assumes P: "directory P" and w: "fs_inv P w"
  shows "\<exists>w'. unlink (P @ [n]) w = (Inr (), w') \<and> local_change P w w' \<and> dget (fs_files w') = (dget (fs_files w))(P @ [n] := None)"
  using assms by (auto simp: unlink_def fs_inv_def is_dir_def local_change_def)

lemma apply_mtime_run:
  assumes P: "directory P" and w: "fs_inv P w" and x: "dget (fs_files w) (P @ [n]) = Some f"
  shows "\<exists>f' w'. apply_mtime (P @ [n]) hs w = (Inr (), w') \<and> local_change P w w'
    \<and> dget (fs_files w') = (dget (fs_files w))(P @ [n] \<mapsto> f') \<and> fl_data f' = fl_data f \<and> fl_mtime f' = fst (fs_stamp hs (fl_mtime f))"
proof (cases "Option.bind hs (\<lambda>d. dget d ''mtime'')")
  case None
  have "local_change P w w" using w by (simp add: local_change_def fs_inv_def)
  with None assms show ?thesis by (intro exI [of _ f] exI [of _ w]) (auto simp: apply_mtime_def fs_stamp_def)
next
  case (Some h)
  have same: "local_change P w w" using w by (simp add: local_change_def fs_inv_def)
  show ?thesis
  proof (cases h)
    case (HeaderTime t)
    have "local_change P w (w\<lparr>fs_files := dput (P @ [n]) (f\<lparr>fl_mtime := t\<rparr>) (fs_files w)\<rparr>)"
      using w by (auto simp: local_change_def fs_inv_def)
    with Some HeaderTime assms show ?thesis
      by (intro exI [of _ "f\<lparr>fl_mtime := t\<rparr>"]) (auto simp: apply_mtime_def fs_stamp_def os_utime_def)
  qed (use Some assms same in \<open>(intro exI [of _ f] exI [of _ w], auto simp: apply_mtime_def fs_stamp_def)+\<close>)
qed

definition sidecar_entry :: "headers option \<Rightarrow> file_entry option \<Rightarrow> bool" where
  "sidecar_entry hs e \<longleftrightarrow> map_option (\<lambda>f. let token = py_strip (fl_data f) in
     if token = ''none'' then ttl_none_expires_at else text_time token) e = snd (fs_stamp hs 0)"

lemma apply_sidecar_run:
  assumes P: "directory P" and w: "fs_inv P w" and x: "fs_fits hs" "plain_name n"
  shows "\<exists>e w'. apply_sidecar (P @ [n]) hs w = (Inr (), w') \<and> local_change P w w'
    \<and> dget (fs_files w') = (dget (fs_files w))(P @ [n @ ''.expires''] := e) \<and> sidecar_entry hs e"
proof -
  from x(1) obtain d h where h: "hs = Some d" "dget d ''expires_sidecar'' = Some h" by (auto simp: fs_fits_def)
  note side = good_parts(3) [OF P x(2)]
  from unlink_run [OF P w, of "n @ ''.expires''"] obtain w' where
    gone: "unlink (P @ [n @ ''.expires'']) w = (Inr (), w')" "local_change P w w'"
      "dget (fs_files w') = (dget (fs_files w))(P @ [n @ ''.expires''] := None)" by blast
  show ?thesis
  proof (cases h)
    case (HeaderText token)
    from write_bytes_run [OF P w, of "n @ ''.expires''" "token_text token"] obtain f w' where
      "write_bytes (P @ [n @ ''.expires'']) (token_text token) w = (Inr (), w')" "local_change P w w'"
      "dget (fs_files w') = (dget (fs_files w))(P @ [n @ ''.expires''] \<mapsto> f)" "fl_data f = token_text token" by blast
    with h HeaderText token_reads_back [of token] show ?thesis
      by (intro exI [of _ "Some f"]) (auto simp: apply_sidecar_def side sidecar_entry_def fs_stamp_def Let_def)
  qed (use h gone in \<open>(intro exI [of _ None], auto simp: apply_sidecar_def side sidecar_entry_def fs_stamp_def)+\<close>)
qed

text \<open>What a name holds after a write: the value, under the time and the expiry of its headers.\<close>

definition written_as :: "string \<Rightarrow> headers option \<Rightarrow> time \<Rightarrow> file_entry \<times> time option \<Rightarrow> bool" where
  "written_as data hs t = (\<lambda>(f, e). fl_data f = data \<and> fl_mtime f = fst (fs_stamp hs t) \<and> e = snd (fs_stamp hs t))"

lemma stamp_expiry: "snd (fs_stamp hs t) = snd (fs_stamp hs 0)"
  by (simp add: fs_stamp_def)

lemma tmp_apart: "endswith t ''.tmp'' \<Longrightarrow> plain_name m \<Longrightarrow> t \<noteq> m \<and> t \<noteq> m @ ''.expires''"
  using not_suffixed [of m] by (auto simp: endswith_iff)

lemma held_upd:
  assumes "plain_name n" "dget files' = (dget files)(P @ [t'] := x, P @ [n] := Some f, P @ [n @ ''.expires''] := e)" "endswith t' ''.tmp''"
    and "sidecar_entry hs e" "fl_data f = data" "fl_mtime f = fst (fs_stamp hs t)"
  shows "\<exists>h. held_in P files' n = Some h \<and> written_as data hs t h"
    and "\<And>m. plain_name m \<Longrightarrow> m \<noteq> n \<Longrightarrow> held_in P files' m = held_in P files m"
proof -
  show "\<exists>h. held_in P files' n = Some h \<and> written_as data hs t h"
    using assms(4-6) not_suffixed [OF assms(1)] tmp_apart [OF assms(3,1)] unfolding held_in_def assms(2)
    by (auto simp: written_as_def sidecar_entry_def stamp_expiry [of hs t])
  show "held_in P files' m = held_in P files m" if "plain_name m" "m \<noteq> n" for m
    using that not_suffixed [OF that(1)] not_suffixed [OF assms(1)] tmp_apart [OF assms(3) that(1)]
    unfolding held_in_def assms(2) by auto
qed

lemma held_same:
  assumes "dget files' = (dget files)(P @ [t'] := x)" "endswith t' ''.tmp''" "plain_name m"
  shows "held_in P files' m = held_in P files m"
  using tmp_apart [OF assms(2,3)] by (auto simp: held_in_def assms(1))

lemma written_object:
  assumes "directory P" "plain_name n" "held_in P (fs_files w') n = Some h" "written_as data hs t h"
    and "\<And>m. plain_name m \<Longrightarrow> m \<noteq> n \<Longrightarrow> held_in P (fs_files w') m = held_in P (fs_files w) m"
  shows "\<exists>st. fs_objects P w' = (fs_objects P w)(in_dir P n \<mapsto> (data, st))
    \<and> (bs_modified_at st, bs_native_expires_at st) = (Some (fst (fs_stamp hs t)), snd (fs_stamp hs t))"
proof -
  obtain f e where h: "h = (f, e)" by (cases h)
  from fs_objects_step [OF assms(1-3,5)] have "fs_objects P w' = (fs_objects P w)(in_dir P n := Some (object_of P n h))" by simp
  with assms(4) show ?thesis unfolding h by (auto simp: object_of_def written_as_def)
qed

lemma fs_write_law:
  assumes P: "directory P" and n: "plain_name n" and w: "fs_inv P w" and hs: "fs_fits hs"
  shows "\<exists>st w'. fs_write (in_dir P n) data hs w = (Inr (), w') \<and> fs_inv P w' \<and> fs_now w' = fs_now w
    \<and> fs_objects P w' = (fs_objects P w)(in_dir P n \<mapsto> (data, st))
    \<and> (bs_modified_at st, bs_native_expires_at st) = (Some (fst (fs_stamp hs (fs_now w))), snd (fs_stamp hs (fs_now w)))"
proof -
  note parts = good_parts [OF P n]
  from write_bytes_run [OF P w, of "n @ ''.tmp''" data] obtain f w1 where
    w1: "write_bytes (P @ [n @ ''.tmp'']) data w = (Inr (), w1)" "local_change P w w1"
      "dget (fs_files w1) = (dget (fs_files w))(P @ [n @ ''.tmp''] \<mapsto> f)" "fl_data f = data" "fl_mtime f = fs_now w" by blast
  note i1 = local_change_inv [OF w w1(2)]
  from replace_run [OF P i1, of "n @ ''.tmp''" f n] w1(3) obtain w2 where
    w2: "os_replace (P @ [n @ ''.tmp'']) (P @ [n]) w1 = (Inr (), w2)" "local_change P w1 w2"
      "dget (fs_files w2) = (dget (fs_files w1))(P @ [n @ ''.tmp''] := None, P @ [n] \<mapsto> f)" by auto
  note i2 = local_change_inv [OF i1 w2(2)]
  from apply_mtime_run [OF P i2, of n f hs] w2(3) obtain f' w3 where
    w3: "apply_mtime (P @ [n]) hs w2 = (Inr (), w3)" "local_change P w2 w3"
      "dget (fs_files w3) = (dget (fs_files w2))(P @ [n] \<mapsto> f')" "fl_data f' = data" "fl_mtime f' = fst (fs_stamp hs (fs_now w))"
    using w1(4,5) by auto
  note i3 = local_change_inv [OF i2 w3(2)]
  from apply_sidecar_run [OF P i3 hs n] obtain e w4 where
    w4: "apply_sidecar (P @ [n]) hs w3 = (Inr (), w4)" "local_change P w3 w4"
      "dget (fs_files w4) = (dget (fs_files w3))(P @ [n @ ''.expires''] := e)" "sidecar_entry hs e" by blast
  note change = local_change_trans [OF local_change_trans [OF local_change_trans [OF w1(2) w2(2)] w3(2)] w4(2)]
  have "dget (fs_files w4) = (dget (fs_files w))(P @ [n @ ''.tmp''] := None, P @ [n] := Some f', P @ [n @ ''.expires''] := e)"
    unfolding w4(3) w3(3) w2(3) w1(3) by (auto simp: fun_eq_iff)
  note held = held_upd [OF n this endswith_append w4(4) w3(4,5)]
  from held(1) obtain h where h: "held_in P (fs_files w4) n = Some h" "written_as data hs (fs_now w) h" by blast
  have "fs_write (in_dir P n) data hs w = (Inr (), w4)"
    by (simp add: fs_write_def write_atomic_def apply_write_headers_def Let_def parts(1,2,4) thenP_run mkdir_run [OF w] w1(1) w2(1) w3(1) w4(1))
  with written_object [OF P n h held(2)] local_change_inv [OF w change] change show ?thesis
    unfolding local_change_def by blast
qed

lemma fs_delete_law:
  assumes P: "directory P" and n: "plain_name n" and w: "fs_inv P w"
  shows "\<exists>w'. fs_delete (in_dir P n) w = (Inr (fs_objects P w (in_dir P n) \<noteq> None), w') \<and> fs_inv P w' \<and> fs_now w' = fs_now w
    \<and> fs_objects P w' = (fs_objects P w)(in_dir P n := None)"
proof -
  note parts = good_parts [OF P n]
  from unlink_run [OF P w, of n] obtain w1 where
    w1: "unlink (P @ [n]) w = (Inr (), w1)" "local_change P w w1" "dget (fs_files w1) = (dget (fs_files w))(P @ [n] := None)" by blast
  note i1 = local_change_inv [OF w w1(2)]
  from unlink_run [OF P i1, of "n @ ''.expires''"] obtain w2 where
    w2: "unlink (P @ [n @ ''.expires'']) w1 = (Inr (), w2)" "local_change P w1 w2"
      "dget (fs_files w2) = (dget (fs_files w1))(P @ [n @ ''.expires''] := None)" by blast
  have "held_in P (fs_files w2) n = None" using w1(3) w2(3) by (simp add: held_in_def)
  moreover have "held_in P (fs_files w2) m = held_in P (fs_files w) m" if "plain_name m" "m \<noteq> n" for m
    using that not_suffixed [OF that(1)] not_suffixed [OF n] unfolding held_in_def w2(3) w1(3) by auto
  ultimately have "fs_objects P w2 = (fs_objects P w)(in_dir P n := None)"
    using fs_objects_step [OF P n, of w2 None w] by simp
  moreover have "fs_delete (in_dir P n) w = (Inr (fs_objects P w (in_dir P n) \<noteq> None), w2)"
    by (simp add: fs_delete_def delete_with_sidecar_def thenP_run mapP_run parts(1,3) w1(1) w2(1) is_file_def fs_objects_held [OF P n] held_in_def)
  ultimately show ?thesis using local_change_inv [OF i1 w2(2)] w1(2) w2(2) by (auto simp: local_change_def)
qed

text \<open>The body is written beside the file and linked in where no file is.\<close>

lemma link_in:
  assumes P: "directory P" and w: "fs_inv P w" and t: "t \<noteq> n"
  shows "\<exists>f w'. finallyP (thenP (write_bytes (P @ [t]) data) (thenP (apply_mtime (P @ [t]) hs) (os_link (P @ [t]) (P @ [n])))) (unlink (P @ [t])) w
      = (Inr (dget (fs_files w) (P @ [n]) = None), w') \<and> local_change P w w'
    \<and> dget (fs_files w') = (if dget (fs_files w) (P @ [n]) = None then (dget (fs_files w))(P @ [t] := None, P @ [n] \<mapsto> f)
        else (dget (fs_files w))(P @ [t] := None))
    \<and> fl_data f = data \<and> fl_mtime f = fst (fs_stamp hs (fs_now w))"
proof -
  from write_bytes_run [OF P w, of t data] obtain f w1 where
    w1: "write_bytes (P @ [t]) data w = (Inr (), w1)" "local_change P w w1"
      "dget (fs_files w1) = (dget (fs_files w))(P @ [t] \<mapsto> f)" "fl_data f = data" "fl_mtime f = fs_now w" by blast
  note i1 = local_change_inv [OF w w1(2)]
  from apply_mtime_run [OF P i1, of t f hs] w1(3) obtain f' w2 where
    w2: "apply_mtime (P @ [t]) hs w1 = (Inr (), w2)" "local_change P w1 w2"
      "dget (fs_files w2) = (dget (fs_files w1))(P @ [t] \<mapsto> f')" "fl_data f' = data" "fl_mtime f' = fst (fs_stamp hs (fs_now w))"
    using w1(4,5) by auto
  note i2 = local_change_inv [OF i1 w2(2)]
  have f2: "dget (fs_files w2) (P @ [t]) = Some f'" "dget (fs_files w2) (P @ [n]) = dget (fs_files w) (P @ [n])"
    using t by (simp_all add: w2(3) w1(3))
  from link_run [OF P i2 f2(1), of n, unfolded f2(2)] obtain w3 where
    w3: "os_link (P @ [t]) (P @ [n]) w2 = (Inr (dget (fs_files w) (P @ [n]) = None), w3)" "local_change P w2 w3"
      "dget (fs_files w3) = (if dget (fs_files w) (P @ [n]) = None then (dget (fs_files w2))(P @ [n] \<mapsto> f') else dget (fs_files w2))" by blast
  from unlink_run [OF P local_change_inv [OF i2 w3(2)], of t] obtain w4 where
    w4: "unlink (P @ [t]) w3 = (Inr (), w4)" "local_change P w3 w4" "dget (fs_files w4) = (dget (fs_files w3))(P @ [t] := None)" by blast
  have "dget (fs_files w4) = (if dget (fs_files w) (P @ [n]) = None then (dget (fs_files w))(P @ [t] := None, P @ [n] \<mapsto> f')
        else (dget (fs_files w))(P @ [t] := None))"
    unfolding w4(3) w3(3) w2(3) w1(3) using t by (auto simp: fun_eq_iff)
  moreover have "local_change P w w4" using w1(2) w2(2) w3(2) w4(2) by (meson local_change_trans)
  ultimately show ?thesis using w2(4,5)
    by (intro exI [of _ f'] exI [of _ w4]) (simp add: finallyP_def thenP_run w1(1) w2(1) w3(1) w4(1))
qed

lemma unique_tmp_in:
  assumes "directory P" "plain_name n"
  shows "\<exists>t. unique_tmp (P @ [n]) w = P @ [t] \<and> endswith t ''.tmp''"
proof -
  have "CHR ''/'' \<notin> set (''.'' @ nat_string (fs_next_inode w) @ ''.tmp'')" using digit_range [of "CHR ''/''"] by auto
  from suffix_in_directory [OF assms(1) _ this, of n] assms(2)
  have "unique_tmp (P @ [n]) w = P @ [(n @ ''.'' @ nat_string (fs_next_inode w)) @ ''.tmp'']" by (simp add: unique_tmp_def plain_name_def)
  with endswith_append show ?thesis by blast
qed

lemma fs_insert_law:
  assumes P: "directory P" and n: "plain_name n" and w: "fs_inv P w" and hs: "fs_fits hs"
  shows "\<exists>st w'. fs_write_if_version (in_dir P n) data None hs w = (Inr (fs_objects P w (in_dir P n) = None), w') \<and> fs_inv P w'
    \<and> fs_now w' = fs_now w
    \<and> fs_objects P w' = (if fs_objects P w (in_dir P n) = None then (fs_objects P w)(in_dir P n \<mapsto> (data, st)) else fs_objects P w)
    \<and> (bs_modified_at st, bs_native_expires_at st) = (Some (fst (fs_stamp hs (fs_now w))), snd (fs_stamp hs (fs_now w)))"
proof -
  note parts = good_parts [OF P n]
  from unique_tmp_in [OF P n] obtain t where t: "unique_tmp (P @ [n]) w = P @ [t]" "endswith t ''.tmp''" by blast
  from tmp_apart [OF t(2) n] have "t \<noteq> n" by blast
  let ?free = "dget (fs_files w) (P @ [n]) = None"
  have absent: "(fs_objects P w (in_dir P n) = None) = ?free" by (simp add: fs_objects_held [OF P n] held_in_def)
  from link_in [OF P w \<open>t \<noteq> n\<close>, of data hs] obtain f w1 where
    w1: "finallyP (thenP (write_bytes (P @ [t]) data) (thenP (apply_mtime (P @ [t]) hs) (os_link (P @ [t]) (P @ [n])))) (unlink (P @ [t])) w
        = (Inr ?free, w1)" "local_change P w w1"
      "dget (fs_files w1) = (if ?free then (dget (fs_files w))(P @ [t] := None, P @ [n] \<mapsto> f) else (dget (fs_files w))(P @ [t] := None))"
      "fl_data f = data" "fl_mtime f = fst (fs_stamp hs (fs_now w))" by blast
  note i1 = local_change_inv [OF w w1(2)]
  note run = fs_write_if_version_def Let_def parts(1,2) thenP_run bindP_run mkdir_run [OF w] t(1) w1(1)
  show ?thesis
  proof (cases ?free)
    case True
    from apply_sidecar_run [OF P i1 hs n] obtain e w2 where
      w2: "apply_sidecar (P @ [n]) hs w1 = (Inr (), w2)" "local_change P w1 w2"
        "dget (fs_files w2) = (dget (fs_files w1))(P @ [n @ ''.expires''] := e)" "sidecar_entry hs e" by blast
    have "dget (fs_files w2) = (dget (fs_files w))(P @ [t] := None, P @ [n] := Some f, P @ [n @ ''.expires''] := e)"
      using True by (simp add: w2(3) w1(3))
    note held = held_upd [OF n this t(2) w2(4) w1(4,5)]
    from held(1) obtain h where h: "held_in P (fs_files w2) n = Some h" "written_as data hs (fs_now w) h" by blast
    have "fs_write_if_version (in_dir P n) data None hs w = (Inr True, w2)" using True by (simp add: run w2(1))
    with True absent written_object [OF P n h held(2)] local_change_inv [OF i1 w2(2)] w1(2) w2(2) show ?thesis
      unfolding local_change_def by (simp add: absent)
  next
    case False
    then have "dget (fs_files w1) = (dget (fs_files w))(P @ [t] := None)" by (simp only: w1(3) if_False)
    then have same: "held_in P (fs_files w1) m = held_in P (fs_files w) m" if "plain_name m" for m
      by (rule held_same [OF _ t(2) that])
    have "fs_objects P w1 = (fs_objects P w)(in_dir P n := fs_objects P w (in_dir P n))"
      using fs_objects_step [OF P n refl, of w1 w] same n by (simp add: fs_objects_held [OF P n])
    moreover have "fs_write_if_version (in_dir P n) data None hs w = (Inr False, w1)" using False by (cases "dget (fs_files w) (P @ [n])") (simp_all add: run)
    moreover obtain st :: blob_stat where "(bs_modified_at st, bs_native_expires_at st) = (Some (fst (fs_stamp hs (fs_now w))), snd (fs_stamp hs (fs_now w)))"
      by (metis blob_stat.select_convs(2,3))
    ultimately show ?thesis using False absent i1 w1(2) by (auto simp: local_change_def)
  qed
qed

section \<open>The contract\<close>

lemma fs_bulk_acc:
  assumes "directory P" "fs_inv P w" "\<forall>key \<in> set keys. fs_objects P w key \<noteq> None" "distinct keys"
  shows "\<exists>w'. foldP (\<lambda>key n. mapP (\<lambda>b. if b then n + 1 else n) (fs_delete key)) keys n w = (Inr (n + int (length keys)), w')
    \<and> fs_inv P w' \<and> fs_now w' = fs_now w \<and> fs_objects P w' = (\<lambda>p. if p \<in> set keys then None else fs_objects P w p)"
  using assms(2-4)
proof (induction keys arbitrary: n w)
  case (Cons key keys)
  let ?step = "\<lambda>key n. mapP (\<lambda>b. if b then n + 1 else n) (fs_delete key)"
  have there: "fs_objects P w key \<noteq> None" using Cons.prems(2) by simp
  then have "names_in P key" by (simp add: fs_objects_def split: if_splits)
  then obtain m where m: "key = in_dir P m" "plain_name m" unfolding names_in_def by blast
  from fs_delete_law [OF assms(1) m(2) Cons.prems(1), folded m(1)] there obtain w1 where
    w1: "fs_delete key w = (Inr True, w1)" "fs_inv P w1" "fs_now w1 = fs_now w" "fs_objects P w1 = (fs_objects P w)(key := None)"
    by (simp only: simp_thms) blast
  have "\<forall>k \<in> set keys. fs_objects P w1 k \<noteq> None" "distinct keys"
    using Cons.prems(2,3) by (auto simp: w1(4))
  from Cons.IH [OF w1(2) this, of "n + 1"] obtain w2 where
    w2: "foldP ?step keys (n + 1) w1 = (Inr (n + 1 + int (length keys)), w2)" "fs_inv P w2" "fs_now w2 = fs_now w1"
      "fs_objects P w2 = (\<lambda>p. if p \<in> set keys then None else fs_objects P w1 p)" by blast
  have "foldP ?step (key # keys) n w = (Inr (n + int (length (key # keys))), w2)"
    using w1(1) w2(1) by (simp add: bindP_run mapP_run add.assoc)
  moreover have "fs_objects P w2 = (\<lambda>p. if p \<in> set (key # keys) then None else fs_objects P w p)"
    unfolding w2(4) w1(4) by (simp add: fun_eq_iff)
  ultimately show ?case using w2(2,3) w1(3) by (intro exI [of _ w2]) simp
qed simp

theorem fs_medium:
  assumes P: "directory P"
  shows "blob_medium fs_driver (fs_objects P) fs_now (fs_inv P) (names_in P) fs_fits fs_stamp"
proof
  fix w p d s data ps and hs :: "headers option"
  assume w: "fs_inv P w"
  show "dr_head fs_driver p w = (Inr (map_option snd (fs_objects P w p)), w)" if "names_in P p"
    using that by (auto simp: fs_driver_def fs_head_def fs_objects_def stat_for_path_def split: option.splits)
  show "dr_read fs_driver p w = (Inr (fs_objects P w p), w)" if "names_in P p"
    using that by (auto simp: fs_driver_def fs_read_def fs_objects_def stat_for_path_def split: option.splits)
  show "names_in P p \<and> bs_key s = p \<and> bs_version s \<noteq> None" if "fs_objects P w p = Some (d, s)"
    using that by (auto simp: fs_objects_def stat_for_path_def split: if_splits option.splits)
  show "\<exists>s w'. dr_write fs_driver p data hs w = (Inr (), w') \<and> fs_inv P w' \<and> fs_now w' = fs_now w
      \<and> fs_objects P w' = (fs_objects P w)(p \<mapsto> (data, s))
      \<and> (bs_modified_at s, bs_native_expires_at s) = (Some (fst (fs_stamp hs (fs_now w))), snd (fs_stamp hs (fs_now w)))"
    if "names_in P p" "fs_fits hs"
    using that fs_write_law [OF P _ w that(2), of _ data] by (auto simp: names_in_def fs_driver_def)
  show "\<exists>s w'. dr_write_if_version fs_driver p data None hs w = (Inr (fs_objects P w p = None), w') \<and> fs_inv P w' \<and> fs_now w' = fs_now w
      \<and> fs_objects P w' = (if fs_objects P w p = None then (fs_objects P w)(p \<mapsto> (data, s)) else fs_objects P w)
      \<and> (bs_modified_at s, bs_native_expires_at s) = (Some (fst (fs_stamp hs (fs_now w))), snd (fs_stamp hs (fs_now w)))"
    if "names_in P p" "fs_fits hs"
  proof -
    from that(1) obtain n where n: "p = in_dir P n" "plain_name n" unfolding names_in_def by blast
    from fs_insert_law [OF P n(2) w that(2), of data, folded n(1)]
    show ?thesis unfolding fs_driver_def driver.select_convs by blast
  qed
  show "\<exists>w'. dr_delete fs_driver p w = (Inr (fs_objects P w p \<noteq> None), w') \<and> fs_inv P w' \<and> fs_now w' = fs_now w
      \<and> fs_objects P w' = (fs_objects P w)(p := None)" if "names_in P p"
    using that fs_delete_law [OF P _ w] by (auto simp: names_in_def fs_driver_def)
  show "\<exists>w'. dr_bulk_delete fs_driver ps w = (Inr (int (length ps)), w') \<and> fs_inv P w' \<and> fs_now w' = fs_now w
      \<and> fs_objects P w' = (\<lambda>p. if p \<in> set ps then None else fs_objects P w p)"
    if "\<forall>p \<in> set ps. fs_objects P w p \<noteq> None" "distinct ps"
    using fs_bulk_acc [OF P w that, of 0] by (simp add: fs_driver_def fs_bulk_delete_def)
qed (simp add: fs_driver_def)

text \<open>The directory of the collection \<open>docs\<close>, version 1, under \<open>/data\<close>.\<close>

definition docs_dir :: path where
  "docs_dir = [''/'', ''data'', ''docs'', ''v1'']"

lemma docs_dir_directory: "directory docs_dir"
  unfolding directory_def docs_dir_def
  by (intro conjI exI [of _ True] exI [of _ "[''data'', ''docs'', ''v1'']"]) (simp_all add: plain_component_def)

interpretation docs_files: blob_medium fs_driver "fs_objects docs_dir" fs_now "fs_inv docs_dir" "names_in docs_dir" fs_fits fs_stamp
  by (rule fs_medium [OF docs_dir_directory])

end
