(* ===== verification/Object_Listing.thy ===== *)
theory Object_Listing
  imports Object_Laws
begin

text \<open>
  What the template of object stores does over a whole listing: scans, expired keys and
  collection, and conditional writes against absent objects. \<open>listed_medium\<close> is a medium that
  lists its objects, \<open>listed_records\<close> a collection over one.
\<close>

section \<open>Conditional writes against absent objects\<close>

text \<open>The keys such a batch writes: those put where nothing is stored, expired or not.\<close>

definition inserted :: "('k \<Rightarrow> (string \<times> blob_stat) option) \<Rightarrow> ('k, 'v cond_write) dict \<Rightarrow> 'k set" where
  "inserted stored writes = {k. \<exists>cw. dget writes k = Some cw \<and> cw_change cw \<noteq> Remove \<and> stored k = None}"

context object_records
begin

definition inserts :: "ttl_policy option \<Rightarrow> 'k \<times> 'v cond_write \<Rightarrow> bool" where
  "inserts ttl = (\<lambda>(k, cw). seen_version (cw_seen cw) = None \<and> (cw_change cw \<noteq> Remove \<longrightarrow> takes ttl (cw_created_at cw)))"

text \<open>What a write leaves under its key.\<close>

definition put_by :: "ttl_policy option \<Rightarrow> 'w \<Rightarrow> 'v cond_write \<Rightarrow> (string \<times> blob_stat) option \<Rightarrow> bool" where
  "put_by ttl w cw found \<longleftrightarrow> (\<exists>b s v. found = Some (b, s) \<and> cw_change cw = Put v \<and> ks_value_deserialize (be_kvset (ob_backend ob)) b = Some v
     \<and> stamped (now w) ttl (cw_created_at cw) s)"

lemma write_one_law:
  assumes inv: "inv w" and ok: "inserts ttl (k, cw)"
  shows "\<exists>w'. object_write_one ob ttl (k, cw) w = (Inr (cw_change cw \<noteq> Remove \<and> at w k = None), w') \<and> inv w' \<and> now w' = now w
    \<and> (\<forall>j. j \<noteq> k \<or> cw_change cw = Remove \<or> at w k \<noteq> None \<longrightarrow> at w' j = at w j)
    \<and> (cw_change cw \<noteq> Remove \<and> at w k = None \<longrightarrow> put_by ttl w cw (at w' k))"
proof (cases "cw_change cw")
  case Remove
  from key_law [of k] obtain p where p: "encode_physical (ob_key_codec ob) k = Inr p" by blast
  with Remove ok inv show ?thesis
    by (intro exI [of _ w]) (simp add: object_write_one_def inserts_def bindP_run key_run [OF p] Let_def)
next
  case (Put v)
  with ok have ok: "seen_version (cw_seen cw) = None" "takes ttl (cw_created_at cw)" by (auto simp: inserts_def)
  from key_law [of k] obtain p where p: "encode_physical (ob_key_codec ob) k = Inr p" "good p" by blast
  from blob_law [of v] obtain b where b: "ks_value_serialize (be_kvset (ob_backend ob)) v = Some b"
    "ks_value_deserialize (be_kvset (ob_backend ob)) b = Some v" by blast
  have minv: "minv w" using inv by (simp add: object_inv_def)
  have here: "at w k = objs w p" using p(1) by (simp add: object_at_def)
  from insert_law [OF minv p(2) headers_fit, of b "now w" ttl "cw_created_at cw"] obtain s w' where
    w': "dr_write_if_version dr p b None (headers_of (now w) ttl (cw_created_at cw)) w = (Inr (objs w p = None), w')" "minv w'" "now w' = now w"
      "objs w' = (if objs w p = None then (objs w)(p \<mapsto> (b, s)) else objs w)" and s: "stamped (now w) ttl (cw_created_at cw) s"
    by (auto simp: stamped_def)
  have run: "object_write_one ob ttl (k, cw) w = (Inr (cw_change cw \<noteq> Remove \<and> at w k = None), w')"
    using Put ok by (simp add: object_write_one_def bindP_run key_run [OF p(1)] blob_run [OF b(1)] headers_run Let_def w'(1) here)
  show ?thesis
  proof (cases "objs w p = None")
    case True
    have at': "at w' = (at w)(k \<mapsto> (b, s))" by (rule at_update [OF p(1)]) (simp add: w'(4) True)
    have "inv w'" using inv w'(2) b(2) by (auto simp: object_inv_def at' split: if_splits)
    with run Put s b(2) w'(3) at' True here show ?thesis unfolding put_by_def by (intro exI [of _ w']) simp
  next
    case False
    have same: "at w' = at w" by (rule ext) (simp add: object_at_def w'(4) False split: sum.splits)
    have "inv w'" using inv w'(2) by (simp add: object_inv_def same)
    with run same w'(3) False here show ?thesis by (intro exI [of _ w']) auto
  qed
qed

lemma write_each_law:
  assumes "inv w" "distinct (map fst writes)" "list_all (inserts ttl) writes"
  shows "\<exists>w'. collectP (object_write_one ob ttl) writes w = (Inr (map (\<lambda>(k, cw). cw_change cw \<noteq> Remove \<and> at w k = None) writes), w')
    \<and> inv w' \<and> now w' = now w
    \<and> (\<forall>j. j \<notin> inserted (at w) writes \<longrightarrow> at w' j = at w j)
    \<and> (\<forall>j cw. j \<in> inserted (at w) writes \<longrightarrow> dget writes j = Some cw \<longrightarrow> put_by ttl w cw (at w' j))"
  using assms
proof (induction writes arbitrary: w)
  case Nil
  then show ?case by (auto simp: inserted_def)
next
  case (Cons x writes)
  obtain k cw where x: "x = (k, cw)" by (cases x)
  from Cons.prems(2,3) have ok: "inserts ttl (k, cw)" and rest: "k \<notin> fst ` set writes" "distinct (map fst writes)" "list_all (inserts ttl) writes"
    by (auto simp: x)
  from write_one_law [OF Cons.prems(1) ok] obtain w1 where
    w1: "object_write_one ob ttl (k, cw) w = (Inr (cw_change cw \<noteq> Remove \<and> at w k = None), w1)" "inv w1" "now w1 = now w"
      "\<And>j. j \<noteq> k \<or> cw_change cw = Remove \<or> at w k \<noteq> None \<Longrightarrow> at w1 j = at w j"
      "cw_change cw \<noteq> Remove \<and> at w k = None \<Longrightarrow> put_by ttl w cw (at w1 k)" by blast
  from Cons.IH [OF w1(2) rest(2,3)] obtain w2 where
    w2: "collectP (object_write_one ob ttl) writes w1 = (Inr (map (\<lambda>(k, cw). cw_change cw \<noteq> Remove \<and> at w1 k = None) writes), w2)"
      "inv w2" "now w2 = now w1" "\<And>j. j \<notin> inserted (at w1) writes \<Longrightarrow> at w2 j = at w1 j"
      "\<And>j cw. \<lbrakk>j \<in> inserted (at w1) writes; dget writes j = Some cw\<rbrakk> \<Longrightarrow> put_by ttl w1 cw (at w2 j)" by blast
  have none: "dget writes k = None" using rest(1) by (simp add: map_of_eq_None_iff)
  then have k: "k \<notin> inserted (at w1) writes" by (simp add: inserted_def)
  have other: "at w1 j = at w j" if "j \<noteq> k" for j using w1(4) that by blast
  have ins: "j \<in> inserted (at w) (x # writes) \<longleftrightarrow> (if j = k then cw_change cw \<noteq> Remove \<and> at w k = None else j \<in> inserted (at w1) writes)" for j
    using other [of j] none by (auto simp: inserted_def x)
  have flags: "map (\<lambda>(k, cw). cw_change cw \<noteq> Remove \<and> at w1 k = None) writes = map (\<lambda>(k, cw). cw_change cw \<noteq> Remove \<and> at w k = None) writes"
    using other rest(1) by (intro map_cong refl) force
  have put: "put_by ttl w1 = put_by ttl w" by (simp add: put_by_def w1(3) fun_eq_iff)
  have "at w2 j = at w j" if "j \<notin> inserted (at w) (x # writes)" for j
    using that w2(4) [of j] w1(4) [of j] k unfolding ins by (cases "j = k") auto
  moreover have "put_by ttl w cw' (at w2 j)" if "j \<in> inserted (at w) (x # writes)" "dget (x # writes) j = Some cw'" for j cw'
  proof (cases "j = k")
    case True
    with that have "put_by ttl w cw (at w1 k)" "cw' = cw" using w1(5) ins [of j] by (auto simp: x)
    with True w2(4) [OF k] show ?thesis by simp
  next
    case False
    with that have "j \<in> inserted (at w1) writes" "dget writes j = Some cw'" using ins [of j] by (auto simp: x)
    from w2(5) [OF this] show ?thesis by (simp add: put)
  qed
  ultimately show ?case using w1(1-3) w2(1-3) flags by (intro exI [of _ w2]) (simp add: x prog_simps)
qed

theorem insert_batch_law:
  assumes inv: "inv w" and ok: "dict_ok writes" "list_all (inserts ttl) writes"
  shows "\<exists>w'. object_batch_write_if_unchanged ob writes ttl w = (Inr (inserted (at w) writes), w') \<and> inv w' \<and> now w' = now w
    \<and> (\<forall>j. j \<notin> inserted (at w) writes \<longrightarrow> holds w' j = holds w j)
    \<and> (\<forall>j cw v. j \<in> inserted (at w) writes \<longrightarrow> dget writes j = Some cw \<longrightarrow> cw_change cw = Put v
         \<longrightarrow> holds w' j = (if lives (now w) (now w) ttl (cw_created_at cw) then Some v else None))"
proof -
  from write_each_law [OF inv _ ok(2)] ok(1) obtain w' where
    w': "collectP (object_write_one ob ttl) writes w = (Inr (map (\<lambda>(k, cw). cw_change cw \<noteq> Remove \<and> at w k = None) writes), w')"
      "inv w'" "now w' = now w" "\<And>j. j \<notin> inserted (at w) writes \<Longrightarrow> at w' j = at w j"
      "\<And>j cw. \<lbrakk>j \<in> inserted (at w) writes; dget writes j = Some cw\<rbrakk> \<Longrightarrow> put_by ttl w cw (at w' j)" by auto
  let ?gather = "\<lambda>chunk wins written. written \<union> set (map (fst \<circ> fst) (filter snd (zip chunk wins)))"
  let ?wins = "map (\<lambda>(k, cw). cw_change cw \<noteq> Remove \<and> at w k = None) writes"
  have "object_batches ob writes (object_write_one ob ttl) ?gather {} w = (Inr (?gather writes ?wins {}), w')"
    by (rule object_batches_collect [OF w'(1) sizes]) (auto simp: zip_append1)
  moreover have "?gather writes ?wins {} = inserted (at w) writes"
    using ok(1) by (force simp: zip_map2 zip_same_conv_map inserted_def)
  moreover have "holds w' j = holds w j" if "j \<notin> inserted (at w) writes" for j
    using w'(4) [OF that] w'(3) by (simp add: object_holds_def)
  moreover have "holds w' j = (if lives (now w) (now w) ttl (cw_created_at cw) then Some v else None)"
    if "j \<in> inserted (at w) writes" "dget writes j = Some cw" "cw_change cw = Put v" for j cw v
    using w'(5) [OF that(1,2)] that(3) w'(3) by (auto simp: put_by_def object_holds_def stale_def stamped_expired)
  ultimately show ?thesis using w'(2,3) by (intro exI [of _ w']) (simp add: object_batch_write_if_unchanged_def)
qed

end

section \<open>Walking a listing\<close>

text \<open>
  A generator that looks at these names one after the other, each when it is reached, and
  yields the metadata of those that hold an object then.
\<close>

inductive walks :: "('w \<Rightarrow> bool) \<Rightarrow> ('w \<Rightarrow> string \<Rightarrow> (string \<times> blob_stat) option) \<Rightarrow> ('w, blob_stat) gen \<Rightarrow> string list \<Rightarrow> bool"
  for minv objs where
  walks_Done: "walks minv objs Done []"
| walks_Step: "(\<And>w. minv w \<Longrightarrow> snd (m w) = w \<and> (objs w p = None \<longrightarrow> walks minv objs (fst (m w)) ps)
      \<and> (\<forall>d s. objs w p = Some (d, s) \<longrightarrow> (\<exists>g. fst (m w) = Yield s g \<and> walks minv objs g ps)))
    \<Longrightarrow> walks minv objs (Step m) (p # ps)"

text \<open>The loop that scans and collection share: a step for each listed object, up to a limit.\<close>

abbreviation (input) gathering :: "(int \<Rightarrow> bool) \<Rightarrow> (blob_stat \<Rightarrow> ('w, 'a option) prog) \<Rightarrow> ('w, blob_stat) gen \<Rightarrow> int \<Rightarrow> ('w, 'a) gen" where
  "gathering full f \<equiv> for_each (\<lambda>listed continue n. if full n then Done
     else await (f listed) (\<lambda>found. case found of None \<Rightarrow> continue n | Some a \<Rightarrow> Yield a (continue (n + 1)))) (\<lambda>_. Done)"

primrec gathered :: "(int \<Rightarrow> bool) \<Rightarrow> ('p \<Rightarrow> 'a option) \<Rightarrow> int \<Rightarrow> 'p list \<Rightarrow> 'a list" where
  "gathered full F n [] = []"
| "gathered full F n (p # ps) = (if full n then [] else case F p of None \<Rightarrow> gathered full F n ps
     | Some a \<Rightarrow> a # gathered full F (n + 1) ps)"

lemma drain_Step: "drain (Step m) w = drain (fst (m w)) (snd (m w))"
  by (simp add: case_prod_beta)

lemma for_each_Step: "drain (for_each body finish (Step m) s) w = drain (for_each body finish (fst (m w)) s) (snd (m w))"
  by (simp add: drain_Step del: drain.simps)

lemma drain_await: "m w = (Inr a, w') \<Longrightarrow> drain (await m k) w = drain (k a) w'"
  by (simp add: await_def)

lemma drain_gmap: "drain (gmap h g) w = map_prod (map_sum id (map h)) id (drain g w)"
proof (induction g arbitrary: w)
  case (Step m)
  have "drain (gmap h (fst (m w))) v = map_prod (map_sum id (map h)) id (drain (fst (m w)) v)" for v
    by (rule Step.IH [OF rangeI fsts.intros])
  then show ?case by (simp only: gmap_def for_each_Step drain_Step)
qed (auto simp: gmap_def mapP_run split: sum.splits prod.splits)

text \<open>\<open>S A w\<close>: the media reached once the names \<open>A\<close> have been looked at.\<close>

lemma gathering_law:
  assumes "walks minv objs g ps" "distinct ps" "A \<inter> set ps = {}" "S A w"
    and S: "\<And>A w. S A w \<Longrightarrow> minv w" "\<And>A w p. S A w \<Longrightarrow> p \<notin> A \<Longrightarrow> p \<in> T \<Longrightarrow> objs w p = Some (D p)"
    and step: "\<And>A w p. S A w \<Longrightarrow> p \<notin> A \<Longrightarrow> p \<in> T \<Longrightarrow> \<exists>w'. f (snd (D p)) w = (Inr (F p), w') \<and> S (insert p A) w'"
    and "set ps \<subseteq> T"
  shows "\<exists>w' A'. drain (gathering full f g n) w = (Inr (gathered full F n ps), w') \<and> S A' w'"
  using assms(1-4,8)
proof (induction ps arbitrary: g A w n rule: list.induct)
  case Nil
  then have "g = Done" by (auto elim: walks.cases)
  with Nil show ?case by auto
next
  case (Cons p ps)
  from Cons.prems(1) obtain m where g: "g = Step m" and m: "\<And>w. minv w \<Longrightarrow> snd (m w) = w
      \<and> (\<forall>d s. objs w p = Some (d, s) \<longrightarrow> (\<exists>g. fst (m w) = Yield s g \<and> walks minv objs g ps))"
    by (cases rule: walks.cases) blast+
  have p: "p \<notin> A" "p \<in> T" using Cons.prems(3,5) by auto
  have "objs w p = Some (fst (D p), snd (D p))" using S(2) [OF Cons.prems(4) p] by simp
  with m [OF S(1) [OF Cons.prems(4)]] obtain g' where g': "fst (m w) = Yield (snd (D p)) g'" "walks minv objs g' ps" "snd (m w) = w"
    by blast
  have here: "drain (gathering full f g n) w = drain (if full n then Done else await (f (snd (D p)))
      (\<lambda>found. case found of None \<Rightarrow> gathering full f g' n | Some a \<Rightarrow> Yield a (gathering full f g' (n + 1)))) w"
    unfolding g for_each_Step g'(1,3) by simp
  show ?case
  proof (cases "full n")
    case True
    with here Cons.prems(4) show ?thesis by auto
  next
    case False
    from step [OF Cons.prems(4) p] obtain w1 where w1: "f (snd (D p)) w = (Inr (F p), w1)" "S (insert p A) w1" by blast
    have rest: "distinct ps" "insert p A \<inter> set ps = {}" "set ps \<subseteq> T" using Cons.prems(2,3,5) by auto
    from Cons.IH [OF g'(2) rest(1,2) w1(2) rest(3)] obtain w2 A2 where
      w2: "drain (gathering full f g' (if F p = None then n else n + 1)) w1
          = (Inr (gathered full F (if F p = None then n else n + 1) ps), w2)" "S A2 w2" by blast
    have "drain (gathering full f g n) w = (Inr (gathered full F n (p # ps)), w2)"
      using here False w2(1) by (cases "F p") (simp_all add: mapP_run drain_await [where m = "f (snd (D p))", OF w1(1)])
    with w2(2) show ?thesis by blast
  qed
qed

lemma gathered_all: "gathered (\<lambda>_. False) F n ps = List.map_filter F ps"
  by (induction ps arbitrary: n) (auto simp: List.map_filter_simps split: option.splits)

lemma gathered_upto: "gathered (\<lambda>n. n \<ge> l) F n ps = take (nat (l - n)) (List.map_filter F ps)"
proof (induction ps arbitrary: n)
  case (Cons p ps)
  have "nat (l - n) = Suc (nat (l - (n + 1)))" if "\<not> n \<ge> l" using that by simp
  with Cons show ?case by (auto simp: List.map_filter_simps split: option.splits)
qed (simp add: List.map_filter_simps)

section \<open>The contract of a medium that lists\<close>

text \<open>\<open>clear w pre\<close>: what the medium lists under the prefix are its objects.\<close>

locale listed_medium = blob_medium dr objs now minv good fits stamp
  for dr :: "'w driver" and objs now minv good fits stamp +
  fixes clear :: "'w \<Rightarrow> string \<Rightarrow> bool"
  assumes list_law: "minv w \<Longrightarrow> clear w pre \<Longrightarrow> \<exists>m g ps. dr_list dr pre = Step m \<and> m w = (g, w) \<and> walks minv objs g ps
    \<and> distinct ps \<and> set ps = {p. objs w p \<noteq> None \<and> py_startswith p pre}"

locale listed_records = listed_medium dr objs now minv good fits stamp clear + object_records dr objs now minv good fits stamp ob
  for dr :: "'w driver" and objs now minv good fits stamp clear and ob :: "('w, 'k, 'v) object_backend" +
  assumes layout: "kc_layout (ob_key_codec ob) = Literal"
    and listing_law: "\<exists>listing. listing_prefix (ob_key_codec ob) None = Inr listing
      \<and> (\<forall>k p. encode_physical (ob_key_codec ob) k = Inr p \<longrightarrow> py_startswith p listing)"
    and decode_law: "encode_physical (ob_key_codec ob) k = Inr p \<Longrightarrow> decode_if_prefix (ob_key_codec ob) p None = Inr (Some k)"
    and no_head: "\<not> needs_head_for_list_expiry (ob_ttl_source ob)"

text \<open>Every object listed is that of a key.\<close>

definition object_own ::
  "('w \<Rightarrow> string \<Rightarrow> bool) \<Rightarrow> ('w \<Rightarrow> string \<Rightarrow> (string \<times> blob_stat) option) \<Rightarrow> ('w, 'k, 'v) object_backend \<Rightarrow> 'w \<Rightarrow> bool" where
  "object_own clear objs ob w \<longleftrightarrow> (case listing_prefix (ob_key_codec ob) None of Inl _ \<Rightarrow> False
     | Inr listing \<Rightarrow> clear w listing \<and> (\<forall>p. objs w p \<noteq> None \<and> py_startswith p listing \<longrightarrow> (\<exists>k. encode_physical (ob_key_codec ob) k = Inr p)))"

context listed_records
begin

text \<open>A loop over the listing of the collection visits its keys, each once.\<close>

lemma listing_keys:
  assumes inv: "inv w" and own: "object_own clear objs ob w"
  shows "\<exists>listing m g ks. listing_prefix (ob_key_codec ob) None = Inr listing \<and> dr_list dr listing = Step m \<and> m w = (g, w)
    \<and> walks minv objs g (map (\<lambda>k. projr (encode_physical (ob_key_codec ob) k)) ks)
    \<and> distinct (map (\<lambda>k. projr (encode_physical (ob_key_codec ob) k)) ks) \<and> distinct ks
    \<and> set ks = {k. at w k \<noteq> None}"
proof -
  let ?name = "\<lambda>k. projr (encode_physical (ob_key_codec ob) k)"
  from listing_law obtain listing where listing: "listing_prefix (ob_key_codec ob) None = Inr listing"
    "\<And>k p. encode_physical (ob_key_codec ob) k = Inr p \<Longrightarrow> py_startswith p listing" by blast
  have minv: "minv w" using inv by (simp add: object_inv_def)
  from own listing(1) have own: "clear w listing"
    "\<And>p. objs w p \<noteq> None \<Longrightarrow> py_startswith p listing \<Longrightarrow> \<exists>k. encode_physical (ob_key_codec ob) k = Inr p"
    by (auto simp: object_own_def)
  from list_law [OF minv own(1)] obtain m g ps where
    ps: "dr_list dr listing = Step m" "m w = (g, w)" "walks minv objs g ps" "distinct ps"
      "set ps = {p. objs w p \<noteq> None \<and> py_startswith p listing}" by blast
  have "\<exists>k. encode_physical (ob_key_codec ob) k = Inr p" if "p \<in> set ps" for p
    using own(2) [of p] that ps(5) by blast
  then obtain key where key: "\<And>p. p \<in> set ps \<Longrightarrow> encode_physical (ob_key_codec ob) (key p) = Inr p" by metis
  have names: "map ?name (map key ps) = ps" using key by (auto simp: o_def intro!: map_idI)
  have "set (map key ps) = {k. at w k \<noteq> None}"
  proof (intro set_eqI iffI)
    fix k assume "k \<in> set (map key ps)"
    then obtain p where p: "p \<in> set ps" "k = key p" by auto
    with key [OF p(1)] ps(5) show "k \<in> {k. at w k \<noteq> None}" by (simp add: object_at_def)
  next
    fix k assume "k \<in> {k. at w k \<noteq> None}"
    moreover from key_law [of k] obtain p where p: "encode_physical (ob_key_codec ob) k = Inr p" by blast
    ultimately have "p \<in> set ps" using listing(2) [OF p] by (simp add: object_at_def ps(5))
    moreover from key [OF this] p have "key p = k" by (rule key_inj)
    ultimately show "k \<in> set (map key ps)" by force
  qed
  moreover have "distinct (map key ps)" using ps(4) names by (metis distinct_map)
  ultimately show ?thesis using listing(1) ps(1-4) names by (intro exI [of _ listing] exI [of _ m] exI [of _ g] exI [of _ "map key ps"]) simp
qed

text \<open>The loop over the listing, whose step answers \<open>F k\<close> for the object of \<open>k\<close>.\<close>

lemma listing_loop:
  assumes inv: "inv w" and own: "object_own clear objs ob w"
    and start: "S {} w"
    and S: "\<And>A w'. S A w' \<Longrightarrow> minv w'" "\<And>A w' k. S A w' \<Longrightarrow> k \<notin> A \<Longrightarrow> at w' k = at w k"
    and step: "\<And>A w' k d s. S A w' \<Longrightarrow> k \<notin> A \<Longrightarrow> at w k = Some (d, s) \<Longrightarrow> \<exists>w''. f s w' = (Inr (F k), w'') \<and> S (insert k A) w''"
  shows "\<exists>listing ks w' A. listing_prefix (ob_key_codec ob) None = Inr listing \<and> distinct ks \<and> set ks = {k. at w k \<noteq> None}
    \<and> drain (gathering full f (dr_list dr listing) n) w = (Inr (gathered full F n ks), w') \<and> S A w'"
proof -
  let ?name = "\<lambda>k. projr (encode_physical (ob_key_codec ob) k)"
  from listing_keys [OF inv own] obtain listing m g ks where
    listing: "listing_prefix (ob_key_codec ob) None = Inr listing" "dr_list dr listing = Step m" "m w = (g, w)"
      "walks minv objs g (map ?name ks)" "distinct (map ?name ks)" "distinct ks" "set ks = {k. at w k \<noteq> None}" by blast
  have name: "encode_physical (ob_key_codec ob) k = Inr (?name k)" for k using key_law [of k] by auto
  then have name_inj: "?name j = ?name k \<longleftrightarrow> j = k" for j k using key_inj by metis
  have at: "at w' k = objs w' (?name k)" for w' k
    using name [of k] by (cases "encode_physical (ob_key_codec ob) k") (simp_all add: object_at_def)
  define key where "key p = (case decode_if_prefix (ob_key_codec ob) p None of Inr (Some k) \<Rightarrow> k | _ \<Rightarrow> undefined)" for p
  have key [simp]: "key (?name k) = k" for k using decode_law [OF name] by (simp add: key_def)
  have gathered_names: "gathered full (\<lambda>p. F (key p)) i (map ?name xs) = gathered full F i xs" for i xs
    by (induction xs arbitrary: i) (auto split: option.splits)
  have "\<exists>w' A'. drain (gathering full f g n) w = (Inr (gathered full (\<lambda>p. F (key p)) n (map ?name ks)), w') \<and> S (key ` A') w'"
  proof (rule gathering_law [where S = "\<lambda>A w'. S (key ` A) w' \<and> A \<subseteq> range ?name" and A = "{}" and T = "set (map ?name ks)"
        and D = "\<lambda>p. the (objs w p)" and objs = objs and minv = minv, THEN exE])
    have fresh: "k \<notin> key ` A" if "A \<subseteq> range ?name" "?name k \<notin> A" for A k
      using that by (auto simp: name_inj)
    fix A w' p
    assume A: "S (key ` A) w' \<and> A \<subseteq> range ?name"
    then show "minv w'" using S(1) by blast
    assume p: "p \<notin> A" "p \<in> set (map ?name ks)"
    then obtain k where k: "p = ?name k" "at w k \<noteq> None" using listing(7) by auto
    then obtain d s where ds: "at w k = Some (d, s)" by auto
    from S(2) [OF conjunct1 [OF A] fresh [of A k]] A p k ds show "objs w' p = Some (the (objs w p))" by (simp add: at)
    from step [OF conjunct1 [OF A] fresh [of A k] ds] A p k(1) ds
    show "\<exists>w''. f (snd (the (objs w p))) w' = (Inr (F (key p)), w'') \<and> S (key ` insert p A) w'' \<and> insert p A \<subseteq> range ?name"
      by (simp add: at)
  qed (use listing(4,5) start in auto)
  then obtain w' A' where w': "drain (gathering full f g n) w = (Inr (gathered full F n ks), w')" "S (key ` A') w'"
    unfolding gathered_names by blast
  have "drain (gathering full f (dr_list dr listing) n) w = (Inr (gathered full F n ks), w')"
    unfolding listing(2) for_each_Step listing(3) fst_conv snd_conv by (rule w'(1))
  with listing(1,6,7) w'(2) show ?thesis by blast
qed

section \<open>Scans\<close>

definition scan_row_of :: "'w \<Rightarrow> bool \<Rightarrow> 'k \<Rightarrow> ('k, 'v) scan_row option" where
  "scan_row_of w include_values k = (if stale ob (now w) (at w k) then None
     else map_option (\<lambda>(d, s). \<lparr>sr_key = k, sr_value = if include_values then holds w k else None, sr_stat = Some (object_scan_stat ob s)\<rparr>) (at w k))"

lemma listed_row_law:
  assumes inv: "inv w" and ds: "at w k = Some (d, s)"
  shows "\<exists>w'. object_listed_row ob None include_values s w = (Inr (scan_row_of w include_values k), w') \<and> tidied {k} w w'"
proof -
  from key_law [of k] obtain p where p: "encode_physical (ob_key_codec ob) k = Inr p" by blast
  have objs: "objs w p = Some (d, s)" using ds p by (simp add: object_at_def)
  have name: "bs_key s = p" using stat_law [OF _ objs] inv by (simp add: object_inv_def)
  from unless_expired_law [OF inv p objs, of "()"] obtain w1 where
    w1: "unless_expired ob p s () w = (Inr (if stale ob (now w) (objs w p) then None else Some ()), w1)" "tidied {k} w w1" by blast
  have enrich: "object_enrich ob s = returnP (Some s)" using no_head by (simp add: object_enrich_def)
  note run = object_listed_row_def enrich bindP_run mapP_run name w1(1) decode_law [OF p] liftP_def scan_row_of_def ds objs
  show ?thesis
  proof (cases "stale ob (now w) (objs w p)")
    case True
    with w1(2) show ?thesis by (intro exI [of _ w1]) (simp add: run)
  next
    case False
    have inv1: "inv w1" using tidied_inv [OF w1(2) inv] .
    have here: "at w1 k = at w k" "now w1 = now w" using tidied_at [OF w1(2), of k] False w1(2) by (simp_all add: ds objs tidied_def)
    from read_live_law [OF inv1 p] obtain w2 where
      w2: "object_read_live ob p w1 = (Inr (Some d), w2)" "tidied {k} w1 w2" using False here by (auto simp: ds objs)
    from live_value [OF inv ds] obtain v where v: "ks_value_deserialize (be_kvset (ob_backend ob)) d = Some v" by blast
    have "holds w k = Some v" using False v by (simp add: object_holds_def ds objs)
    with False w1(2) w2 tidied_one [OF w1(2) w2(2), of "{k}"] show ?thesis
      by (cases include_values) (auto simp: run value_run [OF v])
  qed
qed

theorem entries_law:
  assumes inv: "inv w" and own: "object_own clear objs ob w"
  shows "\<exists>rows w'. drain (object_scan_entries ob \<lparr>sq_prefix = None, sq_include_values = include_values, sq_page_size = n\<rparr>) w = (Inr rows, w')
    \<and> distinct (map fst rows) \<and> set rows = {(k, if include_values then Some v else None) | k v. holds w k = Some v} \<and> inv w' \<and> holds w' = holds w"
proof -
  let ?S = "\<lambda>A w'. tidied A w w'" and ?f = "object_listed_row ob None include_values" and ?F = "scan_row_of w include_values"
  have "\<exists>listing ks w' A. listing_prefix (ob_key_codec ob) None = Inr listing \<and> distinct ks \<and> set ks = {k. at w k \<noteq> None}
    \<and> drain (gathering (\<lambda>_. False) ?f (dr_list dr listing) 0) w = (Inr (gathered (\<lambda>_. False) ?F 0 ks), w') \<and> ?S A w'"
  proof (rule listing_loop [OF inv own])
    show "tidied {} w w" using inv by (intro tidied_refl) (simp add: object_inv_def)
    fix A w'
    assume t: "tidied A w w'"
    then show "minv w'" by (simp add: tidied_def)
    fix k assume k: "k \<notin> A"
    with tidied_at [OF t, of k] show same: "at w' k = at w k" by simp
    fix d s assume ds: "at w k = Some (d, s)"
    from listed_row_law [OF tidied_inv [OF t inv], of k d s include_values] obtain w'' where
      w'': "?f s w' = (Inr (scan_row_of w' include_values k), w'')" "tidied {k} w' w''" using ds by (auto simp: same)
    have "now w' = now w" using t by (simp add: tidied_def)
    then have "scan_row_of w' include_values k = ?F k" by (simp add: scan_row_of_def same tidied_holds [OF t])
    with w'' tidied_one [OF t w''(2), of "insert k A"] show "\<exists>w''. ?f s w' = (Inr (?F k), w'') \<and> tidied (insert k A) w w''" by auto
  qed
  then obtain listing ks w' A where ks: "listing_prefix (ob_key_codec ob) None = Inr listing" "distinct ks" "set ks = {k. at w k \<noteq> None}"
    "drain (gathering (\<lambda>_. False) ?f (dr_list dr listing) 0) w = (Inr (List.map_filter ?F ks), w')" "tidied A w w'"
    unfolding gathered_all by blast
  let ?entry = "\<lambda>row. (sr_key row, sr_value row)"
  have run: "drain (object_scan_entries ob \<lparr>sq_prefix = None, sq_include_values = include_values, sq_page_size = n\<rparr>) w
      = (Inr (map ?entry (List.map_filter ?F ks)), w')"
    using ks(4) by (simp add: object_scan_entries_def layout ks(1) drain_gmap object_listed_rows_def)
  have keys: "map fst (map ?entry (List.map_filter ?F ks)) = filter (\<lambda>k. ?F k \<noteq> None) ks"
    by (induction ks) (auto simp: List.map_filter_simps scan_row_of_def split: option.splits if_splits)
  have "?F k = None \<longleftrightarrow> holds w k = None" for k using holds_live [OF inv, of k] by (auto simp: scan_row_of_def)
  have row: "?F k = Some r \<Longrightarrow> ?entry r = (k, if include_values then holds w k else None) \<and> holds w k \<noteq> None" for k r
    using holds_live [OF inv, of k] by (auto simp: scan_row_of_def split: if_splits)
  have there: "holds w k \<noteq> None \<Longrightarrow> k \<in> set ks \<and> ?F k \<noteq> None" for k
    using holds_live [OF inv, of k] by (auto simp: scan_row_of_def ks(3))
  have "set (map ?entry (List.map_filter ?F ks)) = {(k, if include_values then Some v else None) | k v. holds w k = Some v}"
  proof (intro set_eqI iffI)
    fix x assume "x \<in> set (map ?entry (List.map_filter ?F ks))"
    then obtain k r where "k \<in> set ks" "?F k = Some r" "x = ?entry r" by (auto simp: List.map_filter_def)
    with row [of k r] show "x \<in> {(k, if include_values then Some v else None) | k v. holds w k = Some v}" by auto
  next
    fix x assume "x \<in> {(k, if include_values then Some v else None) | k v. holds w k = Some v}"
    then obtain k v where x: "x = (k, if include_values then Some v else None)" "holds w k = Some v" by blast
    with there [of k] obtain r where r: "k \<in> set ks" "?F k = Some r" by auto
    with row [OF r(2)] x have "x = ?entry r" by auto
    with r show "x \<in> set (map ?entry (List.map_filter ?F ks))" by (force simp: List.map_filter_def)
  qed
  with run keys ks(2,5) tidied_inv [OF ks(5) inv] tidied_holds [OF ks(5)] show ?thesis
    by (intro exI [of _ "map ?entry (List.map_filter ?F ks)"] exI [of _ w']) simp
qed

section \<open>Deleting a batch\<close>

text \<open>What a batch of deletions leaves: under \<open>HIDE\<close>, an expired object stays.\<close>

definition deletes :: "'k \<Rightarrow> 'w \<Rightarrow> bool" where
  "deletes k w \<longleftrightarrow> ob_expiry_gc ob = LazyDelete \<or> \<not> stale ob (now w) (at w k)"

definition deleted :: "'k set \<Rightarrow> 'w \<Rightarrow> 'w \<Rightarrow> bool" where
  "deleted K w w' \<longleftrightarrow> inv w' \<and> now w' = now w \<and> (\<forall>k. at w' k = (if k \<in> K \<and> deletes k w then None else at w k))"

lemma deleted_refl: "inv w \<Longrightarrow> deleted {} w w"
  by (simp add: deleted_def)

lemma deletes_later: "deleted K w w' \<Longrightarrow> k \<notin> K \<Longrightarrow> deletes k w' = deletes k w"
  by (simp add: deleted_def deletes_def)

lemma deleted_trans: "deleted K w w1 \<Longrightarrow> deleted L w1 w2 \<Longrightarrow> K \<inter> L = {} \<Longrightarrow> deleted (K \<union> L) w w2"
  using deletes_later [of K w w1] unfolding deleted_def by auto

lemma deleted_holds: "inv w \<Longrightarrow> deleted K w w' \<Longrightarrow> k \<notin> K \<Longrightarrow> holds w' k = holds w k"
  by (simp add: deleted_def object_holds_def)

lemma key_names: "collectP (object_key ob) ks w = (Inr (map (\<lambda>k. projr (encode_physical (ob_key_codec ob) k)) ks), w)"
proof (induction ks)
  case (Cons k ks)
  from key_law [of k] obtain p where p: "encode_physical (ob_key_codec ob) k = Inr p" by blast
  with Cons key_run [OF p] show ?case by (simp add: prog_simps)
qed simp

lemma delete_chunk_law:
  assumes inv: "inv w" and "distinct ks"
  shows "\<exists>w'. object_delete_chunk ob ks w = (Inr (int (length (filter (\<lambda>k. holds w k \<noteq> None) ks))), w') \<and> deleted (set ks) w w'"
proof -
  let ?name = "\<lambda>k. projr (encode_physical (ob_key_codec ob) k)"
  let ?live = "filter (\<lambda>k. holds w k \<noteq> None) ks"
  have name: "encode_physical (ob_key_codec ob) k = Inr (?name k)" for k using key_law [of k] by auto
  then have name_inj: "?name j = ?name k \<longleftrightarrow> j = k" for j k using key_inj by metis
  have at: "at w' k = objs w' (?name k)" for w' k
    using name [of k] by (cases "encode_physical (ob_key_codec ob) k") (simp_all add: object_at_def)
  from batch_exists_run [OF inv, of ks] obtain w1 where
    w1: "object_batch_exists ob ks w = (Inr {k \<in> set ks. holds w k \<noteq> None}, w1)" "tidied (set ks) w w1" by blast
  have live: "filter (\<lambda>k. k \<in> {k \<in> set ks. holds w k \<noteq> None}) ks = ?live" by (rule filter_cong) auto
  have gone: "at w1 k = None" if "k \<in> set ks" "k \<notin> set ?live" "deletes k w" for k
    using that tidied_at [OF w1(2), of k] holds_live [OF inv, of k] by (cases "at w k") (auto simp: deletes_def)
  have kept: "at w1 k = at w k" if "k \<notin> set ks \<or> k \<in> set ?live \<or> \<not> deletes k w" for k
    using that tidied_at [OF w1(2), of k] holds_live [OF inv, of k] by (auto simp: deletes_def)
  have live_deletes: "k \<in> set ?live \<Longrightarrow> deletes k w" for k using holds_live [OF inv, of k] by (auto simp: deletes_def)
  note inv1 = tidied_inv [OF w1(2) inv]
  show ?thesis
  proof (cases "?live = []")
    case True
    then have "at w1 k = (if k \<in> set ks \<and> deletes k w then None else at w k)" for k
      using gone [of k] kept [of k] by (cases "k \<in> set ks \<and> deletes k w"; simp only: list.set empty_iff simp_thms if_True if_False; blast)
    then have "deleted (set ks) w w1" using inv1 w1(2) unfolding deleted_def tidied_def by blast
    with True w1(1) show ?thesis by (intro exI [of _ w1]) (simp add: object_delete_chunk_def bindP_run live [simplified] key_names)
  next
    case False
    have "\<forall>p \<in> set (map ?name ?live). objs w1 p \<noteq> None"
      using kept holds_live [OF inv] by (auto simp: at [symmetric])
    moreover have "distinct (map ?name ?live)" using assms(2) by (auto simp: distinct_map inj_on_def name_inj)
    ultimately obtain w2 where w2: "dr_bulk_delete dr (map ?name ?live) w1 = (Inr (int (length ?live)), w2)" "minv w2" "now w2 = now w1"
        "objs w2 = (\<lambda>p. if p \<in> set (map ?name ?live) then None else objs w1 p)"
      using bulk_law [of w1 "map ?name ?live"] inv1 by (auto simp: object_inv_def)
    have at2: "at w2 k = (if k \<in> set ?live then None else at w1 k)" for k
      by (auto simp: at w2(4) name_inj)
    have "inv w2" using inv1 w2(2) by (auto simp: object_inv_def at2 split: if_splits)
    moreover have "at w2 k = (if k \<in> set ks \<and> deletes k w then None else at w k)" for k
      using gone [of k] kept [of k] live_deletes [of k] at2 [of k] by auto
    ultimately have "deleted (set ks) w w2" using w2(3) w1(2) by (simp add: deleted_def tidied_def)
    with False w1(1) w2(1) show ?thesis
      by (intro exI [of _ w2]) (simp add: object_delete_chunk_def bindP_run live [simplified] key_names)
  qed
qed

lemma delete_chunks_law:
  assumes "inv w" "distinct (concat chunks)"
  shows "\<exists>ns w'. collectP (object_delete_chunk ob) chunks w = (Inr ns, w') \<and> deleted (set (concat chunks)) w w'
    \<and> sum_list ns = int (length (filter (\<lambda>k. holds w k \<noteq> None) (concat chunks)))"
  using assms
proof (induction chunks arbitrary: w)
  case Nil
  then show ?case by (simp add: deleted_refl)
next
  case (Cons c cs)
  from Cons.prems(2) have c: "distinct c" "distinct (concat cs)" "set c \<inter> set (concat cs) = {}" by auto
  from delete_chunk_law [OF Cons.prems(1) c(1)] obtain w1 where
    w1: "object_delete_chunk ob c w = (Inr (int (length (filter (\<lambda>k. holds w k \<noteq> None) c))), w1)" "deleted (set c) w w1" by blast
  then have "inv w1" by (simp add: deleted_def)
  from Cons.IH [OF this c(2)] obtain ns w2 where
    w2: "collectP (object_delete_chunk ob) cs w1 = (Inr ns, w2)" "deleted (set (concat cs)) w1 w2"
      "sum_list ns = int (length (filter (\<lambda>k. holds w1 k \<noteq> None) (concat cs)))" by blast
  have "holds w1 k = holds w k" if "k \<in> set (concat cs)" for k
    using deleted_holds [OF Cons.prems(1) w1(2), of k] that c(3) by blast
  then have "filter (\<lambda>k. holds w1 k \<noteq> None) (concat cs) = filter (\<lambda>k. holds w k \<noteq> None) (concat cs)"
    by (intro filter_cong) simp_all
  with w1 w2 deleted_trans [OF w1(2) w2(2) c(3)] show ?case by (auto simp: prog_simps)
qed

lemma batch_delete_law:
  assumes inv: "inv w"
  shows "\<exists>w'. object_batch_delete ob ks w = (Inr (int (length (filter (\<lambda>k. holds w k \<noteq> None) (fromkeys ks)))), w') \<and> deleted (set ks) w w'"
proof (cases "ks = []")
  case True
  with deleted_refl [OF inv] show ?thesis by (simp add: object_batch_delete_def)
next
  case False
  define r where "r = in_chunks (fromkeys ks) (min (be_batch_size (ob_backend ob)) (dr_max_bulk_delete (ob_driver ob)))
    (\<lambda>chunks. mapP sum_list (map_concurrent chunks (object_delete_chunk ob) (ob_io_concurrency ob))) w"
  have "1 \<le> min (be_batch_size (ob_backend ob)) (dr_max_bulk_delete (ob_driver ob))" using sizes bulk_size by simp
  then obtain chunks where chunks: "concat chunks = fromkeys ks"
    "r = mapP sum_list (map_concurrent chunks (object_delete_chunk ob) (ob_io_concurrency ob)) w"
    unfolding r_def in_chunks_def chunk_sequence_def
    using concat_chunks_from [of "nat (min (be_batch_size (ob_backend ob)) (dr_max_bulk_delete (ob_driver ob)))" "fromkeys ks" 0] by auto
  from delete_chunks_law [OF inv, of chunks] obtain ns w' where
    w': "collectP (object_delete_chunk ob) chunks w = (Inr ns, w')" "deleted (set ks) w w'"
      "sum_list ns = int (length (filter (\<lambda>k. holds w k \<noteq> None) (fromkeys ks)))" by (auto simp: chunks(1))
  have "object_batch_delete ob ks w = r" using False by (simp add: object_batch_delete_def r_def Let_def)
  with chunks(2) map_concurrent_collect [OF w'(1) sizes(2)] w'(2,3) show ?thesis by (simp add: mapP_run)
qed

section \<open>Collection\<close>

lemma expired_keys_law:
  assumes inv: "inv w" and own: "object_own clear objs ob w" and limit: "1 \<le> limit"
  shows "\<exists>ks. object_expired_keys ob limit w = (Inr ks, w) \<and> int (length ks) \<le> limit \<and> distinct ks
    \<and> (\<forall>k \<in> set ks. stale ob (now w) (at w k)) \<and> (int (length ks) < limit \<longrightarrow> (\<forall>k. stale ob (now w) (at w k) \<longrightarrow> k \<in> set ks))"
proof -
  let ?f = "\<lambda>listed. bindP (object_enrich ob listed) (\<lambda>enriched. case enriched of
               None \<Rightarrow> returnP None
             | Some stat \<Rightarrow> bindP (object_expired ob stat) (\<lambda>e. if \<not> e then returnP None
                 else liftP (decode_if_prefix (ob_key_codec ob) (bs_key stat) None)))"
  let ?F = "\<lambda>k. if stale ob (now w) (at w k) then Some k else None"
  have "\<exists>listing ks w' (A :: 'k set). listing_prefix (ob_key_codec ob) None = Inr listing \<and> distinct ks \<and> set ks = {k. at w k \<noteq> None}
    \<and> drain (gathering (\<lambda>n. n \<ge> limit) ?f (dr_list dr listing) 0) w = (Inr (gathered (\<lambda>n. n \<ge> limit) ?F 0 ks), w') \<and> w' = w"
  proof (rule listing_loop [OF inv own, where S = "\<lambda>A w'. w' = w"])
    fix A w' k d s assume w: "w' = w" and ds: "at w k = Some (d, s)"
    from key_law [of k] obtain p where p: "encode_physical (ob_key_codec ob) k = Inr p" by blast
    have objs: "objs w p = Some (d, s)" using ds p by (simp add: object_at_def)
    have name: "bs_key s = p" using stat_law [OF _ objs] inv by (simp add: object_inv_def)
    have enrich: "object_enrich ob s = returnP (Some s)" using no_head by (simp add: object_enrich_def)
    show "\<exists>w''. ?f s w' = (Inr (?F k), w'') \<and> w'' = w"
      by (simp add: w enrich bindP_run object_expired_def liftP_def name decode_law [OF p] ds stale_def)
  qed (use inv in \<open>simp_all add: object_inv_def\<close>)
  then obtain listing ks where ks: "listing_prefix (ob_key_codec ob) None = Inr listing" "distinct ks" "set ks = {k. at w k \<noteq> None}"
    "drain (gathering (\<lambda>n. n \<ge> limit) ?f (dr_list dr listing) 0) w = (Inr (take (nat (limit - 0)) (List.map_filter ?F ks)), w)"
    unfolding gathered_upto by blast
  let ?stale = "filter (\<lambda>k. stale ob (now w) (at w k)) ks"
  have "List.map_filter ?F ks = ?stale" by (induction ks) (simp_all add: List.map_filter_simps)
  with ks(1,4) limit have run: "object_expired_keys ob limit w = (Inr (take (nat limit) ?stale), w)"
    by (simp add: object_expired_keys_def object_expired_keys_gen_def bindP_run liftP_def)
  have "k \<in> set ks" if "stale ob (now w) (at w k)" for k using that by (cases "at w k") (auto simp: ks(3) stale_def)
  with run ks(2) limit set_take_subset [of "nat limit" ?stale] show ?thesis
    by (intro exI [of _ "take (nat limit) ?stale"]) (auto simp: distinct_take)
qed

theorem collects_law:
  assumes inv: "inv w" and own: "object_own clear objs ob w" and limit: "1 \<le> limit"
  shows "\<exists>ks w'. object_gc_expired_keys ob limit w = (Inr ks, w') \<and> int (length ks) \<le> limit \<and> distinct ks
    \<and> (\<forall>k \<in> set ks. stale ob (now w) (at w k)) \<and> (int (length ks) < limit \<longrightarrow> (\<forall>k. stale ob (now w) (at w k) \<longrightarrow> k \<in> set ks))
    \<and> inv w' \<and> now w' = now w \<and> (\<forall>k. at w' k = (if k \<in> set ks \<and> ob_expiry_gc ob = LazyDelete then None else at w k))"
proof -
  from expired_keys_law [OF assms] obtain ks where
    ks: "object_expired_keys ob limit w = (Inr ks, w)" "int (length ks) \<le> limit" "distinct ks" "\<forall>k \<in> set ks. stale ob (now w) (at w k)"
      "int (length ks) < limit \<longrightarrow> (\<forall>k. stale ob (now w) (at w k) \<longrightarrow> k \<in> set ks)" by blast
  from batch_delete_law [OF inv, of ks] obtain n w' where w': "object_batch_delete ob ks w = (Inr n, w')" "deleted (set ks) w w'" by blast
  show ?thesis
  proof (cases "ks = []")
    case True
    with ks inv limit show ?thesis by (intro exI [of _ ks] exI [of _ w]) (simp add: object_gc_expired_keys_def bindP_run)
  next
    case False
    have "at w' k = (if k \<in> set ks \<and> ob_expiry_gc ob = LazyDelete then None else at w k)" for k
      using w'(2) ks(4) by (auto simp: deleted_def deletes_def)
    with False ks w' limit show ?thesis
      by (intro exI [of _ ks] exI [of _ w']) (simp add: object_gc_expired_keys_def bindP_run mapP_run deleted_def)
  qed
qed

end

end
