(* ===== verification/Fs_Listing.thy ===== *)
theory Fs_Listing
  imports Fs_Laws Object_Listing
begin

text \<open>
  The filesystem driver keeps the contract of a medium that lists, and stores over it: which
  of them keep the contract of a collection (\<open>fs_storable\<close>), and a concrete one.
\<close>

section \<open>Listing a directory\<close>

text \<open>
  What a listing under the prefix meets are the objects of the directory: the prefix is a name
  in it, or its own, and the files under it that the driver would list are its plain files.
\<close>

definition fs_clear :: "path \<Rightarrow> fs \<Rightarrow> string \<Rightarrow> bool" where
  "fs_clear P w listing \<longleftrightarrow> (\<exists>n. listing = in_dir P n \<and> (n = [] \<or> plain_component n))
     \<and> (\<forall>p \<in> set (dkeys (fs_files w)). under P p \<and> listed_name p \<and> py_startswith (listed_key listing p) listing
          \<longrightarrow> (\<exists>n. p = P @ [n] \<and> plain_name n))"

lemma walk_root_directory:
  assumes P: "directory P" and w: "fs_inv P w" and n: "n = [] \<or> plain_component n"
  shows "walk_root (in_dir P n) w = Some P"
proof (cases "n = []")
  case True
  with path_in_directory(3) [OF P, of "''a''"] there [OF w] show ?thesis
    by (simp add: walk_root_def in_dir_def is_dir_def plain_component_def)
next
  case False
  with n have n: "plain_component n" by simp
  have root: "path_of (in_dir P n) = P @ [n]" unfolding in_dir_def by (rule path_in_directory(1) [OF P n])
  have "P @ [n] \<notin> fs_dirs w" using w by (simp add: fs_inv_def)
  have anc: "ancestors (P @ [n]) = ancestors P @ [P @ [n]]" for P :: path by (induction P) auto
  have last: "last (ancestors P) = P" "ancestors P \<noteq> []" for P :: path by (induction P) (auto simp: last_map)
  have "tl (rev (ancestors (P @ [n]))) = P # tl (rev (ancestors P))"
    unfolding anc using last [of P] by (cases "ancestors P" rule: rev_cases) auto
  with there [OF w] \<open>P @ [n] \<notin> fs_dirs w\<close> show ?thesis by (simp add: walk_root_def root is_dir_def)
qed

lemma listed_key_plain:
  assumes P: "directory P" and n: "plain_name n" and m: "m = [] \<or> plain_component m"
  shows "listed_key (in_dir P m) (P @ [n]) = in_dir P n"
proof -
  have posix: "as_posix (P @ [n]) = in_dir P n"
    unfolding in_dir_def using path_in_directory(2) [OF P] n by (simp add: plain_name_def)
  have "py_startswith (in_dir P n) (in_dir P m)" if "endswith (in_dir P m) ''/''"
  proof -
    have "m = []"
    proof (rule ccontr)
      assume m': "m \<noteq> []"
      from that obtain u where "in_dir P m = u @ ''/''" by (auto simp: endswith_iff)
      then have "last (in_dir P m) = CHR ''/''" by simp
      with m' have "last m = CHR ''/''" by (simp add: in_dir_def)
      with m' m last_in_set [OF m'] show False by (auto simp: plain_component_def)
    qed
    then show ?thesis by (simp add: in_dir_def py_startswith_def)
  qed
  then show ?thesis by (auto simp: listed_key_def Let_def posix)
qed

lemma walk_gen_walks:
  assumes P: "directory P" and m: "m = [] \<or> plain_component m" and ns: "list_all plain_name ns"
  shows "walks (fs_inv P) (fs_objects P) (walk_gen (in_dir P m) (map (\<lambda>n. P @ [n]) ns))
    (filter (\<lambda>p. py_startswith p (in_dir P m)) (map (in_dir P) ns))"
  using ns
proof (induction ns)
  case Nil
  then show ?case by (simp add: walks_Done)
next
  case (Cons n ns)
  then have n: "plain_name n" by simp
  note key = listed_key_plain [OF P n m]
  show ?case
  proof (cases "py_startswith (in_dir P n) (in_dir P m)")
    case True
    have "walks (fs_inv P) (fs_objects P) (await (\<lambda>w. (Inr (stat_for_path (P @ [n]) (in_dir P n) w), w)) (\<lambda>found. case found of
         None \<Rightarrow> walk_gen (in_dir P m) (map (\<lambda>n. P @ [n]) ns) | Some stat \<Rightarrow> Yield stat (walk_gen (in_dir P m) (map (\<lambda>n. P @ [n]) ns))))
       (in_dir P n # filter (\<lambda>p. py_startswith p (in_dir P m)) (map (in_dir P) ns))"
      unfolding await_def
    proof (rule walks_Step)
      fix w
      have "stat_for_path (P @ [n]) (in_dir P n) w = map_option snd (fs_objects P w (in_dir P n))"
        using good_parts(1,5) [OF P n] by (auto simp: fs_objects_def stat_for_path_def split: option.splits)
      with Cons show "snd (case (Inr (stat_for_path (P @ [n]) (in_dir P n) w), w) of (r, w') \<Rightarrow> (case r of Inl e \<Rightarrow> Raise e
            | Inr a \<Rightarrow> (case a of None \<Rightarrow> walk_gen (in_dir P m) (map (\<lambda>n. P @ [n]) ns)
              | Some stat \<Rightarrow> Yield stat (walk_gen (in_dir P m) (map (\<lambda>n. P @ [n]) ns))), w')) = w
        \<and> (fs_objects P w (in_dir P n) = None \<longrightarrow> walks (fs_inv P) (fs_objects P) (fst (case (Inr (stat_for_path (P @ [n]) (in_dir P n) w), w) of
            (r, w') \<Rightarrow> (case r of Inl e \<Rightarrow> Raise e
            | Inr a \<Rightarrow> (case a of None \<Rightarrow> walk_gen (in_dir P m) (map (\<lambda>n. P @ [n]) ns)
              | Some stat \<Rightarrow> Yield stat (walk_gen (in_dir P m) (map (\<lambda>n. P @ [n]) ns))), w')))
            (filter (\<lambda>p. py_startswith p (in_dir P m)) (map (in_dir P) ns)))
        \<and> (\<forall>d s. fs_objects P w (in_dir P n) = Some (d, s) \<longrightarrow> (\<exists>g. fst (case (Inr (stat_for_path (P @ [n]) (in_dir P n) w), w) of
            (r, w') \<Rightarrow> (case r of Inl e \<Rightarrow> Raise e
            | Inr a \<Rightarrow> (case a of None \<Rightarrow> walk_gen (in_dir P m) (map (\<lambda>n. P @ [n]) ns)
              | Some stat \<Rightarrow> Yield stat (walk_gen (in_dir P m) (map (\<lambda>n. P @ [n]) ns))), w')) = Yield s g
            \<and> walks (fs_inv P) (fs_objects P) g (filter (\<lambda>p. py_startswith p (in_dir P m)) (map (in_dir P) ns))))"
        by auto
    qed
    with True key show ?thesis by (simp add: Let_def)
  next
    case False
    with Cons key show ?thesis by (simp add: Let_def)
  qed
qed

theorem fs_listed:
  assumes P: "directory P"
  shows "listed_medium fs_driver (fs_objects P) fs_now (fs_inv P) (names_in P) fs_fits fs_stamp (fs_clear P)"
proof (intro listed_medium.intro listed_medium_axioms.intro fs_medium [OF P])
  fix w listing
  assume w: "fs_inv P w" and "fs_clear P w listing"
  then obtain m where m: "listing = in_dir P m" "m = [] \<or> plain_component m"
    and clear: "\<And>p. \<lbrakk>p \<in> set (dkeys (fs_files w)); under P p; listed_name p; py_startswith (listed_key listing p) listing\<rbrakk> \<Longrightarrow> \<exists>n. p = P @ [n] \<and> plain_name n"
    by (auto simp: fs_clear_def)
  let ?files = "filter (\<lambda>p. under P p \<and> listed_name p) (dkeys (fs_files w))"
  let ?shown = "filter (\<lambda>p. py_startswith (listed_key listing p) listing) ?files"
  define ns where "ns = map last ?shown"
  have shown: "?shown = map (\<lambda>n. P @ [n]) ns" and plain: "list_all plain_name ns"
    using clear by (fastforce simp: ns_def list_all_iff intro!: map_idI [symmetric])+
  have skip: "walk_gen listing ps = walk_gen listing (filter (\<lambda>p. py_startswith (listed_key listing p) listing) ps)" for ps
    by (induction ps) (auto simp: Let_def)
  let ?ps = "filter (\<lambda>p. py_startswith p (in_dir P m)) (map (in_dir P) ns)"
  have "walk_gen listing ?files = walk_gen (in_dir P m) (map (\<lambda>n. P @ [n]) ns)"
    by (rule trans [OF skip [of ?files]]) (simp only: shown, simp only: m(1))
  with walk_gen_walks [OF P m(2) plain] have "walks (fs_inv P) (fs_objects P) (walk_gen listing ?files) ?ps" by simp
  moreover have "distinct (map (\<lambda>n. P @ [n]) ns)"
    unfolding shown [symmetric] using w by (intro distinct_filter) (simp add: fs_inv_def)
  then have "distinct ns" by (simp only: distinct_map)
  then have "distinct ?ps" by (simp add: distinct_map inj_on_def)
  moreover have "set ?ps = {p. fs_objects P w p \<noteq> None \<and> py_startswith p listing}"
  proof (intro set_eqI iffI)
    fix p assume "p \<in> set ?ps"
    then obtain n where n: "n \<in> set ns" "p = in_dir P n" "py_startswith p listing" by (auto simp: m(1))
    with plain have n': "plain_name n" by (auto simp: list_all_iff)
    have "P @ [n] \<in> set ?shown" using n(1) shown by simp
    then have "P @ [n] \<in> set (dkeys (fs_files w))" by (simp only: set_filter mem_Collect_eq)
    then have "held_in P (fs_files w) n \<noteq> None" unfolding dkeys_dom by (auto simp: held_in_def)
    with n(2,3) show "p \<in> {p. fs_objects P w p \<noteq> None \<and> py_startswith p listing}"
      by (cases "held_in P (fs_files w) n") (simp_all add: fs_objects_held [OF P n'])
  next
    fix p assume "p \<in> {p. fs_objects P w p \<noteq> None \<and> py_startswith p listing}"
    then have p: "fs_objects P w p \<noteq> None" "py_startswith p listing" by auto
    then obtain n where n: "p = in_dir P n" "plain_name n" using fs_objects_other by (metis names_in_def)
    with p(1) have "dget (fs_files w) (P @ [n]) \<noteq> None" by (auto simp: fs_objects_held [OF P] held_in_def)
    then have "P @ [n] \<in> set (dkeys (fs_files w))" unfolding dkeys_dom by blast
    moreover have "under P (P @ [n])" "listed_name (P @ [n])" using n(2) by (simp_all add: under_def listed_name_def plain_name_def)
    ultimately have "P @ [n] \<in> set ?shown" using p(2) listed_key_plain [OF P n(2) m(2)] n(1) by (simp add: m(1))
    then have "n \<in> set ns" unfolding shown by auto
    with n(1) p(2) m(1) show "p \<in> set ?ps" by auto
  qed
  moreover have "fs_list listing = Step (\<lambda>w. (case walk_root listing w of None \<Rightarrow> Done
     | Some root \<Rightarrow> walk_gen listing (filter (\<lambda>p. under root p \<and> listed_name p) (dkeys (fs_files w))), w))"
    by (simp add: fs_list_def)
  ultimately show "\<exists>n g ps. dr_list fs_driver listing = Step n \<and> n w = (g, w) \<and> walks (fs_inv P) (fs_objects P) g ps
    \<and> distinct ps \<and> set ps = {p. fs_objects P w p \<noteq> None \<and> py_startswith p listing}"
    using walk_root_directory [OF P w m(2)] by (auto simp: fs_driver_def m(1))
qed

section \<open>Collections in a directory\<close>

text \<open>
  The literal layout, keys whose names are plain, and values that serialise: such a backend
  keeps the contract of a collection. It lists when its schema fixes the scope, or there is none.
\<close>

definition fs_storable :: "path \<Rightarrow> (fs, 'k, 'v) object_backend \<Rightarrow> bool" where
  "fs_storable P ob \<longleftrightarrow> (let kc = ob_key_codec ob; ks = be_kvset (ob_backend ob) in
     directory P \<and> ob_driver ob = fs_driver \<and> ob_now ob = fs_now \<and> ob_ttl_source ob \<in> {FilesystemMtime, FilesystemSidecar}
     \<and> 1 \<le> be_batch_size (ob_backend ob) \<and> 1 \<le> ob_io_concurrency ob
     \<and> kc_layout kc = Literal \<and> kc_collection_prefix kc = as_posix P @ ''/'' \<and> keys_round_trip (be_kvset (kc_backend kc))
     \<and> (\<forall>k. \<exists>b. in_key_blob kc k = Inr b \<and> plain_name (encode_path (kc_sha256 kc) (kc_bytes kc) Literal b))
     \<and> (\<forall>v. \<exists>b. ks_value_serialize ks v = Some b \<and> ks_value_deserialize ks b = Some v))"

definition fs_listable :: "(fs, 'k, 'v) object_backend \<Rightarrow> bool" where
  "fs_listable ob \<longleftrightarrow> (let kc = ob_key_codec ob; ks = be_kvset (kc_backend kc) in
     (\<exists>c. ks_separator ks = [c] \<and> plain_separator [c])
     \<and> (be_scope (kc_backend kc) = [] \<or> ks_scope_schema ks \<noteq> None \<and> (\<forall>k. ks_key_serialize ks k \<noteq> Some [])))"

lemma py_join_last: "py_join sep (ps @ [a]) = py_join sep (ps @ [b]) \<longleftrightarrow> a = b"
  by (cases "ps = []") (simp_all add: py_join_append)

lemma in_key_blob_inj:
  assumes "keys_round_trip (be_kvset (kc_backend kc))" "in_key_blob kc j = Inr b" "in_key_blob kc k = Inr b"
  shows "j = k"
proof -
  let ?ks = "be_kvset (kc_backend kc)"
  from assms(2,3) obtain x y where xy: "ks_key_serialize ?ks j = Some x" "ks_key_serialize ?ks k = Some y"
    "item_key (be_binding (kc_backend kc)) (ks_separator ?ks) (be_scope (kc_backend kc)) x
     = item_key (be_binding (kc_backend kc)) (ks_separator ?ks) (be_scope (kc_backend kc)) y"
    by (auto simp: in_key_blob_def leaf_blob_def serde_result_def Let_def split: sum.splits option.splits)
  then have "x = y" unfolding item_key_def blob_join_py_join append_assoc [symmetric] py_join_last by simp
  with xy assms(1) show ?thesis unfolding keys_round_trip_def by (metis option.inject)
qed

lemma encode_physical_inj:
  assumes "keys_round_trip (be_kvset (kc_backend kc))" "kc_layout kc = Literal"
    and "encode_physical kc j = Inr p" "encode_physical kc k = Inr p"
  shows "j = k"
proof -
  let ?path = "\<lambda>b. kc_collection_prefix kc @ encode_path (kc_sha256 kc) (kc_bytes kc) Literal b"
  from assms(2,3) obtain a where a: "in_key_blob kc j = Inr a" "p = ?path a" by (auto simp: encode_physical_def split: sum.splits)
  from assms(2,4) obtain b where b: "in_key_blob kc k = Inr b" "p = ?path b" by (auto simp: encode_physical_def split: sum.splits)
  have "a = b" using a(2) b(2) decode_encode_path by (metis option.inject same_append_eq)
  with a(1) b(1) in_key_blob_inj [OF assms(1)] show ?thesis by blast
qed

lemma fs_storable_key:
  assumes "fs_storable P ob"
  shows "\<exists>n. encode_physical (ob_key_codec ob) k = Inr (in_dir P n) \<and> plain_name n"
proof -
  from assms obtain b where "in_key_blob (ob_key_codec ob) k = Inr b"
    "plain_name (encode_path (kc_sha256 (ob_key_codec ob)) (kc_bytes (ob_key_codec ob)) Literal b)"
    unfolding fs_storable_def Let_def by blast
  with assms show ?thesis by (simp add: fs_storable_def Let_def encode_physical_def in_dir_def)
qed

theorem fs_storable_records:
  assumes "fs_storable P ob"
  shows "object_records fs_driver (fs_objects P) fs_now (fs_inv P) (names_in P) fs_fits fs_stamp ob"
proof (intro object_records.intro object_records_axioms.intro)
  have P: "directory P" using assms by (simp add: fs_storable_def Let_def)
  from fs_medium [OF P] show "blob_medium fs_driver (fs_objects P) fs_now (fs_inv P) (names_in P) fs_fits fs_stamp" .
  show "ob_driver ob = fs_driver" "ob_now ob = fs_now" "1 \<le> be_batch_size (ob_backend ob)" "1 \<le> ob_io_concurrency ob"
    "\<exists>b. ks_value_serialize (be_kvset (ob_backend ob)) v = Some b \<and> ks_value_deserialize (be_kvset (ob_backend ob)) b = Some v" for v
    using assms by (simp_all add: fs_storable_def Let_def)
  show "\<exists>p. encode_physical (ob_key_codec ob) k = Inr p \<and> names_in P p" for k
    using fs_storable_key [OF assms, of k] by (auto simp: names_in_def)
  have "keys_round_trip (be_kvset (kc_backend (ob_key_codec ob)))" "kc_layout (ob_key_codec ob) = Literal"
    using assms by (simp_all add: fs_storable_def Let_def)
  from encode_physical_inj [OF this]
  show "k = j" if "encode_physical (ob_key_codec ob) k = Inr p" "encode_physical (ob_key_codec ob) j = Inr p" for k j p
    using that by blast
  show "fs_fits (if hs = [] then None else Some hs)" if "hs = write_headers (ob_ttl_source ob) ttl base explicit given" for hs ttl base explicit given
    using that assms by (auto simp: fs_storable_def Let_def fs_fits_def)
qed

lemma quote_append: "quote (a @ b) = quote a @ quote b"
  by (simp add: quote_def)

lemma latin1_text_append: "latin1_text (a @ b) = latin1_text a @ latin1_text b"
  by (simp add: latin1_text_def)

lemma py_startswith_iff: "py_startswith s t \<longleftrightarrow> (\<exists>u. s = t @ u)"
  by (metis append_take_drop_id py_startswith_def startswith_append)

lemma encode_path_under: "py_startswith blob pre \<Longrightarrow> py_startswith (encode_path sha as_bytes Literal blob) (encode_path sha as_bytes Literal pre)"
  by (auto simp: py_startswith_iff encode_path_def quote_append latin1_text_append)

lemma in_key_blob_under:
  "in_key_blob kc k = Inr b \<Longrightarrow> codec_scan_prefix_blob kc None = Inr pre \<Longrightarrow> py_startswith b pre"
  using py_join_under [of "[_]"]
  by (auto simp: in_key_blob_def scan_prefix_blob_def item_key_def scope_prefix_def blob_join_py_join Let_def
      simp flip: append_assoc split: sum.splits)

theorem fs_storable_listed:
  assumes "fs_storable P ob" "fs_listable ob"
  shows "listed_records fs_driver (fs_objects P) fs_now (fs_inv P) (names_in P) fs_fits fs_stamp (fs_clear P) ob"
proof (intro listed_records.intro listed_records_axioms.intro)
  have P: "directory P" and layout: "kc_layout (ob_key_codec ob) = Literal" and round: "keys_round_trip (be_kvset (kc_backend (ob_key_codec ob)))"
    and source: "ob_ttl_source ob \<in> {FilesystemMtime, FilesystemSidecar}"
    using assms(1) by (simp_all add: fs_storable_def Let_def)
  from fs_listed [OF P] show "listed_medium fs_driver (fs_objects P) fs_now (fs_inv P) (names_in P) fs_fits fs_stamp (fs_clear P)" .
  from fs_storable_records [OF assms(1)]
  show "object_records fs_driver (fs_objects P) fs_now (fs_inv P) (names_in P) fs_fits fs_stamp ob" .
  show "kc_layout (ob_key_codec ob) = Literal" by (rule layout)
  show "\<not> needs_head_for_list_expiry (ob_ttl_source ob)" using source by auto
  obtain pre where pre: "codec_scan_prefix_blob (ob_key_codec ob) None = Inr pre"
    by (auto simp: scan_prefix_blob_def Let_def)
  show "\<exists>listing. listing_prefix (ob_key_codec ob) None = Inr listing
      \<and> (\<forall>k p. encode_physical (ob_key_codec ob) k = Inr p \<longrightarrow> py_startswith p listing)"
    using pre in_key_blob_under [OF _ pre] encode_path_under
    by (auto simp: listing_prefix_def encode_physical_def layout py_startswith_iff split: sum.splits; blast)
  fix k p assume p: "encode_physical (ob_key_codec ob) k = Inr p"
  from assms(2) obtain c where c: "ks_separator (be_kvset (kc_backend (ob_key_codec ob))) = [c]" "plain_separator [c]"
    by (auto simp: fs_listable_def Let_def)
  have "decode_physical (ob_key_codec ob) p = Some k"
    by (rule decode_encode_physical [OF layout c round _ _ p]) (use assms(2) in \<open>auto simp: fs_listable_def Let_def\<close>)
  moreover from p obtain b where b: "in_key_blob (ob_key_codec ob) k = Inr b" "blob_from_physical (ob_key_codec ob) p = Some b"
    by (auto simp: encode_physical_def blob_from_physical_def layout decode_encode_path split: sum.splits)
  ultimately show "decode_if_prefix (ob_key_codec ob) p None = Inr (Some k)"
    using in_key_blob_under [OF b(1) pre] pre by (simp add: decode_if_prefix_def decode_physical_def)
qed

end
