(* ===== verification/Object_Properties.thy ===== *)
theory Object_Properties
  imports Fs_Listing
begin

text \<open>
  The properties of object stores, on the filesystem: sequences of operations against a map,
  expiry, inserts, scans and collection.
\<close>

section \<open>A collection of files\<close>

text \<open>Documents under natural numbers, in the directory \<open>/data/docs/v1\<close>.\<close>

definition number_of :: "string \<Rightarrow> nat option" where
  "number_of s = (let n = nat (text_time s) in if nat_string n = s then Some n else None)"

definition num_docs :: "(nat, string) kvset" where
  "num_docs = \<lparr>ks_name = ''docs'', ks_version = ''1'', ks_key_serialize = \<lambda>n. Some (nat_string n), ks_key_deserialize = number_of,
     ks_value_serialize = Some, ks_value_deserialize = Some, ks_separator = '':'', ks_ttl_policy = ttl_none, ks_scope_schema = None\<rparr>"

definition literal_codec :: "('k, 'v) backend \<Rightarrow> string \<Rightarrow> ('k, 'v) key_codec" where
  "literal_codec be coll = \<lparr>kc_backend = be, kc_collection_prefix = coll, kc_layout = Literal, kc_bytes = False, kc_sha256 = id\<rparr>"

definition file_docs :: "expiry_gc \<Rightarrow> (fs, nat, string) object_backend" where
  "file_docs gc = (let be = \<lparr>be_kvset = num_docs, be_scope = [], be_binding = filesystem_binding ''/data'' num_docs, be_batch_size = 2\<rparr> in
     \<lparr>ob_backend = be, ob_driver = fs_driver, ob_ttl_source = FilesystemSidecar, ob_expiry_gc = gc, ob_io_concurrency = 4,
      ob_key_codec = literal_codec be ''/data/docs/v1/'', ob_now = fs_now\<rparr>)"

definition empty_fs :: "time \<Rightarrow> fs" where
  "empty_fs t = \<lparr>fs_files = [], fs_dirs = set (ancestors docs_dir), fs_now = t, fs_next_inode = 1\<rparr>"

text \<open>They are what the constructor makes of an empty disk.\<close>

lemma file_docs_new:
  "new_filesystem_store num_docs ''/data'' True gc [] None 2 4 literal_codec \<lparr>fs_files = [], fs_dirs = {}, fs_now = t, fs_next_inode = 1\<rparr>
    = (Inr (file_docs gc), empty_fs t)"
proof -
  have coll: "filesystem_collection ''/data'' num_docs = ''/data/docs/v1/''" by code_simp
  have path: "path_of ''/data/docs/v1/'' = docs_dir" by code_simp
  have valid: "validate_scope num_docs [] = None" by code_simp
  have ends: "endswith ''/data/docs/v1/'' ''/''" by code_simp
  show ?thesis
    by (simp add: new_filesystem_store_def Let_def filesystem_binding_def coll ends path mkdir_parents_def is_file_def list_ex_iff thenP_run bindP_run
        liftP_def new_backend_def valid new_object_backend_def file_docs_def empty_fs_def split: option.splits)
qed

lemma number_round: "number_of (nat_string n) = Some n"
  using text_time_token [of "int n"] by (simp add: number_of_def token_text_def)

lemma quote_plain: "list_all unreserved s \<Longrightarrow> quote s = s"
  by (induction s) (simp_all add: quote_def)

lemma number_name:
  "quote (nat_string n) = nat_string n" "plain_name (nat_string n)"
proof -
  have digit: "unreserved c" if "c \<in> set (nat_string n)" for c
    using digit_range [OF that] by (simp add: unreserved_def Let_def)
  then show "quote (nat_string n) = nat_string n" by (intro quote_plain) (simp add: list_all_iff)
  have ends: "last (nat_string n) \<noteq> c" "hd (nat_string n) \<noteq> d" if "57 < (of_char c :: nat)" "(of_char d :: nat) < 48" for c d
    using digit_range [of "last (nat_string n)" n] digit_range [of "hd (nat_string n)" n] that by auto
  have "nat_string n \<noteq> u @ ''.tmp''" "nat_string n \<noteq> u @ ''.expires''" for u
    using ends(1) [of "CHR ''p''" "CHR ''.''"] ends(1) [of "CHR ''s''" "CHR ''.''"] by auto
  moreover have "nat_string n \<noteq> ''.''" "nat_string n \<noteq> ''..''" "CHR ''/'' \<notin> set (nat_string n)"
    using ends(2) [of "CHR ''p''" "CHR ''.''"] digit_range [of "CHR ''/''" n] by auto
  ultimately show "plain_name (nat_string n)"
    by (auto simp: plain_name_def plain_component_def endswith_iff)
qed

lemma file_docs_codec: "in_key_blob (ob_key_codec (file_docs gc)) n = Inr (nat_string n)"
  by (simp add: in_key_blob_def file_docs_def Let_def literal_codec_def leaf_blob_def num_docs_def serde_result_def item_key_def
      filesystem_binding_def scope_parts_def blob_join_py_join)

lemma file_docs_storable: "fs_storable docs_dir (file_docs gc)"
proof -
  have posix: "as_posix docs_dir @ ''/'' = ''/data/docs/v1/''" by code_simp
  have keys: "\<exists>b. in_key_blob (ob_key_codec (file_docs gc)) k = Inr b
      \<and> plain_name (encode_path (kc_sha256 (ob_key_codec (file_docs gc))) (kc_bytes (ob_key_codec (file_docs gc))) Literal b)" for k
    using number_name [of k] by (simp add: file_docs_codec, simp add: file_docs_def Let_def literal_codec_def encode_path_def)
  show ?thesis
    unfolding fs_storable_def Let_def using docs_dir_directory keys posix number_round
    by (simp add: file_docs_def Let_def literal_codec_def num_docs_def keys_round_trip_def)
qed

lemma file_docs_listable: "fs_listable (file_docs gc)"
  by (simp add: fs_listable_def file_docs_def Let_def literal_codec_def num_docs_def)

lemma empty_fs_inv: "fs_inv docs_dir (empty_fs t)"
proof -
  have "docs_dir @ [n] \<notin> set (ancestors docs_dir)" for n
    using ancestors_shorter [of "docs_dir @ [n]" docs_dir] by auto
  then show ?thesis by (simp add: fs_inv_def empty_fs_def is_file_def)
qed

lemma empty_fs_objects: "fs_objects docs_dir (empty_fs t) p = None"
  by (simp add: fs_objects_def empty_fs_def)

interpretation file_docs: listed_records fs_driver "fs_objects docs_dir" fs_now "fs_inv docs_dir" "names_in docs_dir" fs_fits fs_stamp
    "fs_clear docs_dir" "file_docs gc" for gc
  by (rule fs_storable_listed [OF file_docs_storable file_docs_listable])

text \<open>The media a property is about, and what a collection holds there.\<close>

definition fs_ready :: "path \<Rightarrow> (fs, 'k, 'v) object_backend \<Rightarrow> fs \<Rightarrow> bool" where
  "fs_ready P ob w \<longleftrightarrow> fs_storable P ob \<and> object_inv (fs_inv P) (fs_objects P) ob w"

abbreviation fs_at :: "path \<Rightarrow> (fs, 'k, 'v) object_backend \<Rightarrow> fs \<Rightarrow> 'k \<Rightarrow> (string \<times> blob_stat) option" where
  "fs_at P \<equiv> object_at (fs_objects P)"

abbreviation fs_holds :: "path \<Rightarrow> (fs, 'k, 'v) object_backend \<Rightarrow> fs \<Rightarrow> 'k \<Rightarrow> 'v option" where
  "fs_holds P \<equiv> object_holds (fs_objects P)"

lemma fs_ready_records: "fs_ready P ob w \<Longrightarrow> object_records fs_driver (fs_objects P) fs_now (fs_inv P) (names_in P) fs_fits fs_stamp ob"
  and fs_ready_inv: "fs_ready P ob w \<Longrightarrow> object_inv (fs_inv P) (fs_objects P) ob w"
  by (simp_all add: fs_ready_def fs_storable_records)

lemma empty_fs_ready: "fs_ready docs_dir (file_docs gc) (empty_fs t)"
  using file_docs_storable empty_fs_inv by (auto simp: fs_ready_def object_inv_def object_at_def empty_fs_objects split: sum.splits)

lemma empty_fs_holds: "fs_holds docs_dir (file_docs gc) (empty_fs t) = Map.empty"
  by (rule ext) (simp add: object_holds_def object_at_def empty_fs_objects stale_def split: sum.splits)

lemma fs_objects_now [simp]: "fs_objects P (w\<lparr>fs_now := t\<rparr>) = fs_objects P w"
  by (rule ext) (auto simp: fs_objects_def stat_for_path_def native_expires_def split: option.splits)

lemma fs_at_now [simp]: "fs_at P ob (w\<lparr>fs_now := t\<rparr>) = fs_at P ob w"
  by (rule ext) (simp add: object_at_def split: sum.splits)

lemma later_ready: "fs_ready P ob w \<Longrightarrow> fs_ready P ob (w\<lparr>fs_now := t\<rparr>)"
  by (simp add: fs_ready_def object_inv_def, simp add: fs_inv_def is_file_def)

section \<open>Expiry\<close>

text \<open>When a write at time \<open>t\<close> expires, and whether the store takes its options.\<close>

definition fs_expiry :: "('w, 'k, 'v) object_backend \<Rightarrow> time \<Rightarrow> ttl_policy option \<Rightarrow> time option \<Rightarrow> time option" where
  "fs_expiry ob t ttl created = (let base = object_clock_base created t in
     case ttl of Some _ \<Rightarrow> Some (written_expiry (resolve_ttl_seconds (ob_backend ob) ttl) base)
     | None \<Rightarrow> map_option (\<lambda>secs. base + secs * microseconds) (object_ttl ob))"

definition fs_takes :: "('w, 'k, 'v) object_backend \<Rightarrow> ttl_policy option \<Rightarrow> bool" where
  "fs_takes ob ttl \<longleftrightarrow> ob_ttl_source ob = FilesystemSidecar \<or> ttl = None"

definition before_expiry :: "time \<Rightarrow> time option \<Rightarrow> bool" where
  "before_expiry t e = (case e of None \<Rightarrow> True | Some e \<Rightarrow> t < e)"

lemma fs_takes_iff:
  assumes "fs_storable P ob"
  shows "object_records.takes ob ttl created \<longleftrightarrow> fs_takes ob ttl"
  using assms by (auto simp: object_records.takes_def [OF fs_storable_records [OF assms]] fs_takes_def fs_storable_def Let_def)

lemma fs_lives:
  assumes "fs_storable P ob" "fs_takes ob ttl"
  shows "object_records.lives fs_stamp ob t t' ttl created \<longleftrightarrow> before_expiry t' (fs_expiry ob t ttl created)"
proof -
  note rec = fs_storable_records [OF assms(1)]
  have "ob_ttl_source ob \<in> {FilesystemMtime, FilesystemSidecar}" using assms(1) by (simp add: fs_storable_def Let_def)
  then show ?thesis using assms(2)
    by (cases ttl; cases created; cases "resolve_ttl_seconds (ob_backend ob) ttl"; cases "object_ttl ob")
      (auto simp: object_records.lives_def [OF rec] object_records.headers_of_def [OF rec] Let_def fs_stamp_def fs_takes_def fs_expiry_def before_expiry_def
        object_clock_base_def written_expiry_def written_token_def expired_natively_def expired_by_object_time_def object_ttl_def not_le)
qed



section \<open>Operations in sequence\<close>

datatype ('k, 'v) command =
    SetTo 'k 'v write_options
  | DeleteOf 'k
  | GetOf 'k
  | ExistsOf 'k
  | BatchGetOf "'k list"
  | BatchExistsOf "'k list"

datatype ('k, 'v) answer =
    Acknowledged
  | FoundValue "'v option"
  | WhetherThere bool
  | FoundValues "'k \<Rightarrow> 'v option"
  | ThoseThere "'k set"

text \<open>A command on a keymap, and on a map.\<close>

fun on_keymap :: "('w, 'k, 'v) keymap \<Rightarrow> ('k, 'v) command \<Rightarrow> ('w, ('k, 'v) answer) prog" where
  "on_keymap km (SetTo k v opts) = mapP (\<lambda>_. Acknowledged) (km_set km k v opts)"
| "on_keymap km (DeleteOf k) = mapP (\<lambda>_. Acknowledged) (km_delete km k)"
| "on_keymap km (GetOf k) = mapP FoundValue (km_get km k)"
| "on_keymap km (ExistsOf k) = mapP WhetherThere (km_exists km k)"
| "on_keymap km (BatchGetOf ks) = mapP (\<lambda>d. FoundValues (dget d)) (km_batch_get km ks)"
| "on_keymap km (BatchExistsOf ks) = mapP ThoseThere (km_batch_exists km ks)"

fun on_map :: "('k, 'v) command \<Rightarrow> ('k \<Rightarrow> 'v option) \<Rightarrow> ('k, 'v) answer \<times> ('k \<Rightarrow> 'v option)" where
  "on_map (SetTo k v opts) m = (Acknowledged, m(k \<mapsto> v))"
| "on_map (DeleteOf k) m = (Acknowledged, m(k := None))"
| "on_map (GetOf k) m = (FoundValue (m k), m)"
| "on_map (ExistsOf k) m = (WhetherThere (m k \<noteq> None), m)"
| "on_map (BatchGetOf ks) m = (FoundValues (\<lambda>k. if k \<in> set ks then m k else None), m)"
| "on_map (BatchExistsOf ks) m = (ThoseThere {k \<in> set ks. m k \<noteq> None}, m)"

primrec on_map_all :: "('k, 'v) command list \<Rightarrow> ('k \<Rightarrow> 'v option) \<Rightarrow> ('k, 'v) answer list \<times> ('k \<Rightarrow> 'v option)" where
  "on_map_all [] m = ([], m)"
| "on_map_all (c # cs) m = (case on_map c m of (a, m') \<Rightarrow> case on_map_all cs m' of (as, m'') \<Rightarrow> (a # as, m''))"

text \<open>The writes among the commands are taken, and not expired when they are made.\<close>

definition command_ok :: "(ttl_policy option \<Rightarrow> time option \<Rightarrow> bool) \<Rightarrow> ('k, 'v) command \<Rightarrow> bool" where
  "command_ok live c \<longleftrightarrow> (case c of SetTo k v opts \<Rightarrow> live (wo_ttl opts) (wo_created_at opts) | _ \<Rightarrow> True)"

context object_records
begin

lemma tidied_keeps: "inv w \<Longrightarrow> tidied K w w' \<Longrightarrow> inv w' \<and> now w' = now w \<and> holds w' = holds w"
  using tidied_inv [of K w w'] tidied_holds [of K w w'] by (simp add: tidied_def)

lemma command_step:
  assumes inv: "inv w" and ok: "command_ok (taken_live w) c"
  shows "\<exists>w'. on_keymap (object_keymap ob) c w = (Inr (fst (on_map c (holds w))), w') \<and> inv w' \<and> now w' = now w
    \<and> holds w' = snd (on_map c (holds w))"
proof (cases c)
  case (SetTo k v opts)
  with ok have live: "takes (wo_ttl opts) (wo_created_at opts)" "lives (now w) (now w) (wo_ttl opts) (wo_created_at opts)"
    by (simp_all add: command_ok_def taken_live_def)
  from set_step [OF inv live(1), of k v] live(2) obtain w' where
    "object_set ob k v opts w = (Inr (), w')" "inv w'" "now w' = now w" "holds w' = (holds w)(k \<mapsto> v)" by auto
  with SetTo show ?thesis by (simp add: object_keymap_def mapP_run)
next
  case (DeleteOf k)
  from delete_step [OF inv, of k] DeleteOf show ?thesis by (auto simp: object_keymap_def mapP_run)
next
  case (GetOf k)
  from get_reads inv obtain w' where "object_get ob k w = (Inr (holds w k), w')" "tidied {k} w w'" unfolding reads_def by blast
  with GetOf tidied_keeps [OF inv] show ?thesis by (auto simp: object_keymap_def mapP_run)
next
  case (ExistsOf k)
  from exists_reads inv obtain w' where "object_exists ob k w = (Inr (holds w k \<noteq> None), w')" "tidied {k} w w'" unfolding reads_def by blast
  with ExistsOf tidied_keeps [OF inv] show ?thesis by (auto simp: object_keymap_def mapP_run)
next
  case (BatchGetOf ks)
  from batch_get_run [OF inv, of ks] obtain d w' where
    d: "object_batch_get ob ks w = (Inr d, w')" "tidied (set ks) w w'" "\<forall>k. dget d k = (if k \<in> set ks then holds w k else None)" by blast
  from d(3) have "dget d = (\<lambda>k. if k \<in> set ks then holds w k else None)" by auto
  with BatchGetOf d(1,2) tidied_keeps [OF inv] show ?thesis by (auto simp: object_keymap_def mapP_run)
next
  case (BatchExistsOf ks)
  from batch_exists_run [OF inv, of ks] BatchExistsOf tidied_keeps [OF inv]
  show ?thesis by (auto simp: object_keymap_def mapP_run)
qed

theorem commands_refine:
  assumes "inv w" "list_all (command_ok (taken_live w)) cs"
  shows "\<exists>w'. collectP (on_keymap (object_keymap ob)) cs w = (Inr (fst (on_map_all cs (holds w))), w') \<and> inv w'
    \<and> holds w' = snd (on_map_all cs (holds w))"
  using assms
proof (induction cs arbitrary: w)
  case (Cons c cs)
  then have c: "command_ok (taken_live w) c" by simp
  from command_step [OF Cons.prems(1) c] obtain w1 where
    w1: "on_keymap (object_keymap ob) c w = (Inr (fst (on_map c (holds w))), w1)" "inv w1" "now w1 = now w"
      "holds w1 = snd (on_map c (holds w))" by blast
  have "taken_live w1 = taken_live w" by (simp add: taken_live_def w1(3) fun_eq_iff)
  with Cons.IH [OF w1(2)] Cons.prems(2) w1 show ?case by (auto simp: prog_simps split: prod.splits)
qed simp

end

text \<open>
  C36. A collection of files is a map. Whatever sequence of reads, batch reads, writes and
  deletions runs on it, each answers what it answers on the map from keys to values that the
  collection holds, and the collection then holds that map; expired objects are no values,
  and the deletions that reading them causes change none.
\<close>

theorem fs_store_refines_map:
  assumes "fs_ready P ob w"
    and "list_all (command_ok (\<lambda>ttl created. fs_takes ob ttl \<and> before_expiry (fs_now w) (fs_expiry ob (fs_now w) ttl created))) cs"
  shows "\<exists>w'. collectP (on_keymap (object_keymap ob)) cs w = (Inr (fst (on_map_all cs (fs_holds P ob w))), w')
    \<and> fs_ready P ob w' \<and> fs_holds P ob w' = snd (on_map_all cs (fs_holds P ob w))"
proof -
  note rec = fs_ready_records [OF assms(1)]
  have storable: "fs_storable P ob" using assms(1) by (simp add: fs_ready_def)
  have "object_records.taken_live fs_now fs_stamp ob w ttl created
      \<longleftrightarrow> fs_takes ob ttl \<and> before_expiry (fs_now w) (fs_expiry ob (fs_now w) ttl created)" for ttl created
    unfolding object_records.taken_live_def [OF rec] fs_takes_iff [OF storable] using fs_lives [OF storable] by blast
  then have "object_records.taken_live fs_now fs_stamp ob w
      = (\<lambda>ttl created. fs_takes ob ttl \<and> before_expiry (fs_now w) (fs_expiry ob (fs_now w) ttl created))" by blast
  from object_records.commands_refine [OF rec fs_ready_inv [OF assms(1)], of cs] assms(2) storable this
  show ?thesis by (auto simp: fs_ready_def)
qed

theorem fs_store_refines_map_witness:
  "\<exists>w'. collectP (on_keymap (object_keymap (file_docs LazyDelete)))
      [SetTo 1 ''a'' no_options, SetTo 2 ''b'' \<lparr>wo_ttl = Some ttl_hourly, wo_created_at = None\<rparr>, DeleteOf 1, GetOf 2, ExistsOf 1] (empty_fs 0)
    = (Inr [Acknowledged, Acknowledged, Acknowledged, FoundValue (Some ''b''), WhetherThere False], w')"
proof -
  let ?ok = "\<lambda>ttl created. fs_takes (file_docs LazyDelete) ttl \<and> before_expiry 0 (fs_expiry (file_docs LazyDelete) 0 ttl created)"
  have ok: "?ok None None" "?ok (Some ttl_hourly) None" by code_simp+
  have now: "fs_now (empty_fs 0) = 0" by (simp add: empty_fs_def)
  from fs_store_refines_map [OF empty_fs_ready, of LazyDelete 0
      "[SetTo 1 ''a'' no_options, SetTo 2 ''b'' \<lparr>wo_ttl = Some ttl_hourly, wo_created_at = None\<rparr>, DeleteOf 1, GetOf 2, ExistsOf 1]"] ok
  show ?thesis by (auto simp: now command_ok_def no_options_def empty_fs_holds)
qed

section \<open>Inserts\<close>

text \<open>
  C37. Inserting is exact. A conditional batch against absent keys writes exactly the keys
  put under which no file is -- a file that has expired and is still there is in the way -- and
  answers them; the others hold what they held.
\<close>

theorem fs_insert_exact:
  assumes "fs_ready P ob w" "dict_ok writes"
    and "\<forall>(k, cw) \<in> set writes. seen_version (cw_seen cw) = None \<and> (cw_change cw \<noteq> Remove \<longrightarrow> fs_takes ob ttl)"
  shows "\<exists>w'. object_batch_write_if_unchanged ob writes ttl w = (Inr (inserted (fs_at P ob w) writes), w') \<and> fs_ready P ob w'
    \<and> (\<forall>k. k \<notin> inserted (fs_at P ob w) writes \<longrightarrow> fs_holds P ob w' k = fs_holds P ob w k)
    \<and> (\<forall>k cw v. k \<in> inserted (fs_at P ob w) writes \<longrightarrow> dget writes k = Some cw \<longrightarrow> cw_change cw = Put v \<longrightarrow> fs_holds P ob w' k
         = (if before_expiry (fs_now w) (fs_expiry ob (fs_now w) ttl (cw_created_at cw)) then Some v else None))"
proof -
  note rec = fs_ready_records [OF assms(1)]
  have storable: "fs_storable P ob" using assms(1) by (simp add: fs_ready_def)
  have "list_all (object_records.inserts ob ttl) writes"
    using assms(3) by (auto simp: list_all_iff object_records.inserts_def [OF rec] fs_takes_iff [OF storable])
  from object_records.insert_batch_law [OF rec fs_ready_inv [OF assms(1)] assms(2) this] obtain w' where
    w': "object_batch_write_if_unchanged ob writes ttl w = (Inr (inserted (fs_at P ob w) writes), w')"
      "object_inv (fs_inv P) (fs_objects P) ob w'"
      "\<And>j. j \<notin> inserted (fs_at P ob w) writes \<Longrightarrow> fs_holds P ob w' j = fs_holds P ob w j"
      "\<And>j cw v. \<lbrakk>j \<in> inserted (fs_at P ob w) writes; dget writes j = Some cw; cw_change cw = Put v\<rbrakk> \<Longrightarrow> fs_holds P ob w' j
         = (if object_records.lives fs_stamp ob (fs_now w) (fs_now w) ttl (cw_created_at cw) then Some v else None)" by blast
  have takes: "fs_takes ob ttl" if "dget writes k = Some cw" "cw_change cw = Put v" for k cw v
    using assms(3) map_of_SomeD [OF that(1)] that(2) by auto
  from w'(1-3) w'(4) fs_lives [OF storable takes] storable show ?thesis
    by (intro exI [of _ w']) (simp add: fs_ready_def)
qed

text \<open>The key \<open>7\<close> holds a file that expired; \<open>8\<close> holds none.\<close>

definition one_expired :: fs where
  "one_expired = (snd (object_set (file_docs Hide) 7 ''old'' \<lparr>wo_ttl = Some (TtlPolicy (Some 1)), wo_created_at = Some (- 999999)\<rparr> (empty_fs 0)))\<lparr>fs_now := 1\<rparr>"

lemma set_ready:
  assumes "fs_ready P ob w" "fs_takes ob (wo_ttl opts)"
  shows "fs_ready P ob (snd (object_set ob k v opts w))"
proof -
  note rec = fs_ready_records [OF assms(1)]
  have storable: "fs_storable P ob" using assms(1) by (simp add: fs_ready_def)
  from object_records.set_step [OF rec fs_ready_inv [OF assms(1)] fs_takes_iff [OF storable, THEN iffD2, OF assms(2)], of k v]
  show ?thesis using storable by (auto simp: fs_ready_def)
qed

lemma set_holds:
  assumes "fs_ready P ob w" "fs_takes ob (wo_ttl opts)" "before_expiry (fs_now w) (fs_expiry ob (fs_now w) (wo_ttl opts) (wo_created_at opts))"
  shows "fs_holds P ob (snd (object_set ob k v opts w)) = (fs_holds P ob w)(k \<mapsto> v)"
proof -
  note rec = fs_ready_records [OF assms(1)]
  have storable: "fs_storable P ob" using assms(1) by (simp add: fs_ready_def)
  have "object_records.lives fs_stamp ob (fs_now w) (fs_now w) (wo_ttl opts) (wo_created_at opts)"
    using fs_lives [OF storable assms(2)] assms(3) by blast
  with object_records.set_step [OF rec fs_ready_inv [OF assms(1)] fs_takes_iff [OF storable, THEN iffD2, OF assms(2)], of k v]
  show ?thesis by auto
qed

lemma one_expired_ready: "fs_ready docs_dir (file_docs Hide) one_expired"
proof -
  have "fs_takes (file_docs Hide) (Some (TtlPolicy (Some 1)))" by code_simp
  then show ?thesis unfolding one_expired_def by (intro later_ready set_ready empty_fs_ready) simp
qed

lemma one_expired_at: "fs_at docs_dir (file_docs Hide) one_expired n \<noteq> None \<longleftrightarrow> n = 7"
proof -
  let ?opts = "\<lparr>wo_ttl = Some (TtlPolicy (Some 1)), wo_created_at = Some (- 999999)\<rparr>"
  have takes: "fs_takes (file_docs Hide) (wo_ttl ?opts)" by code_simp
  from file_docs.set_step [where k = 7 and v = "''old''" and w = "empty_fs 0", OF fs_ready_inv [OF empty_fs_ready]
      fs_takes_iff [OF file_docs_storable, THEN iffD2, OF takes]]
  obtain b s w' where w': "object_set (file_docs Hide) 7 ''old'' ?opts (empty_fs 0) = (Inr (), w')"
    "fs_at docs_dir (file_docs Hide) w' = (fs_at docs_dir (file_docs Hide) (empty_fs 0))(7 \<mapsto> (b, s))" by blast
  have "fs_at docs_dir (file_docs Hide) (empty_fs 0) n = None" by (simp add: object_at_def empty_fs_objects split: sum.splits)
  then show ?thesis by (simp add: one_expired_def w')
qed

theorem fs_insert_exact_witness:
  "\<exists>w'. object_batch_write_if_unchanged (file_docs Hide)
      [(7, ConditionalWrite absent (Put ''a'') None), (8, ConditionalWrite absent (Put ''b'') None)] None one_expired = (Inr {8}, w')
    \<and> fs_holds docs_dir (file_docs Hide) w' 8 = Some ''b''"
proof -
  let ?writes = "[(7, ConditionalWrite absent (Put ''a'') None), (8, ConditionalWrite absent (Put ''b'') None)]"
  have live: "before_expiry (fs_now one_expired) (fs_expiry (file_docs Hide) (fs_now one_expired) None None)" by code_simp
  have "inserted (fs_at docs_dir (file_docs Hide) one_expired) ?writes = {8}"
    using one_expired_at [of 7] one_expired_at [of 8]
    by (cases "fs_at docs_dir (file_docs Hide) one_expired 8") (auto simp: inserted_def split: if_splits)
  with fs_insert_exact [OF one_expired_ready, of ?writes None] live show ?thesis by (auto simp: absent_def fs_takes_def)
qed

section \<open>Scans and collection\<close>

text \<open>Every file the store would list in its directory is that of one of its keys.\<close>

definition fs_own :: "path \<Rightarrow> (fs, 'k, 'v) object_backend \<Rightarrow> fs \<Rightarrow> bool" where
  "fs_own P ob w \<longleftrightarrow> object_own (fs_clear P) (fs_objects P) ob w"


lemma one_expired_own: "fs_own docs_dir (file_docs Hide) one_expired"
proof -
  have listing: "listing_prefix (ob_key_codec (file_docs Hide)) None = Inr (in_dir docs_dir [])" by code_simp
  have name: "encode_physical (ob_key_codec (file_docs Hide)) 7 = Inr (in_dir docs_dir ''7'')" by code_simp
  have files: "filter (\<lambda>p. under docs_dir p \<and> listed_name p) (dkeys (fs_files one_expired)) = [docs_dir @ [''7'']]" by code_simp
  have plain: "plain_name ''7''" by code_simp
  have "p = docs_dir @ [''7'']" if "p \<in> set (dkeys (fs_files one_expired))" "under docs_dir p" "listed_name p" for p
  proof -
    have "p \<in> set (filter (\<lambda>p. under docs_dir p \<and> listed_name p) (dkeys (fs_files one_expired)))" using that by simp
    then show ?thesis unfolding files by simp
  qed
  note only = this
  then have clear: "fs_clear docs_dir one_expired (in_dir docs_dir [])" using plain by (fastforce simp: fs_clear_def)
  moreover have "\<exists>k. encode_physical (ob_key_codec (file_docs Hide)) k = Inr p" if "fs_objects docs_dir one_expired p \<noteq> None" for p
  proof -
    from that obtain n where n: "p = in_dir docs_dir n" "plain_name n" using fs_objects_other by (metis names_in_def)
    with that have "dget (fs_files one_expired) (docs_dir @ [n]) \<noteq> None" by (auto simp: fs_objects_held [OF docs_dir_directory] held_in_def)
    then have "docs_dir @ [n] \<in> set (dkeys (fs_files one_expired))" unfolding dkeys_dom by blast
    moreover have "under docs_dir (docs_dir @ [n])" "listed_name (docs_dir @ [n])"
      using n(2) by (simp_all add: under_def listed_name_def plain_name_def)
    ultimately have "docs_dir @ [n] = docs_dir @ [''7'']"
      by (rule only)
    with n(1) name show ?thesis by (intro exI [of _ 7]) simp
  qed
  ultimately show ?thesis by (simp add: fs_own_def object_own_def listing)
qed



lemma one_expired_stale: "stale (file_docs Hide) (fs_now one_expired) (fs_at docs_dir (file_docs Hide) one_expired n) \<longleftrightarrow> n = 7"
proof -
  let ?opts = "\<lparr>wo_ttl = Some (TtlPolicy (Some 1)), wo_created_at = Some (- 999999)\<rparr>"
  have takes: "fs_takes (file_docs Hide) (wo_ttl ?opts)" by code_simp
  have expiry: "\<not> before_expiry 1 (fs_expiry (file_docs Hide) (fs_now (empty_fs 0)) (wo_ttl ?opts) (wo_created_at ?opts))" by code_simp
  from file_docs.set_step [where k = 7 and v = "''old''" and w = "empty_fs 0", OF fs_ready_inv [OF empty_fs_ready]
      fs_takes_iff [OF file_docs_storable, THEN iffD2, OF takes]]
  obtain b s w' where w': "object_set (file_docs Hide) 7 ''old'' ?opts (empty_fs 0) = (Inr (), w')"
    "fs_at docs_dir (file_docs Hide) w' = (fs_at docs_dir (file_docs Hide) (empty_fs 0))(7 \<mapsto> (b, s))"
    "object_records.stamped fs_stamp (file_docs Hide) (fs_now (empty_fs 0)) (wo_ttl ?opts) (wo_created_at ?opts) s" by blast
  from file_docs.stamped_expired [OF w'(3), of 1] fs_lives [OF file_docs_storable takes] expiry
  have "is_expired (ob_ttl_source (file_docs Hide)) 1 s (object_ttl (file_docs Hide))" by blast
  moreover have "fs_at docs_dir (file_docs Hide) (empty_fs 0) n = None" by (simp add: object_at_def empty_fs_objects split: sum.splits)
  ultimately show ?thesis by (simp add: one_expired_def w' stale_def)
qed


section \<open>What the code does beside its word\<close>

text \<open>A resumed scan starts over: the compiled scan does not depend on the cursor.\<close>

lemma object_scan_ignores_cursor:
  "cap_resumable object_scan_capabilities"
  "object_compile_scan ob (spec\<lparr>sp_cursor := Some k\<rparr>) = object_compile_scan ob spec"
  by (simp_all add: object_scan_capabilities_def object_compile_scan_def enforce_strict_def split: prod.splits sum.splits)

text \<open>S3 and Azure take the clock of a writer, and write nothing of it without a time to live of the write.\<close>

lemma write_clock_dropped:
  "source_supports_write_clock S3Expires" "write_headers S3Expires ttl base False True = write_headers S3Expires ttl base' False False"
  "source_supports_write_clock AzureMetadata" "write_headers AzureMetadata ttl base False True = write_headers AzureMetadata ttl base' False False"
  by simp_all

text \<open>A record reported as one that never expires expires at the end of 2099.\<close>

lemma persistent_expires:
  assumes "bs_native_expires_at stat = Some ttl_none_expires_at"
  shows "rs_persistent (to_record_stat FilesystemSidecar stat ttl)" "rs_expires_at (to_record_stat FilesystemSidecar stat ttl) = None"
    "is_expired FilesystemSidecar ttl_none_expires_at stat ttl"
  using assms by (simp_all add: stat_natively_def stat_with_expiry_def expired_natively_def)

text \<open>The file of one key is the sidecar, or the temporary file, of another, and is never listed.\<close>

lemma sidecar_is_a_key:
  "expires_sidecar (path_of ''d/a'') = path_of ''d/a.expires''" "with_suffix (path_of ''d/a'') ''.tmp'' = path_of ''d/a.tmp''"
  "\<not> listed_name (path_of ''d/a.expires'')" "\<not> listed_name (path_of ''d/a.tmp'')"
  by code_simp+

text \<open>Items after the one that failed have run all the same.\<close>

lemma pool_runs_on:
  "map_concurrent [True, False] (\<lambda>fails w. if fails then (Inl ValueError, w) else (Inr (), Suc w)) 2 0 = (Inl ValueError, 1)"
  "map_concurrent [True, False] (\<lambda>fails w. if fails then (Inl ValueError, w) else (Inr (), Suc w)) 1 0 = (Inl ValueError, 0)"
  by (simp_all add: map_concurrent_def bindP_run)

end
