(* ===== verification/Cache_Properties.thy ===== *)
theory Cache_Properties
  imports Object_Properties Composition_Properties
begin

text \<open>A cache in memory before a store of files: the contracts of both, put together.\<close>

locale memory_before_files = l: memory_collection mb + r: object_records dr objs now minv good fits stamp ob
  for mb :: "('k, 'v) memory_backend"
    and dr :: "'w driver" and objs now minv good fits stamp and ob :: "('w, 'k, 'v) object_backend"

sublocale memory_before_files \<subseteq> through: read_through "memory_keymap mb" "memory_holds mb" "memory_inv mb" "memory_live mb"
    "memory_ver mb" "memory_evolves mb" "object_keymap ob" "object_holds objs ob" "object_inv minv objs ob"
  by unfold_locales

sublocale memory_before_files \<subseteq> together: written_together "memory_keymap mb" "memory_holds mb" "memory_inv mb" "memory_live mb"
    "object_keymap ob" "object_holds objs ob" "object_inv minv objs ob" "r.taken_live"
  by unfold_locales

context memory_before_files
begin

lemmas reading = through.read_through_axioms

end

lemma storable_before_files:
  "storable mb \<Longrightarrow> fs_storable P ob
    \<Longrightarrow> memory_before_files mb fs_driver (fs_objects P) fs_now (fs_inv P) (names_in P) fs_fits fs_stamp ob"
  by (simp add: memory_before_files_def storable_collection fs_storable_records)

text \<open>Documents under numbers, in memory and in files.\<close>

definition num_memory :: "(nat, string) memory_backend" where
  "num_memory = \<lparr>mb_backend = \<lparr>be_kvset = num_docs, be_scope = [], be_binding = native_str_binding num_docs, be_batch_size = 500\<rparr>,
     mb_expiry_gc = Hide\<rparr>"

lemma num_memory_storable: "storable num_memory"
  using number_round by (simp add: storable_def num_memory_def num_docs_def keys_round_trip_def)

interpretation cached_files: memory_before_files num_memory fs_driver "fs_objects docs_dir" fs_now "fs_inv docs_dir" "names_in docs_dir"
    fs_fits fs_stamp "file_docs gc" for gc
  by (rule storable_before_files [OF num_memory_storable file_docs_storable])

text \<open>
  C40. A cache in memory before a store of files answers a read, and each key of a batch read,
  with what the cache holds, or else with what the files hold. Reading changes no value but
  one: where \<open>promote\<close> is set, the cache may come to hold a copy of what a file holds
  for a key it held nothing for.
\<close>

theorem cached_files_serve:
  assumes "storable mb" "memory_inv mb w" "fs_ready P ob u"
    and "coalesced_store_topology (left_store (memory_store mb)) (right_store (object_store ob)) promote = Inr tp"
  defines "holds \<equiv> \<lambda>k. case memory_holds mb w k of Some v \<Rightarrow> Some v | None \<Rightarrow> fs_holds P ob u k"
    and "unchanged \<equiv> \<lambda>w' u'. fs_holds P ob u' = fs_holds P ob u \<and> (\<forall>j. memory_holds mb w' j = memory_holds mb w j
        \<or> (promote \<and> memory_holds mb w j = None \<and> memory_holds mb w' j = fs_holds P ob u j))"
  shows "(\<exists>w' u'. topo_read tp k (w, u) = (Inr (holds k), (w', u')) \<and> unchanged w' u')
    \<and> (\<exists>d w' u'. topo_batch_read tp ks (w, u) = (Inr d, (w', u')) \<and> unchanged w' u'
      \<and> (\<forall>k. dget d k = (if k \<in> set ks then holds k else None)))"
proof -
  have storable: "fs_storable P ob" and inv: "object_inv (fs_inv P) (fs_objects P) ob u" using assms(3) by (simp_all add: fs_ready_def)
  note through = memory_before_files.reading [OF storable_before_files [OF assms(1) storable]]
  have km: "st_keymap (memory_store mb) = memory_keymap mb" "st_keymap (object_store ob) = object_keymap ob"
    by (simp_all add: memory_store_def object_store_def)
  from read_through.fallback_read_law [OF through assms(4) km assms(2) inv]
  show ?thesis unfolding holds_def unchanged_def by (intro conjI) blast+
qed

text \<open>An empty cache, and a file that holds a document.\<close>

definition one_file :: fs where
  "one_file = snd (object_set (file_docs Hide) 7 ''v'' no_options (empty_fs 0))"

lemma one_file_ready: "fs_ready docs_dir (file_docs Hide) one_file"
  unfolding one_file_def by (intro set_ready empty_fs_ready) (simp add: fs_takes_def no_options_def)

lemma one_file_holds: "fs_holds docs_dir (file_docs Hide) one_file = [7 \<mapsto> ''v'']"
proof -
  have takes: "fs_takes (file_docs Hide) (wo_ttl no_options)" by (simp add: fs_takes_def no_options_def)
  have expiry: "before_expiry (fs_now (empty_fs 0)) (fs_expiry (file_docs Hide) (fs_now (empty_fs 0)) (wo_ttl no_options) (wo_created_at no_options))"
    by code_simp
  from set_holds [OF empty_fs_ready takes expiry] show ?thesis by (simp only: one_file_def empty_fs_holds)
qed

definition cached_file_docs :: "(mem_root \<times> fs, nat, string) topology" where
  "cached_file_docs = projr (coalesced_store_topology (left_store (memory_store num_memory)) (right_store (object_store (file_docs Hide))) True)"

lemma cached_file_docs_declared:
  "coalesced_store_topology (left_store (memory_store num_memory)) (right_store (object_store (file_docs Hide))) True = Inr cached_file_docs"
  using coalesced_store_topology_is [of "left_store (memory_store num_memory)" True "right_store (object_store (file_docs Hide))"]
  by (auto simp: cached_file_docs_def)

theorem cached_files_serve_witness:
  "\<exists>w' u'. topo_read cached_file_docs 7 (empty_root 0, one_file) = (Inr (Some ''v''), (w', u'))"
proof -
  have empty: "memory_holds num_memory (empty_root 0) = (\<lambda>_. None)"
    by (auto simp: memory_holds_def live_at_def stored_at_def bucket_def empty_root_def fun_eq_iff split: sum.splits)
  have "memory_inv num_memory (empty_root 0)"
    by (simp add: memory_inv_def stored_at_def bucket_def empty_root_def split: sum.splits)
  from cached_files_serve [OF num_memory_storable this one_file_ready cached_file_docs_declared, of 7 "[]"]
  show ?thesis by (auto simp: empty one_file_holds)
qed

end
