(* ===== verification/Indexes.thy ===== *)
theory Indexes
  imports Compositions Key_Encoding
begin

text \<open>
  Indexes: the \<open>Index\<close> interface of \<open>src/kvtsjl/index/logical/abc.py\<close> as a record of
  operations with the defaults of the class, bundles of indexes
  (\<open>index/logical/bundle.py\<close>), the searches of \<open>store/compose/indexed.py\<close>, and the two
  indexes without metadata of \<open>backends/index/memory.py\<close>.

  The terms of a value, a \<open>set[str]\<close> that is never shown to a caller, is the list of them
  without repetition; the keys of a term, which a search lists, are a set, and \<open>mi_order\<close>
  is the order in which Python iterates over it.
\<close>

section \<open>The interface\<close>

datatype ('k, 'm) index_hit = IndexHit (hit_key: 'k) (hit_meta: 'm)

record ('w, 'q, 'k, 'v, 'm) index_ops =
  io_name :: string
  io_sync_on_write :: bool
  io_search :: "'q \<Rightarrow> int \<Rightarrow> ('w, ('k, 'm) index_hit list) prog"
  io_meta_of :: "'k \<Rightarrow> 'v \<Rightarrow> 'm option \<Rightarrow> 'm"
  io_get :: "'k \<Rightarrow> ('w, 'm option) prog"
  io_batch_get :: "'k list \<Rightarrow> ('w, ('k, 'm) dict) prog"
  io_exists :: "'k \<Rightarrow> ('w, bool) prog"
  io_batch_exists :: "'k list \<Rightarrow> ('w, 'k set) prog"
  io_set :: "'k \<Rightarrow> 'm \<Rightarrow> ('w, unit) prog"
  io_upsert :: "'k \<Rightarrow> 'v \<Rightarrow> 'm \<Rightarrow> ('w, unit) prog"
  io_batch_upsert :: "('k, 'v \<times> 'm) dict \<Rightarrow> ('w, unit) prog"
  io_delete :: "'k \<Rightarrow> ('w, bool) prog"
  io_batch_delete :: "'k list \<Rightarrow> ('w, int) prog"

definition default_batch_upsert ::
  "('k \<Rightarrow> 'v \<Rightarrow> 'm \<Rightarrow> ('w, unit) prog) \<Rightarrow> ('k, 'v \<times> 'm) dict \<Rightarrow> ('w, unit) prog" where
  "default_batch_upsert upsert items = iterP (\<lambda>(key, value, meta). upsert key value meta) items"

definition index_sync :: "('w, 'q, 'k, 'v, 'm) index_ops \<Rightarrow> 'k \<Rightarrow> 'v \<Rightarrow> ('w, unit) prog" where
  "index_sync io key value = bindP (io_get io key) (\<lambda>previous.
     io_upsert io key value (io_meta_of io key value previous))"

definition index_batch_sync :: "('w, 'q, 'k, 'v, 'm) index_ops \<Rightarrow> ('k, 'v) dict \<Rightarrow> ('w, unit) prog" where
  "index_batch_sync io items = bindP (io_batch_get io (dkeys items)) (\<lambda>previous_by_key.
     io_batch_upsert io (dmap (\<lambda>key value. (value, io_meta_of io key value (dget previous_by_key key))) items))"

text \<open>What a store attaches of it.\<close>

definition attached_index :: "('w, 'q, 'k, 'v, 'm) index_ops \<Rightarrow> ('w, 'k, 'v) index" where
  "attached_index io = \<lparr>ix_name = io_name io, ix_sync_on_write = io_sync_on_write io,
     ix_sync = index_sync io, ix_batch_sync = index_batch_sync io,
     ix_delete = io_delete io, ix_batch_delete = io_batch_delete io\<rparr>"

text \<open>An index on one of two media.\<close>

definition right_index :: "('u, 'q, 'k, 'v, 'm) index_ops \<Rightarrow> ('w \<times> 'u, 'q, 'k, 'v, 'm) index_ops" where
  "right_index io = \<lparr>io_name = io_name io, io_sync_on_write = io_sync_on_write io,
     io_search = \<lambda>q n. on_snd (io_search io q n), io_meta_of = io_meta_of io,
     io_get = \<lambda>k. on_snd (io_get io k), io_batch_get = \<lambda>ks. on_snd (io_batch_get io ks),
     io_exists = \<lambda>k. on_snd (io_exists io k), io_batch_exists = \<lambda>ks. on_snd (io_batch_exists io ks),
     io_set = \<lambda>k m. on_snd (io_set io k m),
     io_upsert = \<lambda>k v m. on_snd (io_upsert io k v m), io_batch_upsert = \<lambda>items. on_snd (io_batch_upsert io items),
     io_delete = \<lambda>k. on_snd (io_delete io k), io_batch_delete = \<lambda>ks. on_snd (io_batch_delete io ks)\<rparr>"

definition left_index :: "('w, 'q, 'k, 'v, 'm) index_ops \<Rightarrow> ('w \<times> 'u, 'q, 'k, 'v, 'm) index_ops" where
  "left_index io = \<lparr>io_name = io_name io, io_sync_on_write = io_sync_on_write io,
     io_search = \<lambda>q n. on_fst (io_search io q n), io_meta_of = io_meta_of io,
     io_get = \<lambda>k. on_fst (io_get io k), io_batch_get = \<lambda>ks. on_fst (io_batch_get io ks),
     io_exists = \<lambda>k. on_fst (io_exists io k), io_batch_exists = \<lambda>ks. on_fst (io_batch_exists io ks),
     io_set = \<lambda>k m. on_fst (io_set io k m),
     io_upsert = \<lambda>k v m. on_fst (io_upsert io k v m), io_batch_upsert = \<lambda>items. on_fst (io_batch_upsert io items),
     io_delete = \<lambda>k. on_fst (io_delete io k), io_batch_delete = \<lambda>ks. on_fst (io_batch_delete io ks)\<rparr>"

section \<open>Binding indexes to a store\<close>

text \<open>The store an index is bound to, by the identities of the two.\<close>

type_synonym bindings = "(nat, nat) dict"

definition bind_store :: "nat \<Rightarrow> nat \<Rightarrow> (bindings, unit) prog" where
  "bind_store index store b = (if dget b index \<noteq> None \<and> dget b index \<noteq> Some store then (Inl IndexError, b)
     else (Inr (), dput index store b))"

text \<open>\<open>IndexedKvStore.__init__\<close>.\<close>

definition new_indexed :: "nat \<Rightarrow> nat list \<Rightarrow> nat option \<Rightarrow> (bindings, unit) prog" where
  "new_indexed store indexes default_index =
     (if default_index \<noteq> None \<and> the default_index \<notin> set indexes then raiseP IndexError
      else iterP (\<lambda>index. bind_store index store) indexes)"

section \<open>Bundles\<close>

text \<open>
  A bundle is a dataclass instance or anything else; a field has a name, whether it is an
  init field, and the index it holds, if that is what it holds.
\<close>

record bundle_field =
  bf_name :: string
  bf_init :: bool
  bf_index :: "nat option"

datatype index_bundle = NotDataclass | Bundle "bundle_field list"

fun index_fields :: "bundle_field list \<Rightarrow> exn + nat list" where
  "index_fields [] = Inr []"
| "index_fields (f # fs) = (case bf_index f of None \<Rightarrow> index_fields fs
     | Some i \<Rightarrow> if \<not> bf_init f then Inl PyTypeError else map_sum id ((#) i) (index_fields fs))"

fun indexes_from_bundle :: "index_bundle \<Rightarrow> exn + nat list" where
  "indexes_from_bundle NotDataclass = Inl PyTypeError"
| "indexes_from_bundle (Bundle fs) = (case index_fields fs of Inl e \<Rightarrow> Inl e
     | Inr found \<Rightarrow> if found = [] then Inl ValueError else Inr found)"

text \<open>
  \<open>_remap_bundle\<close>: the bundle rebuilt over the clones of its indexes, from its init
  fields; what the class gives the others is its own.
\<close>

fun remap_bundle :: "(nat, nat) dict \<Rightarrow> index_bundle option \<Rightarrow> index_bundle option" where
  "remap_bundle remap None = None"
| "remap_bundle remap (Some NotDataclass) = Some NotDataclass"
| "remap_bundle remap (Some (Bundle fs)) = Some (Bundle (map
     (\<lambda>f. f\<lparr>bf_index := map_option (\<lambda>i. case dget remap i of None \<Rightarrow> i | Some c \<Rightarrow> c) (bf_index f)\<rparr>)
     (filter bf_init fs)))"

text \<open>\<open>via\<close> binds the indexes again and hands out the bundle.\<close>

definition indexed_via :: "nat \<Rightarrow> nat list \<Rightarrow> index_bundle option \<Rightarrow> (bindings, index_bundle option) prog" where
  "indexed_via store indexes bun = (case bun of None \<Rightarrow> returnP None
     | Some b \<Rightarrow> thenP (iterP (\<lambda>index. bind_store index store) indexes) (returnP (Some b)))"

text \<open>
  \<open>clone_with_scope\<close>: \<open>clone\<close> gives the clone of each index; the store of the clones is
  \<open>store\<close>.
\<close>

definition indexed_clone ::
  "nat \<Rightarrow> (nat \<Rightarrow> nat) \<Rightarrow> nat list \<Rightarrow> nat option \<Rightarrow> index_bundle option \<Rightarrow> (bindings, index_bundle option) prog" where
  "indexed_clone store clone indexes default_index bun =
     (let remap = map (\<lambda>i. (i, clone i)) indexes in
      thenP (new_indexed store (map clone indexes) (map_option (\<lambda>i. the (dget remap i)) default_index))
        (returnP (remap_bundle remap bun)))"

section \<open>Searching a store through its indexes\<close>

text \<open>
  \<open>search(query)\<close>, \<open>search(index, query)\<close>, and a first argument that is no index. The
  attached indexes are listed by identity.
\<close>

datatype 'q search_call = SearchDefault 'q | SearchIndex nat 'q | SearchOther 'q

definition search_hits ::
  "(nat, ('w, 'q, 'k, 'v, 'm) index_ops) dict \<Rightarrow> nat \<Rightarrow> 'q \<Rightarrow> int \<Rightarrow> ('w, ('k, 'm) index_hit list) prog" where
  "search_hits attached index query limit = (case dget attached index of
      None \<Rightarrow> raiseP IndexError
    | Some io \<Rightarrow> io_search io query limit)"

definition search_and_hydrate ::
  "(nat, ('w, 'q, 'k, 'v, 'm) index_ops) dict \<Rightarrow> ('w, 'k, 'v) keymap \<Rightarrow> nat \<Rightarrow> 'q \<Rightarrow> int \<Rightarrow> ('w, ('k \<times> 'v) list) prog" where
  "search_and_hydrate attached km index query limit =
     bindP (search_hits attached index query limit) (\<lambda>hits. hydrate km (map hit_key hits))"

fun indexed_search ::
  "(nat, ('w, 'q, 'k, 'v, 'm) index_ops) dict \<Rightarrow> nat option \<Rightarrow> ('w, 'k, 'v) keymap \<Rightarrow> 'q search_call \<Rightarrow> int
   \<Rightarrow> ('w, ('k \<times> 'v) list) prog" where
  "indexed_search attached default_index km (SearchDefault query) limit = (case default_index of
      None \<Rightarrow> raiseP IndexError
    | Some index \<Rightarrow> search_and_hydrate attached km index query limit)"
| "indexed_search attached default_index km (SearchOther query) limit = raiseP PyTypeError"
| "indexed_search attached default_index km (SearchIndex index query) limit = search_and_hydrate attached km index query limit"

text \<open>\<open>Index.__call__\<close>, of an index that is bound or is not.\<close>

definition index_call ::
  "bindings \<Rightarrow> nat \<Rightarrow> (nat \<Rightarrow> 'q search_call \<Rightarrow> int \<Rightarrow> ('w, 'a) prog) \<Rightarrow> 'q \<Rightarrow> int \<Rightarrow> ('w, 'a) prog" where
  "index_call b index search query limit = (case dget b index of
      None \<Rightarrow> raiseP IndexError
    | Some store \<Rightarrow> search store (SearchIndex index query) limit)"

section \<open>The in-memory indexes\<close>

text \<open>
  The root shared by the clones of an index holds a bucket for each scope, made when it is
  first asked for. An index is the view of the root at its scope.
\<close>

record 'k memory_index =
  mi_name :: string
  mi_sync_on_write :: bool
  mi_scope :: scope
  mi_order :: "'k set \<Rightarrow> 'k list"

definition index_at :: "scope \<Rightarrow> ('k, 'e) memory_index_scheme \<Rightarrow> ('k, 'e) memory_index_scheme" where
  "index_at sc mi = mi\<lparr>mi_scope := sc\<rparr>"

definition for_scope :: "'b \<Rightarrow> scope \<Rightarrow> (scope, 'b) dict \<Rightarrow> 'b \<times> (scope, 'b) dict" where
  "for_scope fresh sc root = (case dget root sc of
      None \<Rightarrow> (fresh, dput sc fresh root)
    | Some b \<Rightarrow> (b, root))"

text \<open>The indexes of \<open>backends/index/_null_meta.py\<close>: there is no metadata to read.\<close>

definition null_get :: "'k \<Rightarrow> ('w, unit option) prog" where
  "null_get key = returnP None"

subsection \<open>\<open>MemoryKeyIndex\<close>\<close>

type_synonym 'k key_root = "(scope, 'k set) dict"

definition key_index_keys :: "('k, 'e) memory_index_scheme \<Rightarrow> ('k key_root, 'k set) prog" where
  "key_index_keys mi root = (case for_scope {} (mi_scope mi) root of (keys, root) \<Rightarrow> (Inr keys, root))"

definition key_search ::
  "('k, 'e) memory_index_scheme \<Rightarrow> 'k \<Rightarrow> int \<Rightarrow> ('k key_root, ('k, unit) index_hit list) prog" where
  "key_search mi query limit = (if limit \<le> 0 then returnP []
     else mapP (\<lambda>keys. if query \<in> keys then [IndexHit query ()] else []) (key_index_keys mi))"

definition key_exists :: "('k, 'e) memory_index_scheme \<Rightarrow> 'k \<Rightarrow> ('k key_root, bool) prog" where
  "key_exists mi key = mapP (\<lambda>keys. key \<in> keys) (key_index_keys mi)"

definition key_batch_exists :: "('k, 'e) memory_index_scheme \<Rightarrow> 'k list \<Rightarrow> ('k key_root, 'k set) prog" where
  "key_batch_exists mi keys = mapP (\<lambda>present. set (filter (\<lambda>key. key \<in> present) keys)) (key_index_keys mi)"

definition key_upsert :: "('k, 'e) memory_index_scheme \<Rightarrow> 'k \<Rightarrow> 'v \<Rightarrow> unit \<Rightarrow> ('k key_root, unit) prog" where
  "key_upsert mi key value meta = bindP (key_index_keys mi) (\<lambda>keys root.
     (Inr (), dput (mi_scope mi) (insert key keys) root))"

definition key_set :: "('k, 'e) memory_index_scheme \<Rightarrow> 'k \<Rightarrow> unit \<Rightarrow> ('k key_root, unit) prog" where
  "key_set mi key value = bindP (key_index_keys mi) (\<lambda>keys.
     if key \<notin> keys then raiseP IndexError else returnP ())"

definition key_delete :: "('k, 'e) memory_index_scheme \<Rightarrow> 'k \<Rightarrow> ('k key_root, bool) prog" where
  "key_delete mi key = bindP (key_index_keys mi) (\<lambda>keys root.
     if key \<notin> keys then (Inr False, root)
     else (Inr True, dput (mi_scope mi) (keys - {key}) root))"

definition key_index_ops :: "('k, 'e) memory_index_scheme \<Rightarrow> ('k key_root, 'k, 'k, 'v, unit) index_ops" where
  "key_index_ops mi = \<lparr>io_name = mi_name mi, io_sync_on_write = mi_sync_on_write mi,
     io_search = key_search mi, io_meta_of = \<lambda>_ _ _. (),
     io_get = null_get, io_batch_get = default_batch_get null_get,
     io_exists = key_exists mi, io_batch_exists = key_batch_exists mi, io_set = key_set mi,
     io_upsert = key_upsert mi, io_batch_upsert = default_batch_upsert (key_upsert mi),
     io_delete = key_delete mi, io_batch_delete = count_true (key_delete mi)\<rparr>"

subsection \<open>\<open>MemoryTermIndex\<close>\<close>

record 'k term_postings =
  po_term_to_keys :: "(string, 'k set) dict"
  po_key_to_terms :: "('k, string list) dict"

definition no_postings :: "'k term_postings" where
  "no_postings = \<lparr>po_term_to_keys = [], po_key_to_terms = []\<rparr>"

type_synonym 'k term_root = "(scope, 'k term_postings) dict"

record ('k, 'v) term_index = "'k memory_index" +
  ti_terms_of :: "'k \<Rightarrow> 'v \<Rightarrow> string list"

definition postings :: "('k, 'v) term_index \<Rightarrow> ('k term_root, 'k term_postings) prog" where
  "postings ti root = (case for_scope no_postings (mi_scope ti) root of (p, root) \<Rightarrow> (Inr p, root))"

fun hits_of :: "int \<Rightarrow> 'k list \<Rightarrow> ('k, unit) index_hit list \<Rightarrow> ('k, unit) index_hit list" where
  "hits_of limit [] out = out"
| "hits_of limit (key # keys) out = (let out = out @ [IndexHit key ()] in
     if int (length out) \<ge> limit then out else hits_of limit keys out)"

definition term_search ::
  "('k, 'v) term_index \<Rightarrow> string \<Rightarrow> int \<Rightarrow> ('k term_root, ('k, unit) index_hit list) prog" where
  "term_search ti query limit = (if limit \<le> 0 then returnP []
     else mapP (\<lambda>p. hits_of limit (mi_order ti (case dget (po_term_to_keys p) query of None \<Rightarrow> {} | Some keys \<Rightarrow> keys)) [])
       (postings ti))"

definition term_exists :: "('k, 'v) term_index \<Rightarrow> 'k \<Rightarrow> ('k term_root, bool) prog" where
  "term_exists ti key = mapP (\<lambda>p. key \<in> set (dkeys (po_key_to_terms p))) (postings ti)"

definition term_batch_exists :: "('k, 'v) term_index \<Rightarrow> 'k list \<Rightarrow> ('k term_root, 'k set) prog" where
  "term_batch_exists ti keys =
     mapP (\<lambda>p. set (filter (\<lambda>key. key \<in> set (dkeys (po_key_to_terms p))) keys)) (postings ti)"

text \<open>The key leaves the bucket of a term, which goes with its last key.\<close>

definition drop_posting :: "'k \<Rightarrow> string \<Rightarrow> (string, 'k set) dict \<Rightarrow> (string, 'k set) dict" where
  "drop_posting key term d = (case dget d term of
      None \<Rightarrow> d
    | Some bucket \<Rightarrow> if bucket - {key} = {} then ddel term d else dput term (bucket - {key}) d)"

text \<open>\<open>term_to_keys[term].add(key)\<close> on a \<open>defaultdict(set)\<close>.\<close>

definition add_posting :: "'k \<Rightarrow> string \<Rightarrow> (string, 'k set) dict \<Rightarrow> (string, 'k set) dict" where
  "add_posting key term d = dput term (insert key (case dget d term of None \<Rightarrow> {} | Some bucket \<Rightarrow> bucket)) d"

definition upsert_postings :: "'k \<Rightarrow> string list \<Rightarrow> 'k term_postings \<Rightarrow> 'k term_postings" where
  "upsert_postings key new_terms p =
     (let old_terms = (case dget (po_key_to_terms p) key of None \<Rightarrow> [] | Some terms \<Rightarrow> terms);
          dropped = fold (drop_posting key) (filter (\<lambda>t. t \<notin> set new_terms) old_terms) (po_term_to_keys p);
          added = fold (add_posting key) (filter (\<lambda>t. t \<notin> set old_terms) new_terms) dropped
      in \<lparr>po_term_to_keys = added,
          po_key_to_terms = (if new_terms \<noteq> [] then dput key new_terms (po_key_to_terms p)
            else ddel key (po_key_to_terms p))\<rparr>)"

definition term_upsert :: "('k, 'v) term_index \<Rightarrow> 'k \<Rightarrow> 'v \<Rightarrow> unit \<Rightarrow> ('k term_root, unit) prog" where
  "term_upsert ti key value meta = bindP (postings ti) (\<lambda>p root.
     (Inr (), dput (mi_scope ti) (upsert_postings key (fromkeys (ti_terms_of ti key value)) p) root))"

definition term_set :: "('k, 'v) term_index \<Rightarrow> 'k \<Rightarrow> unit \<Rightarrow> ('k term_root, unit) prog" where
  "term_set ti key value = bindP (postings ti) (\<lambda>p.
     if key \<notin> set (dkeys (po_key_to_terms p)) then raiseP IndexError else returnP ())"

definition term_delete :: "('k, 'v) term_index \<Rightarrow> 'k \<Rightarrow> ('k term_root, bool) prog" where
  "term_delete ti key = bindP (postings ti) (\<lambda>p root.
     let terms = (case dget (po_key_to_terms p) key of None \<Rightarrow> [] | Some terms \<Rightarrow> terms);
         p' = p\<lparr>po_key_to_terms := ddel key (po_key_to_terms p)\<rparr>
     in if terms = [] then (Inr False, dput (mi_scope ti) p' root)
        else (Inr True, dput (mi_scope ti)
          (p'\<lparr>po_term_to_keys := fold (drop_posting key) terms (po_term_to_keys p)\<rparr>) root))"

definition term_index_ops :: "('k, 'v) term_index \<Rightarrow> ('k term_root, string, 'k, 'v, unit) index_ops" where
  "term_index_ops ti = \<lparr>io_name = mi_name ti, io_sync_on_write = mi_sync_on_write ti,
     io_search = term_search ti, io_meta_of = \<lambda>_ _ _. (),
     io_get = null_get, io_batch_get = default_batch_get null_get,
     io_exists = term_exists ti, io_batch_exists = term_batch_exists ti, io_set = term_set ti,
     io_upsert = term_upsert ti, io_batch_upsert = default_batch_upsert (term_upsert ti),
     io_delete = term_delete ti, io_batch_delete = count_true (term_delete ti)\<rparr>"

end
