(* ===== verification/Vector_Index.thy ===== *)
theory Vector_Index
  imports Indexes
begin

text \<open>
  Vector indexes: the records and queries of \<open>src/kvtsjl/index/logical/vector.py\<close>, the
  wire descriptor \<open>IndexSet\<close> of \<open>index/schema/index_set.py\<close>, the rules of
  \<open>index/vector_backend.py\<close>, and the in-memory index of \<open>backends/index/memory_vector.py\<close>.

  Floating point arithmetic is a parameter, \<open>float_ops\<close>: nothing is assumed of it but that
  the ranks it computes are linearly ordered (no NaN). The projections of the schema
  (\<open>document_of\<close>, \<open>embedding_of\<close>), the merge of the domain metadata and the embedder are
  the caller's functions.
\<close>

section \<open>Records and queries\<close>

record ('d, 'f) vector_record =
  vrec_data :: 'd
  vrec_document :: "string option"
  vrec_embedding :: "'f list option"
  vrec_score :: "'f option"

datatype 'q query_content = TextContent string | BytesContent string | OtherContent 'q

fun query_has_content :: "'q query_content option \<Rightarrow> bool" where
  "query_has_content None = False"
| "query_has_content (Some (TextContent s)) = (s \<noteq> [])"
| "query_has_content (Some (BytesContent s)) = (s \<noteq> [])"
| "query_has_content (Some (OtherContent q)) = True"

record ('q, 'f) vector_query =
  vq_content :: "'q query_content option"
  vq_embedding :: "'f list option"

definition new_vector_query :: "'q query_content option \<Rightarrow> 'f list option \<Rightarrow> exn + ('q, 'f) vector_query" where
  "new_vector_query content embedding =
     (let has_content = query_has_content content;
          has_emb = (case embedding of None \<Rightarrow> False | Some e \<Rightarrow> length e > 0)
      in if has_content \<and> has_emb then Inl ValueError
         else if \<not> has_content \<and> \<not> has_emb then Inl ValueError
         else Inr \<lparr>vq_content = content, vq_embedding = embedding\<rparr>)"

text \<open>The domain metadata: a dictionary of fields, or anything else.\<close>

datatype 'd index_data = DictData "(string, 'd) dict" | PlainData 'd

section \<open>\<open>IndexSet\<close>\<close>

record ('k, 'v, 'f) index_set =
  is_name :: string
  is_version :: string
  is_id_serialize :: "'k \<Rightarrow> string option"
  is_separator :: string
  is_embedding_of :: "('k \<Rightarrow> 'v \<Rightarrow> 'f list option) option"
  is_document_of :: "('k \<Rightarrow> 'v \<Rightarrow> string option) option"
  is_scope_fields :: "(string, string) dict option"
  is_owned_fields :: "string list option"
  is_reuse_embedding :: bool

definition index_set_with_str_ids ::
  "string \<Rightarrow> string \<Rightarrow> ('k \<Rightarrow> string option) \<Rightarrow> ('k, 'v, 'f) index_set" where
  "index_set_with_str_ids name version id_serialize =
     \<lparr>is_name = name, is_version = version, is_id_serialize = id_serialize, is_separator = '':'',
      is_embedding_of = None, is_document_of = None, is_scope_fields = None, is_owned_fields = None,
      is_reuse_embedding = True\<rparr>"

section \<open>\<open>VectorIndexBackend\<close>\<close>

text \<open>
  The index: its schema, the scope it is bound to, and what the in-memory leaf adds. \<open>vi_root\<close>
  is the storage it shares with the other views of its collection.
\<close>

record ('k, 'v, 'd, 'f, 'q) vector_index =
  vi_set :: "('k, 'v, 'f) index_set"
  vi_scope :: scope
  vi_binding :: binding
  vi_sync_on_write :: bool
  vi_merge_data :: "'k \<Rightarrow> 'v \<Rightarrow> 'd index_data option \<Rightarrow> 'd index_data"
  vi_embed_content :: "('q query_content \<Rightarrow> 'f list) option"
  vi_root :: nat

text \<open>A view with no \<open>document_of\<close> owns part of an entry.\<close>

definition is_patch_view :: "('k, 'v, 'f) index_set \<Rightarrow> bool" where
  "is_patch_view wire \<longleftrightarrow> is_document_of wire = None"

definition index_creates_entries :: "('k, 'v, 'f) index_set \<Rightarrow> bool" where
  "index_creates_entries wire \<longleftrightarrow> \<not> is_patch_view wire"

definition patch_write_is_skippable :: "('k, 'v, 'f) index_set \<Rightarrow> ('d, 'f) vector_record option \<Rightarrow> bool" where
  "patch_write_is_skippable wire previous \<longleftrightarrow> is_patch_view wire \<and> previous = None"

definition clear_owned_fields :: "('k, 'v, 'f) index_set \<Rightarrow> 'd index_data \<Rightarrow> exn + 'd index_data" where
  "clear_owned_fields wire dat = (case is_owned_fields wire of
      None \<Rightarrow> Inl IndexUnsupported
    | Some owned \<Rightarrow> (case dat of PlainData d \<Rightarrow> Inr dat | DictData d \<Rightarrow> Inr (DictData (fold ddel owned d))))"

text \<open>\<open>assert_scoped_search_supported\<close>, of a backend that filters by the prefix of an id or does not.\<close>

definition assert_scoped_search_supported :: "bool \<Rightarrow> scope \<Rightarrow> (string, string) dict option \<Rightarrow> exn option" where
  "assert_scoped_search_supported prefix_filter sc scope_fields =
     (if sc = [] then None
      else if prefix_filter then None
      else if scope_fields \<noteq> None \<and> scope_fields \<noteq> Some [] then None
      else Some IndexUnsupported)"

definition index_binding :: "('k, 'v, 'f) index_set \<Rightarrow> binding" where
  "index_binding wire =
     \<lparr>cb_collection = Some (is_name wire @ '':'' @ ''v'' @ is_version wire), cb_name_version_prefix = []\<rparr>"

text \<open>\<open>IndexBackend._physical_id_blob\<close>.\<close>

definition index_physical_id :: "('k, 'v, 'd, 'f, 'q) vector_index \<Rightarrow> 'k \<Rightarrow> exn + string" where
  "index_physical_id vi key = (case is_id_serialize (vi_set vi) key of
      None \<Rightarrow> Inl SerDeError
    | Some leaf \<Rightarrow> Inr (item_key (vi_binding vi) (is_separator (vi_set vi)) (vi_scope vi) leaf))"

definition scope_id_prefix :: "('k, 'v, 'd, 'f, 'q) vector_index \<Rightarrow> string" where
  "scope_id_prefix vi = scope_prefix (vi_binding vi) (is_separator (vi_set vi)) (vi_scope vi) None"

definition in_bound_scope_id :: "('k, 'v, 'd, 'f, 'q) vector_index \<Rightarrow> string \<Rightarrow> bool" where
  "in_bound_scope_id vi physical_id = (if vi_scope vi = [] then True else py_startswith physical_id (scope_id_prefix vi))"

definition can_reuse_embedding :: "('k, 'v, 'f) index_set \<Rightarrow> ('d, 'f) vector_record option \<Rightarrow> string option \<Rightarrow> bool" where
  "can_reuse_embedding wire previous document =
     (if \<not> is_reuse_embedding wire then False
      else case previous of None \<Rightarrow> False
        | Some p \<Rightarrow> vrec_embedding p \<noteq> None \<and> document = vrec_document p)"

definition vector_meta_of ::
  "('k, 'v, 'd, 'f, 'q) vector_index \<Rightarrow> 'k \<Rightarrow> 'v \<Rightarrow> ('d index_data, 'f) vector_record option \<Rightarrow> ('d index_data, 'f) vector_record" where
  "vector_meta_of vi key value previous =
     (let wire = vi_set vi;
          dat = vi_merge_data vi key value (map_option vrec_data previous);
          document = (case is_document_of wire of None \<Rightarrow> None | Some f \<Rightarrow> f key value);
          embedding = (if can_reuse_embedding wire previous document
            then (case previous of None \<Rightarrow> None | Some p \<Rightarrow> vrec_embedding p)
            else (case is_embedding_of wire of None \<Rightarrow> None | Some f \<Rightarrow> f key value))
      in case (is_document_of wire, previous) of
           (None, Some p) \<Rightarrow> if is_reuse_embedding wire
             then \<lparr>vrec_data = dat, vrec_document = vrec_document p,
                   vrec_embedding = (if embedding = None then vrec_embedding p else embedding), vrec_score = None\<rparr>
             else \<lparr>vrec_data = dat, vrec_document = document, vrec_embedding = embedding, vrec_score = None\<rparr>
         | _ \<Rightarrow> \<lparr>vrec_data = dat, vrec_document = document, vrec_embedding = embedding, vrec_score = None\<rparr>)"

section \<open>Distances\<close>

text \<open>\<open>x - y\<close>, \<open>x ** 2\<close>, \<open>sum\<close> and \<open>math.sqrt\<close>.\<close>

record 'f float_ops =
  fl_sub :: "'f \<Rightarrow> 'f \<Rightarrow> 'f"
  fl_square :: "'f \<Rightarrow> 'f"
  fl_sum :: "'f list \<Rightarrow> 'f"
  fl_sqrt :: "'f \<Rightarrow> 'f"

definition l2_distance :: "'f float_ops \<Rightarrow> 'f list \<Rightarrow> 'f list \<Rightarrow> exn + 'f" where
  "l2_distance fo a b = (if length a \<noteq> length b then Inl ValueError
     else Inr (fl_sqrt fo (fl_sum fo (map (\<lambda>(x, y). fl_square fo (fl_sub fo x y)) (zip a b)))))"

section \<open>The storage of the in-memory index\<close>

record ('k, 'd, 'f) vector_root =
  vr_vectors :: "(string, 'f list) dict"
  vr_records :: "(string, 'k \<times> ('d index_data, 'f) vector_record) dict"

definition empty_vector_root :: "('k, 'd, 'f) vector_root" where
  "empty_vector_root = \<lparr>vr_vectors = [], vr_records = []\<rparr>"

text \<open>
  The roots, by identity, and the collections that name them. An index keeps its root
  after the collections are reset.
\<close>

record ('k, 'd, 'f) vector_media =
  vm_collections :: "(string \<times> string, nat) dict"
  vm_roots :: "(nat, ('k, 'd, 'f) vector_root) dict"

definition no_vectors :: "('k, 'd, 'f) vector_media" where
  "no_vectors = \<lparr>vm_collections = [], vm_roots = []\<rparr>"

definition reset_memory_vector_collections :: "(('k, 'd, 'f) vector_media, unit) prog" where
  "reset_memory_vector_collections w = (Inr (), w\<lparr>vm_collections := []\<rparr>)"

text \<open>\<open>_COLLECTIONS.setdefault((name, version), _VectorRoot())\<close>; a fresh root is none of those there are.\<close>

definition collection_root :: "string \<times> string \<Rightarrow> (('k, 'd, 'f) vector_media, nat) prog" where
  "collection_root collection w = (case dget (vm_collections w) collection of
      Some r \<Rightarrow> (Inr r, w)
    | None \<Rightarrow> (let r = Suc (foldr max (dkeys (vm_roots w)) 0) in
        (Inr r, w\<lparr>vm_collections := dput collection r (vm_collections w),
                  vm_roots := dput r empty_vector_root (vm_roots w)\<rparr>)))"

definition new_vector_index ::
  "('k, 'v, 'f) index_set \<Rightarrow> ('k \<Rightarrow> 'v \<Rightarrow> 'd index_data option \<Rightarrow> 'd index_data) \<Rightarrow> ('q query_content \<Rightarrow> 'f list) option
   \<Rightarrow> bool \<Rightarrow> scope option \<Rightarrow> nat option \<Rightarrow> (('k, 'd, 'f) vector_media, ('k, 'v, 'd, 'f, 'q) vector_index) prog" where
  "new_vector_index wire merge_data embed_content sync_on_write sc root =
     bindP (case root of Some r \<Rightarrow> returnP r | None \<Rightarrow> collection_root (is_name wire, is_version wire)) (\<lambda>r.
       returnP \<lparr>vi_set = wire, vi_scope = (case sc of None \<Rightarrow> [] | Some s \<Rightarrow> s), vi_binding = index_binding wire,
         vi_sync_on_write = sync_on_write, vi_merge_data = merge_data, vi_embed_content = embed_content, vi_root = r\<rparr>)"

text \<open>\<open>clone_with_scope\<close>: a view of the same storage.\<close>

definition vector_index_at ::
  "scope \<Rightarrow> ('k, 'v, 'd, 'f, 'q) vector_index \<Rightarrow> (('k, 'd, 'f) vector_media, ('k, 'v, 'd, 'f, 'q) vector_index) prog" where
  "vector_index_at sc vi =
     new_vector_index (vi_set vi) (vi_merge_data vi) (vi_embed_content vi) (vi_sync_on_write vi) (Some sc) (Some (vi_root vi))"

definition root_at :: "nat \<Rightarrow> ('k, 'd, 'f) vector_media \<Rightarrow> ('k, 'd, 'f) vector_root" where
  "root_at r w = (case dget (vm_roots w) r of None \<Rightarrow> empty_vector_root | Some v \<Rightarrow> v)"

definition with_root :: "nat \<Rightarrow> ('k, 'd, 'f) vector_root \<Rightarrow> ('k, 'd, 'f) vector_media \<Rightarrow> ('k, 'd, 'f) vector_media" where
  "with_root r v w = w\<lparr>vm_roots := dput r v (vm_roots w)\<rparr>"

text \<open>The vector and the record of an entry.\<close>

definition put_entry ::
  "string \<Rightarrow> 'f list \<Rightarrow> 'k \<times> ('d index_data, 'f) vector_record \<Rightarrow> ('k, 'd, 'f) vector_root \<Rightarrow> ('k, 'd, 'f) vector_root" where
  "put_entry pid emb entry v = \<lparr>vr_vectors = dput pid emb (vr_vectors v), vr_records = dput pid entry (vr_records v)\<rparr>"

definition with_id ::
  "('k, 'v, 'd, 'f, 'q) vector_index \<Rightarrow> 'k \<Rightarrow> (string \<Rightarrow> ('w, 'a) prog) \<Rightarrow> ('w, 'a) prog" where
  "with_id vi key run = (case index_physical_id vi key of Inl e \<Rightarrow> raiseP e | Inr pid \<Rightarrow> run pid)"

section \<open>Its operations\<close>

definition resolve_query_embedding ::
  "('k, 'v, 'd, 'f, 'q) vector_index \<Rightarrow> ('q, 'f) vector_query \<Rightarrow> 'f list option" where
  "resolve_query_embedding vi query = (case vq_embedding query of
      Some e \<Rightarrow> Some e
    | None \<Rightarrow> (case (vq_content query, vi_embed_content vi) of
        (Some content, Some embedder) \<Rightarrow> if query_has_content (Some content) then Some (embedder content) else None
      | _ \<Rightarrow> None))"

definition embedding_for ::
  "('k, 'v, 'd, 'f, 'q) vector_index \<Rightarrow> 'k \<Rightarrow> 'v \<Rightarrow> ('d index_data, 'f) vector_record \<Rightarrow> exn + 'f list" where
  "embedding_for vi key value meta = (case vrec_embedding meta of
      Some e \<Rightarrow> Inr e
    | None \<Rightarrow> (case is_embedding_of (vi_set vi) of
        None \<Rightarrow> Inl IndexError
      | Some f \<Rightarrow> (case f key value of None \<Rightarrow> Inl IndexError | Some raw \<Rightarrow> Inr raw)))"

text \<open>The loop of \<open>search\<close> over the vectors.\<close>

fun score_entries ::
  "'f float_ops \<Rightarrow> ('k, 'v, 'd, 'f, 'q) vector_index \<Rightarrow> (string, 'k \<times> ('d index_data, 'f) vector_record) dict \<Rightarrow> 'f list
   \<Rightarrow> (string \<times> 'f list) list \<Rightarrow> exn + ('f \<times> ('k, ('d index_data, 'f) vector_record) index_hit) list" where
  "score_entries fo vi records q_emb [] = Inr []"
| "score_entries fo vi records q_emb ((pid, vec) # rest) = (case dget records pid of
      None \<Rightarrow> Inl KeyError
    | Some (key, stored) \<Rightarrow>
        if \<not> in_bound_scope_id vi pid then score_entries fo vi records q_emb rest
        else (case l2_distance fo q_emb vec of
            Inl e \<Rightarrow> Inl e
          | Inr rank \<Rightarrow> map_sum id ((#) (rank, IndexHit key (stored\<lparr>vrec_score := Some rank\<rparr>)))
              (score_entries fo vi records q_emb rest)))"

definition vector_search ::
  "('f :: linorder) float_ops \<Rightarrow> ('k, 'v, 'd, 'f, 'q) vector_index \<Rightarrow> ('q, 'f) vector_query \<Rightarrow> int
   \<Rightarrow> (('k, 'd, 'f) vector_media, ('k, ('d index_data, 'f) vector_record) index_hit list) prog" where
  "vector_search fo vi query limit w =
     (case assert_scoped_search_supported True (vi_scope vi) (is_scope_fields (vi_set vi)) of
        Some e \<Rightarrow> (Inl e, w)
      | None \<Rightarrow> if limit \<le> 0 then (Inr [], w)
          else case resolve_query_embedding vi query of
            None \<Rightarrow> (Inr [], w)
          | Some q_emb \<Rightarrow> (let v = root_at (vi_root vi) w in
              case score_entries fo vi (vr_records v) q_emb (vr_vectors v) of
                Inl e \<Rightarrow> (Inl e, w)
              | Inr scored \<Rightarrow> (Inr (map snd (take (nat limit) (sort_key fst scored))), w)))"

definition vector_get ::
  "('k, 'v, 'd, 'f, 'q) vector_index \<Rightarrow> 'k \<Rightarrow> (('k, 'd, 'f) vector_media, ('d index_data, 'f) vector_record option) prog" where
  "vector_get vi key = with_id vi key (\<lambda>pid w. (Inr (case dget (vr_records (root_at (vi_root vi) w)) pid of
      None \<Rightarrow> None
    | Some (leaf, r) \<Rightarrow> Some (r\<lparr>vrec_score := None\<rparr>)), w))"

definition vector_upsert ::
  "('k, 'v, 'd, 'f, 'q) vector_index \<Rightarrow> 'k \<Rightarrow> 'v \<Rightarrow> ('d index_data, 'f) vector_record \<Rightarrow> (('k, 'd, 'f) vector_media, unit) prog" where
  "vector_upsert vi key value meta = with_id vi key (\<lambda>pid w.
     let v = root_at (vi_root vi) w in
     if patch_write_is_skippable (vi_set vi) (map_option snd (dget (vr_records v) pid)) then (Inr (), w)
     else case embedding_for vi key value meta of
       Inl e \<Rightarrow> (Inl e, w)
     | Inr emb \<Rightarrow> (Inr (), with_root (vi_root vi) (put_entry pid emb
         (key, \<lparr>vrec_data = vrec_data meta, vrec_document = vrec_document meta, vrec_embedding = Some emb, vrec_score = None\<rparr>) v) w))"

definition vector_set ::
  "('k, 'v, 'd, 'f, 'q) vector_index \<Rightarrow> 'k \<Rightarrow> ('d index_data, 'f) vector_record \<Rightarrow> (('k, 'd, 'f) vector_media, unit) prog" where
  "vector_set vi key value = with_id vi key (\<lambda>pid w.
     let v = root_at (vi_root vi) w in
     case dget (vr_records v) pid of
       None \<Rightarrow> (Inl IndexError, w)
     | Some (leaf, old) \<Rightarrow> (case (if vrec_embedding value \<noteq> None then vrec_embedding value else vrec_embedding old) of
           None \<Rightarrow> (Inl IndexError, w)
         | Some emb \<Rightarrow> (Inr (), with_root (vi_root vi) (put_entry pid emb
             (key, \<lparr>vrec_data = vrec_data value, vrec_document = vrec_document value, vrec_embedding = Some emb, vrec_score = None\<rparr>) v) w)))"

definition vector_delete :: "('k, 'v, 'd, 'f, 'q) vector_index \<Rightarrow> 'k \<Rightarrow> (('k, 'd, 'f) vector_media, bool) prog" where
  "vector_delete vi key = with_id vi key (\<lambda>pid w.
     let v = root_at (vi_root vi) w in
     case dget (vr_records v) pid of
       None \<Rightarrow> (Inr False, w)
     | Some (leaf, stored) \<Rightarrow>
         if is_patch_view (vi_set vi) then (case clear_owned_fields (vi_set vi) (vrec_data stored) of
             Inl e \<Rightarrow> (Inl e, w)
           | Inr dat \<Rightarrow> (Inr True, with_root (vi_root vi)
               (v\<lparr>vr_records := dput pid (leaf, stored\<lparr>vrec_data := dat, vrec_score := None\<rparr>) (vr_records v)\<rparr>) w))
         else (Inr True, with_root (vi_root vi)
           \<lparr>vr_vectors = ddel pid (vr_vectors v), vr_records = ddel pid (vr_records v)\<rparr> w))"

definition vector_index_ops ::
  "('f :: linorder) float_ops \<Rightarrow> ('k, 'v, 'd, 'f, 'q) vector_index
   \<Rightarrow> (('k, 'd, 'f) vector_media, ('q, 'f) vector_query, 'k, 'v, ('d index_data, 'f) vector_record) index_ops" where
  "vector_index_ops fo vi = \<lparr>io_name = is_name (vi_set vi), io_sync_on_write = vi_sync_on_write vi,
     io_search = vector_search fo vi, io_meta_of = vector_meta_of vi,
     io_get = vector_get vi, io_batch_get = default_batch_get (vector_get vi),
     io_exists = default_exists (vector_get vi), io_batch_exists = default_batch_exists (default_batch_get (vector_get vi)),
     io_set = vector_set vi,
     io_upsert = vector_upsert vi, io_batch_upsert = default_batch_upsert (vector_upsert vi),
     io_delete = vector_delete vi, io_batch_delete = count_true (vector_delete vi)\<rparr>"

end
