(* ===== verification/Index_Laws.thy ===== *)
theory Index_Laws
  imports Vector_Index Composition_Stores
begin

text \<open>
  What an index promises the store it is attached to, as locales: a sync records what the
  value makes of a key, a delete forgets the key, a search answers recorded keys that
  match, as many as asked for. The in-memory indexes keep them; a store with such an index
  never answers a search with a record that does not match.
\<close>

section \<open>The interface\<close>

text \<open>
  \<open>entries u k\<close> is what the index has for \<open>k\<close> in \<open>u\<close>; \<open>made k v e\<close> is what a sync of \<open>v\<close> makes
  of the entry \<open>e\<close> there was, when it \<open>takes\<close> the value.
\<close>

locale tracked_index =
  fixes io :: "('u, 'q, 'k, 'v, 'm) index_ops"
    and entries :: "'u \<Rightarrow> 'k \<Rightarrow> 'e option"
    and xinv :: "'u \<Rightarrow> bool"
    and takes :: "'k \<Rightarrow> 'v \<Rightarrow> 'e option \<Rightarrow> bool"
    and made :: "'k \<Rightarrow> 'v \<Rightarrow> 'e option \<Rightarrow> 'e option"
  assumes sync_law: "\<lbrakk>xinv u; takes k v (entries u k)\<rbrakk> \<Longrightarrow>
      \<exists>u'. index_sync io k v u = (Inr (), u') \<and> xinv u' \<and> entries u' = (entries u)(k := made k v (entries u k))"
    and batch_sync_law: "\<lbrakk>xinv u; dict_ok items; \<And>k v. (k, v) \<in> set items \<Longrightarrow> takes k v (entries u k)\<rbrakk> \<Longrightarrow>
      index_batch_sync io items u = iterP (\<lambda>(k, v). index_sync io k v) items u"
    and remove_law: "xinv u \<Longrightarrow>
      \<exists>u'. io_delete io k u = (Inr (entries u k \<noteq> None), u') \<and> xinv u' \<and> entries u' = (entries u)(k := None)"
begin

text \<open>A batch of syncs leaves what syncing each key leaves.\<close>

lemma batch_sync_entries:
  assumes "xinv u" "dict_ok items" "\<And>k v. (k, v) \<in> set items \<Longrightarrow> takes k v (entries u k)"
  shows "\<exists>u'. index_batch_sync io items u = (Inr (), u') \<and> xinv u'
    \<and> entries u' = (\<lambda>k. case dget items k of None \<Rightarrow> entries u k | Some v \<Rightarrow> made k v (entries u k))"
proof -
  have "\<exists>u'. iterP (\<lambda>(k, v). index_sync io k v) items u = (Inr (), u') \<and> xinv u'
    \<and> entries u' = (\<lambda>k. case dget items k of None \<Rightarrow> entries u k | Some v \<Rightarrow> made k v (entries u k))"
    using assms
  proof (induction items arbitrary: u)
    case (Cons kv items)
    obtain k v where kv: "kv = (k, v)" by (cases kv)
    from sync_law [OF Cons.prems(1)] Cons.prems(3) kv obtain u1 where
      u1: "index_sync io k v u = (Inr (), u1)" "xinv u1" "entries u1 = (entries u)(k := made k v (entries u k))" by fastforce
    have fresh: "k \<notin> set (dkeys items)" and ok: "dict_ok items" using Cons.prems(2) kv by auto
    have "takes j x (entries u1 j)" if "(j, x) \<in> set items" for j x
      using Cons.prems(3) [of j x] that fresh u1(3) by (force simp: kv)
    from Cons.IH [OF u1(2) ok this] obtain u' where
      u': "iterP (\<lambda>(k, v). index_sync io k v) items u1 = (Inr (), u')" "xinv u'"
        "entries u' = (\<lambda>k. case dget items k of None \<Rightarrow> entries u1 k | Some v \<Rightarrow> made k v (entries u1 k))" by blast
    have "dget items k = None" using fresh dget_eq_None_iff by metis
    with u' u1 show ?case by (auto simp: kv thenP_run fun_eq_iff split: option.splits)
  qed simp
  with batch_sync_law [OF assms] show ?thesis by simp
qed

lemma batch_remove:
  assumes "xinv u" "distinct ks"
  shows "\<exists>u'. count_true (io_delete io) ks u = (Inr (int (card {k \<in> set ks. entries u k \<noteq> None})), u') \<and> xinv u'
    \<and> entries u' = (\<lambda>k. if k \<in> set ks then None else entries u k)"
proof -
  have "\<exists>u'. foldP (\<lambda>key n. mapP (\<lambda>b. if b then n + 1 else n) (io_delete io key)) ks n u
      = (Inr (n + int (card {k \<in> set ks. entries u k \<noteq> None})), u') \<and> xinv u'
    \<and> entries u' = (\<lambda>k. if k \<in> set ks then None else entries u k)" for n
    using assms
  proof (induction ks arbitrary: u n)
    case (Cons k ks)
    from remove_law [OF Cons.prems(1), of k] obtain u1 where
      u1: "io_delete io k u = (Inr (entries u k \<noteq> None), u1)" "xinv u1" "entries u1 = (entries u)(k := None)" by blast
    have ks: "k \<notin> set ks" "distinct ks" using Cons.prems(2) by auto
    have same: "{j \<in> set ks. entries u1 j \<noteq> None} = {j \<in> set ks. entries u j \<noteq> None}" using ks(1) u1(3) by auto
    have "{j \<in> set (k # ks). entries u j \<noteq> None}
        = (if entries u k \<noteq> None then insert k {j \<in> set ks. entries u j \<noteq> None} else {j \<in> set ks. entries u j \<noteq> None})" by auto
    then have card: "card {j \<in> set (k # ks). entries u j \<noteq> None}
        = (if entries u k \<noteq> None then 1 else 0) + card {j \<in> set ks. entries u j \<noteq> None}" using ks(1) by simp
    from Cons.IH [OF u1(2) ks(2), of "if entries u k \<noteq> None then n + 1 else n"] same obtain u' where
      u': "foldP (\<lambda>key n. mapP (\<lambda>b. if b then n + 1 else n) (io_delete io key)) ks (if entries u k \<noteq> None then n + 1 else n) u1
          = (Inr ((if entries u k \<noteq> None then n + 1 else n) + int (card {k \<in> set ks. entries u k \<noteq> None})), u')" "xinv u'"
        "entries u' = (\<lambda>k. if k \<in> set ks then None else entries u1 k)" by auto
    have "mapP (\<lambda>b. if b then n + 1 else n) (io_delete io k) u = (Inr (if entries u k \<noteq> None then n + 1 else n), u1)"
      using u1(1) by (simp add: mapP_run)
    then have "foldP (\<lambda>key n. mapP (\<lambda>b. if b then n + 1 else n) (io_delete io key)) (k # ks) n u
        = (Inr (n + int (card {j \<in> set (k # ks). entries u j \<noteq> None})), u')"
      unfolding card using u'(1) by (simp add: bindP_run)
    moreover have "entries u' = (\<lambda>j. if j \<in> set (k # ks) then None else entries u j)" using u'(3) u1(3) by auto
    ultimately show ?case using u'(2) by blast
  qed simp
  from this [of 0] show ?thesis by (simp add: count_true_def)
qed

end

text \<open>An index whose search is decided by the entry of each key, and whose entries by the value.\<close>

locale searched_index = tracked_index io entries xinv takes made
  for io :: "('u, 'q, 'k, 'v, 'm) index_ops" and entries :: "'u \<Rightarrow> 'k \<Rightarrow> 'e option" and xinv takes made +
  fixes matches :: "'q \<Rightarrow> 'k \<Rightarrow> 'e \<Rightarrow> bool"
  assumes takes_all: "takes k v e"
    and made_anew: "made k v e = made k v None"
    and search_law: "xinv u \<Longrightarrow> \<exists>hits u'. io_search io q limit u = (Inr hits, u') \<and> xinv u' \<and> entries u' = entries u
      \<and> distinct (map hit_key hits)
      \<and> hit_key ` set hits \<subseteq> {k. \<exists>e. entries u k = Some e \<and> matches q k e}
      \<and> length hits = min (nat limit) (card {k. \<exists>e. entries u k = Some e \<and> matches q k e})"

section \<open>The in-memory indexes\<close>

text \<open>The order in which Python goes through a set.\<close>

definition enumerates :: "('k set \<Rightarrow> 'k list) \<Rightarrow> bool" where
  "enumerates order \<longleftrightarrow> (\<forall>S. finite S \<longrightarrow> distinct (order S) \<and> set (order S) = S)"

text \<open>Asking for the bucket of a scope changes no bucket.\<close>

definition bucket_in :: "'b \<Rightarrow> (scope, 'b) dict \<Rightarrow> scope \<Rightarrow> 'b" where
  "bucket_in fresh root sc = (case dget root sc of None \<Rightarrow> fresh | Some b \<Rightarrow> b)"

lemma for_scope_law:
  "\<exists>root'. for_scope fresh sc root = (bucket_in fresh root sc, root') \<and> bucket_in fresh root' = bucket_in fresh root"
  by (cases "dget root sc") (auto simp: for_scope_def bucket_in_def fun_eq_iff)

lemma bucket_in_dput [simp]: "bucket_in fresh (dput sc b root) = (bucket_in fresh root)(sc := b)"
  by (auto simp: bucket_in_def fun_eq_iff)

text \<open>Syncing without metadata is upserting.\<close>

lemma null_batch_get: "default_batch_get null_get ks w = (Inr [], w)"
proof -
  have "foldP (\<lambda>key out. bindP (null_get key) (\<lambda>value. returnP (case value of None \<Rightarrow> out | Some v \<Rightarrow> dput key v out))) ks [] w
      = (Inr [], w)" by (induction ks) (simp_all add: null_get_def bindP_run)
  then show ?thesis by (simp add: default_batch_get_def)
qed

lemma null_meta_sync:
  fixes io :: "('u, 'q, 'k, 'v, unit) index_ops"
  assumes "io_get io = null_get" "io_batch_get io = default_batch_get null_get"
    "io_batch_upsert io = default_batch_upsert (io_upsert io)"
  shows "index_sync io k v = io_upsert io k v ()"
    and "index_batch_sync io items = iterP (\<lambda>(k, v). index_sync io k v) items"
proof -
  show sync: "index_sync io k v = io_upsert io k v ()" for k v
    by (rule ext) (simp add: index_sync_def assms null_get_def bindP_run)
  have upserts: "iterP (\<lambda>(key, value, meta). io_upsert io key value meta)
      (dmap (\<lambda>key value. (value, io_meta_of io key value (dget [] key))) items)
    = iterP (\<lambda>(k, v). index_sync io k v) items" for items
    by (induction items) (auto simp: dmap_def sync)
  show "index_batch_sync io items = iterP (\<lambda>(k, v). index_sync io k v) items"
    by (rule ext) (simp only: index_batch_sync_def assms default_batch_upsert_def bindP_run null_batch_get upserts prod.case sum.case)
qed

subsection \<open>The key index\<close>

definition key_entries :: "('k, 'e) memory_index_scheme \<Rightarrow> 'k key_root \<Rightarrow> 'k \<Rightarrow> unit option" where
  "key_entries mi root k = (if k \<in> bucket_in {} root (mi_scope mi) then Some () else None)"

lemma key_index_keys_law:
  "\<exists>root'. key_index_keys mi root = (Inr (bucket_in {} root (mi_scope mi)), root') \<and> bucket_in {} root' = bucket_in {} root"
  using for_scope_law [of "{}" "mi_scope mi" root] by (auto simp: key_index_keys_def)

lemma key_index_sync: "index_sync (key_index_ops mi) k v = key_upsert mi k v ()"
  and key_index_batch_sync:
    "index_batch_sync (key_index_ops mi) items = iterP (\<lambda>(k, v). index_sync (key_index_ops mi) k v) items"
  by (subst null_meta_sync; simp add: key_index_ops_def)+

interpretation key_index: searched_index "key_index_ops mi" "key_entries mi" "\<lambda>_. True" "\<lambda>_ _ _. True"
    "\<lambda>_ _ _. Some ()" "\<lambda>q k _. q = k" for mi :: "('k, 'e) memory_index_scheme"
proof
  fix k :: 'k and v :: 'v and u :: "'k key_root" and limit :: int and q :: 'k
  from key_index_keys_law [of mi u] obtain u' where
    u': "key_index_keys mi u = (Inr (bucket_in {} u (mi_scope mi)), u')" "bucket_in {} u' = bucket_in {} u" by blast
  have same: "key_entries mi u' = key_entries mi u" using u'(2) by (simp add: key_entries_def fun_eq_iff)
  have "\<exists>u'. key_upsert mi k v () u = (Inr (), u') \<and> key_entries mi u' = (key_entries mi u)(k := Some ())"
    using u' by (auto simp: key_upsert_def bindP_run key_entries_def fun_eq_iff)
  then show "\<exists>u'. index_sync (key_index_ops mi) k v u = (Inr (), u') \<and> True \<and> key_entries mi u' = (key_entries mi u)(k := Some ())"
    by (simp add: key_index_sync)
  show "\<exists>u'. io_delete (key_index_ops mi) k u = (Inr (key_entries mi u k \<noteq> None), u') \<and> True
      \<and> key_entries mi u' = (key_entries mi u)(k := None)"
    using u' by (auto simp: key_index_ops_def key_delete_def bindP_run key_entries_def fun_eq_iff)
  have "{k. \<exists>e. key_entries mi u k = Some e \<and> q = k} = (if q \<in> bucket_in {} u (mi_scope mi) then {q} else {})"
    by (auto simp: key_entries_def)
  then show "\<exists>hits u'. io_search (key_index_ops mi) q limit u = (Inr hits, u') \<and> True \<and> key_entries mi u' = key_entries mi u
      \<and> distinct (map hit_key hits) \<and> hit_key ` set hits \<subseteq> {k. \<exists>e. key_entries mi u k = Some e \<and> q = k}
      \<and> length hits = min (nat limit) (card {k. \<exists>e. key_entries mi u k = Some e \<and> q = k})"
    using u' same by (simp add: key_index_ops_def key_search_def mapP_run)
qed (simp_all add: key_index_batch_sync)

subsection \<open>The term index\<close>

text \<open>The keys of each term are those whose terms have it; no bucket is empty and no key is without terms.\<close>

abbreviation bucket_of :: "(string, 'k set) dict \<Rightarrow> string \<Rightarrow> 'k set" where
  "bucket_of d term \<equiv> case dget d term of None \<Rightarrow> {} | Some b \<Rightarrow> b"

definition postings_ok :: "'k term_postings \<Rightarrow> bool" where
  "postings_ok p \<longleftrightarrow>
     (\<forall>t. bucket_of (po_term_to_keys p) t = {k. \<exists>ts. dget (po_key_to_terms p) k = Some ts \<and> t \<in> set ts})
     \<and> (\<forall>t b. dget (po_term_to_keys p) t = Some b \<longrightarrow> b \<noteq> {})
     \<and> (\<forall>k ts. dget (po_key_to_terms p) k = Some ts \<longrightarrow> ts \<noteq> [])"

lemma bucket_drop_postings:
  "bucket_of (fold (drop_posting k) ts d) t = (if t \<in> set ts then bucket_of d t - {k} else bucket_of d t)"
proof (induction ts arbitrary: d)
  case (Cons s ts)
  have "bucket_of (drop_posting k s d) t = (if t = s then bucket_of d t - {k} else bucket_of d t)"
    by (auto simp: drop_posting_def split: option.splits)
  with Cons.IH [of "drop_posting k s d"] show ?case by auto
qed simp

lemma bucket_add_postings:
  "bucket_of (fold (add_posting k) ts d) t = (if t \<in> set ts then insert k (bucket_of d t) else bucket_of d t)"
proof (induction ts arbitrary: d)
  case (Cons s ts)
  have "bucket_of (add_posting k s d) t = (if t = s then insert k (bucket_of d t) else bucket_of d t)"
    by (auto simp: add_posting_def split: option.splits)
  with Cons.IH [of "add_posting k s d"] show ?case by auto
qed simp

definition no_empty_bucket :: "(string, 'k set) dict \<Rightarrow> bool" where
  "no_empty_bucket d \<longleftrightarrow> (\<forall>t b. dget d t = Some b \<longrightarrow> b \<noteq> {})"

lemma drop_postings_nonempty: "no_empty_bucket d \<Longrightarrow> no_empty_bucket (fold (drop_posting k) ts d)"
proof (induction ts arbitrary: d)
  case (Cons t ts)
  have "no_empty_bucket (drop_posting k t d)"
    using Cons.prems by (auto simp: no_empty_bucket_def drop_posting_def split: option.splits if_splits)
  with Cons.IH show ?case by simp
qed simp

lemma add_postings_nonempty: "no_empty_bucket d \<Longrightarrow> no_empty_bucket (fold (add_posting k) ts d)"
proof (induction ts arbitrary: d)
  case (Cons t ts)
  have "no_empty_bucket (add_posting k t d)"
    using Cons.prems by (auto simp: no_empty_bucket_def add_posting_def split: if_splits)
  with Cons.IH show ?case by simp
qed simp

lemma upsert_postings_ok:
  assumes "postings_ok p" "distinct ts"
  shows "postings_ok (upsert_postings k ts p)"
    and "dget (po_key_to_terms (upsert_postings k ts p)) = (dget (po_key_to_terms p))(k := if ts = [] then None else Some ts)"
proof -
  define old where "old = (case dget (po_key_to_terms p) k of None \<Rightarrow> [] | Some terms \<Rightarrow> terms)"
  let ?p = "upsert_postings k ts p"
  show keys: "dget (po_key_to_terms ?p) = (dget (po_key_to_terms p))(k := if ts = [] then None else Some ts)"
    by (simp add: upsert_postings_def Let_def)
  have terms: "po_term_to_keys ?p = fold (add_posting k) (filter (\<lambda>t. t \<notin> set old) ts)
      (fold (drop_posting k) (filter (\<lambda>t. t \<notin> set ts) old) (po_term_to_keys p))"
    by (simp add: upsert_postings_def Let_def old_def)
  have was: "bucket_of (po_term_to_keys p) t = {j. \<exists>ts. dget (po_key_to_terms p) j = Some ts \<and> t \<in> set ts}" for t
    using assms(1) by (simp add: postings_ok_def)
  have mine: "k \<in> bucket_of (po_term_to_keys p) t \<longleftrightarrow> t \<in> set old" for t
    unfolding was old_def by (cases "dget (po_key_to_terms p) k") auto
  have now: "{j. \<exists>ts. dget (po_key_to_terms ?p) j = Some ts \<and> t \<in> set ts}
      = (if t \<in> set ts then insert k (bucket_of (po_term_to_keys p) t) else bucket_of (po_term_to_keys p) t - {k})" for t
    unfolding was keys by auto
  have "bucket_of (po_term_to_keys ?p) t = {j. \<exists>ts. dget (po_key_to_terms ?p) j = Some ts \<and> t \<in> set ts}" for t
    using mine [of t] unfolding now terms bucket_add_postings bucket_drop_postings by auto
  moreover have "no_empty_bucket (po_term_to_keys ?p)"
    unfolding terms using assms(1) by (simp add: postings_ok_def no_empty_bucket_def [symmetric] drop_postings_nonempty add_postings_nonempty)
  ultimately show "postings_ok ?p"
    using assms(1) by (auto simp: postings_ok_def no_empty_bucket_def keys split: if_splits)
qed

lemma drop_key_postings_ok:
  assumes "postings_ok p" "dget (po_key_to_terms p) k = Some ts"
  shows "postings_ok (p\<lparr>po_key_to_terms := ddel k (po_key_to_terms p), po_term_to_keys := fold (drop_posting k) ts (po_term_to_keys p)\<rparr>)"
proof -
  have was: "bucket_of (po_term_to_keys p) t = {j. \<exists>ts. dget (po_key_to_terms p) j = Some ts \<and> t \<in> set ts}" for t
    using assms(1) by (simp add: postings_ok_def)
  have "{j. \<exists>us. dget (ddel k (po_key_to_terms p)) j = Some us \<and> t \<in> set us} = bucket_of (po_term_to_keys p) t - {k}" for t
    unfolding was by auto
  moreover have "k \<in> bucket_of (po_term_to_keys p) t \<longleftrightarrow> t \<in> set ts" for t unfolding was using assms(2) by simp
  ultimately have "bucket_of (fold (drop_posting k) ts (po_term_to_keys p)) t
      = {j. \<exists>us. dget (ddel k (po_key_to_terms p)) j = Some us \<and> t \<in> set us}" for t
    unfolding bucket_drop_postings by auto
  moreover have "no_empty_bucket (fold (drop_posting k) ts (po_term_to_keys p))"
    using assms(1) by (simp add: postings_ok_def no_empty_bucket_def [symmetric] drop_postings_nonempty)
  ultimately show ?thesis
    using assms(1) by (auto simp: postings_ok_def no_empty_bucket_def)
qed

lemma hits_of_is:
  "int (length out) < limit \<Longrightarrow> hits_of limit keys out = out @ map (\<lambda>k. IndexHit k ()) (take (nat limit - length out) keys)"
proof (induction keys arbitrary: out)
  case (Cons key keys)
  show ?case
  proof (cases "int (length out) + 1 \<ge> limit")
    case True
    with Cons.prems have "nat limit - length out = 1" by linarith
    with True show ?thesis by (simp add: Let_def)
  next
    case False
    then have "nat limit - length out = Suc (nat limit - length (out @ [IndexHit key ()]))" by simp
    with False Cons.IH [of "out @ [IndexHit key ()]"] show ?thesis by (simp add: Let_def)
  qed
qed simp

definition postings_of :: "('k, 'v) term_index \<Rightarrow> 'k term_root \<Rightarrow> 'k term_postings" where
  "postings_of ti root = bucket_in no_postings root (mi_scope ti)"

definition term_inv :: "('k, 'v) term_index \<Rightarrow> 'k term_root \<Rightarrow> bool" where
  "term_inv ti root \<longleftrightarrow> postings_ok (postings_of ti root)"

definition term_entries :: "('k, 'v) term_index \<Rightarrow> 'k term_root \<Rightarrow> 'k \<Rightarrow> string list option" where
  "term_entries ti root = dget (po_key_to_terms (postings_of ti root))"

text \<open>The terms of a value, if it has any.\<close>

definition terms_made :: "('k, 'v) term_index \<Rightarrow> 'k \<Rightarrow> 'v \<Rightarrow> string list option" where
  "terms_made ti k v = (if ti_terms_of ti k v = [] then None else Some (fromkeys (ti_terms_of ti k v)))"

lemma postings_law:
  "\<exists>root'. postings ti root = (Inr (postings_of ti root), root') \<and> bucket_in no_postings root' = bucket_in no_postings root"
  using for_scope_law [of no_postings "mi_scope ti" root] by (auto simp: postings_def postings_of_def)

lemma term_inv_empty: "term_inv ti []"
  by (simp add: term_inv_def postings_of_def bucket_in_def no_postings_def postings_ok_def)

lemma term_upsert_law:
  assumes "term_inv ti root"
  shows "\<exists>root'. term_upsert ti k v () root = (Inr (), root') \<and> term_inv ti root'
    \<and> term_entries ti root' = (term_entries ti root)(k := terms_made ti k v)"
proof -
  from postings_law [of ti root] obtain r where
    r: "postings ti root = (Inr (postings_of ti root), r)" "bucket_in no_postings r = bucket_in no_postings root" by blast
  let ?p = "upsert_postings k (fromkeys (ti_terms_of ti k v)) (postings_of ti root)"
  have "term_upsert ti k v () root = (Inr (), dput (mi_scope ti) ?p r)" by (simp add: term_upsert_def bindP_run r)
  moreover have "postings_of ti (dput (mi_scope ti) ?p r) = ?p" by (simp add: postings_of_def)
  ultimately show ?thesis
    using upsert_postings_ok [of "postings_of ti root" "fromkeys (ti_terms_of ti k v)" k] assms
    by (simp add: term_inv_def term_entries_def terms_made_def)
qed

lemma term_delete_law:
  assumes "term_inv ti root"
  shows "\<exists>root'. term_delete ti k root = (Inr (term_entries ti root k \<noteq> None), root') \<and> term_inv ti root'
    \<and> term_entries ti root' = (term_entries ti root)(k := None)"
proof -
  from postings_law [of ti root] obtain r where
    r: "postings ti root = (Inr (postings_of ti root), r)" "bucket_in no_postings r = bucket_in no_postings root" by blast
  let ?p = "postings_of ti root"
  let ?p' = "?p\<lparr>po_key_to_terms := ddel k (po_key_to_terms ?p)\<rparr>"
  have ok: "postings_ok ?p" using assms by (simp add: term_inv_def)
  show ?thesis
  proof (cases "dget (po_key_to_terms ?p) k")
    case None
    then have "dget (ddel k (po_key_to_terms ?p)) = dget (po_key_to_terms ?p)" by auto
    moreover have "term_delete ti k root = (Inr False, dput (mi_scope ti) ?p' r)" by (simp add: term_delete_def bindP_run r None)
    moreover have "postings_of ti (dput (mi_scope ti) ?p' r) = ?p'" by (simp add: postings_of_def)
    ultimately show ?thesis using ok None by (simp add: term_inv_def term_entries_def postings_ok_def)
  next
    case (Some ts)
    let ?q = "?p'\<lparr>po_term_to_keys := fold (drop_posting k) ts (po_term_to_keys ?p)\<rparr>"
    have "ts \<noteq> []" using ok Some by (auto simp: postings_ok_def)
    then have "term_delete ti k root = (Inr True, dput (mi_scope ti) ?q r)" by (simp add: term_delete_def bindP_run r Some)
    moreover have "postings_of ti (dput (mi_scope ti) ?q r) = ?q" by (simp add: postings_of_def)
    ultimately show ?thesis using drop_key_postings_ok [OF ok Some] Some by (simp add: term_inv_def term_entries_def)
  qed
qed

lemma term_search_law:
  assumes "term_inv ti root" "enumerates (mi_order ti)"
  shows "\<exists>hits root'. term_search ti q limit root = (Inr hits, root') \<and> term_inv ti root' \<and> term_entries ti root' = term_entries ti root
    \<and> distinct (map hit_key hits)
    \<and> hit_key ` set hits \<subseteq> {k. \<exists>ts. term_entries ti root k = Some ts \<and> q \<in> set ts}
    \<and> length hits = min (nat limit) (card {k. \<exists>ts. term_entries ti root k = Some ts \<and> q \<in> set ts})"
proof (cases "limit \<le> 0")
  case True
  with assms show ?thesis by (simp add: term_search_def)
next
  case False
  from postings_law [of ti root] obtain r where
    r: "postings ti root = (Inr (postings_of ti root), r)" "bucket_in no_postings r = bucket_in no_postings root" by blast
  define S where "S = {k. \<exists>ts. term_entries ti root k = Some ts \<and> q \<in> set ts}"
  have S: "bucket_of (po_term_to_keys (postings_of ti root)) q = S"
    using assms(1) by (simp add: term_inv_def postings_ok_def term_entries_def S_def)
  have "S \<subseteq> set (dkeys (po_key_to_terms (postings_of ti root)))" by (auto simp: S_def term_entries_def dest: dget_Some_key)
  then have "finite S" by (rule finite_subset) simp
  with assms(2) have order: "distinct (mi_order ti S)" "set (mi_order ti S) = S" by (simp_all add: enumerates_def)
  have "term_search ti q limit root = (Inr (map (\<lambda>k. IndexHit k ()) (take (nat limit) (mi_order ti S))), r)"
    using False by (simp add: term_search_def mapP_run r S hits_of_is)
  moreover have "term_inv ti r" "term_entries ti r = term_entries ti root"
    using r(2) assms(1) by (simp_all add: term_inv_def term_entries_def postings_of_def)
  moreover have "set (take (nat limit) (mi_order ti S)) \<subseteq> S" using order(2) set_take_subset by metis
  moreover have "length (mi_order ti S) = card S" using order distinct_card by metis
  ultimately show ?thesis unfolding S_def [symmetric] using order(1)
    by (intro exI [of _ "map (\<lambda>k. IndexHit k ()) (take (nat limit) (mi_order ti S))"] exI [of _ r])
      (simp add: comp_def image_image min.commute)
qed

locale term_collection =
  fixes ti :: "('k, 'v) term_index"
  assumes order_law: "enumerates (mi_order ti)"

lemma term_index_sync: "index_sync (term_index_ops ti) k v = term_upsert ti k v ()"
  and term_index_batch_sync:
    "index_batch_sync (term_index_ops ti) items = iterP (\<lambda>(k, v). index_sync (term_index_ops ti) k v) items"
  by (subst null_meta_sync; simp add: term_index_ops_def)+

sublocale term_collection \<subseteq> tracked: searched_index "term_index_ops ti" "term_entries ti" "term_inv ti" "\<lambda>_ _ _. True"
    "\<lambda>k v _. terms_made ti k v" "\<lambda>q k ts. q \<in> set ts"
proof
  fix u k v q limit
  assume inv: "term_inv ti u"
  show "\<exists>u'. index_sync (term_index_ops ti) k v u = (Inr (), u') \<and> term_inv ti u' \<and> term_entries ti u' = (term_entries ti u)(k := terms_made ti k v)"
    using term_upsert_law [OF inv] by (simp add: term_index_sync)
  show "\<exists>u'. io_delete (term_index_ops ti) k u = (Inr (term_entries ti u k \<noteq> None), u') \<and> term_inv ti u'
      \<and> term_entries ti u' = (term_entries ti u)(k := None)"
    using term_delete_law [OF inv] by (simp add: term_index_ops_def)
  show "\<exists>hits u'. io_search (term_index_ops ti) q limit u = (Inr hits, u') \<and> term_inv ti u' \<and> term_entries ti u' = term_entries ti u
      \<and> distinct (map hit_key hits) \<and> hit_key ` set hits \<subseteq> {k. \<exists>e. term_entries ti u k = Some e \<and> q \<in> set e}
      \<and> length hits = min (nat limit) (card {k. \<exists>e. term_entries ti u k = Some e \<and> q \<in> set e})"
    using term_search_law [OF inv order_law] by (simp add: term_index_ops_def)
qed (simp_all add: term_index_batch_sync)

text \<open>An index of keys that can be sorted, gone through in their order.\<close>

definition sorted_term_index :: "scope \<Rightarrow> ('k \<Rightarrow> 'v \<Rightarrow> string list) \<Rightarrow> ('k :: linorder, 'v) term_index" where
  "sorted_term_index sc terms_of = \<lparr>mi_name = ''mem-terms'', mi_sync_on_write = True, mi_scope = sc,
     mi_order = sorted_list_of_set, ti_terms_of = terms_of\<rparr>"

interpretation sorted_terms: term_collection "sorted_term_index sc terms_of" for sc terms_of
  by unfold_locales (simp add: sorted_term_index_def enumerates_def)

end
