(* ===== verification/Index_Store.thy ===== *)
theory Index_Store
  imports Index_Laws "HOL-Library.List_Lexorder" "HOL-Library.Char_ord"
begin

text \<open>
  A store with an index: the index keeps in step with the store through every write and
  delete, and a search of the store answers records the store holds, that match.
\<close>

section \<open>The topology of an indexed store\<close>

lemma indexed_topology_is:
  "\<exists>p s. store_target 0 ''store'' Authority underlying whole None False Required = Inr p
     \<and> indexes_target 1 indexes policy = Inr s
     \<and> indexed_topology underlying indexes policy = Inr \<lparr>tp_targets = [p, s], tp_parts = [], tp_assemble = None\<rparr>"
  by (simp add: indexed_topology_def declare_targets_def store_target_def indexes_target_def keymap_target_def new_target_def Let_def
      new_topology_def all_targets_def committing_targets_def by_role_def)

lemma indexes_target_is:
  assumes "indexes_target ident indexes policy = Inr t"
  shows "t_role t = Dependent" "t_name t = ''indexes''" "t_policy t = policy" "t_lookup t = Some Never" "t_writes_are_deferred t = False"
    "t_write t = (\<lambda>key value _. each_index (\<lambda>ix. ix_sync ix key value) 0 indexes [])"
    "t_delete t = indexes_delete indexes"
  using assms by (auto simp: indexes_target_def new_target_def Let_def)

lemma indexed_lookups:
  assumes "t_role p = Authority" "t_lookup p = None" "t_lookup s = Some Never"
  shows "lookups \<lparr>tp_targets = [p, s], tp_parts = [], tp_assemble = None\<rparr> = [p]"
    "assembled \<lparr>tp_targets = [p, s], tp_parts = [], tp_assemble = None\<rparr> = False"
  using assms by (simp_all add: lookups_def whole_authority_def assembled_def)

text \<open>Reading through the only target there is.\<close>

lemma read_one_lookup:
  assumes "t_batch_read p ks w = (Inr d, w')" "ks = [] \<Longrightarrow> d = [] \<and> w' = w" "dict_ok d"
  shows "\<exists>d'. batch_read_lookups ks [] [p] [] w = (Inr d', w') \<and> dget d' = dget d"
  using assms dget_dmerge [of "[]" d] by (auto simp: Let_def bindP_run thenP_run batch_fill_def fillable_def fun_eq_iff)

section \<open>Runs\<close>

text \<open>A sequence of writes and deletes, and the map it comes to.\<close>

datatype ('k, 'v) store_step = SetRecord 'k 'v | DeleteRecord 'k

fun run_step :: "('w, 'k, 'v) keymap \<Rightarrow> ('k, 'v) store_step \<Rightarrow> ('w, unit) prog" where
  "run_step km (SetRecord k v) = km_set km k v no_options"
| "run_step km (DeleteRecord k) = thenP (km_delete km k) (returnP ())"

fun replay :: "('k, 'v) store_step list \<Rightarrow> ('k \<Rightarrow> 'v option) \<Rightarrow> ('k \<Rightarrow> 'v option)" where
  "replay [] m = m"
| "replay (SetRecord k v # steps) m = replay steps (m(k \<mapsto> v))"
| "replay (DeleteRecord k # steps) m = replay steps (m(k := None))"

lemma topology_keymap_steps:
  "km_set (topology_keymap tp) k v no_options = topo_write tp k v no_options"
  "km_delete (topology_keymap tp) = topo_delete tp"
  "km_batch_get (topology_keymap tp) = (\<lambda>ks. on_fst (topo_batch_read tp ks))"
  by (simp_all add: topology_keymap_def record_keymap_def admit_def no_options_def require_write_clock_supported_def
      thenP_run fun_eq_iff)

section \<open>A store and its index\<close>

locale indexed_store = l: clearing_keymap kl hl il ll + x: searched_index io entries xinv takes made matches
  for kl :: "('w, 'k, 'v) keymap" and hl il ll
    and io :: "('u, 'q, 'k, 'v, 'm) index_ops" and entries :: "'u \<Rightarrow> 'k \<Rightarrow> 'e option" and xinv takes made matches
begin

definition in_step :: "'w \<Rightarrow> 'u \<Rightarrow> bool" where
  "in_step w u \<longleftrightarrow> il w \<and> xinv u \<and> (\<forall>k. entries u k = (case hl w k of None \<Rightarrow> None | Some v \<Rightarrow> made k v None))"

lemma each_index_sync:
  assumes "io_sync_on_write io" "xinv u"
  shows "\<exists>u'. each_index (\<lambda>ix. ix_sync ix k v) 0 [attached_index (right_index io)] [] (w, u) = (Inr (), (w, u')) \<and> xinv u'
    \<and> entries u' = (entries u)(k := made k v None)"
proof -
  from x.sync_law [OF assms(2) x.takes_all] obtain u' where
    u': "index_sync io k v u = (Inr (), u')" "xinv u'" "entries u' = (entries u)(k := made k v (entries u k))" by blast
  have "index_sync (right_index io) k v (w, u) = (Inr (), (w, u'))"
    using u'(1) by (auto simp: index_sync_def right_index_def bindP_run split: prod.splits sum.splits)
  with assms(1) u' x.made_anew [of k v "entries u k"] show ?thesis
    by (simp add: attached_index_def bindP_run catchP_run mapP_run) (simp add: right_index_def)
qed

lemma each_index_delete:
  assumes "io_sync_on_write io" "xinv u"
  shows "\<exists>u'. indexes_delete [attached_index (right_index io)] k (w, u) = (Inr False, (w, u')) \<and> xinv u'
    \<and> entries u' = (entries u)(k := None)"
proof -
  from x.remove_law [OF assms(2)] obtain u' where
    u': "io_delete io k u = (Inr (entries u k \<noteq> None), u')" "xinv u'" "entries u' = (entries u)(k := None)" by blast
  with assms(1) show ?thesis
    by (simp add: indexes_delete_def attached_index_def right_index_def bindP_run catchP_run mapP_run thenP_run)
qed

text \<open>A write and a delete of the store, seen by both.\<close>

lemma indexed_write:
  assumes tp: "indexed_topology st [attached_index (right_index io)] policy = Inr tp" and km: "st_keymap st = left_keymap kl"
    and now: "\<not> st_writes_are_deferred st" and on: "io_sync_on_write io" and inv: "in_step w u"
    and live: "ll w (wo_ttl opts) (wo_created_at (taken st opts))"
  shows "\<exists>w' u'. topo_write tp k v opts ((w, u), q) = (Inr (), ((w', u'), q)) \<and> in_step w' u' \<and> hl w' = (hl w)(k \<mapsto> v)"
proof -
  from indexed_topology_is [of st "[attached_index (right_index io)]" policy] tp obtain pt it where
    pt: "store_target 0 ''store'' Authority st whole None False Required = Inr pt"
    and it: "indexes_target 1 [attached_index (right_index io)] policy = Inr it"
    and tp': "tp = \<lparr>tp_targets = [pt, it], tp_parts = [], tp_assemble = None\<rparr>" by auto
  note pi = store_target_is [OF pt] and si = indexes_target_is [OF it]
  have opts: "receives pt opts = taken st opts" and ttl: "wo_ttl (taken st opts) = wo_ttl opts"
    by (simp_all add: receives_def taken_def pi)
  from inv have il: "il w" and xi: "xinv u" and ag: "\<And>j. entries u j = (case hl w j of None \<Rightarrow> None | Some v \<Rightarrow> made j v None)"
    by (auto simp: in_step_def)
  from l.set_law [OF il, of "taken st opts" k v] live ttl obtain w' where
    w': "km_set kl k v (taken st opts) w = (Inr (), w')" "il w'" "hl w' = (hl w)(k \<mapsto> v)" by auto
  have kmt: "kmt_write (left_keymap kl) whole k v (taken st opts) (w, u) = (Inr (), (w', u))"
    using w'(1) by (simp add: kmt_write_def whole_def left_keymap_def)
  from each_index_sync [OF on xi, of k v w'] obtain u' where
    u': "each_index (\<lambda>ix. ix_sync ix k v) 0 [attached_index (right_index io)] [] (w', u) = (Inr (), (w', u'))"
      "xinv u'" "entries u' = (entries u)(k := made k v None)" by blast
  have "t_role pt = Authority" "t_role it = Dependent" by (simp_all add: pi si)
  note shape = mirror_shape [OF this, folded tp']
  have "deferred tp = False" using now by (simp add: deferred_def shape pi)
  with kmt u'(1) have "topo_write tp k v opts ((w, u), q) = (Inr (), ((w', u'), q))"
    by (simp add: topo_write_def to_dependents_def shape sync_one_def syncs_run_def committing_run settle_run thenP_run pi si km opts
        del: each_index.simps)
  moreover have "in_step w' u'" using w' u' ag by (auto simp: in_step_def)
  ultimately show ?thesis using w'(3) by blast
qed

lemma indexed_delete:
  assumes tp: "indexed_topology st [attached_index (right_index io)] policy = Inr tp" and km: "st_keymap st = left_keymap kl"
    and now: "\<not> st_writes_are_deferred st" and on: "io_sync_on_write io" and inv: "in_step w u"
  shows "\<exists>b w' u'. topo_delete tp k ((w, u), q) = (Inr b, ((w', u'), q)) \<and> in_step w' u' \<and> hl w' = (hl w)(k := None)"
proof -
  from indexed_topology_is [of st "[attached_index (right_index io)]" policy] tp obtain pt it where
    pt: "store_target 0 ''store'' Authority st whole None False Required = Inr pt"
    and it: "indexes_target 1 [attached_index (right_index io)] policy = Inr it"
    and tp': "tp = \<lparr>tp_targets = [pt, it], tp_parts = [], tp_assemble = None\<rparr>" by auto
  note pi = store_target_is [OF pt] and si = indexes_target_is [OF it]
  from inv have il: "il w" and xi: "xinv u" and ag: "\<And>j. entries u j = (case hl w j of None \<Rightarrow> None | Some v \<Rightarrow> made j v None)"
    by (auto simp: in_step_def)
  from l.delete_law [OF il, of k] obtain b w' where
    w': "km_delete kl k w = (Inr b, w')" "il w'" "hl w' = (hl w)(k := None)" by blast
  from each_index_delete [OF on xi, of k w'] obtain u' where
    u': "indexes_delete [attached_index (right_index io)] k (w', u) = (Inr False, (w', u'))"
      "xinv u'" "entries u' = (entries u)(k := None)" by blast
  have "t_role pt = Authority" "t_role it = Dependent" by (simp_all add: pi si)
  note shape = mirror_shape [OF this, folded tp']
  have "deferred tp = False" using now by (simp add: deferred_def shape pi)
  with w'(1) u'(1) have "topo_delete tp k ((w, u), q) = (Inr b, ((w', u'), q))"
    by (simp add: topo_delete_def topo_remove_def removed_now_def removed_after_commit_def dependents_def [symmetric] shape
        sync_one_def syncs_run_def settle_run thenP_run bindP_run mapP_run pi si km left_keymap_def)
  moreover have "in_step w' u'" using w' u' ag by (auto simp: in_step_def)
  ultimately show ?thesis using w'(3) by blast
qed

lemma indexed_runs:
  assumes tp: "indexed_topology st [attached_index (right_index io)] policy = Inr tp" and km: "st_keymap st = left_keymap kl"
    and now: "\<not> st_writes_are_deferred st" and on: "io_sync_on_write io" and inv: "in_step w u"
    and live: "\<And>w. ll w None None"
  shows "\<exists>w' u'. iterP (run_step (topology_keymap tp)) steps ((w, u), q) = (Inr (), ((w', u'), q)) \<and> in_step w' u'
    \<and> hl w' = replay steps (hl w)"
  using inv
proof (induction steps arbitrary: w u)
  case (Cons step steps)
  have "\<exists>w1 u1. run_step (topology_keymap tp) step ((w, u), q) = (Inr (), ((w1, u1), q)) \<and> in_step w1 u1
      \<and> replay (step # steps) (hl w) = replay steps (hl w1)"
  proof (cases step)
    case (SetRecord k v)
    have "ll w (wo_ttl no_options) (wo_created_at (taken st no_options))" using live [of w] by (simp add: no_options_def taken_def)
    from indexed_write [OF tp km now on Cons.prems this, of k v q] SetRecord show ?thesis
      by (auto simp: topology_keymap_steps)
  next
    case (DeleteRecord k)
    with indexed_delete [OF tp km now on Cons.prems, of k q] show ?thesis
      by (auto simp: topology_keymap_steps thenP_run)
  qed
  then obtain w1 u1 where s: "run_step (topology_keymap tp) step ((w, u), q) = (Inr (), ((w1, u1), q))" "in_step w1 u1"
    "replay (step # steps) (hl w) = replay steps (hl w1)" by blast
  from Cons.IH [OF s(2)] s show ?case by (fastforce simp: thenP_run)
qed simp

text \<open>What a search answers, from a store and an index in step.\<close>

definition matching :: "('k \<Rightarrow> 'v option) \<Rightarrow> 'q \<Rightarrow> 'k set" where
  "matching m q = {k. \<exists>v e. m k = Some v \<and> made k v None = Some e \<and> matches q k e}"

lemma entries_matching:
  "in_step w u \<Longrightarrow> {k. \<exists>e. entries u k = Some e \<and> matches q k e} = matching (hl w) q"
  by (auto simp: in_step_def matching_def split: option.splits)

lemma indexed_search_exact:
  assumes tp: "indexed_topology st indexes policy = Inr tp" and km: "st_keymap st = left_keymap kl" and inv: "in_step w u"
  shows "\<exists>rows w' u'. indexed_search [(i, left_index (right_index io))] d (topology_keymap tp) (SearchIndex i q) limit ((w, u), s)
      = (Inr rows, ((w', u'), s))
    \<and> in_step w' u' \<and> hl w' = hl w
    \<and> distinct (map fst rows) \<and> length rows = min (nat limit) (card (matching (hl w) q))
    \<and> (\<forall>(k, v) \<in> set rows. k \<in> matching (hl w) q \<and> hl w k = Some v)"
proof -
  from inv have il: "il w" and xi: "xinv u" by (auto simp: in_step_def)
  from x.search_law [OF xi, of q limit, unfolded entries_matching [OF inv]] obtain hits u' where
    h: "io_search io q limit u = (Inr hits, u')" "xinv u'" "entries u' = entries u" "distinct (map hit_key hits)"
      "hit_key ` set hits \<subseteq> matching (hl w) q" "length hits = min (nat limit) (card (matching (hl w) q))" by blast
  let ?ks = "map hit_key hits"
  have held: "hl w k \<noteq> None" if "k \<in> set ?ks" for k using h(5) that by (force simp: matching_def)
  have search: "search_hits [(i, left_index (right_index io))] i q limit ((w, u), s) = (Inr hits, ((w, u'), s))"
    by (simp add: search_hits_def left_index_def right_index_def h(1))
  show ?thesis
  proof (cases "hits = []")
    case True
    with h inv search show ?thesis
      by (auto simp: search_and_hydrate_def hydrate_def bindP_run in_step_def)
  next
    case False
    from indexed_topology_is [of st indexes policy] tp obtain pt it where
      pt: "store_target 0 ''store'' Authority st whole None False Required = Inr pt"
      and it: "indexes_target 1 indexes policy = Inr it"
      and tp': "tp = \<lparr>tp_targets = [pt, it], tp_parts = [], tp_assemble = None\<rparr>" by auto
    note pi = store_target_is [OF pt] store_target_reads [OF pt] and si = indexes_target_is [OF it]
    have "t_role pt = Authority" "t_lookup pt = None" "t_lookup it = Some Never" by (simp_all add: pi si)
    note shape = indexed_lookups [OF this, folded tp']
    from l.batch_get_law [OF il, of ?ks] obtain d w' where
      d: "km_batch_get kl ?ks w = (Inr d, w')" "il w'" "hl w' = hl w" "dict_ok d"
        "\<And>k. dget d k = (if k \<in> set ?ks then hl w k else None)" by blast
    have read: "t_batch_read pt ?ks (w, u') = (Inr d, (w', u'))" by (simp add: pi km left_keymap_def d(1))
    from read_one_lookup [OF read _ d(4)] False obtain d' where
      d': "batch_read_lookups ?ks [] [pt] [] (w, u') = (Inr d', (w', u'))" "dget d' = dget d" by auto
    have "topo_batch_read tp ?ks (w, u') = (Inr d', (w', u'))" by (simp add: topo_batch_read_def shape d'(1) del: batch_read_lookups.simps)
    then have "km_batch_get (topology_keymap tp) ?ks ((w, u'), s) = (Inr d', ((w', u'), s))" by (simp add: topology_keymap_steps)
    moreover have "filter (\<lambda>k. dget d' k \<noteq> None) ?ks = ?ks" using held by (auto simp: d' d(5) intro: filter_True)
    ultimately have hyd: "hydrate (topology_keymap tp) ?ks ((w, u'), s) = (Inr (map (\<lambda>k. (k, the (dget d' k))) ?ks), ((w', u'), s))"
      using False by (simp add: hydrate_def mapP_run)
    define rows where "rows = map (\<lambda>k. (k, the (dget d' k))) ?ks"
    have keys: "map fst rows = ?ks" by (simp add: rows_def comp_def)
    have "indexed_search [(i, left_index (right_index io))] d0 (topology_keymap tp) (SearchIndex i q) limit ((w, u), s)
        = (Inr rows, ((w', u'), s))" for d0
      using hyd by (simp add: search_and_hydrate_def bindP_run search rows_def)
    moreover have "in_step w' u'" using inv d h by (simp add: in_step_def)
    moreover have "\<forall>(k, v) \<in> set rows. k \<in> matching (hl w) q \<and> hl w k = Some v"
      using held h(5) by (auto simp: rows_def d' d(5))
    moreover have "distinct (map fst rows)" using h(4) unfolding keys .
    moreover have "length rows = min (nat limit) (card (matching (hl w) q))" using h(6) by (simp add: rows_def)
    ultimately show ?thesis using d(3) by blast
  qed
qed

end

section \<open>A collection with the index of its terms\<close>

locale indexed_documents = docs: memory_collection mb + terms: term_collection ti
  for mb :: "('k, 'v) memory_backend" and ti :: "('k, 'v) term_index"

sublocale indexed_documents \<subseteq> indexed: indexed_store "memory_keymap mb" "memory_holds mb" "memory_inv mb" "memory_live mb"
    "term_index_ops ti" "term_entries ti" "term_inv ti" "\<lambda>_ _ _. True" "\<lambda>k v _. terms_made ti k v" "\<lambda>q k ts. q \<in> set ts"
  by unfold_locales

lemma memory_live_no_ttl:
  "ttl_seconds (ks_ttl_policy (be_kvset (mb_backend mb))) = None \<Longrightarrow> memory_live mb w None None"
  by (simp add: memory_live_def memory_expires_at_def resolve_ttl_seconds_def)

lemma memory_holds_empty: "memory_holds mb (empty_root now) = Map.empty"
  by (simp add: memory_holds_def live_at_def stored_at_def bucket_def empty_root_def fun_eq_iff split: sum.splits)

context indexed_documents
begin

lemma terms_matching: "indexed.matching m t = {k. \<exists>v. m k = Some v \<and> t \<in> set (ti_terms_of ti k v)}"
proof -
  have "(\<exists>e. terms_made ti k v = Some e \<and> t \<in> set e) \<longleftrightarrow> t \<in> set (ti_terms_of ti k v)" for k v
    by (cases "ti_terms_of ti k v = []") (auto simp: terms_made_def)
  then show ?thesis unfolding indexed.matching_def by blast
qed

lemma in_step_empty: "indexed.in_step (empty_root now) []"
  by (simp add: indexed.in_step_def memory_inv_empty term_inv_empty memory_holds_empty)
    (simp add: term_entries_def postings_of_def bucket_in_def no_postings_def)

lemma replayed_search:
  assumes "mi_sync_on_write ti" "ttl_seconds (ks_ttl_policy (be_kvset (mb_backend mb))) = None"
    and tp: "indexed_topology (left_store (memory_store mb)) [attached_index (right_index (term_index_ops ti))] policy = Inr tp"
  shows "\<exists>w u. iterP (run_step (topology_keymap tp)) steps ((empty_root now, []), []) = (Inr (), ((w, u), []))
    \<and> (\<forall>t limit. \<exists>rows n. indexed_search [(i, left_index (right_index (term_index_ops ti)))] d (topology_keymap tp)
            (SearchIndex i t) limit ((w, u), []) = (Inr rows, n)
        \<and> distinct (map fst rows)
        \<and> (\<forall>(k, v) \<in> set rows. replay steps Map.empty k = Some v \<and> t \<in> set (ti_terms_of ti k v))
        \<and> length rows = min (nat limit) (card {k. \<exists>v. replay steps Map.empty k = Some v \<and> t \<in> set (ti_terms_of ti k v)}))"
proof -
  have km: "st_keymap (left_store (memory_store mb)) = left_keymap (memory_keymap mb)"
    "\<not> st_writes_are_deferred (left_store (memory_store mb))"
    by (simp_all add: left_store_def memory_store_def)
  have on: "io_sync_on_write (term_index_ops ti)" using assms(1) by (simp add: term_index_ops_def)
  from indexed.indexed_runs [OF tp km on in_step_empty memory_live_no_ttl [OF assms(2)], of steps now "[]"] obtain w u where
    run: "iterP (run_step (topology_keymap tp)) steps ((empty_root now, []), []) = (Inr (), ((w, u), []))"
    and inv: "indexed.in_step w u" and holds: "memory_holds mb w = replay steps Map.empty"
    by (auto simp: memory_holds_empty)
  have "\<exists>rows n. indexed_search [(i, left_index (right_index (term_index_ops ti)))] d (topology_keymap tp)
            (SearchIndex i t) limit ((w, u), []) = (Inr rows, n)
        \<and> distinct (map fst rows)
        \<and> (\<forall>(k, v) \<in> set rows. replay steps Map.empty k = Some v \<and> t \<in> set (ti_terms_of ti k v))
        \<and> length rows = min (nat limit) (card {k. \<exists>v. replay steps Map.empty k = Some v \<and> t \<in> set (ti_terms_of ti k v)})"
    for t limit
  proof -
    from indexed.indexed_search_exact [OF tp km(1) inv, of i d t limit "[]", unfolded terms_matching holds] obtain rows w' u' where
      r: "indexed_search [(i, left_index (right_index (term_index_ops ti)))] d (topology_keymap tp) (SearchIndex i t) limit ((w, u), [])
          = (Inr rows, ((w', u'), []))" "distinct (map fst rows)"
        "length rows = min (nat limit) (card {k. \<exists>v. replay steps Map.empty k = Some v \<and> t \<in> set (ti_terms_of ti k v)})"
        "\<forall>(k, v) \<in> set rows. k \<in> {k. \<exists>v. replay steps Map.empty k = Some v \<and> t \<in> set (ti_terms_of ti k v)} \<and> replay steps Map.empty k = Some v"
      by blast
    from r(4) have "\<forall>(k, v) \<in> set rows. replay steps Map.empty k = Some v \<and> t \<in> set (ti_terms_of ti k v)" by fastforce
    with r(1,2,3) show ?thesis by blast
  qed
  with run show ?thesis by blast
qed

end

interpretation indexed_docs: indexed_documents "docs_memory gc sc" "sorted_term_index sc' terms_of" for gc sc sc' terms_of
  by unfold_locales

end
