(* ===== verification/Vector_Laws.thy ===== *)
theory Vector_Laws
  imports Index_Laws Complex_Main "HOL-Library.Multiset"
begin

text \<open>
  The in-memory vector index: its vectors and its records stay in step through every
  operation of every view; an owning view keeps the contract of an index; a search ranks
  what is in scope.
\<close>

section \<open>Vectors and records in step\<close>

definition vector_root_ok :: "('k, 'd, 'f) vector_root \<Rightarrow> bool" where
  "vector_root_ok v \<longleftrightarrow> dict_ok (vr_vectors v) \<and> dict_ok (vr_records v)
     \<and> set (dkeys (vr_vectors v)) = set (dkeys (vr_records v))
     \<and> (\<forall>pid leaf r. dget (vr_records v) pid = Some (leaf, r) \<longrightarrow> vrec_embedding r = dget (vr_vectors v) pid)"

definition vector_media_ok :: "('k, 'd, 'f) vector_media \<Rightarrow> bool" where
  "vector_media_ok w \<longleftrightarrow> (\<forall>r. vector_root_ok (root_at r w))"

lemma root_at_with_root [simp]: "root_at r (with_root r' v w) = (if r = r' then v else root_at r w)"
  by (simp add: root_at_def with_root_def)

lemma with_root_ok: "vector_media_ok w \<Longrightarrow> vector_root_ok v \<Longrightarrow> vector_media_ok (with_root r v w)"
  by (simp add: vector_media_ok_def)

lemma empty_vector_root_ok: "vector_root_ok empty_vector_root"
  by (simp add: vector_root_ok_def empty_vector_root_def)

lemma put_entry_ok:
  "vector_root_ok v \<Longrightarrow> vrec_embedding r = Some emb \<Longrightarrow> vector_root_ok (put_entry pid emb (leaf, r) v)"
  by (auto simp: vector_root_ok_def put_entry_def)

lemma drop_entry_ok:
  "vector_root_ok v \<Longrightarrow> vector_root_ok \<lparr>vr_vectors = ddel pid (vr_vectors v), vr_records = ddel pid (vr_records v)\<rparr>"
  by (auto simp: vector_root_ok_def)

lemma change_record_ok:
  assumes "vector_root_ok v" "dget (vr_records v) pid = Some (leaf, r)" "vrec_embedding r' = vrec_embedding r"
  shows "vector_root_ok (v\<lparr>vr_records := dput pid (leaf', r') (vr_records v)\<rparr>)"
  using assms dget_Some_key [OF assms(2)] by (auto simp: vector_root_ok_def)

text \<open>
  The media that any number of views, sharing storage or not, can reach: by what the
  operations that change it leave, whether they return or raise.
\<close>

inductive vector_reachable :: "('k, 'v, 'd, 'f, 'q) vector_index set \<Rightarrow> ('k, 'd, 'f) vector_media \<Rightarrow> bool" for V where
  start: "vector_reachable V no_vectors"
| opened: "vector_reachable V w \<Longrightarrow> new_vector_index wire merge_data embedder on sc shared w = (r, w') \<Longrightarrow>
    vi \<in> V \<Longrightarrow> r = Inr vi \<Longrightarrow> vector_reachable V w'"
| upserted: "vector_reachable V w \<Longrightarrow> vi \<in> V \<Longrightarrow> vector_upsert vi k v m w = (r, w') \<Longrightarrow> vector_reachable V w'"
| put: "vector_reachable V w \<Longrightarrow> vi \<in> V \<Longrightarrow> vector_set vi k m w = (r, w') \<Longrightarrow> vector_reachable V w'"
| deleted: "vector_reachable V w \<Longrightarrow> vi \<in> V \<Longrightarrow> vector_delete vi k w = (r, w') \<Longrightarrow> vector_reachable V w'"
| reset: "vector_reachable V w \<Longrightarrow> reset_memory_vector_collections w = (r, w') \<Longrightarrow> vector_reachable V w'"

lemma vector_upsert_ok:
  "vector_media_ok w \<Longrightarrow> vector_upsert vi k v m w = (r, w') \<Longrightarrow> vector_media_ok w'"
  by (auto simp: vector_upsert_def with_id_def Let_def intro!: with_root_ok put_entry_ok
      split: sum.splits if_splits) (auto simp: vector_media_ok_def)

lemma vector_set_ok:
  "vector_media_ok w \<Longrightarrow> vector_set vi k m w = (r, w') \<Longrightarrow> vector_media_ok w'"
  by (auto simp: vector_set_def with_id_def Let_def intro!: with_root_ok put_entry_ok
      split: sum.splits option.splits if_splits) (auto simp: vector_media_ok_def)

lemma vector_delete_ok:
  "vector_media_ok w \<Longrightarrow> vector_delete vi k w = (r, w') \<Longrightarrow> vector_media_ok w'"
  by (auto simp: vector_delete_def with_id_def Let_def vector_media_ok_def intro!: drop_entry_ok change_record_ok
      split: sum.splits option.splits if_splits prod.splits)

lemma collection_root_ok:
  assumes "vector_media_ok w" "collection_root c w = (r, w')"
  shows "vector_media_ok w'"
proof (cases "dget (vm_collections w) c")
  case None
  have "root_at i (w\<lparr>vm_collections := cs, vm_roots := dput n empty_vector_root (vm_roots w)\<rparr>)
      = (if i = n then empty_vector_root else root_at i w)" for i n cs
    by (simp add: root_at_def)
  with None assms show ?thesis by (auto simp: collection_root_def Let_def vector_media_ok_def empty_vector_root_ok)
qed (use assms in \<open>simp add: collection_root_def\<close>)

lemma vector_reachable_ok: "vector_reachable V w \<Longrightarrow> vector_media_ok w"
proof (induction rule: vector_reachable.induct)
  case start
  show ?case by (simp add: vector_media_ok_def root_at_def no_vectors_def empty_vector_root_ok)
next
  case (opened w wire merge_data embedder on sc root r w' vi)
  then show ?case
    by (auto simp: new_vector_index_def bindP_run dest: collection_root_ok split: option.splits prod.splits sum.splits)
next
  case (reset w r w')
  then show ?case by (auto simp: reset_memory_vector_collections_def vector_media_ok_def root_at_def)
qed (blast intro: vector_upsert_ok vector_set_ok vector_delete_ok)+

section \<open>An owning view as an index\<close>

definition vector_entries :: "('k, 'v, 'd, 'f, 'q) vector_index \<Rightarrow> ('k, 'd, 'f) vector_media \<Rightarrow> 'k \<Rightarrow> ('d index_data, 'f) vector_record option" where
  "vector_entries vi w k = (case index_physical_id vi k of Inl _ \<Rightarrow> None
     | Inr pid \<Rightarrow> map_option (\<lambda>(leaf, r). r\<lparr>vrec_score := None\<rparr>) (dget (vr_records (root_at (vi_root vi) w)) pid))"

text \<open>What a sync makes of the value, over the record there was; it needs an embedding.\<close>

definition vector_takes :: "('k, 'v, 'd, 'f, 'q) vector_index \<Rightarrow> 'k \<Rightarrow> 'v \<Rightarrow> ('d index_data, 'f) vector_record option \<Rightarrow> bool" where
  "vector_takes vi k v previous \<longleftrightarrow> embedding_for vi k v (vector_meta_of vi k v previous) \<in> range Inr"

definition vector_made ::
  "('k, 'v, 'd, 'f, 'q) vector_index \<Rightarrow> 'k \<Rightarrow> 'v \<Rightarrow> ('d index_data, 'f) vector_record option \<Rightarrow> ('d index_data, 'f) vector_record option" where
  "vector_made vi k v previous = (let meta = vector_meta_of vi k v previous in
     case embedding_for vi k v meta of Inl _ \<Rightarrow> None
     | Inr emb \<Rightarrow> Some \<lparr>vrec_data = vrec_data meta, vrec_document = vrec_document meta, vrec_embedding = Some emb, vrec_score = None\<rparr>)"

lemma item_key_leaf_inj: "item_key b sep sc leaf = item_key b sep sc leaf' \<longleftrightarrow> leaf = leaf'"
  by (cases "cb_name_version_prefix b @ scope_parts sep sc = []")
    (simp_all add: item_key_def blob_join_py_join py_join_append del: append_assoc add: append_assoc [symmetric])

locale vector_collection =
  fixes fo :: "('f :: linorder) float_ops" and vi :: "('k, 'v, 'd, 'f, 'q) vector_index"
  assumes id_law: "is_id_serialize (vi_set vi) k \<noteq> None"
    and id_inj: "is_id_serialize (vi_set vi) k = is_id_serialize (vi_set vi) k' \<Longrightarrow> k = k'"
    and owner: "\<not> is_patch_view (vi_set vi)"
begin

lemma physical_id: "\<exists>pid. index_physical_id vi k = Inr pid"
  using id_law [of k] by (auto simp: index_physical_id_def)

lemma physical_id_inj: "index_physical_id vi k = Inr pid \<Longrightarrow> index_physical_id vi j = Inr pid \<Longrightarrow> j = k"
  using id_inj [of j k] by (auto simp: index_physical_id_def item_key_leaf_inj split: option.splits)

lemma entries_with_root:
  assumes "index_physical_id vi k = Inr pid"
    and "\<And>p. p \<noteq> pid \<Longrightarrow> dget (vr_records v) p = dget (vr_records (root_at (vi_root vi) w)) p"
  shows "vector_entries vi (with_root (vi_root vi) v w)
    = (vector_entries vi w)(k := map_option (\<lambda>(leaf, r). r\<lparr>vrec_score := None\<rparr>) (dget (vr_records v) pid))"
proof
  fix j
  from physical_id [of j] obtain p where "index_physical_id vi j = Inr p" by blast
  with assms physical_id_inj [of k pid j] show "vector_entries vi (with_root (vi_root vi) v w) j
    = ((vector_entries vi w)(k := map_option (\<lambda>(leaf, r). r\<lparr>vrec_score := None\<rparr>) (dget (vr_records v) pid))) j"
    by (cases "p = pid") (auto simp: vector_entries_def)
qed

lemma get_is: "vector_get vi k w = (Inr (vector_entries vi w k), w)"
  using physical_id [of k] by (auto simp: vector_get_def with_id_def vector_entries_def split: option.splits)

lemma sync_law:
  assumes "vector_media_ok w" "vector_takes vi k v (vector_entries vi w k)"
  shows "\<exists>w'. index_sync (vector_index_ops fo vi) k v w = (Inr (), w') \<and> vector_media_ok w'
    \<and> vector_entries vi w' = (vector_entries vi w)(k := vector_made vi k v (vector_entries vi w k))"
proof -
  from physical_id [of k] obtain pid where pid: "index_physical_id vi k = Inr pid" by blast
  let ?m = "vector_meta_of vi k v (vector_entries vi w k)"
  from assms(2) obtain emb where emb: "embedding_for vi k v ?m = Inr emb" by (auto simp: vector_takes_def)
  let ?v = "put_entry pid emb (k, \<lparr>vrec_data = vrec_data ?m, vrec_document = vrec_document ?m, vrec_embedding = Some emb, vrec_score = None\<rparr>)
    (root_at (vi_root vi) w)"
  have "index_sync (vector_index_ops fo vi) k v w = (Inr (), with_root (vi_root vi) ?v w)"
    using owner by (simp add: index_sync_def vector_index_ops_def bindP_run get_is vector_upsert_def with_id_def pid Let_def emb patch_write_is_skippable_def)
  moreover have "vector_media_ok (with_root (vi_root vi) ?v w)"
    using assms(1) by (simp add: vector_media_ok_def put_entry_ok)
  moreover have "vector_entries vi (with_root (vi_root vi) ?v w) = (vector_entries vi w)(k := vector_made vi k v (vector_entries vi w k))"
    using entries_with_root [OF pid, of ?v w] by (simp add: put_entry_def vector_made_def Let_def emb)
  ultimately show ?thesis by blast
qed

lemma remove_law:
  assumes "vector_media_ok w"
  shows "\<exists>w'. io_delete (vector_index_ops fo vi) k w = (Inr (vector_entries vi w k \<noteq> None), w') \<and> vector_media_ok w'
    \<and> vector_entries vi w' = (vector_entries vi w)(k := None)"
proof -
  from physical_id [of k] obtain pid where pid: "index_physical_id vi k = Inr pid" by blast
  let ?v = "root_at (vi_root vi) w"
  show ?thesis
  proof (cases "dget (vr_records ?v) pid")
    case None
    then have "vector_entries vi w k = None" by (simp add: vector_entries_def pid)
    with None assms show ?thesis
      by (simp add: vector_index_ops_def vector_delete_def with_id_def pid Let_def fun_upd_idem)
  next
    case (Some entry)
    let ?u = "\<lparr>vr_vectors = ddel pid (vr_vectors ?v), vr_records = ddel pid (vr_records ?v)\<rparr>"
    have "vector_entries vi (with_root (vi_root vi) ?u w) = (vector_entries vi w)(k := None)"
      using entries_with_root [OF pid, of ?u w] by simp
    moreover have "vector_media_ok (with_root (vi_root vi) ?u w)"
      using assms by (simp add: vector_media_ok_def drop_entry_ok)
    ultimately show ?thesis
      using Some owner by (simp add: vector_index_ops_def vector_delete_def with_id_def pid Let_def vector_entries_def split: prod.splits)
  qed
qed

text \<open>A batch of syncs reads every previous record first, and comes to the same as one sync after the other.\<close>

lemma batch_sync_law:
  assumes "vector_media_ok w" "dict_ok items" "\<And>k v. (k, v) \<in> set items \<Longrightarrow> vector_takes vi k v (vector_entries vi w k)"
  shows "index_batch_sync (vector_index_ops fo vi) items w = iterP (\<lambda>(k, v). index_sync (vector_index_ops fo vi) k v) items w"
proof -
  let ?io = "vector_index_ops fo vi"
  let ?later = "\<lambda>w. dmap (\<lambda>k v. (v, vector_meta_of vi k v (vector_entries vi w k)))"
  have upserts: "iterP (\<lambda>(key, value, meta). vector_upsert vi key value meta) (?later w items) u
      = iterP (\<lambda>(k, v). index_sync ?io k v) items u"
    if "vector_media_ok u" "dict_ok items" "\<And>k v. (k, v) \<in> set items \<Longrightarrow> vector_takes vi k v (vector_entries vi u k)"
      "\<And>k. k \<in> set (dkeys items) \<Longrightarrow> vector_entries vi u k = vector_entries vi w k" for u items
    using that
  proof (induction items arbitrary: u)
    case (Cons kv items)
    obtain k v where kv: "kv = (k, v)" by (cases kv)
    from sync_law [OF Cons.prems(1)] Cons.prems(3) kv obtain u1 where
      u1: "index_sync ?io k v u = (Inr (), u1)" "vector_media_ok u1"
        "vector_entries vi u1 = (vector_entries vi u)(k := vector_made vi k v (vector_entries vi u k))" by fastforce
    have fresh: "j \<noteq> k" if "j \<in> set (dkeys items)" for j using Cons.prems(2) that kv by auto
    have "iterP (\<lambda>(key, value, meta). vector_upsert vi key value meta) (?later w items) u1
        = iterP (\<lambda>(k, v). index_sync ?io k v) items u1"
    proof (rule Cons.IH [OF u1(2)])
      show "dict_ok items" using Cons.prems(2) by simp
      fix j x assume "(j, x) \<in> set items"
      with fresh [of j] Cons.prems(3) [of j x] show "vector_takes vi j x (vector_entries vi u1 j)" by (force simp: u1(3))
    next
      fix j assume "j \<in> set (dkeys items)"
      with fresh [of j] Cons.prems(4) [of j] show "vector_entries vi u1 j = vector_entries vi w j" by (simp add: u1(3))
    qed
    moreover have "vector_upsert vi k v (vector_meta_of vi k v (vector_entries vi w k)) u = (Inr (), u1)"
      using u1(1) Cons.prems(4) [of k] by (simp add: kv index_sync_def vector_index_ops_def bindP_run get_is)
    ultimately show ?case by (simp add: kv dmap_def thenP_run u1(1))
  qed (simp add: dmap_def)
  have reads: "point_reads (vector_get vi) (vector_entries vi) (\<lambda>x. x = w)"
    by unfold_locales (simp add: get_is)
  from point_reads.default_batch_get_law [OF reads refl, of "dkeys items"] obtain d where
    d: "default_batch_get (vector_get vi) (dkeys items) w = (Inr d, w)"
      "\<And>k. dget d k = (if k \<in> set (dkeys items) then vector_entries vi w k else None)" by blast
  have "dmap (\<lambda>k v. (v, vector_meta_of vi k v (dget d k))) items = ?later w items"
    by (auto simp: dmap_def d(2)) (force)
  then show ?thesis
    using upserts [OF assms refl] by (simp add: index_batch_sync_def vector_index_ops_def bindP_run d(1) default_batch_upsert_def)
qed

end

sublocale vector_collection \<subseteq> tracked: tracked_index "vector_index_ops fo vi" "vector_entries vi" vector_media_ok "vector_takes vi" "vector_made vi"
  by unfold_locales (use sync_law batch_sync_law remove_law in auto)

text \<open>Real arithmetic, and texts placed by their length.\<close>

definition real_floats :: "real float_ops" where
  "real_floats = \<lparr>fl_sub = (-), fl_square = (\<lambda>x. x * x), fl_sum = sum_list, fl_sqrt = sqrt\<rparr>"

definition text_vectors :: "scope \<Rightarrow> (string, string, string, real, unit) vector_index" where
  "text_vectors sc =
     (let wire = (index_set_with_str_ids ''notes'' ''1'' Some)\<lparr>is_document_of := Some (\<lambda>_ v. Some v),
        is_embedding_of := Some (\<lambda>_ v. Some [of_nat (length v)])\<rparr>
      in \<lparr>vi_set = wire, vi_scope = sc, vi_binding = index_binding wire, vi_sync_on_write = True,
          vi_merge_data = \<lambda>_ v _. PlainData v, vi_embed_content = Some (\<lambda>_. [0]), vi_root = 7\<rparr>)"

interpretation texts: vector_collection real_floats "text_vectors sc" for sc
  by unfold_locales (simp_all add: text_vectors_def Let_def index_set_with_str_ids_def is_patch_view_def)

section \<open>Search\<close>

definition candidates :: "('k, 'v, 'd, 'f, 'q) vector_index \<Rightarrow> ('k, 'd, 'f) vector_root \<Rightarrow> (string \<times> 'f list) list" where
  "candidates vi v = filter (\<lambda>(pid, vec). in_bound_scope_id vi pid) (vr_vectors v)"

text \<open>The hit an entry makes: its key and record, ranked by its distance.\<close>

definition ranked_hit ::
  "'f float_ops \<Rightarrow> ('k, 'd, 'f) vector_root \<Rightarrow> 'f list \<Rightarrow> string \<times> 'f list \<Rightarrow> ('k, ('d index_data, 'f) vector_record) index_hit" where
  "ranked_hit fo v q_emb entry = (case entry of (pid, vec) \<Rightarrow> case the (dget (vr_records v) pid) of
     (leaf, r) \<Rightarrow> IndexHit leaf (r\<lparr>vrec_score := Some (projr (l2_distance fo q_emb vec))\<rparr>))"

definition rank_of :: "('k, ('d, 'f) vector_record) index_hit \<Rightarrow> 'f" where
  "rank_of h = the (vrec_score (hit_meta h))"

lemma score_entries_is:
  assumes "\<And>e. e \<in> set vecs \<Longrightarrow> dget (vr_records v) (fst e) \<noteq> None"
  shows "score_entries fo vi (vr_records v) q_emb vecs
    = (let inside = filter (\<lambda>(pid, vec). in_bound_scope_id vi pid) vecs in
       if \<exists>(pid, vec) \<in> set inside. length vec \<noteq> length q_emb then Inl ValueError
       else Inr (map (\<lambda>e. (rank_of (ranked_hit fo v q_emb e), ranked_hit fo v q_emb e)) inside))"
  using assms
proof (induction vecs)
  case (Cons entry vecs)
  obtain pid vec where e: "entry = (pid, vec)" by (cases entry)
  from Cons.prems [of entry] obtain leaf r where r: "dget (vr_records v) pid = Some (leaf, r)" by (auto simp: e)
  let ?rest = "filter (\<lambda>(pid, vec). in_bound_scope_id vi pid) vecs"
  have prems: "dget (vr_records v) (fst e') \<noteq> None" if "e' \<in> set vecs" for e' using Cons.prems [of e'] that by simp
  have IH: "score_entries fo vi (vr_records v) q_emb vecs = (if \<exists>(pid, vec) \<in> set ?rest. length vec \<noteq> length q_emb then Inl ValueError
       else Inr (map (\<lambda>e. (rank_of (ranked_hit fo v q_emb e), ranked_hit fo v q_emb e)) ?rest))"
    by (rule Cons.IH [unfolded Let_def]) (rule prems)
  show ?case
  proof (cases "in_bound_scope_id vi pid \<and> length vec = length q_emb")
    case True
    then obtain rank where rank: "l2_distance fo q_emb vec = Inr rank" by (simp add: l2_distance_def)
    have hit: "ranked_hit fo v q_emb (pid, vec) = IndexHit leaf (r\<lparr>vrec_score := Some rank\<rparr>)"
      by (simp add: ranked_hit_def r rank)
    then have "rank_of (ranked_hit fo v q_emb (pid, vec)) = rank" by (simp add: rank_of_def)
    with True hit rank show ?thesis by (auto simp: e r Let_def IH)
  next
    case False
    then show ?thesis by (auto simp: e r Let_def IH l2_distance_def simp del: split_paired_Ex)
  qed
qed simp

lemma sort_key_ranked: "map snd (sort_key fst (map (\<lambda>h. (rank_of h, h)) hs)) = sort_key rank_of hs"
proof -
  have pairs: "sort_key fst (map (\<lambda>h. (rank_of h, h)) hs) = map (\<lambda>h. (rank_of h, h)) (sort_key rank_of hs)" for hs
  proof (induction hs)
    case (Cons h hs)
    have "insort_key fst (rank_of h, h) (map (\<lambda>h. (rank_of h, h)) xs) = map (\<lambda>h. (rank_of h, h)) (insort_key rank_of h xs)" for xs
      by (induction xs) auto
    with Cons show ?case by simp
  qed simp
  show ?thesis unfolding pairs by (simp add: comp_def)
qed

lemma vector_search_is:
  assumes "vector_media_ok w" "resolve_query_embedding vi query = Some q_emb" "0 < limit"
  shows "vector_search fo vi query limit w =
    (let v = root_at (vi_root vi) w in
     (if \<exists>(pid, vec) \<in> set (candidates vi v). length vec \<noteq> length q_emb then Inl ValueError
      else Inr (take (nat limit) (sort_key rank_of (map (ranked_hit fo v q_emb) (candidates vi v)))), w))"
proof -
  let ?v = "root_at (vi_root vi) w"
  let ?hs = "map (ranked_hit fo ?v q_emb) (candidates vi ?v)"
  define bad where "bad \<longleftrightarrow> (\<exists>(pid, vec) \<in> set (candidates vi ?v). length vec \<noteq> length q_emb)"
  have "vector_root_ok ?v" using assms(1) by (simp add: vector_media_ok_def)
  then have "dget (vr_records ?v) (fst e) \<noteq> None" if "e \<in> set (vr_vectors ?v)" for e
    using that by (auto simp: vector_root_ok_def dget_eq_None_iff)
  from score_entries_is [of "vr_vectors ?v" ?v fo vi q_emb, OF this]
  have scored: "score_entries fo vi (vr_records ?v) q_emb (vr_vectors ?v)
      = (if bad then Inl ValueError else Inr (map (\<lambda>h. (rank_of h, h)) ?hs))"
    unfolding Let_def candidates_def [symmetric] bad_def [symmetric] by (simp add: comp_def)
  have "map snd (take n (sort_key fst (map (\<lambda>h. (rank_of h, h)) ?hs))) = take n (sort_key rank_of ?hs)" for n
    using sort_key_ranked [of ?hs] by (metis take_map)
  with scored assms(2,3) show ?thesis
    unfolding Let_def bad_def [symmetric] by (simp add: vector_search_def assert_scoped_search_supported_def Let_def)
qed

lemma ranked_hit_own:
  assumes "vector_media_ok w" "(pid, vec) \<in> set (candidates vi (root_at (vi_root vi) w))" "length vec = length q_emb"
  shows "vrec_embedding (hit_meta (ranked_hit fo (root_at (vi_root vi) w) q_emb (pid, vec))) = Some vec
    \<and> l2_distance fo q_emb vec = Inr (rank_of (ranked_hit fo (root_at (vi_root vi) w) q_emb (pid, vec)))
    \<and> vrec_score (hit_meta (ranked_hit fo (root_at (vi_root vi) w) q_emb (pid, vec)))
        = Some (rank_of (ranked_hit fo (root_at (vi_root vi) w) q_emb (pid, vec)))"
proof -
  let ?v = "root_at (vi_root vi) w"
  have ok: "vector_root_ok ?v" using assms(1) by (simp add: vector_media_ok_def)
  from assms(2) have e: "(pid, vec) \<in> set (vr_vectors ?v)" by (auto simp: candidates_def)
  then have vec: "dget (vr_vectors ?v) pid = Some vec" using ok by (simp add: vector_root_ok_def)
  from vec have "pid \<in> set (dkeys (vr_vectors ?v))" by (rule dget_Some_key)
  with ok have "pid \<in> set (dkeys (vr_records ?v))" by (simp only: vector_root_ok_def)
  then have "dget (vr_records ?v) pid \<noteq> None" unfolding dget_eq_None_iff by simp
  then obtain leaf r where r: "dget (vr_records ?v) pid = Some (leaf, r)" by auto
  with ok vec have "vrec_embedding r = Some vec" by (simp add: vector_root_ok_def)
  then show ?thesis using assms(3) by (simp add: ranked_hit_def r rank_of_def l2_distance_def)
qed

text \<open>What a view writes is in its scope.\<close>

lemma own_id_in_scope:
  assumes "index_physical_id vi k = Inr pid"
  shows "in_bound_scope_id vi pid"
proof (cases "vi_scope vi = []")
  case False
  let ?ps = "cb_name_version_prefix (vi_binding vi) @ scope_parts (is_separator (vi_set vi)) (vi_scope vi)"
  have "?ps \<noteq> []" using False by (cases "vi_scope vi") (simp_all add: scope_parts_def)
  with assms show ?thesis
    by (auto simp: in_bound_scope_id_def index_physical_id_def scope_id_prefix_def scope_prefix_def item_key_def py_startswith_def
        blob_join_py_join py_join_append simp del: append_assoc simp add: append_assoc [symmetric] split: option.splits)
qed (simp add: in_bound_scope_id_def)

end
