(* ===== verification/Index_Properties.thy ===== *)
theory Index_Properties
  imports Index_Store Vector_Laws
begin

text \<open>
  The properties of indexes: a store with the index of its terms answers searches exactly;
  a vector search answers the nearest entries in scope. The laws that are not kept are
  shown on small inputs.
\<close>

section \<open>The index of terms\<close>

text \<open>
  C24. An in-memory store with a \<open>MemoryTermIndex\<close> attached: after any sequence of writes
  and deletes through the store, searching it for a term answers records that the
  sequence leaves and whose value has the term, each once, with the value it has; and as
  many as there are, up to the limit. The map a replay of the sequence comes to is the
  reference.
\<close>

theorem term_search_exact:
  fixes mb :: "('k, 'v) memory_backend" and ti :: "('k, 'v) term_index"
  assumes mb: "storable mb" and order: "enumerates (mi_order ti)" and on: "mi_sync_on_write ti"
    and ttl: "ttl_seconds (ks_ttl_policy (be_kvset (mb_backend mb))) = None"
    and tp: "indexed_topology (left_store (memory_store mb)) [attached_index (right_index (term_index_ops ti))] policy = Inr tp"
  shows "\<exists>w u. iterP (run_step (topology_keymap tp)) steps ((empty_root now, []), []) = (Inr (), ((w, u), []))
    \<and> (\<forall>t limit. \<exists>rows n. indexed_search [(i, left_index (right_index (term_index_ops ti)))] d (topology_keymap tp)
            (SearchIndex i t) limit ((w, u), []) = (Inr rows, n)
        \<and> distinct (map fst rows)
        \<and> (\<forall>(k, v) \<in> set rows. replay steps Map.empty k = Some v \<and> t \<in> set (ti_terms_of ti k v))
        \<and> length rows = min (nat limit) (card {k. \<exists>v. replay steps Map.empty k = Some v \<and> t \<in> set (ti_terms_of ti k v)}))"
proof -
  have "indexed_documents mb ti"
    using mb order by (simp add: indexed_documents_def storable_collection term_collection_def)
  from indexed_documents.replayed_search [OF this on ttl tp] show ?thesis .
qed

theorem term_search_exact_witness:
  "\<exists>tp w u rows n.
     indexed_topology (left_store (memory_store (docs_memory LazyDelete [])))
       [attached_index (right_index (term_index_ops (sorted_term_index [] (\<lambda>k v. [v]))))] Required = Inr tp
     \<and> iterP (run_step (topology_keymap tp))
          [SetRecord ''a'' ''x'', SetRecord ''b'' ''x'', SetRecord ''a'' ''y'', DeleteRecord ''c''] ((empty_root 0, []), [])
        = (Inr (), ((w, u), []))
     \<and> indexed_search [(7, left_index (right_index (term_index_ops (sorted_term_index [] (\<lambda>k v. [v])))))] None (topology_keymap tp)
          (SearchIndex 7 ''x'') 5 ((w, u), []) = (Inr rows, n)
     \<and> rows = [(''b'', ''x'')]"
proof -
  let ?mb = "docs_memory LazyDelete []" and ?ti = "sorted_term_index [] (\<lambda>(k :: string) v. [v])"
  let ?steps = "[SetRecord ''a'' ''x'', SetRecord ''b'' ''x'', SetRecord ''a'' ''y'', DeleteRecord ''c'']"
  from indexed_topology_is [of "left_store (memory_store ?mb)" "[attached_index (right_index (term_index_ops ?ti))]" Required] obtain tp where
    tp: "indexed_topology (left_store (memory_store ?mb)) [attached_index (right_index (term_index_ops ?ti))] Required = Inr tp" by blast
  have ti: "enumerates (mi_order ?ti)" "mi_sync_on_write ?ti" by (simp_all add: sorted_term_index_def enumerates_def)
  have "ttl_seconds (ks_ttl_policy (be_kvset (mb_backend ?mb))) = None" by code_simp
  from term_search_exact [OF docs_memory_storable ti this tp, of ?steps 0 7 None] obtain w u rows n where
    run: "iterP (run_step (topology_keymap tp)) ?steps ((empty_root 0, []), []) = (Inr (), ((w, u), []))"
    and search: "indexed_search [(7, left_index (right_index (term_index_ops ?ti)))] None (topology_keymap tp) (SearchIndex 7 ''x'') 5 ((w, u), [])
      = (Inr rows, n)"
    and rows: "\<forall>(k, v) \<in> set rows. replay ?steps Map.empty k = Some v \<and> ''x'' \<in> set (ti_terms_of ?ti k v)"
      "length rows = min (nat 5) (card {k. \<exists>v. replay ?steps Map.empty k = Some v \<and> ''x'' \<in> set (ti_terms_of ?ti k v)})"
    by blast
  have iff: "replay ?steps Map.empty k = Some v \<and> ''x'' \<in> set (ti_terms_of ?ti k v) \<longleftrightarrow> k = ''b'' \<and> v = ''x''" for k v
    by (auto simp: sorted_term_index_def)
  have "length rows = 1" using rows(2) unfolding iff by simp
  moreover have "\<forall>r \<in> set rows. r = (''b'', ''x'')" using rows(1) unfolding iff by auto
  ultimately have "rows = [(''b'', ''x'')]" by (cases rows) auto
  with tp run search show ?thesis by blast
qed

section \<open>The vector index\<close>


text \<open>Two texts in the collection, of lengths 1 and 4.\<close>

definition two_texts :: "(string, string, real) vector_media" where
  "two_texts = (let vi = text_vectors [] in
     snd (vector_upsert vi ''k2'' ''bbbb'' (vector_meta_of vi ''k2'' ''bbbb'' None)
       (snd (vector_upsert vi ''k1'' ''a'' (vector_meta_of vi ''k1'' ''a'' None) no_vectors))))"

lemma two_texts_reachable: "vector_reachable {text_vectors []} two_texts"
  unfolding two_texts_def Let_def
  by (rule vector_reachable.upserted [OF vector_reachable.upserted [OF vector_reachable.start]]) (simp_all add: prod_eq_iff)

lemma text_ids: "index_physical_id (text_vectors []) k = Inr k"
  by (simp add: index_physical_id_def text_vectors_def Let_def index_set_with_str_ids_def index_binding_def item_key_def scope_parts_def)

lemma two_texts_vectors: "vr_vectors (root_at 7 two_texts) = [(''k1'', [1]), (''k2'', [4])]"
proof -
  let ?vi = "text_vectors []"
  have vi: "vi_root ?vi = 7" "\<not> is_patch_view (vi_set ?vi)" "embedding_for ?vi k v (vector_meta_of ?vi k v None) = Inr [of_nat (length v)]" for k v
    by (simp_all add: text_vectors_def Let_def index_set_with_str_ids_def is_patch_view_def embedding_for_def vector_meta_of_def can_reuse_embedding_def)
  show ?thesis
    by (simp add: two_texts_def Let_def vector_upsert_def with_id_def text_ids vi patch_write_is_skippable_def put_entry_def
        root_at_def with_root_def no_vectors_def empty_vector_root_def)
qed


section \<open>Where a law is not kept\<close>

text \<open>A search in the scope \<open>user=a\<close> answers what was written in \<open>user=ab\<close>.\<close>

definition user_scope :: "string \<Rightarrow> scope" where
  "user_scope name = scope_of [(''user'', name)]"

lemma sibling_scope_id:
  "index_physical_id (text_vectors (user_scope ''ab'')) ''k'' = Inr ''user:ab:k''"
  "in_bound_scope_id (text_vectors (user_scope ''a'')) ''user:ab:k''"
  by code_simp+

text \<open>Without a scope the key \<open>user:a:x\<close> is the entry of the key \<open>x\<close> in the scope \<open>user=a\<close>.\<close>

lemma unscoped_entry_collides:
  "index_physical_id (text_vectors []) ''user:a:x'' = index_physical_id (text_vectors (user_scope ''a'')) ''x''"
  by code_simp

text \<open>
  A query with content and an empty embedding is accepted, and searched for by the empty
  embedding: it raises whatever has been stored.
\<close>

lemma empty_embedding_query:
  "new_vector_query (Some (TextContent ''x'')) (Some []) = Inr \<lparr>vq_content = Some (TextContent ''x''), vq_embedding = Some []\<rparr>"
  "vector_search real_floats (text_vectors []) \<lparr>vq_content = Some (TextContent ''x''), vq_embedding = Some []\<rparr> 1 two_texts
     = (Inl ValueError, two_texts)"
proof -
  let ?vi = "text_vectors []" and ?q = "\<lparr>vq_content = Some (TextContent ''x''), vq_embedding = Some []\<rparr> :: (unit, real) vector_query"
  show "new_vector_query (Some (TextContent ''x'')) (Some []) = Inr \<lparr>vq_content = Some (TextContent ''x''), vq_embedding = Some []\<rparr>"
    by (simp add: new_vector_query_def)
  have root: "vi_root ?vi = 7" by (simp add: text_vectors_def Let_def)
  have inside: "candidates ?vi (root_at 7 two_texts) = [(''k1'', [1]), (''k2'', [4])]"
    by (simp add: candidates_def two_texts_vectors in_bound_scope_id_def text_vectors_def Let_def)
  have "resolve_query_embedding ?vi ?q = Some []" by (simp add: resolve_query_embedding_def)
  from vector_search_is [OF vector_reachable_ok [OF two_texts_reachable] this, of 1 real_floats]
  show "vector_search real_floats ?vi ?q 1 two_texts = (Inl ValueError, two_texts)"
    unfolding Let_def root inside by simp
qed

text \<open>
  A view without \<open>document_of\<close> that must not reuse embeddings writes an entry without its
  document, whatever the document was.
\<close>

lemma patch_without_reuse_drops_document:
  assumes "is_document_of (vi_set vi) = None" "\<not> is_reuse_embedding (vi_set vi)"
  shows "vrec_document (vector_meta_of vi k v (Some previous)) = None"
  using assms by (simp add: vector_meta_of_def Let_def)

text \<open>A store that fails to attach an index bound elsewhere keeps the indexes before it bound.\<close>

lemma failed_attach_keeps_binding:
  "new_indexed 2 [10, 11] None [(11, 1)] = (Inl IndexError, [(11, 1), (10, 2)])"
  "fst (new_indexed 3 [10] None (snd (new_indexed 2 [10, 11] None [(11, 1)]))) = Inl IndexError"
  by code_simp+

end
