(* ===== verification/Redis_Store.thy ===== *)
theory Redis_Store
  imports View_Stores
begin

text \<open>
  The Redis store, \<open>src/kvtsjl/backends/redis.py\<close>: flat keys, or the fields of one hash per
  collection. The client is a parameter: its commands, the pipelines without a
  transaction, \<open>WATCH\<close> and the transaction after it, and the pages of an iteration.
  What happens on the server between two of them is the client's doing.

  A version is the bytes stored; \<open>wire_token\<close> is the number that stands for them.
  Every reply of a command in a pipeline is used for its truth only, so it is a number.
\<close>

section \<open>The client\<close>

datatype redis_expiry = NoExpiry | ExpireIn int | ExpireAt int

datatype redis_command =
    EXISTS string
  | HEXISTS string string
  | SET string string bool redis_expiry
  | EXPIREAT string int
  | HSET string "(string, string) dict"
  | HSETNX string string string
  | EXPIRE string int
  | DEL "string list"
  | UNLINK "string list"
  | HDEL string "string list"

text \<open>\<open>rd_exec\<close> answers whether the transaction was executed; if not, \<open>WatchError\<close> is raised.\<close>

record 'w redis_client =
  rd_get :: "string \<Rightarrow> ('w, string option) prog"
  rd_hget :: "string \<Rightarrow> string \<Rightarrow> ('w, string option) prog"
  rd_mget :: "string list \<Rightarrow> ('w, string option list) prog"
  rd_hmget :: "string \<Rightarrow> string list \<Rightarrow> ('w, string option list) prog"
  rd_pttl :: "string \<Rightarrow> ('w, int) prog"
  rd_run :: "redis_command \<Rightarrow> ('w, int) prog"
  rd_pipeline :: "redis_command list \<Rightarrow> ('w, int list) prog"
  rd_watch :: "string list \<Rightarrow> ('w, unit) prog"
  rd_exec :: "redis_command list \<Rightarrow> ('w, bool) prog"
  rd_reset :: "('w, unit) prog"
  rd_scan :: "int \<Rightarrow> string \<Rightarrow> int \<Rightarrow> ('w, int \<times> string list) prog"
  rd_hscan :: "string \<Rightarrow> int \<Rightarrow> string option \<Rightarrow> int \<Rightarrow> ('w, int \<times> (string, string) dict) prog"
  rd_time :: "('w, time) prog"

section \<open>The backend\<close>

text \<open>\<open>rb_pages\<close> bounds the pages of an iteration over the keys of the server.\<close>

record ('w, 'k, 'v) redis_backend =
  rb_backend :: "('k, 'v) backend"
  rb_client :: "'w redis_client"
  rb_layout :: key_layout
  rb_pages :: nat

definition use_hash :: "('w, 'k, 'v) redis_backend \<Rightarrow> bool" where
  "use_hash rb \<longleftrightarrow> cb_collection (be_binding (rb_backend rb)) \<noteq> None"

definition collection_key :: "('w, 'k, 'v) redis_backend \<Rightarrow> string" where
  "collection_key rb = (case cb_collection (be_binding (rb_backend rb)) of None \<Rightarrow> [] | Some c \<Rightarrow> c)"

definition new_redis_backend ::
  "('k, 'v) kvset \<Rightarrow> 'w redis_client \<Rightarrow> scope \<Rightarrow> (('k, 'v) kvset \<Rightarrow> binding) option \<Rightarrow> binding option \<Rightarrow> int \<Rightarrow> key_layout \<Rightarrow> nat
   \<Rightarrow> exn + ('w, 'k, 'v) redis_backend" where
  "new_redis_backend ks client sc binder binding batch_size layout pages =
     (case new_backend ks sc binder binding batch_size of Inl e \<Rightarrow> Inl e
      | Inr be \<Rightarrow> (let rb = \<lparr>rb_backend = be, rb_client = client, rb_layout = layout, rb_pages = pages\<rparr> in
          if use_hash rb \<and> ttl_seconds (ks_ttl_policy ks) \<noteq> None then Inl TtlUnsupported else Inr rb))"

definition redis_at ::
  "scope \<Rightarrow> ('w, 'k, 'v) redis_backend \<Rightarrow> exn + ('w, 'k, 'v) redis_backend" where
  "redis_at sc rb = new_redis_backend (be_kvset (rb_backend rb)) (rb_client rb) sc None (Some (be_binding (rb_backend rb)))
     (be_batch_size (rb_backend rb)) (rb_layout rb) (rb_pages rb)"

definition redis_flat ::
  "('k, 'v) kvset \<Rightarrow> 'w redis_client \<Rightarrow> scope \<Rightarrow> int \<Rightarrow> key_layout \<Rightarrow> nat \<Rightarrow> exn + ('w, 'k, 'v) redis_backend" where
  "redis_flat ks client sc = new_redis_backend ks client sc (Some key_prefix_binding) None"

definition redis_hash_collection ::
  "('k, 'v) kvset \<Rightarrow> 'w redis_client \<Rightarrow> scope \<Rightarrow> int \<Rightarrow> key_layout \<Rightarrow> nat \<Rightarrow> exn + ('w, 'k, 'v) redis_backend" where
  "redis_hash_collection ks client sc = new_redis_backend ks client sc (Some native_str_binding) None"

definition redis_key :: "('w, 'k, 'v) redis_backend \<Rightarrow> 'k \<Rightarrow> exn + string" where
  "redis_key rb key = physical_key_blob (rb_backend rb) key"

definition redis_serialize :: "('w, 'k, 'v) redis_backend \<Rightarrow> 'v \<Rightarrow> exn + string" where
  "redis_serialize rb value = serde_result (ks_value_serialize (be_kvset (rb_backend rb)) value)"

definition redis_deserialize :: "('w, 'k, 'v) redis_backend \<Rightarrow> string \<Rightarrow> exn + 'v" where
  "redis_deserialize rb raw = serde_result (ks_value_deserialize (be_kvset (rb_backend rb)) raw)"

definition redis_ttl :: "('w, 'k, 'v) redis_backend \<Rightarrow> ttl_policy option \<Rightarrow> int option" where
  "redis_ttl rb ttl = resolve_ttl_seconds (rb_backend rb) ttl"

text \<open>\<open>int(_clock_base(created_at) + ttl_secs)\<close>, where there is a \<open>created_at\<close>.\<close>

definition expire_at :: "time \<Rightarrow> int \<Rightarrow> int" where
  "expire_at created_at ttl_secs = int_trunc (created_at + ttl_secs * microseconds) microseconds"

definition expiry_of :: "int option \<Rightarrow> redis_expiry" where
  "expiry_of ttl_secs = (case ttl_secs of None \<Rightarrow> NoExpiry | Some s \<Rightarrow> ExpireIn s)"

text \<open>The expiry that rides on a \<open>SET\<close> of the conditional writes.\<close>

definition set_expiry :: "time option \<Rightarrow> int option \<Rightarrow> redis_expiry" where
  "set_expiry created_at ttl_secs = (case (created_at, ttl_secs) of
      (Some c, Some s) \<Rightarrow> ExpireAt (expire_at c s)
    | _ \<Rightarrow> expiry_of ttl_secs)"

definition wire_token :: "string \<Rightarrow> token" where
  "wire_token raw = fold (\<lambda>c n. n * 257 + Suc (of_char c)) raw 0"

section \<open>Reads\<close>

definition redis_get :: "('w, 'k, 'v) redis_backend \<Rightarrow> 'k \<Rightarrow> ('w, 'v option) prog" where
  "redis_get rb key = bindP (liftP (redis_key rb key)) (\<lambda>pk.
     bindP (if use_hash rb then rd_hget (rb_client rb) (collection_key rb) pk else rd_get (rb_client rb) pk) (\<lambda>raw.
       case raw of None \<Rightarrow> returnP None | Some r \<Rightarrow> mapP Some (liftP (redis_deserialize rb r))))"

definition exists_command :: "('w, 'k, 'v) redis_backend \<Rightarrow> string \<Rightarrow> redis_command" where
  "exists_command rb pk = (if use_hash rb then HEXISTS (collection_key rb) pk else EXISTS pk)"

definition redis_exists :: "('w, 'k, 'v) redis_backend \<Rightarrow> 'k \<Rightarrow> ('w, bool) prog" where
  "redis_exists rb key = bindP (liftP (redis_key rb key)) (\<lambda>pk.
     mapP (\<lambda>n. n \<noteq> 0) (rd_run (rb_client rb) (exists_command rb pk)))"

text \<open>\<open>zip(chunk, replies, strict=True)\<close>.\<close>

definition zip_strict :: "'a list \<Rightarrow> 'b list \<Rightarrow> ('w, ('a \<times> 'b) list) prog" where
  "zip_strict xs ys = (if length xs \<noteq> length ys then raiseP ValueError else returnP (zip xs ys))"

definition redis_exists_chunk :: "('w, 'k, 'v) redis_backend \<Rightarrow> 'k list \<Rightarrow> 'k set \<Rightarrow> ('w, 'k set) prog" where
  "redis_exists_chunk rb chunk out = (if chunk = [] then returnP out
     else bindP (collectP (\<lambda>key. liftP (redis_key rb key)) chunk) (\<lambda>pks.
       bindP (rd_pipeline (rb_client rb) (map (exists_command rb) pks)) (\<lambda>flags.
         mapP (\<lambda>pairs. out \<union> set (map fst (filter (\<lambda>(key, flag). flag \<noteq> 0) pairs))) (zip_strict chunk flags))))"

definition redis_batch_exists :: "('w, 'k, 'v) redis_backend \<Rightarrow> 'k list \<Rightarrow> ('w, 'k set) prog" where
  "redis_batch_exists rb keys = in_chunks keys (be_batch_size (rb_backend rb)) (\<lambda>chunks. foldP (redis_exists_chunk rb) chunks {})"

definition redis_stat :: "('w, 'k, 'v) redis_backend \<Rightarrow> 'k \<Rightarrow> ('w, record_stat option) prog" where
  "redis_stat rb key = bindP (redis_exists rb key) (\<lambda>b.
     if \<not> b then returnP None
     else if use_hash rb then returnP (Some (empty_stat\<lparr>rs_persistent := True\<rparr>))
     else bindP (liftP (redis_key rb key)) (\<lambda>pk. bindP (rd_pttl (rb_client rb) pk) (\<lambda>pttl.
       if pttl < 0 then returnP (Some (empty_stat\<lparr>rs_persistent := True\<rparr>))
       else mapP (\<lambda>now. Some (empty_stat\<lparr>rs_expires_at := Some (now + pttl * 1000)\<rparr>)) (rd_time (rb_client rb)))))"

definition redis_batch_stat :: "('w, 'k, 'v) redis_backend \<Rightarrow> 'k list \<Rightarrow> ('w, ('k, record_stat) dict) prog" where
  "redis_batch_stat rb keys = foldP (\<lambda>key out. mapP (\<lambda>meta. case meta of
      None \<Rightarrow> out | Some m \<Rightarrow> dput key m out) (redis_stat rb key)) keys []"

text \<open>\<open>_read_raw\<close>.\<close>

definition read_raw :: "('w, 'k, 'v) redis_backend \<Rightarrow> 'k list \<Rightarrow> ('w, string option list) prog" where
  "read_raw rb keys = bindP (collectP (\<lambda>key. liftP (redis_key rb key)) keys) (\<lambda>physical.
     if use_hash rb then rd_hmget (rb_client rb) (collection_key rb) physical else rd_mget (rb_client rb) physical)"

definition redis_get_chunk :: "('w, 'k, 'v) redis_backend \<Rightarrow> 'k list \<Rightarrow> ('k, 'v) dict \<Rightarrow> ('w, ('k, 'v) dict) prog" where
  "redis_get_chunk rb chunk out = (if chunk = [] then returnP out
     else bindP (read_raw rb chunk) (\<lambda>values. bindP (zip_strict chunk values) (\<lambda>pairs.
       foldP (\<lambda>(key, raw) out. case raw of None \<Rightarrow> returnP out
         | Some r \<Rightarrow> mapP (\<lambda>v. dput key v out) (liftP (redis_deserialize rb r))) pairs out)))"

definition redis_batch_get :: "('w, 'k, 'v) redis_backend \<Rightarrow> 'k list \<Rightarrow> ('w, ('k, 'v) dict) prog" where
  "redis_batch_get rb keys = in_chunks keys (be_batch_size (rb_backend rb)) (\<lambda>chunks. foldP (redis_get_chunk rb) chunks [])"

definition redis_versioned_chunk ::
  "('w, 'k, 'v) redis_backend \<Rightarrow> 'k list \<Rightarrow> ('k, 'v versioned) dict \<Rightarrow> ('w, ('k, 'v versioned) dict) prog" where
  "redis_versioned_chunk rb chunk out = bindP (read_raw rb chunk) (\<lambda>values. bindP (zip_strict chunk values) (\<lambda>pairs.
     foldP (\<lambda>(key, raw) out. case raw of None \<Rightarrow> returnP (dput key absent out)
       | Some r \<Rightarrow> mapP (\<lambda>v. dput key (Versioned (Some v) (Some (wire_token r))) out) (liftP (redis_deserialize rb r))) pairs out))"

definition redis_batch_read_versioned ::
  "('w, 'k, 'v) redis_backend \<Rightarrow> 'k list \<Rightarrow> ('w, ('k, 'v versioned) dict) prog" where
  "redis_batch_read_versioned rb keys = in_chunks (fromkeys keys) (be_batch_size (rb_backend rb))
     (\<lambda>chunks. foldP (redis_versioned_chunk rb) chunks [])"

section \<open>Writes\<close>

definition refuse :: "exn option \<Rightarrow> ('w, unit) prog" where
  "refuse e = (case e of None \<Rightarrow> returnP () | Some e \<Rightarrow> raiseP e)"

text \<open>The two checks every write begins with.\<close>

definition redis_admit :: "('w, 'k, 'v) redis_backend \<Rightarrow> ttl_policy option \<Rightarrow> time option \<Rightarrow> ('w, unit) prog" where
  "redis_admit rb ttl created_at = thenP (refuse (require_explicit_ttl_supported ttl (\<not> use_hash rb)))
     (refuse (require_write_clock_supported created_at (\<not> use_hash rb)))"

definition redis_set :: "('w, 'k, 'v) redis_backend \<Rightarrow> 'k \<Rightarrow> 'v \<Rightarrow> write_options \<Rightarrow> ('w, unit) prog" where
  "redis_set rb key value o' = (let run = (\<lambda>c. thenP (rd_run (rb_client rb) c) (returnP ())) in
     bindP (liftP (redis_key rb key)) (\<lambda>pk. bindP (liftP (redis_serialize rb value)) (\<lambda>raw.
       thenP (redis_admit rb (wo_ttl o') (wo_created_at o'))
         (if use_hash rb
          then thenP (run (HSET (collection_key rb) [(pk, raw)]))
            (case redis_ttl rb (wo_ttl o') of None \<Rightarrow> returnP () | Some s \<Rightarrow> run (EXPIRE (collection_key rb) s))
          else case (wo_created_at o', redis_ttl rb (wo_ttl o')) of
              (Some c, Some s) \<Rightarrow> thenP (run (SET pk raw False NoExpiry)) (run (EXPIREAT pk (expire_at c s)))
            | (_, ttl_secs) \<Rightarrow> run (SET pk raw False (expiry_of ttl_secs))))))"

definition pk_and_raw :: "('w, 'k, 'v) redis_backend \<Rightarrow> 'k \<times> 'v \<Rightarrow> ('w, string \<times> string) prog" where
  "pk_and_raw rb = (\<lambda>(k, v). bindP (liftP (redis_key rb k)) (\<lambda>pk.
     mapP (\<lambda>raw. (pk, raw)) (liftP (redis_serialize rb v))))"

definition redis_set_chunk :: "('w, 'k, 'v) redis_backend \<Rightarrow> write_options \<Rightarrow> ('k \<times> 'v) list \<Rightarrow> ('w, unit) prog" where
  "redis_set_chunk rb o' chunk = bindP (collectP (pk_and_raw rb) chunk) (\<lambda>pairs.
     let run = (\<lambda>c. thenP (rd_run (rb_client rb) c) (returnP ()));
         pipeline = (\<lambda>cs. thenP (rd_pipeline (rb_client rb) cs) (returnP ()));
         ttl_secs = redis_ttl rb (wo_ttl o') in
     if use_hash rb
     then let mapping = dmerge [] pairs in
       if mapping = [] then returnP ()
       else thenP (run (HSET (collection_key rb) mapping))
         (case ttl_secs of None \<Rightarrow> returnP () | Some s \<Rightarrow> run (EXPIRE (collection_key rb) s))
     else case (wo_created_at o', ttl_secs) of
         (Some c, Some s) \<Rightarrow> pipeline (concat (map (\<lambda>(pk, raw). [SET pk raw False NoExpiry, EXPIREAT pk (expire_at c s)]) pairs))
       | _ \<Rightarrow> pipeline (map (\<lambda>(pk, raw). SET pk raw False (expiry_of ttl_secs)) pairs))"

definition redis_batch_set :: "('w, 'k, 'v) redis_backend \<Rightarrow> ('k, 'v) dict \<Rightarrow> write_options \<Rightarrow> ('w, unit) prog" where
  "redis_batch_set rb items o' = thenP (redis_admit rb (wo_ttl o') (wo_created_at o'))
     (in_chunks items (be_batch_size (rb_backend rb)) (iterP (redis_set_chunk rb o')))"

definition redis_delete :: "('w, 'k, 'v) redis_backend \<Rightarrow> 'k \<Rightarrow> ('w, bool) prog" where
  "redis_delete rb key = bindP (liftP (redis_key rb key)) (\<lambda>pk.
     mapP (\<lambda>n. n \<noteq> 0) (rd_run (rb_client rb) (if use_hash rb then HDEL (collection_key rb) [pk] else DEL [pk])))"

definition redis_delete_chunk :: "('w, 'k, 'v) redis_backend \<Rightarrow> 'k list \<Rightarrow> int \<Rightarrow> ('w, int) prog" where
  "redis_delete_chunk rb chunk deleted = (if chunk = [] then returnP deleted
     else bindP (collectP (\<lambda>key. liftP (redis_key rb key)) chunk) (\<lambda>physical.
       mapP (\<lambda>n. deleted + n)
         (rd_run (rb_client rb) (if use_hash rb then HDEL (collection_key rb) physical else UNLINK physical))))"

definition redis_batch_delete :: "('w, 'k, 'v) redis_backend \<Rightarrow> 'k list \<Rightarrow> ('w, int) prog" where
  "redis_batch_delete rb keys = in_chunks keys (be_batch_size (rb_backend rb)) (\<lambda>chunks. foldP (redis_delete_chunk rb) chunks 0)"

section \<open>Conditional writes\<close>

text \<open>\<open>with ... as pipe\<close>: the connection is given back however the block is left.\<close>

definition finallyP :: "('w, 'a) prog \<Rightarrow> ('w, unit) prog \<Rightarrow> ('w, 'a) prog" where
  "finallyP m fin = (\<lambda>w. case m w of (r, w1) \<Rightarrow>
     (case fin w1 of (Inl e, w2) \<Rightarrow> (Inl e, w2) | (Inr _, w2) \<Rightarrow> (r, w2)))"

definition insert_command ::
  "('w, 'k, 'v) redis_backend \<Rightarrow> int option \<Rightarrow> 'k \<times> 'v \<times> time option \<Rightarrow> ('w, redis_command) prog" where
  "insert_command rb ttl_secs = (\<lambda>(k, value, created_at). mapP (\<lambda>(pk, raw).
     if use_hash rb then HSETNX (collection_key rb) pk raw
     else SET pk raw True (set_expiry created_at ttl_secs)) (pk_and_raw rb (k, value)))"

definition insert_if_absent ::
  "('w, 'k, 'v) redis_backend \<Rightarrow> int option \<Rightarrow> ('k, 'v \<times> time option) dict \<Rightarrow> ('w, 'k set) prog" where
  "insert_if_absent rb ttl_secs inserts = (if inserts = [] then returnP {}
     else bindP (collectP (insert_command rb ttl_secs) inserts) (\<lambda>commands.
       bindP (rd_pipeline (rb_client rb) commands) (\<lambda>replies. bindP (zip_strict (dkeys inserts) replies) (\<lambda>pairs.
         let written = set (map fst (filter (\<lambda>(k, wrote). wrote \<noteq> 0) pairs)) in
         case ttl_secs of
           Some s \<Rightarrow> if use_hash rb \<and> written \<noteq> {}
             then thenP (rd_run (rb_client rb) (EXPIRE (collection_key rb) s)) (returnP written) else returnP written
         | None \<Rightarrow> returnP written))))"

text \<open>\<open>_queue_write\<close> and the serialization before it.\<close>

definition queued_write ::
  "('w, 'k, 'v) redis_backend \<Rightarrow> int option \<Rightarrow> 'k \<times> 'v cond_write \<Rightarrow> ('w, redis_command list) prog" where
  "queued_write rb ttl_secs = (\<lambda>(k, cw).
     bindP (case cw_change cw of Put value \<Rightarrow> mapP Some (liftP (redis_serialize rb value)) | Remove \<Rightarrow> returnP None) (\<lambda>raw.
       bindP (liftP (redis_key rb k)) (\<lambda>pk. returnP
         (if use_hash rb
          then (case raw of None \<Rightarrow> [HDEL (collection_key rb) [pk]]
            | Some r \<Rightarrow> HSET (collection_key rb) [(pk, r)]
                # (case ttl_secs of None \<Rightarrow> [] | Some s \<Rightarrow> [EXPIRE (collection_key rb) s]))
          else (case raw of None \<Rightarrow> [DEL [pk]]
            | Some r \<Rightarrow> [SET pk r False (set_expiry (cw_created_at cw) ttl_secs)])))))"

definition swap_if_unchanged ::
  "('w, 'k, 'v) redis_backend \<Rightarrow> int option \<Rightarrow> ('k, 'v cond_write) dict \<Rightarrow> ('w, 'k set) prog" where
  "swap_if_unchanged rb ttl_secs against = (if against = [] then returnP {}
     else let c = rb_client rb; keys = dkeys against in
       bindP (if use_hash rb then returnP [collection_key rb] else collectP (\<lambda>k. liftP (redis_key rb k)) keys) (\<lambda>watched.
         finallyP (thenP (rd_watch c watched) (bindP (read_raw rb keys) (\<lambda>current. bindP (zip_strict against current) (\<lambda>pairs.
             let unchanged = map fst (filter (\<lambda>((k, cw), raw). map_option wire_token raw = seen_version (cw_seen cw)) pairs) in
             if unchanged = [] then returnP {}
             else bindP (collectP (queued_write rb ttl_secs) unchanged) (\<lambda>commands.
               mapP (\<lambda>executed. if executed then set (dkeys unchanged) else {}) (rd_exec c (concat commands)))))))
           (rd_reset c)))"

definition inserts_of :: "('k, 'v cond_write) dict \<Rightarrow> ('k, 'v \<times> time option) dict" where
  "inserts_of writes = concat (map (\<lambda>(k, cw). case (seen_version (cw_seen cw), cw_change cw) of
      (None, Put v) \<Rightarrow> [(k, v, cw_created_at cw)] | _ \<Rightarrow> []) writes)"

definition redis_batch_write_if_unchanged ::
  "('w, 'k, 'v) redis_backend \<Rightarrow> ('k, 'v cond_write) dict \<Rightarrow> ttl_policy option \<Rightarrow> ('w, 'k set) prog" where
  "redis_batch_write_if_unchanged rb writes ttl = (let ttl_secs = redis_ttl rb ttl; size = be_batch_size (rb_backend rb) in
     thenP (refuse (require_explicit_ttl_supported ttl (\<not> use_hash rb)))
       (thenP (iterP (\<lambda>(_, cw). refuse (require_write_clock_supported (cw_created_at cw) (\<not> use_hash rb))) writes)
         (bindP (in_chunks (inserts_of writes) size
             (\<lambda>chunks. foldP (\<lambda>chunk written. mapP (\<lambda>s. written \<union> s) (insert_if_absent rb ttl_secs chunk)) chunks {})) (\<lambda>written.
           in_chunks (filter (\<lambda>(_, cw). seen_version (cw_seen cw) \<noteq> None) writes) size
             (\<lambda>chunks. foldP (\<lambda>chunk written. mapP (\<lambda>s. written \<union> s) (swap_if_unchanged rb ttl_secs chunk)) chunks written)))))"

section \<open>Scans\<close>

text \<open>The rows of a page: what is read of the keys that start with the prefix, then the rest.\<close>

fun redis_rows ::
  "('w, 'k, 'v) redis_backend \<Rightarrow> string \<Rightarrow> bool \<Rightarrow> (string \<times> string option) list \<Rightarrow> ('w, 'k \<times> 'v option) gen
   \<Rightarrow> ('w, 'k \<times> 'v option) gen" where
  "redis_rows rb pre include_values [] continue = continue"
| "redis_rows rb pre include_values ((pk, raw) # rest) continue =
     (if \<not> py_startswith pk pre then redis_rows rb pre include_values rest continue
      else case decode_key_from_physical (rb_backend rb) pk of
        None \<Rightarrow> redis_rows rb pre include_values rest continue
      | Some key \<Rightarrow> if \<not> include_values then Yield (key, None) (redis_rows rb pre include_values rest continue)
          else (case raw of None \<Rightarrow> redis_rows rb pre include_values rest continue
            | Some r \<Rightarrow> raise_or (redis_deserialize rb r) (\<lambda>v. Yield (key, Some v) (redis_rows rb pre include_values rest continue))))"

text \<open>The loops over the cursor, from a cursor on, for at most so many pages.\<close>

fun redis_hash_scan ::
  "nat \<Rightarrow> ('w, 'k, 'v) redis_backend \<Rightarrow> string \<Rightarrow> 'k scan_query \<Rightarrow> int \<Rightarrow> ('w, 'k \<times> 'v option) gen" where
  "redis_hash_scan 0 rb pre query cursor = Raise (MediumFailure 0)"
| "redis_hash_scan (Suc pages) rb pre query cursor =
     await (rd_hscan (rb_client rb) (collection_key rb) cursor (if pre = [] then None else Some (pre @ ''*'')) (sq_page_size query))
       (\<lambda>(cursor, fields). redis_rows rb pre (sq_include_values query) (map (\<lambda>(f, r). (f, Some r)) fields)
         (if cursor = 0 then Done else redis_hash_scan pages rb pre query cursor))"

fun redis_flat_scan ::
  "nat \<Rightarrow> ('w, 'k, 'v) redis_backend \<Rightarrow> string \<Rightarrow> 'k scan_query \<Rightarrow> int \<Rightarrow> ('w, 'k \<times> 'v option) gen" where
  "redis_flat_scan 0 rb pre query cursor = Raise (MediumFailure 0)"
| "redis_flat_scan (Suc pages) rb pre query cursor =
     await (rd_scan (rb_client rb) cursor (pre @ ''*'') (sq_page_size query)) (\<lambda>(cursor, keys).
       let continue = (if cursor = 0 then Done else redis_flat_scan pages rb pre query cursor) in
       if keys = [] then continue
       else if sq_include_values query
         then await (rd_mget (rb_client rb) keys) (\<lambda>values. redis_rows rb pre True (zip keys values) continue)
         else redis_rows rb pre False (map (\<lambda>k. (k, None)) keys) continue)"

definition redis_scan_gen :: "('w, 'k, 'v) redis_backend \<Rightarrow> 'k scan_query \<Rightarrow> ('w, 'k \<times> 'v option) gen" where
  "redis_scan_gen rb query = (if sq_prefix query \<noteq> None \<and> \<not> supports_prefix_scan (rb_layout rb) then Raise ScanUnsupported
     else raise_or (scan_prefix_blob (rb_backend rb) (sq_prefix query)) (\<lambda>pre.
       if use_hash rb then redis_hash_scan (rb_pages rb) rb pre query 0 else redis_flat_scan (rb_pages rb) rb pre query 0))"

text \<open>The server expires keys itself: the defaults of \<open>KvBackend\<close>.\<close>

definition redis_gc_expired_keys :: "('w, 'k, 'v) redis_backend \<Rightarrow> int \<Rightarrow> ('w, 'k list) prog" where
  "redis_gc_expired_keys rb max_entries = (if max_entries < 1 then raiseP ValueError
     else bindP (default_expired_keys max_entries) (\<lambda>keys.
       if keys \<noteq> [] then mapP (\<lambda>_. keys) (redis_batch_delete rb keys) else returnP keys))"

section \<open>The store\<close>

definition redis_keymap :: "('w, 'k, 'v) redis_backend \<Rightarrow> ('w, 'k, 'v) keymap" where
  "redis_keymap rb = \<lparr>
     km_get = redis_get rb, km_batch_get = redis_batch_get rb,
     km_exists = redis_exists rb, km_batch_exists = redis_batch_exists rb,
     km_stat = redis_stat rb, km_batch_stat = redis_batch_stat rb,
     km_batch_read_versioned = redis_batch_read_versioned rb,
     km_batch_write_if_unchanged = redis_batch_write_if_unchanged rb,
     km_set = redis_set rb, km_batch_set = redis_batch_set rb,
     km_delete = redis_delete rb, km_batch_delete = redis_batch_delete rb,
     km_unset = redis_delete rb, km_batch_unset = redis_batch_delete rb,
     km_creates_entries = True\<rparr>"

definition redis_store :: "('w, 'k, 'v) redis_backend \<Rightarrow> ('w, 'k, 'v) store" where
  "redis_store rb = \<lparr>
     st_keymap = redis_keymap rb,
     st_batch_size = be_batch_size (rb_backend rb),
     st_supports_write_clock = \<not> use_hash rb,
     st_writes_are_deferred = False,
     st_gc_expired_keys = redis_gc_expired_keys rb,
     st_scan_keys = \<lambda>n. mapP (map fst) (drain (redis_scan_gen rb \<lparr>sq_prefix = None, sq_include_values = False, sq_page_size = n\<rparr>)),
     st_missing_pages = \<lambda>_. returnP [],
     st_pending_index_syncs = \<lambda>_. 0,
     st_flush_index_syncs = returnP (),
     st_discard_index_syncs = returnP ()\<rparr>"

definition redis_scanner :: "'k python \<Rightarrow> ('w, 'k, 'v) redis_backend \<Rightarrow> ('w, 'k, 'v) scanner" where
  "redis_scanner py rb = \<lparr>
     sn_batch_size = be_batch_size (rb_backend rb), sn_layout = rb_layout rb,
     sn_batch_get = redis_batch_get rb, sn_batch_exists = redis_batch_exists rb,
     sn_scan_entries = redis_scan_gen rb,
     sn_scan_rows = leaf_scan_rows py (redis_scan_gen rb) (redis_batch_get rb)\<rparr>"

end
