(* ===== verification/Redis_Laws.thy ===== *)
theory Redis_Laws
  imports Redis_Store
begin

text \<open>
  What the Redis store relies on of its server, as a locale, and what its conditional write
  then does whatever other clients do between two of its round trips. The log is of the
  writes this client made: the cell, what it replaced and what it left.
\<close>

section \<open>The server\<close>

text \<open>A cell is a flat key, or a field of a hash.\<close>

type_synonym cell = "string option \<times> string"

type_synonym write_entry = "cell \<times> string option \<times> string option"

fun writes_of :: "redis_command \<Rightarrow> (cell \<times> string option) list" where
  "writes_of (SET k v nx e) = [((None, k), Some v)]"
| "writes_of (HSET c pairs) = map (\<lambda>(f, v). ((Some c, f), Some v)) pairs"
| "writes_of (HSETNX c f v) = [((Some c, f), Some v)]"
| "writes_of (DEL ks) = map (\<lambda>k. ((None, k), None)) ks"
| "writes_of (UNLINK ks) = map (\<lambda>k. ((None, k), None)) ks"
| "writes_of (HDEL c fs) = map (\<lambda>f. ((Some c, f), None)) fs"
| "writes_of _ = []"

fun inserts_only :: "redis_command \<Rightarrow> bool" where
  "inserts_only (SET k v nx e) = nx"
| "inserts_only (HSETNX c f v) = True"
| "inserts_only _ = False"

text \<open>The key on the server whose change is seen by who watches the cell.\<close>

fun server_key :: "cell \<Rightarrow> string" where
  "server_key (None, k) = k"
| "server_key (Some c, f) = c"

text \<open>
  \<open>watched w\<close> are the keys watched, \<open>seen w\<close> what this client read of their cells since. A
  transaction is executed only when no watched key was touched since it was watched, and
  then all at once, so what it replaces is what was read. The other commands are atomic
  one by one: an insert writes only where nothing is stored.
\<close>

locale redis_server =
  fixes c :: "'w redis_client"
    and log :: "'w \<Rightarrow> write_entry list"
    and watched :: "'w \<Rightarrow> string set"
    and seen :: "'w \<Rightarrow> cell \<Rightarrow> string option option"
    and inv :: "'w \<Rightarrow> bool"
  assumes watch_law: "\<lbrakk>inv w; rd_watch c ks w = (Inr u, w')\<rbrakk> \<Longrightarrow> inv w' \<and> log w' = log w \<and> watched w' = set ks"
    and mget_law: "\<lbrakk>inv w; rd_mget c ks w = (Inr vals, w')\<rbrakk> \<Longrightarrow> inv w' \<and> log w' = log w \<and> watched w' = watched w
      \<and> length vals = length ks \<and> (\<forall>i < length ks. ks ! i \<in> watched w \<longrightarrow> seen w' (None, ks ! i) = Some (vals ! i))"
    and hmget_law: "\<lbrakk>inv w; rd_hmget c h fs w = (Inr vals, w')\<rbrakk> \<Longrightarrow> inv w' \<and> log w' = log w \<and> watched w' = watched w
      \<and> length vals = length fs \<and> (h \<in> watched w \<longrightarrow> (\<forall>i < length fs. seen w' (Some h, fs ! i) = Some (vals ! i)))"
    and exec_law: "\<lbrakk>inv w; rd_exec c cmds w = (Inr executed, w')\<rbrakk> \<Longrightarrow> inv w'
      \<and> (\<not> executed \<longrightarrow> log w' = log w)
      \<and> (executed \<longrightarrow> list_all (\<lambda>cmd. \<not> inserts_only cmd) cmds \<longrightarrow> distinct (map fst (concat (map writes_of cmds)))
           \<longrightarrow> (\<forall>x \<in> fst ` set (concat (map writes_of cmds)). server_key x \<in> watched w \<and> seen w x \<noteq> None)
           \<longrightarrow> log w' = log w @ map (\<lambda>(x, new). (x, the (seen w x), new)) (concat (map writes_of cmds)))"
    and reset_law: "\<lbrakk>inv w; rd_reset c w = (given_back, w')\<rbrakk> \<Longrightarrow> inv w' \<and> log w' = log w"
    and expire_law: "\<lbrakk>inv w; rd_run c (EXPIRE k s) w = (answer, w')\<rbrakk> \<Longrightarrow> inv w' \<and> log w' = log w"
    and insert_law: "\<lbrakk>inv w; rd_pipeline c cmds w = (Inr replies, w'); list_all inserts_only cmds\<rbrakk> \<Longrightarrow> inv w'
      \<and> length replies = length cmds
      \<and> log w' = log w @ concat (map (\<lambda>(cmd, n). if n = 0 then [] else map (\<lambda>(x, new). (x, None, new)) (writes_of cmd)) (zip cmds replies))"

section \<open>The conditional write\<close>

text \<open>The cell of a key, and what a conditional write of it replaces and leaves.\<close>

definition cell_of :: "('w, 'k, 'v) redis_backend \<Rightarrow> 'k \<Rightarrow> cell" where
  "cell_of rb k = (if use_hash rb then Some (collection_key rb) else None, projr (redis_key rb k))"

definition left_by :: "('w, 'k, 'v) redis_backend \<Rightarrow> 'v change \<Rightarrow> string option" where
  "left_by rb ch = (case ch of Put v \<Rightarrow> Some (projr (redis_serialize rb v)) | Remove \<Rightarrow> None)"

definition swapped :: "('w, 'k, 'v) redis_backend \<Rightarrow> ('k, 'v cond_write) dict \<Rightarrow> 'k \<Rightarrow> write_entry \<Rightarrow> bool" where
  "swapped rb writes k e \<longleftrightarrow> (\<exists>cw. dget writes k = Some cw \<and> fst e = cell_of rb k
     \<and> map_option wire_token (fst (snd e)) = seen_version (cw_seen cw) \<and> snd (snd e) = left_by rb (cw_change cw))"

text \<open>One write for each key of the set, in some order.\<close>

definition exactly_swapped ::
  "('w, 'k, 'v) redis_backend \<Rightarrow> ('k, 'v cond_write) dict \<Rightarrow> 'k set \<Rightarrow> write_entry list \<Rightarrow> bool" where
  "exactly_swapped rb writes S es \<longleftrightarrow> (\<exists>ks. distinct ks \<and> set ks = S \<and> list_all2 (swapped rb writes) ks es)"

lemma exactly_swappedI:
  "\<lbrakk>distinct ks; set ks = S; list_all2 (swapped rb writes) ks es\<rbrakk> \<Longrightarrow> exactly_swapped rb writes S es"
  by (auto simp: exactly_swapped_def)

lemma exactly_swapped_empty: "exactly_swapped rb writes {} []"
  by (auto simp: exactly_swapped_def)

lemma exactly_swapped_append:
  assumes "exactly_swapped rb writes S es" "exactly_swapped rb writes T fs" "S \<inter> T = {}"
  shows "exactly_swapped rb writes (S \<union> T) (es @ fs)"
proof -
  from assms(1) obtain ks where ks: "distinct ks" "set ks = S" "list_all2 (swapped rb writes) ks es" by (auto simp: exactly_swapped_def)
  from assms(2) obtain js where js: "distinct js" "set js = T" "list_all2 (swapped rb writes) js fs" by (auto simp: exactly_swapped_def)
  have "distinct (ks @ js)" "set (ks @ js) = S \<union> T" "list_all2 (swapped rb writes) (ks @ js) (es @ fs)"
    using ks js assms(3) by (simp_all add: list_all2_appendI)
  then show ?thesis by (auto simp: exactly_swapped_def intro!: exI [of _ "ks @ js"])
qed

text \<open>What a computation that returns went through.\<close>

lemma bindP_returns: "bindP m f w = (Inr b, w') \<longleftrightarrow> (\<exists>a w1. m w = (Inr a, w1) \<and> f a w1 = (Inr b, w'))"
  by (auto simp: bindP_run split: prod.splits sum.splits)

lemma thenP_returns: "thenP m m' w = (Inr b, w') \<longleftrightarrow> (\<exists>a w1. m w = (Inr a, w1) \<and> m' w1 = (Inr b, w'))"
  by (auto simp: thenP_def bindP_returns)

lemma mapP_returns: "mapP f m w = (Inr b, w') \<longleftrightarrow> (\<exists>a. m w = (Inr a, w') \<and> b = f a)"
  by (auto simp: mapP_def bindP_returns)

lemma liftP_returns: "liftP r w = (Inr a, w') \<longleftrightarrow> w' = w \<and> r = Inr a"
  by (auto simp: liftP_def split: sum.splits)

lemma zip_strict_returns: "zip_strict xs ys w = (Inr ps, w') \<longleftrightarrow> w' = w \<and> length xs = length ys \<and> ps = zip xs ys"
  by (auto simp: zip_strict_def)

lemma refuse_returns: "refuse e w = (Inr u, w') \<longleftrightarrow> w' = w \<and> e = None"
  by (auto simp: refuse_def split: option.splits)

lemma finallyP_returns: "finallyP m fin w = (Inr b, w') \<longleftrightarrow> (\<exists>w1 u. m w = (Inr b, w1) \<and> fin w1 = (Inr u, w'))"
  by (auto simp: finallyP_def split: prod.splits sum.splits)

lemmas returns = bindP_returns thenP_returns mapP_returns liftP_returns zip_strict_returns refuse_returns finallyP_returns

lemma in_chunks_returns:
  assumes "in_chunks items sz run w = (Inr b, w')"
  shows "\<exists>chunks. concat chunks = items \<and> run chunks w = (Inr b, w')"
  using assms concat_chunks_from [of "nat sz" items 0]
  by (auto simp: in_chunks_def chunk_sequence_def split: if_splits)

text \<open>Collecting what does not touch the media.\<close>

lemma collect_returns:
  assumes "collectP f xs w = (Inr ys, w')" "\<And>x y u u'. x \<in> set xs \<Longrightarrow> f x u = (Inr y, u') \<Longrightarrow> u' = u \<and> P x y"
  shows "w' = w \<and> list_all2 P xs ys"
  using assms
proof (induction xs arbitrary: ys w)
  case (Cons x xs)
  from Cons.prems(1) obtain y w1 zs where y: "f x w = (Inr y, w1)" and zs: "collectP f xs w1 = (Inr zs, w')" "ys = y # zs"
    by (auto simp: returns)
  from Cons.prems(2) [OF _ y] have "w1 = w" "P x y" by simp_all
  moreover from zs(1) have "w' = w1 \<and> list_all2 P xs zs" by (rule Cons.IH) (use Cons.prems(2) in auto)
  ultimately show ?case using zs(2) by simp
qed simp

lemma iter_returns:
  assumes "iterP f xs w = (Inr r, w')" "\<And>x y u u'. x \<in> set xs \<Longrightarrow> f x u = (Inr y, u') \<Longrightarrow> u' = u"
  shows "w' = w"
  using assms
proof (induction xs arbitrary: w)
  case (Cons x xs)
  from Cons.prems(1) obtain y w1 where "f x w = (Inr y, w1)" "iterP f xs w1 = (Inr r, w')" by (auto simp: returns)
  with Cons.IH Cons.prems(2) show ?case by (metis list.set_intros)
qed simp

text \<open>A token stands for its bytes.\<close>

lemma wire_token_append: "wire_token (xs @ [ch]) = wire_token xs * 257 + Suc (of_char ch)"
  by (simp add: wire_token_def)

lemma of_char_small: "(of_char ch :: nat) < 256"
  by (cases ch) (auto simp: of_char_def horner_sum_simps)

lemma wire_token_eq_iff: "wire_token xs = wire_token ys \<longleftrightarrow> xs = ys"
proof (induction xs arbitrary: ys rule: rev_induct)
  case Nil
  then show ?case by (cases ys rule: rev_cases) (simp_all add: wire_token_append, simp_all add: wire_token_def)
next
  case (snoc x xs)
  show ?case
  proof (cases ys rule: rev_cases)
    case Nil
    then show ?thesis by (simp add: wire_token_append) (simp add: wire_token_def)
  next
    case (snoc zs z)
    have "wire_token xs = wire_token zs \<and> (of_char x :: nat) = of_char z"
      if eq: "wire_token xs * 257 + Suc (of_char x) = wire_token zs * 257 + Suc (of_char z)"
    proof -
      from eq have "(wire_token xs * 257 + Suc (of_char x)) mod 257 = (wire_token zs * 257 + Suc (of_char z)) mod 257"
        "(wire_token xs * 257 + Suc (of_char x)) div 257 = (wire_token zs * 257 + Suc (of_char z)) div 257" by simp_all
      then show ?thesis using of_char_small [of x] of_char_small [of z] by simp
    qed
    then show ?thesis using snoc snoc.IH by (auto simp: wire_token_append)
  qed
qed

section \<open>The steps of a chunk\<close>

lemma pk_and_raw_returns: "pk_and_raw rb (k, v) w = (Inr (pk, raw), w') \<longleftrightarrow>
    w' = w \<and> redis_key rb k = Inr pk \<and> redis_serialize rb v = Inr raw"
  by (auto simp: pk_and_raw_def returns)

lemma insert_command_returns:
  "insert_command rb s (k, v, t) w = (Inr cmd, w') \<Longrightarrow>
     w' = w \<and> inserts_only cmd \<and> writes_of cmd = [(cell_of rb k, left_by rb (Put v))]"
  by (auto simp: insert_command_def returns pk_and_raw_returns cell_of_def left_by_def split: if_splits)

lemma queued_write_returns:
  "queued_write rb s (k, cw) w = (Inr cmds, w') \<Longrightarrow>
     w' = w \<and> (\<exists>pk. redis_key rb k = Inr pk) \<and> list_all (\<lambda>cmd. \<not> inserts_only cmd) cmds \<and> concat (map writes_of cmds) = [(cell_of rb k, left_by rb (cw_change cw))]"
  by (auto simp: queued_write_def returns cell_of_def left_by_def split: if_splits change.splits option.splits)

lemma inserts_swapped:
  assumes "list_all2 (\<lambda>(k, v, t) cmd. inserts_only cmd \<and> writes_of cmd = [(cell_of rb k, left_by rb (Put v))]) ins cmds"
    and "length ins = length replies"
    and "\<And>k v t. (k, v, t) \<in> set ins \<Longrightarrow>
      \<exists>cw. dget writes k = Some cw \<and> seen_version (cw_seen cw) = None \<and> cw_change cw = Put v"
  shows "list_all2 (swapped rb writes) (map fst (filter (\<lambda>(k, wrote). wrote \<noteq> 0) (zip (dkeys ins) replies)))
    (concat (map (\<lambda>(cmd, n). if n = (0 :: int) then [] else map (\<lambda>(x, new). (x, None, new)) (writes_of cmd)) (zip cmds replies)))"
  using assms
proof (induction ins cmds arbitrary: replies rule: list_all2_induct)
  case (Cons kvt ins cmd cmds)
  obtain k v t where kvt: "kvt = (k, v, t)" by (cases kvt)
  from Cons.prems(1) obtain n ns where ns: "replies = n # ns" "length ins = length ns" by (cases replies) auto
  have "swapped rb writes k (cell_of rb k, None, left_by rb (Put v))"
    using Cons.prems(2) [of k v t] kvt by (auto simp: swapped_def)
  moreover have "list_all2 (swapped rb writes) (map fst (filter (\<lambda>(k, wrote). wrote \<noteq> 0) (zip (dkeys ins) ns)))
      (concat (map (\<lambda>(cmd, n). if n = (0 :: int) then [] else map (\<lambda>(x, new). (x, None, new)) (writes_of cmd)) (zip cmds ns)))"
    by (rule Cons.IH [OF ns(2)]) (use Cons.prems(2) in auto)
  ultimately show ?case using Cons.hyps(1) by (simp add: ns kvt)
qed simp

lemma physical_keys_in:
  "\<lbrakk>list_all2 (\<lambda>k pk. redis_key rb k = Inr pk) keys pks; k \<in> set keys\<rbrakk> \<Longrightarrow> projr (redis_key rb k) \<in> set pks"
  by (induction rule: list_all2_induct) auto

lemma queued_writes:
  assumes "list_all2 (\<lambda>(k, cw) cs. (\<exists>pk. redis_key rb k = Inr pk) \<and> list_all (\<lambda>cmd. \<not> inserts_only cmd) cs
    \<and> concat (map writes_of cs) = [(cell_of rb k, left_by rb (cw_change cw))]) U cmds"
  shows "concat (map writes_of (concat cmds)) = map (\<lambda>(k, cw). (cell_of rb k, left_by rb (cw_change cw))) U"
  using assms by (induction rule: list_all2_induct) (auto split: prod.splits)

lemma distinct_cells:
  assumes "dict_ok U" "\<And>k. k \<in> set (dkeys U) \<Longrightarrow> \<exists>pk. redis_key rb k = Inr pk" "inj_on (redis_key rb) (set (dkeys U))"
  shows "distinct (map (cell_of rb) (dkeys U))"
proof -
  have "inj_on (cell_of rb) (set (dkeys U))"
  proof (rule inj_onI)
    fix a b assume ab: "a \<in> set (dkeys U)" "b \<in> set (dkeys U)" "cell_of rb a = cell_of rb b"
    with assms(2) [of a] assms(2) [of b] have "redis_key rb a = redis_key rb b" by (auto simp: cell_of_def simp del: set_map)
    with ab assms(3) show "a = b" by (blast dest: inj_onD)
  qed
  with assms(1) show ?thesis unfolding distinct_map [of "cell_of rb" "dkeys U"] by blast
qed

text \<open>The writes against nothing stored, and the chunks of a dictionary.\<close>

lemma inserts_of_keys: "dkeys (inserts_of writes) =
    dkeys (filter (\<lambda>(k, cw). seen_version (cw_seen cw) = None \<and> cw_change cw \<noteq> Remove) writes)"
  by (induction writes) (auto simp: inserts_of_def split: change.splits option.splits)

lemma inserts_of_elem: "(k, v, t) \<in> set (inserts_of writes) \<Longrightarrow>
    \<exists>cw. (k, cw) \<in> set writes \<and> seen_version (cw_seen cw) = None \<and> cw_change cw = Put v"
  by (auto simp: inserts_of_def split: change.splits option.splits)

lemma dict_ok_chunk: "\<lbrakk>dict_ok (concat chunks); chunk \<in> set chunks\<rbrakk> \<Longrightarrow> dict_ok chunk \<and> set chunk \<subseteq> set (concat chunks)"
  by (induction chunks) auto

text \<open>The keys whose bytes are still those seen, among what was read.\<close>

definition still_seen :: "('k, 'v cond_write) dict \<Rightarrow> string option list \<Rightarrow> ('k, 'v cond_write) dict" where
  "still_seen against current =
     map fst (filter (\<lambda>((k, cw), raw). map_option wire_token raw = seen_version (cw_seen cw)) (zip against current))"

lemma still_seen_ok:
  assumes "dict_ok against" "length against = length current"
  shows "set (still_seen against current) \<subseteq> set against" "dict_ok (still_seen against current)"
    and "(k, cw) \<in> set (still_seen against current) \<Longrightarrow>
      \<exists>i < length against. against ! i = (k, cw) \<and> map_option wire_token (current ! i) = seen_version (cw_seen cw)"
proof -
  show "set (still_seen against current) \<subseteq> set against" by (auto simp: still_seen_def dest: set_zip_leftD)
  have "distinct (map (fst \<circ> fst) (filter (\<lambda>((k, cw), raw). map_option wire_token raw = seen_version (cw_seen cw)) (zip against current)))"
    using assms by (intro distinct_map_filter) (simp flip: map_map)
  then show "dict_ok (still_seen against current)" by (simp add: still_seen_def)
  show "\<exists>i < length against. against ! i = (k, cw) \<and> map_option wire_token (current ! i) = seen_version (cw_seen cw)"
    if "(k, cw) \<in> set (still_seen against current)" using that unfolding still_seen_def by (auto simp: set_zip) (metis prod.inject)
qed

context redis_server begin

lemma read_raw_law:
  assumes "inv w" "rb_client rb = c" "read_raw rb keys w = (Inr vals, w')"
    and watch: "if use_hash rb then collection_key rb \<in> watched w else \<forall>k \<in> set keys. projr (redis_key rb k) \<in> watched w"
  shows "inv w' \<and> log w' = log w \<and> watched w' = watched w \<and> length vals = length keys
    \<and> (\<forall>i < length keys. seen w' (cell_of rb (keys ! i)) = Some (vals ! i))"
proof -
  from assms(3) obtain pks w1 where pks: "collectP (\<lambda>key. liftP (redis_key rb key)) keys w = (Inr pks, w1)"
    and read: "(if use_hash rb then rd_hmget c (collection_key rb) pks else rd_mget c pks) w1 = (Inr vals, w')"
    unfolding read_raw_def assms(2) by (auto simp: returns)
  have "w1 = w \<and> list_all2 (\<lambda>k pk. redis_key rb k = Inr pk) keys pks"
    by (rule collect_returns [OF pks]) (simp add: returns)
  then have w1: "w1 = w" and len: "length pks = length keys"
    and nth: "\<And>i. i < length keys \<Longrightarrow> cell_of rb (keys ! i) = (if use_hash rb then Some (collection_key rb) else None, pks ! i)"
    by (auto simp: list_all2_conv_all_nth cell_of_def)
  have at: "projr (redis_key rb (keys ! i)) = pks ! i" if "i < length keys" for i
    using nth [OF that] by (simp add: cell_of_def)
  show ?thesis
  proof (cases "use_hash rb")
    case True
    then show ?thesis using hmget_law [OF assms(1), of "collection_key rb" pks vals w'] read watch len nth by (simp add: w1)
  next
    case False
    have "\<forall>i < length keys. pks ! i \<in> watched w" using watch False at nth_mem by metis
    with False show ?thesis using mget_law [OF assms(1), of pks vals w'] read len nth by (simp add: w1)
  qed
qed

lemma insert_chunk_law:
  assumes "inv w" "rb_client rb = c" "insert_if_absent rb s ins w = (Inr S, w')" "dict_ok ins"
    and seen: "\<And>k v t. (k, v, t) \<in> set ins \<Longrightarrow>
      \<exists>cw. dget writes k = Some cw \<and> seen_version (cw_seen cw) = None \<and> cw_change cw = Put v"
  shows "inv w' \<and> S \<subseteq> set (dkeys ins) \<and> (\<exists>es. log w' = log w @ es \<and> exactly_swapped rb writes S es)"
proof (cases "ins = []")
  case True
  then show ?thesis using assms(1,3) exactly_swapped_empty by (auto simp: insert_if_absent_def)
next
  case False
  let ?written = "\<lambda>replies. set (map fst (filter (\<lambda>(k, wrote). wrote \<noteq> 0) (zip (dkeys ins) replies)))"
  from assms(3) False obtain cmds w1 replies w2 where cmds: "collectP (insert_command rb s) ins w = (Inr cmds, w1)"
    and run: "rd_pipeline (rb_client rb) cmds w1 = (Inr replies, w2)" and len: "length (dkeys ins) = length replies"
    and rest: "(case s of Some e \<Rightarrow> if use_hash rb \<and> ?written replies \<noteq> {}
             then thenP (rd_run (rb_client rb) (EXPIRE (collection_key rb) e)) (returnP (?written replies)) else returnP (?written replies)
         | None \<Rightarrow> returnP (?written replies)) w2 = (Inr S, w')"
    unfolding insert_if_absent_def Let_def by (simp only: if_False returns) blast
  have S: "S = ?written replies" and w': "w' = w2 \<or> (\<exists>e n. rd_run (rb_client rb) (EXPIRE (collection_key rb) e) w2 = (Inr n, w'))"
    using rest by (auto simp: returns split: option.splits if_splits)
  let ?P = "\<lambda>(k, v, t) cmd. inserts_only cmd \<and> writes_of cmd = [(cell_of rb k, left_by rb (Put v))]"
  have "w1 = w \<and> list_all2 ?P ins cmds" by (rule collect_returns [OF cmds]) (auto dest: insert_command_returns)
  then have w1: "w1 = w" and P: "list_all2 ?P ins cmds" by simp_all
  have "list_all inserts_only cmds" using P by (induction rule: list_all2_induct) auto
  with insert_law [OF assms(1)] run w1 assms(2) have w2: "inv w2" and log2: "log w2 = log w @
      concat (map (\<lambda>(cmd, n). if n = 0 then [] else map (\<lambda>(x, new). (x, None, new)) (writes_of cmd)) (zip cmds replies))"
    by auto
  have w2': "inv w' \<and> log w' = log w2" using w' w2 expire_law [OF w2] assms(2) by auto
  have "list_all2 (swapped rb writes) (map fst (filter (\<lambda>(k, wrote). wrote \<noteq> 0) (zip (dkeys ins) replies)))
      (concat (map (\<lambda>(cmd, n). if n = 0 then [] else map (\<lambda>(x, new). (x, None, new)) (writes_of cmd)) (zip cmds replies)))"
    using inserts_swapped [OF P _ seen, of replies] len by simp
  moreover have "distinct (map fst (filter (\<lambda>(k, wrote). wrote \<noteq> 0) (zip (dkeys ins) replies)))"
    using assms(4) len by (intro distinct_map_filter) simp
  ultimately have "exactly_swapped rb writes S
      (concat (map (\<lambda>(cmd, n). if n = 0 then [] else map (\<lambda>(x, new). (x, None, new)) (writes_of cmd)) (zip cmds replies)))"
    using S by (intro exactly_swappedI) simp_all
  moreover have "S \<subseteq> set (dkeys ins)" using S by (auto dest: set_zip_leftD)
  ultimately show ?thesis using w2' log2 by auto
qed

lemma swap_chunk_law:
  assumes "inv w" "rb_client rb = c" "swap_if_unchanged rb s against w = (Inr S, w')" "dict_ok against"
    and inj: "inj_on (redis_key rb) (set (dkeys against))"
    and writes: "\<And>k cw. (k, cw) \<in> set against \<Longrightarrow> dget writes k = Some cw"
  shows "inv w' \<and> S \<subseteq> set (dkeys against) \<and> (\<exists>es. log w' = log w @ es \<and> exactly_swapped rb writes S es)"
proof (cases "against = []")
  case True
  then show ?thesis using assms(1,3) exactly_swapped_empty by (auto simp: swap_if_unchanged_def)
next
  case False
  let ?unchanged = "still_seen against"
  from assms(3) False obtain ws w1 w2 w3 current w4 u where
    watched: "(if use_hash rb then returnP [collection_key rb] else collectP (\<lambda>k. liftP (redis_key rb k)) (dkeys against)) w = (Inr ws, w1)"
    and watch: "rd_watch c ws w1 = (Inr u, w2)" and read: "read_raw rb (dkeys against) w2 = (Inr current, w3)"
    and len: "length against = length current"
    and rest: "(if ?unchanged current = [] then returnP {}
             else bindP (collectP (queued_write rb s) (?unchanged current)) (\<lambda>commands.
               mapP (\<lambda>executed. if executed then set (dkeys (?unchanged current)) else {}) (rd_exec c (concat commands)))) w3 = (Inr S, w4)"
    and reset: "\<exists>u. rd_reset c w4 = (Inr u, w')"
    unfolding swap_if_unchanged_def Let_def assms(2) still_seen_def by (simp only: if_False returns) blast
  have "w1 = w \<and> (if use_hash rb then collection_key rb \<in> set ws else \<forall>k \<in> set (dkeys against). projr (redis_key rb k) \<in> set ws)"
  proof (cases "use_hash rb")
    case True
    with watched show ?thesis by auto
  next
    case False
    with watched have "collectP (\<lambda>k. liftP (redis_key rb k)) (dkeys against) w = (Inr ws, w1)" by simp
    then have "w1 = w \<and> list_all2 (\<lambda>k pk. redis_key rb k = Inr pk) (dkeys against) ws"
      by (rule collect_returns) (simp add: returns)
    then show ?thesis using False physical_keys_in by (auto simp del: set_map)
  qed
  then have w1: "w1 = w" and ws: "if use_hash rb then collection_key rb \<in> set ws else \<forall>k \<in> set (dkeys against). projr (redis_key rb k) \<in> set ws"
    by simp_all
  from watch_law [OF assms(1)] watch w1 have w2: "inv w2" "log w2 = log w" "watched w2 = set ws" by auto
  from read_raw_law [OF w2(1) assms(2) read] ws w2 have w3: "inv w3" "log w3 = log w" "watched w3 = set ws"
    and seen: "\<And>i. i < length against \<Longrightarrow> seen w3 (cell_of rb (fst (against ! i))) = Some (current ! i)" by auto
  have w4: "inv w4 \<and> S \<subseteq> set (dkeys against) \<and> (\<exists>es. log w4 = log w @ es \<and> exactly_swapped rb writes S es)"
  proof (cases "?unchanged current = []")
    case True
    then show ?thesis using rest w3 exactly_swapped_empty by auto
  next
    case False
    define U where "U = ?unchanged current"
    from rest False obtain cmds w5 executed where cmds: "collectP (queued_write rb s) U w3 = (Inr cmds, w5)"
      and exec: "rd_exec c (concat cmds) w5 = (Inr executed, w4)" and S: "S = (if executed then set (dkeys U) else {})"
      by (auto simp: returns U_def)
    let ?Q = "\<lambda>(k, cw) cs. (\<exists>pk. redis_key rb k = Inr pk) \<and> list_all (\<lambda>cmd. \<not> inserts_only cmd) cs \<and> concat (map writes_of cs) = [(cell_of rb k, left_by rb (cw_change cw))]"
    have "w5 = w3 \<and> list_all2 ?Q U cmds" by (rule collect_returns [OF cmds]) (auto dest: queued_write_returns)
    then have w5: "w5 = w3" and Q: "list_all2 ?Q U cmds" by simp_all
    have U: "set U \<subseteq> set against" "dict_ok U" and U_seen: "\<And>k cw. (k, cw) \<in> set U \<Longrightarrow>
        \<exists>raw. seen w3 (cell_of rb k) = Some raw \<and> map_option wire_token raw = seen_version (cw_seen cw)"
    proof -
      show "set U \<subseteq> set against" "dict_ok U" using still_seen_ok [OF assms(4) len] by (simp_all add: U_def)
      fix k cw assume "(k, cw) \<in> set U"
      then obtain i where "i < length against" "against ! i = (k, cw)" "map_option wire_token (current ! i) = seen_version (cw_seen cw)"
        using still_seen_ok(3) [OF assms(4) len] by (auto simp: U_def)
      with seen [of i] show "\<exists>raw. seen w3 (cell_of rb k) = Some raw \<and> map_option wire_token raw = seen_version (cw_seen cw)" by auto
    qed
    show ?thesis
    proof (cases executed)
      case False
      then show ?thesis using exec_law [OF w3(1)] exec w5 w3(2) S exactly_swapped_empty by fastforce
    next
      case True
      have cells: "concat (map writes_of (concat cmds)) = map (\<lambda>(k, cw). (cell_of rb k, left_by rb (cw_change cw))) U"
        using Q by (rule queued_writes)
      have plain: "list_all (\<lambda>cmd. \<not> inserts_only cmd) (concat cmds)" using Q by (induction rule: list_all2_induct) auto
      have keyed: "\<And>k. k \<in> set (dkeys U) \<Longrightarrow> \<exists>pk. redis_key rb k = Inr pk"
        using Q by (induction rule: list_all2_induct) auto
      have "distinct (map (cell_of rb) (dkeys U))"
        using inj U(1) by (intro distinct_cells [OF U(2) keyed]) (auto intro: inj_on_subset)
      then have distinct: "distinct (map fst (concat (map writes_of (concat cmds))))"
        unfolding cells by (simp add: comp_def case_prod_beta)
      have watched_cell: "server_key (cell_of rb k) \<in> watched w3" if "k \<in> set (dkeys U)" for k
        using that U(1) ws by (auto simp: cell_of_def w3 split: if_splits)
      have read_cell: "\<forall>x \<in> fst ` set (concat (map writes_of (concat cmds))). server_key x \<in> watched w3 \<and> seen w3 x \<noteq> None"
        unfolding cells using watched_cell U_seen by fastforce
      have "inv w4 \<and> log w4 = log w3 @ map (\<lambda>(x, new). (x, the (seen w3 x), new)) (concat (map writes_of (concat cmds)))"
        using exec_law [OF w3(1), of "concat cmds" executed w4] exec [unfolded w5] True plain distinct read_cell by blast
      then have "inv w4 \<and> log w4 = log w @ map (\<lambda>(k, cw). (cell_of rb k, the (seen w3 (cell_of rb k)), left_by rb (cw_change cw))) U"
        unfolding cells w3(2) by (simp add: comp_def case_prod_beta)
      moreover have "list_all2 (swapped rb writes) (dkeys U)
          (map (\<lambda>(k, cw). (cell_of rb k, the (seen w3 (cell_of rb k)), left_by rb (cw_change cw))) U)"
        using U_seen U(1) writes by (fastforce simp: list_all2_conv_all_nth swapped_def dest!: nth_mem split: prod.splits)
      then have "exactly_swapped rb writes S
          (map (\<lambda>(k, cw). (cell_of rb k, the (seen w3 (cell_of rb k)), left_by rb (cw_change cw))) U)"
        using S True U(2) by (intro exactly_swappedI) simp_all
      ultimately show ?thesis using S True U(1) by auto
    qed
  qed
  then show ?thesis using reset reset_law by fastforce
qed

text \<open>Chunk after chunk: each writes keys no other chunk has.\<close>

lemma chunks_law:
  assumes "foldP (\<lambda>chunk written. mapP (\<lambda>s. written \<union> s) (f chunk)) chunks S w = (Inr T, w')" "inv w"
    and "\<And>chunk u R u'. \<lbrakk>chunk \<in> set chunks; inv u; f chunk u = (Inr R, u')\<rbrakk> \<Longrightarrow>
      inv u' \<and> R \<subseteq> set (dkeys chunk) \<and> (\<exists>es. log u' = log u @ es \<and> exactly_swapped rb writes R es)"
    and "dict_ok (concat chunks)" "S \<inter> set (dkeys (concat chunks)) = {}" "exactly_swapped rb writes S es"
  shows "inv w' \<and> T \<subseteq> S \<union> set (dkeys (concat chunks)) \<and> (\<exists>fs. log w' = log w @ fs \<and> exactly_swapped rb writes T (es @ fs))"
  using assms
proof (induction chunks arbitrary: S w es)
  case (Cons chunk chunks)
  from Cons.prems(1) obtain R w1 where R: "f chunk w = (Inr R, w1)"
    and rest: "foldP (\<lambda>chunk written. mapP (\<lambda>s. written \<union> s) (f chunk)) chunks (S \<union> R) w1 = (Inr T, w')"
    by (auto simp: returns)
  from Cons.prems(3) [OF _ Cons.prems(2) R] obtain gs where w1: "inv w1" "R \<subseteq> set (dkeys chunk)"
    and gs: "log w1 = log w @ gs" "exactly_swapped rb writes R gs" by auto
  have "exactly_swapped rb writes (S \<union> R) (es @ gs)"
    using Cons.prems(5,6) w1(2) gs(2) by (intro exactly_swapped_append) auto
  moreover have "(S \<union> R) \<inter> set (dkeys (concat chunks)) = {}"
  proof -
    have "set (dkeys chunk) \<inter> set (dkeys (concat chunks)) = {}" using Cons.prems(4) by simp
    moreover have "S \<inter> set (dkeys (concat chunks)) = {}" using Cons.prems(5) by auto
    ultimately show ?thesis using w1(2) by blast
  qed
  ultimately have "inv w' \<and> T \<subseteq> S \<union> R \<union> set (dkeys (concat chunks))
      \<and> (\<exists>fs. log w' = log w1 @ fs \<and> exactly_swapped rb writes T ((es @ gs) @ fs))"
    by (intro Cons.IH [OF rest w1(1) Cons.prems(3)]) (use Cons.prems(4) in simp_all)
  then show ?case using w1(2) gs(1) by auto
qed auto

theorem conditional_write_law:
  assumes "inv w" "rb_client rb = c" "redis_batch_write_if_unchanged rb writes ttl w = (Inr S, w')"
    and "dict_ok writes" "inj_on (redis_key rb) (set (dkeys writes))"
  shows "inv w' \<and> S \<subseteq> set (dkeys writes) \<and> (\<exists>es. log w' = log w @ es \<and> exactly_swapped rb writes S es)"
proof -
  define against where "against = filter (\<lambda>(k, cw). seen_version (cw_seen cw) \<noteq> None) writes"
  let ?size = "be_batch_size (rb_backend rb)" and ?s = "redis_ttl rb ttl"
  let ?step = "\<lambda>f chunk written. mapP (\<lambda>s. written \<union> s) (f rb ?s chunk)"
  let ?check = "\<lambda>(_, cw). refuse (require_write_clock_supported (cw_created_at cw) (\<not> use_hash rb))"
  from assms(3) obtain w0 r where check: "iterP ?check writes w = (Inr r, w0)"
    and writing: "\<exists>T w1. in_chunks (inserts_of writes) ?size (\<lambda>chunks. foldP (?step insert_if_absent) chunks {}) w0 = (Inr T, w1)
    \<and> in_chunks against ?size (\<lambda>chunks. foldP (?step swap_if_unchanged) chunks T) w1 = (Inr S, w')"
    unfolding redis_batch_write_if_unchanged_def Let_def against_def by (simp only: returns) blast
  have "w0 = w" using check by (rule iter_returns) (auto simp: returns)
  with writing have "\<exists>T w1. in_chunks (inserts_of writes) ?size (\<lambda>chunks. foldP (?step insert_if_absent) chunks {}) w = (Inr T, w1)
    \<and> in_chunks against ?size (\<lambda>chunks. foldP (?step swap_if_unchanged) chunks T) w1 = (Inr S, w')" by simp
  then obtain T w1 ic sc where ic: "concat ic = inserts_of writes" "foldP (?step insert_if_absent) ic {} w = (Inr T, w1)"
    and sc: "concat sc = against" "foldP (?step swap_if_unchanged) sc T w1 = (Inr S, w')"
    by (fast dest!: in_chunks_returns)
  have dget: "dget writes k = Some cw" if "(k, cw) \<in> set writes" for k cw using that assms(4) by simp
  have oks: "dict_ok (inserts_of writes)" "dict_ok against"
    unfolding inserts_of_keys against_def using assms(4) by (simp_all add: distinct_map_filter)
  have apart: "set (dkeys (inserts_of writes)) \<inter> set (dkeys against) = {}"
    unfolding inserts_of_keys against_def by (fastforce dest!: dget)
  have within: "set (dkeys (inserts_of writes)) \<subseteq> set (dkeys writes)" "set against \<subseteq> set writes"
    unfolding inserts_of_keys against_def by auto
  from ic(2) assms(1) have "inv w1 \<and> T \<subseteq> {} \<union> set (dkeys (concat ic)) \<and> (\<exists>fs. log w1 = log w @ fs \<and> exactly_swapped rb writes T ([] @ fs))"
  proof (rule chunks_law)
    fix chunk u R u' assume "chunk \<in> set ic" "inv u" and R: "insert_if_absent rb ?s chunk u = (Inr R, u')"
    with dict_ok_chunk [of ic chunk] oks(1) ic(1) have ok: "dict_ok chunk" and sub: "set chunk \<subseteq> set (inserts_of writes)" by simp_all
    show "inv u' \<and> R \<subseteq> set (dkeys chunk) \<and> (\<exists>es. log u' = log u @ es \<and> exactly_swapped rb writes R es)"
    proof (rule insert_chunk_law [OF \<open>inv u\<close> assms(2) R ok])
      fix k v t assume "(k, v, t) \<in> set chunk"
      with sub have "(k, v, t) \<in> set (inserts_of writes)" by blast
      then show "\<exists>cw. dget writes k = Some cw \<and> seen_version (cw_seen cw) = None \<and> cw_change cw = Put v"
        using dget by (fast dest!: inserts_of_elem)
    qed
  qed (use oks(1) ic(1) exactly_swapped_empty in auto)
  then obtain es where w1: "inv w1" "T \<subseteq> set (dkeys (inserts_of writes))" "log w1 = log w @ es" "exactly_swapped rb writes T es"
    using ic(1) by auto
  from sc(2) w1(1) have "inv w' \<and> S \<subseteq> T \<union> set (dkeys (concat sc)) \<and> (\<exists>fs. log w' = log w1 @ fs \<and> exactly_swapped rb writes S (es @ fs))"
  proof (rule chunks_law)
    fix chunk u R u' assume "chunk \<in> set sc" "inv u" and R: "swap_if_unchanged rb ?s chunk u = (Inr R, u')"
    with dict_ok_chunk [of sc chunk] oks(2) sc(1) have ok: "dict_ok chunk" and sub: "set chunk \<subseteq> set against" by simp_all
    have inj: "inj_on (redis_key rb) (set (dkeys chunk))" using assms(5) by (rule inj_on_subset) (use sub within(2) in auto)
    show "inv u' \<and> R \<subseteq> set (dkeys chunk) \<and> (\<exists>es. log u' = log u @ es \<and> exactly_swapped rb writes R es)"
      by (rule swap_chunk_law [OF \<open>inv u\<close> assms(2) R ok inj]) (use dget sub within(2) in blast)
  qed (use oks(2) sc(1) w1(2,4) apart in auto)
  then obtain fs where w': "inv w'" "S \<subseteq> T \<union> set (dkeys against)" "log w' = log w @ es @ fs" "exactly_swapped rb writes S (es @ fs)"
    using sc(1) w1(3) by auto
  have "set (dkeys against) \<subseteq> set (dkeys writes)" using within(2) by auto
  with w' w1(2) within(1) show ?thesis by blast
qed

end

end
