(* ===== verification/Redis_Properties.thy ===== *)
theory Redis_Properties
  imports Redis_Laws Key_Properties
begin

text \<open>
  The conditional write of the Redis store under other clients, for every server that keeps
  the laws of \<open>redis_server\<close>; and a server that does: one command after the other, with what
  the other clients write between two round trips as a schedule. Nothing expires on it.
\<close>

section \<open>The conditional write\<close>

text \<open>
  C9. Whatever other clients write between two round trips: when a conditional write returns,
  the keys it reports are exactly the keys it wrote, each of them once; what it replaced there
  was the very version seen -- nothing, for an insert -- and what it left is the change asked for.
\<close>

theorem redis_swap_exact:
  assumes "redis_server (rb_client rb) written watched seen good" "good w"
    and "dict_ok writes" "inj_on (redis_key rb) (set (dkeys writes))"
    and "redis_batch_write_if_unchanged rb writes ttl w = (Inr S, w')"
  shows "good w' \<and> S \<subseteq> set (dkeys writes) \<and> (\<exists>es. written w' = written w @ es \<and> exactly_swapped rb writes S es)"
  using assms(1,2) refl assms(5,3,4) by (rule redis_server.conditional_write_law)

section \<open>Scans\<close>

text \<open>
  An iteration over the keys of the server, from a cursor on, comes to these pages, the last
  one with the cursor 0; \<open>I\<close> is what the consumer and the other clients leave as it is.
\<close>

fun iteration :: "('w \<Rightarrow> bool) \<Rightarrow> 'w redis_client \<Rightarrow> string \<Rightarrow> int \<Rightarrow> int \<Rightarrow> string list list \<Rightarrow> bool" where
  "iteration I c pattern count cursor [] = False"
| "iteration I c pattern count cursor (ks # kss) = (\<exists>next.
     (\<forall>w. I w \<longrightarrow> (\<exists>w'. rd_scan c cursor pattern count w = (Inr (next, ks), w') \<and> I w'))
     \<and> (if kss = [] then next = 0 else next \<noteq> 0 \<and> iteration I c pattern count next kss))"

lemma iteration_next:
  assumes "iteration I c pattern count cursor' kss" "cursor' \<noteq> 0"
    and "\<And>w. I w \<Longrightarrow> \<exists>w'. rd_scan c cursor pattern count w = (Inr (cursor', ks), w') \<and> I w'"
  shows "iteration I c pattern count cursor (ks # kss)"
  unfolding iteration.simps using assms by (intro exI [of _ cursor'] conjI) (cases kss; auto)+

definition listed_row :: "('w, 'k, 'v) redis_backend \<Rightarrow> string \<Rightarrow> bool \<Rightarrow> (string \<Rightarrow> string option) \<Rightarrow> string \<Rightarrow> ('k \<times> 'v option) list" where
  "listed_row rb pre include_values stored pk = (if \<not> py_startswith pk pre then []
     else case decode_key_from_physical (rb_backend rb) pk of None \<Rightarrow> []
       | Some key \<Rightarrow> if \<not> include_values then [(key, None)]
           else case stored pk of None \<Rightarrow> [] | Some r \<Rightarrow> [(key, Some (projr (redis_deserialize rb r)))])"

lemma redis_rows_yield:
  assumes "yields I continue rows" "\<And>pk raw. (pk, raw) \<in> set pairs \<Longrightarrow> include_values \<Longrightarrow> raw = stored pk"
    and "\<And>pk r. stored pk = Some r \<Longrightarrow> \<exists>v. redis_deserialize rb r = Inr v"
  shows "yields I (redis_rows rb pre include_values pairs continue)
    (concat (map (listed_row rb pre include_values stored) (map fst pairs)) @ rows)"
  using assms(1,2)
proof (induction pairs)
  case (Cons p pairs)
  obtain pk raw where p: "p = (pk, raw)" by (cases p)
  have ih: "yields I (redis_rows rb pre include_values pairs continue)
      (concat (map (listed_row rb pre include_values stored) (map fst pairs)) @ rows)"
    by (rule Cons.IH [OF Cons.prems(1)]) (use Cons.prems(2) in auto)
  have raw: "include_values \<Longrightarrow> raw = stored pk" by (rule Cons.prems(2)) (simp_all add: p)
  show ?case
  proof (cases "include_values \<and> (\<exists>r. stored pk = Some r)")
    case True
    then obtain r v where "stored pk = Some r" "redis_deserialize rb r = Inr v" using assms(3) by blast
    then show ?thesis using ih raw True by (auto simp: p listed_row_def [of _ _ _ _ pk] split: option.split)
  next
    case False
    then show ?thesis using ih raw by (auto simp: p listed_row_def [of _ _ _ _ pk] split: option.split)
  qed
qed simp

lemma redis_flat_scan_yields:
  assumes "iteration I (rb_client rb) (pre @ ''*'') (sq_page_size query) cursor kss" "length kss \<le> pages"
    and "\<And>ks w. \<lbrakk>sq_include_values query; ks \<in> set kss; I w\<rbrakk> \<Longrightarrow> \<exists>w'. rd_mget (rb_client rb) ks w = (Inr (map stored ks), w') \<and> I w'"
    and "\<And>pk r. stored pk = Some r \<Longrightarrow> \<exists>v. redis_deserialize rb r = Inr v"
  shows "yields I (redis_flat_scan pages rb pre query cursor) (concat (map (listed_row rb pre (sq_include_values query) stored) (concat kss)))"
  using assms(1,2,3)
proof (induction kss arbitrary: cursor pages)
  case (Cons ks kss)
  from Cons.prems(2) obtain n where pages: "pages = Suc n" "length kss \<le> n" by (cases pages) auto
  let ?rows = "\<lambda>pks. concat (map (listed_row rb pre (sq_include_values query) stored) pks)"
  from Cons.prems(1) obtain c where reply: "\<And>w. I w \<Longrightarrow> \<exists>w'. rd_scan (rb_client rb) cursor (pre @ ''*'') (sq_page_size query) w = (Inr (c, ks), w') \<and> I w'"
    and c: "if kss = [] then c = 0 else c \<noteq> 0 \<and> iteration I (rb_client rb) (pre @ ''*'') (sq_page_size query) c kss" by auto
  define continue where "continue = (if c = 0 then Done else redis_flat_scan n rb pre query c)"
  have continue: "yields I continue (?rows (concat kss))"
    using c Cons.IH [OF _ pages(2)] Cons.prems(3) by (cases "kss = []") (auto simp: continue_def)
  have page: "yields I (if ks = [] then continue
       else if sq_include_values query
         then await (rd_mget (rb_client rb) ks) (\<lambda>values. redis_rows rb pre True (zip ks values) continue)
         else redis_rows rb pre False (map (\<lambda>k. (k, None)) ks) continue) (?rows ks @ ?rows (concat kss))"
  proof -
    have with_values: "yields I (redis_rows rb pre True (zip ks (map stored ks)) continue) (?rows ks @ ?rows (concat kss))" if "sq_include_values query"
      using redis_rows_yield [OF continue, of "zip ks (map stored ks)" True stored rb pre] assms(4) that
      by (force simp: set_zip)
    have keys_only: "yields I (redis_rows rb pre False (map (\<lambda>k. (k, None)) ks) continue) (?rows ks @ ?rows (concat kss))" if "\<not> sq_include_values query"
      using redis_rows_yield [OF continue, of "map (\<lambda>k. (k, None)) ks" False stored rb pre] assms(4) that by (simp add: comp_def)
    have "\<And>w. \<lbrakk>sq_include_values query; I w\<rbrakk> \<Longrightarrow> \<exists>w'. rd_mget (rb_client rb) ks w = (Inr (map stored ks), w') \<and> I w'"
      using Cons.prems(3) by simp
    then show ?thesis using continue with_values keys_only by (auto intro!: await_yields) fastforce
  qed
  show ?case unfolding pages(1) redis_flat_scan.simps
  proof (rule await_yields)
    fix w assume "I w"
    from reply [OF this] page show "\<exists>a w'. rd_scan (rb_client rb) cursor (pre @ ''*'') (sq_page_size query) w = (Inr a, w') \<and> I w'
       \<and> yields I (case a of (cursor, keys) \<Rightarrow>
       let continue = (if cursor = 0 then Done else redis_flat_scan n rb pre query cursor) in
       if keys = [] then continue
       else if sq_include_values query
         then await (rd_mget (rb_client rb) keys) (\<lambda>values. redis_rows rb pre True (zip keys values) continue)
         else redis_rows rb pre False (map (\<lambda>k. (k, None)) keys) continue) (?rows (concat (ks # kss)))"
      by (fastforce simp: Let_def continue_def)
  qed
qed simp

text \<open>
  C10. A scan of flat keys ends where the iteration of the server does -- within the pages
  allowed -- and yields, for each key of each page in order, one row if it lies under the prefix
  and decodes, with the value read after the page, and none if that is gone by then.
\<close>

theorem redis_scan_ends:
  assumes "\<not> use_hash rb" "sq_prefix query = None \<or> supports_prefix_scan (rb_layout rb)"
    and "scan_prefix_blob (rb_backend rb) (sq_prefix query) = Inr pre"
    and "iteration I (rb_client rb) (pre @ ''*'') (sq_page_size query) 0 kss" "length kss \<le> rb_pages rb"
    and "\<And>ks w. \<lbrakk>sq_include_values query; ks \<in> set kss; I w\<rbrakk> \<Longrightarrow> \<exists>w'. rd_mget (rb_client rb) ks w = (Inr (map stored ks), w') \<and> I w'"
    and "\<And>pk r. stored pk = Some r \<Longrightarrow> \<exists>v. redis_deserialize rb r = Inr v"
  shows "yields I (redis_scan_gen rb query) (concat (map (listed_row rb pre (sq_include_values query) stored) (concat kss)))"
proof -
  have "redis_scan_gen rb query = redis_flat_scan (rb_pages rb) rb pre query 0"
    using assms(1-3) by (auto simp: redis_scan_gen_def)
  with redis_flat_scan_yields [OF assms(4-7)] show ?thesis by simp
qed

section \<open>A server\<close>

text \<open>What the other clients write before the next round trips of this one; and this client's log.\<close>

record server =
  sv_cells :: "(cell, string) dict"
  sv_others :: "(cell \<times> string option) list list"
  sv_watched :: "string list"
  sv_touched :: bool
  sv_seen :: "(cell, string option) dict"
  sv_log :: "write_entry list"

definition put_cell :: "cell \<times> string option \<Rightarrow> server \<Rightarrow> server" where
  "put_cell = (\<lambda>(x, new) w. w\<lparr>sv_cells := (case new of None \<Rightarrow> ddel x (sv_cells w) | Some v \<Rightarrow> dput x v (sv_cells w)),
     sv_touched := sv_touched w \<or> server_key x \<in> set (sv_watched w)\<rparr>)"

definition others_act :: "server \<Rightarrow> server" where
  "others_act w = (case sv_others w of [] \<Rightarrow> w | ps # rest \<Rightarrow> fold put_cell ps (w\<lparr>sv_others := rest\<rparr>))"

definition write_cell :: "cell \<times> string option \<Rightarrow> server \<Rightarrow> server" where
  "write_cell = (\<lambda>(x, new) w. (put_cell (x, new) w)\<lparr>sv_log := sv_log w @ [(x, dget (sv_cells w) x, new)]\<rparr>)"

definition is_stored :: "server \<Rightarrow> cell \<Rightarrow> bool" where
  "is_stored w x \<longleftrightarrow> dget (sv_cells w) x \<noteq> None"

fun reply_of :: "redis_command \<Rightarrow> server \<Rightarrow> int" where
  "reply_of (EXISTS k) w = (if is_stored w (None, k) then 1 else 0)"
| "reply_of (HEXISTS h f) w = (if is_stored w (Some h, f) then 1 else 0)"
| "reply_of (HSET h pairs) w = int (length (filter (\<lambda>(f, v). \<not> is_stored w (Some h, f)) pairs))"
| "reply_of (DEL ks) w = int (length (filter (\<lambda>k. is_stored w (None, k)) (fromkeys ks)))"
| "reply_of (UNLINK ks) w = int (length (filter (\<lambda>k. is_stored w (None, k)) (fromkeys ks)))"
| "reply_of (HDEL h fs) w = int (length (filter (\<lambda>f. is_stored w (Some h, f)) (fromkeys fs)))"
| "reply_of _ w = 1"

text \<open>An insert finds something stored, and does nothing.\<close>

definition held_back :: "redis_command \<Rightarrow> server \<Rightarrow> bool" where
  "held_back cmd w \<longleftrightarrow> inserts_only cmd \<and> list_ex (\<lambda>(x, new). is_stored w x) (writes_of cmd)"

definition run_command :: "redis_command \<Rightarrow> server \<Rightarrow> int \<times> server" where
  "run_command cmd w = (if held_back cmd w then (0, w) else (reply_of cmd w, fold write_cell (writes_of cmd) w))"

fun run_each :: "redis_command list \<Rightarrow> server \<Rightarrow> int list \<times> server" where
  "run_each [] w = ([], w)"
| "run_each (cmd # cmds) w = (case run_command cmd (others_act w) of (n, w1) \<Rightarrow>
     (case run_each cmds w1 of (ns, w2) \<Rightarrow> (n # ns, w2)))"

text \<open>What is read of watched keys is remembered.\<close>

definition read_cells :: "cell list \<Rightarrow> (server, string option list) prog" where
  "read_cells xs w = (let w = others_act w; vals = map (dget (sv_cells w)) xs in
     (Inr vals, w\<lparr>sv_seen := fold (\<lambda>x s. if server_key x \<in> set (sv_watched w) then dput x (dget (sv_cells w) x) s else s) xs (sv_seen w)\<rparr>))"

definition forget :: "server \<Rightarrow> server" where
  "forget w = w\<lparr>sv_watched := [], sv_touched := False, sv_seen := []\<rparr>"

definition matches :: "string \<Rightarrow> string \<Rightarrow> bool" where
  "matches pattern s \<longleftrightarrow> py_startswith s (butlast pattern)"

definition redis_of_cells :: "server redis_client" where
  "redis_of_cells = \<lparr>
     rd_get = \<lambda>k. mapP hd (read_cells [(None, k)]),
     rd_hget = \<lambda>h f. mapP hd (read_cells [(Some h, f)]),
     rd_mget = \<lambda>ks. read_cells (map (Pair None) ks),
     rd_hmget = \<lambda>h fs. read_cells (map (Pair (Some h)) fs),
     rd_pttl = \<lambda>k w. (Inr (if is_stored w (None, k) then - 1 else - 2), w),
     rd_run = \<lambda>cmd w. (case run_command cmd (others_act w) of (n, w') \<Rightarrow> (Inr n, w')),
     rd_pipeline = \<lambda>cmds w. (case run_each cmds w of (ns, w') \<Rightarrow> (Inr ns, w')),
     rd_watch = \<lambda>ks w. (Inr (), (others_act w)\<lparr>sv_watched := ks, sv_touched := False, sv_seen := []\<rparr>),
     rd_exec = \<lambda>cmds w. (let w = others_act w in
       if sv_touched w then (Inr False, forget w)
       else (Inr True, forget (fold (\<lambda>cmd w. snd (run_command cmd w)) cmds w))),
     rd_reset = \<lambda>w. (Inr (), forget w),
     rd_scan = \<lambda>cursor pattern count w.
       (let ks = map snd (filter (\<lambda>x. fst x = None) (dkeys (sv_cells w))); upto = nat cursor + nat count in
         (Inr (if upto < length ks then int upto else 0, filter (matches pattern) (take (nat count) (drop (nat cursor) ks))), w)),
     rd_hscan = \<lambda>h cursor pattern count w.
       (Inr (0, map (\<lambda>(x, v). (snd x, v)) (filter (\<lambda>(x, v). fst x = Some h \<and> (case pattern of None \<Rightarrow> True | Some p \<Rightarrow> matches p (snd x))) (sv_cells w))), w),
     rd_time = \<lambda>w. (Inr 0, w)\<rparr>"

text \<open>Until a watched key is touched, what was read of it is what is there.\<close>

definition fresh :: "server \<Rightarrow> bool" where
  "fresh w \<longleftrightarrow> (\<forall>x v. dget (sv_seen w) x = Some v \<longrightarrow> server_key x \<in> set (sv_watched w) \<and> (sv_touched w \<or> dget (sv_cells w) x = v))"

lemma put_cell_fresh: "fresh w \<Longrightarrow> fresh (put_cell p w)"
  by (cases p) (auto simp: fresh_def put_cell_def split: option.splits)

lemma put_cell_frame [simp]: "sv_log (put_cell p w) = sv_log w" "sv_watched (put_cell p w) = sv_watched w" "sv_seen (put_cell p w) = sv_seen w"
  by (cases p; simp add: put_cell_def)+

lemma others_act_fresh: "fresh w \<Longrightarrow> fresh (others_act w)"
proof -
  have "fresh u \<Longrightarrow> fresh (fold put_cell ps u)" for ps u by (induction ps arbitrary: u) (auto simp: put_cell_fresh)
  then show "fresh w \<Longrightarrow> fresh (others_act w)" by (simp add: others_act_def fresh_def split: list.splits)
qed

lemma others_act_frame [simp]:
  "sv_log (others_act w) = sv_log w" "sv_watched (others_act w) = sv_watched w" "sv_seen (others_act w) = sv_seen w"
proof -
  have "sv_log (fold put_cell ps u) = sv_log u \<and> sv_watched (fold put_cell ps u) = sv_watched u \<and> sv_seen (fold put_cell ps u) = sv_seen u" for ps u
    by (induction ps arbitrary: u) auto
  then show "sv_log (others_act w) = sv_log w" "sv_watched (others_act w) = sv_watched w" "sv_seen (others_act w) = sv_seen w"
    by (simp_all add: others_act_def split: list.splits)
qed

lemma write_cell_fresh: "fresh w \<Longrightarrow> fresh (write_cell p w)"
  using put_cell_fresh [of w p] by (cases p) (simp add: write_cell_def fresh_def)

lemma write_cells_fresh: "fresh w \<Longrightarrow> fresh (fold write_cell ps w)"
  by (induction ps arbitrary: w) (auto simp: write_cell_fresh)

lemma entries_cong:
  "(\<And>x. x \<in> fst ` set ps \<Longrightarrow> f x = g x) \<Longrightarrow> map (\<lambda>(x, new). (x, f x, new)) ps = map (\<lambda>(x, new). (x, g x, new)) ps"
  by (induction ps) auto

lemma write_cells_log:
  "dict_ok ps \<Longrightarrow> sv_log (fold write_cell ps w) = sv_log w @ map (\<lambda>(x, new). (x, dget (sv_cells w) x, new)) ps"
proof (induction ps arbitrary: w)
  case (Cons p ps)
  obtain x new where p: "p = (x, new)" by (cases p)
  have cells: "dget (sv_cells (write_cell p w)) y = dget (sv_cells w) y" if "y \<noteq> x" for y
    using that by (simp add: p write_cell_def put_cell_def split: option.splits)
  have "map (\<lambda>(x, new). (x, dget (sv_cells (write_cell p w)) x, new)) ps = map (\<lambda>(x, new). (x, dget (sv_cells w) x, new)) ps"
  proof (rule entries_cong)
    fix y assume "y \<in> fst ` set ps"
    with Cons.prems p have "y \<noteq> x" by auto
    then show "dget (sv_cells (write_cell p w)) y = dget (sv_cells w) y" by (rule cells)
  qed
  moreover have "sv_log (write_cell p w) = sv_log w @ [(x, dget (sv_cells w) x, new)]" by (simp add: p write_cell_def)
  ultimately show ?case using Cons by (simp add: p)
qed simp

lemma run_command_fresh: "fresh w \<Longrightarrow> fresh (snd (run_command cmd w))"
  by (simp add: run_command_def write_cells_fresh)

lemma insert_command_log:
  assumes "inserts_only cmd" "run_command cmd w = (n, w')"
  shows "sv_log w' = sv_log w @ (if n = 0 then [] else map (\<lambda>(x, new). (x, None, new)) (writes_of cmd))"
  using assms by (cases cmd) (auto simp: run_command_def held_back_def is_stored_def write_cell_def split: if_splits)

lemma run_each_law:
  assumes "run_each cmds w = (ns, w')" "fresh w" "list_all inserts_only cmds"
  shows "fresh w' \<and> length ns = length cmds \<and> sv_log w' = sv_log w
    @ concat (map (\<lambda>(cmd, n). if n = 0 then [] else map (\<lambda>(x, new). (x, None, new)) (writes_of cmd)) (zip cmds ns))"
  using assms
proof (induction cmds arbitrary: w ns)
  case (Cons cmd cmds)
  from Cons.prems(1) obtain n w1 ms where n: "run_command cmd (others_act w) = (n, w1)"
    and ms: "run_each cmds w1 = (ms, w')" "ns = n # ms" by (auto split: prod.splits)
  have "fresh w1" using run_command_fresh [OF others_act_fresh [OF Cons.prems(2)], of cmd] n by simp
  from Cons.IH [OF ms(1) this] insert_command_log [OF _ n] Cons.prems(3) ms(2) show ?case by simp
qed simp

lemma seen_cells: "dget (fold (\<lambda>x s. if server_key x \<in> W then dput x (dget d x) s else s) xs s) y
    = (if y \<in> set xs \<and> server_key y \<in> W then Some (dget d y) else dget s y)"
  by (induction xs arbitrary: s) auto

lemma read_cells_law:
  assumes "read_cells xs w = (Inr vals, w')" "fresh w"
  shows "fresh w' \<and> sv_log w' = sv_log w \<and> sv_watched w' = sv_watched w \<and> length vals = length xs
    \<and> (\<forall>i < length xs. server_key (xs ! i) \<in> set (sv_watched w) \<longrightarrow> dget (sv_seen w') (xs ! i) = Some (vals ! i))"
proof -
  have vals: "vals = map (dget (sv_cells (others_act w))) xs" using assms(1) by (auto simp: read_cells_def Let_def)
  have w': "w' = (others_act w)\<lparr>sv_seen := fold (\<lambda>x s. if server_key x \<in> set (sv_watched w)
      then dput x (dget (sv_cells (others_act w)) x) s else s) xs (sv_seen w)\<rparr>"
    using assms(1) by (auto simp: read_cells_def Let_def)
  have "fresh w'" using others_act_fresh [OF assms(2)] by (auto simp: fresh_def w' seen_cells split: if_splits)
  then show ?thesis by (simp add: vals) (simp add: w' seen_cells)
qed

lemma plain_commands:
  "list_all (\<lambda>cmd. \<not> inserts_only cmd) cmds \<Longrightarrow>
     fold (\<lambda>cmd w. snd (run_command cmd w)) cmds w = fold write_cell (concat (map writes_of cmds)) w"
  by (induction cmds arbitrary: w) (auto simp: run_command_def held_back_def)

lemma forget_simps [simp]: "fresh (forget w)" "sv_log (forget w) = sv_log w"
  by (simp_all add: forget_def fresh_def)

lemma exec_cells_law:
  assumes "rd_exec redis_of_cells cmds w = (Inr executed, w')" "fresh w" "executed"
    and plain: "list_all (\<lambda>cmd. \<not> inserts_only cmd) cmds" and "dict_ok (concat (map writes_of cmds))"
    and seen: "\<forall>x \<in> fst ` set (concat (map writes_of cmds)). server_key x \<in> set (sv_watched w) \<and> dget (sv_seen w) x \<noteq> None"
  shows "sv_log w' = sv_log w @ map (\<lambda>(x, new). (x, the (dget (sv_seen w) x), new)) (concat (map writes_of cmds))"
proof -
  let ?u = "others_act w" and ?ps = "concat (map writes_of cmds)"
  from assms(1,3) have untouched: "\<not> sv_touched ?u" and w': "w' = forget (fold write_cell ?ps ?u)"
    by (auto simp: redis_of_cells_def Let_def plain_commands [OF plain] split: if_splits)
  have "dget (sv_cells ?u) x = the (dget (sv_seen w) x)" if "x \<in> fst ` set ?ps" for x
  proof -
    from seen that obtain v where "dget (sv_seen w) x = Some v" by blast
    with others_act_fresh [OF assms(2), unfolded fresh_def, rule_format, of x v] untouched show ?thesis by simp
  qed
  then have "map (\<lambda>(x, new). (x, dget (sv_cells ?u) x, new)) ?ps = map (\<lambda>(x, new). (x, the (dget (sv_seen w) x), new)) ?ps"
    by (rule entries_cong)
  then show ?thesis by (simp add: w' write_cells_log [OF assms(5)])
qed

interpretation cells: redis_server redis_of_cells sv_log "\<lambda>w. set (sv_watched w)" "\<lambda>w. dget (sv_seen w)" fresh
proof
  fix w w' :: server and ks vals u assume "fresh w" "rd_watch redis_of_cells ks w = (Inr u, w')"
  then show "fresh w' \<and> sv_log w' = sv_log w \<and> set (sv_watched w') = set ks"
    by (auto simp: redis_of_cells_def fresh_def)
next
  fix w w' :: server and ks vals assume "fresh w" "rd_mget redis_of_cells ks w = (Inr vals, w')"
  then show "fresh w' \<and> sv_log w' = sv_log w \<and> set (sv_watched w') = set (sv_watched w) \<and> length vals = length ks
      \<and> (\<forall>i < length ks. ks ! i \<in> set (sv_watched w) \<longrightarrow> dget (sv_seen w') (None, ks ! i) = Some (vals ! i))"
    using read_cells_law [of "map (Pair None) ks" w vals w'] by (simp add: redis_of_cells_def)
next
  fix w w' :: server and h fs vals assume "fresh w" "rd_hmget redis_of_cells h fs w = (Inr vals, w')"
  then show "fresh w' \<and> sv_log w' = sv_log w \<and> set (sv_watched w') = set (sv_watched w) \<and> length vals = length fs
      \<and> (h \<in> set (sv_watched w) \<longrightarrow> (\<forall>i < length fs. dget (sv_seen w') (Some h, fs ! i) = Some (vals ! i)))"
    using read_cells_law [of "map (Pair (Some h)) fs" w vals w'] by (simp add: redis_of_cells_def)
next
  fix w w' :: server and cmds executed assume w: "fresh w" "rd_exec redis_of_cells cmds w = (Inr executed, w')"
  then have "fresh w'" "\<not> executed \<longrightarrow> sv_log w' = sv_log w"
    by (auto simp: redis_of_cells_def Let_def split: if_splits)
  with exec_cells_law [OF w(2,1)] show "fresh w' \<and> (\<not> executed \<longrightarrow> sv_log w' = sv_log w)
      \<and> (executed \<longrightarrow> list_all (\<lambda>cmd. \<not> inserts_only cmd) cmds \<longrightarrow> dict_ok (concat (map writes_of cmds))
         \<longrightarrow> (\<forall>x \<in> fst ` set (concat (map writes_of cmds)). server_key x \<in> set (sv_watched w) \<and> dget (sv_seen w) x \<noteq> None)
         \<longrightarrow> sv_log w' = sv_log w @ map (\<lambda>(x, new). (x, the (dget (sv_seen w) x), new)) (concat (map writes_of cmds)))"
    by blast
next
  fix w w' :: server and u assume "fresh w" "rd_reset redis_of_cells w = (u, w')"
  then show "fresh w' \<and> sv_log w' = sv_log w" by (auto simp: redis_of_cells_def)
next
  fix w w' :: server and k s u assume "fresh w" "rd_run redis_of_cells (EXPIRE k s) w = (u, w')"
  then show "fresh w' \<and> sv_log w' = sv_log w"
    using others_act_fresh by (auto simp: redis_of_cells_def run_command_def held_back_def)
next
  fix w w' :: server and cmds ns assume "fresh w" "rd_pipeline redis_of_cells cmds w = (Inr ns, w')" "list_all inserts_only cmds"
  then show "fresh w' \<and> length ns = length cmds \<and> sv_log w' = sv_log w
      @ concat (map (\<lambda>(cmd, n). if n = 0 then [] else map (\<lambda>(x, new). (x, None, new)) (writes_of cmd)) (zip cmds ns))"
    using run_each_law by (auto simp: redis_of_cells_def split: prod.splits)
qed

section \<open>A contended write\<close>

text \<open>
  Documents on a flat server, in batches of two. Between two round trips someone else inserts
  \<open>b\<close>, and replaces \<open>e\<close> after it was read: \<open>a\<close> is inserted and \<open>b\<close> is not, \<open>c\<close> is replaced
  and \<open>d\<close> is not, being newer than what was seen; the transaction on \<open>e\<close> is discarded.
\<close>

definition flat_docs :: "(server, string, string) redis_backend" where
  "flat_docs = \<lparr>rb_backend = \<lparr>be_kvset = string_docs None, be_scope = [], be_binding = key_prefix_binding (string_docs None),
     be_batch_size = 2\<rparr>, rb_client = redis_of_cells, rb_layout = Literal, rb_pages = 8\<rparr>"

definition doc_cell :: "string \<Rightarrow> cell" where
  "doc_cell k = (None, ''docs:v1:'' @ k)"

definition contended :: server where
  "contended = \<lparr>sv_cells = [(doc_cell ''c'', ''o''), (doc_cell ''d'', ''n''), (doc_cell ''e'', ''o'')],
     sv_others = [[(doc_cell ''b'', Some ''t'')], [], [], [], [], [], [], [(doc_cell ''e'', Some ''t'')]],
     sv_watched = [], sv_touched = False, sv_seen = [], sv_log = []\<rparr>"

definition wanted :: "(string, string cond_write) dict" where
  "wanted = (let old = Versioned (Some ''o'') (Some (wire_token ''o'')) in
     [(''a'', ConditionalWrite absent (Put ''1'') None), (''b'', ConditionalWrite absent (Put ''2'') None),
      (''c'', ConditionalWrite old (Put ''3'') None), (''d'', ConditionalWrite old (Put ''4'') None), (''e'', ConditionalWrite old Remove None)])"


theorem redis_swap_exact_witness:
  "\<exists>w' es. redis_batch_write_if_unchanged flat_docs wanted None contended = (Inr {''a'', ''c''}, w')
    \<and> sv_log w' = es \<and> exactly_swapped flat_docs wanted {''a'', ''c''} es"
proof -
  have server: "redis_server (rb_client flat_docs) sv_log (\<lambda>w. set (sv_watched w)) (\<lambda>w. dget (sv_seen w)) fresh"
    using cells.redis_server_axioms by (simp add: flat_docs_def)
  have start: "fresh contended" "sv_log contended = []" by (simp_all add: fresh_def contended_def)
  have ok: "dict_ok wanted" by code_simp
  have inj: "inj_on (redis_key flat_docs) (set (dkeys wanted))"
  proof -
    have "distinct (map (redis_key flat_docs) (dkeys wanted))" by code_simp
    then show ?thesis unfolding distinct_map [of _ "dkeys wanted"] by blast
  qed
  have run: "fst (redis_batch_write_if_unchanged flat_docs wanted None contended) = Inr {''a'', ''c''}" by code_simp
  then obtain w' where w': "redis_batch_write_if_unchanged flat_docs wanted None contended = (Inr {''a'', ''c''}, w')"
    by (metis prod.collapse)
  from redis_swap_exact [OF server start(1) ok inj w'] w' start(2) show ?thesis by auto
qed

text \<open>Two pages; what the second looks through is of another collection.\<close>

definition three_cells :: "(cell, string) dict" where
  "three_cells = [(doc_cell ''c'', ''1''), (doc_cell ''d'', ''2''), ((None, ''mail:v1:z''), ''3'')]"

theorem redis_scan_ends_witness:
  "yields (\<lambda>w. sv_cells w = three_cells \<and> sv_others w = []) (redis_scan_gen flat_docs \<lparr>sq_prefix = None, sq_include_values = True, sq_page_size = 2\<rparr>)
     [(''c'', Some ''1''), (''d'', Some ''2'')]"
proof -
  let ?q = "\<lparr>sq_prefix = None, sq_include_values = True, sq_page_size = 2\<rparr> :: string scan_query" and ?I = "\<lambda>w. sv_cells w = three_cells \<and> sv_others w = []"
  let ?kss = "[[''docs:v1:c'', ''docs:v1:d''], []]" and ?stored = "\<lambda>pk. dget three_cells (None, pk)"
  have "iteration ?I (rb_client flat_docs) (''docs:v1'' @ ''*'') (sq_page_size ?q) 2 [[]]"
    by (auto simp: flat_docs_def redis_of_cells_def three_cells_def doc_cell_def matches_def py_startswith_def)
  then have iter: "iteration ?I (rb_client flat_docs) (''docs:v1'' @ ''*'') (sq_page_size ?q) 0 ?kss"
    by (rule iteration_next) (simp_all add: flat_docs_def redis_of_cells_def three_cells_def doc_cell_def matches_def py_startswith_def)
  have rows: "concat (map (listed_row flat_docs ''docs:v1'' (sq_include_values ?q) ?stored) (concat ?kss)) = [(''c'', Some ''1''), (''d'', Some ''2'')]"
    by code_simp
  have "yields ?I (redis_scan_gen flat_docs ?q) (concat (map (listed_row flat_docs ''docs:v1'' (sq_include_values ?q) ?stored) (concat ?kss)))"
  proof (rule redis_scan_ends [OF _ _ _ iter])
    show "\<not> use_hash flat_docs" by code_simp
    show "scan_prefix_blob (rb_backend flat_docs) (sq_prefix ?q) = Inr ''docs:v1''" by code_simp
    show "\<exists>w'. rd_mget (rb_client flat_docs) ks w = (Inr (map ?stored ks), w') \<and> ?I w'" if "?I w" for ks w
      using that by (simp add: flat_docs_def redis_of_cells_def read_cells_def others_act_def comp_def)
    show "\<exists>v. redis_deserialize flat_docs r = Inr v" for r
      by (simp add: redis_deserialize_def flat_docs_def serde_result_def)
  qed (simp_all add: flat_docs_def)
  then show ?thesis by (simp only: rows)
qed

text \<open>
  The prefix of version 1 is one of version 10 too, and what follows it need not begin with the
  separator: a scan takes a key of version 10 for a key of version 1, which no read finds.
\<close>

lemma sibling_version_listed:
  "listed_row flat_docs ''docs:v1'' True (\<lambda>pk. Some ''3'') ''docs:v10:z'' = [(''0:z'', Some ''3'')]"
  "redis_key flat_docs ''0:z'' = Inr ''docs:v1:0:z''"
  by code_simp+

end
