(* ===== verification/Spec2Isabelle.thy ===== *)
theory Spec2Isabelle
  imports Topology_Properties Key_Properties Composition_Properties Scan_Properties View_Properties Cache_Properties
    Index_Properties Redis_Properties
begin

text \<open>
  \<^bold>\<open>kvtsjl: typed key-value stores and their compositions\<close>

  A model of the core of \<open>src/kvtsjl\<close>, with the theorems that make it correct. The program
  has keymaps (typed reads, writes and conditional writes), stores (keymaps with scopes,
  expiry and scans), leaf stores over a medium, and compositions that hold one record in
  several places: a fallback, a mirror, an index, the parts of a zip. A composition declares
  a topology of targets with roles, and every operation over it is derived from the roles.

  \<^bold>\<open>How the code is modelled.\<close> A computation is \<open>prog\<close>: from the media \<open>'w\<close> to an exception or a
  result, and the media changed; what was done before an exception stays done. A keymap, a
  target, a store and a scanner are records of their operations. A dictionary is an
  association list, since the code depends on its order. Exceptions are the datatype \<open>exn\<close>,
  messages left out. Text is the list of its UTF-8 bytes. Times are integers of microseconds.
  A Python generator is a value of the datatype \<open>gen\<close>, whose steps on the media interleave with
  its consumer's. Every definition computes.

  \<^bold>\<open>Theories, in the order of their imports.\<close>
  \<^item> \<open>Prelude\<close>, \<open>Effects\<close>, \<open>Generators\<close>: dictionaries, chunks (\<open>batching.py\<close>), exceptions
    (\<open>exceptions.py\<close>), computations, generators and the loops over them.
  \<^item> \<open>Store_Schema\<close>: \<open>store/schema/ttl.py\<close>, \<open>stat.py\<close>, \<open>policy.py\<close>.
  \<^item> \<open>Keymap\<close>, \<open>Keymap_Spec\<close>: the interface of \<open>keymap.py\<close> with its default methods and the
    compare-and-write loop of \<open>batch_update\<close>; its contracts as locales (\<open>point_reads\<close>,
    \<open>readable_keymap\<close>, \<open>writable_keymap\<close>, \<open>conditional_keymap\<close>, \<open>stat_keymap\<close>), each interpreted on
    the keymaps below. The client's theorem of \<open>conditional_keymap\<close> is that an update under
    contention applies its decision to a value that was stored, or reports a conflict.
  \<^item> \<open>Dict_Map\<close>: \<open>keymap_algebra/dict_map.py\<close>, with the interpretations.
  \<^item> \<open>Targets\<close>, \<open>Topology\<close>: \<open>keymap_algebra/topology.py\<close>; \<open>Topology_Order\<close>, \<open>Topology_Laws\<close>,
    \<open>Topology_Trace\<close>: a journal of what an operation calls, the order every operation keeps, and
    that the journal only watches; \<open>Topology_Reads\<close>: what reads answer (the locales
    \<open>whole_record\<close> and \<open>parts_record\<close>); \<open>Sync_Reports\<close>: what fails after the commit point and how it
    is reported; \<open>Topology_Properties\<close>.
  \<^item> \<open>Store\<close>: the store interface and composed stores (\<open>store/logical.py\<close>,
    \<open>store/compose/topology.py\<close>); \<open>Compositions\<close>: \<open>coalesce\<close>, \<open>zip\<close>, \<open>mirror\<close>, \<open>indexed\<close>;
    \<open>Composition_Laws\<close>, \<open>Composition_Writes\<close>, \<open>Composition_Zip\<close>, \<open>Fill_Laws\<close>,
    \<open>Composition_Stores\<close>, \<open>Composition_Properties\<close>: that they are instances of the contracts.
  \<^item> \<open>Key_Encoding\<close>, \<open>Key_Laws\<close>, \<open>Key_Properties\<close>: scopes, escaping, physical keys and layouts
    (\<open>scope.py\<close>, \<open>schema/blob_ops.py\<close>, \<open>store/schema/kvset.py\<close>, \<open>bind/namespace.py\<close>,
    \<open>store/backend.py\<close>, \<open>store/schema/layout.py\<close>, \<open>store/schema/key_codec.py\<close>), their round trips.
  \<^item> \<open>Memory_Backend\<close>, \<open>Memory_Laws\<close>, \<open>Memory_Properties\<close>: \<open>backends/memory.py\<close> and \<open>store/leaf.py\<close>,
    shown to keep the keymap contracts; expiry, isolation of scopes, listing, collection.
  \<^item> \<open>Glob\<close>, \<open>Scan_Schema\<close>, \<open>Scan_Laws\<close>: \<open>store/schema/scan.py\<close>: predicates, what taking them apart
    keeps, and the cascade against its specification (the locale \<open>hydrated_reads\<close>).
    \<open>Scan_Stores\<close>: \<open>store/capabilities.py\<close>, \<open>store/fanout.py\<close>, the scans of leaves and
    compositions; \<open>Scan_Memory\<close>, \<open>Scan_Properties\<close>: scans of the in-memory store.
  \<^item> \<open>Views\<close>, \<open>View_Stores\<close>: \<open>keymap_algebra/map.py\<close>, \<open>then.py\<close>, \<open>expand.py\<close> and the stores
    \<open>store/compose/mapped.py\<close>, \<open>then.py\<close>, \<open>expand.py\<close>, \<open>readonly.py\<close>, \<open>grouped.py\<close>; \<open>View_Laws\<close>: every
    read-only view keeps the contract of reads (the locale \<open>readable_view\<close>), \<open>imap\<close> and \<open>imap_keys\<close>
    that of conditional writes; \<open>Memory_Batches\<close>, \<open>View_Properties\<close>: views over the in-memory store.
  \<^item> \<open>Object_Driver\<close>, \<open>Object_Store\<close>: \<open>backends/object/driver.py\<close>, \<open>ttl.py\<close>, \<open>store.py\<close>: the template of
    object stores over any driver and source of expiry, and \<open>map_concurrent\<close>; \<open>Object_Laws\<close>,
    \<open>Object_Listing\<close>: the contract of a driver (the locales \<open>blob_medium\<close> and \<open>listed_medium\<close>) and
    what the template does over it (\<open>object_records\<close>, \<open>listed_records\<close>), which is to keep the
    contracts of keymaps. \<open>Fs_Driver\<close>, \<open>Fs_Laws\<close>, \<open>Fs_Listing\<close>: \<open>fs_driver.py\<close> over a model of the
    disk, \<open>binding.py\<close>, \<open>backends/filesystem.py\<close>, shown to keep them; \<open>Object_Properties\<close>: files
    against a map, expiry, inserts, listing, collection; \<open>Cache_Properties\<close>: a cache in memory
    before files.
  \<^item> \<open>Indexes\<close>, \<open>Vector_Index\<close>: \<open>index/logical/abc.py\<close>, \<open>bundle.py\<close>, \<open>vector.py\<close>, \<open>index/vector_backend.py\<close>,
    \<open>index/schema/index_set.py\<close>, \<open>backends/index/memory.py\<close>, \<open>memory_vector.py\<close> and the searches of
    \<open>store/compose/indexed.py\<close>; \<open>Index_Laws\<close>, \<open>Vector_Laws\<close>: the contract of an index (the locales
    \<open>tracked_index\<close> and \<open>searched_index\<close>) and that the in-memory indexes keep it, with the inverse
    postings of terms and the states views of a vector collection can reach; \<open>Index_Store\<close>: a store
    and its index stay in step (\<open>indexed_store\<close>); \<open>Index_Properties\<close>. The order of a Python set and
    floating point arithmetic are parameters.

  \<^item> \<open>Redis_Store\<close>: \<open>backends/redis.py\<close> over any client; \<open>Redis_Laws\<close>: what it relies on of the server
    (the locale \<open>redis_server\<close>: watched keys, transactions, inserts) and that a conditional write then
    replaces only what was seen, whatever others write in between; \<open>Redis_Properties\<close>: that property,
    the rows and the end of a scan, and a server with a schedule of other clients that keeps the laws.

  \<^bold>\<open>Bounds and fuel.\<close> The compare-and-write loop takes the number of attempts as the code does,
  so it always ends; \<open>fill_missing\<close> recurs over the pages it is given. Generators end. The
  iteration over the keys of a Redis server is as long as the server makes it: \<open>rb_pages\<close> bounds its
  pages, and \<open>redis_scan_ends\<close> shows that an iteration of no more pages is read to its end. Nothing
  else loops.

  \<^bold>\<open>Findings.\<close> Lemmas named in the manifest show, on concrete states, where the code departs
  from what it states: records of sibling scopes listed, searched and collected, keys that collide or
  are never listed, failures tolerated or raised against the stated laws.

  \<^bold>\<open>Not modelled.\<close> Streams of chunks, logging and text for people; SQL text and database
  drivers, the Redis client (a parameter) and that of Chroma, the drivers of S3, GCS and Azure (the template above them
  is modelled); serdes and SHA-256, which are parameters; the fluent constructors. The pool of
  \<open>map_concurrent\<close> runs in one of its schedules. The clock stands still during one operation.
\<close>

end
